(* ===== verification/Prelude.thy ===== *)
theory Prelude
  imports Main "HOL-Library.Word"
begin

text \<open>
  Shared vocabulary of the development.

  Machine integers of the source are words of their width (\<^verbatim>\<open>u8\<close> to \<^verbatim>\<open>u64\<close>).
  The decoders of the repository keep a received bit string as an array of bytes that
  hold 0 or 1; the model is a \<^verbatim>\<open>bool list\<close> (type \<^verbatim>\<open>bits\<close>), element 0 first on
  the air.  XOR of two bits is disequality.  The theory has the vector-space operations on
  bit strings (\<^verbatim>\<open>xorl\<close>, \<^verbatim>\<open>zeros\<close>, \<^verbatim>\<open>unit\<close>), the Hamming weight and distance,
  and the conversions between bit strings and words that every component uses.
\<close>

unbundle bit_operations_syntax

type_synonym u8 = "8 word"
type_synonym u16 = "16 word"
type_synonym u32 = "32 word"
type_synonym u64 = "64 word"
type_synonym bits = "bool list"
type_synonym bytes = "8 word list"

named_theorems bits_len "lengths of bit strings"
named_theorems xorl_simps "algebra of bit strings"

section \<open>Bit strings as vectors\<close>

definition xorl :: "bits \<Rightarrow> bits \<Rightarrow> bits" where
  "xorl xs ys = map2 (\<noteq>) xs ys"

definition zeros :: "nat \<Rightarrow> bits" where
  "zeros n = replicate n False"

definition unit :: "nat \<Rightarrow> nat \<Rightarrow> bits" where
  "unit n i = (zeros n)[i := True]"

definition flip_at :: "nat \<Rightarrow> bits \<Rightarrow> bits" where
  "flip_at i xs = xs[i := \<not> xs ! i]"

definition xor_at :: "bits \<Rightarrow> nat list \<Rightarrow> bool" where
  "xor_at d is = foldr (\<lambda>i acc. (d ! i) \<noteq> acc) is False"

definition weight :: "bits \<Rightarrow> nat" where
  "weight xs = length (filter id xs)"

definition hdist :: "bits \<Rightarrow> bits \<Rightarrow> nat" where
  "hdist xs ys = weight (xorl xs ys)"

lemma length_xorl [simp, bits_len]: "length (xorl xs ys) = min (length xs) (length ys)"
  by (simp add: xorl_def)

lemma length_zeros [simp, bits_len]: "length (zeros n) = n"
  by (simp add: zeros_def)

lemma length_unit [simp, bits_len]: "length (unit n i) = n"
  by (simp add: unit_def)

lemma length_flip_at [simp, bits_len]: "length (flip_at i xs) = length xs"
  by (simp add: flip_at_def)

lemma nth_xorl [simp]:
  "i < length xs \<Longrightarrow> i < length ys \<Longrightarrow> xorl xs ys ! i = (xs ! i \<noteq> ys ! i)"
  by (simp add: xorl_def)

lemma nth_zeros [simp]: "i < n \<Longrightarrow> zeros n ! i = False"
  by (simp add: zeros_def)

lemma nth_unit [simp]: "i < n \<Longrightarrow> unit n j ! i = (i = j)"
  by (cases "i = j") (auto simp: unit_def)

lemma nth_flip_at [simp]:
  "j < length xs \<Longrightarrow> flip_at i xs ! j = (xs ! j \<noteq> (i = j))"
  by (auto simp: flip_at_def nth_list_update)

lemma xorl_Nil [simp]: "xorl [] ys = []" "xorl xs [] = []"
  by (simp_all add: xorl_def)

lemma xorl_Cons [simp]: "xorl (x # xs) (y # ys) = (x \<noteq> y) # xorl xs ys"
  by (simp add: xorl_def)

lemma xorl_commute: "xorl xs ys = xorl ys xs"
  by (intro nth_equalityI) auto

lemma xorl_assoc: "xorl (xorl xs ys) zs = xorl xs (xorl ys zs)"
  by (intro nth_equalityI) auto

lemma xorl_self [xorl_simps]: "xorl xs xs = zeros (length xs)"
  by (intro nth_equalityI) auto

lemma xorl_zeros [xorl_simps]: "length xs = n \<Longrightarrow> xorl xs (zeros n) = xs"
  by (intro nth_equalityI) auto

lemma xorl_zeros_left [xorl_simps]: "length xs = n \<Longrightarrow> xorl (zeros n) xs = xs"
  by (intro nth_equalityI) auto

lemma xorl_cancel [xorl_simps]: "length xs = length ys \<Longrightarrow> xorl (xorl xs ys) ys = xs"
  by (intro nth_equalityI) auto

lemma xorl_cancel_left [xorl_simps]: "length xs = length ys \<Longrightarrow> xorl xs (xorl xs ys) = ys"
  by (intro nth_equalityI) auto

lemma xorl_eq_zeros_iff:
  assumes "length xs = length ys"
  shows "xorl xs ys = zeros (length xs) \<longleftrightarrow> xs = ys"
  using assms by (auto simp: list_eq_iff_nth_eq)

lemma xorl_append:
  "length xs = length xs' \<Longrightarrow> xorl (xs @ ys) (xs' @ ys') = xorl xs xs' @ xorl ys ys'"
  by (simp add: xorl_def)

lemma take_xorl: "take n (xorl xs ys) = xorl (take n xs) (take n ys)"
  by (simp add: xorl_def take_map take_zip)

lemma drop_xorl: "drop n (xorl xs ys) = xorl (drop n xs) (drop n ys)"
  by (simp add: xorl_def drop_map drop_zip)

lemma flip_at_xorl: "flip_at i xs = xorl xs (unit (length xs) i)"
  by (intro nth_equalityI) auto

lemma flip_at_twice [simp]: "flip_at i (flip_at i xs) = xs"
  by (intro nth_equalityI) auto

lemma flip_at_out [simp]: "length xs \<le> i \<Longrightarrow> flip_at i xs = xs"
  by (simp add: flip_at_def list_update_beyond)

lemma xor_at_simps [simp]:
  "xor_at d [] = False" "xor_at d (i # is) = ((d ! i) \<noteq> xor_at d is)"
  by (simp_all add: xor_at_def)

lemma xor_at_xorl:
  assumes "\<forall>i\<in>set is. i < length xs \<and> i < length ys"
  shows "xor_at (xorl xs ys) is = (xor_at xs is \<noteq> xor_at ys is)"
  using assms by (induction "is") auto

section \<open>Weight and distance\<close>

lemma weight_Nil [simp]: "weight [] = 0"
  by (simp add: weight_def)

lemma weight_Cons [simp]: "weight (x # xs) = of_bool x + weight xs"
  by (simp add: weight_def)

lemma weight_append [simp]: "weight (xs @ ys) = weight xs + weight ys"
  by (simp add: weight_def)

lemma weight_le_length: "weight xs \<le> length xs"
  by (simp add: weight_def)

lemma weight_zeros [simp]: "weight (zeros n) = 0"
  by (simp add: weight_def zeros_def)

lemma weight_0_iff: "weight xs = 0 \<longleftrightarrow> xs = zeros (length xs)"
  by (induction xs) (auto simp: zeros_def)

lemma weight_xorl_le: "weight (xorl xs ys) \<le> weight xs + weight ys"
proof (induction xs arbitrary: ys)
  case (Cons x xs)
  note IH = this
  show ?case
  proof (cases ys)
    case (Cons y ys')
    then show ?thesis using IH [of ys'] by (cases x; cases y) simp_all
  qed simp
qed simp

lemma weight_pos: "i < length xs \<Longrightarrow> xs ! i \<Longrightarrow> 0 < weight xs"
  by (induction xs arbitrary: i) (auto simp: nth_Cons split: nat.splits)

lemma flip_at_Cons [simp]:
  "flip_at 0 (x # xs) = (\<not> x) # xs" "flip_at (Suc i) (x # xs) = x # flip_at i xs"
  by (simp_all add: flip_at_def)

lemma weight_flip_at:
  "i < length xs \<Longrightarrow> weight (flip_at i xs) = (if xs ! i then weight xs - 1 else Suc (weight xs))"
proof (induction xs arbitrary: i)
  case (Cons x xs)
  show ?case
  proof (cases i)
    case (Suc j)
    with Cons.prems have "j < length xs" by simp
    then show ?thesis using Suc Cons.IH [of j] weight_pos [of j xs] by simp
  qed simp
qed simp

lemma distinct_map_upt_iff:
  assumes "distinct (map h [0..<n])" "i < n" "j < n"
  shows "h i = h j \<longleftrightarrow> i = j"
  using assms nth_eq_iff_index_eq [OF assms(1), of i j] by simp

lemma unat_lt: "unat (w :: 'a::len word) < 2 ^ LENGTH('a)"
  by (rule unsigned_less)

lemma bit_times_2 [simp]:
  "bit (a * 2 :: 'a::len word) k \<longleftrightarrow> 0 < k \<and> k < LENGTH('a) \<and> bit a (k - 1)"
  using bit_double_iff [of a k] by (auto simp: mult.commute possible_bit_def)

lemma xor_zero_eq:
  assumes "a XOR b = (0 :: 'a::len word)" shows "a = b"
proof -
  have "a XOR (a XOR b) = b" by (simp add: xor.assoc [symmetric])
  then show ?thesis using assms by simp
qed

lemma hdist_commute: "hdist xs ys = hdist ys xs"
  by (simp add: hdist_def xorl_commute)

lemma hdist_0_iff: "length xs = length ys \<Longrightarrow> hdist xs ys = 0 \<longleftrightarrow> xs = ys"
  using weight_0_iff [of "xorl xs ys"] xorl_eq_zeros_iff [of xs ys] by (simp add: hdist_def)

lemma hdist_triangle:
  assumes "length xs = length ys" "length ys = length zs"
  shows "hdist xs zs \<le> hdist xs ys + hdist ys zs"
proof -
  have "xorl xs zs = xorl (xorl xs ys) (xorl ys zs)"
    using assms by (intro nth_equalityI) auto
  then show ?thesis by (simp add: hdist_def weight_xorl_le)
qed

lemma hdist_xorl:
  assumes "length xs = n" "length ys = n" "length e = n"
  shows "hdist (xorl xs e) ys = weight (xorl (xorl xs ys) e)"
proof -
  have "xorl (xorl xs e) ys = xorl (xorl xs ys) e"
    using assms by (intro nth_equalityI) auto
  then show ?thesis by (simp add: hdist_def)
qed

section \<open>Bit strings and words\<close>

text \<open>
  \<^verbatim>\<open>bits_to_uint\<close> and \<^verbatim>\<open>uint_to_bits\<close> of \<^verbatim>\<open>src/modules/dmr/dmr_fec.hpp\<close>,
  most significant bit first.
\<close>

definition shift_in :: "'a::len word \<Rightarrow> bool \<Rightarrow> 'a word" where
  "shift_in v x = push_bit 1 v OR of_bool x"

definition bits_to_uint :: "bits \<Rightarrow> nat \<Rightarrow> u32" where
  "bits_to_uint b n = foldl shift_in 0 (take n b)"

definition uint_to_bits :: "u32 \<Rightarrow> nat \<Rightarrow> bits" where
  "uint_to_bits v n = map (\<lambda>j. bit v (n - 1 - j)) [0..<n]"

definition popcount :: "'a::len word \<Rightarrow> nat" where
  "popcount w = length (filter (bit w) [0..<LENGTH('a)])"

definition pack_msb :: "bits \<Rightarrow> 'a::len word" where
  "pack_msb xs = foldl shift_in 0 xs"

lemma bits_to_uint_pack: "bits_to_uint b n = pack_msb (take n b)"
  by (simp add: bits_to_uint_def pack_msb_def)

lemma pack_msb_snoc: "pack_msb (xs @ [x]) = shift_in (pack_msb xs) x"
  by (simp add: pack_msb_def)

lemma bit_shift_in:
  "bit (shift_in v x :: 'a::len word) k \<longleftrightarrow>
     (if k = 0 then x else k < LENGTH('a) \<and> bit v (k - 1))"
proof (cases k)
  case 0
  then show ?thesis by (simp only: shift_in_def bit_or_iff bit_push_bit_iff) (simp add: bit_of_bool_iff)
next
  case (Suc j)
  then show ?thesis
    by (simp only: shift_in_def bit_or_iff bit_push_bit_iff)
      (auto simp: bit_of_bool_iff possible_bit_def dest: bit_imp_le_length)
qed

lemma bit_pack_msb:
  "bit (pack_msb xs :: 'a::len word) k \<longleftrightarrow>
     k < LENGTH('a) \<and> k < length xs \<and> xs ! (length xs - 1 - k)"
proof (induction xs arbitrary: k rule: rev_induct)
  case Nil
  then show ?case by (simp add: pack_msb_def)
next
  case (snoc x xs)
  show ?case
    by (cases k) (auto simp: pack_msb_snoc bit_shift_in snoc.IH nth_append)
qed

lemma bit_or_fold:
  "bit (foldl (\<lambda>t i. t OR push_bit (g i) (of_bool (p i))) a is :: 'a::len word) k \<longleftrightarrow>
     bit a k \<or> (k < LENGTH('a) \<and> (\<exists>i\<in>set is. g i = k \<and> p i))"
proof (induction "is" arbitrary: a)
  case (Cons i "is")
  have "bit (a OR push_bit (g i) (of_bool (p i))) k \<longleftrightarrow> bit a k \<or> (k < LENGTH('a) \<and> g i = k \<and> p i)"
    by (auto simp: bit_or_iff bit_push_bit_iff bit_of_bool_iff)
  then show ?case by (auto simp: Cons.IH)
qed simp

lemma funpow_numeral_step: "(f ^^ numeral k) r = (f ^^ pred_numeral k) (f r)"
  by (simp add: numeral_eq_Suc funpow_swap1)

lemma length_uint_to_bits [simp, bits_len]: "length (uint_to_bits v n) = n"
  by (simp add: uint_to_bits_def)

lemma uint_to_bits_pack:
  assumes "length xs = n" "n \<le> 32"
  shows "uint_to_bits (pack_msb xs) n = xs"
  using assms by (intro nth_equalityI) (auto simp: uint_to_bits_def bit_pack_msb)

lemma pack_uint_to_bits:
  assumes "n \<le> 32"
  shows "pack_msb (uint_to_bits v n) = take_bit n (v :: u32)"
  using assms by (intro bit_word_eqI) (auto simp: bit_pack_msb uint_to_bits_def bit_take_bit_iff)

lemma pack_msb_xorl:
  assumes "length xs = length ys"
  shows "pack_msb (xorl xs ys) = (pack_msb xs XOR pack_msb ys :: 'a::len word)"
  using assms by (intro bit_word_eqI) (auto simp: bit_pack_msb bit_xor_iff)

lemma weight_card: "weight xs = card {i. i < length xs \<and> xs ! i}"
  by (simp add: weight_def length_filter_conv_card)

lemma popcount_card: "popcount (w :: 'a::len word) = card {k. k < LENGTH('a) \<and> bit w k}"
proof -
  have "{i. i < length [0..<LENGTH('a)] \<and> bit w ([0..<LENGTH('a)] ! i)} = {k. k < LENGTH('a) \<and> bit w k}"
    by auto
  then show ?thesis by (simp add: popcount_def length_filter_conv_card)
qed

lemma popcount_pack_msb:
  assumes "length xs \<le> LENGTH('a)"
  shows "popcount (pack_msb xs :: 'a::len word) = weight xs"
proof -
  have "bij_betw (\<lambda>k. length xs - 1 - k) {k. k < LENGTH('a) \<and> bit (pack_msb xs :: 'a word) k}
          {i. i < length xs \<and> xs ! i}"
    using assms
    by (intro bij_betw_byWitness [where f' = "\<lambda>k. length xs - 1 - k"]) (auto simp: bit_pack_msb)
  then show ?thesis by (simp add: popcount_card weight_card bij_betw_same_card)
qed

lemma take_Suc_update:
  "n < length xs \<Longrightarrow> take n xs = ys \<Longrightarrow> take (Suc n) (xs[n := x]) = ys @ [x]"
  by (simp add: take_Suc_conv_app_nth)

section \<open>C strings in fixed buffers\<close>

text \<open>
  The text in a buffer of \<^verbatim>\<open>n\<close> bytes (\<^verbatim>\<open>strnlen\<close>), a zeroed buffer of
  \<^verbatim>\<open>n\<close> bytes after \<^verbatim>\<open>strncpy (buf, s, n - 1)\<close>, and the overwriting of bytes in place.
\<close>

definition cstr :: "nat \<Rightarrow> bytes \<Rightarrow> bytes" where
  "cstr n xs = takeWhile (\<lambda>c. c \<noteq> 0) (take n xs)"

definition str_buf :: "nat \<Rightarrow> bytes \<Rightarrow> bytes" where
  "str_buf n s = (let t = take (n - 1) (takeWhile (\<lambda>c. c \<noteq> 0) s) in t @ replicate (n - length t) 0)"

definition splice :: "nat \<Rightarrow> 'a list \<Rightarrow> 'a list \<Rightarrow> 'a list" where
  "splice off ys xs = take off xs @ ys @ drop (off + length ys) xs"

lemma length_splice [simp]: "off + length ys \<le> length xs \<Longrightarrow> length (splice off ys xs) = length xs"
  by (simp add: splice_def)

lemma nth_splice:
  assumes "off + length ys \<le> length xs" "k < length xs"
  shows "splice off ys xs ! k = (if off \<le> k \<and> k < off + length ys then ys ! (k - off) else xs ! k)"
  using assms by (auto simp: splice_def nth_append min_def)

lemma length_str_buf [simp]: "0 < n \<Longrightarrow> length (str_buf n s) = n"
  by (simp add: str_buf_def Let_def)

lemma map_update_same [simp]: "i < length xs \<Longrightarrow> (xs[i := f (xs ! i)]) ! i = f (xs ! i)"
  by simp

text \<open>C strings seen as bytes and as characters.\<close>

definition chars_of :: "bytes \<Rightarrow> string" where "chars_of bs = map (\<lambda>b. char_of (unat b)) bs"
definition bytes_of :: "string \<Rightarrow> bytes" where "bytes_of s = map of_char s"

lemma length_chars_of [simp]: "length (chars_of bs) = length bs"
  by (simp add: chars_of_def)

lemma length_bytes_of [simp]: "length (bytes_of s) = length s"
  by (simp add: bytes_of_def)

lemma unat_of_char: "unat (of_char c :: u8) = of_char c"
proof -
  have "(of_char c :: u8) = of_nat (of_char c :: nat)" by (simp only: of_nat_of_char)
  then show ?thesis using nat_of_char_less_256 [of c] by (simp only: unat_of_nat) simp
qed

lemma chars_bytes_of [simp]: "chars_of (bytes_of s) = s"
  by (simp add: chars_of_def bytes_of_def comp_def unat_of_char)

lemma bytes_chars_of [simp]: "bytes_of (chars_of bs) = bs"
proof -
  have "(of_char (char_of (unat b) :: char) :: u8) = b" for b :: u8
    by (rule word_unat_eq_iff [THEN iffD2]) (use unat_lt [of b] in \<open>simp add: unat_of_char\<close>)
  then show ?thesis by (simp add: chars_of_def bytes_of_def comp_def)
qed

lemma chars_of_append [simp]: "chars_of (a @ b) = chars_of a @ chars_of b"
  by (simp add: chars_of_def)

lemma bytes_of_append [simp]: "bytes_of (a @ b) = bytes_of a @ bytes_of b"
  by (simp add: bytes_of_def)

lemma of_char_eq_0 [simp]: "(of_char c :: u8) = 0 \<longleftrightarrow> c = CHR 0x00"
proof
  assume "(of_char c :: u8) = 0"
  then have "(of_char c :: nat) = of_char (CHR 0x00)" using unat_of_char [of c] by simp
  then show "c = CHR 0x00" by (simp only: of_char_eq_iff)
qed simp

end
