(* ===== verification/CrcRegister.thy ===== *)
theory CrcRegister
  imports Prelude
begin

text \<open>
  The contract that every cyclic redundancy check of the repository meets: a register of
  \<^verbatim>\<open>n\<close> bits inside a machine word, a linear autonomous step \<^verbatim>\<open>S\<close> that loses no
  information, and message bits that enter at the end of the register the step shifts out.
  \<^verbatim>\<open>pos i\<close> is the register bit that reaches the entry point after \<^verbatim>\<open>i\<close> steps
  (\<^verbatim>\<open>i\<close> itself for the reflected checks, \<^verbatim>\<open>n - 1 - i\<close> for the others).  Inside the
  locale: the run over a message is linear, it equals one XOR followed by autonomous steps
  for messages of up to \<^verbatim>\<open>n\<close> bits, and it separates any two messages that differ by a
  burst of up to \<^verbatim>\<open>n\<close> bits.
\<close>

definition single :: "nat \<Rightarrow> 'a::len word" where
  "single p = push_bit p 1"

definition crc_feed :: "('a::len word \<Rightarrow> 'a word) \<Rightarrow> nat \<Rightarrow> 'a word \<Rightarrow> bool \<Rightarrow> 'a word" where
  "crc_feed S p r x = S (if x then r XOR single p else r)"

definition crc_run :: "('a::len word \<Rightarrow> 'a word) \<Rightarrow> nat \<Rightarrow> 'a word \<Rightarrow> bits \<Rightarrow> 'a word" where
  "crc_run S p r xs = foldl (crc_feed S p) r xs"

definition byte_lsb :: "u8 \<Rightarrow> bits" where
  "byte_lsb b = map (bit b) [0..<8]"

definition byte_msb :: "u8 \<Rightarrow> bits" where
  "byte_msb b = map (\<lambda>i. bit b (7 - i)) [0..<8]"

fun placed :: "(nat \<Rightarrow> nat) \<Rightarrow> nat \<Rightarrow> bits \<Rightarrow> 'a::len word" where
  "placed pos i [] = 0"
| "placed pos i (x # xs) = (if x then single (pos i) else 0) XOR placed pos (Suc i) xs"

lemma crc_run_simps [simp]:
  "crc_run S p r [] = r"
  "crc_run S p r (x # xs) = crc_run S p (crc_feed S p r x) xs"
  "crc_run S p r (xs @ ys) = crc_run S p (crc_run S p r xs) ys"
  by (simp_all add: crc_run_def)

lemma length_byte_lsb [simp, bits_len]: "length (byte_lsb b) = 8"
  by (simp add: byte_lsb_def)

lemma length_byte_msb [simp, bits_len]: "length (byte_msb b) = 8"
  by (simp add: byte_msb_def)

lemma length_concat_byte_lsb [simp]: "length (concat (map byte_lsb bs)) = 8 * length bs"
  by (induction bs) auto

lemma length_concat_byte_msb [simp]: "length (concat (map byte_msb bs)) = 8 * length bs"
  by (induction bs) auto

lemma bit_single [simp]: "bit (single p :: 'a::len word) k \<longleftrightarrow> k = p \<and> p < LENGTH('a)"
  by (simp only: single_def bit_push_bit_iff) (auto simp: bit_1_iff)

lemma placed_append: "placed pos i (xs @ ys) = placed pos i xs XOR placed pos (i + length xs) ys"
  by (induction xs arbitrary: i) (auto simp: xor.assoc)

lemma bit_placed:
  "bit (placed pos i xs :: 'a::len word) k \<longleftrightarrow>
     (odd (card {j. j < length xs \<and> xs ! j \<and> pos (i + j) = k}) \<and> k < LENGTH('a))"
proof (induction xs arbitrary: i)
  case (Cons x xs)
  let ?A = "{j. j < length (x # xs) \<and> (x # xs) ! j \<and> pos (i + j) = k}"
  let ?B = "{j. j < length xs \<and> xs ! j \<and> pos (Suc i + j) = k}"
  have "?A = (if x \<and> pos i = k then {0} else {}) \<union> Suc ` ?B"
  proof (rule set_eqI)
    fix j show "j \<in> ?A \<longleftrightarrow> j \<in> (if x \<and> pos i = k then {0} else {}) \<union> Suc ` ?B"
      by (cases j) auto
  qed
  moreover have "0 \<notin> Suc ` ?B" by auto
  moreover have "card (Suc ` ?B) = card ?B" by (rule card_image) simp
  ultimately have "card ?A = (if x \<and> pos i = k then 1 else 0) + card ?B" by auto
  then show ?case using Cons.IH [of "Suc i"] by (auto simp: bit_xor_iff bit_single)
qed simp

lemma bit_placed_inj:
  assumes "inj_on pos {i..<i + length xs}" "j < length xs" "pos (i + j) < LENGTH('a)"
  shows "bit (placed pos i xs :: 'a::len word) (pos (i + j)) = xs ! j"
proof -
  have "{j'. j' < length xs \<and> xs ! j' \<and> pos (i + j') = pos (i + j)} = (if xs ! j then {j} else {})"
    using assms by (auto dest: inj_onD)
  then show ?thesis using assms(3) by (simp add: bit_placed)
qed

locale crc_register =
  fixes S :: "'a::len word \<Rightarrow> 'a word" and pos :: "nat \<Rightarrow> nat" and n :: nat
  assumes S_xor: "S (a XOR b) = S a XOR S b"
    and S_basis: "Suc i < n \<Longrightarrow> S (single (pos (Suc i))) = single (pos i)"
    and S_closed: "(\<forall>k. bit r k \<longrightarrow> k < n) \<Longrightarrow> bit (S r) k \<Longrightarrow> k < n"
    and S_nonzero: "(\<forall>k. bit r k \<longrightarrow> k < n) \<Longrightarrow> r \<noteq> 0 \<Longrightarrow> S r \<noteq> 0"
    and pos_less: "i < n \<Longrightarrow> pos i < n"
    and pos_inj: "inj_on pos {0..<n}"
    and width: "0 < n" "n \<le> LENGTH('a)"
begin

lemma S_zero: "S 0 = 0"
  using S_xor [of 0 0] by simp

lemma funpow_S_xor: "(S ^^ k) (a XOR b) = (S ^^ k) a XOR (S ^^ k) b"
  by (induction k) (simp_all add: S_xor)

lemma funpow_S_zero: "(S ^^ k) 0 = 0"
  by (induction k) (simp_all add: S_zero)

lemma funpow_S_nonzero:
  assumes "\<forall>k. bit r k \<longrightarrow> k < n" "r \<noteq> 0"
  shows "(\<forall>k. bit ((S ^^ m) r) k \<longrightarrow> k < n) \<and> (S ^^ m) r \<noteq> 0"
proof (induction m)
  case (Suc m)
  then show ?case using S_closed [of "(S ^^ m) r"] S_nonzero [of "(S ^^ m) r"] by auto
qed (use assms in simp)

lemma feed_xor:
  "crc_feed S p (r XOR r') (x \<noteq> y) = crc_feed S p r x XOR crc_feed S p r' y"
  by (cases x; cases y) (simp_all add: crc_feed_def S_xor ac_simps xor.left_commute)

lemma run_xor:
  assumes "length xs = length ys"
  shows "crc_run S p (r XOR r') (xorl xs ys) = crc_run S p r xs XOR crc_run S p r' ys"
  using assms
proof (induction xs ys arbitrary: r r' rule: list_induct2)
  case (Cons x xs y ys)
  then show ?case by (simp only: xorl_Cons crc_run_simps feed_xor)
qed simp

lemma run_False: "crc_run S p r (zeros k) = (S ^^ k) r"
  by (induction k arbitrary: r) (simp_all add: zeros_def crc_feed_def funpow_swap1)

lemma S_placed:
  assumes "Suc i + length xs \<le> n"
  shows "S (placed pos (Suc i) xs) = placed pos i xs"
  using assms
proof (induction xs arbitrary: i)
  case (Cons x xs)
  then have "S (placed pos (Suc (Suc i)) xs) = placed pos (Suc i) xs" by simp
  then show ?case using Cons.prems S_basis [of i] by (auto simp: S_xor S_zero)
qed (simp add: S_zero)

theorem run_short:
  assumes "length xs \<le> n"
  shows "crc_run S (pos 0) r xs = (S ^^ length xs) (r XOR placed pos 0 xs)"
  using assms
proof (induction xs arbitrary: r)
  case (Cons x xs)
  let ?e = "if x then single (pos 0) else 0 :: 'a word"
  have "crc_run S (pos 0) r (x # xs) = (S ^^ length xs) (crc_feed S (pos 0) r x XOR placed pos 0 xs)"
    using Cons by simp
  also have "crc_feed S (pos 0) r x = S (r XOR ?e)" by (simp add: crc_feed_def)
  also have "placed pos 0 xs = S (placed pos (Suc 0) xs)" using Cons.prems by (simp add: S_placed)
  also have "(S ^^ length xs) (S (r XOR ?e) XOR S (placed pos (Suc 0) xs)) =
      (S ^^ Suc (length xs)) (r XOR (?e XOR placed pos (Suc 0) xs))"
    by (simp add: S_xor [symmetric] xor.assoc funpow_swap1)
  finally show ?case by simp
qed simp

lemma placed_nonzero:
  assumes "length xs \<le> n" "xs \<noteq> zeros (length xs)"
  shows "(placed pos 0 xs :: 'a word) \<noteq> 0"
proof -
  have "\<exists>j<length xs. xs ! j"
    using assms(2) by (auto simp: list_eq_iff_nth_eq)
  then obtain j where j: "j < length xs" "xs ! j" by blast
  have "inj_on pos {0..<0 + length xs}" using pos_inj by (rule inj_on_subset) (use assms in auto)
  then have "bit (placed pos 0 xs :: 'a word) (pos (0 + j)) = xs ! j"
    using j assms(1) pos_less [of j] width by (intro bit_placed_inj) auto
  then show ?thesis using j by auto
qed

lemma placed_bits:
  assumes "length xs \<le> n"
  shows "bit (placed pos 0 xs :: 'a word) k \<Longrightarrow> k < n"
proof -
  assume "bit (placed pos 0 xs :: 'a word) k"
  then have "odd (card {j. j < length xs \<and> xs ! j \<and> pos (0 + j) = k})" by (simp add: bit_placed)
  then have "{j. j < length xs \<and> xs ! j \<and> pos (0 + j) = k} \<noteq> {}" by (metis card.empty even_zero)
  then show "k < n" using pos_less assms by auto
qed

theorem burst_nonzero:
  assumes "length b \<le> n" "b \<noteq> zeros (length b)"
  shows "crc_run S (pos 0) 0 (zeros p @ b @ zeros q) \<noteq> 0"
proof -
  have z: "crc_run S (pos 0) 0 (zeros p) = 0" by (simp add: run_False funpow_S_zero)
  have "crc_run S (pos 0) 0 b = (S ^^ length b) (placed pos 0 b)" using run_short [OF assms(1), of 0] by simp
  then have "(S ^^ q) (crc_run S (pos 0) 0 b) = (S ^^ (q + length b)) (placed pos 0 b)"
    by (simp add: funpow_add)
  moreover have "(S ^^ (q + length b)) (placed pos 0 b) \<noteq> (0 :: 'a word)"
    using funpow_S_nonzero placed_nonzero [OF assms] placed_bits [OF assms(1)] by blast
  ultimately show ?thesis using z by (simp add: run_False)
qed

theorem burst_detected:
  assumes "length xs = length ys" "xorl xs ys = zeros p @ b @ zeros q" "length b \<le> n" "xs \<noteq> ys"
  shows "crc_run S (pos 0) r xs \<noteq> crc_run S (pos 0) r ys"
proof
  assume eq: "crc_run S (pos 0) r xs = crc_run S (pos 0) r ys"
  have "crc_run S (pos 0) (r XOR r) (xorl xs ys) = 0"
    using run_xor [OF assms(1), of "pos 0" r r] eq by simp
  moreover have "b \<noteq> zeros (length b)"
  proof
    assume "b = zeros (length b)"
    then have "xorl xs ys = zeros (p + (length b + q))"
      using assms(2) by (metis replicate_add zeros_def)
    moreover have "length (xorl xs ys) = length xs" using assms(1) by simp
    ultimately have "xorl xs ys = zeros (length xs)" by (metis length_zeros)
    then show False using assms(1,4) xorl_eq_zeros_iff by blast
  qed
  ultimately show False using burst_nonzero [OF assms(3)] assms(2) by simp
qed

end

section \<open>The two shapes of register\<close>

text \<open>Reflected register: shift right, the polynomial has its top bit \<^verbatim>\<open>n - 1\<close> set.\<close>

lemma reflected_register:
  fixes P :: "'a::len word"
  assumes S: "\<And>r. S r = (if bit r 0 then drop_bit 1 r XOR P else drop_bit 1 r)"
    and P: "bit P (n - 1)" "\<forall>k. bit P k \<longrightarrow> k < n" and n: "0 < n" "n \<le> LENGTH('a)"
  shows "crc_register S (\<lambda>i. i) n"
proof
  show "S (a XOR b) = S a XOR S b" for a b
    by (cases "bit a 0"; cases "bit b 0"; intro bit_word_eqI) (auto simp: S bit_xor_iff bit_drop_bit_eq)
  show "S (single (Suc i)) = single i" if "Suc i < n" for i
    using that n by (intro bit_word_eqI) (auto simp: S bit_single bit_drop_bit_eq)
  show "k < n" if "\<forall>k. bit r k \<longrightarrow> k < n" "bit (S r) k" for r k
    using that P by (auto simp: S bit_xor_iff bit_drop_bit_eq split: if_splits)
  show "S r \<noteq> 0" if reg: "\<forall>k. bit r k \<longrightarrow> k < n" and nz: "r \<noteq> 0" for r
  proof (cases "bit r 0")
    case True
    have "\<not> bit r n" using reg by blast
    then have "bit (S r) (n - 1)" using True P n by (simp add: S bit_xor_iff bit_drop_bit_eq)
    then show ?thesis by auto
  next
    case False
    obtain k where "bit r k" using nz bit_word_eqI [of r 0] by auto
    then obtain j where "k = Suc j" "bit r (Suc j)" using False by (cases k) auto
    then have "bit (S r) j" using False by (simp add: S bit_drop_bit_eq)
    then show ?thesis by auto
  qed
qed (use n in auto)

text \<open>Non-reflected register: shift left inside \<^verbatim>\<open>n\<close> bits, the polynomial has bit 0 set.\<close>

lemma shifted_register:
  fixes P :: "'a::len word"
  assumes S: "\<And>r. S r = take_bit n (if bit r (n - 1) then push_bit 1 r XOR P else push_bit 1 r)"
    and P: "bit P 0" and n: "0 < n" "n \<le> LENGTH('a)"
  shows "crc_register S (\<lambda>i. n - 1 - i) n"
proof
  show "S (a XOR b) = S a XOR S b" for a b
    by (cases "bit a (n - 1)"; cases "bit b (n - 1)"; intro bit_word_eqI)
      (auto simp: S bit_xor_iff bit_take_bit_iff bit_push_bit_iff)
  show "S (single (n - 1 - Suc i)) = single (n - 1 - i)" if "Suc i < n" for i
    using that n by (intro bit_word_eqI) (auto simp: S bit_single bit_take_bit_iff bit_push_bit_iff)
  show "k < n" if "bit (S r) k" for r k
    using that by (simp add: S bit_take_bit_iff)
  show "S r \<noteq> 0" if reg: "\<forall>k. bit r k \<longrightarrow> k < n" and nz: "r \<noteq> 0" for r
  proof (cases "bit r (n - 1)")
    case True
    then have "bit (S r) 0" using P n by (simp add: S bit_xor_iff bit_take_bit_iff bit_push_bit_iff)
    then show ?thesis by auto
  next
    case False
    obtain k where k: "bit r k" using nz bit_word_eqI [of r 0] by auto
    then have "Suc k < n" using reg False by (metis Suc_lessI diff_Suc_1)
    then have "bit (S r) (Suc k)" using False k n
      by (simp add: S bit_take_bit_iff bit_push_bit_iff)
    then show ?thesis by auto
  qed
  show "inj_on (\<lambda>i. n - 1 - i) {0..<n}" by (auto intro!: inj_onI)
qed (use n in auto)

end
