(* ===== verification/DmrFec.thy ===== *)
theory DmrFec
  imports CrcRegister
begin

text \<open>
  Forward error correction of the DMR receiver, \<^verbatim>\<open>src/modules/dmr/dmr_fec.hpp\<close>:
  the Hamming codes with their brute-force decoder, the embedded-LC checksum, the
  Golay(20,8) and QR(16,7) nearest-codeword decoders, the BPTC(196,96) product code and
  the Reed-Solomon check.  Bit arrays of the source are \<^verbatim>\<open>bits\<close>; a decoder that
  changes its argument in place returns the new array beside its Boolean result.
\<close>

section \<open>Definitions\<close>

definition h13_9_par :: "bits \<Rightarrow> bits" where
  "h13_9_par d =
     [xor_at d [0, 1, 3, 5, 6],
      xor_at d [0, 1, 2, 4, 6, 7],
      xor_at d [0, 1, 2, 3, 5, 7, 8],
      xor_at d [0, 2, 4, 5, 8]]"

definition h15_11_par :: "bits \<Rightarrow> bits" where
  "h15_11_par d =
     [xor_at d [0, 1, 2, 3, 5, 7, 8],
      xor_at d [1, 2, 3, 4, 6, 8, 9],
      xor_at d [2, 3, 4, 5, 7, 9, 10],
      xor_at d [0, 1, 2, 4, 6, 7, 10]]"

definition h17_12_par :: "bits \<Rightarrow> bits" where
  "h17_12_par d =
     [xor_at d [0, 1, 2, 3, 6, 7, 9],
      xor_at d [0, 1, 2, 3, 4, 7, 8, 10],
      xor_at d [0, 1, 2, 3, 4, 5, 8, 9, 11],
      xor_at d [0, 4, 5, 7, 9, 10],
      xor_at d [1, 5, 6, 8, 10, 11]]"

definition h16_11_par :: "bits \<Rightarrow> bits" where
  "h16_11_par d = h15_11_par d @ [xor_at d [0, 2, 5, 6, 8, 9, 10]]"

text \<open>
  The template \<^verbatim>\<open>hamming_decode<NDATA,NPAR>\<close>: \<^verbatim>\<open>syn0\<close> recomputes the parity,
  \<^verbatim>\<open>try_flips\<close> is the loop that flips one bit after the other and undoes the flip.
\<close>

definition syn0 :: "(bits \<Rightarrow> bits) \<Rightarrow> nat \<Rightarrow> nat \<Rightarrow> bits \<Rightarrow> bool" where
  "syn0 par nd np w = (let pp = par w in list_all (\<lambda>i. (w ! (nd + i)) = (pp ! i)) [0..<np])"

fun try_flips :: "(bits \<Rightarrow> bool) \<Rightarrow> bits \<Rightarrow> nat list \<Rightarrow> bool \<times> bits" where
  "try_flips s cw [] = (False, cw)"
| "try_flips s cw (f # fs) =
     (let w = flip_at f cw in if s w then (True, w) else try_flips s (flip_at f w) fs)"

definition hamming_decode :: "nat \<Rightarrow> nat \<Rightarrow> (bits \<Rightarrow> bits) \<Rightarrow> bits \<Rightarrow> bool \<times> bits" where
  "hamming_decode nd np par cw =
     (if syn0 par nd np cw then (True, cw) else try_flips (syn0 par nd np) cw [0..<nd + np])"

definition h13_9_decode :: "bits \<Rightarrow> bool \<times> bits" where
  "h13_9_decode cw = hamming_decode 9 4 h13_9_par cw"

definition h15_11_decode :: "bits \<Rightarrow> bool \<times> bits" where
  "h15_11_decode cw = hamming_decode 11 4 h15_11_par cw"

definition emb_lc_checksum :: "bits \<Rightarrow> u8" where
  "emb_lc_checksum lc72 =
     (let s = foldl (\<lambda>s i. s + ucast (bits_to_uint (drop (i * 8) lc72) 8)) (0 :: u16) [0..<9]
      in ucast (s mod 31))"

definition crc16_ccitt :: "bits \<Rightarrow> nat \<Rightarrow> u16" where
  "crc16_ccitt bits nbits =
     foldl (\<lambda>crc x. let b = (bit crc 15 \<noteq> x); c = push_bit 1 crc in if b then c XOR 0x1021 else c)
       0 (take nbits bits)"

definition CRCM_CSBK :: u16 where "CRCM_CSBK = 0xA5A5"
definition CRCM_DATAHDR :: u16 where "CRCM_DATAHDR = 0xCCCC"
definition CRCM_MBC :: u16 where "CRCM_MBC = 0xAAAA"
definition CRCM_PI :: u16 where "CRCM_PI = 0x6969"

definition crc9 :: "bits \<Rightarrow> nat \<Rightarrow> u16" where
  "crc9 bits nbits =
     foldl (\<lambda>crc x. let b = (bit crc 8 \<noteq> x); c = push_bit 1 crc AND 0x1FF in if b then c XOR 0x059 else c)
       0 (take nbits bits)"

definition GPAR :: "bool list list" where
  "GPAR = map (map (\<lambda>x. x = (1::nat)))
    [[0,0,1,1,1,1,0,1,1,0,1,0],
     [1,1,0,1,1,0,0,1,1,0,0,1],
     [0,1,1,0,1,1,0,0,1,1,0,1],
     [0,0,1,1,0,1,1,0,0,1,1,1],
     [1,1,0,1,1,1,0,0,0,1,1,0],
     [1,0,1,0,1,0,0,1,0,1,1,1],
     [1,0,0,1,0,0,1,1,1,1,1,0],
     [1,0,0,0,1,1,1,0,1,0,1,1]]"

definition golay20_8_encode :: "u8 \<Rightarrow> u32" where
  "golay20_8_encode v =
     (let d = map (\<lambda>r. bit v (7 - r)) [0..<8];
          cw = foldl (\<lambda>cw r. shift_in cw (d ! r)) 0 [0..<8]
      in foldl (\<lambda>cw j. shift_in cw (foldl (\<lambda>p r. p \<noteq> (d ! r \<and> GPAR ! r ! j)) False [0..<8])) cw [0..<12])"

definition nearest :: "(nat \<Rightarrow> nat) \<Rightarrow> nat \<Rightarrow> nat \<times> u8" where
  "nearest dist n =
     foldl (\<lambda>(best, out) d. if dist d < best then (dist d, of_nat d) else (best, out)) (99, 0) [0..<n]"

definition golay20_8_decode :: "u32 \<Rightarrow> nat \<times> u8" where
  "golay20_8_decode cw20 =
     nearest (\<lambda>d. popcount ((golay20_8_encode (of_nat d) XOR cw20) AND 0xFFFFF)) 256"

definition qr16_7_encode :: "u8 \<Rightarrow> u16" where
  "qr16_7_encode data7 =
     (let top = push_bit 9 (ucast (data7 AND 0x7F)) :: u16;
          reg = foldl (\<lambda>reg i. if bit reg i then reg XOR push_bit (i - 9) 0x2DB else reg) top
                  [15, 14, 13, 12, 11, 10, 9]
      in top OR (reg AND 0x1FF))"

definition qr16_7_decode :: "u16 \<Rightarrow> nat \<times> u8" where
  "qr16_7_decode cw16 = nearest (\<lambda>d. popcount (qr16_7_encode (of_nat d) XOR cw16)) 128"

definition bptc_deinterleave :: "bits \<Rightarrow> bits" where
  "bptc_deinterleave onair = map (\<lambda>i. onair ! (i * 181 mod 196)) [0..<196]"

definition bptc_matrix :: "bits \<Rightarrow> bits list" where
  "bptc_matrix m = map (\<lambda>r. map (\<lambda>c. m ! (1 + r * 15 + c)) [0..<15]) [0..<13]"

definition column :: "bits list \<Rightarrow> nat \<Rightarrow> bits" where
  "column M c = map (\<lambda>row. row ! c) M"

definition set_column :: "bits list \<Rightarrow> nat \<Rightarrow> bits \<Rightarrow> bits list" where
  "set_column M c col = map (\<lambda>(row, x). row[c := x]) (zip M col)"

definition bptc_columns :: "bits list \<Rightarrow> bits list" where
  "bptc_columns M = foldl (\<lambda>M c. set_column M c (snd (h13_9_decode (column M c)))) M [0..<15]"

definition bptc_rows :: "bits list \<Rightarrow> bits list" where
  "bptc_rows M = map (\<lambda>row. snd (h15_11_decode row)) M"

definition bptc_info :: "bits list \<Rightarrow> bits" where
  "bptc_info M = map (\<lambda>c. M ! 0 ! c) [3..<11] @
                 concat (map (\<lambda>r. map (\<lambda>c. M ! r ! c) [0..<11]) [1..<9])"

definition bptc196_96 :: "bits \<Rightarrow> bool \<times> bits" where
  "bptc196_96 onair =
     (let out = bptc_info (bptc_rows (bptc_columns (bptc_matrix (bptc_deinterleave onair))))
      in (length out = 96, out))"

text \<open>The tables of \<^verbatim>\<open>GF256\<close>: \<^verbatim>\<open>exp[0..511]\<close> and the logarithms.\<close>

definition gf_double :: "nat \<Rightarrow> nat" where
  "gf_double x = (let y = 2 * x in if bit y 8 then y XOR 0x11D else y)"

definition gf_exp :: "nat \<Rightarrow> nat" where
  "gf_exp i = (gf_double ^^ (i mod 255)) 1"

definition gf_log :: "nat \<Rightarrow> nat" where
  "gf_log x = (if x = 0 then 0 else hd (filter (\<lambda>i. gf_exp i = x) [0..<255]))"

definition gf_mul :: "nat \<Rightarrow> nat \<Rightarrow> nat" where
  "gf_mul a b = (if a \<noteq> 0 \<and> b \<noteq> 0 then gf_exp (gf_log a + gf_log b) else 0)"

definition rs12_9_parity :: "nat list \<Rightarrow> nat list" where
  "rs12_9_parity data9 =
     foldl (\<lambda>p d. let fb = d XOR p ! 0 in
              [p ! 1 XOR gf_mul fb (gf_exp 1), p ! 2 XOR gf_mul fb (gf_exp 2), gf_mul fb (gf_exp 3)])
       [0, 0, 0] data9"

definition rs12_9_check :: "nat list \<Rightarrow> nat list \<Rightarrow> nat list \<Rightarrow> bool" where
  "rs12_9_check data9 par3 mask3 =
     list_all (\<lambda>i. (par3 ! i XOR mask3 ! i) = rs12_9_parity data9 ! i) [0..<3]"

section \<open>Systematic linear codes\<close>

definition syndrome :: "(bits \<Rightarrow> bits) \<Rightarrow> nat \<Rightarrow> bits \<Rightarrow> bits" where
  "syndrome par nd w = xorl (par w) (drop nd w)"

definition codeword :: "(bits \<Rightarrow> bits) \<Rightarrow> nat \<Rightarrow> nat \<Rightarrow> bits \<Rightarrow> bool" where
  "codeword par nd np w \<longleftrightarrow> length w = nd + np \<and> par w = drop nd w"

lemma syn0_codeword:
  assumes "length w = nd + np" "length (par w) = np"
  shows "syn0 par nd np w \<longleftrightarrow> codeword par nd np w"
proof -
  have "syn0 par nd np w \<longleftrightarrow> (\<forall>i<np. par w ! i = drop nd w ! i)"
    using assms by (auto simp: syn0_def Let_def list_all_iff)
  also have "\<dots> \<longleftrightarrow> par w = drop nd w"
    using assms list_eq_iff_nth_eq [of "par w" "drop nd w"] by simp
  finally show ?thesis using assms by (simp add: codeword_def)
qed

lemma try_flips_cases:
  assumes "try_flips s cw fs = (b, w)"
  shows "if b then (\<exists>f\<in>set fs. w = flip_at f cw \<and> s w) else w = cw \<and> (\<forall>f\<in>set fs. \<not> s (flip_at f cw))"
  using assms
proof (induction fs)
  case (Cons f fs)
  then show ?case by (cases "s (flip_at f cw)") (auto simp: Let_def)
qed simp

locale linear_code =
  fixes par :: "bits \<Rightarrow> bits" and nd np :: nat
  assumes par_length: "length (par d) = np"
    and par_xorl: "length a = length b \<Longrightarrow> nd \<le> length a \<Longrightarrow> par (xorl a b) = xorl (par a) (par b)"
    and par_take: "nd \<le> length a \<Longrightarrow> par (take nd a) = par a"
begin

lemma syndrome_xorl:
  assumes "length a = nd + np" "length b = nd + np"
  shows "syndrome par nd (xorl a b) = xorl (syndrome par nd a) (syndrome par nd b)"
  using assms by (intro nth_equalityI) (auto simp: syndrome_def par_xorl par_length drop_xorl)

lemma syndrome_zero_iff:
  assumes "length w = nd + np"
  shows "syndrome par nd w = zeros np \<longleftrightarrow> codeword par nd np w"
  using assms xorl_eq_zeros_iff [of "par w" "drop nd w"]
  by (simp add: syndrome_def codeword_def par_length)

lemma length_syndrome: "length w = nd + np \<Longrightarrow> length (syndrome par nd w) = np"
  by (simp add: syndrome_def par_length)

lemma codeword_xorl:
  assumes "codeword par nd np a" "codeword par nd np b"
  shows "codeword par nd np (xorl a b)"
  using assms by (simp add: codeword_def par_xorl drop_xorl)

lemma codeword_encode:
  assumes "length d = nd"
  shows "codeword par nd np (d @ par d)"
  using assms par_take [of "d @ par d"] by (simp add: codeword_def par_length)

lemma codeword_zeros: "codeword par nd np (zeros (nd + np))"
proof -
  have "par (xorl (zeros nd) (zeros nd)) = xorl (par (zeros nd)) (par (zeros nd))"
    by (simp add: par_xorl)
  then have z: "par (zeros nd) = zeros np" by (simp add: xorl_self par_length)
  have "zeros nd @ zeros np = zeros (nd + np)" by (simp add: zeros_def replicate_add)
  then show ?thesis using codeword_encode [of "zeros nd"] z by simp
qed

lemma syndrome_flip:
  assumes "codeword par nd np w" "f < nd + np"
  shows "syndrome par nd (flip_at f w) = syndrome par nd (unit (nd + np) f)"
proof -
  have len: "length w = nd + np" using assms(1) by (simp add: codeword_def)
  then show ?thesis
    using assms syndrome_zero_iff [of w]
    by (simp add: flip_at_xorl syndrome_xorl xorl_zeros_left length_syndrome)
qed

lemma two_flips_syndromes:
  assumes "codeword par nd np w" "f < nd + np" "g < nd + np"
  shows "syn0 par nd np (flip_at g (flip_at f w)) \<longleftrightarrow>
    syndrome par nd (unit (nd + np) f) = syndrome par nd (unit (nd + np) g)"
proof -
  let ?u = "\<lambda>i. syndrome par nd (unit (nd + np) i)"
  have len: "length w = nd + np" using assms(1) by (simp add: codeword_def)
  have "syndrome par nd (flip_at g (flip_at f w)) = xorl (?u f) (?u g)"
    using assms len syndrome_flip [OF assms(1,2)]
    by (simp add: flip_at_xorl [of g] syndrome_xorl)
  then have "codeword par nd np (flip_at g (flip_at f w)) \<longleftrightarrow> xorl (?u f) (?u g) = zeros np"
    using len syndrome_zero_iff [of "flip_at g (flip_at f w)"] by simp
  also have "\<dots> \<longleftrightarrow> ?u f = ?u g"
    using xorl_eq_zeros_iff [of "?u f" "?u g"] by (simp add: length_syndrome)
  finally show ?thesis using syn0_codeword [of "flip_at g (flip_at f w)" nd np par] len
    by (simp add: par_length)
qed

lemma one_flip_syn0:
  assumes "codeword par nd np w" "f < nd + np"
  shows "syn0 par nd np (flip_at f w) \<longleftrightarrow> syndrome par nd (unit (nd + np) f) = zeros np"
proof -
  have len: "length (flip_at f w) = nd + np" using assms(1) by (simp add: codeword_def)
  show ?thesis using syndrome_zero_iff [OF len] syndrome_flip [OF assms] syn0_codeword [OF len]
    by (simp add: par_length)
qed

lemma codeword_unique_data:
  assumes "codeword par nd np a" "codeword par nd np b" "take nd a = take nd b"
  shows "a = b"
proof -
  have "par a = par b"
    using assms par_take [of a] par_take [of b] by (simp add: codeword_def)
  then have "drop nd a = drop nd b" using assms by (simp add: codeword_def)
  then show ?thesis using assms(3) by (metis append_take_drop_id)
qed

end

locale hamming_code = linear_code +
  assumes unit_syndromes_distinct:
      "distinct (map (\<lambda>i. syndrome par nd (unit (nd + np) i)) [0..<nd + np])"
    and unit_syndromes_nonzero:
      "zeros np \<notin> set (map (\<lambda>i. syndrome par nd (unit (nd + np) i)) [0..<nd + np])"
begin

lemma decode_codeword: "codeword par nd np w \<Longrightarrow> hamming_decode nd np par w = (True, w)"
  using syn0_codeword [of w nd np par] by (simp add: hamming_decode_def codeword_def par_length)

lemma decode_single_error:
  assumes "codeword par nd np w" "f < nd + np"
  shows "hamming_decode nd np par (flip_at f w) = (True, w)"
proof -
  let ?e = "flip_at f w"
  have "syndrome par nd (unit (nd + np) f) \<in> set (map (\<lambda>i. syndrome par nd (unit (nd + np) i)) [0..<nd + np])"
    using assms(2) unfolding set_map by (intro imageI) simp
  then have "syndrome par nd (unit (nd + np) f) \<noteq> zeros np"
    using unit_syndromes_nonzero by metis
  then have n0: "\<not> syn0 par nd np ?e" using one_flip_syn0 [OF assms] by simp
  have s: "syn0 par nd np (flip_at g ?e) \<longleftrightarrow> f = g" if "g < nd + np" for g
    using two_flips_syndromes [OF assms that]
      distinct_map_upt_iff [OF unit_syndromes_distinct assms(2) that] by simp
  obtain b v where bv: "try_flips (syn0 par nd np) ?e [0..<nd + np] = (b, v)" by fastforce
  from try_flips_cases [OF bv] have "b \<and> v = w" using s assms(2) by (auto split: if_splits)
  then show ?thesis using n0 bv by (simp add: hamming_decode_def)
qed

lemma decode_sound:
  assumes "length r = nd + np" "hamming_decode nd np par r = (True, w)"
  shows "codeword par nd np w \<and> (w = r \<or> (\<exists>f<nd + np. w = flip_at f r))"
proof (cases "syn0 par nd np r")
  case True
  then show ?thesis using assms syn0_codeword [of r nd np par] by (simp add: hamming_decode_def par_length)
next
  case False
  then have "try_flips (syn0 par nd np) r [0..<nd + np] = (True, w)"
    using assms by (simp add: hamming_decode_def)
  from try_flips_cases [OF this] show ?thesis
    using assms syn0_codeword [of w nd np par] by (auto simp: par_length)
qed

lemma decode_fails_iff:
  assumes "length r = nd + np"
  shows "fst (hamming_decode nd np par r) \<longleftrightarrow>
    (\<exists>w. codeword par nd np w \<and> (w = r \<or> (\<exists>f<nd + np. r = flip_at f w)))"
proof
  assume "fst (hamming_decode nd np par r)"
  then obtain w where "hamming_decode nd np par r = (True, w)" by (cases "hamming_decode nd np par r") auto
  then have "codeword par nd np w \<and> (w = r \<or> (\<exists>f<nd + np. r = flip_at f w))"
    using decode_sound [OF assms] flip_at_twice by metis
  then show "\<exists>w. codeword par nd np w \<and> (w = r \<or> (\<exists>f<nd + np. r = flip_at f w))" by blast
next
  assume "\<exists>w. codeword par nd np w \<and> (w = r \<or> (\<exists>f<nd + np. r = flip_at f w))"
  then show "fst (hamming_decode nd np par r)" by (auto simp: decode_codeword decode_single_error)
qed

lemma decode_length:
  assumes "length r = nd + np"
  shows "length (snd (hamming_decode nd np par r)) = nd + np"
proof -
  obtain b v where bv: "try_flips (syn0 par nd np) r [0..<nd + np] = (b, v)" by fastforce
  from try_flips_cases [OF bv] show ?thesis using assms bv by (auto simp: hamming_decode_def split: if_splits)
qed

end

text \<open>Parity equations given as index lists form a linear code.\<close>

lemma map_xor_at_linear_code:
  assumes "\<And>d. par d = map (xor_at d) iss" "\<forall>is\<in>set iss. \<forall>i\<in>set is. i < nd" "length iss = np"
  shows "linear_code par nd np"
proof
  show "length (par d) = np" for d using assms by simp
  show "par (xorl a b) = xorl (par a) (par b)" if "length a = length b" "nd \<le> length a" for a b
  proof -
    have "xor_at (xorl a b) is = (xor_at a is \<noteq> xor_at b is)" if "is \<in> set iss" for "is"
      using that assms(2) \<open>length a = length b\<close> \<open>nd \<le> length a\<close> by (intro xor_at_xorl) fastforce
    then show ?thesis by (intro nth_equalityI) (simp_all add: assms(1))
  qed
  show "par (take nd a) = par a" if "nd \<le> length a" for a
  proof -
    have "xor_at (take nd a) is = xor_at a is" if "\<forall>i\<in>set is. i < nd" for "is"
      using that by (induction "is") auto
    then show ?thesis using assms by simp
  qed
qed

lemma h13_9_linear: "linear_code h13_9_par 9 4"
  by (rule map_xor_at_linear_code
      [of _ "[[0, 1, 3, 5, 6], [0, 1, 2, 4, 6, 7], [0, 1, 2, 3, 5, 7, 8], [0, 2, 4, 5, 8]]"])
    (simp_all add: h13_9_par_def)

lemma h15_11_linear: "linear_code h15_11_par 11 4"
  by (rule map_xor_at_linear_code
      [of _ "[[0, 1, 2, 3, 5, 7, 8], [1, 2, 3, 4, 6, 8, 9], [2, 3, 4, 5, 7, 9, 10], [0, 1, 2, 4, 6, 7, 10]]"])
    (simp_all add: h15_11_par_def)

lemma h16_11_linear: "linear_code h16_11_par 11 5"
  by (rule map_xor_at_linear_code
      [of _ "[[0, 1, 2, 3, 5, 7, 8], [1, 2, 3, 4, 6, 8, 9], [2, 3, 4, 5, 7, 9, 10], [0, 1, 2, 4, 6, 7, 10],
              [0, 2, 5, 6, 8, 9, 10]]"])
    (simp_all add: h16_11_par_def h15_11_par_def)

lemma h17_12_linear: "linear_code h17_12_par 12 5"
  by (rule map_xor_at_linear_code
      [of _ "[[0, 1, 2, 3, 6, 7, 9], [0, 1, 2, 3, 4, 7, 8, 10], [0, 1, 2, 3, 4, 5, 8, 9, 11],
              [0, 4, 5, 7, 9, 10], [1, 5, 6, 8, 10, 11]]"])
    (simp_all add: h17_12_par_def)

lemma h13_9_syndromes:
  "distinct (map (\<lambda>i. syndrome h13_9_par 9 (unit (9 + 4) i)) [0..<9 + 4])"
  "zeros 4 \<notin> set (map (\<lambda>i. syndrome h13_9_par 9 (unit (9 + 4) i)) [0..<9 + 4])"
  by code_simp+

lemma h15_11_syndromes:
  "distinct (map (\<lambda>i. syndrome h15_11_par 11 (unit (11 + 4) i)) [0..<11 + 4])"
  "zeros 4 \<notin> set (map (\<lambda>i. syndrome h15_11_par 11 (unit (11 + 4) i)) [0..<11 + 4])"
  by code_simp+

lemma h16_11_syndromes:
  "distinct (map (\<lambda>i. syndrome h16_11_par 11 (unit (11 + 5) i)) [0..<11 + 5])"
  "zeros 5 \<notin> set (map (\<lambda>i. syndrome h16_11_par 11 (unit (11 + 5) i)) [0..<11 + 5])"
  by code_simp+

interpretation h13: hamming_code h13_9_par 9 4
  by (intro hamming_code.intro hamming_code_axioms.intro h13_9_linear h13_9_syndromes)

interpretation h15: hamming_code h15_11_par 11 4
  by (intro hamming_code.intro hamming_code_axioms.intro h15_11_linear h15_11_syndromes)

interpretation h16: hamming_code h16_11_par 11 5
  by (intro hamming_code.intro hamming_code_axioms.intro h16_11_linear h16_11_syndromes)

section \<open>Nearest-codeword decoding\<close>

lemma nearest_aux:
  assumes "d < n" "dist d < 99" "\<And>d'. d' < n \<Longrightarrow> d' \<noteq> d \<Longrightarrow> dist d < dist d'" "m \<le> n"
  shows "let (b, out) = nearest dist m
         in if d < m then b = dist d \<and> out = of_nat d else dist d < b"
  using assms(4)
proof (induction m)
  case 0
  then show ?case using assms(2) by (simp add: nearest_def)
next
  case (Suc m)
  obtain b out where bo: "nearest dist m = (b, out)" by fastforce
  then have step: "nearest dist (Suc m) = (if dist m < b then (dist m, of_nat m) else (b, out))"
    by (simp add: nearest_def)
  show ?case
  proof (cases "d = m")
    case True
    then show ?thesis using Suc step bo by simp
  next
    case False
    then have "dist d < dist m" using assms(3) [of m] Suc.prems by simp
    then show ?thesis using Suc step bo False by (auto split: if_splits)
  qed
qed

lemma nearest_unique:
  assumes "d < n" "dist d < 99" "\<And>d'. d' < n \<Longrightarrow> d' \<noteq> d \<Longrightarrow> dist d < dist d'"
  shows "nearest dist n = (dist d, of_nat d)"
  using nearest_aux [of d n dist n] assms by (cases "nearest dist n") simp

definition golay_bits :: "bits \<Rightarrow> bits" where
  "golay_bits d = map (\<lambda>r. d ! r) [0..<8] @
     map (\<lambda>j. foldl (\<lambda>p r. p \<noteq> (d ! r \<and> GPAR ! r ! j)) False [0..<8]) [0..<12]"

lemma length_golay_bits [simp, bits_len]: "length (golay_bits d) = 20"
  by (simp add: golay_bits_def)

lemma golay_encode_bits:
  "golay20_8_encode v = pack_msb (golay_bits (map (\<lambda>r. bit v (7 - r)) [0..<8]))"
  unfolding golay20_8_encode_def golay_bits_def pack_msb_def Let_def foldl_append foldl_map ..

lemma foldl_parity_xorl:
  assumes "\<forall>r\<in>set rs. r < length a \<and> r < length b"
  shows "foldl (\<lambda>p r. p \<noteq> (xorl a b ! r \<and> g r)) (x \<noteq> y) rs =
     (foldl (\<lambda>p r. p \<noteq> (a ! r \<and> g r)) x rs \<noteq> foldl (\<lambda>p r. p \<noteq> (b ! r \<and> g r)) y rs)"
  using assms
proof (induction rs arbitrary: x y)
  case (Cons r rs)
  have "((x \<noteq> y) \<noteq> (xorl a b ! r \<and> g r)) = ((x \<noteq> (a ! r \<and> g r)) \<noteq> (y \<noteq> (b ! r \<and> g r)))"
    using Cons.prems by auto
  then show ?case unfolding foldl_Cons by (simp only:) (rule Cons.IH, use Cons.prems in simp)
qed simp

lemma map_append_xorl:
  assumes "\<And>i. i \<in> set is \<Longrightarrow> f i = (g i \<noteq> h i)" "\<And>j. j \<in> set js \<Longrightarrow> f' j = (g' j \<noteq> h' j)"
  shows "map f is @ map f' js = xorl (map g is @ map g' js) (map h is @ map h' js)"
proof -
  have "map f is = xorl (map g is) (map h is)" "map f' js = xorl (map g' js) (map h' js)"
    using assms by (auto intro!: nth_equalityI)
  then show ?thesis by (simp only: xorl_append length_map)
qed

lemma golay_bits_xorl:
  assumes "length a = 8" "length b = 8"
  shows "golay_bits (xorl a b) = xorl (golay_bits a) (golay_bits b)"
  unfolding golay_bits_def
proof (rule map_append_xorl)
  show "xorl a b ! r = (a ! r \<noteq> b ! r)" if "r \<in> set [0..<8]" for r
    using that assms by simp
  show "foldl (\<lambda>p r. p \<noteq> (xorl a b ! r \<and> GPAR ! r ! j)) False [0..<8] =
     (foldl (\<lambda>p r. p \<noteq> (a ! r \<and> GPAR ! r ! j)) False [0..<8] \<noteq>
      foldl (\<lambda>p r. p \<noteq> (b ! r \<and> GPAR ! r ! j)) False [0..<8])" for j
    using foldl_parity_xorl [of "[0..<8]" a b "\<lambda>r. GPAR ! r ! j" False False] assms
    by simp
qed

lemma golay_min_weight:
  "list_all (\<lambda>d. d = zeros 8 \<or> 8 \<le> weight (golay_bits d)) (List.n_lists 8 [False, True])"
  by code_simp

text \<open>The 256 data bytes as bit strings.\<close>

definition byte_bits :: "u8 \<Rightarrow> bits" where
  "byte_bits v = map (\<lambda>r. bit v (7 - r)) [0..<8]"

lemma length_byte_bits [simp, bits_len]: "length (byte_bits v) = 8"
  by (simp add: byte_bits_def)

lemma byte_bits_inj: "byte_bits v = byte_bits w \<longleftrightarrow> v = w"
proof
  assume eq: "byte_bits v = byte_bits w"
  show "v = w"
  proof (rule bit_word_eqI)
    fix k :: nat
    assume "k < LENGTH(8)"
    then have "byte_bits v ! (7 - k) = byte_bits w ! (7 - k)" "k < 8" using eq by simp_all
    moreover have "7 - k < 8" "7 - (7 - k) = k" using \<open>k < 8\<close> by simp_all
    ultimately show "bit v k = bit w k" by (simp add: byte_bits_def nth_map_upt)
  qed
qed simp

lemma golay_distance:
  assumes "v \<noteq> w"
  shows "8 \<le> weight (xorl (golay_bits (byte_bits v)) (golay_bits (byte_bits w)))"
proof -
  let ?d = "xorl (byte_bits v) (byte_bits w)"
  have "?d \<noteq> zeros 8" using xorl_eq_zeros_iff [of "byte_bits v" "byte_bits w"] assms byte_bits_inj by simp
  moreover have "?d \<in> set (List.n_lists 8 [False, True])"
    by (auto simp: set_n_lists)
  ultimately have "8 \<le> weight (golay_bits ?d)"
    using golay_min_weight by (auto simp: list_all_iff)
  then show ?thesis by (simp add: golay_bits_xorl)
qed

lemma golay_dist_bits:
  "popcount ((golay20_8_encode v XOR r) AND 0xFFFFF) =
     hdist (golay_bits (byte_bits v)) (uint_to_bits r 20)"
proof -
  let ?c = "golay_bits (byte_bits v)"
  have mask: "(0xFFFFF :: u32) = mask 20" by (simp add: mask_eq_exp_minus_1)
  have "(golay20_8_encode v XOR r) AND 0xFFFFF = take_bit 20 (pack_msb ?c) XOR take_bit 20 r"
    unfolding golay_encode_bits mask byte_bits_def [symmetric]
    by (simp only: take_bit_eq_mask [symmetric] take_bit_xor)
  also have "take_bit 20 r = pack_msb (uint_to_bits r 20)" by (simp add: pack_uint_to_bits)
  also have "take_bit 20 (pack_msb ?c) = (pack_msb ?c :: u32)"
    by (rule bit_word_eqI) (auto simp: bit_take_bit_iff bit_pack_msb)
  also have "pack_msb ?c XOR pack_msb (uint_to_bits r 20) = (pack_msb (xorl ?c (uint_to_bits r 20)) :: u32)"
    by (simp add: pack_msb_xorl)
  finally show ?thesis by (simp add: popcount_pack_msb hdist_def)
qed

lemma golay_decode_near:
  assumes "popcount ((golay20_8_encode v XOR r) AND 0xFFFFF) \<le> 3"
  shows "golay20_8_decode r = (popcount ((golay20_8_encode v XOR r) AND 0xFFFFF), v)"
proof -
  let ?dist = "\<lambda>d. popcount ((golay20_8_encode (of_nat d) XOR r) AND 0xFFFFF)"
  let ?g = "\<lambda>v. golay_bits (byte_bits v)"
  let ?b = "uint_to_bits r 20"
  have v: "of_nat (unat v) = v" "unat v < 256" using unat_lt [of v] by simp_all
  have far: "?dist (unat v) < ?dist d'" if d': "d' < 256" "d' \<noteq> unat v" for d'
  proof -
    have ne: "of_nat d' \<noteq> v" using d' unat_of_nat [where 'a = 8, of d'] by auto
    have "8 \<le> hdist (?g (of_nat d')) (?g v)" using golay_distance [OF ne] by (simp add: hdist_def)
    also have "\<dots> \<le> hdist (?g (of_nat d')) ?b + hdist ?b (?g v)" by (rule hdist_triangle) simp_all
    finally show ?thesis using assms v by (simp add: golay_dist_bits hdist_commute)
  qed
  have "nearest ?dist 256 = (?dist (unat v), of_nat (unat v))"
    using assms v far by (intro nearest_unique) auto
  then show ?thesis using v by (simp add: golay20_8_decode_def)
qed

section \<open>The cyclic checks\<close>

definition crc16_S :: "u16 \<Rightarrow> u16" where
  "crc16_S r = (if bit r 15 then push_bit 1 r XOR 0x1021 else push_bit 1 r)"

definition crc9_S :: "u16 \<Rightarrow> u16" where
  "crc9_S r = take_bit 9 (if bit r 8 then push_bit 1 r XOR 0x059 else push_bit 1 r)"

interpretation crc16: crc_register crc16_S "\<lambda>i. 16 - 1 - i" 16
  by (rule shifted_register [where P = "0x1021"]) (simp_all add: crc16_S_def take_bit_word_eq_self)

interpretation crc9: crc_register crc9_S "\<lambda>i. 9 - 1 - i" 9
  by (rule shifted_register [where P = "0x059"]) (simp_all add: crc9_S_def)

lemma crc16_ccitt_run: "crc16_ccitt bits nbits = crc_run crc16_S 15 0 (take nbits bits)"
proof -
  have "(let b = (bit r 15 \<noteq> x); c = push_bit 1 r in if b then c XOR 0x1021 else c) = crc_feed crc16_S 15 r x"
    for r :: u16 and x
    by (cases x; intro bit_word_eqI)
      (auto simp: crc_feed_def crc16_S_def Let_def bit_xor_iff)
  then show ?thesis by (simp add: crc16_ccitt_def crc_run_def)
qed

lemma crc9_run: "crc9 bits nbits = crc_run crc9_S 8 0 (take nbits bits)"
proof -
  have m: "(0x1FF :: u16) = mask 9" by (simp add: mask_eq_exp_minus_1)
  define P where "P = (0x059 :: u16)"
  have "take_bit 9 P = P" by (simp add: P_def)
  then have p: "n < 9" if "bit P n" for n using that by (metis bit_take_bit_iff)
  have "(let b = (bit r 8 \<noteq> x); c = push_bit 1 r AND mask 9 in if b then c XOR P else c) = crc_feed crc9_S 8 r x"
    for r :: u16 and x
    by (cases x; intro bit_word_eqI)
      (auto simp: crc_feed_def crc9_S_def P_def [symmetric] Let_def bit_xor_iff bit_take_bit_iff
        bit_and_iff bit_mask_iff dest: p)
  then show ?thesis unfolding crc9_def crc_run_def m P_def [symmetric] by (simp only:)
qed

section \<open>The unused codes\<close>

lemma qr_step_xor:
  "(\<lambda>reg :: u16. if bit reg i then reg XOR g else reg) (a XOR b) =
   (\<lambda>reg. if bit reg i then reg XOR g else reg) a XOR (\<lambda>reg. if bit reg i then reg XOR g else reg) b"
  by (auto simp: bit_xor_iff ac_simps xor.left_commute)

lemma qr_reduce_xor:
  "foldl (\<lambda>reg i. if bit reg i then reg XOR g i else reg) (a XOR b :: u16) is =
   foldl (\<lambda>reg i. if bit reg i then reg XOR g i else reg) a is XOR
   foldl (\<lambda>reg i. if bit reg i then reg XOR g i else reg) b is"
proof (induction "is" arbitrary: a b)
  case (Cons i "is")
  show ?case unfolding foldl_Cons using qr_step_xor [where i = i and g = "g i" and a = a and b = b] by (simp only: Cons.IH)
qed simp

lemma qr_encode_xor:
  "qr16_7_encode (a XOR b) = qr16_7_encode a XOR qr16_7_encode b"
proof -
  define f where "f x = foldl (\<lambda>reg i. if bit reg i then reg XOR push_bit (i - 9) 0x2DB else reg) (x :: u16)
     [15, 14, 13, 12, 11, 10, 9]" for x
  define t where "t v = (push_bit 9 (ucast (v AND 0x7F)) :: u16)" for v :: u8
  have t: "t (a XOR b) = t a XOR t b"
    by (rule bit_word_eqI) (auto simp: t_def bit_push_bit_iff bit_ucast_iff bit_and_iff bit_xor_iff)
  have f: "f (x XOR y) = f x XOR f y" for x y unfolding f_def by (rule qr_reduce_xor)
  have e: "qr16_7_encode v = t v XOR (f (t v) AND 0x1FF)" for v
  proof -
    have "t v AND (f (t v) AND mask 9) = 0"
      by (rule bit_word_eqI) (auto simp: t_def bit_push_bit_iff bit_and_iff bit_mask_iff)
    moreover have "(0x1FF :: u16) = mask 9" by (simp add: mask_eq_exp_minus_1)
    ultimately show ?thesis
      unfolding qr16_7_encode_def Let_def t_def [symmetric] f_def [symmetric]
      by (metis disjunctive_xor_eq_or)
  qed
  show ?thesis unfolding e t f
    by (rule bit_word_eqI) (auto simp: bit_xor_iff bit_and_iff)
qed

lemma qr_encode_6: "qr16_7_encode 6 = 0x0C01"
  by (simp add: qr16_7_encode_def)

section \<open>Properties\<close>

text \<open>
  C2: the Slot Type decoder repairs every error of up to three bits: for each of the 256
  Slot Type bytes and every 20-bit error pattern of weight at most 3 (bits above 19 are
  ignored), \<^verbatim>\<open>golay20_8_decode\<close> returns the transmitted byte and the number of
  wrong bits.
\<close>
theorem golay_corrects_three:
  assumes "popcount (e AND 0xFFFFF) \<le> 3"
  shows "golay20_8_decode (golay20_8_encode v XOR e) = (popcount (e AND 0xFFFFF), v)"
proof -
  have "golay20_8_encode v XOR (golay20_8_encode v XOR e) = e"
    by (simp flip: xor.assoc)
  then show ?thesis using golay_decode_near [of v "golay20_8_encode v XOR e"] assms by simp
qed

theorem golay_corrects_three_witness:
  "golay20_8_decode (golay20_8_encode 0x5A XOR 0x80402) = (3, 0x5A)"
proof -
  have "popcount ((0x80402 :: u32) AND 0xFFFFF) = 3" by (simp add: popcount_def upt_conv_Cons)
  then show ?thesis using golay_corrects_three [of "0x80402" "0x5A"] by simp
qed

text \<open>
  Both Hamming decoders of the product code repair any single wrong bit, wherever it
  lies (a position past the end of the word flips nothing, so the clean word is covered):
  the column decoder returns the 13-bit codeword of any 9 data bits, the row decoder the
  15-bit codeword of any 11 data bits.
\<close>
theorem hamming_single_error:
  assumes "length a = 9" "length b = 11"
  shows "h13_9_decode (flip_at f (a @ h13_9_par a)) = (True, a @ h13_9_par a) \<and>
         h15_11_decode (flip_at f (b @ h15_11_par b)) = (True, b @ h15_11_par b)"
proof -
  have "h13_9_decode (flip_at f w) = (True, w)" if "codeword h13_9_par 9 4 w" for w
    using that h13.decode_codeword h13.decode_single_error
    by (cases "f < 13") (auto simp: h13_9_decode_def codeword_def)
  moreover have "h15_11_decode (flip_at f w) = (True, w)" if "codeword h15_11_par 11 4 w" for w
    using that h15.decode_codeword h15.decode_single_error
    by (cases "f < 15") (auto simp: h15_11_decode_def codeword_def)
  ultimately show ?thesis using assms h13.codeword_encode h15.codeword_encode by simp
qed

theorem hamming_single_error_witness:
  "h13_9_decode (flip_at 4 (replicate 9 True @ h13_9_par (replicate 9 True))) =
     (True, replicate 9 True @ h13_9_par (replicate 9 True)) \<and>
   h15_11_decode (flip_at 4 (replicate 11 True @ h15_11_par (replicate 11 True))) =
     (True, replicate 11 True @ h15_11_par (replicate 11 True))"
  by (rule hamming_single_error) simp_all

text \<open>
  The CRC of CSBK and data-header bursts detects every error burst of up to 16 bits:
  two messages of \<^verbatim>\<open>n\<close> bits that differ, and only inside a window of 16 bits, have
  different \<^verbatim>\<open>crc16_ccitt\<close> values.
\<close>
theorem crc16_burst_detected:
  assumes "length xs = n" "length ys = n" "xs \<noteq> ys"
    and "xorl xs ys = zeros p @ b @ zeros q" "length b \<le> 16"
  shows "crc16_ccitt xs n \<noteq> crc16_ccitt ys n"
  using crc16.burst_detected [of xs ys p b q 0] assms by (simp add: crc16_ccitt_run)

theorem crc16_burst_detected_witness:
  "crc16_ccitt (replicate 40 True) 40 \<noteq> crc16_ccitt (replicate 20 True @ [False, True, False] @ replicate 17 True) 40"
  by (rule crc16_burst_detected [where p = 20 and b = "[True, False, True]" and q = 17])
    (simp_all add: eval_nat_numeral zeros_def)

text \<open>
  The Hamming(17,12) equations of the source are not a single-error-correcting code:
  data bits 2 and 3 enter the same parity equations, so in every codeword an error in bit 3
  is "repaired" by inverting bit 2 as well, and the decoder reports success.
\<close>
theorem h17_12_miscorrects:
  assumes "codeword h17_12_par 12 5 w"
  shows "hamming_decode 12 5 h17_12_par (flip_at 3 w) = (True, flip_at 2 (flip_at 3 w))"
proof -
  let ?u = "\<lambda>i. syndrome h17_12_par 12 (unit (12 + 5) i)"
  have u: "?u 3 \<noteq> zeros 5" "?u 3 \<noteq> ?u 0" "?u 3 \<noteq> ?u 1" "?u 3 = ?u 2" by code_simp+
  have s: "\<not> syn0 h17_12_par 12 5 (flip_at 3 w)"
    using linear_code.one_flip_syn0 [OF h17_12_linear assms, of 3] u by simp
  have t: "syn0 h17_12_par 12 5 (flip_at g (flip_at 3 w)) \<longleftrightarrow> ?u 3 = ?u g" if "g < 17" for g
    using linear_code.two_flips_syndromes [OF h17_12_linear assms, of 3 g] that by simp
  have "[0..<12 + 5] = 0 # 1 # 2 # [3..<17]" by (simp add: upt_conv_Cons)
  then show ?thesis using s t [of 0] t [of 1] t [of 2] u by (simp add: hamming_decode_def Let_def)
qed

theorem h17_12_miscorrects_witness:
  "hamming_decode 12 5 h17_12_par (flip_at 3 (zeros 17)) = (True, flip_at 2 (flip_at 3 (zeros 17)))"
  using h17_12_miscorrects [of "zeros 17"] linear_code.codeword_zeros [OF h17_12_linear] by simp

text \<open>
  The EMB code with the generator \<^verbatim>\<open>0x2DB\<close> is linear and does not have the
  minimum distance 6 of the QR(16,7,6) code it stands for: every codeword has another one
  three bits away, so two wrong bits can already decode to other data.
\<close>
theorem qr16_7_distance_three:
  "qr16_7_encode (a XOR b) = qr16_7_encode a XOR qr16_7_encode b \<and>
   popcount (qr16_7_encode v XOR qr16_7_encode (v XOR 6)) = 3"
proof
  show "qr16_7_encode (a XOR b) = qr16_7_encode a XOR qr16_7_encode b" by (rule qr_encode_xor)
  have "qr16_7_encode v XOR qr16_7_encode (v XOR 6) = 0x0C01"
    by (simp add: qr_encode_xor qr_encode_6 flip: xor.assoc)
  then show "popcount (qr16_7_encode v XOR qr16_7_encode (v XOR 6)) = 3"
    by (simp add: popcount_def upt_conv_Cons)
qed

end
