(* ===== verification/DmrBptc.thy ===== *)
theory DmrBptc
  imports DmrFec
begin

text \<open>
  The BPTC(196,96) product code of \<^verbatim>\<open>src/modules/dmr/dmr_fec.hpp\<close>: a reference
  encoder for the matrix and the interleaver of the standard, and the proof that
  \<^verbatim>\<open>bptc196_96\<close> recovers the 96 information bits from it, also after errors that hit
  each column at most once, hence after every burst of up to 7 bits on the air.
\<close>

definition mat13x15 :: "bits list \<Rightarrow> bool" where
  "mat13x15 M \<longleftrightarrow> length M = 13 \<and> (\<forall>row\<in>set M. length row = 15)"

definition product_codeword :: "bits list \<Rightarrow> bool" where
  "product_codeword M \<longleftrightarrow> mat13x15 M \<and> (\<forall>row\<in>set M. codeword h15_11_par 11 4 row) \<and>
     (\<forall>c<15. codeword h13_9_par 9 4 (column M c))"

section \<open>Columns of a matrix\<close>

lemma mat_nth: "mat13x15 M \<Longrightarrow> r < 13 \<Longrightarrow> length (M ! r) = 15"
  by (simp add: mat13x15_def)

lemma length_column [simp]: "length (column M c) = length M"
  by (simp add: column_def)

lemma nth_column [simp]: "r < length M \<Longrightarrow> column M c ! r = M ! r ! c"
  by (simp add: column_def)

lemma set_column_mat:
  "mat13x15 M \<Longrightarrow> length col = 13 \<Longrightarrow> mat13x15 (set_column M c col)"
  by (auto simp: mat13x15_def set_column_def dest: set_zip_leftD)

lemma column_set_column:
  assumes "mat13x15 M" "length col = 13" "c < 15" "c' < 15"
  shows "column (set_column M c col) c' = (if c' = c then col else column M c')"
  using assms by (intro nth_equalityI) (auto simp: set_column_def mat13x15_def)

lemma mat_eqI:
  assumes "mat13x15 M" "mat13x15 N" "\<And>c. c < 15 \<Longrightarrow> column M c = column N c"
  shows "M = N"
proof (rule nth_equalityI)
  show "length M = length N" using assms by (simp add: mat13x15_def)
  fix r assume r: "r < length M"
  then have r13: "r < 13" "r < length N" using assms by (simp_all add: mat13x15_def)
  show "M ! r = N ! r"
  proof (rule nth_equalityI)
    show "length (M ! r) = length (N ! r)" using assms r13 by (simp add: mat_nth)
    fix c assume "c < length (M ! r)"
    then have "column M c ! r = column N c ! r" using assms r13 by (simp add: mat_nth)
    then show "M ! r ! c = N ! r ! c" using r r13 by simp
  qed
qed

lemma h13_decode_length: "length col = 13 \<Longrightarrow> length (snd (h13_9_decode col)) = 13"
  using h13.decode_length [of col] by (simp add: h13_9_decode_def)

lemma columns_prefix:
  assumes "mat13x15 M" "k \<le> 15"
  shows "let N = foldl (\<lambda>M c. set_column M c (snd (h13_9_decode (column M c)))) M [0..<k]
         in mat13x15 N \<and> (\<forall>c<15. column N c = (if c < k then snd (h13_9_decode (column M c)) else column M c))"
  using assms(2)
proof (induction k)
  case (Suc k)
  let ?N = "foldl (\<lambda>M c. set_column M c (snd (h13_9_decode (column M c)))) M [0..<k]"
  have N: "mat13x15 ?N" "\<And>c. c < 15 \<Longrightarrow> column ?N c = (if c < k then snd (h13_9_decode (column M c)) else column M c)"
    using Suc by (auto simp: Let_def)
  have len: "length (snd (h13_9_decode (column ?N k))) = 13"
    using N(1) by (intro h13_decode_length) (simp add: mat13x15_def)
  show ?case
    using N len Suc.prems
    by (auto simp: Let_def set_column_mat column_set_column)
qed (use assms in \<open>simp add: Let_def\<close>)

lemma bptc_columns_column:
  assumes "mat13x15 M"
  shows "mat13x15 (bptc_columns M)"
    and "c < 15 \<Longrightarrow> column (bptc_columns M) c = snd (h13_9_decode (column M c))"
  using columns_prefix [OF assms, of 15] by (simp_all add: bptc_columns_def Let_def)

section \<open>Correction inside the matrix\<close>

lemma bptc_columns_correct:
  assumes "product_codeword M" "mat13x15 N"
    and "\<And>c. c < 15 \<Longrightarrow> column N c = column M c \<or> (\<exists>f<13. column N c = flip_at f (column M c))"
  shows "bptc_columns N = M"
proof (rule mat_eqI)
  show "mat13x15 (bptc_columns N)" using assms(2) by (rule bptc_columns_column)
  show "mat13x15 M" using assms(1) by (simp add: product_codeword_def)
  fix c :: nat assume c: "c < 15"
  have cw: "codeword h13_9_par 9 4 (column M c)" using assms(1) c by (simp add: product_codeword_def)
  have "h13_9_decode (column N c) = (True, column M c)"
    using assms(3) [OF c] h13.decode_codeword [OF cw] h13.decode_single_error [OF cw]
    by (auto simp: h13_9_decode_def)
  then show "column (bptc_columns N) c = column M c"
    using bptc_columns_column(2) [OF assms(2) c] by simp
qed

lemma bptc_rows_codeword: "product_codeword M \<Longrightarrow> bptc_rows M = M"
  by (auto simp: bptc_rows_def product_codeword_def h15_11_decode_def h15.decode_codeword
      intro!: map_idI)

section \<open>The interleaver\<close>

lemma interleave_inverse:
  assumes "i < 196"
  shows "13 * (i * 181 mod 196) mod 196 = (i :: nat)"
proof -
  have "13 * (i * 181 mod 196) mod 196 = 13 * (i * 181) mod 196" by (simp only: mod_mult_right_eq)
  also have "13 * (i * 181) = i + 196 * (12 * i)" by simp
  also have "(i + 196 * (12 * i)) mod 196 = i" using assms by (simp only: mod_mult_self2 mod_less)
  finally show ?thesis .
qed

lemma mat_bptc_matrix: "mat13x15 (bptc_matrix m)"
  by (auto simp: mat13x15_def bptc_matrix_def)

definition air_pos :: "nat \<Rightarrow> nat \<Rightarrow> nat" where
  "air_pos r c = (1 + r * 15 + c) * 181 mod 196"

lemma bptc_matrix_air:
  assumes "r < 13" "c < 15"
  shows "bptc_matrix (bptc_deinterleave x) ! r ! c = x ! air_pos r c"
  using assms by (simp add: bptc_matrix_def bptc_deinterleave_def air_pos_def)

lemma air_step_range:
  assumes "1 \<le> k" "k \<le> (12 :: nat)"
  shows "7 \<le> (167 * k) mod 196 \<and> (167 * k) mod 196 \<le> 189"
proof -
  have "k \<in> {1, 2, 3, 4, 5, 6, 7, 8, 9, 10, 11, 12}" using assms by (simp, presburger)
  then show ?thesis by auto
qed

lemma air_pos_step: "air_pos (r + k) c = (air_pos r c + (167 * k) mod 196) mod 196"
proof -
  have "(1 + (r + k) * 15 + c) * 181 = (1 + r * 15 + c) * 181 + (167 * k + 196 * (13 * k))"
    by (simp add: algebra_simps)
  then have "air_pos (r + k) c = ((1 + r * 15 + c) * 181 + (167 * k + 196 * (13 * k))) mod 196"
    by (simp only: air_pos_def)
  also have "\<dots> = (((1 + r * 15 + c) * 181) mod 196 + (167 * k + 196 * (13 * k)) mod 196) mod 196"
    by (simp only: mod_add_eq)
  also have "(167 * k + 196 * (13 * k)) mod 196 = (167 * k) mod 196" by (simp only: mod_mult_self2)
  finally show ?thesis by (simp only: air_pos_def)
qed

lemma air_pos_apart:
  assumes "r < r'" "r' < 13"
  shows "7 \<le> \<bar>int (air_pos r c) - int (air_pos r' c)\<bar>"
proof -
  define d where "d = (167 * (r' - r)) mod 196"
  have d: "7 \<le> d" "d \<le> 189" using air_step_range [of "r' - r"] assms by (auto simp: d_def)
  have q: "air_pos r' c = (air_pos r c + d) mod 196"
    using air_pos_step [of r "r' - r" c] assms by (simp add: d_def)
  have p: "air_pos r c < 196" by (simp add: air_pos_def)
  show ?thesis
  proof (cases "air_pos r c + d < 196")
    case True
    then show ?thesis using q d by simp
  next
    case False
    then have "air_pos r' c = air_pos r c + d - 196" using q p d by (simp add: mod_if)
    then show ?thesis using False p d by simp
  qed
qed

lemma bptc_corrects:
  assumes "product_codeword (bptc_matrix (bptc_deinterleave x))"
    and "\<And>c r r'. c < 15 \<Longrightarrow> r < r' \<Longrightarrow> r' < 13 \<Longrightarrow>
           x ! air_pos r c = y ! air_pos r c \<or> x ! air_pos r' c = y ! air_pos r' c"
  shows "bptc196_96 y = bptc196_96 x"
proof -
  let ?M = "bptc_matrix (bptc_deinterleave x)" and ?N = "bptc_matrix (bptc_deinterleave y)"
  have M13: "length ?M = 13" "length ?N = 13" by (simp_all add: bptc_matrix_def)
  have "column ?N c = column ?M c \<or> (\<exists>f<13. column ?N c = flip_at f (column ?M c))" if c: "c < 15" for c
  proof (cases "\<exists>f<13. x ! air_pos f c \<noteq> y ! air_pos f c")
    case True
    then obtain f where f: "f < 13" "x ! air_pos f c \<noteq> y ! air_pos f c" by blast
    have "x ! air_pos r c = y ! air_pos r c" if "r < 13" "r \<noteq> f" for r
      using assms(2) [OF c] f that by (metis linorder_neqE_nat)
    then have "column ?N c = flip_at f (column ?M c)"
      using f c M13 by (intro nth_equalityI) (auto simp: bptc_matrix_air)
    then show ?thesis using f by blast
  next
    case False
    then have "column ?N c = column ?M c"
      using c M13 by (intro nth_equalityI) (auto simp: bptc_matrix_air)
    then show ?thesis ..
  qed
  then have "bptc_columns ?N = ?M" by (intro bptc_columns_correct assms mat_bptc_matrix)
  moreover have "bptc_columns ?M = ?M" by (intro bptc_columns_correct assms mat_bptc_matrix) simp
  ultimately show ?thesis by (simp add: bptc196_96_def)
qed

section \<open>Reference encoder\<close>

definition bptc_data_rows :: "bits \<Rightarrow> bits list" where
  "bptc_data_rows info = ([False, False, False] @ take 8 info) #
     map (\<lambda>r. take 11 (drop (8 + 11 * r) info)) [0..<8]"

definition bptc_top :: "bits \<Rightarrow> bits list" where
  "bptc_top info = map (\<lambda>d. d @ h15_11_par d) (bptc_data_rows info)"

definition bptc_encode :: "bits \<Rightarrow> bits list" where
  "bptc_encode info =
     (let T = bptc_top info
      in T @ map (\<lambda>k. map (\<lambda>c. h13_9_par (column T c) ! k) [0..<15]) [0..<4])"

definition bptc_interleave :: "bits list \<Rightarrow> bits" where
  "bptc_interleave M = (let m = False # concat M in map (\<lambda>j. m ! (13 * j mod 196)) [0..<196])"

definition h13_eqs :: "nat list list" where
  "h13_eqs = [[0, 1, 3, 5, 6], [0, 1, 2, 4, 6, 7], [0, 1, 2, 3, 5, 7, 8], [0, 2, 4, 5, 8]]"

lemma h13_9_par_eqs: "h13_9_par d = map (xor_at d) h13_eqs"
  by (simp add: h13_9_par_def h13_eqs_def)

definition xor_rows :: "bits list \<Rightarrow> nat list \<Rightarrow> bits" where
  "xor_rows M is = foldr (\<lambda>i. xorl (M ! i)) is (zeros 15)"

lemma xor_rows_codeword:
  assumes "\<forall>i\<in>set is. codeword h15_11_par 11 4 (M ! i)"
  shows "codeword h15_11_par 11 4 (xor_rows M is)"
  using assms
proof (induction "is")
  case Nil
  then show ?case using h15.codeword_zeros by (simp add: xor_rows_def)
next
  case (Cons i "is")
  then show ?case by (simp add: xor_rows_def h15.codeword_xorl)
qed

lemma xor_rows_nth:
  assumes "\<forall>i\<in>set is. length (M ! i) = 15 \<and> i < length M" "c < 15"
  shows "length (xor_rows M is) = 15 \<and> xor_rows M is ! c = xor_at (column M c) is"
  using assms by (induction "is") (auto simp: xor_rows_def)

lemma bptc_top_rows:
  assumes "length info = 96"
  shows "length (bptc_top info) = 9"
    and "row \<in> set (bptc_top info) \<Longrightarrow> codeword h15_11_par 11 4 row"
proof -
  show "length (bptc_top info) = 9" by (simp add: bptc_top_def bptc_data_rows_def)
  have "length d = 11" if "d \<in> set (bptc_data_rows info)" for d
    using that assms by (auto simp: bptc_data_rows_def)
  then show "row \<in> set (bptc_top info) \<Longrightarrow> codeword h15_11_par 11 4 row"
    by (auto simp: bptc_top_def intro: h15.codeword_encode)
qed

lemma bptc_parity_row:
  assumes "length info = 96" "k < 4"
  shows "map (\<lambda>c. h13_9_par (column (bptc_top info) c) ! k) [0..<15] = xor_rows (bptc_top info) (h13_eqs ! k)"
    and "codeword h15_11_par 11 4 (xor_rows (bptc_top info) (h13_eqs ! k))"
proof -
  let ?T = "bptc_top info"
  have "k \<in> {0, 1, 2, 3}" using assms(2) by auto
  then have small: "\<forall>i\<in>set (h13_eqs ! k). i < 9" by (auto simp: h13_eqs_def)
  then have cw: "\<forall>i\<in>set (h13_eqs ! k). codeword h15_11_par 11 4 (?T ! i) \<and> i < length ?T"
    using bptc_top_rows [OF assms(1)] by simp
  then show "codeword h15_11_par 11 4 (xor_rows ?T (h13_eqs ! k))" by (intro xor_rows_codeword) simp
  have len: "\<forall>i\<in>set (h13_eqs ! k). length (?T ! i) = 15 \<and> i < length ?T"
    using cw by (simp add: codeword_def)
  have "length h13_eqs = 4" by (simp add: h13_eqs_def)
  then show "map (\<lambda>c. h13_9_par (column ?T c) ! k) [0..<15] = xor_rows ?T (h13_eqs ! k)"
    using xor_rows_nth [OF len] xor_rows_nth [OF len, of 0] assms(2)
    by (intro nth_equalityI) (auto simp: h13_9_par_eqs)
qed

lemma bptc_encode_product:
  assumes "length info = 96"
  shows "product_codeword (bptc_encode info)"
proof -
  let ?T = "bptc_top info"
  let ?P = "map (\<lambda>k. map (\<lambda>c. h13_9_par (column ?T c) ! k) [0..<15]) [0..<4]"
  have enc: "bptc_encode info = ?T @ ?P" by (simp add: bptc_encode_def Let_def)
  have "codeword h15_11_par 11 4 row" if "row \<in> set ?P" for row
    using that bptc_parity_row [OF assms] by auto
  then have rows: "\<forall>row\<in>set (?T @ ?P). codeword h15_11_par 11 4 row"
    using bptc_top_rows(2) [OF assms] by auto
  then have mat: "mat13x15 (?T @ ?P)"
    using bptc_top_rows(1) [OF assms] by (auto simp: mat13x15_def codeword_def)
  have "codeword h13_9_par 9 4 (column (?T @ ?P) c)" if "c < 15" for c
  proof -
    have "column ?P c = h13_9_par (column ?T c)"
      using that h13.par_length by (intro nth_equalityI) auto
    moreover have "column (?T @ ?P) c = column ?T c @ column ?P c" by (simp add: column_def)
    ultimately show ?thesis
      using h13.codeword_encode [of "column ?T c"] bptc_top_rows(1) [OF assms] by simp
  qed
  then show ?thesis using rows mat by (simp add: product_codeword_def enc)
qed

lemma concat_nth_rows:
  assumes "\<forall>row\<in>set M. length row = n" "r < length M" "c < n"
  shows "concat M ! (r * n + c) = M ! r ! c"
  using assms
proof (induction M arbitrary: r)
  case (Cons row M)
  then show ?case by (cases r) (auto simp: nth_append algebra_simps)
qed simp

lemma bptc_matrix_interleave:
  assumes "mat13x15 M"
  shows "bptc_matrix (bptc_deinterleave (bptc_interleave M)) = M"
proof -
  let ?m = "False # concat M"
  have "bptc_deinterleave (bptc_interleave M) ! i = ?m ! i" if "i < 196" for i
    using that interleave_inverse [OF that]
    by (simp add: bptc_deinterleave_def bptc_interleave_def)
  moreover have "concat M ! (r * 15 + c) = M ! r ! c" if "r < 13" "c < 15" for r c
    using assms that by (intro concat_nth_rows) (auto simp: mat13x15_def)
  ultimately have e: "bptc_deinterleave (bptc_interleave M) ! (1 + r * 15 + c) = M ! r ! c"
    if "r < 13" "c < 15" for r c
    using that by (simp add: nth_Cons')
  show ?thesis
    using assms e by (intro mat_eqI) (auto simp: mat_bptc_matrix mat13x15_def bptc_matrix_def
        intro!: nth_equalityI)
qed

lemma bptc_info_encode:
  assumes "length info = 96"
  shows "bptc_info (bptc_encode info) = info"
proof -
  have drop_split: "drop k info = take 11 (drop k info) @ drop (k + 11) info" for k
    by (metis add.commute append_take_drop_id drop_drop)
  have r: "bptc_encode info ! r = bptc_data_rows info ! r @ h15_11_par (bptc_data_rows info ! r)"
    if "r < 9" for r
  proof -
    have "length (bptc_data_rows info) = 9" by (simp add: bptc_data_rows_def)
    then show ?thesis using that by (simp add: bptc_encode_def Let_def bptc_top_def nth_append)
  qed
  have row0: "map (\<lambda>c. bptc_encode info ! 0 ! c) [3..<11] = take 8 info"
    using assms
    by (intro nth_equalityI) (auto simp: r bptc_data_rows_def nth_append less_Suc_eq eval_nat_numeral)
  have row: "map (\<lambda>c. bptc_encode info ! r ! c) [0..<11] = take 11 (drop (8 + 11 * (r - 1)) info)"
    if "r \<in> {1..<9}" for r
    using that assms by (intro nth_equalityI) (auto simp: r bptc_data_rows_def nth_append nth_Cons')
  have "concat (map (\<lambda>r. map (\<lambda>c. bptc_encode info ! r ! c) [0..<11]) [1..<9]) =
        concat (map (\<lambda>r. take 11 (drop (8 + 11 * (r - 1)) info)) [1..<9])"
    using row by (intro arg_cong [where f = concat] map_cong) auto
  also have "\<dots> = take 11 (drop 8 info) @ take 11 (drop 19 info) @ take 11 (drop 30 info) @
     take 11 (drop 41 info) @ take 11 (drop 52 info) @ take 11 (drop 63 info) @
     take 11 (drop 74 info) @ take 11 (drop 85 info)"
    by (simp add: upt_conv_Cons)
  also have "\<dots> = drop 8 info"
    using assms drop_split [of 8] drop_split [of 19] drop_split [of 30] drop_split [of 41]
      drop_split [of 52] drop_split [of 63] drop_split [of 74] drop_split [of 85]
    by simp
  finally show ?thesis unfolding bptc_info_def row0 by (simp only: append_take_drop_id)
qed

lemma bptc_round_trip:
  assumes "length info = 96"
  shows "bptc196_96 (bptc_interleave (bptc_encode info)) = (True, info)"
proof -
  have p: "product_codeword (bptc_encode info)" by (rule bptc_encode_product [OF assms])
  then have m: "bptc_matrix (bptc_deinterleave (bptc_interleave (bptc_encode info))) = bptc_encode info"
    by (intro bptc_matrix_interleave) (simp add: product_codeword_def)
  have "bptc_columns (bptc_encode info) = bptc_encode info"
    using p by (intro bptc_columns_correct) (auto simp: product_codeword_def)
  then show ?thesis
    by (simp add: bptc196_96_def m bptc_rows_codeword [OF p] bptc_info_encode [OF assms] assms)
qed

section \<open>Properties\<close>

text \<open>
  C1: a BPTC(196,96) burst survives any error burst of up to 7 bits on the air: let
  \<^verbatim>\<open>info\<close> be 96 information bits, encoded and interleaved as the standard says, and
  \<^verbatim>\<open>y\<close> a received burst that differs from the transmitted one only in a window of 7
  consecutive bits; then \<^verbatim>\<open>bptc196_96\<close> succeeds and returns \<^verbatim>\<open>info\<close>.
\<close>
theorem bptc_corrects_burst:
  assumes "length info = 96"
    and "\<forall>j<196. j < s \<or> s + 7 \<le> j \<longrightarrow> y ! j = bptc_interleave (bptc_encode info) ! j"
  shows "bptc196_96 y = (True, info)"
proof -
  let ?x = "bptc_interleave (bptc_encode info)"
  have p: "product_codeword (bptc_encode info)" by (rule bptc_encode_product [OF assms(1)])
  then have m: "bptc_matrix (bptc_deinterleave ?x) = bptc_encode info"
    by (intro bptc_matrix_interleave) (simp add: product_codeword_def)
  have "bptc196_96 y = bptc196_96 ?x"
  proof (rule bptc_corrects)
    show "product_codeword (bptc_matrix (bptc_deinterleave ?x))" using p m by simp
    fix c r r' :: nat
    assume "c < 15" "r < r'" "r' < 13"
    have "air_pos r c < 196" "air_pos r' c < 196" by (simp_all add: air_pos_def)
    moreover have "air_pos r c < s \<or> s + 7 \<le> air_pos r c \<or> air_pos r' c < s \<or> s + 7 \<le> air_pos r' c"
      using air_pos_apart [OF \<open>r < r'\<close> \<open>r' < 13\<close>, of c] by linarith
    ultimately show "?x ! air_pos r c = y ! air_pos r c \<or> ?x ! air_pos r' c = y ! air_pos r' c"
      using assms(2) by metis
  qed
  then show ?thesis using bptc_round_trip [OF assms(1)] by simp
qed

theorem bptc_corrects_burst_witness:
  "bptc196_96 (map (\<lambda>j. bptc_interleave (bptc_encode (zeros 96)) ! j \<noteq> (50 \<le> j \<and> j < 57)) [0..<196]) =
     (True, zeros 96)"
  by (rule bptc_corrects_burst [where s = 50]) auto

end
