(* ===== verification/Ais.thy ===== *)
theory Ais
  imports CrcRegister Complex_Main
begin

text \<open>
  The AIS receiver, \<^verbatim>\<open>src/modules/ais/ais_decode.hpp\<close> and
  \<^verbatim>\<open>src/modules/ais/ais_meta.hpp\<close>: the HDLC bit machine \<^verbatim>\<open>AisDecoder::feed_bit\<close> with its
  buffers and counters, the frame check, the field extraction \<^verbatim>\<open>emit\<close>, the record and
  the label tables.  The callbacks are recorded: \<^verbatim>\<open>on_record\<close> appends to
  \<^verbatim>\<open>ad_records\<close>, \<^verbatim>\<open>on_gate\<close> to \<^verbatim>\<open>ad_gates\<close>.  Counters of type \<^verbatim>\<open>int\<close> and
  \<^verbatim>\<open>long\<close> are integers; float and double fields are reals (the exact quotient, before
  rounding to the format).
\<close>

section \<open>The record and its tables\<close>

record AisRecord =
  t_ms :: int
  freq :: real
  ch :: int
  crc_ok :: bool
  msg_type :: int
  mmsi :: u32
  has_pos :: bool
  lat :: real
  lon :: real
  sog :: real
  cog :: real
  heading :: int
  nav_status :: int
  name :: bytes
  callsign :: bytes
  ship_type :: int
  station :: bytes
  rx_cnt :: u32
  imo :: u32
  dest :: bytes
  draught :: real
  eta_mon :: u8
  eta_day :: u8
  eta_hour :: u8
  eta_min :: u8
  fp_ver :: u16
  has_rf :: bool
  cfo_hz :: real
  fdev_std_hz :: real
  rssi_db :: real
  clk_ppm :: real
  dur_ms :: real
  ai_status :: u8
  ai_mmsi :: u32
  ai_conf :: u16
  anom_flag :: u8
  anom_reason :: u8
  anom_score :: u16

definition ais_default :: AisRecord where
  "ais_default = \<lparr> t_ms = 0, freq = 0, ch = 0, crc_ok = False, msg_type = 0, mmsi = 0,
     has_pos = False, lat = 0, lon = 0, sog = -1, cog = -1, heading = 511, nav_status = -1,
     name = replicate 21 0, callsign = replicate 8 0, ship_type = 0, station = replicate 16 0,
     rx_cnt = 0, imo = 0, dest = replicate 21 0, draught = -1,
     eta_mon = 0, eta_day = 0, eta_hour = 24, eta_min = 60,
     fp_ver = 0, has_rf = False, cfo_hz = 0, fdev_std_hz = 0, rssi_db = 0, clk_ppm = 0, dur_ms = 0,
     ai_status = 0, ai_mmsi = 0, ai_conf = 0, anom_flag = 0, anom_reason = 0, anom_score = 0 \<rparr>"

definition ANOM_NONE :: u8 where "ANOM_NONE = 0"
definition ANOM_GAP :: u8 where "ANOM_GAP = 1"
definition ANOM_JUMP :: u8 where "ANOM_JUMP = 2"
definition ANOM_SPEED :: u8 where "ANOM_SPEED = 3"
definition ANOM_ZONE :: u8 where "ANOM_ZONE = 4"

definition ais_anom_reason :: "u8 \<Rightarrow> string" where
  "ais_anom_reason r =
     (if r = ANOM_GAP then ''GAP'' else if r = ANOM_JUMP then ''JUMP''
      else if r = ANOM_SPEED then ''SPEED'' else if r = ANOM_ZONE then ''ZONE'' else '''')"

definition ais_sixbit_ascii :: "nat \<Rightarrow> u8" where
  "ais_sixbit_ascii s =
     (if 1 \<le> s \<and> s \<le> 31 then of_nat (s + 64) else if s \<le> 63 then of_nat s else 32)"

definition ais_navstatus :: "int \<Rightarrow> string" where
  "ais_navstatus s =
     (let T = [''Underway(eng)'', ''Anchored'', ''Not under cmd'', ''Restricted manoeuv'',
               ''Constrained draught'', ''Moored'', ''Aground'', ''Fishing'', ''Sailing'',
               ''HSC'', ''WIG'', ''Reserved11'', ''Reserved12'', ''Reserved13'', ''AIS-SART'', ''Undefined'']
      in if 0 \<le> s \<and> s < 16 then T ! nat s else '''')"

definition ais_shiptype :: "int \<Rightarrow> string" where
  "ais_shiptype t =
     (if t \<le> 0 \<or> t > 99 then ''''
      else if t \<ge> 20 \<and> t \<le> 29 then ''WIG''
      else if t = 30 then ''Fishing''
      else if t = 31 \<or> t = 32 then ''Towing''
      else if t = 33 then ''Dredging''
      else if t = 34 then ''Diving''
      else if t = 35 then ''Military''
      else if t = 36 then ''Sailing''
      else if t = 37 then ''Pleasure''
      else if t \<ge> 40 \<and> t \<le> 49 then ''HSC''
      else if t = 50 then ''Pilot''
      else if t = 51 then ''SAR''
      else if t = 52 then ''Tug''
      else if t = 53 then ''Port tender''
      else if t = 55 then ''Law enforce''
      else if t \<ge> 60 \<and> t \<le> 69 then ''Passenger''
      else if t \<ge> 70 \<and> t \<le> 79 then ''Cargo''
      else if t \<ge> 80 \<and> t \<le> 89 then ''Tanker''
      else if t \<ge> 90 \<and> t \<le> 99 then ''Other''
      else ''Other'')"

definition mid_table :: "(nat list \<times> string) list" where
  "mid_table =
    [([440, 441], ''Korea''), ([431, 432], ''Japan''), ([412, 413, 414], ''China''),
     ([416], ''Taiwan''), ([477, 457], ''HongKong''), ([525], ''Indonesia''), ([533], ''Malaysia''),
     ([563, 564, 565, 566], ''Singapore''), ([567], ''Thailand''), ([574], ''Vietnam''),
     ([548], ''Philippines''), ([419], ''India''), ([366, 367, 368, 369, 338, 358], ''USA''),
     ([316], ''Canada''), ([503], ''Australia''), ([512], ''NewZealand''), ([232, 233, 234, 235], ''UK''),
     ([211, 218], ''Germany''), ([226, 227, 228], ''France''), ([247], ''Italy''), ([224], ''Spain''),
     ([244, 245, 246], ''Netherlands''), ([257, 258, 259], ''Norway''), ([265, 266], ''Sweden''),
     ([273], ''Russia''), ([271], ''Turkey''), ([636, 637], ''Liberia''), ([538], ''MarshallIs''),
     ([351, 352, 353, 354, 370, 371, 372, 373], ''Panama'')]"

definition ais_mid_country :: "u32 \<Rightarrow> string" where
  "ais_mid_country m =
     (let n = unat m;
          look = (\<lambda>mid. case List.find (\<lambda>(ks, _). mid \<in> set ks) mid_table of
                          Some (_, c) \<Rightarrow> c | None \<Rightarrow> '''')
      in if 200000000 \<le> n \<and> n \<le> 799999999 then look (n div 1000000)
         else if 800000000 \<le> n \<and> n \<le> 899999999 then look (n div 100000 mod 1000)
         else '''')"

section \<open>Frame check and field extraction\<close>

text \<open>
  \<^verbatim>\<open>sdlc_crc\<close>: the inner loop walks a marker bit \<^verbatim>\<open>0x100 + byte\<close> down to 1.
\<close>

fun sdlc_bits :: "nat \<Rightarrow> u16 \<Rightarrow> u16" where
  "sdlc_bits c crc =
     (if c > 1
      then sdlc_bits (c div 2)
             (if bit crc 0 \<noteq> odd c then drop_bit 1 crc XOR 0x8408 else drop_bit 1 crc)
      else crc)"

declare sdlc_bits.simps [simp del]

definition sdlc_crc :: "bytes \<Rightarrow> u16" where
  "sdlc_crc data = NOT (foldl (\<lambda>crc b. sdlc_bits (0x100 + unat b) crc) 0xFFFF data)"

definition BUFSZ :: nat where "BUFSZ = 520"

definition octet :: "bits \<Rightarrow> nat \<Rightarrow> u8" where
  "octet buf j = foldl (\<lambda>tmp i. tmp OR push_bit i (of_bool (buf ! (i + 8 * j)))) 0 [0..<8]"

definition calc_crc :: "bits \<Rightarrow> int \<Rightarrow> bits option" where
  "calc_crc buffer length_bits =
     (let length_bytes = length_bits div 8;
          buflen = length_bytes + 2
      in if buflen \<le> 0 \<or> buflen * 8 > int BUFSZ then None
         else let buf = map (octet buffer) [0..<nat buflen]
              in if sdlc_crc buf \<noteq> 0x0F47 then None
                 else let data = concat (map byte_msb (take (nat length_bytes) buf))
                      in Some (data @ replicate (BUFSZ - length data) False))"

definition henten :: "bits \<Rightarrow> nat \<Rightarrow> nat \<Rightarrow> u64" where
  "henten rbuffer from sz =
     foldl (\<lambda>t i. t OR push_bit (sz - 1 - i) (of_bool (rbuffer ! (from + i)))) 0 [0..<sz]"

definition sext :: "u64 \<Rightarrow> nat \<Rightarrow> int" where
  "sext v bits = (if v AND push_bit (bits - 1) 1 \<noteq> 0 then sint (v - push_bit bits 1) else sint v)"

fun blank_tail :: "bytes \<Rightarrow> bytes" where
  "blank_tail [] = []"
| "blank_tail (c # cs) = (if c = 32 \<or> c = 0 then 0 # blank_tail cs else c # cs)"

definition sixstr :: "bits \<Rightarrow> nat \<Rightarrow> nat \<Rightarrow> bytes" where
  "sixstr rbuffer from chars =
     (let out = map (\<lambda>k. ais_sixbit_ascii (unat (henten rbuffer (from + 6 * k) 6))) [0..<chars]
      in rev (blank_tail (rev out)) @ [0])"

definition set_pos :: "bits \<Rightarrow> nat \<Rightarrow> nat \<Rightarrow> AisRecord \<Rightarrow> AisRecord" where
  "set_pos rb lon_off lat_off m =
     (let rlon = henten rb lon_off 28; rlat = henten rb lat_off 27
      in if rlon = 0x6791AC0 \<or> rlat = 0x3412140 then m
         else let m = m\<lparr> lon := real_of_int (sext rlon 28) / 600000, lat := real_of_int (sext rlat 27) / 600000 \<rparr>
              in if lon m \<ge> -180 \<and> lon m \<le> 180 \<and> lat m \<ge> -90 \<and> lat m \<le> 90
                 then m\<lparr> has_pos := True \<rparr> else m)"

definition set_sog :: "bits \<Rightarrow> nat \<Rightarrow> AisRecord \<Rightarrow> AisRecord" where
  "set_sog rb off m =
     (let s = henten rb off 10 in if s \<noteq> 1023 then m\<lparr> sog := real (unat s) / 10 \<rparr> else m)"

definition set_cog :: "bits \<Rightarrow> nat \<Rightarrow> AisRecord \<Rightarrow> AisRecord" where
  "set_cog rb off m =
     (let c = henten rb off 12 in if c \<noteq> 3600 \<and> c < 3600 then m\<lparr> cog := real (unat c) / 10 \<rparr> else m)"

definition set_hdg :: "bits \<Rightarrow> nat \<Rightarrow> AisRecord \<Rightarrow> AisRecord" where
  "set_hdg rb off m = m\<lparr> heading := int (unat (henten rb off 9)) \<rparr>"

definition ais_fields :: "bits \<Rightarrow> int \<Rightarrow> AisRecord \<Rightarrow> AisRecord" where
  "ais_fields rb bits m =
     (let ty = msg_type m in
      if ty = 1 \<or> ty = 2 \<or> ty = 3 then
        (if bits < 144 then m
         else set_hdg rb 128 (set_cog rb 116 (set_pos rb 61 89 (set_sog rb 50
                (m\<lparr> nav_status := int (unat (henten rb 38 4)) \<rparr>)))))
      else if ty = 4 then (if bits < 144 then m else set_pos rb 79 107 m)
      else if ty = 5 then
        (if bits < 420 then m
         else let m = m\<lparr> imo := ucast (henten rb 40 30), callsign := sixstr rb 70 7, name := sixstr rb 112 20,
                         ship_type := int (unat (henten rb 232 8)),
                         eta_mon := ucast (henten rb 274 4), eta_day := ucast (henten rb 278 5),
                         eta_hour := ucast (henten rb 283 5), eta_min := ucast (henten rb 288 6) \<rparr>;
                  d = henten rb 294 8;
                  m = (if d \<noteq> 0 then m\<lparr> draught := real (unat d) / 10 \<rparr> else m)
              in m\<lparr> dest := sixstr rb 302 20 \<rparr>)
      else if ty = 18 then
        (if bits < 144 then m
         else set_hdg rb 124 (set_cog rb 112 (set_pos rb 57 85 (set_sog rb 46 m))))
      else if ty = 19 then
        (if bits < 306 then m
         else (set_hdg rb 124 (set_cog rb 112 (set_pos rb 57 85 (set_sog rb 46 m))))
                \<lparr> name := sixstr rb 143 20, ship_type := int (unat (henten rb 263 8)) \<rparr>)
      else if ty = 24 then
        (let part = unat (henten rb 38 2)
         in if part = 0 then (if bits \<ge> 160 then m\<lparr> name := sixstr rb 40 20 \<rparr> else m)
            else if part = 1 then
              (if bits \<ge> 162 then m\<lparr> ship_type := int (unat (henten rb 40 8)), callsign := sixstr rb 90 7 \<rparr> else m)
            else m)
      else m)"

definition ais_emit :: "bits \<Rightarrow> int \<Rightarrow> AisRecord option" where
  "ais_emit rb bits =
     (let ty = int (unat (henten rb 0 6))
      in if ty < 1 \<or> ty > 27 then None
         else Some (ais_fields rb bits
                (ais_default\<lparr> crc_ok := True, msg_type := ty, mmsi := ucast (henten rb 8 30) \<rparr>)))"

section \<open>The bit machine\<close>

datatype ais_phase = ST_SKURR | ST_PREAMBLE | ST_STARTSIGN | ST_DATA | ST_STOPSIGN

record ais_decoder =
  ad_state :: ais_phase
  ad_buffer :: bits
  ad_rbuffer :: bits
  ad_bufferpos :: nat
  ad_last :: bool
  ad_antallpreamble :: int
  ad_nstartsign :: int
  ad_antallenner :: int
  ad_bitstuff :: bool
  ad_nskurr :: int
  ad_npreamble :: int
  dg_pre :: int
  dg_gate :: int
  dg_crctry :: int
  dg_crcok :: int
  ad_records :: "AisRecord list"
  ad_gates :: "bool list"

definition ais_init :: ais_decoder where
  "ais_init = \<lparr> ad_state = ST_SKURR, ad_buffer = replicate BUFSZ False, ad_rbuffer = replicate BUFSZ False,
     ad_bufferpos = 0, ad_last = False, ad_antallpreamble = 0, ad_nstartsign = 0, ad_antallenner = 0,
     ad_bitstuff = False, ad_nskurr = 0, ad_npreamble = 0,
     dg_pre = 0, dg_gate = 0, dg_crctry = 0, dg_crcok = 0, ad_records = [], ad_gates = [] \<rparr>"

definition reset_frame :: "ais_decoder \<Rightarrow> ais_decoder" where
  "reset_frame d = d\<lparr> ad_bufferpos := 0, ad_antallenner := 0, ad_bitstuff := False,
     ad_nstartsign := 0, ad_antallpreamble := 0 \<rparr>"

definition reset_all :: "ais_decoder \<Rightarrow> ais_decoder" where
  "reset_all d = (reset_frame (d\<lparr> ad_gates := ad_gates d @ [False] \<rparr>))
     \<lparr> ad_state := ST_SKURR, ad_nskurr := 0, ad_npreamble := 0, ad_last := False \<rparr>"

definition feed_data :: "bool \<Rightarrow> ais_decoder \<Rightarrow> ais_decoder" where
  "feed_data x d =
     (if ad_bitstuff d
      then (if x then d\<lparr> ad_state := ST_STOPSIGN, ad_bitstuff := False \<rparr> else d\<lparr> ad_bitstuff := False \<rparr>)
      else
        let d = (if x = ad_last d \<and> x
                 then let d = d\<lparr> ad_antallenner := ad_antallenner d + 1 \<rparr>
                      in if ad_antallenner d = 4 then d\<lparr> ad_bitstuff := True, ad_antallenner := 0 \<rparr> else d
                 else d\<lparr> ad_antallenner := 0 \<rparr>);
            d = (if ad_bufferpos d < BUFSZ
                 then d\<lparr> ad_buffer := (ad_buffer d)[ad_bufferpos d := x], ad_bufferpos := ad_bufferpos d + 1 \<rparr>
                 else d)
        in if ad_bufferpos d \<ge> BUFSZ - 1 then reset_all d else d)"

definition feed_skurr :: "bool \<Rightarrow> ais_decoder \<Rightarrow> ais_decoder" where
  "feed_skurr x d =
     (let d = d\<lparr> ad_antallpreamble := (if x \<noteq> ad_last d then ad_antallpreamble d + 1 else 0) \<rparr>;
          d = (if ad_antallpreamble d > 14 \<and> \<not> x
               then d\<lparr> ad_state := ST_PREAMBLE, ad_nskurr := 0, ad_antallpreamble := 0, dg_pre := dg_pre d + 1 \<rparr>
               else d)
      in d\<lparr> ad_nskurr := ad_nskurr d + 1 \<rparr>)"

definition feed_preamble :: "bool \<Rightarrow> ais_decoder \<Rightarrow> ais_decoder" where
  "feed_preamble x d =
     (let d = (if x \<noteq> ad_last d \<and> ad_nstartsign d = 0
               then d\<lparr> ad_antallpreamble := ad_antallpreamble d + 1 \<rparr>
               else if x
               then (if ad_nstartsign d = 0 then d\<lparr> ad_nstartsign := 3, ad_last := x \<rparr>
                     else if ad_nstartsign d = 5
                     then d\<lparr> ad_nstartsign := ad_nstartsign d + 1, ad_npreamble := 0,
                             ad_antallpreamble := 0, ad_state := ST_STARTSIGN \<rparr>
                     else d\<lparr> ad_nstartsign := ad_nstartsign d + 1 \<rparr>)
               else (if ad_nstartsign d = 0 then d\<lparr> ad_nstartsign := 1 \<rparr> else reset_all d))
      in d\<lparr> ad_npreamble := ad_npreamble d + 1 \<rparr>)"

definition feed_startsign :: "bool \<Rightarrow> ais_decoder \<Rightarrow> ais_decoder" where
  "feed_startsign x d =
     (let d = (if ad_nstartsign d \<ge> 7
               then (if \<not> x
                     then d\<lparr> ad_state := ST_DATA, ad_nstartsign := 0, ad_antallenner := 0,
                             ad_buffer := replicate BUFSZ False, ad_bufferpos := 0, dg_gate := dg_gate d + 1,
                             ad_gates := ad_gates d @ [True] \<rparr>
                     else reset_all d)
               else if \<not> x then reset_all d else d)
      in d\<lparr> ad_nstartsign := ad_nstartsign d + 1 \<rparr>)"

definition feed_stopsign :: "bool \<Rightarrow> ais_decoder \<Rightarrow> ais_decoder" where
  "feed_stopsign x d =
     (let bits = int (ad_bufferpos d) - 6 - 16;
          d = (if \<not> x \<and> bits > 0
               then let d = d\<lparr> dg_crctry := dg_crctry d + 1 \<rparr>
                    in case calc_crc (ad_buffer d) bits of
                         None \<Rightarrow> d
                       | Some rb \<Rightarrow>
                           let d = d\<lparr> ad_rbuffer := rb, dg_crcok := dg_crcok d + 1 \<rparr>
                           in case ais_emit rb bits of
                                None \<Rightarrow> d
                              | Some m \<Rightarrow> d\<lparr> ad_records := ad_records d @ [m] \<rparr>
               else d)
      in reset_all d)"

definition feed_bit :: "bool \<Rightarrow> ais_decoder \<Rightarrow> ais_decoder" where
  "feed_bit x d =
     (case ad_state d of
        ST_DATA \<Rightarrow> feed_data x d
      | ST_SKURR \<Rightarrow> feed_skurr x d
      | ST_PREAMBLE \<Rightarrow> feed_preamble x d
      | ST_STARTSIGN \<Rightarrow> feed_startsign x d
      | ST_STOPSIGN \<Rightarrow> feed_stopsign x d)\<lparr> ad_last := x \<rparr>"

definition feed_bits :: "bits \<Rightarrow> ais_decoder \<Rightarrow> ais_decoder" where
  "feed_bits xs d = foldl (\<lambda>d x. feed_bit x d) d xs"

end
