(* ===== verification/Fcs16.thy ===== *)
theory Fcs16
  imports CrcRegister
begin

text \<open>
  The reflected 16-bit register with polynomial \<^verbatim>\<open>0x8408\<close>, shared by the frame check of
  AIS (\<^verbatim>\<open>src/modules/ais/ais_decode.hpp\<close>) and the block check of ACARS
  (\<^verbatim>\<open>src/modules/acars/acars_decode.hpp\<close>).
\<close>

definition sdlc_S :: "u16 \<Rightarrow> u16" where
  "sdlc_S r = (if bit r 0 then drop_bit 1 r XOR 0x8408 else drop_bit 1 r)"

lemma poly_8408_bits: "bit (0x8408 :: u16) (16 - 1)" "\<forall>k. bit (0x8408 :: u16) k \<longrightarrow> k < 16"
  by (simp, auto dest: bit_imp_le_length)

interpretation sdlc: crc_register sdlc_S "\<lambda>i. i" 16
  by (rule reflected_register [where P = "0x8408", OF sdlc_S_def poly_8408_bits]) simp_all

lemma sdlc_feed:
  "(if bit crc 0 \<noteq> x then drop_bit 1 crc XOR 0x8408 else drop_bit 1 crc) = crc_feed sdlc_S 0 crc x"
proof -
  have "drop_bit 1 (crc XOR single 0) = drop_bit 1 crc"
    by (rule bit_word_eqI) (auto simp: bit_drop_bit_eq bit_xor_iff)
  then show ?thesis by (auto simp: crc_feed_def sdlc_S_def bit_xor_iff)
qed

lemma placed_word:
  assumes "n \<le> LENGTH('a)"
  shows "placed (\<lambda>i. i) 0 (map (bit (w :: 'a::len word)) [0..<n]) = take_bit n w"
proof (rule bit_word_eqI)
  fix k assume "k < LENGTH('a)"
  have "{j. j < n \<and> bit w j \<and> j = k} = (if k < n \<and> bit w k then {k} else {})" by auto
  then show "bit (placed (\<lambda>i. i) 0 (map (bit w) [0..<n]) :: 'a word) k = bit (take_bit n w) k"
    using \<open>k < LENGTH('a)\<close> by (auto simp: bit_placed bit_take_bit_iff cong: conj_cong)
qed

lemma placed_byte: "(placed (\<lambda>i. i) 0 (byte_lsb b) :: u16) = ucast b"
proof (rule bit_word_eqI)
  fix k assume "k < LENGTH(16)"
  have "{j. j < 8 \<and> bit b j \<and> j = k} = (if k < 8 \<and> bit b k then {k} else {})" by auto
  then show "bit (placed (\<lambda>i. i) 0 (byte_lsb b) :: u16) k = bit (ucast b :: u16) k"
    using \<open>k < LENGTH(16)\<close> bit_imp_le_length [of b k]
    by (auto simp: bit_placed bit_ucast_iff byte_lsb_def cong: conj_cong)
qed

lemma sdlc_S_16: "(sdlc_S ^^ 16) 0xFFFF = 0xF0B8"
  by (simp add: funpow_numeral_step sdlc_S_def)

end
