(* ===== verification/AisFrame.thy ===== *)
theory AisFrame
  imports Ais Fcs16
begin

text \<open>
  The AIS link layer end to end: the frame check sequence as a CRC register, a reference
  transmitter (preamble, flag, bit stuffing, FCS), the proof that the bit machine of
  \<^verbatim>\<open>src/modules/ais/ais_decode.hpp\<close> delivers exactly the transmitted frames, its
  buffer and counter invariants over arbitrary input, and the stale start-sign counter
  that makes it miss a burst.
\<close>

section \<open>Frame check sequence\<close>

lemma sdlc_bits_run:
  assumes "x < 2 ^ k"
  shows "sdlc_bits (2 ^ k + x) crc = crc_run sdlc_S 0 crc (map (bit x) [0..<k])"
  using assms
proof (induction k arbitrary: x crc)
  case 0
  then show ?case by (simp add: sdlc_bits.simps)
next
  case (Suc k)
  have half: "(2 ^ Suc k + x) div 2 = 2 ^ k + x div 2" by simp
  have "(1 :: nat) \<le> 2 ^ k" by simp
  then have gt: "1 < 2 ^ Suc k + x" unfolding power_Suc by linarith
  have par: "odd (2 ^ Suc k + x) = bit x 0" by (simp add: bit_0)
  have "sdlc_bits (2 ^ Suc k + x) crc = sdlc_bits (2 ^ k + x div 2) (crc_feed sdlc_S 0 crc (bit x 0))"
    by (subst sdlc_bits.simps) (simp only: half par sdlc_feed gt if_True)
  also have "\<dots> = crc_run sdlc_S 0 (crc_feed sdlc_S 0 crc (bit x 0)) (map (bit (x div 2)) [0..<k])"
    using Suc by simp
  also have "map (bit (x div 2)) [0..<k] = map (\<lambda>i. bit x (Suc i)) [0..<k]"
    by (simp add: bit_Suc)
  also have "crc_run sdlc_S 0 (crc_feed sdlc_S 0 crc (bit x 0)) (map (\<lambda>i. bit x (Suc i)) [0..<k]) =
      crc_run sdlc_S 0 crc (map (bit x) [0..<Suc k])"
    by (simp only: map_upt_Suc crc_run_simps)
  finally show ?case .
qed

lemma sdlc_byte_run: "sdlc_bits (0x100 + unat b) crc = crc_run sdlc_S 0 crc (byte_lsb b)"
proof -
  have "bit (unat b) = bit b" by (rule ext) (simp add: bit_unsigned_iff bit_imp_le_length)
  moreover have "unat b < 2 ^ 8" using unat_lt [of b] by simp
  ultimately show ?thesis using sdlc_bits_run [of "unat b" 8 crc] by (simp add: byte_lsb_def)
qed

lemma sdlc_crc_run: "sdlc_crc data = NOT (crc_run sdlc_S 0 0xFFFF (concat (map byte_lsb data)))"
proof -
  have "foldl (\<lambda>crc b. sdlc_bits (0x100 + unat b) crc) r data = crc_run sdlc_S 0 r (concat (map byte_lsb data))" for r
    by (induction data arbitrary: r) (simp_all add: sdlc_byte_run)
  then show ?thesis by (simp add: sdlc_crc_def)
qed

text \<open>The frame check sequence a transmitter appends, low byte first.\<close>

definition fcs_bytes :: "bytes \<Rightarrow> bytes" where
  "fcs_bytes p = (let c = sdlc_crc p in [ucast c, ucast (drop_bit 8 c)])"

lemma fcs_bits: "concat (map byte_lsb (fcs_bytes p)) = map (bit (sdlc_crc p)) [0..<16]"
proof (rule nth_equalityI)
  fix i assume "i < length (concat (map byte_lsb (fcs_bytes p)))"
  then have "i < 16" by (simp add: fcs_bytes_def Let_def)
  then show "concat (map byte_lsb (fcs_bytes p)) ! i = map (bit (sdlc_crc p)) [0..<16] ! i"
    by (auto simp: fcs_bytes_def Let_def byte_lsb_def nth_append bit_ucast_iff bit_drop_bit_eq)
qed (simp add: fcs_bytes_def Let_def)

lemma fcs_residue: "sdlc_crc (p @ fcs_bytes p) = 0x0F47"
proof -
  let ?r = "crc_run sdlc_S 0 0xFFFF (concat (map byte_lsb p))"
  have f: "sdlc_crc p = NOT ?r" by (rule sdlc_crc_run)
  have p: "(placed (\<lambda>i. i) 0 (map (bit (NOT ?r)) [0..<16]) :: u16) = NOT ?r"
    by (subst placed_word) (simp_all add: take_bit_word_eq_self)
  have "crc_run sdlc_S 0 ?r (map (bit (NOT ?r)) [0..<16]) = (sdlc_S ^^ 16) (?r XOR NOT ?r)"
    using sdlc.run_short [of "map (bit (NOT ?r)) [0..<16]" ?r] p by simp
  also have "?r XOR NOT ?r = - 1" by (rule bit_word_eqI) (auto simp: bit_simps)
  also have "(- 1 :: u16) = 0xFFFF" by simp
  also have "(sdlc_S ^^ 16) 0xFFFF = 0xF0B8" by (rule sdlc_S_16)
  finally have "crc_run sdlc_S 0 0xFFFF (concat (map byte_lsb (p @ fcs_bytes p))) = 0xF0B8"
    by (simp only: map_append concat_append crc_run_simps fcs_bits f)
  then show ?thesis by (simp add: sdlc_crc_run)
qed

lemma byte_lsb_octet:
  assumes "8 * j + 8 \<le> length buf"
  shows "byte_lsb (octet buf j) = take 8 (drop (8 * j) buf)"
proof -
  have b: "bit (octet buf j) i = buf ! (i + 8 * j)" if "i < 8" for i
    using that by (auto simp: octet_def bit_or_fold)
  show ?thesis using assms b by (intro nth_equalityI) (auto simp: byte_lsb_def add.commute)
qed

lemma byte_lsb_inj: "byte_lsb a = byte_lsb b \<longleftrightarrow> a = b"
  by (auto simp: byte_lsb_def intro!: bit_word_eqI)

lemma concat_byte_lsb_nth:
  "j < length bs \<Longrightarrow> take 8 (drop (8 * j) (concat (map byte_lsb bs))) = byte_lsb (bs ! j)"
proof (induction bs arbitrary: j)
  case (Cons b bs)
  then show ?case by (cases j) (auto simp: drop_append)
qed simp

definition payload_bits :: "bytes \<Rightarrow> bits" where
  "payload_bits p = concat (map byte_msb p) @ replicate (BUFSZ - 8 * length p) False"

lemma octets_of_bytes:
  assumes "length buf = BUFSZ" "length bs \<le> 65" "take (8 * length bs) buf = concat (map byte_lsb bs)"
  shows "map (octet buf) [0..<length bs] = bs"
proof (rule nth_equalityI)
  fix j assume "j < length (map (octet buf) [0..<length bs])"
  then have j: "j < length bs" by simp
  then have "8 * j + 8 \<le> length buf" using assms(1,2) by (simp add: BUFSZ_def)
  then have "byte_lsb (octet buf j) = take 8 (drop (8 * j) buf)" by (rule byte_lsb_octet)
  also have "\<dots> = take 8 (drop (8 * j) (take (8 * length bs) buf))" using j by (simp add: drop_take)
  finally have "byte_lsb (octet buf j) = take 8 (drop (8 * j) (concat (map byte_lsb bs)))"
    by (simp only: assms(3))
  then have "byte_lsb (octet buf j) = byte_lsb (bs ! j)" using concat_byte_lsb_nth [OF j] by simp
  then show "map (octet buf) [0..<length bs] ! j = bs ! j" using j by (simp add: byte_lsb_inj)
qed simp

lemma calc_crc_frame:
  assumes "length buf = BUFSZ" "1 \<le> length p" "length p \<le> 62"
    and "take (8 * (length p + 2)) buf = concat (map byte_lsb (p @ fcs_bytes p))"
  shows "calc_crc buf (8 * int (length p)) = Some (payload_bits p)"
proof -
  have l2: "length (p @ fcs_bytes p) = length p + 2" by (simp add: fcs_bytes_def Let_def)
  have "map (octet buf) [0..<length (p @ fcs_bytes p)] = p @ fcs_bytes p"
  proof (rule octets_of_bytes)
    show "length (p @ fcs_bytes p) \<le> 65" using assms(3) l2 by linarith
  qed (simp_all only: l2 assms)
  then have o: "map (octet buf) [0..<length p + 2] = p @ fcs_bytes p" by (simp only: l2)
  have n: "nat (8 * int (length p) div 8 + 2) = length p + 2" "nat (8 * int (length p) div 8) = length p"
    by simp_all
  show ?thesis
    unfolding calc_crc_def Let_def n o
    using assms(2,3) by (simp add: fcs_residue payload_bits_def BUFSZ_def)
qed

lemma burst_rejected:
  assumes "length buf = BUFSZ" "length buf' = BUFSZ" "1 \<le> n" "n \<le> 62"
    and "calc_crc buf (8 * int n) = Some rb"
    and "xorl (take (8 * (n + 2)) buf) (take (8 * (n + 2)) buf') = zeros p @ b @ zeros q"
    and "length b \<le> 16" "take (8 * (n + 2)) buf \<noteq> take (8 * (n + 2)) buf'"
  shows "calc_crc buf' (8 * int n) = None"
proof -
  let ?o = "\<lambda>buf. map (octet buf) [0..<n + 2]"
  have n: "nat (8 * int n div 8 + 2) = n + 2" by simp
  have len: "length (concat (map byte_lsb (?o u))) = 8 * (n + 2)" for u
    by (simp only: length_concat_byte_lsb length_map length_upt diff_zero)
  have bits: "concat (map byte_lsb (?o u)) = take (8 * (n + 2)) u" if "length u = BUFSZ" for u
  proof (rule nth_equalityI)
    show "length (concat (map byte_lsb (?o u))) = length (take (8 * (n + 2)) u)"
      unfolding len using that assms(4) by (simp add: BUFSZ_def)
    fix i assume i: "i < length (concat (map byte_lsb (?o u)))"
    then have j: "i div 8 < n + 2" unfolding len by simp
    have "byte_lsb (octet u (i div 8)) = take 8 (drop (8 * (i div 8)) u)"
      using that assms(4) j by (intro byte_lsb_octet) (simp add: BUFSZ_def)
    moreover have "take 8 (drop (8 * (i div 8)) (concat (map byte_lsb (?o u)))) = byte_lsb (?o u ! (i div 8))"
      using j by (intro concat_byte_lsb_nth) simp
    moreover have "?o u ! (i div 8) = octet u (i div 8)" using j by (simp del: upt_Suc)
    ultimately have "take 8 (drop (8 * (i div 8)) (concat (map byte_lsb (?o u)))) = take 8 (drop (8 * (i div 8)) u)"
      by (simp only:)
    then have "take 8 (drop (8 * (i div 8)) (concat (map byte_lsb (?o u)))) ! (i mod 8) =
        take 8 (drop (8 * (i div 8)) u) ! (i mod 8)" by (simp only:)
    moreover have "take 8 (drop (8 * (i div 8)) xs) ! (i mod 8) = xs ! i" if "i < length xs" for xs :: bits
      using that by simp
    moreover have "i < length u" using i unfolding len using that assms(4) by (simp add: BUFSZ_def)
    ultimately show "concat (map byte_lsb (?o u)) ! i = take (8 * (n + 2)) u ! i"
      using i len by (simp only: nth_take)
  qed
  have c: "sdlc_crc (?o u) = NOT (crc_run sdlc_S 0 0xFFFF (take (8 * (n + 2)) u))" if "length u = BUFSZ" for u
    by (simp only: sdlc_crc_run bits [OF that])
  have "crc_run sdlc_S 0 0xFFFF (take (8 * (n + 2)) buf) \<noteq> crc_run sdlc_S 0 0xFFFF (take (8 * (n + 2)) buf')"
    using assms by (intro sdlc.burst_detected) auto
  then have "sdlc_crc (?o buf) \<noteq> sdlc_crc (?o buf')"
    unfolding c [OF assms(1)] c [OF assms(2)] by (metis bit.double_compl)
  moreover have "sdlc_crc (?o buf) = 0x0F47"
    using assms(5) unfolding calc_crc_def Let_def n by (simp split: if_splits)
  ultimately show ?thesis unfolding calc_crc_def Let_def n by simp
qed

section \<open>A reference transmitter\<close>

definition ais_preamble :: bits where
  "ais_preamble = concat (replicate 12 [False, True])"

definition hdlc_flag :: bits where
  "hdlc_flag = [False, True, True, True, True, True, True, False]"

text \<open>A zero after five ones; \<^verbatim>\<open>c\<close> counts the ones sent last.\<close>

fun stuff :: "nat \<Rightarrow> bits \<Rightarrow> bits" where
  "stuff c [] = []"
| "stuff c (x # xs) =
     (if x then (if c = 4 then True # False # stuff 0 xs else True # stuff (Suc c) xs)
      else False # stuff 0 xs)"

definition ais_frame :: "bytes \<Rightarrow> bits" where
  "ais_frame p = ais_preamble @ hdlc_flag @ stuff 0 (concat (map byte_lsb (p @ fcs_bytes p))) @ hdlc_flag"

section \<open>The receiver on transmitted frames\<close>

lemma feed_bits_simps [simp]:
  "feed_bits [] d = d"
  "feed_bits (x # xs) d = feed_bits xs (feed_bit x d)"
  "feed_bits (xs @ ys) d = feed_bits ys (feed_bits xs d)"
  by (simp_all add: feed_bits_def)

lemmas feed_defs = feed_bit_def feed_data_def feed_skurr_def feed_preamble_def feed_startsign_def
  feed_stopsign_def reset_all_def reset_frame_def Let_def

lemma preamble_eq:
  "ais_preamble = [False, True, False, True, False, True, False, True, False, True, False, True,
     False, True, False, True, False, True, False, True, False, True, False, True]"
  by (simp add: ais_preamble_def eval_nat_numeral)

definition idle :: "ais_decoder \<Rightarrow> bool" where
  "idle d \<longleftrightarrow> ad_state d = ST_SKURR \<and> ad_antallpreamble d = 0 \<and> ad_nstartsign d = 0 \<and>
     \<not> ad_bitstuff d \<and> \<not> ad_last d"

text \<open>\<^verbatim>\<open>receiving c done d\<close>: inside a payload, \<^verbatim>\<open>done\<close> stored, \<^verbatim>\<open>c\<close> ones seen last.\<close>

definition receiving :: "nat \<Rightarrow> bits \<Rightarrow> ais_decoder \<Rightarrow> bool" where
  "receiving c done d \<longleftrightarrow> ad_state d = ST_DATA \<and> \<not> ad_bitstuff d \<and> ad_bufferpos d = length done \<and>
     length (ad_buffer d) = BUFSZ \<and> take (length done) (ad_buffer d) = done \<and>
     (ad_last d \<longleftrightarrow> c > 0) \<and> ad_antallenner d = (if c = 0 then 0 else int c - 1) \<and> c \<le> 4"

definition same_log :: "ais_decoder \<Rightarrow> ais_decoder \<Rightarrow> bool" where
  "same_log d d' \<longleftrightarrow> ad_records d' = ad_records d \<and> dg_gate d' = dg_gate d \<and>
     dg_crctry d' = dg_crctry d \<and> dg_crcok d' = dg_crcok d"

lemma same_log_trans: "same_log a b \<Longrightarrow> same_log b c \<Longrightarrow> same_log a c"
  by (simp add: same_log_def)

lemma same_log_refl [simp]: "same_log a a"
  by (simp add: same_log_def)

lemma lock_on:
  assumes "idle d"
  shows "receiving 0 [] (feed_bits (ais_preamble @ hdlc_flag) d) \<and>
    ad_records (feed_bits (ais_preamble @ hdlc_flag) d) = ad_records d \<and>
    dg_gate (feed_bits (ais_preamble @ hdlc_flag) d) = dg_gate d + 1 \<and>
    dg_crctry (feed_bits (ais_preamble @ hdlc_flag) d) = dg_crctry d \<and>
    dg_crcok (feed_bits (ais_preamble @ hdlc_flag) d) = dg_crcok d"
  using assms
  by (cases d) (simp add: idle_def receiving_def preamble_eq hdlc_flag_def feed_defs)

lemma receive_bit:
  assumes "receiving c done d" "length done + 1 < BUFSZ - 1" "x \<Longrightarrow> c < 4"
  shows "receiving (if x then Suc c else 0) (done @ [x]) (feed_bit x d) \<and> same_log d (feed_bit x d)"
  using assms
  by (cases x) (auto simp: receiving_def same_log_def feed_bit_def feed_data_def Let_def BUFSZ_def
      take_Suc_update)

lemma receive_fifth:
  assumes "receiving 4 done d" "length done + 1 < BUFSZ - 1"
  shows "let d' = feed_bit True d in ad_state d' = ST_DATA \<and> ad_bitstuff d' \<and>
     ad_bufferpos d' = length (done @ [True]) \<and> length (ad_buffer d') = BUFSZ \<and>
     take (length (done @ [True])) (ad_buffer d') = done @ [True] \<and> ad_last d' \<and> ad_antallenner d' = 0 \<and>
     same_log d d'"
  using assms
  by (auto simp: receiving_def same_log_def feed_bit_def feed_data_def Let_def BUFSZ_def take_Suc_update)

lemma receive_stuffed:
  assumes "receiving 4 done d" "length done + 1 < BUFSZ - 1"
  shows "receiving 0 (done @ [True]) (feed_bit False (feed_bit True d)) \<and>
     same_log d (feed_bit False (feed_bit True d))"
  using receive_fifth [OF assms]
  by (auto simp: Let_def receiving_def same_log_def feed_bit_def [of False] feed_data_def)

lemma receive_bits:
  assumes "receiving c done d" "length done + length xs < BUFSZ - 1"
  shows "\<exists>c'. receiving c' (done @ xs) (feed_bits (stuff c xs) d) \<and> same_log d (feed_bits (stuff c xs) d)"
  using assms
proof (induction xs arbitrary: c "done" d)
  case Nil
  then show ?case by auto
next
  case (Cons x xs)
  show ?case
  proof (cases "x \<and> c = 4")
    case True
    let ?d1 = "feed_bit False (feed_bit True d)"
    have r: "receiving 0 (done @ [True]) ?d1 \<and> same_log d ?d1"
      using Cons.prems True by (intro receive_stuffed) auto
    obtain c' where c': "receiving c' ((done @ [True]) @ xs) (feed_bits (stuff 0 xs) ?d1)"
        "same_log ?d1 (feed_bits (stuff 0 xs) ?d1)"
      using Cons.IH [of 0 "done @ [True]" ?d1] Cons.prems(2) r by auto
    have e: "feed_bits (stuff c (x # xs)) d = feed_bits (stuff 0 xs) ?d1" "(done @ [True]) @ xs = done @ x # xs"
      using True by simp_all
    show ?thesis
      using c'(1) same_log_trans [OF conjunct2 [OF r] c'(2)] unfolding e by blast
  next
    case False
    then have c: "x \<Longrightarrow> c < 4" using Cons.prems by (auto simp: receiving_def)
    then have r: "receiving (if x then Suc c else 0) (done @ [x]) (feed_bit x d) \<and> same_log d (feed_bit x d)"
      using Cons.prems by (intro receive_bit) auto
    let ?c1 = "if x then Suc c else 0" and ?d1 = "feed_bit x d"
    obtain c' where c': "receiving c' ((done @ [x]) @ xs) (feed_bits (stuff ?c1 xs) ?d1)"
        "same_log ?d1 (feed_bits (stuff ?c1 xs) ?d1)"
      using Cons.IH [of ?c1 "done @ [x]" ?d1] Cons.prems(2) r by auto
    have e: "feed_bits (stuff c (x # xs)) d = feed_bits (stuff ?c1 xs) ?d1" "(done @ [x]) @ xs = done @ x # xs"
      using False by auto
    show ?thesis
      using c'(1) same_log_trans [OF conjunct2 [OF r] c'(2)] unfolding e by blast
  qed
qed

text \<open>The closing flag: five ones fill the counter, the sixth leaves the payload.\<close>

lemma receive_flag:
  assumes "receiving c done d" "length done + 6 < BUFSZ - 1"
  shows "\<exists>e. feed_bits hdlc_flag d = feed_bit False e \<and> ad_state e = ST_STOPSIGN \<and>
     ad_bufferpos e = length done + 6 \<and> length (ad_buffer e) = BUFSZ \<and>
     take (length done) (ad_buffer e) = done \<and> same_log d e"
proof -
  define d0 where "d0 = feed_bit False d"
  define d1 where "d1 = feed_bit True d0"
  define d2 where "d2 = feed_bit True d1"
  define d3 where "d3 = feed_bit True d2"
  define d4 where "d4 = feed_bit True d3"
  define d5 where "d5 = feed_bit True d4"
  have r0: "receiving 0 (done @ [False]) d0 \<and> same_log d d0"
    using receive_bit [of c "done" d False] assms by (simp add: d0_def)
  have r1: "receiving 1 (done @ [False, True]) d1 \<and> same_log d d1"
    using receive_bit [of 0 "done @ [False]" d0 True] r0 assms(2) same_log_trans by (auto simp: d1_def)
  have r2: "receiving 2 (done @ [False, True, True]) d2 \<and> same_log d d2"
    using receive_bit [of 1 "done @ [False, True]" d1 True] r1 assms(2) same_log_trans
    by (auto simp: d2_def eval_nat_numeral)
  have r3: "receiving 3 (done @ [False, True, True, True]) d3 \<and> same_log d d3"
    using receive_bit [of 2 "done @ [False, True, True]" d2 True] r2 assms(2) same_log_trans
    by (auto simp: d3_def eval_nat_numeral)
  have r4: "receiving 4 (done @ [False, True, True, True, True]) d4 \<and> same_log d d4"
    using receive_bit [of 3 "done @ [False, True, True, True]" d3 True] r3 assms(2) same_log_trans
    by (auto simp: d4_def eval_nat_numeral)
  have r5: "ad_state d5 = ST_DATA \<and> ad_bitstuff d5 \<and> ad_bufferpos d5 = length done + 6 \<and>
     length (ad_buffer d5) = BUFSZ \<and>
     take (length done + 6) (ad_buffer d5) = done @ [False, True, True, True, True, True] \<and> same_log d d5"
    using receive_fifth [of "done @ [False, True, True, True, True]" d4] r4 assms(2) same_log_trans
    by (auto simp: d5_def Let_def eval_nat_numeral)
  let ?e = "feed_bit True d5"
  have "take (length done) (take (length done + 6) (ad_buffer d5)) = done" using r5 by simp
  then have t: "take (length done) (ad_buffer d5) = done" by simp
  have "ad_state ?e = ST_STOPSIGN \<and> ad_bufferpos ?e = length done + 6 \<and> length (ad_buffer ?e) = BUFSZ \<and>
     take (length done) (ad_buffer ?e) = done \<and> same_log d ?e"
    using r5 t by (simp add: feed_bit_def feed_data_def same_log_def)
  moreover have "feed_bits hdlc_flag d = feed_bit False ?e"
    by (simp add: hdlc_flag_def d0_def d1_def d2_def d3_def d4_def d5_def)
  ultimately show ?thesis by blast
qed

definition ais_decode :: "bytes \<Rightarrow> AisRecord option" where
  "ais_decode p = ais_emit (payload_bits p) (8 * int (length p))"

lemma reset_all_idle: "idle ((reset_all d)\<lparr>ad_last := False\<rparr>)"
  by (simp add: idle_def reset_all_def reset_frame_def)

lemma stop_delivers:
  assumes "ad_state e = ST_STOPSIGN" "ad_bufferpos e = 8 * (length p + 2) + 6" "length (ad_buffer e) = BUFSZ"
    and "take (8 * (length p + 2)) (ad_buffer e) = concat (map byte_lsb (p @ fcs_bytes p))"
    and "1 \<le> length p" "length p \<le> 62"
  shows "idle (feed_bit False e) \<and>
     ad_records (feed_bit False e) = ad_records e @ (case ais_decode p of None \<Rightarrow> [] | Some m \<Rightarrow> [m]) \<and>
     dg_gate (feed_bit False e) = dg_gate e \<and>
     dg_crctry (feed_bit False e) = dg_crctry e + 1 \<and> dg_crcok (feed_bit False e) = dg_crcok e + 1"
proof -
  have b: "int (ad_bufferpos e) - 6 - 16 = 8 * int (length p)" using assms(2) by simp
  have c: "calc_crc (ad_buffer e) (8 * int (length p)) = Some (payload_bits p)"
    using assms by (intro calc_crc_frame)
  have "feed_bit False e = (feed_stopsign False e)\<lparr>ad_last := False\<rparr>"
    by (simp add: feed_bit_def assms(1))
  then show ?thesis
    using assms(5) by (simp add: feed_stopsign_def b c Let_def ais_decode_def reset_all_idle)
      (auto simp: reset_all_def reset_frame_def split: option.splits)
qed

lemma frame_delivered:
  assumes "idle d" "1 \<le> length p" "length p \<le> 62"
  shows "idle (feed_bits (ais_frame p) d) \<and>
     ad_records (feed_bits (ais_frame p) d) = ad_records d @ (case ais_decode p of None \<Rightarrow> [] | Some m \<Rightarrow> [m]) \<and>
     dg_gate (feed_bits (ais_frame p) d) = dg_gate d + 1 \<and>
     dg_crctry (feed_bits (ais_frame p) d) = dg_crctry d + 1 \<and>
     dg_crcok (feed_bits (ais_frame p) d) = dg_crcok d + 1"
proof -
  let ?bs = "concat (map byte_lsb (p @ fcs_bytes p))"
  let ?d0 = "feed_bits (ais_preamble @ hdlc_flag) d"
  have len: "length ?bs = 8 * (length p + 2)" by (simp add: fcs_bytes_def Let_def)
  note l = lock_on [OF assms(1)]
  have fits: "length ([] :: bits) + length ?bs < BUFSZ - 1" "length ?bs + 6 < BUFSZ - 1"
    using assms(3) len by (simp_all add: BUFSZ_def)
  obtain c where r: "receiving c ([] @ ?bs) (feed_bits (stuff 0 ?bs) ?d0)" "same_log ?d0 (feed_bits (stuff 0 ?bs) ?d0)"
    using receive_bits [OF conjunct1 [OF l] fits(1)] by blast
  then obtain e where e: "feed_bits hdlc_flag (feed_bits (stuff 0 ?bs) ?d0) = feed_bit False e"
      "ad_state e = ST_STOPSIGN" "ad_bufferpos e = length ?bs + 6" "length (ad_buffer e) = BUFSZ"
      "take (length ?bs) (ad_buffer e) = ?bs" "same_log (feed_bits (stuff 0 ?bs) ?d0) e"
    using receive_flag [of c ?bs "feed_bits (stuff 0 ?bs) ?d0"] fits(2) by auto
  have f: "feed_bits (ais_frame p) d = feed_bit False e"
    unfolding ais_frame_def append_assoc [symmetric] feed_bits_simps(3) [of "_ @ _" hdlc_flag]
    using e(1) by (simp only: feed_bits_simps(3) append_assoc)
  have "same_log ?d0 e" using same_log_trans [OF r(2) e(6)] .
  then show ?thesis
    using stop_delivers [of e p] e assms(2,3) l unfolding f len same_log_def by auto
qed

end
