(* ===== verification/AisFields.thy ===== *)
theory AisFields
  imports AisFrame
begin

text \<open>
  What the AIS receiver makes of a payload: the bit fields that \<^verbatim>\<open>henten\<close> and
  \<^verbatim>\<open>sext\<close> read are the fields a transmitter wrote, position reports come back
  unchanged, and every record the decoder ever delivers is well formed.
\<close>

section \<open>Bit fields\<close>

definition field_bits :: "int \<Rightarrow> nat \<Rightarrow> bits" where
  "field_bits v n = map (\<lambda>i. bit v (n - 1 - i)) [0..<n]"

definition fields_bits :: "(int \<times> nat) list \<Rightarrow> bits" where
  "fields_bits fs = concat (map (\<lambda>(v, n). field_bits v n) fs)"

lemma length_field_bits [simp, bits_len]: "length (field_bits v n) = n"
  by (simp add: field_bits_def)

lemma length_fields_bits: "length (fields_bits fs) = sum_list (map snd fs)"
  by (induction fs) (auto simp: fields_bits_def)

lemma henten_field:
  assumes "length pre = k" "n \<le> 64"
  shows "henten (pre @ field_bits v n @ post) k n = of_int (take_bit n v)"
proof (rule bit_word_eqI)
  fix i assume i: "i < LENGTH(64)"
  have "bit (henten (pre @ field_bits v n @ post) k n) i \<longleftrightarrow>
      (\<exists>j<n. n - 1 - j = i \<and> bit v (n - 1 - j))"
    using assms i by (auto simp: henten_def bit_or_fold nth_append field_bits_def)
  also have "\<dots> \<longleftrightarrow> i < n \<and> bit v i"
  proof
    assume "i < n \<and> bit v i"
    then show "\<exists>j<n. n - 1 - j = i \<and> bit v (n - 1 - j)" by (intro exI [of _ "n - 1 - i"]) auto
  qed auto
  also have "\<dots> \<longleftrightarrow> bit (of_int (take_bit n v) :: u64) i"
    using i by (auto simp: bit_word_of_int_iff bit_take_bit_iff)
  finally show "bit (henten (pre @ field_bits v n @ post) k n) i \<longleftrightarrow> bit (of_int (take_bit n v) :: u64) i" .
qed

lemma henten_fields:
  assumes "j < length fs" "fs ! j = (v, n)" "n \<le> 64" "k = sum_list (map snd (take j fs))"
  shows "henten (fields_bits fs @ post) k n = of_int (take_bit n v)"
proof -
  have "fs = take j fs @ fs ! j # drop (Suc j) fs" using assms(1) by (rule id_take_nth_drop)
  then have "fields_bits fs = fields_bits (take j fs) @ field_bits v n @ fields_bits (drop (Suc j) fs)"
    using assms(2) by (metis (no_types, lifting) case_prod_conv concat.simps(2) concat_append fields_bits_def
        list.simps(9) map_append)
  then show ?thesis
    using henten_field [of "fields_bits (take j fs)" k n v "fields_bits (drop (Suc j) fs) @ post"] assms
    by (simp add: length_fields_bits)
qed

lemma unat_of_take_bit:
  assumes "0 \<le> v" "v < 2 ^ n" "n < 64"
  shows "unat (of_int (take_bit n v) :: u64) = nat v"
proof -
  have t: "take_bit n v = v" using assms by (simp add: take_bit_int_eq_self)
  have "(2 :: int) ^ n < 2 ^ 64" using assms(3) by (intro power_strict_increasing) auto
  then have "v < 2 ^ 64" using assms(2) by linarith
  then have "uint (of_int v :: u64) = v"
    using assms(1) by (simp add: uint_word_of_int_eq take_bit_int_eq_self)
  then show ?thesis by (simp add: t unat_eq_nat_uint)
qed

lemma sext_field:
  assumes "- (2 ^ (n - 1)) \<le> v" "v < 2 ^ (n - 1)" "2 \<le> n" "n \<le> 32"
  shows "sext (of_int (take_bit n v)) n = v"
proof -
  have big: "(2 :: int) ^ n \<le> 2 ^ 32" using assms(4) by (intro power_increasing) auto
  have dbl: "(2 :: int) ^ n = 2 * 2 ^ (n - 1)" using assms(3) by (simp flip: power_Suc)
  have t: "take_bit n v = (if v < 0 then v + 2 ^ n else v)"
  proof (cases "v < 0")
    case True
    have "v mod 2 ^ n = (v + 2 ^ n) mod 2 ^ n" by simp
    also have "\<dots> = v + 2 ^ n"
      using assms(1) True dbl zero_less_power [of "2 :: int" "n - 1"] by (intro mod_pos_pos_trivial) linarith+
    finally show ?thesis using True by (simp add: take_bit_eq_mod)
  next
    case False
    then show ?thesis using assms(2) dbl by (simp add: take_bit_eq_mod mod_pos_pos_trivial)
  qed
  let ?w = "of_int (take_bit n v) :: u64"
  have b: "?w AND push_bit (n - 1) 1 \<noteq> 0 \<longleftrightarrow> bit v (n - 1)"
    unfolding single_def [symmetric]
  proof -
    have "?w AND single (n - 1) = (if bit ?w (n - 1) then single (n - 1) else 0)"
      by (rule bit_word_eqI) (auto simp: bit_and_iff)
    moreover have "bit (single (n - 1) :: u64) (n - 1)"
      using assms(4) by simp
    then have "single (n - 1) \<noteq> (0 :: u64)" by (metis bit_0_eq bot_apply bot_bool_def)
    moreover have "bit ?w (n - 1) = bit v (n - 1)"
      using assms(3,4) by (auto simp: bit_word_of_int_iff bit_take_bit_iff)
    ultimately show "?w AND single (n - 1) \<noteq> 0 \<longleftrightarrow> bit v (n - 1)" by auto
  qed
  have sgn: "bit v (n - 1) \<longleftrightarrow> v < 0"
  proof (cases "v < 0")
    case True
    have "v div 2 ^ (n - 1) = - 1"
      using True assms(1) by (intro int_div_pos_eq [of _ _ _ "v + 2 ^ (n - 1)"]) auto
    then show ?thesis using True by (simp add: bit_iff_odd)
  next
    case False
    then show ?thesis using assms(2) by (simp add: bit_iff_odd div_pos_pos_trivial)
  qed
  have s: "sint (of_int x :: u64) = x" if "- (2 ^ 63) \<le> x" "x < 2 ^ 63" for x
    using that by (simp add: sint_sbintrunc' signed_take_bit_int_eq_self)
  have "(2 :: int) ^ (n - 1) \<le> 2 ^ 31" using assms(4) by (intro power_increasing) auto
  then have range: "- (2 ^ 63) \<le> v" "v < 2 ^ 63" using assms(1,2) by simp_all
  show ?thesis
  proof (cases "v < 0")
    case True
    have "push_bit n 1 = (of_int (2 ^ n) :: u64)" by (simp add: push_bit_eq_mult)
    then have "?w - push_bit n 1 = (of_int v :: u64)" using True t by simp
    then show ?thesis using True b sgn s range by (simp add: sext_def)
  next
    case False
    then show ?thesis using b sgn s range t by (simp add: sext_def)
  qed
qed

lemma unat_take_bit:
  assumes "n < 64"
  shows "unat (of_int (take_bit n v) :: u64) = nat (take_bit n v)"
proof -
  have "take_bit n (take_bit n v) = take_bit n v" by simp
  then show ?thesis using unat_of_take_bit [of "take_bit n v" n] assms by (simp add: take_bit_int_less_exp)
qed

section \<open>Position reports\<close>

definition position_fields :: "int \<Rightarrow> int \<Rightarrow> int \<Rightarrow> int \<Rightarrow> int \<Rightarrow> int \<Rightarrow> int \<Rightarrow> int \<Rightarrow> int \<Rightarrow> int \<Rightarrow> int \<Rightarrow> (int \<times> nat) list" where
  "position_fields ty ri ship nav rot speed acc x y course hdg =
     [(ty, 6), (ri, 2), (ship, 30), (nav, 4), (rot, 8), (speed, 10), (acc, 1), (x, 28), (y, 27),
      (course, 12), (hdg, 9)]"

definition position_record :: "int \<Rightarrow> int \<Rightarrow> int \<Rightarrow> int \<Rightarrow> int \<Rightarrow> int \<Rightarrow> int \<Rightarrow> int \<Rightarrow> AisRecord" where
  "position_record ty ship nav speed x y course hdg =
     ais_default\<lparr> crc_ok := True, msg_type := ty, mmsi := of_int ship, nav_status := nav,
       sog := real_of_int speed / 10, lon := real_of_int x / 600000, lat := real_of_int y / 600000, has_pos := True,
       cog := real_of_int course / 10, heading := hdg \<rparr>"

lemma position_henten:
  assumes "rb = fields_bits (position_fields ty ri ship nav rot speed acc x y course hdg) @ post"
  shows "henten rb 0 6 = of_int (take_bit 6 ty)" "henten rb 8 30 = of_int (take_bit 30 ship)"
    "henten rb 38 4 = of_int (take_bit 4 nav)" "henten rb 50 10 = of_int (take_bit 10 speed)"
    "henten rb 61 28 = of_int (take_bit 28 x)" "henten rb 89 27 = of_int (take_bit 27 y)"
    "henten rb 116 12 = of_int (take_bit 12 course)" "henten rb 128 9 = of_int (take_bit 9 hdg)"
proof -
  show "henten rb 0 6 = of_int (take_bit 6 ty)"
    unfolding assms by (rule henten_fields [where j = 0]) (simp_all add: position_fields_def)
  show "henten rb 8 30 = of_int (take_bit 30 ship)"
    unfolding assms by (rule henten_fields [where j = 2]) (simp_all add: position_fields_def)
  show "henten rb 38 4 = of_int (take_bit 4 nav)"
    unfolding assms by (rule henten_fields [where j = 3]) (simp_all add: position_fields_def)
  show "henten rb 50 10 = of_int (take_bit 10 speed)"
    unfolding assms by (rule henten_fields [where j = 5]) (simp_all add: position_fields_def)
  show "henten rb 61 28 = of_int (take_bit 28 x)"
    unfolding assms by (rule henten_fields [where j = 7]) (simp_all add: position_fields_def)
  show "henten rb 89 27 = of_int (take_bit 27 y)"
    unfolding assms by (rule henten_fields [where j = 8]) (simp_all add: position_fields_def)
  show "henten rb 116 12 = of_int (take_bit 12 course)"
    unfolding assms by (rule henten_fields [where j = 9]) (simp_all add: position_fields_def)
  show "henten rb 128 9 = of_int (take_bit 9 hdg)"
    unfolding assms by (rule henten_fields [where j = 10]) (simp_all add: position_fields_def)
qed

lemma unat_numeral_u64: "unat (0x6791AC0 :: u64) = 0x6791AC0" "unat (0x3412140 :: u64) = 0x3412140"
  by simp_all

lemma set_pos_fields:
  assumes "henten rb i 28 = of_int (take_bit 28 x)" "henten rb j 27 = of_int (take_bit 27 y)"
    and "- 108000000 \<le> x" "x \<le> 108000000" "- 54000000 \<le> y" "y \<le> 54000000"
  shows "set_pos rb i j m = m\<lparr> lon := real_of_int x / 600000, lat := real_of_int y / 600000, has_pos := True \<rparr>"
proof -
  have tx: "take_bit 28 x = (if x < 0 then x + 2 ^ 28 else x)"
  proof (cases "x < 0")
    case True
    have "x mod 2 ^ 28 = (x + 2 ^ 28) mod 2 ^ 28" by simp
    also have "\<dots> = x + 2 ^ 28" using True assms(3) by (intro mod_pos_pos_trivial) simp_all
    finally show ?thesis using True by (simp add: take_bit_eq_mod)
  qed (use assms(4) in \<open>simp add: take_bit_eq_mod mod_pos_pos_trivial\<close>)
  have ty: "take_bit 27 y = (if y < 0 then y + 2 ^ 27 else y)"
  proof (cases "y < 0")
    case True
    have "y mod 2 ^ 27 = (y + 2 ^ 27) mod 2 ^ 27" by simp
    also have "\<dots> = y + 2 ^ 27" using True assms(5) by (intro mod_pos_pos_trivial) simp_all
    finally show ?thesis using True by (simp add: take_bit_eq_mod)
  qed (use assms(6) in \<open>simp add: take_bit_eq_mod mod_pos_pos_trivial\<close>)
  have nx: "nat (take_bit 28 x) \<noteq> 0x6791AC0" "nat (take_bit 27 y) \<noteq> 0x3412140"
    unfolding tx ty using assms(3-6) by auto
  have ux: "unat (of_int (take_bit 28 x) :: u64) = nat (take_bit 28 x)" by (rule unat_take_bit) simp
  have uy: "unat (of_int (take_bit 27 y) :: u64) = nat (take_bit 27 y)" by (rule unat_take_bit) simp
  have ne: "(of_int (take_bit 28 x) :: u64) \<noteq> 0x6791AC0" "(of_int (take_bit 27 y) :: u64) \<noteq> 0x3412140"
  proof -
    show "(of_int (take_bit 28 x) :: u64) \<noteq> 0x6791AC0"
    proof
      assume e: "(of_int (take_bit 28 x) :: u64) = 0x6791AC0"
      show False using nx(1) ux [symmetric] unfolding e unat_numeral_u64 by contradiction
    qed
    show "(of_int (take_bit 27 y) :: u64) \<noteq> 0x3412140"
    proof
      assume e: "(of_int (take_bit 27 y) :: u64) = 0x3412140"
      show False using nx(2) uy [symmetric] unfolding e unat_numeral_u64 by contradiction
    qed
  qed
  have sx: "sext (of_int (take_bit 28 x)) 28 = x" using assms(3,4) by (intro sext_field) simp_all
  have sy: "sext (of_int (take_bit 27 y)) 27 = y" using assms(5,6) by (intro sext_field) simp_all
  have "real_of_int (- 108000000) \<le> real_of_int x" "real_of_int x \<le> real_of_int 108000000"
    "real_of_int (- 54000000) \<le> real_of_int y" "real_of_int y \<le> real_of_int 54000000"
    using assms(3-6) by (simp_all only: of_int_le_iff)
  then have "real_of_int x / 600000 \<ge> -180" "real_of_int x / 600000 \<le> 180"
    "real_of_int y / 600000 \<ge> -90" "real_of_int y / 600000 \<le> 90"
    by linarith+
  then show ?thesis
    unfolding set_pos_def assms(1,2) Let_def using ne by (simp add: sx sy)
qed

lemma field_value:
  assumes "henten rb off n = of_int (take_bit n v)" "0 \<le> v" "v < 2 ^ n" "n < 64"
  shows "unat (henten rb off n) = nat v"
  unfolding assms(1) by (rule unat_of_take_bit [OF assms(2-4)])

lemma set_sog_field:
  assumes "henten rb off 10 = of_int (take_bit 10 v)" "0 \<le> v" "v < 1023"
  shows "set_sog rb off m = m\<lparr> sog := real_of_int v / 10 \<rparr>"
proof -
  have u: "unat (henten rb off 10) = nat v" using assms by (intro field_value) simp_all
  have "henten rb off 10 \<noteq> 1023"
  proof
    assume e: "henten rb off 10 = 1023"
    have "nat v = 1023" using u unfolding e by simp
    then show False using assms(3) by simp
  qed
  then show ?thesis using u assms(2) by (simp add: set_sog_def)
qed

lemma set_cog_field:
  assumes "henten rb off 12 = of_int (take_bit 12 v)" "0 \<le> v" "v < 3600"
  shows "set_cog rb off m = m\<lparr> cog := real_of_int v / 10 \<rparr>"
proof -
  have u: "unat (henten rb off 12) = nat v" using assms by (intro field_value) simp_all
  have "unat (3600 :: u64) = 3600" by simp
  then have l: "henten rb off 12 < 3600" unfolding word_less_nat_alt u using assms(2,3) by simp
  then have "henten rb off 12 \<noteq> 3600" by auto
  then show ?thesis using u l assms(2) by (simp add: set_cog_def)
qed

lemma set_hdg_field:
  assumes "henten rb off 9 = of_int (take_bit 9 v)" "0 \<le> v" "v < 512"
  shows "set_hdg rb off m = m\<lparr> heading := v \<rparr>"
proof -
  have "unat (henten rb off 9) = nat v" using assms by (intro field_value) simp_all
  then show ?thesis using assms(2) by (simp add: set_hdg_def)
qed

lemma position_emit:
  assumes "1 \<le> ty" "ty \<le> 3" "0 \<le> ship" "ship < 2 ^ 30" "0 \<le> nav" "nav < 16" "0 \<le> speed" "speed < 1023"
    and "- 108000000 \<le> x" "x \<le> 108000000" "- 54000000 \<le> y" "y \<le> 54000000"
    and "0 \<le> course" "course < 3600" "0 \<le> hdg" "hdg < 512" "144 \<le> bits"
    and "rb = fields_bits (position_fields ty ri ship nav rot speed acc x y course hdg) @ post"
  shows "ais_emit rb bits = Some (position_record ty ship nav speed x y course hdg)"
proof -
  note h = position_henten [OF assms(18)]
  have ty: "int (unat (henten rb 0 6)) = ty" using field_value [OF h(1)] assms(1,2) by simp
  have nav: "int (unat (henten rb 38 4)) = nav" using field_value [OF h(3)] assms(5,6) by simp
  have "take_bit 30 ship = ship" "take_bit 64 ship = ship" using assms(3,4) by (auto intro: take_bit_int_eq_self)
  then have ship: "ucast (henten rb 8 30) = (of_int ship :: u32)"
    unfolding h(2) by (simp add: ucast_eq uint_word_of_int_eq)
  have pos: "set_pos rb 61 89 m = m\<lparr> lon := real_of_int x / 600000, lat := real_of_int y / 600000, has_pos := True \<rparr>" for m
    using assms(9-12) by (intro set_pos_fields h)
  have ifs: "ty = 1 \<or> ty = 2 \<or> ty = 3" "\<not> (ty < 1 \<or> ty > 27)" "\<not> bits < 144" using assms(1,2,17) by auto
  show ?thesis
    unfolding ais_emit_def Let_def ty ship ais_fields_def position_record_def
    using ifs set_sog_field [OF h(4) assms(7,8)] pos set_cog_field [OF h(7) assms(13,14)]
      set_hdg_field [OF h(8) assms(15,16)] nav
    by (simp add: ais_default_def)
qed

section \<open>Every delivered record is well formed\<close>

definition sane_record :: "AisRecord \<Rightarrow> bool" where
  "sane_record m \<longleftrightarrow> crc_ok m \<and> 1 \<le> msg_type m \<and> msg_type m \<le> 27 \<and> mmsi m < 2 ^ 30 \<and>
     (has_pos m \<longrightarrow> - 180 \<le> lon m \<and> lon m \<le> 180 \<and> - 90 \<le> lat m \<and> lat m \<le> 90) \<and>
     0 \<le> heading m \<and> heading m < 512 \<and> - 1 \<le> nav_status m \<and> nav_status m < 16 \<and>
     (sog m = - 1 \<or> (0 \<le> sog m \<and> sog m < 1023 / 10)) \<and> (cog m = - 1 \<or> (0 \<le> cog m \<and> cog m < 360)) \<and>
     length (name m) = 21 \<and> last (name m) = 0 \<and> length (callsign m) = 8 \<and> last (callsign m) = 0 \<and>
     length (dest m) = 21 \<and> last (dest m) = 0 \<and> rx_cnt m = 0 \<and> \<not> has_rf m \<and> anom_flag m = 0"

lemma henten_less:
  assumes "n < 64"
  shows "unat (henten rb off n) < 2 ^ n"
proof -
  have "henten rb off n = take_bit n (henten rb off n)"
    by (rule bit_word_eqI) (auto simp: bit_take_bit_iff henten_def bit_or_fold)
  then have "unat (henten rb off n) = unat (take_bit n (henten rb off n))" by simp
  also have "\<dots> = take_bit n (unat (henten rb off n))" by (simp add: unsigned_take_bit_eq)
  also have "\<dots> < 2 ^ n" by simp
  finally show ?thesis .
qed

lemma length_blank_tail [simp]: "length (blank_tail cs) = length cs"
  by (induction cs) auto

lemma sixstr_shape: "length (sixstr rb off n) = n + 1" "last (sixstr rb off n) = 0"
  by (simp_all add: sixstr_def Let_def)

lemma has_pos_setters [simp]:
  "has_pos (set_sog rb off m) = has_pos m" "has_pos (set_cog rb off m) = has_pos m"
  by (simp_all add: set_sog_def set_cog_def Let_def)

lemma sane_set_pos: "sane_record m \<Longrightarrow> \<not> has_pos m \<Longrightarrow> sane_record (set_pos rb i j m)"
  by (simp add: sane_record_def set_pos_def Let_def)

lemma sane_numbers:
  "sane_record m \<Longrightarrow> n < 1023 \<Longrightarrow> sane_record (m\<lparr> sog := real n / 10 \<rparr>)"
  "sane_record m \<Longrightarrow> n < 3600 \<Longrightarrow> sane_record (m\<lparr> cog := real n / 10 \<rparr>)"
  "sane_record m \<Longrightarrow> n < 512 \<Longrightarrow> sane_record (m\<lparr> heading := int n \<rparr>)"
  "sane_record m \<Longrightarrow> n < 16 \<Longrightarrow> sane_record (m\<lparr> nav_status := int n \<rparr>)"
  by (simp_all add: sane_record_def)

lemma sane_set_sog:
  assumes "sane_record m"
  shows "sane_record (set_sog rb off m)"
proof (cases "henten rb off 10 = 1023")
  case False
  have "unat (1023 :: u64) = 1023" by simp
  then have "unat (henten rb off 10) \<noteq> 1023"
    using False word_unat_eq_iff [of "henten rb off 10" 1023] by (simp only:) simp
  then have lt: "unat (henten rb off 10) < 1023" using henten_less [of 10 rb off] by simp
  show ?thesis unfolding set_sog_def Let_def
    by (split if_split) (use sane_numbers(1) [OF assms lt] False in blast)
qed (use assms in \<open>simp add: set_sog_def\<close>)

lemma sane_set_cog:
  assumes "sane_record m"
  shows "sane_record (set_cog rb off m)"
proof (cases "henten rb off 12 < 3600")
  case True
  have "unat (3600 :: u64) = 3600" by simp
  then have lt: "unat (henten rb off 12) < 3600" using True by (simp only: word_less_nat_alt)
  show ?thesis unfolding set_cog_def Let_def
    by (split if_split) (use sane_numbers(2) [OF assms lt] assms in blast)
qed (use assms in \<open>simp add: set_cog_def Let_def\<close>)

lemma sane_set_hdg: "sane_record m \<Longrightarrow> sane_record (set_hdg rb off m)"
  unfolding set_hdg_def using henten_less [of 9 rb off] by (intro sane_numbers(3)) simp_all

lemma sane_nav:
  "sane_record m \<Longrightarrow> sane_record (m\<lparr> nav_status := int (unat (henten rb off 4)) \<rparr>)"
  using henten_less [of 4 rb off] by (intro sane_numbers(4)) simp_all

lemma sane_texts:
  "sane_record m \<Longrightarrow> sane_record (m\<lparr> name := sixstr rb off 20 \<rparr>)"
  "sane_record m \<Longrightarrow> sane_record (m\<lparr> callsign := sixstr rb off 7 \<rparr>)"
  "sane_record m \<Longrightarrow> sane_record (m\<lparr> dest := sixstr rb off 20 \<rparr>)"
  "sane_record m \<Longrightarrow> sane_record (m\<lparr> ship_type := t \<rparr>)"
  "sane_record m \<Longrightarrow> sane_record (m\<lparr> draught := x \<rparr>)"
  "sane_record m \<Longrightarrow> sane_record (m\<lparr> imo := i \<rparr>)"
  by (simp_all add: sane_record_def sixstr_shape)

lemma sane_eta:
  "sane_record m \<Longrightarrow> sane_record (m\<lparr> eta_mon := a, eta_day := b, eta_hour := c, eta_min := d \<rparr>)"
  by (simp add: sane_record_def)

lemmas sane_intros = sane_set_pos sane_set_sog sane_set_cog sane_set_hdg sane_texts sane_eta sane_nav

lemma sane_static:
  assumes "sane_record m"
  shows "sane_record (m\<lparr> imo := i, callsign := sixstr rb o1 7, name := sixstr rb o2 20, ship_type := t,
     eta_mon := a, eta_day := b, eta_hour := c, eta_min := d \<rparr>)"
    and "sane_record (m\<lparr> ship_type := t, callsign := sixstr rb o1 7 \<rparr>)"
    and "sane_record (m\<lparr> name := sixstr rb o2 20, ship_type := t \<rparr>)"
  using assms by (simp_all add: sane_record_def sixstr_shape)

lemma if_sane: "sane_record a \<Longrightarrow> sane_record b \<Longrightarrow> sane_record (if P then a else b)"
  by simp

lemma sane_fields:
  assumes "sane_record m" "\<not> has_pos m"
  shows "sane_record (ais_fields rb bits m)"
  unfolding ais_fields_def Let_def
  by (intro if_sane sane_intros sane_static assms; simp add: assms(2))

lemma sane_emit:
  assumes "ais_emit rb bits = Some m"
  shows "sane_record m"
proof -
  let ?ty = "int (unat (henten rb 0 6))"
  let ?m0 = "ais_default\<lparr> crc_ok := True, msg_type := ?ty, mmsi := ucast (henten rb 8 30) \<rparr>"
  from assms have ty: "1 \<le> ?ty" "?ty \<le> 27" and m: "m = ais_fields rb bits ?m0"
    by (auto simp: ais_emit_def Let_def split: if_splits)
  have "unat (henten rb 8 30) < 2 ^ 30" using henten_less [of 30 rb 8] by simp
  then have "unat (ucast (henten rb 8 30) :: u32) < 2 ^ 30"
    by (simp add: unsigned_ucast_eq take_bit_nat_eq_self)
  then have "(ucast (henten rb 8 30) :: u32) < 2 ^ 30" by (simp add: word_less_nat_alt)
  then have "sane_record ?m0" using ty by (simp add: sane_record_def ais_default_def)
  moreover have "\<not> has_pos ?m0" by (simp add: ais_default_def)
  ultimately show ?thesis unfolding m by (rule sane_fields)
qed

section \<open>Invariant of the bit machine\<close>

definition ais_inv :: "ais_decoder \<Rightarrow> bool" where
  "ais_inv d \<longleftrightarrow> length (ad_buffer d) = BUFSZ \<and> ad_bufferpos d < BUFSZ - 1 \<and>
     int (length (ad_records d)) \<le> dg_crcok d \<and> dg_crcok d \<le> dg_crctry d \<and>
     dg_crctry d + (if ad_state d = ST_DATA \<or> ad_state d = ST_STOPSIGN then 1 else 0) \<le> dg_gate d \<and>
     dg_gate d + (if ad_state d = ST_PREAMBLE \<or> ad_state d = ST_STARTSIGN then 1 else 0) \<le> dg_pre d \<and>
     (\<forall>m\<in>set (ad_records d). sane_record m)"

lemma ais_inv_init: "ais_inv ais_init"
  by (simp add: ais_inv_def ais_init_def BUFSZ_def)

lemma ais_inv_reset: "ais_inv (d\<lparr> ad_bufferpos := 0 \<rparr>) \<Longrightarrow> ais_inv (reset_all d)"
  by (simp add: ais_inv_def reset_all_def reset_frame_def BUFSZ_def split: if_splits)

lemma ais_inv_cong:
  "ais_inv (d\<lparr> ad_last := b \<rparr>) = ais_inv d" "ais_inv (d\<lparr> ad_antallenner := n \<rparr>) = ais_inv d"
  "ais_inv (d\<lparr> ad_bitstuff := b \<rparr>) = ais_inv d" "ais_inv (d\<lparr> ad_nstartsign := n \<rparr>) = ais_inv d"
  "ais_inv (d\<lparr> ad_npreamble := n \<rparr>) = ais_inv d" "ais_inv (d\<lparr> ad_nskurr := n \<rparr>) = ais_inv d"
  "ais_inv (d\<lparr> ad_antallpreamble := n \<rparr>) = ais_inv d"
  by (simp_all add: ais_inv_def)

lemma inv_feed_data:
  assumes "ais_inv d" "ad_state d = ST_DATA"
  shows "ais_inv (feed_data x d)"
proof (cases "ad_bitstuff d")
  case True
  then show ?thesis using assms by (simp add: feed_data_def ais_inv_def)
next
  case False
  let ?d1 = "if x = ad_last d \<and> x
     then let d = d\<lparr> ad_antallenner := ad_antallenner d + 1 \<rparr>
          in if ad_antallenner d = 4 then d\<lparr> ad_bitstuff := True, ad_antallenner := 0 \<rparr> else d
     else d\<lparr> ad_antallenner := 0 \<rparr>"
  have lt: "ad_bufferpos d < BUFSZ" using assms(1) by (simp add: ais_inv_def BUFSZ_def)
  have d1: "ais_inv ?d1" using assms by (simp add: Let_def ais_inv_cong)
  let ?d2 = "?d1\<lparr> ad_buffer := (ad_buffer ?d1)[ad_bufferpos ?d1 := x], ad_bufferpos := ad_bufferpos ?d1 + 1 \<rparr>"
  have f: "feed_data x d = (if ad_bufferpos ?d2 \<ge> BUFSZ - 1 then reset_all ?d2 else ?d2)"
    using False lt by (simp add: feed_data_def Let_def)
  have r: "ais_inv (?d2\<lparr> ad_bufferpos := 0 \<rparr>)" using d1 by (simp add: ais_inv_def BUFSZ_def)
  show ?thesis unfolding f using ais_inv_reset [OF r] d1 by (simp add: ais_inv_def)
qed

lemma inv_feed_skurr:
  assumes "ais_inv d" "ad_state d = ST_SKURR"
  shows "ais_inv (feed_skurr x d)"
  using assms by (simp add: feed_skurr_def Let_def ais_inv_def)

lemma inv_feed_preamble:
  assumes "ais_inv d" "ad_state d = ST_PREAMBLE"
  shows "ais_inv (feed_preamble x d)"
  using assms by (simp add: feed_preamble_def Let_def ais_inv_def reset_all_def reset_frame_def BUFSZ_def)

lemma inv_feed_startsign:
  assumes "ais_inv d" "ad_state d = ST_STARTSIGN"
  shows "ais_inv (feed_startsign x d)"
  using assms by (simp add: feed_startsign_def Let_def ais_inv_def reset_all_def reset_frame_def BUFSZ_def)

lemma inv_feed_stopsign:
  assumes "ais_inv d" "ad_state d = ST_STOPSIGN"
  shows "ais_inv (feed_stopsign x d)"
proof -
  let ?bits = "int (ad_bufferpos d) - 6 - 16"
  consider "\<not> (\<not> x \<and> ?bits > 0)" | "\<not> x \<and> ?bits > 0" "calc_crc (ad_buffer d) ?bits = None"
    | rb where "\<not> x \<and> ?bits > 0" "calc_crc (ad_buffer d) ?bits = Some rb" "ais_emit rb ?bits = None"
    | rb m where "\<not> x \<and> ?bits > 0" "calc_crc (ad_buffer d) ?bits = Some rb" "ais_emit rb ?bits = Some m"
    by (metis option.exhaust)
  then show ?thesis
  proof cases
    case 1
    then have "feed_stopsign x d = reset_all d" by (auto simp: feed_stopsign_def Let_def)
    then show ?thesis using assms by (simp add: ais_inv_def reset_all_def reset_frame_def BUFSZ_def)
  next
    case 2
    then have "feed_stopsign x d = reset_all (d\<lparr> dg_crctry := dg_crctry d + 1 \<rparr>)"
      by (simp add: feed_stopsign_def Let_def)
    then show ?thesis using assms by (simp add: ais_inv_def reset_all_def reset_frame_def BUFSZ_def)
  next
    case 3
    then have "feed_stopsign x d =
        reset_all (d\<lparr> dg_crctry := dg_crctry d + 1, ad_rbuffer := rb, dg_crcok := dg_crcok d + 1 \<rparr>)"
      by (simp add: feed_stopsign_def Let_def)
    then show ?thesis using assms by (simp add: ais_inv_def reset_all_def reset_frame_def BUFSZ_def)
  next
    case 4
    then have "feed_stopsign x d =
        reset_all (d\<lparr> dg_crctry := dg_crctry d + 1, ad_rbuffer := rb, dg_crcok := dg_crcok d + 1,
                     ad_records := ad_records d @ [m] \<rparr>)"
      by (simp add: feed_stopsign_def Let_def)
    then show ?thesis using assms sane_emit [OF 4(3)]
      by (auto simp add: ais_inv_def reset_all_def reset_frame_def BUFSZ_def)
  qed
qed

lemma inv_feed_bit: "ais_inv d \<Longrightarrow> ais_inv (feed_bit x d)"
  by (cases "ad_state d")
    (simp_all add: feed_bit_def ais_inv_cong inv_feed_data inv_feed_skurr inv_feed_preamble
      inv_feed_startsign inv_feed_stopsign)

lemma inv_feed_bits: "ais_inv d \<Longrightarrow> ais_inv (feed_bits xs d)"
  by (induction xs arbitrary: d) (auto intro: inv_feed_bit)

section \<open>Properties\<close>

text \<open>
  C3: frames arrive intact.  An idle decoder that receives, one after the other, the frames
  of any list of payloads of 1 to 62 octets (24-bit preamble, flag, stuffed payload and FCS,
  flag) is idle again, has opened the payload gate and passed the CRC check once per frame,
  and has delivered exactly the records of the payloads that decode, in order.
\<close>
theorem ais_frames_delivered:
  assumes "idle d" "\<forall>p\<in>set ps. 1 \<le> length p \<and> length p \<le> 62"
  shows "let d' = feed_bits (concat (map ais_frame ps)) d
         in idle d' \<and> ad_records d' = ad_records d @ List.map_filter ais_decode ps \<and>
            dg_gate d' = dg_gate d + int (length ps) \<and> dg_crcok d' = dg_crcok d + int (length ps)"
  using assms
proof (induction ps arbitrary: d)
  case (Cons p ps)
  note f = frame_delivered [OF Cons.prems(1), of p]
  have "idle (feed_bits (ais_frame p) d)" using f Cons.prems(2) by simp
  from Cons.IH [OF this] show ?case
    using f Cons.prems(2) by (cases "ais_decode p") (simp_all add: Let_def List.map_filter_simps)
qed (simp add: List.map_filter_def)

theorem ais_frames_delivered_witness:
  "let d' = feed_bits (concat (map ais_frame [[0x04, 0x00], [0x10]])) ais_init
   in idle d' \<and> ad_records d' = ad_records ais_init @ List.map_filter ais_decode [[0x04, 0x00], [0x10]] \<and>
      dg_gate d' = dg_gate ais_init + int (length [[0x04, 0x00 :: u8], [0x10]]) \<and>
      dg_crcok d' = dg_crcok ais_init + int (length [[0x04, 0x00 :: u8], [0x10]])"
  by (rule ais_frames_delivered) (simp_all add: idle_def ais_init_def)

text \<open>
  A class A position report comes back unchanged.  For every MMSI below 2^30, every
  navigation status, speed, course, heading and position in range, the payload bits laid
  out as message type 1, 2 or 3 (144 data bits or more) are decoded to the record with
  exactly these values.
\<close>
theorem ais_position_round_trip:
  assumes "ty \<in> {1, 2, 3}" "ship \<in> {0..<2 ^ 30}" "nav \<in> {0..<16}" "speed \<in> {0..<1023}"
    and "x \<in> {-108000000..108000000}" "y \<in> {-54000000..54000000}"
    and "course \<in> {0..<3600}" "hdg \<in> {0..<512}" "144 \<le> bits"
  shows "ais_emit (fields_bits (position_fields ty ri ship nav rot speed acc x y course hdg) @ post) bits =
    Some (position_record ty ship nav speed x y course hdg)"
  by (rule position_emit) (use assms in auto)

theorem ais_position_round_trip_witness:
  "ais_emit (fields_bits (position_fields 1 0 440123456 0 0 123 1 (-77400000) 22500000 900 90) @ replicate 371 False) 168 =
    Some (position_record 1 440123456 0 123 (-77400000) 22500000 900 90)"
  by (rule ais_position_round_trip) simp_all

text \<open>
  C4: over any input the decoder stays inside its buffers and its counters tell the truth.
  After every bit sequence fed to a fresh decoder the write position is below 519 (so the
  next store into the 520-entry buffer is in bounds), at most one record per passed CRC has
  been delivered, passed checks do not exceed tried ones, tried checks do not exceed opened
  payloads, opened payloads do not exceed detected preambles, and every delivered record is
  well formed (type 1..27, MMSI below 2^30, positions inside the globe, texts of full length
  ending in NUL).
\<close>
theorem ais_decoder_safe:
  "let d = feed_bits xs ais_init
   in length (ad_buffer d) = BUFSZ \<and> ad_bufferpos d < BUFSZ - 1 \<and>
      int (length (ad_records d)) \<le> dg_crcok d \<and> dg_crcok d \<le> dg_crctry d \<and>
      dg_crctry d \<le> dg_gate d \<and> dg_gate d \<le> dg_pre d \<and> list_all sane_record (ad_records d)"
  using inv_feed_bits [OF ais_inv_init, of xs] by (auto simp: ais_inv_def Let_def list_all_iff split: if_splits)

text \<open>
  A corrupted frame is dropped.  If a buffer passes the frame check, then every other
  buffer whose payload and FCS differ from it only inside a window of 16 bits fails it.
\<close>
theorem ais_burst_rejected:
  assumes "length buf = BUFSZ" "length buf' = BUFSZ" "1 \<le> n" "n \<le> 62"
    and "calc_crc buf (8 * int n) = Some rb"
    and "xorl (take (8 * (n + 2)) buf) (take (8 * (n + 2)) buf') = zeros p @ b @ zeros q"
    and "length b \<le> 16" "take (8 * (n + 2)) buf \<noteq> take (8 * (n + 2)) buf'"
  shows "calc_crc buf' (8 * int n) = None"
  by (rule burst_rejected [OF assms])

theorem ais_burst_rejected_witness:
  "calc_crc (flip_at 3 (concat (map byte_lsb ([0x04] @ fcs_bytes [0x04])) @ zeros 496)) 8 = None"
proof -
  let ?f = "concat (map byte_lsb ([0x04] @ fcs_bytes [0x04]))"
  let ?buf = "?f @ zeros 496"
  have len: "length ?f = 24" by (simp add: fcs_bytes_def Let_def)
  have lb: "length ?buf = BUFSZ" using len by (simp add: BUFSZ_def)
  have ok: "calc_crc ?buf (8 * int (length [0x04 :: u8])) = Some (payload_bits [0x04])"
    by (rule calc_crc_frame) (use lb len in simp_all)
  have u: "unit 520 3 = zeros 3 @ [True] @ zeros 516" by (rule nth_equalityI) (auto simp: nth_append nth_Cons')
  have f: "flip_at 3 ?buf = xorl ?buf (unit 520 3)" using lb by (simp add: flip_at_xorl BUFSZ_def)
  have "xorl (take 24 ?buf) (take 24 (flip_at 3 ?buf)) = take 24 (unit 520 3)"
    using lb unfolding f take_xorl by (intro nth_equalityI) (auto simp: BUFSZ_def)
  then have x: "xorl (take 24 ?buf) (take 24 (flip_at 3 ?buf)) = zeros 3 @ [True] @ zeros 20"
    unfolding u by (simp add: zeros_def)
  have ne: "take 24 ?buf \<noteq> take 24 (flip_at 3 ?buf)"
  proof
    assume "take 24 ?buf = take 24 (flip_at 3 ?buf)"
    then have "take 24 ?buf ! 3 = take 24 (flip_at 3 ?buf) ! 3" by simp
    moreover have "flip_at 3 ?buf ! 3 = (\<not> ?buf ! 3)" using lb by (subst nth_flip_at) (simp_all add: BUFSZ_def)
    ultimately show False by (simp only: nth_take, simp)
  qed
  have "calc_crc (flip_at 3 ?buf) (8 * int 1) = None"
    using ok lb x ne by (intro ais_burst_rejected [of ?buf "flip_at 3 ?buf" 1 "payload_bits [0x04]" 3 "[True]" 20]) simp_all
  then show ?thesis by simp
qed

text \<open>
  The start-sign counter survives an abort.  The handler of the start sign increments
  \<^verbatim>\<open>nstartsign\<close> after \<^verbatim>\<open>reset_all\<close>, so an aborted flag leaves the searching
  decoder with the value 1; with it the 24-bit preamble and flag of the next burst do not
  open the payload gate and the burst is lost.
\<close>
theorem ais_stale_startsign_misses_burst:
  assumes "ad_state d = ST_SKURR" "ad_antallpreamble d = 0" "ad_nstartsign d = 1"
  shows "dg_gate (feed_bits (ais_preamble @ hdlc_flag) d) = dg_gate d \<and>
         ad_state (feed_bits (ais_preamble @ hdlc_flag) d) = ST_SKURR"
proof (cases "ad_last d")
  case True
  then show ?thesis using assms by (cases d) (simp add: preamble_eq hdlc_flag_def feed_defs)
next
  case False
  then show ?thesis using assms by (cases d) (simp add: preamble_eq hdlc_flag_def feed_defs)
qed

theorem ais_stale_startsign_misses_burst_witness:
  "let d = feed_bits (ais_preamble @ [False, True, True, True, True, True, False]) ais_init
   in ad_state d = ST_SKURR \<and> ad_nstartsign d = 1 \<and>
      dg_gate (feed_bits (ais_preamble @ hdlc_flag) d) = dg_gate d \<and>
      ad_state (feed_bits (ais_preamble @ hdlc_flag) d) = ST_SKURR"
proof -
  let ?d = "feed_bits (ais_preamble @ [False, True, True, True, True, True, False]) ais_init"
  have "ad_state ?d = ST_SKURR" "ad_antallpreamble ?d = 0" "ad_nstartsign ?d = 1"
    by (simp_all add: preamble_eq feed_defs ais_init_def)
  then show ?thesis using ais_stale_startsign_misses_burst [of ?d] by (simp only: Let_def)
qed

end
