(* ===== verification/AisAnom.thy ===== *)
theory AisAnom
  imports Ais
begin

text \<open>
  The rule layer of the AIS behaviour monitor, \<^verbatim>\<open>src/modules/ais/ais_anom.cpp\<close>:
  gap, jump and speed rules over the previous report of each vessel.  The table
  \<^verbatim>\<open>g_prev\<close> is a map from MMSI to the previous state; \<^verbatim>\<open>g_prev[m.mmsi]\<close> inserts the
  default entry when there is none.  The mutex only serialises the calls.
\<close>

definition GAP_MS :: int where "GAP_MS = 6 * 60 * 1000"
definition JUMP_KN :: real where "JUMP_KN = 60"
definition SPEED_KN :: real where "SPEED_KN = 40"
definition JUMP_MIN_MS :: int where "JUMP_MIN_MS = 2000"

record prev_report =
  p_t_ms :: int
  p_lat :: real
  p_lon :: real
  p_has_pos :: bool
  p_underway :: bool

definition prev_default :: prev_report where
  "prev_default = \<lparr> p_t_ms = 0, p_lat = 0, p_lon = 0, p_has_pos = False, p_underway = False \<rparr>"

definition is_underway :: "AisRecord \<Rightarrow> bool" where
  "is_underway m =
     (if nav_status m = 1 \<or> nav_status m = 5 \<or> nav_status m = 6 then False else sog m \<ge> 1 / 2)"

definition dist_nm :: "real \<Rightarrow> real \<Rightarrow> real \<Rightarrow> real \<Rightarrow> real" where
  "dist_nm lat1 lon1 lat2 lon2 =
     (let R_NM = 3440065 / 1000;
          dlat = (lat2 - lat1) * pi / 180;
          dlon = (lon2 - lon1) * pi / 180;
          a = sin (dlat / 2) * sin (dlat / 2) +
              cos (lat1 * pi / 180) * cos (lat2 * pi / 180) * sin (dlon / 2) * sin (dlon / 2)
      in 2 * R_NM * arcsin (min 1 (sqrt a)))"

definition norm_score :: "real \<Rightarrow> real \<Rightarrow> u16" where
  "norm_score val thr =
     (if thr \<le> 0 then 0
      else let r = (val - thr) / thr;
               r = (if r < 0 then 0 else r);
               r = (if r > 1 then 1 else r)
           in of_int \<lfloor>r * 1000\<rfloor>)"

type_synonym prev_table = "u32 \<rightharpoonup> prev_report"

definition gap_rule :: "prev_report \<Rightarrow> AisRecord \<Rightarrow> AisRecord" where
  "gap_rule p m =
     (if p_t_ms p > 0 \<and> p_underway p then
        let dt = t_ms m - p_t_ms p
        in if dt > GAP_MS
           then m\<lparr> anom_flag := 1, anom_reason := ANOM_GAP,
                   anom_score := norm_score (real_of_int dt) (real_of_int GAP_MS) \<rparr>
           else m
      else m)"

definition speed_rule :: "AisRecord \<Rightarrow> AisRecord" where
  "speed_rule m =
     (if sog m \<ge> 0 \<and> sog m > SPEED_KN then
        (if anom_flag m < 2
         then m\<lparr> anom_flag := 2, anom_reason := ANOM_SPEED, anom_score := norm_score (sog m) SPEED_KN \<rparr>
         else m)
      else m)"

definition jump_rule :: "prev_report \<Rightarrow> AisRecord \<Rightarrow> AisRecord" where
  "jump_rule p m =
     (if p_has_pos p \<and> p_t_ms p > 0 then
        let dt = t_ms m - p_t_ms p
        in if dt \<ge> JUMP_MIN_MS then
             let nm = dist_nm (p_lat p) (p_lon p) (lat m) (lon m);
                 hours = real_of_int dt / 3600000;
                 implied_kn = nm / hours
             in if implied_kn > JUMP_KN \<and> anom_flag m < 2
                then m\<lparr> anom_flag := 2, anom_reason := ANOM_JUMP, anom_score := norm_score implied_kn JUMP_KN \<rparr>
                else m
           else m
      else m)"

definition prev_update :: "prev_report \<Rightarrow> AisRecord \<Rightarrow> prev_report" where
  "prev_update p m =
     (let p = p\<lparr> p_t_ms := t_ms m, p_underway := is_underway m \<rparr>
      in if has_pos m then p\<lparr> p_lat := lat m, p_lon := lon m, p_has_pos := True \<rparr> else p)"

definition host_anom :: "prev_table \<Rightarrow> AisRecord \<Rightarrow> AisRecord \<times> prev_table" where
  "host_anom g m0 =
     (let m = m0\<lparr> anom_flag := 0, anom_reason := ANOM_NONE, anom_score := 0 \<rparr>;
          p = (case g (mmsi m) of Some p \<Rightarrow> p | None \<Rightarrow> prev_default);
          m = gap_rule p m;
          m = (if has_pos m then jump_rule p (speed_rule m) else m)
      in (m, g(mmsi m \<mapsto> prev_update p m)))"

text \<open>The monitor over a stream of records, with the judged records in order.\<close>

fun anom_run :: "prev_table \<Rightarrow> AisRecord list \<Rightarrow> AisRecord list" where
  "anom_run g [] = []"
| "anom_run g (m # ms) = (let (m', g') = host_anom g m in m' # anom_run g' ms)"

section \<open>What a verdict means\<close>

definition prev_of :: "prev_table \<Rightarrow> AisRecord \<Rightarrow> prev_report" where
  "prev_of g m = (case g (mmsi m) of Some p \<Rightarrow> p | None \<Rightarrow> prev_default)"

definition gap_cond :: "prev_report \<Rightarrow> AisRecord \<Rightarrow> bool" where
  "gap_cond p m \<longleftrightarrow> p_t_ms p > 0 \<and> p_underway p \<and> t_ms m - p_t_ms p > 360000"

definition speed_cond :: "AisRecord \<Rightarrow> bool" where
  "speed_cond m \<longleftrightarrow> has_pos m \<and> sog m > 40"

definition implied_speed :: "prev_report \<Rightarrow> AisRecord \<Rightarrow> real" where
  "implied_speed p m = dist_nm (p_lat p) (p_lon p) (lat m) (lon m) / (real_of_int (t_ms m - p_t_ms p) / 3600000)"

definition jump_cond :: "prev_report \<Rightarrow> AisRecord \<Rightarrow> bool" where
  "jump_cond p m \<longleftrightarrow> has_pos m \<and> p_has_pos p \<and> p_t_ms p > 0 \<and> t_ms m - p_t_ms p \<ge> 2000 \<and>
     implied_speed p m > 60"

lemma norm_score_le: "unat (norm_score v t) \<le> 1000"
proof (cases "t \<le> 0")
  case False
  define r where "r = (v - t) / t"
  define s where "s = (if (if r < 0 then 0 else r) > 1 then 1 else (if r < 0 then 0 else r))"
  have s: "0 \<le> s" "s \<le> 1" by (auto simp: s_def)
  then have f: "0 \<le> \<lfloor>s * 1000\<rfloor>" "\<lfloor>s * 1000\<rfloor> \<le> 1000" by (simp_all add: floor_le_iff)
  then have "uint (of_int \<lfloor>s * 1000\<rfloor> :: u16) = \<lfloor>s * 1000\<rfloor>"
    by (simp add: uint_word_of_int_eq take_bit_int_eq_self)
  then have "unat (of_int \<lfloor>s * 1000\<rfloor> :: u16) \<le> 1000" using f unfolding unat_eq_nat_uint by linarith
  moreover have "norm_score v t = of_int \<lfloor>s * 1000\<rfloor>"
    using False by (simp add: norm_score_def Let_def s_def r_def)
  ultimately show ?thesis by (simp only:)
qed (simp add: norm_score_def)

lemmas anom_codes = ANOM_NONE_def ANOM_GAP_def ANOM_SPEED_def ANOM_JUMP_def

lemmas anom_consts = GAP_MS_def SPEED_KN_def JUMP_KN_def JUMP_MIN_MS_def

lemma gap_rule_eq:
  "gap_rule p m = (if gap_cond p m
     then m\<lparr> anom_flag := 1, anom_reason := ANOM_GAP,
             anom_score := norm_score (real_of_int (t_ms m - p_t_ms p)) (real_of_int GAP_MS) \<rparr> else m)"
  by (auto simp: gap_rule_def gap_cond_def Let_def GAP_MS_def)

lemma speed_rule_eq:
  assumes "has_pos m" "anom_flag m < 2"
  shows "speed_rule m = (if speed_cond m
     then m\<lparr> anom_flag := 2, anom_reason := ANOM_SPEED, anom_score := norm_score (sog m) SPEED_KN \<rparr> else m)"
  using assms by (auto simp: speed_rule_def speed_cond_def SPEED_KN_def)

lemma jump_rule_eq:
  assumes "has_pos m"
  shows "jump_rule p m = (if jump_cond p m \<and> anom_flag m < 2
     then m\<lparr> anom_flag := 2, anom_reason := ANOM_JUMP, anom_score := norm_score (implied_speed p m) JUMP_KN \<rparr> else m)"
  using assms by (auto simp: jump_rule_def jump_cond_def implied_speed_def Let_def JUMP_KN_def JUMP_MIN_MS_def)

definition verdict :: "u8 \<Rightarrow> u8 \<Rightarrow> u16 \<Rightarrow> AisRecord \<Rightarrow> AisRecord" where
  "verdict f r s m = m\<lparr> anom_flag := f, anom_reason := r, anom_score := s \<rparr>"

lemma conds_verdict [simp]:
  "gap_cond p (verdict f r s m) = gap_cond p m" "speed_cond (verdict f r s m) = speed_cond m"
  "jump_cond p (verdict f r s m) = jump_cond p m" "implied_speed p (verdict f r s m) = implied_speed p m"
  "has_pos (verdict f r s m) = has_pos m" "mmsi (verdict f r s m) = mmsi m" "t_ms (verdict f r s m) = t_ms m"
  "anom_flag (verdict f r s m) = f" "anom_reason (verdict f r s m) = r" "anom_score (verdict f r s m) = s"
  "sog (verdict f r s m) = sog m" "verdict f' r' s' (verdict f r s m) = verdict f' r' s' m"
  "prev_update p (verdict f r s m) = prev_update p m"
  by (simp_all add: verdict_def gap_cond_def speed_cond_def jump_cond_def implied_speed_def prev_update_def
      is_underway_def Let_def)

lemma host_anom_verdict:
  "host_anom g m =
     (let p = prev_of g m in
      ((if speed_cond m then verdict 2 ANOM_SPEED (norm_score (sog m) SPEED_KN) m
        else if jump_cond p m then verdict 2 ANOM_JUMP (norm_score (implied_speed p m) JUMP_KN) m
        else if gap_cond p m
        then verdict 1 ANOM_GAP (norm_score (real_of_int (t_ms m - p_t_ms p)) (real_of_int GAP_MS)) m
        else verdict 0 ANOM_NONE 0 m),
       g(mmsi m \<mapsto> prev_update p m)))"
proof -
  define p where "p = prev_of g m"
  have p: "(case g (mmsi (verdict 0 ANOM_NONE 0 m)) of Some p \<Rightarrow> p | None \<Rightarrow> prev_default) = p"
    by (simp add: p_def prev_of_def)
  let ?m1 = "gap_rule p (verdict 0 ANOM_NONE 0 m)"
  have m1: "?m1 = (if gap_cond p m
      then verdict 1 ANOM_GAP (norm_score (real_of_int (t_ms m - p_t_ms p)) (real_of_int GAP_MS)) m
      else verdict 0 ANOM_NONE 0 m)"
    by (simp add: gap_rule_eq) (simp add: verdict_def)
  have s: "speed_rule ?m1 = (if speed_cond m then verdict 2 ANOM_SPEED (norm_score (sog m) SPEED_KN) m else ?m1)"
    if "has_pos m"
  proof -
    have "has_pos ?m1" "anom_flag ?m1 < 2" "sog ?m1 = sog m" "speed_cond ?m1 = speed_cond m"
      unfolding m1 using that by simp_all
    then show ?thesis unfolding speed_rule_eq [OF \<open>has_pos ?m1\<close> \<open>anom_flag ?m1 < 2\<close>]
      by (simp add: m1) (simp add: verdict_def)
  qed
  have j: "jump_rule p (speed_rule ?m1) =
      (if speed_cond m then verdict 2 ANOM_SPEED (norm_score (sog m) SPEED_KN) m
       else if jump_cond p m then verdict 2 ANOM_JUMP (norm_score (implied_speed p m) JUMP_KN) m else ?m1)"
    if "has_pos m"
  proof (cases "speed_cond m")
    case True
    then show ?thesis using s [OF that] that by (simp add: jump_rule_eq)
  next
    case False
    have h: "has_pos ?m1" unfolding m1 using that by simp
    show ?thesis using False s [OF that] unfolding jump_rule_eq [OF h]
      by (simp add: m1 jump_rule_eq that) (simp add: verdict_def)
  qed
  have np: "\<not> has_pos m \<Longrightarrow> \<not> speed_cond m \<and> \<not> jump_cond p m" by (simp add: speed_cond_def jump_cond_def)
  have h1: "has_pos ?m1 = has_pos m" unfolding m1 by simp
  show ?thesis
    unfolding host_anom_def Let_def verdict_def [symmetric, of 0 ANOM_NONE 0] p p_def [symmetric] h1
    using j np by (cases "has_pos m") (auto simp: m1)
qed

section \<open>Properties\<close>

text \<open>
  The verdict is the strongest rule that fires, and nothing else of the record changes.
  Speed (position report above 40 kn) outranks jump (more than 60 kn between two positions
  at least 2 s apart), which outranks gap (more than 6 minutes of silence of a vessel that
  was under way); the flag is 2 for an alert, 1 for the gap, 0 without a rule, and the score
  stays within 0..1000.
\<close>
theorem host_anom_verdicts:
  "let r = fst (host_anom g m); p = prev_of g m
   in (anom_flag r, anom_reason r) =
        (if speed_cond m then (2, ANOM_SPEED) else if jump_cond p m then (2, ANOM_JUMP)
         else if gap_cond p m then (1, ANOM_GAP) else (0, ANOM_NONE)) \<and>
      unat (anom_score r) \<le> 1000 \<and>
      r\<lparr> anom_flag := 0, anom_reason := 0, anom_score := 0 \<rparr> =
        m\<lparr> anom_flag := 0, anom_reason := 0, anom_score := 0 \<rparr>"
  unfolding host_anom_verdict Let_def
  by (simp add: norm_score_le) (simp add: verdict_def)

text \<open>
  Vessels are judged independently.  In any stream, the verdicts on the records of one
  MMSI are those the monitor gives when it sees only that vessel's records.
\<close>
theorem anom_run_independent:
  "filter (\<lambda>m. mmsi m = a) (anom_run g ms) = anom_run g (filter (\<lambda>m. mmsi m = a) ms)"
proof -
  have same: "mmsi (fst (host_anom g m)) = mmsi m" for g m
    unfolding host_anom_verdict Let_def by simp
  have local: "anom_run g ms = anom_run g' ms"
    if "\<forall>m\<in>set ms. mmsi m = a" "g a = g' a" for g g' ms
    using that
  proof (induction ms arbitrary: g g')
    case (Cons m ms)
    have "prev_of g m = prev_of g' m" using Cons.prems by (simp add: prev_of_def)
    then have e: "fst (host_anom g m) = fst (host_anom g' m)"
      unfolding host_anom_verdict Let_def by (simp only: fst_conv)
    have t: "snd (host_anom g m) a = snd (host_anom g' m) a"
      using Cons.prems \<open>prev_of g m = prev_of g' m\<close> unfolding host_anom_verdict Let_def by simp
    have "anom_run (snd (host_anom g m)) ms = anom_run (snd (host_anom g' m)) ms"
      by (rule Cons.IH) (use Cons.prems(1) t in simp_all)
    then show ?case using e by (simp add: case_prod_unfold Let_def)
  qed simp
  have other: "snd (host_anom g m) a = g a" if "mmsi m \<noteq> a" for g m
    unfolding host_anom_verdict Let_def using that by simp
  show ?thesis
  proof (induction ms arbitrary: g)
    case (Cons m ms)
    show ?case
    proof (cases "mmsi m = a")
      case True
      then show ?thesis using Cons.IH same [of g m] by (simp add: case_prod_unfold Let_def)
    next
      case False
      have "anom_run (snd (host_anom g m)) (filter (\<lambda>m. mmsi m = a) ms) = anom_run g (filter (\<lambda>m. mmsi m = a) ms)"
        using other [OF False] by (intro local) auto
      then show ?thesis using False Cons.IH same [of g m] by (simp add: case_prod_unfold Let_def)
    qed
  qed simp
qed

end
