(* ===== verification/Acars.thy ===== *)
theory Acars
  imports CrcRegister Complex_Main
begin

text \<open>
  The ACARS receiver, \<^verbatim>\<open>src/modules/acars/acars_decode.hpp\<close>,
  \<^verbatim>\<open>acars_meta.hpp\<close> and \<^verbatim>\<open>acars_db.cpp\<close>: the rotating-axis symbol decision
  with its polarity flip, the byte framing machine, the block check, the field extraction,
  the prefix tables and the registration database.  The matched filter and the carrier loop
  in front of the symbol decision are not part of it: a symbol is its pair of projections.
  C strings in records are byte arrays of their declared size padded with NUL.
\<close>

section \<open>Records and tables\<close>

record AcarsMsg =
  am_t_ms :: int
  am_ch :: int
  am_freq :: real
  am_crc_ok :: bool
  am_downlink :: bool
  am_mode :: u8
  am_block :: u8
  am_ack :: u8
  am_station :: bytes
  am_reg :: bytes
  am_flight :: bytes
  am_label :: bytes
  am_text :: bytes

definition acars_default :: AcarsMsg where
  "acars_default = \<lparr> am_t_ms = 0, am_ch = 0, am_freq = 0, am_crc_ok = False, am_downlink = False,
     am_mode = 0, am_block = 0, am_ack = 0, am_station = replicate 16 0, am_reg = replicate 10 0,
     am_flight = replicate 8 0, am_label = replicate 3 0, am_text = replicate 256 0 \<rparr>"

definition country_table :: "(string \<times> string) list" where
  "country_table =
     [(''HL'', ''Korea''), (''JA'', ''Japan''), (''B'', ''China''), (''N'', ''USA''),
      (''C'', ''Canada''), (''VH'', ''Australia''), (''ZK'', ''NewZealand''), (''VT'', ''India''),
      (''9V'', ''Singapore''), (''HS'', ''Thailand''), (''PK'', ''Indonesia''),
      (''RP'', ''Philippines''), (''9M'', ''Malaysia''), (''VN'', ''Vietnam''), (''XU'', ''Cambodia''),
      (''A6'', ''UAE''), (''A7'', ''Qatar''), (''HZ'', ''SaudiArabia''), (''9K'', ''Kuwait''),
      (''4X'', ''Israel''), (''TC'', ''Turkey''), (''EP'', ''Iran''), (''AP'', ''Pakistan''),
      (''4R'', ''SriLanka''), (''S2'', ''Bangladesh''), (''G'', ''UK''), (''D'', ''Germany''),
      (''F'', ''France''), (''I'', ''Italy''), (''EC'', ''Spain''), (''CS'', ''Portugal''),
      (''PH'', ''Netherlands''), (''OO'', ''Belgium''), (''OE'', ''Austria''),
      (''HB'', ''Switzerland''), (''SE'', ''Sweden''), (''LN'', ''Norway''), (''OY'', ''Denmark''),
      (''EI'', ''Ireland''), (''SP'', ''Poland''), (''OK'', ''Czechia''), (''SX'', ''Greece''),
      (''RA'', ''Russia''), (''UR'', ''Ukraine''), (''ZS'', ''SouthAfrica''), (''5Y'', ''Kenya''),
      (''ET'', ''Ethiopia''), (''SU'', ''Egypt''), (''XA'', ''Mexico''), (''PP'', ''Brazil''),
      (''PR'', ''Brazil''), (''PT'', ''Brazil''), (''LV'', ''Argentina''), (''CC'', ''Chile'')]"

definition airline_table :: "(string \<times> string) list" where
  "airline_table =
     [(''KAL'', ''Korean Air''), (''KE'', ''Korean Air''), (''AAR'', ''Asiana''), (''OZ'', ''Asiana''),
      (''JJA'', ''Jeju Air''), (''7C'', ''Jeju Air''), (''JNA'', ''Jin Air''), (''LJ'', ''Jin Air''),
      (''TWB'', ''Tway Air''), (''TW'', ''Tway Air''), (''ABL'', ''Air Busan''),
      (''BX'', ''Air Busan''), (''ASV'', ''Air Seoul''), (''RS'', ''Air Seoul''),
      (''ESR'', ''Eastar Jet''), (''ZE'', ''Eastar Jet''), (''JAL'', ''Japan Airlines''),
      (''JL'', ''Japan Airlines''), (''ANA'', ''All Nippon''), (''NH'', ''All Nippon''),
      (''APJ'', ''Peach''), (''MM'', ''Peach''), (''SKY'', ''Skymark''), (''BC'', ''Skymark''),
      (''CCA'', ''Air China''), (''CA'', ''Air China''), (''CES'', ''China Eastern''),
      (''MU'', ''China Eastern''), (''CSN'', ''China Southern''), (''CZ'', ''China Southern''),
      (''CXA'', ''XiamenAir''), (''MF'', ''XiamenAir''), (''CPA'', ''Cathay Pacific''),
      (''CX'', ''Cathay Pacific''), (''HDA'', ''Cathay''), (''UO'', ''HK Express''),
      (''SIA'', ''Singapore Air''), (''SQ'', ''Singapore Air''), (''THA'', ''Thai Airways''),
      (''TG'', ''Thai Airways''), (''MAS'', ''Malaysia''), (''MH'', ''Malaysia''),
      (''GIA'', ''Garuda''), (''GA'', ''Garuda''), (''PAL'', ''Philippine''), (''PR'', ''Philippine''),
      (''HVN'', ''Vietnam Air''), (''VN'', ''Vietnam Air''), (''AIC'', ''Air India''),
      (''AI'', ''Air India''), (''UAE'', ''Emirates''), (''EK'', ''Emirates''), (''QTR'', ''Qatar''),
      (''QR'', ''Qatar''), (''ETD'', ''Etihad''), (''EY'', ''Etihad''), (''QFA'', ''Qantas''),
      (''QF'', ''Qantas''), (''ANZ'', ''Air NZ''), (''NZ'', ''Air NZ''), (''AAL'', ''American''),
      (''AA'', ''American''), (''DAL'', ''Delta''), (''DL'', ''Delta''), (''UAL'', ''United''),
      (''UA'', ''United''), (''FDX'', ''FedEx''), (''FX'', ''FedEx''), (''UPS'', ''UPS''),
      (''5X'', ''UPS''), (''BAW'', ''British Airways''), (''BA'', ''British Airways''),
      (''DLH'', ''Lufthansa''), (''LH'', ''Lufthansa''), (''AFR'', ''Air France''),
      (''AF'', ''Air France''), (''KLM'', ''KLM''), (''KL'', ''KLM'')]"

definition find_prefix :: "(string \<times> string) list \<Rightarrow> string \<Rightarrow> nat \<Rightarrow> string option" where
  "find_prefix T s n =
     map_option snd (List.find (\<lambda>(pfx, _). length pfx = n \<and> take n s = pfx) T)"

fun longest_prefix :: "(string \<times> string) list \<Rightarrow> string \<Rightarrow> nat list \<Rightarrow> string" where
  "longest_prefix T s [] = ''''"
| "longest_prefix T s (n # ns) =
     (case find_prefix T s n of Some c \<Rightarrow> c | None \<Rightarrow> longest_prefix T s ns)"

definition acars_country :: "string \<Rightarrow> string" where
  "acars_country reg = (if reg = '''' then '''' else longest_prefix country_table reg [3, 2, 1])"

definition acars_airline :: "string \<Rightarrow> string" where
  "acars_airline fl = (if fl = '''' then '''' else longest_prefix airline_table fl [3, 2])"

section \<open>Block check and field extraction\<close>

definition bcs_crc :: "bytes \<Rightarrow> u16" where
  "bcs_crc p = foldl (\<lambda>c b. ((\<lambda>c. if bit c 0 then drop_bit 1 c XOR 0x8408 else drop_bit 1 c) ^^ 8)
                        (c XOR ucast b)) 0 p"

definition pc :: "u8 \<Rightarrow> u8" where
  "pc c = (let c = c AND 0x7F in if 0x20 \<le> c \<and> c < 0x7F then c else 0x2E)"

definition padded :: "nat \<Rightarrow> bytes \<Rightarrow> bytes" where
  "padded n xs = xs @ replicate (n - length xs) 0"

fun reg_chars :: "bytes \<Rightarrow> bytes \<Rightarrow> bytes" where
  "reg_chars acc [] = acc"
| "reg_chars acc (b # bs) =
     (let v = b AND 0x7F
      in if (v = 0x2E \<or> v = 0x20) \<and> acc = [] then reg_chars acc bs
         else reg_chars (if length acc < 9 then acc @ [pc v] else acc) bs)"

definition is_upper :: "u8 \<Rightarrow> bool" where
  "is_upper c \<longleftrightarrow> 0x41 \<le> c \<and> c \<le> 0x5A"

definition is_digit :: "u8 \<Rightarrow> bool" where
  "is_digit c \<longleftrightarrow> 0x30 \<le> c \<and> c \<le> 0x39"

definition flight_of :: "bool \<Rightarrow> bytes \<Rightarrow> bytes" where
  "flight_of down text =
     (if down \<and> length text \<ge> 10
      then let f = take 6 (drop 4 text)
           in if list_all (\<lambda>c. is_upper c \<or> is_digit c) f \<and> list_ex is_upper f then f else []
      else [])"

definition text_of :: "bytes \<Rightarrow> nat \<Rightarrow> bytes" where
  "text_of frame flen =
     (if flen > 13 \<and> (frame ! 12) AND 0x7F = 0x02
      then map pc (take 255 (drop 13 (take (flen - 1) frame))) else [])"

definition acars_emit :: "int \<Rightarrow> bytes \<Rightarrow> nat \<Rightarrow> u8 \<Rightarrow> u8 \<Rightarrow> AcarsMsg option" where
  "acars_emit ch frame flen bcs0 bcs1 =
     (if flen < 13 then None
      else let c = bcs_crc (take flen frame);
               block = pc (frame ! 11);
               down = is_digit block;
               text = text_of frame flen
           in Some (acars_default\<lparr> am_ch := ch,
                am_crc_ok := (c AND 0xFF = ucast bcs0 \<and> drop_bit 8 c = ucast bcs1),
                am_mode := pc (frame ! 0), am_ack := pc (frame ! 8), am_block := block,
                am_label := [pc (frame ! 9), pc (frame ! 10), 0],
                am_reg := padded 10 (reg_chars [] (map ((!) frame) [1, 2, 3, 4, 5, 6, 7])),
                am_text := padded 256 text, am_downlink := down,
                am_flight := padded 8 (flight_of down text) \<rparr>))"

section \<open>Framing\<close>

datatype acars_fr = WAIT_SYN | GOT_SYN1 | WAIT_SOH | BODY | BCS_HI | BCS_LO

record acars_decoder =
  ac_ch :: int
  ac_sym_n :: u32
  ac_shifter :: u8
  ac_need :: int
  ac_fr :: acars_fr
  ac_frame :: bytes
  ac_flen :: nat
  ac_bcs0 :: u8
  ac_bcs1 :: u8
  ac_records :: "AcarsMsg list"

definition C_SYN :: u8 where "C_SYN = 0x16"
definition C_SOH :: u8 where "C_SOH = 0x01"
definition C_ETX :: u8 where "C_ETX = 0x83"
definition C_ETB :: u8 where "C_ETB = 0x97"

definition acars_reset :: "int \<Rightarrow> acars_decoder" where
  "acars_reset ch = \<lparr> ac_ch = ch, ac_sym_n = 0, ac_shifter = 0, ac_need = 1, ac_fr = WAIT_SYN,
     ac_frame = replicate 300 0, ac_flen = 0, ac_bcs0 = 0, ac_bcs1 = 0, ac_records = [] \<rparr>"

definition take_body :: "u8 \<Rightarrow> acars_decoder \<Rightarrow> acars_decoder" where
  "take_body r d =
     (let d = (if ac_flen d < 300
               then d\<lparr> ac_frame := (ac_frame d)[ac_flen d := r], ac_flen := ac_flen d + 1 \<rparr> else d)
      in if r = C_ETX \<or> r = C_ETB then d\<lparr> ac_fr := BCS_HI, ac_need := 8 \<rparr>
         else if ac_flen d \<ge> 250 then d\<lparr> ac_fr := WAIT_SYN, ac_need := 1 \<rparr>
         else d\<lparr> ac_need := 8 \<rparr>)"

definition take_last :: "u8 \<Rightarrow> acars_decoder \<Rightarrow> acars_decoder" where
  "take_last r d =
     (let d = d\<lparr> ac_bcs1 := r \<rparr>;
          d = (case acars_emit (ac_ch d) (ac_frame d) (ac_flen d) (ac_bcs0 d) (ac_bcs1 d) of
                 None \<Rightarrow> d | Some m \<Rightarrow> d\<lparr> ac_records := ac_records d @ [m] \<rparr>)
      in d\<lparr> ac_fr := WAIT_SYN, ac_need := 1 \<rparr>)"

definition take_byte :: "u8 \<Rightarrow> acars_decoder \<Rightarrow> acars_decoder" where
  "take_byte r d =
     (case ac_fr d of
        WAIT_SYN \<Rightarrow>
          (if r = C_SYN then d\<lparr> ac_fr := GOT_SYN1, ac_need := 8 \<rparr>
           else if r = NOT C_SYN then d\<lparr> ac_sym_n := ac_sym_n d XOR 2, ac_fr := GOT_SYN1, ac_need := 8 \<rparr>
           else d\<lparr> ac_need := 1 \<rparr>)
      | GOT_SYN1 \<Rightarrow>
          (if r = C_SYN then d\<lparr> ac_fr := WAIT_SOH, ac_need := 8 \<rparr>
           else if r = NOT C_SYN then d\<lparr> ac_sym_n := ac_sym_n d XOR 2, ac_need := 8 \<rparr>
           else d\<lparr> ac_fr := WAIT_SYN, ac_need := 1 \<rparr>)
      | WAIT_SOH \<Rightarrow>
          (if r = C_SOH then d\<lparr> ac_fr := BODY, ac_flen := 0, ac_need := 8 \<rparr>
           else d\<lparr> ac_fr := WAIT_SYN, ac_need := 1 \<rparr>)
      | BODY \<Rightarrow> take_body r d
      | BCS_HI \<Rightarrow> d\<lparr> ac_bcs0 := r, ac_fr := BCS_LO, ac_need := 8 \<rparr>
      | BCS_LO \<Rightarrow> take_last r d)"

text \<open>One symbol with projections \<^verbatim>\<open>(yr, yi)\<close>: axis, bit, shifter, byte clock.\<close>

definition bit_proj :: "u32 \<Rightarrow> real \<Rightarrow> real \<Rightarrow> real" where
  "bit_proj n yr yi =
     (let k = n AND 3 in if k = 0 then yr else if k = 1 then yi else if k = 2 then - yr else - yi)"

definition acars_symbol :: "real \<times> real \<Rightarrow> acars_decoder \<Rightarrow> acars_decoder" where
  "acars_symbol y d =
     (let p = bit_proj (ac_sym_n d) (fst y) (snd y);
          d = d\<lparr> ac_sym_n := ac_sym_n d + 1,
                 ac_shifter := drop_bit 1 (ac_shifter d) OR (if p > 0 then 0x80 else 0x00),
                 ac_need := ac_need d - 1 \<rparr>
      in if ac_need d \<le> 0 then take_byte (ac_shifter d) d else d)"

section \<open>The registration database\<close>

record acars_db =
  g_buf :: bytes
  g_recs :: nat
  g_nrec :: u32
  g_offs :: nat
  g_nop :: u32
  g_blob :: nat
  g_ready :: bool

definition REC :: nat where "REC = 14"

definition rd_u32 :: "bytes \<Rightarrow> nat \<Rightarrow> u32" where
  "rd_u32 buf p = ucast (buf ! p) OR push_bit 8 (ucast (buf ! (p + 1))) OR
     push_bit 16 (ucast (buf ! (p + 2))) OR push_bit 24 (ucast (buf ! (p + 3)))"

fun norm_chars :: "bytes \<Rightarrow> bytes \<Rightarrow> bytes" where
  "norm_chars acc [] = acc"
| "norm_chars acc (c # cs) =
     (if c = 0 \<or> length acc \<ge> 8 then acc
      else let c = (if 0x61 \<le> c \<and> c \<le> 0x7A then c - 0x61 + 0x41 else c)
           in norm_chars (if is_upper c \<or> is_digit c then acc @ [c] else acc) cs)"

definition norm_key :: "bytes \<Rightarrow> bytes" where
  "norm_key reg = padded 8 (norm_chars [] reg)"

fun memcmp :: "bytes \<Rightarrow> bytes \<Rightarrow> int" where
  "memcmp (a # as) (b # bs) = (if a = b then memcmp as bs else int (unat a) - int (unat b))"
| "memcmp _ _ = 0"

definition rec_at :: "acars_db \<Rightarrow> nat \<Rightarrow> bytes" where
  "rec_at db i = take REC (drop (g_recs db + i * REC) (g_buf db))"

function find_loop :: "acars_db \<Rightarrow> bytes \<Rightarrow> int \<Rightarrow> int \<Rightarrow> nat option" where
  "find_loop db key lo hi =
     (if lo \<le> hi
      then let mid = (lo + hi) div 2;
               c = memcmp (take 8 (rec_at db (nat mid))) key
           in if c = 0 then Some (nat mid)
              else if c < 0 then find_loop db key (mid + 1) hi
              else find_loop db key lo (mid - 1)
      else None)"
  by auto
termination
  by (relation "measure (\<lambda>(db, key, lo, hi). nat (hi + 1 - lo))") auto

declare find_loop.simps [simp del]

definition find_reg :: "acars_db \<Rightarrow> bytes \<Rightarrow> nat option" where
  "find_reg db reg =
     (if \<not> g_ready db \<or> g_nrec db = 0 then None
      else let key = norm_key reg
           in if key ! 0 = 0 then None else find_loop db key 0 (int (unat (g_nrec db)) - 1))"

definition acars_db_load :: "bytes option \<Rightarrow> acars_db \<Rightarrow> bool \<times> acars_db" where
  "acars_db_load file db0 =
     (let db = db0\<lparr> g_ready := False \<rparr>
      in case file of
           None \<Rightarrow> (False, db)
         | Some p \<Rightarrow>
             if length p < 12 then (False, db)
             else let db = db\<lparr> g_buf := p \<rparr>
                  in if take 4 p \<noteq> [0x41, 0x42, 0x44, 0x42] then (False, db)
                     else let db = db\<lparr> g_nrec := rd_u32 p 4, g_nop := rd_u32 p 8, g_recs := 12 \<rparr>;
                              off_recs = 12 + unat (g_nrec db) * REC
                          in if off_recs + unat (g_nop db) * 4 > length p then (False, db)
                             else (True, db\<lparr> g_offs := off_recs, g_blob := off_recs + unat (g_nop db) * 4,
                                             g_ready := True \<rparr>))"

definition acars_db_ready :: "acars_db \<Rightarrow> bool" where
  "acars_db_ready db = g_ready db"

text \<open>A C string inside the buffer; \<^verbatim>\<open>None\<close> when reading it leaves the buffer.\<close>

definition c_string_at :: "bytes \<Rightarrow> nat \<Rightarrow> bytes option" where
  "c_string_at buf p =
     (let s = takeWhile (\<lambda>b. b \<noteq> 0) (drop p buf) in if p + length s < length buf then Some s else None)"

definition acars_db_type :: "acars_db \<Rightarrow> bytes \<Rightarrow> bytes" where
  "acars_db_type db reg =
     (case find_reg db reg of None \<Rightarrow> []
      | Some i \<Rightarrow> takeWhile (\<lambda>b. b \<noteq> 0) (take 4 (drop 8 (rec_at db i))))"

definition acars_db_operator :: "acars_db \<Rightarrow> bytes \<Rightarrow> bytes option" where
  "acars_db_operator db reg =
     (case find_reg db reg of None \<Rightarrow> Some []
      | Some i \<Rightarrow>
          let r = rec_at db i;
              ident = (ucast (r ! 12) OR push_bit 8 (ucast (r ! 13)) :: u16)
          in if unat ident \<ge> unat (g_nop db) then Some []
             else c_string_at (g_buf db) (g_blob db + unat (rd_u32 (g_buf db) (g_offs db + unat ident * 4))))"

definition to_chars :: "bytes \<Rightarrow> string" where
  "to_chars bs = map (\<lambda>b. char_of (unat b)) (takeWhile (\<lambda>b. b \<noteq> 0) bs)"

definition acars_airline_of :: "acars_db \<Rightarrow> AcarsMsg \<Rightarrow> string option" where
  "acars_airline_of db m =
     (case acars_db_operator db (am_reg m) of
        None \<Rightarrow> None
      | Some nm \<Rightarrow> Some (if nm \<noteq> [] then to_chars nm else acars_airline (to_chars (am_flight m))))"

end
