(* ===== verification/AcarsRx.thy ===== *)
theory AcarsRx
  imports Acars Fcs16
begin

text \<open>
  The ACARS receiver end to end: the block check as the CRC register it shares with AIS,
  a reference modulator (either polarity of the carrier), the proof that every block sent
  after its pre-key is delivered with a valid check, and the bounds of the frame buffer.
\<close>

section \<open>Block check\<close>

lemma bcs_byte: "((\<lambda>c. if bit c 0 then drop_bit 1 c XOR 0x8408 else drop_bit 1 c) ^^ 8) (c XOR ucast b) =
    crc_run sdlc_S 0 c (byte_lsb b)"
proof -
  have S: "(\<lambda>c. if bit c 0 then drop_bit 1 c XOR 0x8408 else drop_bit 1 c) = sdlc_S"
    by (rule ext) (simp add: sdlc_S_def)
  show ?thesis using sdlc.run_short [of "byte_lsb b" c] unfolding S by (simp add: placed_byte)
qed

lemma bcs_crc_run: "bcs_crc p = crc_run sdlc_S 0 0 (concat (map byte_lsb p))"
proof -
  have "foldl (\<lambda>c b. ((\<lambda>c. if bit c 0 then drop_bit 1 c XOR 0x8408 else drop_bit 1 c) ^^ 8) (c XOR ucast b)) r p =
      crc_run sdlc_S 0 r (concat (map byte_lsb p))" for r
    by (induction p arbitrary: r) (simp_all only: foldl_Nil foldl_Cons bcs_byte list.map concat.simps crc_run_simps)
  then show ?thesis by (simp only: bcs_crc_def)
qed

section \<open>Symbols\<close>

definition axis :: "u32 \<Rightarrow> nat" where
  "axis n = unat (n AND 3)"

definition msk_symbol :: "bool \<Rightarrow> nat \<Rightarrow> bool \<Rightarrow> real \<times> real" where
  "msk_symbol neg k b =
     (let v = (if b \<noteq> neg then 1 else - 1) in
      if k mod 4 = 0 then (v, 0) else if k mod 4 = 1 then (0, v)
      else if k mod 4 = 2 then (- v, 0) else (0, - v))"

fun msk_symbols :: "bool \<Rightarrow> nat \<Rightarrow> bits \<Rightarrow> (real \<times> real) list" where
  "msk_symbols neg k [] = []"
| "msk_symbols neg k (b # bs) = msk_symbol neg k b # msk_symbols neg (Suc k) bs"

definition feed_symbols :: "(real \<times> real) list \<Rightarrow> acars_decoder \<Rightarrow> acars_decoder" where
  "feed_symbols ys d = foldl (\<lambda>d y. acars_symbol y d) d ys"

lemma feed_symbols_simps [simp]:
  "feed_symbols [] d = d" "feed_symbols (y # ys) d = feed_symbols ys (acars_symbol y d)"
  "feed_symbols (xs @ ys) d = feed_symbols ys (feed_symbols xs d)"
  by (simp_all add: feed_symbols_def)

lemma length_msk_symbols [simp]: "length (msk_symbols neg k bs) = length bs"
  by (induction bs arbitrary: k) auto

lemma msk_symbols_append:
  "msk_symbols neg k (xs @ ys) = msk_symbols neg k xs @ msk_symbols neg (k + length xs) ys"
  by (induction xs arbitrary: k) auto

lemma axis_mod: "axis n = unat n mod 4"
proof -
  have "n AND 3 = take_bit 2 n" by (simp add: take_bit_eq_mask mask_eq_exp_minus_1)
  then have "axis n = take_bit 2 (unat n)" by (simp add: axis_def unsigned_take_bit_eq)
  then show ?thesis by (simp add: take_bit_eq_mod)
qed

lemma axis_Suc: "axis (n + 1) = (axis n + 1) mod 4"
proof -
  have "unat (n + 1) mod 4 = (unat n + 1) mod 4"
    by (simp add: unat_word_ariths mod_mod_cancel)
  then show ?thesis unfolding axis_mod by (simp add: mod_Suc_eq)
qed

lemma axis_flip: "axis (n XOR 2) = (axis n + 2) mod 4"
proof -
  define r where "r = unat n mod 4"
  have "unat (n XOR 2) mod 4 = take_bit 2 (unat n XOR 2)"
    by (simp add: unsigned_xor_eq take_bit_eq_mod)
  also have "\<dots> = take_bit 2 (unat n) XOR take_bit 2 2" by (simp only: take_bit_xor)
  also have "take_bit 2 (unat n) = r" by (simp add: r_def take_bit_eq_mod)
  finally have x: "unat (n XOR 2) mod 4 = r XOR 2" by (simp add: take_bit_eq_mod)
  have "r < 4" by (simp add: r_def)
  then have "r = 0 \<or> r = 1 \<or> r = 2 \<or> r = 3" by linarith
  then have "r XOR 2 = (r + 2) mod 4" by auto
  then show ?thesis unfolding axis_mod x by (simp add: r_def)
qed

text \<open>
  \<^verbatim>\<open>in_phase flipped neg k d\<close>: the decoder is at phase \<^verbatim>\<open>k\<close> of a signal of polarity \<^verbatim>\<open>neg\<close>
  and reads its bits inverted iff \<^verbatim>\<open>flipped\<close>.
\<close>

definition in_phase :: "bool \<Rightarrow> bool \<Rightarrow> nat \<Rightarrow> acars_decoder \<Rightarrow> bool" where
  "in_phase flipped neg k d \<longleftrightarrow> axis (ac_sym_n d) = (k + (if flipped = neg then 0 else 2)) mod 4"

definition seen_bit :: "bool \<Rightarrow> bool \<Rightarrow> u8 \<Rightarrow> u8" where
  "seen_bit flipped b sh = drop_bit 1 sh OR (if b \<noteq> flipped then 0x80 else 0x00)"

lemma bit_proj_axis:
  "bit_proj n yr yi = (if axis n = 0 then yr else if axis n = 1 then yi else if axis n = 2 then - yr else - yi)"
proof -
  have "n AND 3 = 0 \<longleftrightarrow> axis n = 0" "n AND 3 = 1 \<longleftrightarrow> axis n = 1" "n AND 3 = 2 \<longleftrightarrow> axis n = 2"
    by (simp_all add: axis_def word_unat_eq_iff)
  then show ?thesis by (simp add: bit_proj_def Let_def)
qed

lemma symbol_decision:
  assumes "in_phase flipped neg k d"
  shows "bit_proj (ac_sym_n d) (fst (msk_symbol neg k b)) (snd (msk_symbol neg k b)) > 0 \<longleftrightarrow> b \<noteq> flipped"
proof -
  have k: "k mod 4 = 0 \<or> k mod 4 = 1 \<or> k mod 4 = 2 \<or> k mod 4 = 3" by linarith
  have a: "axis (ac_sym_n d) = (k mod 4 + (if flipped = neg then 0 else 2)) mod 4"
    using assms by (simp add: in_phase_def mod_add_left_eq)
  show ?thesis
    using k by (elim disjE) (cases flipped; cases neg; cases b; simp add: bit_proj_axis a msk_symbol_def Let_def)+
qed

lemma in_phase_Suc: "in_phase flipped neg k d \<Longrightarrow> ac_sym_n d' = ac_sym_n d + 1 \<Longrightarrow> in_phase flipped neg (Suc k) d'"
  by (simp add: in_phase_def axis_Suc mod_Suc_eq)

lemma in_phase_flip: "in_phase flipped neg k d \<Longrightarrow> ac_sym_n d' = ac_sym_n d XOR 2 \<Longrightarrow> in_phase (\<not> flipped) neg k d'"
proof -
  assume p: "in_phase flipped neg k d" "ac_sym_n d' = ac_sym_n d XOR 2"
  have "axis (ac_sym_n d') = (k + (if flipped = neg then 0 else 2) + 2) mod 4"
    using p(1) unfolding in_phase_def p(2) axis_flip by (simp only: mod_add_left_eq)
  moreover have "(k + 4) mod 4 = k mod 4" by simp
  ultimately show ?thesis by (auto simp: in_phase_def)
qed

lemma in_phase_same: "in_phase flipped neg k d \<Longrightarrow> ac_sym_n d' = ac_sym_n d \<Longrightarrow> in_phase flipped neg k d'"
  by (simp add: in_phase_def)

lemma acars_symbol_shift:
  assumes "in_phase flipped neg k d" "ac_need d > 1"
  shows "acars_symbol (msk_symbol neg k b) d =
    d\<lparr> ac_sym_n := ac_sym_n d + 1, ac_shifter := seen_bit flipped b (ac_shifter d), ac_need := ac_need d - 1 \<rparr>"
  using assms(2) symbol_decision [OF assms(1), of b] by (simp add: acars_symbol_def Let_def seen_bit_def)

lemma acars_symbol_take:
  assumes "in_phase flipped neg k d" "ac_need d \<le> 1"
  shows "acars_symbol (msk_symbol neg k b) d =
    take_byte (seen_bit flipped b (ac_shifter d))
      (d\<lparr> ac_sym_n := ac_sym_n d + 1, ac_shifter := seen_bit flipped b (ac_shifter d), ac_need := ac_need d - 1 \<rparr>)"
  using assms(2) symbol_decision [OF assms(1), of b] by (simp add: acars_symbol_def Let_def seen_bit_def)

lemma seen_byte:
  "foldl (\<lambda>sh b. seen_bit flipped b sh) sh (byte_lsb r) = (if flipped then NOT r else r)"
proof -
  have l: "byte_lsb r = [bit r 0, bit r 1, bit r 2, bit r 3, bit r 4, bit r 5, bit r 6, bit r 7]"
    by (simp add: byte_lsb_def upt_conv_Cons eval_nat_numeral)
  have c80: "(0x80 :: u8) = single 7" by (simp add: single_def)
  have sb: "bit (seen_bit flipped b s) i = (if i = 7 then b \<noteq> flipped else i < 7 \<and> bit s (Suc i))" if "i < 8" for b s i
    using that unfolding seen_bit_def c80
    by (auto simp: bit_or_iff bit_drop_bit_eq dest: bit_imp_le_length)
  have nums: "Suc (Suc 0) = 2" "Suc 2 = 3" "Suc 3 = 4" "Suc 4 = 5" "Suc 5 = 6" "Suc 6 = 7" by simp_all
  show ?thesis
  proof (rule bit_word_eqI)
    fix i assume "i < LENGTH(8)"
    then have "i = 0 \<or> i = 1 \<or> i = 2 \<or> i = 3 \<or> i = 4 \<or> i = 5 \<or> i = 6 \<or> i = 7" by auto
    then show "bit (foldl (\<lambda>sh b. seen_bit flipped b sh) sh (byte_lsb r)) i = bit (if flipped then NOT r else r) i"
      unfolding l by (elim disjE) (simp_all add: sb nums bit_not_iff)
  qed
qed

section \<open>Bytes\<close>

text \<open>A byte that arrives while the byte clock is aligned.\<close>

lemma shift_bits:
  assumes "in_phase flipped neg k d" "ac_need d > int (length bs)"
  shows "\<exists>sn. feed_symbols (msk_symbols neg k bs) d =
      d\<lparr> ac_sym_n := sn, ac_shifter := foldl (\<lambda>sh b. seen_bit flipped b sh) (ac_shifter d) bs,
         ac_need := ac_need d - int (length bs) \<rparr> \<and>
    in_phase flipped neg (k + length bs) (d\<lparr> ac_sym_n := sn \<rparr>)"
  using assms
proof (induction bs arbitrary: k d)
  case Nil
  show ?case by (intro exI [of _ "ac_sym_n d"]) (use Nil in simp)
next
  case (Cons b bs)
  let ?d1 = "acars_symbol (msk_symbol neg k b) d"
  have d1: "?d1 = d\<lparr> ac_sym_n := ac_sym_n d + 1, ac_shifter := seen_bit flipped b (ac_shifter d), ac_need := ac_need d - 1 \<rparr>"
    using Cons.prems by (intro acars_symbol_shift) auto
  have "in_phase flipped neg (Suc k) ?d1" using Cons.prems(1) by (rule in_phase_Suc) (simp add: d1)
  moreover have "ac_need ?d1 > int (length bs)" using Cons.prems(2) d1 by simp
  ultimately obtain sn where "feed_symbols (msk_symbols neg (Suc k) bs) ?d1 =
      ?d1\<lparr> ac_sym_n := sn, ac_shifter := foldl (\<lambda>sh b. seen_bit flipped b sh) (ac_shifter ?d1) bs,
         ac_need := ac_need ?d1 - int (length bs) \<rparr>"
      "in_phase flipped neg (Suc k + length bs) (?d1\<lparr> ac_sym_n := sn \<rparr>)"
    using Cons.IH by blast
  then show ?case by (intro exI [of _ sn]) (simp add: d1 in_phase_def)
qed

lemma take_byte_sym_shifter:
  "ac_fr d \<in> {WAIT_SOH, BODY, BCS_HI, BCS_LO} \<Longrightarrow> ac_sym_n (take_byte r d) = ac_sym_n d"
  by (auto simp: take_byte_def take_body_def take_last_def Let_def split: option.splits)

lemma feed_byte:
  assumes "in_phase flipped neg k d" "ac_need d = 8"
  shows "\<exists>sn sh. feed_symbols (msk_symbols neg k (byte_lsb r)) d =
      take_byte (if flipped then NOT r else r) (d\<lparr> ac_sym_n := sn, ac_shifter := sh, ac_need := 0 \<rparr>) \<and>
    in_phase flipped neg (k + 8) (d\<lparr> ac_sym_n := sn \<rparr>)"
proof -
  have split: "byte_lsb r = butlast (byte_lsb r) @ [last (byte_lsb r)]"
    by (metis append_butlast_last_id length_0_conv length_byte_lsb numeral_eq_Suc nat.distinct(1))
  let ?bs = "butlast (byte_lsb r)"
  have lb: "length ?bs = 7" by simp
  obtain sn where s: "feed_symbols (msk_symbols neg k ?bs) d =
      d\<lparr> ac_sym_n := sn, ac_shifter := foldl (\<lambda>sh b. seen_bit flipped b sh) (ac_shifter d) ?bs, ac_need := 1 \<rparr>"
      "in_phase flipped neg (k + 7) (d\<lparr> ac_sym_n := sn \<rparr>)"
    using shift_bits [OF assms(1), of ?bs] assms(2) lb by auto
  let ?e = "feed_symbols (msk_symbols neg k ?bs) d"
  have ph: "in_phase flipped neg (k + 7) ?e" using s(2) by (rule in_phase_same) (simp add: s(1))
  have "foldl (\<lambda>sh b. seen_bit flipped b sh) (ac_shifter d) (?bs @ [last (byte_lsb r)]) = (if flipped then NOT r else r)"
    using seen_byte [of flipped "ac_shifter d" r] split by simp
  then have sh: "seen_bit flipped (last (byte_lsb r)) (ac_shifter ?e) = (if flipped then NOT r else r)"
    by (simp add: s(1))
  have "feed_symbols (msk_symbols neg k (byte_lsb r)) d = acars_symbol (msk_symbol neg (k + 7) (last (byte_lsb r))) ?e"
    by (subst split) (simp add: msk_symbols_append del: append_butlast_last_id)
  also have "\<dots> = take_byte (if flipped then NOT r else r)
      (?e\<lparr> ac_sym_n := ac_sym_n ?e + 1, ac_shifter := (if flipped then NOT r else r), ac_need := ac_need ?e - 1 \<rparr>)"
    using acars_symbol_take [OF ph] sh by (simp add: s(1))
  finally have f: "feed_symbols (msk_symbols neg k (byte_lsb r)) d = take_byte (if flipped then NOT r else r)
      (d\<lparr> ac_sym_n := sn + 1, ac_shifter := (if flipped then NOT r else r), ac_need := 0 \<rparr>)"
    by (simp add: s(1))
  have "in_phase flipped neg (Suc (k + 7)) (d\<lparr> ac_sym_n := sn + 1 \<rparr>)"
    using s(2) by (rule in_phase_Suc) simp
  then have "in_phase flipped neg (k + 8) (d\<lparr> ac_sym_n := sn + 1 \<rparr>)" by (simp add: eval_nat_numeral)
  then show ?thesis using f by blast
qed

text \<open>
  Hunting: the decoder tests the shifter after every bit; \<^verbatim>\<open>hunting\<close> fixes what changes.
\<close>

definition hunting :: "bool \<Rightarrow> bool \<Rightarrow> acars_decoder \<Rightarrow> nat \<Rightarrow> u8 \<Rightarrow> acars_decoder \<Rightarrow> bool" where
  "hunting flipped neg d j sh e \<longleftrightarrow>
     in_phase flipped neg j e \<and> e = d\<lparr> ac_sym_n := ac_sym_n e, ac_shifter := sh \<rparr>"

lemma hunt_step:
  assumes "hunting flipped neg d j sh e" "ac_need d = 1" "ac_fr d = WAIT_SYN"
    and "seen_bit flipped b sh = sh'" "sh' \<noteq> C_SYN" "sh' \<noteq> NOT C_SYN"
  shows "hunting flipped neg d (Suc j) sh' (acars_symbol (msk_symbol neg j b) e)"
proof -
  have e: "in_phase flipped neg j e" "e = d\<lparr> ac_sym_n := ac_sym_n e, ac_shifter := sh \<rparr>"
    using assms(1) by (simp_all add: hunting_def)
  have x: "ac_shifter e = sh" "ac_need e = 1" "ac_fr e = WAIT_SYN"
    by (subst e(2), simp add: assms)+
  have "acars_symbol (msk_symbol neg j b) e =
      e\<lparr> ac_sym_n := ac_sym_n e + 1, ac_shifter := sh', ac_need := 1 \<rparr>"
    using acars_symbol_take [OF e(1), of b] x assms(4-6) by (simp add: take_byte_def)
  moreover have "e\<lparr> ac_sym_n := ac_sym_n e + 1, ac_shifter := sh', ac_need := 1 \<rparr> =
      d\<lparr> ac_sym_n := ac_sym_n e + 1, ac_shifter := sh' \<rparr>"
    using assms(2) by (subst e(2)) simp
  ultimately show ?thesis using in_phase_Suc [OF e(1)] by (simp add: hunting_def)
qed

lemma seen_pair:
  assumes "seen_bit True b u = u'" "seen_bit False b v = v'"
  shows "seen_bit flipped b (if flipped then u else v) = (if flipped then u' else v')"
  using assms by simp

lemma not_syn_pair:
  assumes "u \<noteq> 0x16" "u \<noteq> 0xE9" "v \<noteq> 0x16" "v \<noteq> 0xE9"
  shows "(if flipped then u else v) \<noteq> C_SYN \<and> (if flipped then u else v) \<noteq> NOT C_SYN"
proof -
  have "NOT C_SYN = 0xE9" "C_SYN = 0x16" by (simp_all add: C_SYN_def)
  then show ?thesis using assms by (simp only:) simp
qed

text \<open>The first SYN, found bit by bit after a pre-key of ones.\<close>

lemma first_syn_bits:
  assumes "in_phase flipped neg k d" "ac_need d = 1" "ac_fr d = WAIT_SYN"
    and "ac_shifter d = (if flipped then 0x00 else 0xFF)"
  shows "\<exists>e. feed_symbols (msk_symbols neg k (byte_lsb C_SYN)) d =
      acars_symbol (msk_symbol neg (k + 7) False) e \<and>
    hunting flipped neg d (k + 7) (if flipped then 0xD2 else 0x2D) e"
proof -
  have bs: "byte_lsb C_SYN = [False, True, True, False, True, False, False, False]"
    by (simp add: byte_lsb_def C_SYN_def upt_conv_Cons)
  note go = hunt_step [OF _ assms(2,3) seen_pair]
  let ?w = "\<lambda>u v. if flipped then u else v :: u8"
  have h0: "hunting flipped neg d k (?w 0x00 0xFF) d" using assms by (simp add: hunting_def)
  define e1 where "e1 = acars_symbol (msk_symbol neg k False) d"
  have h1: "hunting flipped neg d (Suc k) (?w 0x80 0x7F) e1"
    unfolding e1_def by (rule go [OF h0]) (simp_all add: seen_bit_def not_syn_pair)
  define e2 where "e2 = acars_symbol (msk_symbol neg (Suc k) True) e1"
  have h2: "hunting flipped neg d (Suc (Suc k)) (?w 0x40 0xBF) e2"
    unfolding e2_def by (rule go [OF h1]) (simp_all add: seen_bit_def not_syn_pair)
  define e3 where "e3 = acars_symbol (msk_symbol neg (Suc (Suc k)) True) e2"
  have h3: "hunting flipped neg d (Suc (Suc (Suc k))) (?w 0x20 0xDF) e3"
    unfolding e3_def by (rule go [OF h2]) (simp_all add: seen_bit_def not_syn_pair)
  define e4 where "e4 = acars_symbol (msk_symbol neg (Suc (Suc (Suc k))) False) e3"
  have h4: "hunting flipped neg d (Suc (Suc (Suc (Suc k)))) (?w 0x90 0x6F) e4"
    unfolding e4_def by (rule go [OF h3]) (simp_all add: seen_bit_def not_syn_pair)
  define e5 where "e5 = acars_symbol (msk_symbol neg (Suc (Suc (Suc (Suc k)))) True) e4"
  have h5: "hunting flipped neg d (Suc (Suc (Suc (Suc (Suc k))))) (?w 0x48 0xB7) e5"
    unfolding e5_def by (rule go [OF h4]) (simp_all add: seen_bit_def not_syn_pair)
  define e6 where "e6 = acars_symbol (msk_symbol neg (Suc (Suc (Suc (Suc (Suc k))))) False) e5"
  have h6: "hunting flipped neg d (Suc (Suc (Suc (Suc (Suc (Suc k)))))) (?w 0xA4 0x5B) e6"
    unfolding e6_def by (rule go [OF h5]) (simp_all add: seen_bit_def not_syn_pair)
  define e7 where "e7 = acars_symbol (msk_symbol neg (Suc (Suc (Suc (Suc (Suc (Suc k)))))) False) e6"
  have h7: "hunting flipped neg d (Suc (Suc (Suc (Suc (Suc (Suc (Suc k))))))) (?w 0xD2 0x2D) e7"
    unfolding e7_def by (rule go [OF h6]) (simp_all add: seen_bit_def not_syn_pair)
  have "feed_symbols (msk_symbols neg k (byte_lsb C_SYN)) d = acars_symbol (msk_symbol neg (k + 7) False) e7"
    unfolding bs by (simp add: e1_def e2_def e3_def e4_def e5_def e6_def e7_def eval_nat_numeral)
  moreover have "hunting flipped neg d (k + 7) (?w 0xD2 0x2D) e7" using h7 by (simp add: eval_nat_numeral)
  ultimately show ?thesis by blast
qed

lemma first_syn:
  assumes "in_phase flipped neg k d" "ac_need d = 1" "ac_fr d = WAIT_SYN"
    and "ac_shifter d = (if flipped then 0x00 else 0xFF)"
  shows "\<exists>sn sh. feed_symbols (msk_symbols neg k (byte_lsb C_SYN)) d =
      d\<lparr> ac_sym_n := sn, ac_shifter := sh, ac_need := 8, ac_fr := GOT_SYN1 \<rparr> \<and>
    in_phase False neg (k + 8) (d\<lparr> ac_sym_n := sn \<rparr>)"
proof -
  let ?w = "\<lambda>u v. if flipped then u else v :: u8"
  obtain e where f: "feed_symbols (msk_symbols neg k (byte_lsb C_SYN)) d = acars_symbol (msk_symbol neg (k + 7) False) e"
    and h: "hunting flipped neg d (k + 7) (?w 0xD2 0x2D) e" using first_syn_bits [OF assms] by blast
  have p: "in_phase flipped neg (k + 7) e" and e: "e = d\<lparr> ac_sym_n := ac_sym_n e, ac_shifter := ?w 0xD2 0x2D \<rparr>"
    using h by (simp_all only: hunting_def)
  have x: "ac_need e = 1" "ac_shifter e = ?w 0xD2 0x2D" "ac_fr e = WAIT_SYN" by (subst e, simp add: assms)+
  have n8: "seen_bit flipped False (?w 0xD2 0x2D) = ?w 0xE9 0x16" by (rule seen_pair) (simp_all add: seen_bit_def)
  let ?sn = "if flipped then (ac_sym_n e + 1) XOR 2 else ac_sym_n e + 1"
  have "acars_symbol (msk_symbol neg (k + 7) False) e =
      take_byte (?w 0xE9 0x16) (e\<lparr> ac_sym_n := ac_sym_n e + 1, ac_shifter := ?w 0xE9 0x16, ac_need := 0 \<rparr>)"
    using acars_symbol_take [OF p, of False] x n8 by simp
  also have "\<dots> = d\<lparr> ac_sym_n := ?sn, ac_shifter := ?w 0xE9 0x16, ac_need := 8, ac_fr := GOT_SYN1 \<rparr>"
    by (subst e, cases flipped) (simp_all add: take_byte_def C_SYN_def assms(3))
  finally have g: "feed_symbols (msk_symbols neg k (byte_lsb C_SYN)) d =
      d\<lparr> ac_sym_n := ?sn, ac_shifter := ?w 0xE9 0x16, ac_need := 8, ac_fr := GOT_SYN1 \<rparr>"
    unfolding f .
  have q: "in_phase flipped neg (k + 8) (e\<lparr> ac_sym_n := ac_sym_n e + 1 \<rparr>)"
    using in_phase_Suc [OF p, of "e\<lparr> ac_sym_n := ac_sym_n e + 1 \<rparr>"] by (simp add: eval_nat_numeral)
  have "in_phase False neg (k + 8) (d\<lparr> ac_sym_n := ?sn \<rparr>)"
    using in_phase_flip [OF q, of "d\<lparr> ac_sym_n := ?sn \<rparr>"] in_phase_same [OF q, of "d\<lparr> ac_sym_n := ?sn \<rparr>"]
    by (cases flipped) simp_all
  then show ?thesis using g by blast
qed

section \<open>A whole block\<close>

text \<open>
  \<^verbatim>\<open>tracking\<close>: the decoder reads upright bits at phase \<^verbatim>\<open>k\<close>, its byte clock aligned.
\<close>

definition tracking :: "bool \<Rightarrow> nat \<Rightarrow> acars_decoder \<Rightarrow> bool" where
  "tracking neg k d \<longleftrightarrow> in_phase False neg k d \<and> ac_need d = 8"

lemma tracked_byte:
  assumes "tracking neg k d" "ac_fr d \<in> {WAIT_SOH, BODY, BCS_HI, BCS_LO}"
  shows "\<exists>sn sh. feed_symbols (msk_symbols neg k (byte_lsb r)) d =
      take_byte r (d\<lparr> ac_sym_n := sn, ac_shifter := sh, ac_need := 0 \<rparr>) \<and>
    in_phase False neg (k + 8) (take_byte r (d\<lparr> ac_sym_n := sn, ac_shifter := sh, ac_need := 0 \<rparr>))"
proof -
  obtain sn sh where f: "feed_symbols (msk_symbols neg k (byte_lsb r)) d =
      take_byte r (d\<lparr> ac_sym_n := sn, ac_shifter := sh, ac_need := 0 \<rparr>)"
      "in_phase False neg (k + 8) (d\<lparr> ac_sym_n := sn \<rparr>)"
    using feed_byte [of False neg k d r] assms(1) by (auto simp: tracking_def)
  have "in_phase False neg (k + 8) (take_byte r (d\<lparr> ac_sym_n := sn, ac_shifter := sh, ac_need := 0 \<rparr>))"
    using f(2) by (rule in_phase_same) (use assms(2) in \<open>simp add: take_byte_sym_shifter\<close>)
  then show ?thesis using f(1) by blast
qed

definition terminator :: "u8 \<Rightarrow> bool" where
  "terminator b \<longleftrightarrow> b = C_ETX \<or> b = C_ETB"

definition in_body :: "bool \<Rightarrow> nat \<Rightarrow> bytes \<Rightarrow> acars_decoder \<Rightarrow> bool" where
  "in_body neg k got d \<longleftrightarrow> tracking neg k d \<and> ac_fr d = BODY \<and> length (ac_frame d) = 300 \<and>
     ac_flen d = length got \<and> take (length got) (ac_frame d) = got"

definition same_out :: "acars_decoder \<Rightarrow> acars_decoder \<Rightarrow> bool" where
  "same_out d d' \<longleftrightarrow> ac_ch d' = ac_ch d \<and> ac_records d' = ac_records d"

lemma body_byte:
  assumes "in_body neg k got d" "\<not> terminator b" "length got < 249"
  shows "in_body neg (k + 8) (got @ [b]) (feed_symbols (msk_symbols neg k (byte_lsb b)) d) \<and>
    same_out d (feed_symbols (msk_symbols neg k (byte_lsb b)) d)"
proof -
  have t: "tracking neg k d" and fr: "ac_fr d = BODY" using assms(1) by (simp_all add: in_body_def)
  obtain sn sh where f: "feed_symbols (msk_symbols neg k (byte_lsb b)) d =
      take_byte b (d\<lparr> ac_sym_n := sn, ac_shifter := sh, ac_need := 0 \<rparr>)"
      "in_phase False neg (k + 8) (take_byte b (d\<lparr> ac_sym_n := sn, ac_shifter := sh, ac_need := 0 \<rparr>))"
    using tracked_byte [OF t, of b] fr by auto
  show ?thesis
    using assms f(2) unfolding f(1)
    by (simp add: in_body_def tracking_def same_out_def take_byte_def take_body_def terminator_def take_Suc_update)
qed

lemma body_bytes:
  assumes "in_body neg k got d" "list_all (\<lambda>b. \<not> terminator b) bs" "length got + length bs < 250"
  shows "in_body neg (k + 8 * length bs) (got @ bs) (feed_symbols (msk_symbols neg k (concat (map byte_lsb bs))) d) \<and>
    same_out d (feed_symbols (msk_symbols neg k (concat (map byte_lsb bs))) d)"
  using assms
proof (induction bs arbitrary: k d got)
  case (Cons b bs)
  let ?d1 = "feed_symbols (msk_symbols neg k (byte_lsb b)) d"
  let ?d2 = "feed_symbols (msk_symbols neg (k + 8) (concat (map byte_lsb bs))) ?d1"
  have b: "in_body neg (k + 8) (got @ [b]) ?d1 \<and> same_out d ?d1"
    using Cons.prems by (intro body_byte) auto
  then have "in_body neg (k + 8 + 8 * length bs) ((got @ [b]) @ bs) ?d2 \<and> same_out ?d1 ?d2"
    using Cons.prems by (intro Cons.IH) auto
  then show ?case using b by (simp add: msk_symbols_append same_out_def algebra_simps)
qed (simp add: same_out_def)

lemma acars_emit_take:
  assumes "flen \<le> length frame"
  shows "acars_emit ch frame flen b0 b1 = acars_emit ch (take flen frame) flen b0 b1"
proof (cases "flen < 13")
  case False
  then have "frame ! i = take flen frame ! i" if "i < 13" for i using that assms by simp
  moreover have "take (flen - 1) frame = take (flen - 1) (take flen frame)" by (simp add: min_def)
  ultimately show ?thesis using False unfolding acars_emit_def text_of_def
    by (simp del: take_take nth_take add: min_def)
qed (simp add: acars_emit_def)

definition bcs_low :: "bytes \<Rightarrow> u8" where
  "bcs_low p = ucast (bcs_crc p)"

definition bcs_high :: "bytes \<Rightarrow> u8" where
  "bcs_high p = ucast (drop_bit 8 (bcs_crc p))"

definition acars_block :: "bytes \<Rightarrow> bytes" where
  "acars_block p = [C_SYN, C_SYN, C_SOH] @ p @ [bcs_low p, bcs_high p]"

definition acars_record :: "int \<Rightarrow> bytes \<Rightarrow> AcarsMsg" where
  "acars_record chan p = the (acars_emit chan p (length p) (bcs_low p) (bcs_high p))"

lemma acars_record_crc: "13 \<le> length p \<Longrightarrow> am_crc_ok (acars_record chan p)"
proof -
  assume l: "13 \<le> length p"
  have "bcs_crc p AND 0xFF = ucast (bcs_low p)"
  proof (rule bit_word_eqI)
    fix i assume "i < LENGTH(16)"
    have m: "(0xFF :: u16) = mask 8" by (simp add: mask_eq_exp_minus_1)
    show "bit (bcs_crc p AND 0xFF) i = bit (ucast (bcs_low p) :: u16) i"
      unfolding m using \<open>i < LENGTH(16)\<close> by (auto simp: bcs_low_def bit_and_iff bit_mask_iff bit_ucast_iff)
  qed
  moreover have "drop_bit 8 (bcs_crc p) = ucast (bcs_high p)"
    by (rule bit_word_eqI) (auto simp: bcs_high_def bit_ucast_iff bit_drop_bit_eq dest: bit_imp_le_length)
  ultimately show ?thesis using l by (simp add: acars_record_def acars_emit_def Let_def)
qed

text \<open>The header: two SYN and SOH bring a hunting decoder into the body.\<close>

lemma header_bytes:
  assumes "in_phase flipped neg k d" "ac_need d = 1" "ac_fr d = WAIT_SYN" "length (ac_frame d) = 300"
    and "ac_shifter d = (if flipped then 0x00 else 0xFF)"
  shows "in_body neg (k + 24) [] (feed_symbols (msk_symbols neg k (concat (map byte_lsb [C_SYN, C_SYN, C_SOH]))) d) \<and>
    same_out d (feed_symbols (msk_symbols neg k (concat (map byte_lsb [C_SYN, C_SYN, C_SOH]))) d)"
proof -
  let ?d1 = "feed_symbols (msk_symbols neg k (byte_lsb C_SYN)) d"
  let ?d2 = "feed_symbols (msk_symbols neg (k + 8) (byte_lsb C_SYN)) ?d1"
  let ?d3 = "feed_symbols (msk_symbols neg (k + 16) (byte_lsb C_SOH)) ?d2"
  obtain sn sh where d1: "?d1 = d\<lparr> ac_sym_n := sn, ac_shifter := sh, ac_need := 8, ac_fr := GOT_SYN1 \<rparr>"
    and p1: "in_phase False neg (k + 8) (d\<lparr> ac_sym_n := sn \<rparr>)"
    using first_syn [OF assms(1-3,5)] by blast
  have q1: "in_phase False neg (k + 8) ?d1" using p1 by (rule in_phase_same) (simp add: d1)
  obtain sn2 sh2 where d2: "?d2 = take_byte C_SYN (?d1\<lparr> ac_sym_n := sn2, ac_shifter := sh2, ac_need := 0 \<rparr>)"
    and p2: "in_phase False neg (k + 8 + 8) (?d1\<lparr> ac_sym_n := sn2 \<rparr>)"
    using feed_byte [OF q1, of C_SYN] d1 by auto
  have d2': "?d2 = d\<lparr> ac_sym_n := sn2, ac_shifter := sh2, ac_need := 8, ac_fr := WAIT_SOH \<rparr>"
    by (subst d2, subst d1) (simp add: take_byte_def)
  have "in_phase False neg (k + 16) ?d2" using p2 by (simp add: d2' in_phase_def add.assoc)
  then have t2: "tracking neg (k + 16) ?d2" by (simp add: tracking_def d2')
  obtain sn3 sh3 where d3: "?d3 = take_byte C_SOH (?d2\<lparr> ac_sym_n := sn3, ac_shifter := sh3, ac_need := 0 \<rparr>)"
    and p3: "in_phase False neg (k + 16 + 8) (take_byte C_SOH (?d2\<lparr> ac_sym_n := sn3, ac_shifter := sh3, ac_need := 0 \<rparr>))"
    using tracked_byte [OF t2, of C_SOH] d2' by auto
  have d3': "?d3 = d\<lparr> ac_sym_n := sn3, ac_shifter := sh3, ac_need := 8, ac_fr := BODY, ac_flen := 0 \<rparr>"
    by (subst d3, subst d2') (simp add: take_byte_def)
  have "in_phase False neg (k + 24) ?d3" using p3 unfolding d3 by (simp add: add.assoc)
  then have "in_body neg (k + 24) [] ?d3 \<and> same_out d ?d3"
    using assms(4) by (simp add: in_body_def tracking_def same_out_def d3')
  then show ?thesis by (simp add: msk_symbols_append add.assoc)
qed

lemma end_bytes:
  assumes "in_body neg k got d" "terminator e" "length got < 250" "12 \<le> length got"
  shows "let p = got @ [e]; d' = feed_symbols (msk_symbols neg k (concat (map byte_lsb [e, bcs_low p, bcs_high p]))) d
    in ac_records d' = ac_records d @ [acars_record (ac_ch d) p] \<and> ac_fr d' = WAIT_SYN \<and> ac_need d' = 1"
proof -
  let ?p = "got @ [e]"
  let ?d1 = "feed_symbols (msk_symbols neg k (byte_lsb e)) d"
  let ?d2 = "feed_symbols (msk_symbols neg (k + 8) (byte_lsb (bcs_low ?p))) ?d1"
  let ?d3 = "feed_symbols (msk_symbols neg (k + 16) (byte_lsb (bcs_high ?p))) ?d2"
  have t: "tracking neg k d" "ac_fr d = BODY" "length (ac_frame d) = 300" "ac_flen d = length got"
    "take (length got) (ac_frame d) = got" using assms(1) by (simp_all add: in_body_def)
  obtain sn sh where d1: "?d1 = take_byte e (d\<lparr> ac_sym_n := sn, ac_shifter := sh, ac_need := 0 \<rparr>)"
    and p1: "in_phase False neg (k + 8) ?d1" using tracked_byte [OF t(1), of e] t(2) by auto
  have x1: "ac_fr ?d1 = BCS_HI" "ac_need ?d1 = 8" "ac_flen ?d1 = length ?p" "length (ac_frame ?d1) = 300"
    "take (length ?p) (ac_frame ?d1) = ?p" "ac_ch ?d1 = ac_ch d" "ac_records ?d1 = ac_records d"
    unfolding d1 using assms(2,3) t
    by (auto simp: take_byte_def take_body_def terminator_def take_Suc_update)
  have t1: "tracking neg (k + 8) ?d1" using p1 x1(2) by (simp add: tracking_def)
  obtain sn2 sh2 where d2: "?d2 = take_byte (bcs_low ?p) (?d1\<lparr> ac_sym_n := sn2, ac_shifter := sh2, ac_need := 0 \<rparr>)"
    and p2: "in_phase False neg (k + 8 + 8) ?d2" using tracked_byte [OF t1, of "bcs_low ?p"] x1(1) by auto
  have x2: "ac_fr ?d2 = BCS_LO" "ac_need ?d2 = 8" "ac_flen ?d2 = length ?p" "ac_frame ?d2 = ac_frame ?d1"
    "ac_bcs0 ?d2 = bcs_low ?p" "ac_ch ?d2 = ac_ch d" "ac_records ?d2 = ac_records d"
    unfolding d2 using x1 by (simp_all add: take_byte_def)
  have t2: "tracking neg (k + 16) ?d2" using p2 x2(2) by (simp add: tracking_def add.assoc)
  obtain sn3 sh3 where d3: "?d3 = take_byte (bcs_high ?p) (?d2\<lparr> ac_sym_n := sn3, ac_shifter := sh3, ac_need := 0 \<rparr>)"
    using tracked_byte [OF t2, of "bcs_high ?p"] x2(1) by auto
  have "length ?p \<le> length (ac_frame ?d1)" using assms(3) x1(4) by simp
  from acars_emit_take [OF this] have em: "acars_emit chan (ac_frame ?d1) (length ?p) u v = acars_emit chan ?p (length ?p) u v"
    for chan u v using x1(5) by simp
  have "\<exists>m. acars_emit (ac_ch d) ?p (length ?p) (bcs_low ?p) (bcs_high ?p) = Some m"
    using assms(4) by (simp add: acars_emit_def Let_def)
  then have rec: "acars_emit (ac_ch d) ?p (length ?p) (bcs_low ?p) (bcs_high ?p) = Some (acars_record (ac_ch d) ?p)"
    by (auto simp: acars_record_def)
  have "ac_records ?d3 = ac_records d @ [acars_record (ac_ch d) ?p] \<and> ac_fr ?d3 = WAIT_SYN \<and> ac_need ?d3 = 1"
    unfolding d3 by (simp add: take_byte_def take_last_def Let_def x2 em [simplified] rec [simplified])
  then show ?thesis by (simp add: msk_symbols_append add.assoc)
qed

section \<open>Frame buffer\<close>

definition acars_inv :: "acars_decoder \<Rightarrow> bool" where
  "acars_inv d \<longleftrightarrow> length (ac_frame d) = 300 \<and> ac_flen d \<le> 250 \<and>
     (ac_fr d = BODY \<longrightarrow> ac_flen d < 250) \<and> ac_need d \<le> 8"

lemma acars_inv_symbol:
  assumes "acars_inv d"
  shows "acars_inv (acars_symbol y d)"
proof -
  have t: "acars_inv (take_byte r e)" if "acars_inv e" for r e
    using that by (cases "ac_fr e")
      (auto simp: acars_inv_def take_byte_def take_body_def take_last_def Let_def split: option.splits)
  have "acars_inv (d\<lparr> ac_sym_n := n, ac_shifter := s, ac_need := ac_need d - 1 \<rparr>)" for n s
    using assms by (simp add: acars_inv_def)
  then show ?thesis using t by (simp add: acars_symbol_def Let_def)
qed

section \<open>Properties\<close>

text \<open>
  C5: every block is delivered, whatever the polarity of the carrier.  A decoder that hunts
  with the ones of the pre-key in its shifter (zeros when it reads the signal inverted), at
  any phase of the rotating axes, fed with the symbols of SYN SYN SOH, 12 to 249 body bytes
  without terminator, ETX or ETB and the block check, delivers one record: the fields of the
  block with a valid check; afterwards it hunts again.
\<close>
theorem acars_block_delivered:
  assumes "in_phase flipped neg k d" "ac_need d = 1" "ac_fr d = WAIT_SYN" "length (ac_frame d) = 300"
    and "ac_shifter d = (if flipped then 0x00 else 0xFF)"
    and "list_all (\<lambda>b. \<not> terminator b) body" "12 \<le> length body" "length body < 250" "terminator e"
  shows "let d' = feed_symbols (msk_symbols neg k (concat (map byte_lsb (acars_block (body @ [e]))))) d
    in ac_records d' = ac_records d @ [acars_record (ac_ch d) (body @ [e])] \<and>
       am_crc_ok (acars_record (ac_ch d) (body @ [e])) \<and> ac_fr d' = WAIT_SYN \<and> ac_need d' = 1"
proof -
  let ?H = "[C_SYN, C_SYN, C_SOH]"
  let ?T = "[e, bcs_low (body @ [e]), bcs_high (body @ [e])]"
  let ?d1 = "feed_symbols (msk_symbols neg k (concat (map byte_lsb ?H))) d"
  let ?d2 = "feed_symbols (msk_symbols neg (k + 24) (concat (map byte_lsb body))) ?d1"
  have h: "in_body neg (k + 24) [] ?d1 \<and> same_out d ?d1" using assms(1-5) by (rule header_bytes)
  then have b: "in_body neg (k + 24 + 8 * length body) ([] @ body) ?d2 \<and> same_out ?d1 ?d2"
    using assms(6,8) by (intro body_bytes) auto
  have t: "let d' = feed_symbols (msk_symbols neg (k + 24 + 8 * length body) (concat (map byte_lsb ?T))) ?d2
      in ac_records d' = ac_records ?d2 @ [acars_record (ac_ch ?d2) (body @ [e])] \<and> ac_fr d' = WAIT_SYN \<and> ac_need d' = 1"
    using end_bytes [of neg _ body ?d2 e] b assms(7-9) by (simp add: Let_def)
  have "acars_block (body @ [e]) = ?H @ body @ ?T" by (simp add: acars_block_def)
  then have "feed_symbols (msk_symbols neg k (concat (map byte_lsb (acars_block (body @ [e]))))) d =
      feed_symbols (msk_symbols neg (k + 24 + 8 * length body) (concat (map byte_lsb ?T))) ?d2"
    by (simp only: map_append concat_append msk_symbols_append feed_symbols_simps length_append length_concat_byte_lsb)
      (simp add: add.assoc)
  then show ?thesis using t h b acars_record_crc [of "body @ [e]"] assms(7) by (simp add: Let_def same_out_def)
qed

theorem acars_block_delivered_witness:
  "let d = (acars_reset 3)\<lparr> ac_sym_n := 2 \<rparr>;
       d' = feed_symbols (msk_symbols False 0 (concat (map byte_lsb (acars_block (replicate 20 0x32 @ [C_ETX]))))) d
   in ac_records d' = ac_records d @ [acars_record (ac_ch d) (replicate 20 0x32 @ [C_ETX])] \<and>
      am_crc_ok (acars_record (ac_ch d) (replicate 20 0x32 @ [C_ETX])) \<and> ac_fr d' = WAIT_SYN \<and> ac_need d' = 1"
  unfolding Let_def [of "(acars_reset 3)\<lparr> ac_sym_n := 2 \<rparr>"]
  by (rule acars_block_delivered [where flipped = True])
    (simp_all add: in_phase_def axis_def acars_reset_def terminator_def C_ETX_def C_ETB_def list_all_iff)

text \<open>
  The frame buffer is never overrun.  After any sequence of symbols fed to a reset
  decoder the frame length is at most 250 of 300 bytes, below 250 while the body is being
  collected, and the byte clock never waits for more than 8 bits.
\<close>
theorem acars_frame_bounded:
  "let d = feed_symbols ys (acars_reset chan)
   in length (ac_frame d) = 300 \<and> ac_flen d \<le> 250 \<and> (ac_fr d = BODY \<longrightarrow> ac_flen d < 250) \<and> ac_need d \<le> 8"
proof -
  have "acars_inv d \<Longrightarrow> acars_inv (feed_symbols ys d)" for d
    by (induction ys arbitrary: d) (auto intro: acars_inv_symbol)
  then have "acars_inv (feed_symbols ys (acars_reset chan))" by (simp add: acars_inv_def acars_reset_def)
  then show ?thesis by (simp add: acars_inv_def Let_def)
qed

theorem acars_frame_bounded_witness:
  "let d = feed_symbols (msk_symbols True 0 (byte_lsb 0x16)) (acars_reset 0)
   in length (ac_frame d) = 300 \<and> ac_flen d \<le> 250 \<and> (ac_fr d = BODY \<longrightarrow> ac_flen d < 250) \<and> ac_need d \<le> 8"
  by (rule acars_frame_bounded)

end
