(* ===== verification/AcarsDb.thy ===== *)
theory AcarsDb
  imports Acars
begin

text \<open>
  The registration database of \<^verbatim>\<open>src/modules/acars/acars_db.cpp\<close>: binary search over
  the sorted record array finds exactly the stored registrations, a loaded file keeps all
  record and offset accesses inside the buffer, and the operator string is the one access
  whose position the loader does not check.
\<close>

section \<open>Keys as numbers\<close>

fun key_num :: "bytes \<Rightarrow> nat" where
  "key_num [] = 0"
| "key_num (b # bs) = unat b * 256 ^ length bs + key_num bs"

lemma key_num_less: "key_num bs < 256 ^ length bs"
proof (induction bs)
  case (Cons b bs)
  have "unat b < 256" using unat_lt [of b] by simp
  then have "unat b + 1 \<le> 256" by simp
  then have "(unat b + 1) * 256 ^ length bs \<le> 256 * 256 ^ length bs" by (rule mult_right_mono) simp
  then have "unat b * 256 ^ length bs + 256 ^ length bs \<le> 256 * 256 ^ length bs"
    by (simp only: add_mult_distrib mult_1)
  with Cons.IH have "unat b * 256 ^ length bs + key_num bs < 256 * 256 ^ length bs" by linarith
  then show ?case by simp
qed simp

lemma key_num_inj:
  assumes "length as = length bs" "key_num as = key_num bs"
  shows "as = bs"
  using assms
proof (induction as bs rule: list_induct2)
  case (Cons a as b bs)
  have "key_num (a # as) div 256 ^ length bs = unat a" "key_num (b # bs) div 256 ^ length bs = unat b"
    using key_num_less [of as] key_num_less [of bs] Cons.hyps by simp_all
  then have "a = b" using Cons.prems by (simp add: word_unat_eq_iff)
  then show ?case using Cons by simp
qed simp

lemma memcmp_key_num:
  assumes "length as = length bs"
  shows "(memcmp as bs = 0 \<longleftrightarrow> as = bs) \<and> (memcmp as bs < 0 \<longleftrightarrow> key_num as < key_num bs)"
  using assms
proof (induction as bs rule: list_induct2)
  case (Cons a as b bs)
  show ?case
  proof (cases "a = b")
    case True
    then show ?thesis using Cons by simp
  next
    case False
    then have ne: "unat a \<noteq> unat b" by (simp add: word_unat_eq_iff)
    have "key_num (a # as) < key_num (b # bs) \<longleftrightarrow> unat a < unat b"
    proof
      assume "unat a < unat b"
      then have "(unat a + 1) * 256 ^ length bs \<le> unat b * 256 ^ length bs" by (intro mult_right_mono) auto
      then show "key_num (a # as) < key_num (b # bs)" using key_num_less [of as] Cons.hyps by simp
    next
      assume l: "key_num (a # as) < key_num (b # bs)"
      show "unat a < unat b"
      proof (rule ccontr)
        assume "\<not> unat a < unat b"
        then have "unat b + 1 \<le> unat a" using ne by simp
        then have "(unat b + 1) * 256 ^ length bs \<le> unat a * 256 ^ length bs" by (intro mult_right_mono) auto
        then show False using l key_num_less [of bs] Cons.hyps by simp
      qed
    qed
    moreover have "memcmp (a # as) (b # bs) = int (unat a) - int (unat b)" using False by simp
    ultimately show ?thesis using False ne by (simp only: list.inject simp_thms) linarith
  qed
qed simp

section \<open>Binary search\<close>

definition rec_key :: "acars_db \<Rightarrow> nat \<Rightarrow> bytes" where
  "rec_key db i = take 8 (rec_at db i)"

definition db_sorted :: "acars_db \<Rightarrow> nat \<Rightarrow> bool" where
  "db_sorted db n \<longleftrightarrow> (\<forall>i<n. length (rec_key db i) = 8) \<and>
     (\<forall>i j. i < j \<longrightarrow> j < n \<longrightarrow> key_num (rec_key db i) < key_num (rec_key db j))"

lemma find_loop_correct:
  assumes "db_sorted db n" "length key = 8" "0 \<le> lo" "hi < int n"
    and "\<forall>i<n. int i < lo \<longrightarrow> key_num (rec_key db i) < key_num key"
    and "\<forall>i<n. hi < int i \<longrightarrow> key_num key < key_num (rec_key db i)"
  shows "find_loop db key lo hi = Some i \<longleftrightarrow> i < n \<and> rec_key db i = key"
  using assms
proof (induction db key lo hi rule: find_loop.induct [case_names step])
  case (step db key lo hi)
  show ?case
  proof (cases "lo \<le> hi")
    case False
    have "rec_key db j \<noteq> key" if "j < n" for j
    proof (cases "int j < lo")
      case True
      then have "key_num (rec_key db j) < key_num key" using step.prems(5) that by blast
      then show ?thesis by auto
    next
      case False
      then have "hi < int j" using \<open>\<not> lo \<le> hi\<close> by simp
      then have "key_num key < key_num (rec_key db j)" using step.prems(6) that by blast
      then show ?thesis by auto
    qed
    then show ?thesis using False by (subst find_loop.simps) auto
  next
    case True
    define mid where "mid = (lo + hi) div 2"
    have m: "lo \<le> mid" "mid \<le> hi" "0 \<le> mid" using True step.prems(3) by (auto simp: mid_def)
    define k where "k = nat mid"
    have k: "int k = mid" "k < n" using m step.prems(4) by (auto simp: k_def)
    define c where "c = memcmp (take 8 (rec_at db (nat mid))) key"
    have len: "length (rec_key db k) = 8" using step.prems(1) k(2) by (simp add: db_sorted_def)
    have c: "c = 0 \<longleftrightarrow> rec_key db k = key" "c < 0 \<longleftrightarrow> key_num (rec_key db k) < key_num key"
      using memcmp_key_num [of "rec_key db k" key] len step.prems(2)
      by (simp_all add: c_def rec_key_def k_def)
    have mono: "key_num (rec_key db i) < key_num (rec_key db j)" if "i < j" "j < n" for i j
      using step.prems(1) that by (simp add: db_sorted_def)
    have unfold: "find_loop db key lo hi =
        (if c = 0 then Some k else if c < 0 then find_loop db key (mid + 1) hi else find_loop db key lo (mid - 1))"
      using True by (subst find_loop.simps) (simp add: Let_def mid_def c_def k_def)
    consider "c = 0" | "c < 0" | "c > 0" by linarith
    then show ?thesis
    proof cases
      case 1
      have "i = k" if "i < n" "rec_key db i = key" for i
      proof (rule ccontr)
        assume "i \<noteq> k"
        then have "i < k \<or> k < i" by linarith
        then show False using mono [of i k] mono [of k i] that k(2) 1 c(1) by auto
      qed
      moreover have "find_loop db key lo hi = Some k" using unfold 1 by simp
      moreover have "rec_key db k = key" using 1 c(1) by simp
      ultimately show ?thesis using k(2) by (metis option.inject)
    next
      case 2
      have "\<forall>i<n. int i < mid + 1 \<longrightarrow> key_num (rec_key db i) < key_num key"
      proof (intro allI impI)
        fix i assume "i < n" "int i < mid + 1"
        then have "i = k \<or> i < k" using k(1) by linarith
        then show "key_num (rec_key db i) < key_num key" using 2 c(2) mono [of i k] k(2) by auto
      qed
      moreover have "\<not> (c = 0)" using 2 by simp
      ultimately have "find_loop db key (mid + 1) hi = Some i \<longleftrightarrow> i < n \<and> rec_key db i = key"
        using step.IH(1) [OF True mid_def c_def] 2 step.prems m by simp
      moreover have "find_loop db key lo hi = find_loop db key (mid + 1) hi" using unfold 2 by simp
      ultimately show ?thesis by simp
    next
      case 3
      have gt: "key_num key < key_num (rec_key db k)"
      proof -
        have "key_num (rec_key db k) \<noteq> key_num key"
          using key_num_inj [of "rec_key db k" key] c(1) 3 len step.prems(2) by auto
        then show ?thesis using c(2) 3 by linarith
      qed
      have "\<forall>i<n. mid - 1 < int i \<longrightarrow> key_num key < key_num (rec_key db i)"
      proof (intro allI impI)
        fix i assume "i < n" "mid - 1 < int i"
        then have "i = k \<or> k < i" using k(1) by linarith
        then show "key_num key < key_num (rec_key db i)" using gt mono [of k i] \<open>i < n\<close> by auto
      qed
      moreover have "\<not> (c = 0)" "\<not> (c < 0)" using 3 by simp_all
      ultimately have "find_loop db key lo (mid - 1) = Some i \<longleftrightarrow> i < n \<and> rec_key db i = key"
        using step.IH(2) [OF True mid_def c_def] step.prems m by simp
      moreover have "find_loop db key lo hi = find_loop db key lo (mid - 1)" using unfold 3 by simp
      ultimately show ?thesis by simp
    qed
  qed
qed

lemma length_norm_key: "length (norm_key reg) = 8"
proof -
  have "length (norm_chars acc cs) \<le> 8" if "length acc \<le> 8" for acc cs
    using that by (induction acc cs rule: norm_chars.induct) (auto simp: Let_def)
  then have "length (norm_chars [] reg) \<le> 8" by simp
  then show ?thesis by (simp add: norm_key_def padded_def)
qed

section \<open>The loaded file\<close>

lemma load_layout:
  assumes "acars_db_load (Some p) db0 = (True, db)"
  shows "g_ready db \<and> g_buf db = p \<and> g_recs db = 12 \<and> g_offs db = 12 + unat (g_nrec db) * REC \<and>
    g_blob db = g_offs db + unat (g_nop db) * 4 \<and> g_blob db \<le> length p"
  using assms by (auto simp: acars_db_load_def Let_def split: if_splits)

lemma load_record_in_bounds:
  assumes "acars_db_load (Some p) db0 = (True, db)" "i < unat (g_nrec db)"
  shows "g_recs db + i * REC + REC \<le> length p \<and> length (rec_at db i) = REC"
proof -
  have "(i + 1) * REC \<le> unat (g_nrec db) * REC" using assms(2) by (intro mult_right_mono) auto
  then have "g_recs db + i * REC + REC \<le> length p" using load_layout [OF assms(1)] by simp
  then show ?thesis using load_layout [OF assms(1)] by (simp add: rec_at_def)
qed

section \<open>Properties\<close>

text \<open>
  C6: lookup is exact.  On a loaded file whose records are sorted by key, a registration is
  found at index \<^verbatim>\<open>i\<close> iff its normalised key is non-empty and record \<^verbatim>\<open>i\<close> carries it;
  the search always ends.
\<close>
theorem acars_db_find_exact:
  assumes "acars_db_load (Some p) db0 = (True, db)" "db_sorted db (unat (g_nrec db))"
  shows "find_reg db reg = Some i \<longleftrightarrow>
    i < unat (g_nrec db) \<and> norm_key reg ! 0 \<noteq> 0 \<and> rec_key db i = norm_key reg"
proof (cases "g_nrec db = 0 \<or> norm_key reg ! 0 = 0")
  case True
  then show ?thesis by (auto simp: find_reg_def Let_def)
next
  case False
  have "find_loop db (norm_key reg) 0 (int (unat (g_nrec db)) - 1) = Some i \<longleftrightarrow>
      i < unat (g_nrec db) \<and> rec_key db i = norm_key reg"
  proof (rule find_loop_correct [OF assms(2) length_norm_key])
    show "\<forall>i<unat (g_nrec db). int (unat (g_nrec db)) - 1 < int i \<longrightarrow> key_num (norm_key reg) < key_num (rec_key db i)"
      by (intro allI impI) linarith
  qed auto
  then show ?thesis using False load_layout [OF assms(1)] by (simp add: find_reg_def Let_def)
qed

definition sample_db :: bytes where
  "sample_db = [0x41, 0x42, 0x44, 0x42] @ [1, 0, 0, 0] @ [1, 0, 0, 0] @
     [0x48, 0x4C, 0x37, 0, 0, 0, 0, 0] @ [0x42, 0x37, 0x33, 0x38] @ [0, 0] @ [0xFF, 0, 0, 0]"

definition empty_db :: acars_db where
  "empty_db = \<lparr> g_buf = [], g_recs = 0, g_nrec = 0, g_offs = 0, g_nop = 0, g_blob = 0, g_ready = False \<rparr>"

definition loaded_db :: acars_db where
  "loaded_db = \<lparr> g_buf = sample_db, g_recs = 12, g_nrec = 1, g_offs = 26, g_nop = 1, g_blob = 30, g_ready = True \<rparr>"

lemma sample_loads: "acars_db_load (Some sample_db) empty_db = (True, loaded_db)"
  by (simp add: acars_db_load_def sample_db_def empty_db_def loaded_db_def rd_u32_def REC_def)

lemma sample_key: "rec_key loaded_db 0 = [0x48, 0x4C, 0x37, 0, 0, 0, 0, 0]"
  by (simp add: rec_key_def rec_at_def loaded_db_def sample_db_def REC_def)

lemma sample_sorted: "db_sorted loaded_db (unat (g_nrec loaded_db))"
  using sample_key by (simp add: db_sorted_def loaded_db_def)

lemma sample_norm: "norm_key [0x68, 0x6C, 0x2D, 0x37] = [0x48, 0x4C, 0x37, 0, 0, 0, 0, 0]"
  by code_simp

theorem acars_db_find_exact_witness: "find_reg loaded_db [0x68, 0x6C, 0x2D, 0x37] = Some 0"
  using acars_db_find_exact [OF sample_loads sample_sorted, of "[0x68, 0x6C, 0x2D, 0x37]" 0] sample_key sample_norm
  by (simp add: loaded_db_def)

text \<open>
  The loader checks records and offsets but not the strings.  On every loaded file each
  record access and each offset-table access below the counts lies inside the buffer; yet
  there is a file the loader accepts, with one record whose operator offset points past the
  end, for which \<^verbatim>\<open>acars_db_operator\<close> reads outside the buffer.
\<close>
theorem acars_db_bounds:
  "(\<forall>p db0 db i. acars_db_load (Some p) db0 = (True, db) \<longrightarrow>
      (i < unat (g_nrec db) \<longrightarrow> g_recs db + i * REC + REC \<le> length (g_buf db)) \<and>
      (i < unat (g_nop db) \<longrightarrow> g_offs db + i * 4 + 4 \<le> length (g_buf db))) \<and>
   (\<exists>p db reg. acars_db_load (Some p) empty_db = (True, db) \<and> acars_db_operator db reg = None)"
proof (intro conjI allI impI)
  fix p db0 db i
  assume l: "acars_db_load (Some p) db0 = (True, db)"
  note lay = load_layout [OF l]
  show "g_recs db + i * REC + REC \<le> length (g_buf db)" if "i < unat (g_nrec db)"
    using load_record_in_bounds [OF l that] lay by simp
  show "g_offs db + i * 4 + 4 \<le> length (g_buf db)" if "i < unat (g_nop db)"
    using lay that by simp
next
  have f: "find_reg loaded_db [0x68, 0x6C, 0x2D, 0x37] = Some 0"
    using find_loop_correct [of loaded_db 1 "norm_key [0x68, 0x6C, 0x2D, 0x37]" 0 0 0] sample_key sample_norm
      sample_sorted length_norm_key
    by (simp add: find_reg_def loaded_db_def)
  have "acars_db_operator loaded_db [0x68, 0x6C, 0x2D, 0x37] = None"
    unfolding acars_db_operator_def f
    by (simp add: loaded_db_def rec_at_def sample_db_def REC_def rd_u32_def c_string_at_def Let_def)
  then show "\<exists>p db reg. acars_db_load (Some p) empty_db = (True, db) \<and> acars_db_operator db reg = None"
    using sample_loads by blast
qed

theorem acars_db_bounds_witness:
  "g_recs loaded_db + 0 * REC + REC \<le> length (g_buf loaded_db) \<and> g_offs loaded_db + 0 * 4 + 4 \<le> length (g_buf loaded_db)"
proof -
  have "0 < unat (g_nrec loaded_db)" "0 < unat (g_nop loaded_db)" by (simp_all add: loaded_db_def)
  then show ?thesis using acars_db_bounds [THEN conjunct1, rule_format, OF sample_loads, of 0] by blast
qed

end
