(* ===== verification/Adsb.thy ===== *)
theory Adsb
  imports CrcRegister Complex_Main
begin

text \<open>
  The Mode S / ADS-B receiver, \<^verbatim>\<open>src/modules/adsb/adsb_decode.hpp\<close> and
  \<^verbatim>\<open>src/modules/adsb/adsb_meta.hpp\<close>: sample windows and preamble test, bit slicing,
  CRC-24 with the single-bit correction tables, the roster of known addresses, the message
  parsers and the compact position decoding.  Samples, times and coordinates are reals (the
  rounding of float and double is not modelled); a message is a list of 14 bytes.
\<close>

section \<open>Records and labels\<close>

record AdsbRecord =
  ab_t_ms :: int
  ab_freq :: real
  ab_ch :: int
  ab_crc_ok :: bool
  ab_df :: nat
  ab_icao :: u32
  ab_tc :: int
  ab_callsign :: bytes
  ab_category :: nat
  ab_has_alt :: bool
  ab_altitude :: int
  ab_has_pos :: bool
  ab_lat :: real
  ab_lon :: real
  ab_has_vel :: bool
  ab_speed :: real
  ab_track :: real
  ab_has_vr :: bool
  ab_vert_rate :: int
  ab_station :: bytes

definition adsb_default :: AdsbRecord where
  "adsb_default = \<lparr> ab_t_ms = 0, ab_freq = 0, ab_ch = 0, ab_crc_ok = False, ab_df = 0, ab_icao = 0,
     ab_tc = -1, ab_callsign = replicate 9 0, ab_category = 0, ab_has_alt = False, ab_altitude = 0,
     ab_has_pos = False, ab_lat = 0, ab_lon = 0, ab_has_vel = False, ab_speed = -1, ab_track = -1,
     ab_has_vr = False, ab_vert_rate = 0, ab_station = replicate 16 0 \<rparr>"

definition adsb_df_name :: "int \<Rightarrow> string" where
  "adsb_df_name df =
     (case map_of [(0, ''Short ACAS''), (4, ''Surv Alt''), (5, ''Surv ID''), (11, ''All-call''),
        (16, ''Long ACAS''), (17, ''ADS-B''), (18, ''ADS-B(TIS)''), (19, ''Military''),
        (20, ''Comm-B Alt''), (21, ''Comm-B ID''), (24, ''Comm-D'')] df of
        Some s \<Rightarrow> s | None \<Rightarrow> '''')"

definition adsb_tc_name :: "int \<Rightarrow> string" where
  "adsb_tc_name tc =
     (if tc \<ge> 1 \<and> tc \<le> 4 then ''Ident''
      else if tc \<ge> 5 \<and> tc \<le> 8 then ''Surface Pos''
      else if tc \<ge> 9 \<and> tc \<le> 18 then ''Airborne Pos''
      else if tc = 19 then ''Velocity''
      else if tc \<ge> 20 \<and> tc \<le> 22 then ''Airborne Pos(GNSS)''
      else if tc = 28 then ''Status''
      else if tc = 29 then ''Target State''
      else if tc = 31 then ''Op Status''
      else '''')"

definition adsb_charset :: "nat \<Rightarrow> u8" where
  "adsb_charset c =
     (let T = ''#ABCDEFGHIJKLMNOPQRSTUVWXYZ#####'' @ '' ###############0123456789######''
      in if c < 64 then of_nat (of_char (T ! c)) else of_nat (of_char (CHR ''#'')))"

section \<open>Bits and CRC\<close>

definition getbits :: "bytes \<Rightarrow> nat \<Rightarrow> nat \<Rightarrow> u32" where
  "getbits msg startbit len =
     foldl (\<lambda>v i. let b = startbit + i in shift_in v (bit (msg ! (b div 8)) (7 - b mod 8))) 0 [0..<len]"

definition adsb_step :: "u32 \<Rightarrow> u32" where
  "adsb_step r = (if r AND 0x800000 \<noteq> 0 then (push_bit 1 r XOR 0xFFF409) AND 0xFFFFFF
                  else push_bit 1 r AND 0xFFFFFF)"

definition adsb_crc :: "bytes \<Rightarrow> nat \<Rightarrow> u32" where
  "adsb_crc msg nbytes =
     foldl (\<lambda>r b. (adsb_step ^^ 8) (r XOR push_bit 16 (ucast b))) 0 (take nbytes msg) AND 0xFFFFFF"

definition flip_msg :: "bytes \<Rightarrow> nat \<Rightarrow> bytes" where
  "flip_msg msg p = msg[p div 8 := (msg ! (p div 8)) XOR drop_bit (p mod 8) 0x80]"

definition build_syndrome :: "nat \<Rightarrow> u32 \<rightharpoonup> nat" where
  "build_syndrome nbits =
     foldl (\<lambda>tab p. tab(adsb_crc ((replicate 14 0)[p div 8 := drop_bit (p mod 8) 0x80]) (nbits div 8) \<mapsto> p))
       Map.empty [0..<nbits]"

definition synd112 :: "u32 \<rightharpoonup> nat" where "synd112 = build_syndrome 112"
definition synd56 :: "u32 \<rightharpoonup> nat" where "synd56 = build_syndrome 56"

section \<open>Decoder state\<close>

record cpr_state =
  even_lat :: real
  even_lon :: real
  odd_lat :: real
  odd_lon :: real
  even_t :: real
  odd_t :: real
  ref_lat :: real
  ref_lon :: real
  has_ref :: bool

definition cpr_fresh :: cpr_state where
  "cpr_fresh = \<lparr> even_lat = 0, even_lon = 0, odd_lat = 0, odd_lon = 0, even_t = - 1000000000,
     odd_t = - 1000000000, ref_lat = 0, ref_lon = 0, has_ref = False \<rparr>"

record adsb_decoder =
  sr :: real
  spb :: real
  samp_base :: real
  buf :: "real list"
  cpr :: "u32 \<rightharpoonup> cpr_state"
  roster :: "u32 set"
  dg_pre :: int
  dg_ok :: int
  dg_fail :: int
  dg_samp :: int
  dg_maxmag :: real
  ab_records :: "AdsbRecord list"

definition adsb_reset :: "real \<Rightarrow> adsb_decoder" where
  "adsb_reset sample_rate =
     (let r = (if sample_rate > 1 then sample_rate else 2400000)
      in \<lparr> sr = r, spb = r / 1000000, samp_base = 0, buf = [], cpr = Map.empty, roster = {},
           dg_pre = 0, dg_ok = 0, dg_fail = 0, dg_samp = 0, dg_maxmag = 0, ab_records = [] \<rparr>)"

section \<open>Message parsers\<close>

fun blank_callsign :: "bytes \<Rightarrow> bytes" where
  "blank_callsign [] = []"
| "blank_callsign (c # cs) = (if c = 0x20 \<or> c = 0x23 then 0 # blank_callsign cs else c # cs)"

definition parse_ident :: "bytes \<Rightarrow> AdsbRecord \<Rightarrow> AdsbRecord" where
  "parse_ident msg m =
     (let cs = map (\<lambda>k. adsb_charset (unat (getbits msg (40 + 6 * k) 6))) [0..<8]
      in m\<lparr> ab_category := unat (getbits msg 37 3), ab_callsign := rev (blank_callsign (rev cs)) @ [0] \<rparr>)"

definition atan2 :: "real \<Rightarrow> real \<Rightarrow> real" where
  "atan2 y x =
     (if x > 0 then arctan (y / x)
      else if x < 0 then (if y \<ge> 0 then arctan (y / x) + pi else arctan (y / x) - pi)
      else if y > 0 then pi / 2 else if y < 0 then - pi / 2 else 0)"

definition parse_velocity :: "bytes \<Rightarrow> AdsbRecord \<Rightarrow> AdsbRecord" where
  "parse_velocity msg m =
     (let st = unat (getbits msg 37 3);
          vr_sign = unat (getbits msg 68 1);
          vr_raw = int (unat (getbits msg 69 9));
          m = (if vr_raw \<noteq> 0
               then m\<lparr> ab_vert_rate := (vr_raw - 1) * 64 * (if vr_sign \<noteq> 0 then -1 else 1), ab_has_vr := True \<rparr>
               else m)
      in if st = 1 \<or> st = 2 then
           (let ew_dir = unat (getbits msg 45 1); ew_raw = int (unat (getbits msg 46 10));
                ns_dir = unat (getbits msg 56 1); ns_raw = int (unat (getbits msg 57 10))
            in if ew_raw \<noteq> 0 \<and> ns_raw \<noteq> 0 then
                 (let mul = (if st = 2 then 4 else 1);
                      vew = real_of_int (ew_raw - 1) * mul * (if ew_dir \<noteq> 0 then -1 else 1);
                      vns = real_of_int (ns_raw - 1) * mul * (if ns_dir \<noteq> 0 then -1 else 1);
                      trk = atan2 vew vns * 180 / pi;
                      trk = (if trk < 0 then trk + 360 else trk)
                  in m\<lparr> ab_speed := sqrt (vew * vew + vns * vns), ab_track := trk, ab_has_vel := True \<rparr>)
               else m)
         else if st = 3 \<or> st = 4 then
           (let hdg_st = unat (getbits msg 45 1);
                hdg = unat (getbits msg 46 10);
                as_raw = int (unat (getbits msg 57 10));
                m = (if hdg_st \<noteq> 0 then m\<lparr> ab_track := real hdg * 360 / 1024 \<rparr> else m);
                m = (if as_raw \<noteq> 0
                     then m\<lparr> ab_speed := real_of_int (as_raw - 1) * (if st = 4 then 4 else 1) \<rparr> else m)
            in if hdg_st \<noteq> 0 \<or> as_raw \<noteq> 0 then m\<lparr> ab_has_vel := True \<rparr> else m)
         else m)"

definition parse_surv_alt :: "bytes \<Rightarrow> AdsbRecord \<Rightarrow> AdsbRecord" where
  "parse_surv_alt msg m =
     (let ac = getbits msg 19 13
      in if ac = 0 then m
         else if bit ac 6 then m
         else if bit ac 4 then
           (let nn = drop_bit 2 (ac AND 0x1F80) OR drop_bit 1 (ac AND 0x20) OR (ac AND 0xF)
            in m\<lparr> ab_altitude := int (unat nn) * 25 - 1000, ab_has_alt := True \<rparr>)
         else m)"

section \<open>Compact position reporting\<close>

definition fmod :: "real \<Rightarrow> real \<Rightarrow> real" where
  "fmod a b = (let q = a / b; t = (if q \<ge> 0 then \<lfloor>q\<rfloor> else \<lceil>q\<rceil>) in a - b * real_of_int t)"

definition cpr_mod :: "real \<Rightarrow> real \<Rightarrow> real" where
  "cpr_mod a b = (let r = fmod a b in if r < 0 then r + b else r)"

definition NZ :: nat where "NZ = 15"

definition NL :: "real \<Rightarrow> real" where
  "NL la =
     (if \<bar>la\<bar> < 1 / 1000000000 then 59
      else if \<bar>la\<bar> \<ge> 87 then (if \<bar>la\<bar> > 87 then 1 else 2)
      else let a = 1 - cos (pi / (2 * real NZ));
               b = cos (pi / 180 * \<bar>la\<bar>);
               x = 1 - a / (b * b);
               x = (if x < - 1 then - 1 else x);
               x = (if x > 1 then 1 else x)
           in real_of_int \<lfloor>2 * pi / arccos x\<rfloor>)"

definition cpr_global :: "cpr_state \<Rightarrow> bool \<Rightarrow> (real \<times> real) option" where
  "cpr_global s recent_even =
     (let dlat0 = 360 / 60; dlat1 = 360 / 59;
          j = real_of_int \<lfloor>59 * even_lat s - 60 * odd_lat s + 1 / 2\<rfloor>;
          rle = dlat0 * (cpr_mod j 60 + even_lat s);
          rlo = dlat1 * (cpr_mod j 59 + odd_lat s);
          rle = (if rle \<ge> 270 then rle - 360 else rle);
          rlo = (if rlo \<ge> 270 then rlo - 360 else rlo)
      in if NL rle \<noteq> NL rlo then None
         else if recent_even then
           (let nl = NL rle; ni = max nl 1; dlon = 360 / ni;
                mm = real_of_int \<lfloor>even_lon s * (nl - 1) - odd_lon s * nl + 1 / 2\<rfloor>;
                lo = dlon * (cpr_mod mm ni + even_lon s);
                lo = (if lo \<ge> 180 then lo - 360 else lo)
            in Some (rle, lo))
         else
           (let nl = NL rlo; ni = max (nl - 1) 1; dlon = 360 / ni;
                mm = real_of_int \<lfloor>even_lon s * (nl - 1) - odd_lon s * nl + 1 / 2\<rfloor>;
                lo = dlon * (cpr_mod mm ni + odd_lon s);
                lo = (if lo \<ge> 180 then lo - 360 else lo)
            in Some (rlo, lo)))"

definition cpr_local :: "real \<Rightarrow> real \<Rightarrow> bool \<Rightarrow> real \<Rightarrow> real \<Rightarrow> real \<times> real" where
  "cpr_local rlat rlon isodd cl co =
     (let dlat = 360 / (if isodd then 59 else 60);
          j = real_of_int \<lfloor>rlat / dlat\<rfloor> + real_of_int \<lfloor>1 / 2 + cpr_mod rlat dlat / dlat - cl\<rfloor>;
          la = dlat * (j + cl);
          nl = NL la; ni = (if isodd then max (nl - 1) 1 else max nl 1);
          dlon = 360 / ni;
          mm = real_of_int \<lfloor>rlon / dlon\<rfloor> + real_of_int \<lfloor>1 / 2 + cpr_mod rlon dlon / dlon - co\<rfloor>;
          lo = dlon * (mm + co)
      in (la, lo))"

definition cpr_store :: "cpr_state \<Rightarrow> real \<Rightarrow> bool \<Rightarrow> real \<Rightarrow> real \<Rightarrow> cpr_state" where
  "cpr_store s tnow isodd cl co =
     (if \<not> isodd then s\<lparr> even_lat := cl, even_lon := co, even_t := tnow \<rparr>
      else s\<lparr> odd_lat := cl, odd_lon := co, odd_t := tnow \<rparr>)"

definition cpr_position ::
  "(u32 \<rightharpoonup> cpr_state) \<Rightarrow> AdsbRecord \<Rightarrow> real \<Rightarrow> bool \<Rightarrow> u32 \<Rightarrow> u32 \<Rightarrow> AdsbRecord \<times> (u32 \<rightharpoonup> cpr_state)" where
  "cpr_position tab m tnow isodd lacpr locpr =
     (let s0 = (case tab (ab_icao m) of Some s \<Rightarrow> s | None \<Rightarrow> cpr_fresh);
          cl = real (unat lacpr) / 131072; co = real (unat locpr) / 131072;
          s = cpr_store s0 tnow isodd cl co;
          g = (if even_t s > - 100000000 \<and> odd_t s > - 100000000 \<and> \<bar>even_t s - odd_t s\<bar> < 10
               then cpr_global s (\<not> isodd) else None)
      in case g of
           Some (la, lo) \<Rightarrow>
             (m\<lparr> ab_lat := la, ab_lon := lo, ab_has_pos := True \<rparr>,
              tab(ab_icao m \<mapsto> s\<lparr> ref_lat := la, ref_lon := lo, has_ref := True \<rparr>))
         | None \<Rightarrow>
             if has_ref s then
               (let (la, lo) = cpr_local (ref_lat s) (ref_lon s) isodd cl co
                in (m\<lparr> ab_lat := la, ab_lon := lo, ab_has_pos := True \<rparr>,
                    tab(ab_icao m \<mapsto> s\<lparr> ref_lat := la, ref_lon := lo \<rparr>)))
             else (m, tab(ab_icao m \<mapsto> s)))"

definition parse_airpos ::
  "(u32 \<rightharpoonup> cpr_state) \<Rightarrow> bytes \<Rightarrow> AdsbRecord \<Rightarrow> real \<Rightarrow> bool \<Rightarrow> AdsbRecord \<times> (u32 \<rightharpoonup> cpr_state)" where
  "parse_airpos tab msg m tnow baro =
     (let m = (if baro then
                 (let ac = getbits msg 40 12
                  in if bit ac 4
                     then (let nn = drop_bit 1 (ac AND 0xFE0) OR (ac AND 0xF)
                           in m\<lparr> ab_altitude := int (unat nn) * 25 - 1000, ab_has_alt := True \<rparr>)
                     else m)
               else m)
      in cpr_position tab m tnow (getbits msg 53 1 \<noteq> 0) (getbits msg 54 17) (getbits msg 71 17))"

section \<open>A frame\<close>

text \<open>\<^verbatim>\<open>accept\<close>: CRC and roster; the corrected message and the address, or nothing.\<close>

definition accept :: "u32 set \<Rightarrow> bytes \<Rightarrow> nat \<Rightarrow> (bytes \<times> u32) option" where
  "accept known msg df =
     (let nbits = (if bit df 4 then 112 else 56);
          nbytes = nbits div 8;
          r = adsb_crc msg nbytes
      in if df = 17 \<or> df = 18 \<or> df = 19 then
           (if r = 0 then Some (msg, getbits msg 8 24)
            else case synd112 r of
                   None \<Rightarrow> None
                 | Some p \<Rightarrow> let msg' = flip_msg msg p
                             in if adsb_crc msg' nbytes = 0 then Some (msg', getbits msg' 8 24) else None)
         else if df = 11 then
           (if r = 0 then Some (msg, getbits msg 8 24)
            else case synd56 r of
                   None \<Rightarrow> None
                 | Some p \<Rightarrow> let msg' = flip_msg msg p
                             in if adsb_crc msg' nbytes = 0 then Some (msg', getbits msg' 8 24) else None)
         else if df = 0 \<or> df = 4 \<or> df = 5 \<or> df = 16 \<or> df = 20 \<or> df = 21 then
           (if r \<in> known then Some (msg, r) else None)
         else None)"

text \<open>The body of an accepted message; formats 17 and 18 carry a type code.\<close>

definition parse_body ::
  "(u32 \<rightharpoonup> cpr_state) \<Rightarrow> bytes \<Rightarrow> AdsbRecord \<Rightarrow> real \<Rightarrow> nat \<Rightarrow> AdsbRecord \<times> (u32 \<rightharpoonup> cpr_state)" where
  "parse_body tab msg m tnow df =
     (if df = 17 \<or> df = 18 then
        (let tc = unat (getbits msg 32 5); m = m\<lparr> ab_tc := int tc \<rparr>
         in if tc \<ge> 1 \<and> tc \<le> 4 then (parse_ident msg m, tab)
            else if tc \<ge> 9 \<and> tc \<le> 18 then parse_airpos tab msg m tnow True
            else if tc \<ge> 20 \<and> tc \<le> 22 then parse_airpos tab msg m tnow False
            else if tc = 19 then (parse_velocity msg m, tab)
            else (m, tab))
      else if df = 4 \<or> df = 20 then (parse_surv_alt msg m, tab)
      else (m, tab))"

definition enroll :: "nat \<Rightarrow> u32 \<Rightarrow> u32 set \<Rightarrow> u32 set" where
  "enroll df icao known = (if df = 17 \<or> df = 18 \<or> df = 11 then insert icao known else known)"

definition decode_msg :: "adsb_decoder \<Rightarrow> real \<Rightarrow> bytes \<Rightarrow> (nat \<times> adsb_decoder) option" where
  "decode_msg d tnow msg0 =
     (let df = unat (drop_bit 3 (msg0 ! 0)); nbits = (if bit df 4 then 112 else 56)
      in case accept (roster d) msg0 df of
           None \<Rightarrow> None
         | Some (msg, icao) \<Rightarrow>
             let m = adsb_default\<lparr> ab_crc_ok := True, ab_df := df, ab_icao := icao \<rparr>;
                 (m, tab) = parse_body (cpr d) msg m tnow df
             in Some (nbits, d\<lparr> roster := enroll df icao (roster d), cpr := tab, dg_ok := dg_ok d + 1,
                                ab_records := ab_records d @ [m] \<rparr>))"

section \<open>Samples\<close>

definition PRE_US :: real where "PRE_US = 8"
definition OFF_HALF_N :: nat where "OFF_HALF_N = 242"

definition off_half :: "adsb_decoder \<Rightarrow> nat \<Rightarrow> int" where
  "off_half d h = \<lfloor>real h * (1 / 2) * spb d + 1 / 2\<rfloor>"

definition win :: "adsb_decoder \<Rightarrow> nat \<Rightarrow> real \<Rightarrow> real" where
  "win d j u0 =
     (let h = nat \<lfloor>u0 * 2 + 1 / 2\<rfloor>;
          a = int j + off_half d h;
          b = int j + off_half d (h + 1);
          b = (if b \<le> a then a + 1 else b);
          xs = map (\<lambda>k. buf d ! nat k) (filter (\<lambda>k. 0 \<le> k \<and> k < int (length (buf d))) [a..b - 1])
      in if xs \<noteq> [] then sum_list xs / real (length xs) else 0)"

definition preamble_ok :: "adsb_decoder \<Rightarrow> nat \<Rightarrow> bool" where
  "preamble_ok d j =
     (let p0 = win d j 0; p1 = win d j 1; p2 = win d j (7 / 2); p3 = win d j (9 / 2);
          pmin = min (min p0 p1) (min p2 p3);
          pmax = max (max p0 p1) (max p2 p3)
      in if pmin \<le> 1 / 1000000 then False
         else if pmax > 4 * pmin then False
         else let gmax = foldl (\<lambda>g u. max g (win d j u)) 0 [1 / 2, 3 / 2, 2, 5 / 2, 3, 4]
              in if pmin < 2 * gmax then False
                 else let qmax = foldl (\<lambda>q u. max q (win d j u)) 0 [11 / 2, 6, 13 / 2, 7, 15 / 2]
                      in if qmax > 1 / 2 * pmin then False else True)"

definition slice :: "adsb_decoder \<Rightarrow> nat \<Rightarrow> bytes" where
  "slice d j =
     foldl (\<lambda>msg b. let t = PRE_US + real b; e0 = win d j t; e1 = win d j (t + 1 / 2)
                    in if e0 > e1 then msg[b div 8 := (msg ! (b div 8)) OR drop_bit (b mod 8) 0x80] else msg)
       (replicate 14 0) [0..<112]"

definition decode_at :: "adsb_decoder \<Rightarrow> nat \<Rightarrow> (int \<times> adsb_decoder)" where
  "decode_at d j =
     (case decode_msg d ((samp_base d + real j) / sr d) (slice d j) of
        None \<Rightarrow> (0, d)
      | Some (nbits, d') \<Rightarrow> (\<lfloor>(PRE_US + real nbits) * spb d\<rfloor>, d'))"

function scan :: "adsb_decoder \<Rightarrow> nat \<Rightarrow> nat \<Rightarrow> nat \<times> adsb_decoder" where
  "scan d limit j =
     (if j \<le> limit then
        (if preamble_ok d j then
           (let d = d\<lparr> dg_pre := dg_pre d + 1 \<rparr>; (adv, d) = decode_at d j
            in if adv > 0 then scan d limit (j + nat adv)
               else scan (d\<lparr> dg_fail := dg_fail d + 1 \<rparr>) limit (j + 1))
         else scan d limit (j + 1))
      else (j, d))"
  by auto
termination
  by (relation "measure (\<lambda>(d, limit, j). Suc limit - j)") auto

declare scan.simps [simp del]

definition adsb_process :: "real list \<Rightarrow> adsb_decoder \<Rightarrow> adsb_decoder" where
  "adsb_process mag d =
     (let d = d\<lparr> dg_samp := dg_samp d + int (length mag), dg_maxmag := foldl max (dg_maxmag d) mag,
                 buf := buf d @ mag \<rparr>;
          need = nat \<lfloor>(PRE_US + 112) * spb d\<rfloor> + 8
      in if length (buf d) < need then d
         else let (j, d) = scan d (length (buf d) - need) 0
              in if j > 0 then d\<lparr> samp_base := samp_base d + real j, buf := drop j (buf d) \<rparr> else d)"

end
