(* ===== verification/AdsbRx.thy ===== *)
theory AdsbRx
  imports Adsb
begin

text \<open>
  Correctness of the Mode S receiver of \<^verbatim>\<open>src/modules/adsb/adsb_decode.hpp\<close>: the
  CRC is the 24-bit instance of the register contract, the syndrome tables invert single-bit
  errors, surveillance replies are bound to the roster, and the scan consumes only samples it
  holds.
\<close>

section \<open>The CRC-24 register\<close>

definition adsb_P :: u32 where "adsb_P = 0xFFF409"

lemma adsb_step_shift:
  "adsb_step r = take_bit 24 (if bit r (24 - 1) then push_bit 1 r XOR adsb_P else push_bit 1 r)"
proof -
  have m: "(0xFFFFFF :: u32) = mask 24" by (simp add: mask_eq_exp_minus_1)
  have b: "(r AND 0x800000 \<noteq> 0) = bit r 23"
  proof -
    have "(0x800000 :: u32) = push_bit 23 1" by simp
    then have "bit (r AND 0x800000) k = (bit r 23 \<and> k = 23)" for k
      by (simp only: bit_and_iff bit_push_bit_iff) (auto simp: bit_1_iff)
    then show ?thesis by (metis bit_word_eqI bit_0_eq bot_apply bot_bool_def)
  qed
  show ?thesis unfolding adsb_step_def m b by (simp add: take_bit_eq_mask adsb_P_def)
qed

lemma adsb_P_0: "bit adsb_P 0"
  by (simp add: adsb_P_def)

interpretation modes: crc_register adsb_step "\<lambda>i. 24 - 1 - i" 24
  by (rule shifted_register [where P = adsb_P, OF adsb_step_shift adsb_P_0]) simp_all

lemma placed_byte_msb: "(placed (\<lambda>i. 24 - 1 - i) 0 (byte_msb b) :: u32) = push_bit 16 (ucast b)"
proof (rule bit_word_eqI)
  fix k assume "k < LENGTH(32)"
  have e: "{j. j < length (byte_msb b) \<and> byte_msb b ! j \<and> 24 - 1 - (0 + j) = k} =
      (if 16 \<le> k \<and> k < 24 \<and> bit b (k - 16) then {23 - k} else {})"
    by (auto simp: byte_msb_def)
  show "bit (placed (\<lambda>i. 24 - 1 - i) 0 (byte_msb b) :: u32) k = bit (push_bit 16 (ucast b :: u32)) k"
    unfolding bit_placed e using \<open>k < LENGTH(32)\<close> bit_imp_le_length [of b "k - 16"]
    by (auto simp: bit_push_bit_iff bit_ucast_iff)
qed

lemma adsb_byte:
  "(adsb_step ^^ 8) (r XOR push_bit 16 (ucast b)) = crc_run adsb_step 23 r (byte_msb b)"
proof -
  have "crc_run adsb_step (24 - 1 - 0) r (byte_msb b) =
      (adsb_step ^^ length (byte_msb b)) (r XOR push_bit 16 (ucast b))"
    unfolding placed_byte_msb [symmetric] by (rule modes.run_short) simp
  then show ?thesis by (simp only: length_byte_msb) simp
qed

definition frame_bits :: "bytes \<Rightarrow> bits" where
  "frame_bits bs = concat (map byte_msb bs)"

lemma length_frame_bits [simp]: "length (frame_bits bs) = 8 * length bs"
  by (simp add: frame_bits_def)

lemma adsb_step_bits: "take_bit 24 (adsb_step r) = adsb_step r"
  by (simp add: adsb_step_shift)

lemma crc_run_bits:
  "take_bit 24 r = r \<Longrightarrow> take_bit 24 (crc_run adsb_step p r xs) = crc_run adsb_step p r xs"
  by (induction xs arbitrary: r) (simp_all add: crc_feed_def adsb_step_bits)

lemma adsb_crc_run: "adsb_crc msg n = crc_run adsb_step 23 0 (frame_bits (take n msg))"
proof -
  have f: "foldl (\<lambda>r b. (adsb_step ^^ 8) (r XOR push_bit 16 (ucast b))) r bs =
      crc_run adsb_step 23 r (frame_bits bs)" for r bs
    by (induction bs arbitrary: r) (simp_all add: adsb_byte frame_bits_def)
  have m: "(0xFFFFFF :: u32) = mask 24" by (simp add: mask_eq_exp_minus_1)
  show ?thesis unfolding adsb_crc_def f m
    by (simp only: take_bit_eq_mask [symmetric]) (simp add: crc_run_bits)
qed

section \<open>Single-bit errors\<close>

lemma nth_frame_bits:
  "p < 8 * length bs \<Longrightarrow> frame_bits bs ! p = bit (bs ! (p div 8)) (7 - p mod 8)"
proof (induction bs arbitrary: p)
  case (Cons b bs)
  have e: "frame_bits (b # bs) = byte_msb b @ frame_bits bs" by (simp add: frame_bits_def)
  show ?case
  proof (cases "p < 8")
    case True
    then show ?thesis by (simp add: e nth_append byte_msb_def)
  next
    case False
    then obtain q where q: "p = q + 8" by (metis add.commute le_add_diff_inverse not_less)
    then show ?thesis using Cons by (simp add: e nth_append)
  qed
qed simp

lemma frame_bits_take: "frame_bits (take n bs) = take (8 * n) (frame_bits bs)"
proof (induction bs arbitrary: n)
  case (Cons b bs)
  then show ?case by (cases n) (simp_all add: frame_bits_def)
qed (simp add: frame_bits_def)

lemma bit_drop_80: "bit (drop_bit k (0x80 :: u8)) j \<longleftrightarrow> k \<le> 7 \<and> j = 7 - k"
proof -
  have "(0x80 :: u8) = push_bit 7 1" by simp
  then show ?thesis by (simp only: bit_drop_bit_eq bit_push_bit_iff o_def) (auto simp: bit_1_iff)
qed

lemma length_flip_msg [simp]: "length (flip_msg msg p) = length msg"
  by (simp add: flip_msg_def)

lemma frame_bits_flip:
  assumes "p < 8 * length msg"
  shows "frame_bits (flip_msg msg p) = flip_at p (frame_bits msg)"
proof (intro nth_equalityI)
  fix i assume "i < length (frame_bits (flip_msg msg p))"
  then have i: "i < 8 * length msg" by simp
  then have d: "i div 8 < length msg" by auto
  have "i mod 8 \<le> 7" "p mod 8 \<le> 7" using mod_less_divisor [of 8] by (simp_all add: less_Suc_eq_le [symmetric])
  then have "(7 - i mod 8 = 7 - p mod 8) = (i mod 8 = p mod 8)" by linarith
  then have "(i = p) = (i div 8 = p div 8 \<and> 7 - i mod 8 = 7 - p mod 8)"
    by (metis div_mult_mod_eq)
  moreover have "flip_msg msg p ! (i div 8) =
      (if i div 8 = p div 8 then msg ! (i div 8) XOR drop_bit (p mod 8) 0x80 else msg ! (i div 8))"
    using d by (auto simp: flip_msg_def nth_list_update)
  moreover have "p mod 8 \<le> 7" using \<open>p mod 8 \<le> 7\<close> .
  ultimately show "frame_bits (flip_msg msg p) ! i = flip_at p (frame_bits msg) ! i"
    using i by (simp add: nth_frame_bits bit_xor_iff bit_drop_80 eq_commute [of p])
qed simp

lemma flip_msg_twice: "p < 8 * length msg \<Longrightarrow> flip_msg (flip_msg msg p) p = msg"
proof -
  assume "p < 8 * length msg"
  then have "p div 8 < length msg" by auto
  then show ?thesis by (simp add: flip_msg_def xor.assoc)
qed

lemma run_unit:
  assumes "p < n"
  shows "crc_run adsb_step 23 0 (unit n p) = (adsb_step ^^ (n - p)) (single 23)"
proof -
  have "unit n p = zeros p @ True # zeros (n - Suc p)"
    using assms by (intro nth_equalityI) (auto simp: nth_append nth_Cons split: nat.splits)
  then show ?thesis using assms modes.funpow_S_zero modes.run_False
    by (simp add: crc_feed_def funpow_swap1 Suc_diff_Suc [symmetric])
qed

lemma adsb_crc_flip:
  assumes "p < 8 * n" "n \<le> length msg"
  shows "adsb_crc (flip_msg msg p) n = adsb_crc msg n XOR (adsb_step ^^ (8 * n - p)) (single 23)"
proof -
  have p: "p < 8 * length msg" using assms by linarith
  have "frame_bits (take n (flip_msg msg p)) = xorl (frame_bits (take n msg)) (unit (8 * n) p)"
    unfolding frame_bits_take frame_bits_flip [OF p] flip_at_xorl take_xorl
    using assms by (intro nth_equalityI) auto
  then show ?thesis
    using modes.run_xor [of "frame_bits (take n msg)" "unit (8 * n) p" 23 0 0] assms run_unit [of p "8 * n"]
    by (simp add: adsb_crc_run min_absorb2)
qed

text \<open>The orbit of one bit under the register does not return within a frame.\<close>

primrec avoids :: "('a \<Rightarrow> 'a) \<Rightarrow> 'a \<Rightarrow> nat \<Rightarrow> 'a \<Rightarrow> bool" where
  "avoids S t 0 r = True"
| "avoids S t (Suc k) r = (S r \<noteq> t \<and> avoids S t k (S r))"

lemma avoids_funpow: "avoids S t k r \<Longrightarrow> 0 < j \<Longrightarrow> j \<le> k \<Longrightarrow> (S ^^ j) r \<noteq> t"
proof (induction k arbitrary: j r)
  case (Suc k)
  then obtain i where i: "j = Suc i" by (cases j) auto
  show ?case
  proof (cases "i = 0")
    case True
    then show ?thesis using Suc.prems i by simp
  next
    case False
    then show ?thesis using Suc.IH [of "S r" i] Suc.prems i by (simp add: funpow_swap1)
  qed
qed simp

lemma avoids_numeral:
  "avoids S t (numeral k) r = (S r \<noteq> t \<and> avoids S t (pred_numeral k) (S r))"
  by (simp add: numeral_eq_Suc)

lemma single_23: "(single 23 :: u32) = 0x800000"
  by (simp add: single_def)

lemma adsb_orbit: "avoids adsb_step 0x800000 111 0x800000"
  by (simp add: avoids_numeral adsb_step_def)

lemma reg_single_23: "\<forall>k. bit (single 23 :: u32) k \<longrightarrow> k < 24"
  by simp

lemma orbit_inj:
  assumes "a < b" "b - a \<le> 111"
  shows "(adsb_step ^^ a) (single 23) \<noteq> (adsb_step ^^ b) (single 23)"
proof
  let ?x = "single 23 :: u32"
  assume "(adsb_step ^^ a) ?x = (adsb_step ^^ b) ?x"
  moreover have "(adsb_step ^^ b) ?x = (adsb_step ^^ a) ((adsb_step ^^ (b - a)) ?x)"
  proof -
    have "(adsb_step ^^ (a + (b - a))) ?x = (adsb_step ^^ a) ((adsb_step ^^ (b - a)) ?x)"
      by (simp only: funpow_add o_apply)
    moreover have "a + (b - a) = b" using assms(1) by simp
    ultimately show ?thesis by simp
  qed
  ultimately have e: "(adsb_step ^^ a) (?x XOR (adsb_step ^^ (b - a)) ?x) = 0"
    by (simp add: modes.funpow_S_xor)
  have nz: "?x XOR (adsb_step ^^ (b - a)) ?x \<noteq> 0"
  proof
    assume "?x XOR (adsb_step ^^ (b - a)) ?x = 0"
    then have "(adsb_step ^^ (b - a)) ?x = ?x" by (metis xor_zero_eq)
    then show False using avoids_funpow [OF adsb_orbit, of "b - a"] assms by (simp add: single_23)
  qed
  have reg: "\<forall>k. bit (?x XOR (adsb_step ^^ (b - a)) ?x) k \<longrightarrow> k < 24"
  proof -
    have "\<forall>k. bit ((adsb_step ^^ (b - a)) ?x) k \<longrightarrow> k < 24"
      using modes.funpow_S_nonzero [OF reg_single_23, of "b - a"] by (simp add: single_23)
    then show ?thesis by (auto simp: bit_xor_iff)
  qed
  show False using modes.funpow_S_nonzero [OF reg nz, of a] e by simp
qed

lemma foldl_update_Some:
  "foldl (\<lambda>tab p. tab(g p \<mapsto> p)) tab ps k = Some q \<Longrightarrow> (q \<in> set ps \<and> g q = k) \<or> tab k = Some q"
proof (induction ps arbitrary: tab)
  case (Cons p ps)
  show ?case using Cons.IH [of "tab(g p \<mapsto> p)"] Cons.prems by (auto split: if_splits)
qed simp

lemma foldl_update_inj:
  "inj_on g (set ps) \<Longrightarrow> q \<in> set ps \<Longrightarrow> foldl (\<lambda>tab p. tab(g p \<mapsto> p)) tab ps (g q) = Some q"
proof (induction ps arbitrary: tab rule: rev_induct)
  case (snoc p ps)
  then show ?case by (cases "g p = g q") (auto simp: inj_on_def)
qed simp

lemma adsb_crc_zeros: "adsb_crc (replicate n 0) k = 0"
proof -
  have "frame_bits (take k (replicate n 0)) = zeros (8 * min k n)"
  proof (intro nth_equalityI)
    fix i assume "i < length (frame_bits (take k (replicate n 0)))"
    then have i: "i < 8 * min k n" by simp
    then have "i div 8 < min k n" by linarith
    then have "replicate (min k n) (0::u8) ! (i div 8) = 0" by (rule nth_replicate)
    then show "frame_bits (take k (replicate n 0)) ! i = zeros (8 * min k n) ! i"
      using i by (simp add: nth_frame_bits)
  qed simp
  then show ?thesis using modes.run_False modes.funpow_S_zero by (simp add: adsb_crc_run)
qed

definition syndrome :: "nat \<Rightarrow> nat \<Rightarrow> u32" where
  "syndrome nbits p = (adsb_step ^^ (nbits - p)) (single 23)"

lemma build_syndrome_eq:
  assumes "nbits = 8 * n" "n \<le> 14"
  shows "build_syndrome nbits = foldl (\<lambda>tab p. tab(syndrome nbits p \<mapsto> p)) Map.empty [0..<nbits]"
proof -
  have "adsb_crc ((replicate 14 0)[p div 8 := drop_bit (p mod 8) 0x80]) (nbits div 8) = syndrome nbits p"
    if "p \<in> set [0..<nbits]" for p
  proof -
    have p: "p < 8 * n" using that assms by simp
    then have "p div 8 < 14" using assms by auto
    then have "(replicate 14 0)[p div 8 := drop_bit (p mod 8) 0x80] = flip_msg (replicate 14 0) p"
      by (simp add: flip_msg_def)
    then show ?thesis using adsb_crc_flip [OF p, of "replicate 14 0"] assms
      by (simp add: adsb_crc_zeros syndrome_def)
  qed
  then show ?thesis unfolding build_syndrome_def by (intro foldl_cong) auto
qed

lemma build_syndrome_hit:
  assumes "nbits = 8 * n" "n \<le> 14" "p < nbits"
  shows "build_syndrome nbits (syndrome nbits p) = Some p"
proof -
  have "inj_on (syndrome nbits) {0..<nbits}"
  proof (rule linorder_inj_onI)
    fix a b assume "a < b" "a \<in> {0..<nbits}" "b \<in> {0..<nbits}"
    moreover have "nbits \<le> 112" using assms by simp
    ultimately have "nbits - b < nbits - a" "nbits - a - (nbits - b) \<le> 111" by auto
    then show "syndrome nbits a \<noteq> syndrome nbits b"
      unfolding syndrome_def using orbit_inj [of "nbits - b" "nbits - a"] by metis
  qed auto
  then show ?thesis unfolding build_syndrome_eq [OF assms(1,2)]
    using assms by (intro foldl_update_inj) auto
qed

lemma syndrome_nz: "syndrome nbits p \<noteq> 0"
  using modes.funpow_S_nonzero [OF reg_single_23, of "nbits - p"] by (simp add: syndrome_def single_23)

lemma flip_msg_df:
  assumes "5 \<le> p" "p < 112" "length msg = 14"
  shows "drop_bit 3 (flip_msg msg p ! 0) = drop_bit 3 (msg ! 0)"
proof (cases "p < 8")
  case True
  have "drop_bit 3 (msg ! 0 XOR drop_bit p 0x80) = drop_bit 3 (msg ! 0)"
    using assms True by (intro bit_word_eqI) (auto simp: bit_drop_bit_eq bit_xor_iff bit_drop_80)
  then show ?thesis using True assms by (simp add: flip_msg_def)
next
  case False
  then show ?thesis by (simp add: flip_msg_def)
qed

lemma accept_squitter:
  assumes "df \<in> {17, 18, 19}"
  shows "accept known msg df =
     (if adsb_crc msg 14 = 0 then Some (msg, getbits msg 8 24)
      else case build_syndrome 112 (adsb_crc msg 14) of
             None \<Rightarrow> None
           | Some p \<Rightarrow> if adsb_crc (flip_msg msg p) 14 = 0
                       then Some (flip_msg msg p, getbits (flip_msg msg p) 8 24) else None)"
proof -
  have "bit df 4" using assms by (auto simp: bit_iff_odd)
  moreover have "df = 17 \<or> df = 18 \<or> df = 19" using assms by simp
  ultimately show ?thesis by (simp add: accept_def Let_def synd112_def split: option.split)
qed

lemma accept_allcall:
  "accept known msg 11 =
     (if adsb_crc msg 7 = 0 then Some (msg, getbits msg 8 24)
      else case build_syndrome 56 (adsb_crc msg 7) of
             None \<Rightarrow> None
           | Some p \<Rightarrow> if adsb_crc (flip_msg msg p) 7 = 0
                       then Some (flip_msg msg p, getbits (flip_msg msg p) 8 24) else None)"
proof -
  have "\<not> bit (11::nat) 4" by (simp add: bit_iff_odd)
  then show ?thesis by (simp add: accept_def Let_def synd56_def split: option.split)
qed

lemma accept_corrects:
  assumes "df \<in> {17, 18, 19} \<and> nbits = 112 \<or> df = 11 \<and> nbits = 56"
    and "adsb_crc msg (nbits div 8) = 0" "p < nbits" "length msg = 14"
  shows "accept known (flip_msg msg p) df = Some (msg, getbits msg 8 24)"
    and "accept known msg df = Some (msg, getbits msg 8 24)"
proof -
  have nb: "nbits = 8 * (nbits div 8)" "nbits div 8 \<le> 14" using assms(1) by auto
  have r: "adsb_crc (flip_msg msg p) (nbits div 8) = syndrome nbits p"
    using adsb_crc_flip [of p "nbits div 8" msg] assms nb by (simp add: syndrome_def)
  have h: "build_syndrome nbits (syndrome nbits p) = Some p"
    using build_syndrome_hit [OF nb assms(3)] .
  have f: "flip_msg (flip_msg msg p) p = msg" using assms by (intro flip_msg_twice) auto
  have nz: "syndrome nbits p \<noteq> 0" by (rule syndrome_nz)
  consider "df \<in> {17, 18, 19}" "nbits = 112" | "df = 11" "nbits = 56" using assms(1) by blast
  then show "accept known (flip_msg msg p) df = Some (msg, getbits msg 8 24)"
  proof cases
    case 1
    then show ?thesis using r h f nz assms(2) by (simp add: accept_squitter)
  next
    case 2
    then show ?thesis using r h f nz assms(2) by (simp add: accept_allcall)
  qed
  consider "df \<in> {17, 18, 19}" "nbits = 112" | "df = 11" "nbits = 56" using assms(1) by blast
  then show "accept known msg df = Some (msg, getbits msg 8 24)"
    by cases (use assms(2) in \<open>simp_all add: accept_squitter accept_allcall\<close>)
qed

text \<open>
  C7: Forward error correction of the Mode S receiver.  For every extended squitter or
  all-call frame with a correct check sum, every single-bit error outside the five format
  bits is repaired: the corrupted frame is accepted and has exactly the effect of the frame
  that was sent, on the roster, on the position state and on the delivered record.
\<close>

theorem adsb_single_error_corrected:
  assumes "length msg = 14" and "df = unat (drop_bit 3 (msg ! 0))"
    and "df \<in> {17, 18, 19} \<and> nbits = 112 \<or> df = 11 \<and> nbits = 56"
    and "adsb_crc msg (nbits div 8) = 0" and "5 \<le> p" "p < nbits"
  shows "decode_msg d t (flip_msg msg p) = decode_msg d t msg \<and> decode_msg d t msg \<noteq> None"
proof -
  have p: "p < 112" using assms(3,6) by auto
  note acc = accept_corrects [OF assms(3,4,6,1), of "roster d"]
  have e: "unat (drop_bit 3 (flip_msg msg p ! 0)) = df"
    using flip_msg_df [OF assms(5) p assms(1)] assms(2) by simp
  have 1: "decode_msg d t (flip_msg msg p) = decode_msg d t msg"
    unfolding decode_msg_def Let_def e assms(2) [symmetric] acc ..
  have "decode_msg d t msg \<noteq> None"
    unfolding decode_msg_def Let_def assms(2) [symmetric] acc by (simp split: prod.split)
  with 1 show ?thesis by simp
qed

definition sample_squitter :: bytes where
  "sample_squitter =
     [0x8D, 0x48, 0x40, 0xD6, 0x20, 0x2C, 0xC3, 0x71, 0xC3, 0x2C, 0xE0, 0x57, 0x60, 0x98]"

lemma sample_squitter_ok:
  "length sample_squitter = 14" "unat (drop_bit 3 (sample_squitter ! 0)) = 17"
  "adsb_crc sample_squitter 14 = 0"
proof -
  have t: "take 14 sample_squitter =
     [0x8D, 0x48, 0x40, 0xD6, 0x20, 0x2C, 0xC3, 0x71, 0xC3, 0x2C, 0xE0, 0x57, 0x60, 0x98]"
    by (simp add: sample_squitter_def)
  show "adsb_crc sample_squitter 14 = 0"
    unfolding adsb_crc_def t foldl.simps by (simp add: funpow_numeral_step adsb_step_def)
qed (simp_all add: sample_squitter_def)

theorem adsb_single_error_corrected_witness:
  "decode_msg (adsb_reset 2400000) 0 (flip_msg sample_squitter 50) =
     decode_msg (adsb_reset 2400000) 0 sample_squitter \<and>
   decode_msg (adsb_reset 2400000) 0 sample_squitter \<noteq> None"
  by (rule adsb_single_error_corrected [where df = 17 and nbits = 112])
    (simp_all add: sample_squitter_ok)

text \<open>
  The format field is read before the repair and not read again after it.  An extended
  squitter whose format bit 3 was received wrong is repaired and accepted, but delivered as
  a format 19 message without type code, position, velocity or call sign, and its address
  does not enter the roster.
\<close>

theorem adsb_format_error_mislabelled:
  assumes "length msg = 14" and "unat (drop_bit 3 (msg ! 0)) = 17" and "adsb_crc msg 14 = 0"
  shows "decode_msg d t (flip_msg msg 3) =
     Some (112, d\<lparr> dg_ok := dg_ok d + 1,
       ab_records := ab_records d @
         [adsb_default\<lparr> ab_crc_ok := True, ab_df := 19, ab_icao := getbits msg 8 24 \<rparr>] \<rparr>)"
proof -
  have f: "flip_msg msg 3 ! 0 = msg ! 0 XOR 0x10" using assms(1) by (simp add: flip_msg_def)
  have "drop_bit 3 (msg ! 0 XOR 0x10) = drop_bit 3 (msg ! 0) XOR 2" by simp
  also have "drop_bit 3 (msg ! 0) = 17"
    using assms(2) by (intro word_unat_eq_iff [THEN iffD2]) simp
  also have "(17 XOR 2 :: u8) = 19" by simp
  finally have e: "unat (drop_bit 3 (flip_msg msg 3 ! 0)) = 19" by (simp add: f)
  have a: "accept (roster d) (flip_msg msg 3) 19 = Some (msg, getbits msg 8 24)"
    using accept_corrects(1) [of 19 112 msg 3 "roster d"] assms by simp
  have b: "bit (19::nat) 4" by (simp add: bit_iff_odd)
  show ?thesis unfolding decode_msg_def Let_def e a using b by (simp add: parse_body_def enroll_def)
qed

theorem adsb_format_error_mislabelled_witness:
  "decode_msg (adsb_reset 2400000) 0 (flip_msg sample_squitter 3) \<noteq> None"
  using adsb_format_error_mislabelled [of sample_squitter "adsb_reset 2400000" 0] sample_squitter_ok
  by simp

section \<open>The sample stream\<close>

named_theorems ab_keep "parsers keep the address, the format and the check flag"

lemma parse_ident_keep [ab_keep]:
  "ab_icao (parse_ident msg m) = ab_icao m" "ab_df (parse_ident msg m) = ab_df m"
  "ab_crc_ok (parse_ident msg m) = ab_crc_ok m"
  by (simp_all add: parse_ident_def Let_def)

lemma parse_velocity_keep [ab_keep]:
  "ab_icao (parse_velocity msg m) = ab_icao m" "ab_df (parse_velocity msg m) = ab_df m"
  "ab_crc_ok (parse_velocity msg m) = ab_crc_ok m"
  by (simp_all add: parse_velocity_def Let_def)

lemma parse_surv_alt_keep [ab_keep]:
  "ab_icao (parse_surv_alt msg m) = ab_icao m" "ab_df (parse_surv_alt msg m) = ab_df m"
  "ab_crc_ok (parse_surv_alt msg m) = ab_crc_ok m"
  by (simp_all add: parse_surv_alt_def Let_def)

lemma cpr_position_keep [ab_keep]:
  "ab_icao (fst (cpr_position tab m t f la lo)) = ab_icao m"
  "ab_df (fst (cpr_position tab m t f la lo)) = ab_df m"
  "ab_crc_ok (fst (cpr_position tab m t f la lo)) = ab_crc_ok m"
  by (simp_all add: cpr_position_def Let_def split: option.split prod.split)

lemma parse_airpos_keep [ab_keep]:
  "ab_icao (fst (parse_airpos tab msg m t baro)) = ab_icao m"
  "ab_df (fst (parse_airpos tab msg m t baro)) = ab_df m"
  "ab_crc_ok (fst (parse_airpos tab msg m t baro)) = ab_crc_ok m"
  by (simp_all add: parse_airpos_def Let_def ab_keep)

lemma accept_surveillance:
  assumes "accept known msg df = Some (msg', icao)"
  shows "df \<in> {11, 17, 18, 19} \<or> (df \<in> {0, 4, 5, 16, 20, 21} \<and> icao \<in> known)"
  using assms unfolding accept_def Let_def by (auto split: if_splits)

lemma parse_body_keep [ab_keep]:
  "ab_icao (fst (parse_body tab msg m t df)) = ab_icao m"
  "ab_df (fst (parse_body tab msg m t df)) = ab_df m"
  "ab_crc_ok (fst (parse_body tab msg m t df)) = ab_crc_ok m"
  by (simp_all add: parse_body_def Let_def ab_keep)

lemma decode_msg_cases:
  assumes "decode_msg d t msg = Some (nbits, d')"
  obtains msg' icao m tab where
    "accept (roster d) msg (unat (drop_bit 3 (msg ! 0))) = Some (msg', icao)"
    "nbits = (if bit (unat (drop_bit 3 (msg ! 0))) 4 then 112 else 56)"
    "ab_icao m = icao" "ab_df m = unat (drop_bit 3 (msg ! 0))" "ab_crc_ok m"
    "d' = d\<lparr> roster := enroll (unat (drop_bit 3 (msg ! 0))) icao (roster d), cpr := tab,
              dg_ok := dg_ok d + 1, ab_records := ab_records d @ [m] \<rparr>"
proof -
  let ?df = "unat (drop_bit 3 (msg ! 0))"
  obtain msg' icao where a: "accept (roster d) msg ?df = Some (msg', icao)"
    using assms by (auto simp: decode_msg_def Let_def split: option.splits)
  let ?m0 = "adsb_default\<lparr> ab_crc_ok := True, ab_df := ?df, ab_icao := icao \<rparr>"
  obtain m tab where b: "parse_body (cpr d) msg' ?m0 t ?df = (m, tab)" by fastforce
  have k: "ab_icao m = icao" "ab_df m = ?df" "ab_crc_ok m"
    using parse_body_keep [of "cpr d" msg' ?m0 t ?df] unfolding b by simp_all
  show thesis
    by (rule that [OF a _ k]) (use assms a b in \<open>auto simp: decode_msg_def Let_def\<close>)
qed

lemma decode_msg_record:
  assumes "decode_msg d t msg = Some (nbits, d')"
  shows "\<exists>m. ab_records d' = ab_records d @ [m] \<and> ab_crc_ok m \<and> roster d \<subseteq> roster d' \<and>
      (ab_df m = 19 \<or> ab_icao m \<in> roster d')"
    and "spb d' = spb d" "samp_base d' = samp_base d" "buf d' = buf d"
    and "nbits = 56 \<or> nbits = 112"
proof -
  obtain msg' icao m tab where
    a: "accept (roster d) msg (unat (drop_bit 3 (msg ! 0))) = Some (msg', icao)"
    and n: "nbits = (if bit (unat (drop_bit 3 (msg ! 0))) 4 then 112 else 56)"
    and m: "ab_icao m = icao" "ab_df m = unat (drop_bit 3 (msg ! 0))" "ab_crc_ok m"
    and d': "d' = d\<lparr> roster := enroll (unat (drop_bit 3 (msg ! 0))) icao (roster d), cpr := tab,
              dg_ok := dg_ok d + 1, ab_records := ab_records d @ [m] \<rparr>"
    using assms by (rule decode_msg_cases)
  have "ab_df m = 19 \<or> ab_icao m \<in> roster d'"
    using accept_surveillance [OF a] m d' by (auto simp: enroll_def)
  then show "\<exists>m. ab_records d' = ab_records d @ [m] \<and> ab_crc_ok m \<and> roster d \<subseteq> roster d' \<and>
      (ab_df m = 19 \<or> ab_icao m \<in> roster d')"
    using m(3) d' by (intro exI [of _ m]) (auto simp: enroll_def)
  show "spb d' = spb d" "samp_base d' = samp_base d" "buf d' = buf d" using d' by simp_all
  show "nbits = 56 \<or> nbits = 112" using n by simp
qed

definition need_samples :: "adsb_decoder \<Rightarrow> nat" where
  "need_samples d = nat \<lfloor>(PRE_US + 112) * spb d\<rfloor> + 8"

definition known_records :: "adsb_decoder \<Rightarrow> bool" where
  "known_records d \<longleftrightarrow> (\<forall>m\<in>set (ab_records d). ab_crc_ok m \<and> (ab_df m = 19 \<or> ab_icao m \<in> roster d))"

lemma decode_at_keep:
  assumes "decode_at d j = (adv, d')" "0 < spb d"
  shows "spb d' = spb d" "samp_base d' = samp_base d" "buf d' = buf d"
    and "known_records d \<Longrightarrow> known_records d'" and "nat adv + 8 \<le> need_samples d"
proof -
  let ?t = "(samp_base d + real j) / sr d"
  have "spb d' = spb d \<and> samp_base d' = samp_base d \<and> buf d' = buf d \<and>
      (known_records d \<longrightarrow> known_records d') \<and> nat adv + 8 \<le> need_samples d"
  proof (cases "decode_msg d ?t (slice d j)")
    case None
    then show ?thesis using assms by (simp add: decode_at_def need_samples_def)
  next
    case (Some r)
    obtain nbits d1 where r: "r = (nbits, d1)" by fastforce
    note dm = decode_msg_record [OF Some [unfolded r]]
    have d': "d' = d1" "adv = \<lfloor>(PRE_US + real nbits) * spb d\<rfloor>"
      using assms(1) Some r by (simp_all add: decode_at_def)
    have "(PRE_US + real nbits) * spb d \<le> (PRE_US + 112) * spb d"
      using dm(5) assms(2) by (intro mult_right_mono) auto
    then have "adv \<le> \<lfloor>(PRE_US + 112) * spb d\<rfloor>" unfolding d'(2) by (rule floor_mono)
    moreover have "known_records d \<longrightarrow> known_records d1"
      using dm(1) by (auto simp: known_records_def)
    ultimately show ?thesis using dm(2-4) d'(1) by (simp add: need_samples_def nat_mono)
  qed
  then show "spb d' = spb d" "samp_base d' = samp_base d" "buf d' = buf d"
    "known_records d \<Longrightarrow> known_records d'" "nat adv + 8 \<le> need_samples d" by blast+
qed

definition scan_ok :: "adsb_decoder \<Rightarrow> adsb_decoder \<Rightarrow> bool" where
  "scan_ok d d' \<longleftrightarrow> spb d' = spb d \<and> samp_base d' = samp_base d \<and> buf d' = buf d \<and>
     (known_records d \<longrightarrow> known_records d')"

lemma scan_ok_trans: "scan_ok d d1 \<Longrightarrow> scan_ok d1 d2 \<Longrightarrow> scan_ok d d2"
  by (simp add: scan_ok_def)

lemma scan_ok_fields [simp]:
  "scan_ok d (d1\<lparr> dg_pre := a \<rparr>) = scan_ok d d1" "scan_ok d (d1\<lparr> dg_fail := a \<rparr>) = scan_ok d d1"
  by (simp_all add: scan_ok_def known_records_def)

lemma scan_range:
  assumes "0 < spb d" "j \<le> limit + need_samples d" "scan d limit j = (j', d')"
  shows "limit < j' \<and> j' \<le> limit + need_samples d \<and> scan_ok d d'"
  using assms
proof (induction d limit j rule: scan.induct)
  case (1 d limit j)
  note IH = "1.IH" and pos = "1.prems"(1) and range = "1.prems"(2) and run = "1.prems"(3)
  have n8: "8 \<le> need_samples d" by (simp add: need_samples_def)
  show ?case
  proof (cases "j \<le> limit")
    case False
    then show ?thesis using run range by (simp add: scan.simps [of d limit j] scan_ok_def)
  next
    case j: True
    show ?thesis
    proof (cases "preamble_ok d j")
      case False
      then have "scan d limit (j + 1) = (j', d')" using run j by (simp add: scan.simps [of d limit j])
      then show ?thesis using IH(3) [OF j False pos] j n8 by simp
    next
      case p: True
      let ?d1 = "d\<lparr> dg_pre := dg_pre d + 1 \<rparr>"
      obtain adv d2 where da: "decode_at ?d1 j = (adv, d2)" by fastforce
      note k = decode_at_keep [OF da]
      have ok: "scan_ok d d2" and need: "nat adv + 8 \<le> need_samples d"
        using k pos by (simp_all add: scan_ok_def known_records_def need_samples_def)
      have pos2: "0 < spb d2" and nd2: "need_samples d2 = need_samples d"
        using ok pos by (simp_all add: scan_ok_def need_samples_def)
      show ?thesis
      proof (cases "adv > 0")
        case True
        then have "scan d2 limit (j + nat adv) = (j', d')"
          using run j p da by (simp add: scan.simps [of d limit j] Let_def)
        then have "limit < j' \<and> j' \<le> limit + need_samples d2 \<and> scan_ok d2 d'"
          using IH(1) [OF j p refl da [symmetric] refl True pos2] j need nd2 by simp
        then show ?thesis using ok nd2 scan_ok_trans by metis
      next
        case False
        let ?d3 = "d2\<lparr> dg_fail := dg_fail d2 + 1 \<rparr>"
        have "scan ?d3 limit (j + 1) = (j', d')"
          using run j p da False by (simp add: scan.simps [of d limit j] Let_def)
        moreover have "0 < spb ?d3" "need_samples ?d3 = need_samples d2"
          using pos2 by (simp_all add: need_samples_def)
        ultimately have "limit < j' \<and> j' \<le> limit + need_samples d2 \<and> scan_ok ?d3 d'"
          using IH(2) [OF j p refl da [symmetric] refl False] j n8 nd2 by simp
        moreover have "scan_ok d ?d3" using ok by simp
        ultimately show ?thesis using nd2 scan_ok_trans by metis
      qed
    qed
  qed
qed

definition stream_inv :: "real \<Rightarrow> nat \<Rightarrow> adsb_decoder \<Rightarrow> bool" where
  "stream_inv rate cnt d \<longleftrightarrow> spb d = rate \<and> samp_base d + real (length (buf d)) = real cnt \<and>
     length (buf d) < need_samples d \<and> known_records d"

lemma adsb_process_inv:
  assumes "stream_inv rate cnt d" "0 < rate"
  shows "stream_inv rate (cnt + length mag) (adsb_process mag d)"
proof -
  let ?d = "d\<lparr> dg_samp := dg_samp d + int (length mag), dg_maxmag := foldl max (dg_maxmag d) mag,
                 buf := buf d @ mag \<rparr>"
  have nd: "need_samples ?d = need_samples d" by (simp add: need_samples_def)
  have kn: "known_records ?d" using assms by (simp add: stream_inv_def known_records_def)
  show ?thesis
  proof (cases "length (buf ?d) < need_samples ?d")
    case True
    then have "adsb_process mag d = ?d" by (simp add: adsb_process_def Let_def need_samples_def)
    then show ?thesis using assms kn True by (simp add: stream_inv_def need_samples_def)
  next
    case False
    obtain j d' where sc: "scan ?d (length (buf ?d) - need_samples ?d) 0 = (j, d')" by fastforce
    have "length (buf ?d) - need_samples ?d < j \<and>
        j \<le> length (buf ?d) - need_samples ?d + need_samples ?d \<and> scan_ok ?d d'"
      using sc assms by (intro scan_range) (simp_all add: stream_inv_def)
    then have j: "length (buf ?d) < j + need_samples ?d" "j \<le> length (buf ?d)" "0 < j"
      and ok: "scan_ok ?d d'" using False by linarith+
    have e: "adsb_process mag d = d'\<lparr> samp_base := samp_base d' + real j, buf := drop j (buf d') \<rparr>"
      using sc j False by (simp add: adsb_process_def Let_def need_samples_def)
    have b: "buf d' = buf ?d" "samp_base d' = samp_base d" "spb d' = spb d" "known_records d'"
      using ok kn by (simp_all add: scan_ok_def)
    have l: "length (drop j (buf d')) = length (buf d) + length mag - j"
      using b(1) by (simp only: length_drop) simp
    have j': "j \<le> length (buf d) + length mag" using j(2) by simp
    have D: "spb (adsb_process mag d) = spb d" "samp_base (adsb_process mag d) = samp_base d + real j"
      "buf (adsb_process mag d) = drop j (buf d')" "known_records (adsb_process mag d)"
      using b by (simp_all add: e known_records_def)
    have s: "samp_base d + real j + real (length (buf d) + length mag - j) = real (cnt + length mag)"
      using assms(1) j' by (simp add: stream_inv_def of_nat_diff)
    have n: "length (buf d) + length mag - j < need_samples d"
    proof -
      have "length (buf d) + length mag < j + need_samples d" using j(1) nd by simp
      then show ?thesis using j' by linarith
    qed
    show ?thesis using assms(1) s n D(4) unfolding stream_inv_def need_samples_def D(1-3) l by blast
  qed
qed

text \<open>
  The receiver over a whole recording, cut into blocks in any way.  The sample clock
  and the buffer account for every sample exactly once, fewer samples than one longest frame
  stay in the buffer, and every message delivered had a correct (possibly repaired) check
  sum and, format 19 apart, an address enrolled by an extended squitter or an all-call
  reply: surveillance replies never introduce an aircraft.
\<close>

theorem adsb_stream_accounted:
  "let d = foldl (\<lambda>d mag. adsb_process mag d) (adsb_reset rate) blocks
   in samp_base d + real (length (buf d)) = real (length (concat blocks)) \<and>
      length (buf d) < need_samples d \<and> known_records d"
proof -
  let ?r = "spb (adsb_reset rate)"
  have pos: "0 < ?r" by (simp add: adsb_reset_def Let_def)
  have "stream_inv ?r (length (concat blocks))
          (foldl (\<lambda>d mag. adsb_process mag d) (adsb_reset rate) blocks)"
  proof (induction blocks rule: rev_induct)
    case Nil
    show ?case by (simp add: stream_inv_def need_samples_def known_records_def adsb_reset_def Let_def)
  next
    case (snoc mag blocks)
    then show ?case using adsb_process_inv [OF _ pos, of _ _ mag] by simp
  qed
  then show ?thesis by (simp add: stream_inv_def Let_def)
qed

section \<open>Altitude and position\<close>

text \<open>The two altitude codes with the Q bit set, for an 11-bit count of 25 ft steps.\<close>

definition alt13 :: "u32 \<Rightarrow> u32" where
  "alt13 n = push_bit 2 (n AND 0x7E0) OR push_bit 1 (n AND 0x10) OR 0x10 OR (n AND 0xF)"

definition alt12 :: "u32 \<Rightarrow> u32" where
  "alt12 n = push_bit 1 (n AND 0x7F0) OR 0x10 OR (n AND 0xF)"

lemma alt_masks:
  "(0x7E0 :: u32) = push_bit 5 (mask 6)" "(0x7F0 :: u32) = push_bit 4 (mask 7)"
  "(0x1F80 :: u32) = push_bit 7 (mask 6)" "(0xFE0 :: u32) = push_bit 5 (mask 7)"
  "(0xF :: u32) = mask 4" "(0x10 :: u32) = single 4" "(0x20 :: u32) = single 5"
  by (simp_all add: mask_eq_exp_minus_1 single_def)

lemmas alt_bits = bit_and_iff bit_or_iff bit_push_bit_iff bit_drop_bit_eq o_def bit_mask_iff bit_single

lemma small_bits: "unat (n :: u32) < 2048 \<Longrightarrow> bit n k \<Longrightarrow> k < 11"
proof (rule ccontr)
  assume n: "unat n < 2048" and b: "bit n k" and "\<not> k < 11"
  then have "2 ^ 11 \<le> (2::nat) ^ k" by (intro power_increasing) auto
  moreover have "bit (unat n) k" using b by (simp add: bit_unsigned_iff)
  then have "unat n div 2 ^ k \<noteq> 0" by (metis bit_iff_odd even_zero)
  then have "2 ^ k \<le> unat n" by (metis div_less not_le)
  ultimately show False using n by simp
qed

lemma alt13_fields:
  "\<not> bit (alt13 n) 6" "bit (alt13 n) 4" "alt13 n \<noteq> 0"
proof -
  show 4: "bit (alt13 n) 4" and "\<not> bit (alt13 n) 6"
    unfolding alt13_def alt_masks alt_bits by auto
  from 4 show "alt13 n \<noteq> 0" by auto
qed

lemma alt13_count:
  assumes "unat n < 2048"
  shows "drop_bit 2 (alt13 n AND 0x1F80) OR drop_bit 1 (alt13 n AND 0x20) OR (alt13 n AND 0xF) = n"
proof (rule bit_word_eqI)
  fix k assume "k < LENGTH(32)"
  consider "k < 4" | "k = 4" | "5 \<le> k" "k < 11" | "11 \<le> k" by linarith
  then show "bit (drop_bit 2 (alt13 n AND 0x1F80) OR drop_bit 1 (alt13 n AND 0x20) OR (alt13 n AND 0xF)) k
      = bit n k"
    unfolding alt13_def alt_masks alt_bits
    by cases (use small_bits [OF assms, of k] in \<open>simp_all, auto\<close>)
qed

lemma alt12_count:
  assumes "unat n < 2048"
  shows "drop_bit 1 (alt12 n AND 0xFE0) OR (alt12 n AND 0xF) = n"
proof (rule bit_word_eqI)
  fix k assume "k < LENGTH(32)"
  show "bit (drop_bit 1 (alt12 n AND 0xFE0) OR (alt12 n AND 0xF)) k = bit n k"
    using small_bits [OF assms, of k] unfolding alt12_def alt_masks alt_bits by auto
qed

lemma alt12_q: "bit (alt12 n) 4"
  unfolding alt12_def alt_masks alt_bits by auto

lemma cpr_position_alt:
  "ab_altitude (fst (cpr_position tab m t f la lo)) = ab_altitude m"
  "ab_has_alt (fst (cpr_position tab m t f la lo)) = ab_has_alt m"
  by (simp_all add: cpr_position_def Let_def split: option.split prod.split)

text \<open>
  Pressure altitude.  Whatever number of 25 ft steps is encoded, in the 13-bit field of a
  surveillance reply or in the 12-bit field of an airborne position, the parser reports that
  number of feet above -1000 and sets the altitude flag.
\<close>

theorem adsb_altitude_round_trip:
  assumes "unat n < 2048" and "getbits msg 19 13 = alt13 n" and "getbits msg' 40 12 = alt12 n"
  shows "parse_surv_alt msg m = m\<lparr> ab_altitude := 25 * int (unat n) - 1000, ab_has_alt := True \<rparr> \<and>
    ab_altitude (fst (parse_airpos tab msg' m t True)) = 25 * int (unat n) - 1000 \<and>
    ab_has_alt (fst (parse_airpos tab msg' m t True))"
  using assms(2,3) alt13_fields [of n] alt13_count [OF assms(1)] alt12_count [OF assms(1)] alt12_q [of n]
  by (simp add: parse_surv_alt_def parse_airpos_def Let_def cpr_position_alt)

theorem adsb_altitude_round_trip_witness:
  "parse_surv_alt [0x20, 0, 0x18, 0x38, 0, 0, 0] adsb_default
     = adsb_default\<lparr> ab_altitude := 38000, ab_has_alt := True \<rparr>"
proof -
  have "getbits [0x20, 0, 0x18, 0x38, 0, 0, 0] 19 13 = alt13 1560"
    by (simp add: getbits_def upt_rec shift_in_def alt13_def)
  moreover have "getbits [0x8D, 0, 0, 0, 0, 0xC3, 0x80, 0, 0, 0, 0, 0, 0, 0] 40 12 = alt12 1560"
    by (simp add: getbits_def upt_rec shift_in_def alt12_def)
  ultimately show ?thesis
    using adsb_altitude_round_trip [of 1560 "[0x20, 0, 0x18, 0x38, 0, 0, 0]"
      "[0x8D, 0, 0, 0, 0, 0xC3, 0x80, 0, 0, 0, 0, 0, 0, 0]" adsb_default Map.empty 0]
    by simp
qed

text \<open>
  C8: Compact position reporting, single-frame decoding.  If the two 17-bit fractions are
  those of a position within half a zone of the reference, in latitude and in longitude at
  that latitude, the local decoder returns exactly that position.
\<close>

lemma cpr_mod_zone:
  assumes "0 < b"
  shows "real_of_int \<lfloor>a / b\<rfloor> + cpr_mod a b / b = a / b"
proof -
  have "cpr_mod a b = a - b * real_of_int \<lfloor>a / b\<rfloor>"
  proof (cases "a / b \<ge> 0")
    case True
    have "0 \<le> a - b * real_of_int \<lfloor>a / b\<rfloor>"
      using floor_divide_lower [OF assms, of a] by (simp add: mult.commute)
    then show ?thesis using True by (simp add: cpr_mod_def fmod_def Let_def)
  next
    case False
    show ?thesis
    proof (cases "real_of_int \<lfloor>a / b\<rfloor> = a / b")
      case True
      then have c: "\<lceil>a / b\<rceil> = \<lfloor>a / b\<rfloor>" by (metis ceiling_of_int)
      have "a - b * real_of_int \<lfloor>a / b\<rfloor> = 0" unfolding True using assms by simp
      then show ?thesis using False c by (simp add: cpr_mod_def fmod_def Let_def)
    next
      case ne: False
      then have c: "\<lceil>a / b\<rceil> = \<lfloor>a / b\<rfloor> + 1" by (metis ceiling_altdef)
      have "real_of_int \<lfloor>a / b\<rfloor> < a / b" using ne of_int_floor_le [of "a / b"] by linarith
      moreover have "a / b < real_of_int \<lfloor>a / b\<rfloor> + 1" by simp
      ultimately have "a - b * (real_of_int \<lfloor>a / b\<rfloor> + 1) < 0"
        using assms by (simp add: field_simps)
      then show ?thesis using False c by (simp add: cpr_mod_def fmod_def Let_def algebra_simps)
    qed
  qed
  then show ?thesis using assms by (simp add: field_simps)
qed

lemma zone_recover:
  assumes "0 < b" "x = b * (real_of_int n + c)" "\<bar>ref - x\<bar> < b / 2"
  shows "b * (real_of_int \<lfloor>ref / b\<rfloor> + real_of_int \<lfloor>1 / 2 + cpr_mod ref b / b - c\<rfloor> + c) = x"
proof -
  have "real_of_int \<lfloor>ref / b\<rfloor> + real_of_int \<lfloor>1 / 2 + cpr_mod ref b / b - c\<rfloor>
      = real_of_int \<lfloor>1 / 2 + (real_of_int \<lfloor>ref / b\<rfloor> + cpr_mod ref b / b) - c\<rfloor>"
  proof -
    have "1 / 2 + (real_of_int \<lfloor>ref / b\<rfloor> + cpr_mod ref b / b) - c
        = (1 / 2 + cpr_mod ref b / b - c) + real_of_int \<lfloor>ref / b\<rfloor>" by simp
    then show ?thesis by (simp only: floor_add_int) simp
  qed
  also have "\<dots> = real_of_int \<lfloor>1 / 2 + ref / b - c\<rfloor>" by (simp add: cpr_mod_zone [OF assms(1)])
  also have "\<lfloor>1 / 2 + ref / b - c\<rfloor> = n"
  proof -
    have "c = x / b - real_of_int n" using assms by (simp add: field_simps)
    moreover have "\<bar>ref / b - x / b\<bar> < 1 / 2"
      using assms by (simp add: abs_less_iff field_simps)
    ultimately show ?thesis by linarith
  qed
  finally show ?thesis using assms(2) by simp
qed

theorem cpr_local_recovers:
  assumes "dlat = 360 / (if isodd then 59 else 60)"
    and "lat = dlat * (real_of_int j + cl)" and "\<bar>rlat - lat\<bar> < dlat / 2"
    and "dlon = 360 / (if isodd then max (NL lat - 1) 1 else max (NL lat) 1)"
    and "lon = dlon * (real_of_int k + co)" and "\<bar>rlon - lon\<bar> < dlon / 2"
  shows "cpr_local rlat rlon isodd cl co = (lat, lon)"
proof -
  have p: "0 < dlat" "0 < dlon" using assms(1,4) by auto
  have la: "dlat * (real_of_int \<lfloor>rlat / dlat\<rfloor> + real_of_int \<lfloor>1 / 2 + cpr_mod rlat dlat / dlat - cl\<rfloor> + cl) = lat"
    by (rule zone_recover [OF p(1) assms(2,3)])
  have lo: "dlon * (real_of_int \<lfloor>rlon / dlon\<rfloor> + real_of_int \<lfloor>1 / 2 + cpr_mod rlon dlon / dlon - co\<rfloor> + co) = lon"
    by (rule zone_recover [OF p(2) assms(5,6)])
  show ?thesis
    unfolding cpr_local_def Let_def assms(1) [symmetric] la assms(4) [symmetric] lo ..
qed

theorem cpr_local_recovers_witness: "cpr_local 1 1 False 0 (1 / 4) = (0, 90 / 59)"
  by (rule cpr_local_recovers [where dlat = 6 and dlon = "360 / 59" and j = 0 and k = 0])
    (simp_all add: NL_def)

end
