(* ===== verification/Wire.thy ===== *)
theory Wire
  imports Prelude
begin

text \<open>
  Packed C structs as they cross the wire.  Every packet of the repository is a struct with
  \<^verbatim>\<open>__attribute__((packed))\<close> that is copied byte for byte between a little-endian
  object and the socket buffer (\<^verbatim>\<open>memcpy\<close> and \<^verbatim>\<open>reinterpret_cast\<close>).  A
  \<^verbatim>\<open>ctype\<close> is such a type, a \<^verbatim>\<open>cval\<close> an object of it with every scalar as its bit
  pattern; \<^verbatim>\<open>encode\<close> and \<^verbatim>\<open>decode\<close> are the two copies.
\<close>

section \<open>Types and sizes\<close>

datatype scalar = U8 | I8 | U16 | I16 | U32 | I32 | U64 | I64 | F32 | F64 | C8

datatype ctype = Prim scalar | Arr nat ctype | Struct "(string \<times> ctype) list"

datatype cval = Num nat | Seq "cval list"

type_synonym fields = "(string \<times> ctype) list"

fun width :: "scalar \<Rightarrow> nat" where
  "width U8 = 1" | "width I8 = 1" | "width C8 = 1"
| "width U16 = 2" | "width I16 = 2"
| "width U32 = 4" | "width I32 = 4" | "width F32 = 4"
| "width U64 = 8" | "width I64 = 8" | "width F64 = 8"

abbreviation chars :: "nat \<Rightarrow> ctype" where "chars n \<equiv> Arr n (Prim C8)"

fun size_of :: "ctype \<Rightarrow> nat" and sizes_of :: "fields \<Rightarrow> nat" where
  "size_of (Prim s) = width s"
| "size_of (Arr n t) = n * size_of t"
| "size_of (Struct fs) = sizes_of fs"
| "sizes_of [] = 0"
| "sizes_of ((x, t) # fs) = size_of t + sizes_of fs"

text \<open>\<^verbatim>\<open>offsetof\<close>, and the member it denotes.\<close>

fun offset_in :: "fields \<Rightarrow> string \<Rightarrow> nat option" where
  "offset_in [] f = None"
| "offset_in ((x, t) # fs) f =
     (if x = f then Some 0 else map_option (\<lambda>k. size_of t + k) (offset_in fs f))"

fun offset_of :: "ctype \<Rightarrow> string \<Rightarrow> nat option" where
  "offset_of (Struct fs) f = offset_in fs f"
| "offset_of _ f = None"

text \<open>
  A nested struct without the attribute keeps its natural alignment: padding bytes before a
  member whose offset is not a multiple of its width, and at the end.
\<close>

fun align_of :: "ctype \<Rightarrow> nat" and aligns_of :: "fields \<Rightarrow> nat" where
  "align_of (Prim s) = width s"
| "align_of (Arr n t) = align_of t"
| "align_of (Struct fs) = aligns_of fs"
| "aligns_of [] = 1"
| "aligns_of ((x, t) # fs) = max (align_of t) (aligns_of fs)"

definition pad_to :: "nat \<Rightarrow> nat \<Rightarrow> nat" where
  "pad_to a off = (a - off mod a) mod a"

fun natural_fields :: "nat \<Rightarrow> nat \<Rightarrow> fields \<Rightarrow> fields" where
  "natural_fields a off [] = [('''', Arr (pad_to a off) (Prim U8))]"
| "natural_fields a off ((x, t) # fs) =
     (let p = pad_to (align_of t) off
      in ('''', Arr p (Prim U8)) # (x, t) # natural_fields a (off + p + size_of t) fs)"

definition natural :: "fields \<Rightarrow> ctype" where
  "natural fs = Struct (natural_fields (aligns_of fs) 0 fs)"

text \<open>The bytes of an object from a member on.\<close>

definition at_member :: "ctype \<Rightarrow> string \<Rightarrow> 'a list \<Rightarrow> 'a list" where
  "at_member t f bs = (case offset_of t f of Some k \<Rightarrow> drop k bs | None \<Rightarrow> [])"

section \<open>Objects and bytes\<close>

definition le_bytes :: "nat \<Rightarrow> nat \<Rightarrow> bytes" where
  "le_bytes k n = map (\<lambda>i. of_nat (n div 256 ^ i)) [0..<k]"

fun le_nat :: "bytes \<Rightarrow> nat" where
  "le_nat [] = 0"
| "le_nat (b # bs) = unat b + 256 * le_nat bs"

fun chunks :: "nat \<Rightarrow> nat \<Rightarrow> 'a list \<Rightarrow> 'a list list" where
  "chunks 0 k xs = []"
| "chunks (Suc n) k xs = take k xs # chunks n k (drop k xs)"

fun has_type :: "ctype \<Rightarrow> cval \<Rightarrow> bool" and has_types :: "fields \<Rightarrow> cval list \<Rightarrow> bool" where
  "has_type (Prim s) (Num n) = (n < 256 ^ width s)"
| "has_type (Arr n t) (Seq vs) = (length vs = n \<and> list_all (has_type t) vs)"
| "has_type (Struct fs) (Seq vs) = has_types fs vs"
| "has_type _ _ = False"
| "has_types [] [] = True"
| "has_types ((x, t) # fs) (v # vs) = (has_type t v \<and> has_types fs vs)"
| "has_types _ _ = False"

fun encode :: "ctype \<Rightarrow> cval \<Rightarrow> bytes" and encodes :: "fields \<Rightarrow> cval list \<Rightarrow> bytes" where
  "encode (Prim s) (Num n) = le_bytes (width s) n"
| "encode (Arr n t) (Seq vs) = concat (map (encode t) vs)"
| "encode (Struct fs) (Seq vs) = encodes fs vs"
| "encode _ _ = []"
| "encodes ((x, t) # fs) (v # vs) = encode t v @ encodes fs vs"
| "encodes _ _ = []"

fun decode :: "ctype \<Rightarrow> bytes \<Rightarrow> cval" and decodes :: "fields \<Rightarrow> bytes \<Rightarrow> cval list" where
  "decode (Prim s) bs = Num (le_nat (take (width s) bs))"
| "decode (Arr n t) bs = Seq (map (decode t) (chunks n (size_of t) bs))"
| "decode (Struct fs) bs = Seq (decodes fs bs)"
| "decodes [] bs = []"
| "decodes ((x, t) # fs) bs = decode t (take (size_of t) bs) # decodes fs (drop (size_of t) bs)"

section \<open>The two copies are inverse\<close>

lemma length_le_bytes [simp]: "length (le_bytes k n) = k"
  by (simp add: le_bytes_def)

lemma le_bytes_0 [simp]: "le_bytes 0 n = []"
  by (simp add: le_bytes_def)

lemma le_bytes_Suc: "le_bytes (Suc k) n = of_nat n # le_bytes k (n div 256)"
  by (simp add: le_bytes_def map_upt_Suc div_mult2_eq del: upt_Suc)

lemma le_nat_le_bytes: "le_nat (le_bytes k n) = n mod 256 ^ k"
proof (induction k arbitrary: n)
  case (Suc k)
  have "unat (of_nat n :: u8) = n mod 256" by (simp add: unat_of_nat)
  then show ?case using Suc [of "n div 256"]
    by (simp add: le_bytes_Suc mod_mult2_eq add.commute)
qed simp

lemma le_bytes_le_nat: "length bs = k \<Longrightarrow> le_bytes k (le_nat bs) = bs"
proof (induction bs arbitrary: k)
  case (Cons b bs)
  have u: "unat b < 256" using unat_lt [of b] by simp
  have "(of_nat (unat b + 256 * le_nat bs) :: u8) = of_nat (unat b)"
    by (intro word_unat_eq_iff [THEN iffD2]) (simp only: unat_of_nat, simp)
  then show ?case using Cons u by (auto simp: le_bytes_Suc)
qed simp

lemma le_nat_bound: "le_nat bs < 256 ^ length bs"
proof (induction bs)
  case (Cons b bs)
  then have "le_nat bs + 1 \<le> 256 ^ length bs" by simp
  then have "256 * (le_nat bs + 1) \<le> 256 * 256 ^ length bs" by simp
  then show ?case using unat_lt [of b] by simp
qed simp

lemma length_chunks [simp]: "length (chunks n k xs) = n"
  by (induction n k xs rule: chunks.induct) auto

lemma concat_chunks: "length xs = n * k \<Longrightarrow> concat (chunks n k xs) = xs"
  by (induction n k xs rule: chunks.induct) auto

lemma chunks_length: "length xs = n * k \<Longrightarrow> c \<in> set (chunks n k xs) \<Longrightarrow> length c = k"
  by (induction n k xs rule: chunks.induct) auto

lemma chunks_concat: "\<forall>c\<in>set cs. length c = k \<Longrightarrow> chunks (length cs) k (concat cs) = cs"
  by (induction cs) auto

lemma length_concat_const:
  "\<forall>v\<in>set vs. length (f v) = k \<Longrightarrow> length (concat (map f vs)) = length vs * k"
  by (induction vs) auto

lemma length_encode:
  "has_type t v \<Longrightarrow> length (encode t v) = size_of t"
  "has_types fs vs \<Longrightarrow> length (encodes fs vs) = sizes_of fs"
proof (induction t v and fs vs rule: encode_encodes.induct)
  case (2 n t vs)
  have "length (concat (map (encode t) vs)) = length vs * size_of t"
    using 2 by (intro length_concat_const) (auto simp: list_all_iff)
  then show ?case using 2 by simp
qed (auto elim: has_types.elims)

theorem decode_encode:
  "has_type t v \<Longrightarrow> decode t (encode t v) = v"
  "has_types fs vs \<Longrightarrow> decodes fs (encodes fs vs) = vs"
proof (induction t v and fs vs rule: encode_encodes.induct)
  case (2 n t vs)
  have "chunks (length vs) (size_of t) (concat (map (encode t) vs)) = map (encode t) vs"
    using 2 chunks_concat [of "map (encode t) vs" "size_of t"] length_encode(1) [of t]
    by (auto simp: list_all_iff)
  moreover have "map (decode t) (map (encode t) vs) = vs"
    using 2 by (auto simp: list_all_iff intro: map_idI)
  ultimately show ?case using 2 by simp
qed (auto simp: le_nat_le_bytes length_encode elim: has_types.elims)

theorem encode_decode:
  "length bs = size_of t \<Longrightarrow> has_type t (decode t bs) \<and> encode t (decode t bs) = bs"
  "length bs = sizes_of fs \<Longrightarrow> has_types fs (decodes fs bs) \<and> encodes fs (decodes fs bs) = bs"
proof (induction t bs and fs bs rule: decode_decodes.induct)
  case (1 s bs)
  then show ?case using le_nat_bound [of bs] by (simp add: le_bytes_le_nat)
next
  case (2 n t bs)
  let ?cs = "chunks n (size_of t) bs"
  have l: "length bs = n * size_of t" using 2(2) by simp
  have c: "has_type t (decode t c) \<and> encode t (decode t c) = c" if "c \<in> set ?cs" for c
    using 2(1) [OF that] chunks_length [OF l that] by blast
  then have "map (encode t \<circ> decode t) ?cs = ?cs" by (intro map_idI) simp
  moreover have "list_all (has_type t) (map (decode t) ?cs)" using c by (auto simp: list_all_iff)
  ultimately show ?case using concat_chunks [OF l] by simp
qed auto

text \<open>A member is found at its offset.\<close>

lemma decodes_member:
  assumes "offset_in fs f = Some k" and "length bs = sizes_of fs"
  shows "\<exists>i t. i < length fs \<and> fs ! i = (f, t) \<and> k + size_of t \<le> length bs \<and>
     decodes fs bs ! i = decode t (take (size_of t) (drop k bs))"
  using assms
proof (induction fs bs arbitrary: k rule: decode_decodes.induct(2) [where ?P = "\<lambda>_ _. True"])
  case (5 x t fs bs)
  show ?case
  proof (cases "x = f")
    case True
    then show ?thesis using 5 by (intro exI [of _ 0] exI [of _ t]) auto
  next
    case False
    then obtain k' where k': "offset_in fs f = Some k'" "k = size_of t + k'" using 5 by auto
    obtain i t' where "i < length fs" "fs ! i = (f, t')" "k' + size_of t' \<le> length (drop (size_of t) bs)"
      "decodes fs (drop (size_of t) bs) ! i = decode t' (take (size_of t') (drop k' (drop (size_of t) bs)))"
      using 5(2) [OF k'(1)] 5(4) by auto
    then show ?thesis using k' 5(4)
      by (intro exI [of _ "Suc i"] exI [of _ t']) (auto simp: add.commute)
  qed
qed auto

end
