(* ===== verification/Packets.thy ===== *)
theory Packets
  imports Wire
begin

text \<open>
  The wire format of the system.  \<^verbatim>\<open>src/net_protocol.hpp\<close>: packet types, module pipe
  kinds, command codes and every packed struct exchanged by HOST, JOIN and the relay; then
  \<^verbatim>\<open>central/central_proto.hpp\<close>: the relay's own packets and the constants with which
  it takes BEWE packets apart.  Each struct is a \<^verbatim>\<open>ctype\<close> with the members in source
  order.  The command payload is a union of unpacked structs in 64 raw bytes
  (\<^verbatim>\<open>cmd_args\<close>).
\<close>

section \<open>Packets of net_protocol.hpp\<close>

definition PacketType :: "(string \<times> u8) list" where
  "PacketType = [
     (''AUTH_REQ'', 0x01), (''AUTH_ACK'', 0x02), (''FFT_FRAME'', 0x03), (''AUDIO_FRAME'', 0x04),
     (''CMD'', 0x05), (''CMD_ACK'', 0x06), (''CHAT'', 0x07), (''STATUS'', 0x08),
     (''OPERATOR_LIST'', 0x09), (''CHANNEL_SYNC'', 0x0A), (''DISCONNECT'', 0x0B),
     (''WF_EVENT'', 0x0C), (''FILE_DATA'', 0x0D), (''FILE_META'', 0x0E),
     (''REGION_RESPONSE'', 0x0F), (''HEARTBEAT'', 0x14), (''DISK_STAT'', 0x15),
     (''IQ_PROGRESS'', 0x16), (''IQ_CHUNK'', 0x20), (''REPORT_ADD'', 0x23),
     (''DB_SAVE_META'', 0x24), (''DB_SAVE_DATA'', 0x25), (''DB_LIST'', 0x26),
     (''DB_DOWNLOAD_REQ'', 0x27), (''DB_DOWNLOAD_DATA'', 0x28), (''DB_DELETE_REQ'', 0x29),
     (''DB_SET_NOTE'', 0x2A), (''DB_DOWNLOAD_INFO'', 0x2D), (''DB_LIST_REQ'', 0x2E),
     (''SCHED_SYNC'', 0x30), (''BAND_PLAN_SYNC'', 0x31), (''BAND_ADD'', 0x32),
     (''BAND_REMOVE'', 0x33), (''BAND_UPDATE'', 0x34), (''BAND_CAT_SYNC'', 0x35),
     (''BAND_CAT_UPSERT'', 0x36), (''BAND_CAT_DELETE'', 0x37), (''LWF_LIST_REQ'', 0x38),
     (''LWF_LIST'', 0x39), (''LWF_DL_REQ'', 0x3A), (''LWF_DL_DATA'', 0x3B),
     (''LWF_LIVE_START'', 0x3C), (''LWF_LIVE_ROW'', 0x3D), (''LWF_LIVE_STOP'', 0x3E),
     (''LWF_LIVE_REQ'', 0x3F), (''LWF_DELETE_REQ'', 0x40), (''EMITTER_LIST_REQ'', 0x41),
     (''EMITTER_LIST'', 0x42), (''EMITTER_UPSERT'', 0x43), (''EMITTER_DELETE'', 0x44),
     (''SIGHTING_LIST_REQ'', 0x45), (''SIGHTING_LIST'', 0x46), (''SIGHTING_LINK'', 0x47),
     (''MISSION_SYNC'', 0x48), (''MISSION_START'', 0x49), (''MISSION_END'', 0x4A),
     (''MISSION_UPDATE'', 0x4B), (''MISSION_LIST_REQ'', 0x4C), (''MISSION_DELETE'', 0x4D),
     (''MISSION_FILE_PUSH_META'', 0x4E), (''MISSION_FILE_PUSH_DATA'', 0x4F),
     (''MISSION_FILE_LIST_REQ'', 0x50), (''MISSION_FILE_LIST'', 0x51),
     (''MISSION_FILE_DL_REQ'', 0x52), (''MISSION_FILE_DL_DATA'', 0x53),
     (''MISSION_FILE_DELETE'', 0x54), (''MISSION_FILE_RENAME'', 0x55),
     (''MISSION_FILE_PUSH_ACK'', 0x56), (''MISSION_FILE_SET_NOTE'', 0x57),
     (''MODULE_PIPE'', 0x58), (''FFT_META'', 0x59), (''MISSION_SYNC_REQ'', 0x5A),
     (''MISSION_SYNC_FOR'', 0x5B), (''HIST_STAT_REQ'', 0x5C), (''HIST_STAT'', 0x5D),
     (''DB_SAVE_FROM_ARCHIVE'', 0x5E), (''DF_CONFIG'', 0x5F), (''DF_RESULT'', 0x60),
     (''DF_STATUS'', 0x61), (''DF_CALIB'', 0x62)]"

definition ModuleKind :: "(string \<times> u8) list" where
  "ModuleKind = [
     (''BEWE_MK_ARCH_META'', 0xEA), (''BEWE_MK_ARCH_CHUNK'', 0xEB),
     (''BEWE_MK_ARCH_DONE'', 0xEC), (''BEWE_MK_HLIST_REQ'', 0xED), (''BEWE_MK_HLIST'', 0xEE),
     (''BEWE_MK_HFETCH'', 0xEF), (''BEWE_MK_CH_LIST_REQ'', 0xF0), (''BEWE_MK_CH_LIST'', 0xF1),
     (''BEWE_MK_SET'', 0xF2), (''BEWE_MK_STATE'', 0xF3), (''BEWE_MK_DATA'', 0xF4),
     (''BEWE_MK_RECV'', 0xF5), (''BEWE_MK_HIST_META'', 0xF6), (''BEWE_MK_HIST_CHUNK'', 0xF7),
     (''BEWE_MK_HIST_DONE'', 0xF8), (''BEWE_MK_CH_EDIT'', 0xF9), (''BEWE_MK_TUNE'', 0xFA),
     (''BEWE_MK_REC_REQ'', 0xFB), (''BEWE_MK_REC_DATA'', 0xFC), (''BEWE_MK_CH_ADD'', 0xFD),
     (''BEWE_MK_CH_DEL'', 0xFE), (''BEWE_MK_VHIST_REQ'', 0xFF)]"

definition CmdType :: "(string \<times> u8) list" where
  "CmdType = [
     (''SET_FREQ'', 0x01), (''SET_GAIN'', 0x02), (''CREATE_CH'', 0x03), (''DELETE_CH'', 0x04),
     (''SET_CH_MODE'', 0x05), (''SET_CH_AUDIO'', 0x06), (''START_REC'', 0x07),
     (''STOP_REC'', 0x08), (''SET_CH_PAN'', 0x09), (''SET_SQ_THRESH'', 0x0A),
     (''SET_AUTOSCALE'', 0x0B), (''TOGGLE_RECV'', 0x0C), (''UPDATE_CH_RANGE'', 0x0D),
     (''TOGGLE_TM_IQ'', 0x0E), (''SET_CAPTURE_PAUSE'', 0x0F), (''SET_SPECTRUM_PAUSE'', 0x10),
     (''REQUEST_REGION'', 0x11), (''CHASSIS_RESET'', 0x12), (''DELETE_PUB_FILE'', 0x13),
     (''SET_FFT_SIZE'', 0x14), (''SET_SR'', 0x15), (''NET_RESET'', 0x16), (''RX_STOP'', 0x17),
     (''RX_START'', 0x18), (''START_IQ_REC'', 0x19), (''STOP_IQ_REC'', 0x1A),
     (''SET_ANTENNA'', 0x1D), (''ADD_SCHED'', 0x1E), (''REMOVE_SCHED'', 0x1F),
     (''SET_HW'', 0x21), (''TOGGLE_FFT_RECV'', 0x22), (''SET_CH_DETECT'', 0x23),
     (''DF_MEASURE'', 0x24), (''DF_SET_SNR'', 0x25)]"

definition PktHdr :: ctype where
  "PktHdr = Struct [
     (''magic'', Arr 4 (Prim U8)), (''type'', Prim U8), (''len'', Prim U32)]"

definition PktModulePipe :: ctype where
  "PktModulePipe = Struct [
     (''mod_id'', chars 8), (''kind'', Prim U8), (''_rsv'', Arr 3 (Prim U8)),
     (''data_len'', Prim U32)]"

definition MpSet :: ctype where
  "MpSet = Struct [
     (''station'', chars 24), (''ch'', Prim U8), (''on'', Prim U8)]"

definition MpState :: ctype where
  "MpState = Struct [
     (''station'', chars 24), (''mask'', Prim U64)]"

definition MpChEntry :: ctype where
  "MpChEntry = Struct [
     (''station'', chars 24), (''ch'', Prim U8), (''mode'', Prim U8), (''decode_on'', Prim U8),
     (''hold'', Prim U8), (''dnum'', Prim U8), (''lo'', Prim F32), (''hi'', Prim F32),
     (''cf_mhz'', Prim F32), (''sr_msps'', Prim F32), (''dec_count'', Prim U32),
     (''dec_runtime_s'', Prim U32), (''det'', Prim U8)]"

definition MpChEdit :: ctype where
  "MpChEdit = Struct [
     (''station'', chars 24), (''ch'', Prim U8), (''mode'', Prim U8), (''_r'', Arr 2 (Prim U8)),
     (''lo'', Prim F32), (''hi'', Prim F32)]"

definition MpTune :: ctype where
  "MpTune = Struct [
     (''station'', chars 24), (''cf_mhz'', Prim F32), (''sr_msps'', Prim F32)]"

definition MpRecv :: ctype where
  "MpRecv = Struct [
     (''on'', Prim U8)]"

definition MpHistMeta :: ctype where
  "MpHistMeta = Struct [
     (''total_bytes'', Prim U32), (''raw_bytes'', Prim U32), (''stream_kind'', Prim U32),
     (''req_id'', Prim U32)]"

definition MpArchMeta :: ctype where
  "MpArchMeta = Struct [
     (''date'', chars 9), (''_r'', Arr 3 (Prim U8)), (''total_bytes'', Prim U32),
     (''raw_bytes'', Prim U32)]"

definition MpHistDate :: ctype where
  "MpHistDate = Struct [
     (''date'', chars 9), (''stations'', Prim U8), (''_r'', Arr 2 (Prim U8)),
     (''bytes'', Prim U32)]"

definition MpHFetch :: ctype where
  "MpHFetch = Struct [
     (''date'', chars 9), (''_r'', Arr 3 (Prim U8)), (''gen'', Prim U32)]"

definition MpVHistReq :: ctype where
  "MpVHistReq = Struct [
     (''key'', Prim U32)]"

definition MpData :: ctype where
  "MpData = Struct [
     (''station'', chars 24)]"

definition MpRecReq :: ctype where
  "MpRecReq = Struct [
     (''station'', chars 24), (''ch'', Prim U8), (''_r'', Arr 3 (Prim U8)),
     (''rec_id'', Prim U64)]"

definition MpRecData :: ctype where
  "MpRecData = Struct [
     (''rec_id'', Prim U64), (''total'', Prim U32), (''offset'', Prim U32), (''n'', Prim U32)]"

definition PktAuthReq :: ctype where
  "PktAuthReq = Struct [
     (''id'', chars 32), (''pw'', chars 64), (''tier'', Prim U8)]"

definition PktAuthAck :: ctype where
  "PktAuthAck = Struct [
     (''ok'', Prim U8), (''op_index'', Prim U8), (''reason'', chars 48)]"

definition PktFftFrame :: ctype where
  "PktFftFrame = Struct [
     (''center_freq_hz'', Prim U64), (''sample_rate'', Prim U32), (''fft_size'', Prim U32),
     (''power_min'', Prim F32), (''power_max'', Prim F32), (''wall_time'', Prim I64),
     (''iq_write_sample'', Prim I64), (''iq_total_samples'', Prim I64)]"

definition PktFftMeta :: ctype where
  "PktFftMeta = Struct [
     (''fft_input_size'', Prim U32), (''fft_size'', Prim U32)]"

definition PktAudioFrame :: ctype where
  "PktAudioFrame = Struct [
     (''ch_idx'', Prim U8), (''pan'', Prim U8), (''n_samples'', Prim U32)]"

definition cmd_args :: "(string \<times> ctype) list" where
  "cmd_args = [
     (''set_freq'', natural [(''cf_mhz'', Prim F32)]),
     (''set_gain'', natural [(''db'', Prim F32)]),
     (''create_ch'', natural [(''idx'', Prim U8), (''s'', Prim F32), (''e'', Prim F32)]),
     (''delete_ch'', natural [(''idx'', Prim U8)]),
     (''set_ch_mode'', natural [(''idx'', Prim U8), (''mode'', Prim U8)]),
     (''set_ch_audio'', natural [(''idx'', Prim U8), (''mask'', Prim U32)]),
     (''start_rec'', natural [(''ch_idx'', Prim U8)]),
     (''set_ch_pan'', natural [(''idx'', Prim U8), (''pan'', Prim I8)]),
     (''set_sq_thresh'', natural [(''idx'', Prim U8), (''thr'', Prim F32)]),
     (''set_autoscale'', natural [(''dummy'', Prim U8)]),
     (''toggle_recv'', natural [(''idx'', Prim U8), (''enable'', Prim U8)]),
     (''update_ch_range'', natural [(''idx'', Prim U8), (''s'', Prim F32), (''e'', Prim F32)]),
     (''toggle_tm_iq'', natural [(''dummy'', Prim U8)]),
     (''set_capture_pause'', natural [(''pause'', Prim U8)]),
     (''set_spectrum_pause'', natural [(''pause'', Prim U8)]),
     (''request_region'', natural [(''fft_top'', Prim I32), (''fft_bot'', Prim I32),
        (''freq_lo'', Prim F32), (''freq_hi'', Prim F32), (''time_start_ms'', Prim I64),
        (''time_end_ms'', Prim I64), (''samp_start'', Prim I64), (''samp_end'', Prim I64)]),
     (''set_fft_size'', natural [(''size'', Prim U32)]),
     (''set_sr'', natural [(''msps'', Prim F32)]),
     (''start_iq_rec'', natural [(''idx'', Prim U8)]),
     (''stop_iq_rec'', natural [(''idx'', Prim U8)]),
     (''set_antenna'', natural [(''antenna'', chars 32)]),
     (''add_sched'', natural [(''start_time'', Prim I64), (''duration_sec'', Prim F32),
        (''freq_mhz'', Prim F32), (''bw_khz'', Prim F32), (''target'', chars 32)]),
     (''remove_sched'', natural [(''start_time'', Prim I64), (''freq_mhz'', Prim F32)]),
     (''set_hw'', natural [(''name'', chars 16)]),
     (''toggle_fft_recv'', natural [(''enable'', Prim U8)]),
     (''set_ch_detect'', natural [(''idx'', Prim U8), (''enable'', Prim U8)]),
     (''df_measure'', natural [(''dnum'', Prim U8), (''origin'', Prim U8)]),
     (''df_set_snr'', natural [(''snr_db'', Prim I8)])]"

definition PktCmd :: ctype where
  "PktCmd = Struct [
     (''cmd'', Prim U8), (''pad'', Arr 3 (Prim U8)), (''raw'', Arr 64 (Prim U8))]"

definition PktCmdAck :: ctype where
  "PktCmdAck = Struct [
     (''ok'', Prim U8), (''cmd'', Prim U8), (''msg'', chars 32)]"

definition PktChat :: ctype where
  "PktChat = Struct [
     (''from'', chars 32), (''msg'', chars 256)]"

definition PktStatus :: ctype where
  "PktStatus = Struct [
     (''cf_mhz'', Prim F32), (''gain_db'', Prim F32), (''sample_rate'', Prim U32),
     (''hw_type'', Prim U8), (''pad'', Arr 3 (Prim U8))]"

definition OpEntry :: ctype where
  "OpEntry = Struct [
     (''index'', Prim U8), (''tier'', Prim U8), (''name'', chars 32)]"

definition PktOperatorList :: ctype where
  "PktOperatorList = Struct [
     (''count'', Prim U8), (''ops'', Arr 16 OpEntry)]"

definition ChSyncEntry :: ctype where
  "ChSyncEntry = Struct [
     (''idx'', Prim U8), (''active'', Prim U8), (''s'', Prim F32), (''e'', Prim F32),
     (''mode'', Prim U8), (''pan'', Prim I8), (''audio_mask'', Prim U32),
     (''sq_threshold'', Prim F32), (''sq_sig'', Prim F32), (''sq_gate'', Prim U8),
     (''dem_paused'', Prim U8), (''det_state'', Prim U8), (''_pad2'', Prim U8),
     (''owner_name'', chars 32), (''iq_rec_secs'', Prim U32), (''audio_rec_secs'', Prim U32),
     (''iq_rec_on'', Prim U8), (''audio_rec_on'', Prim U8), (''_pad3'', Arr 2 (Prim U8)),
     (''dec_count'', Prim U32), (''dec_runtime_s'', Prim U32)]"

definition PktChannelSync :: ctype where
  "PktChannelSync = Struct [
     (''ch'', Arr 50 ChSyncEntry)]"

definition SchedSyncEntry :: ctype where
  "SchedSyncEntry = Struct [
     (''valid'', Prim U8), (''status'', Prim U8), (''op_index'', Prim U8), (''_pad'', Prim U8),
     (''start_time'', Prim I64), (''duration_sec'', Prim F32), (''freq_mhz'', Prim F32),
     (''bw_khz'', Prim F32), (''operator_name'', chars 32), (''target'', chars 32),
     (''mission_year'', Prim U16), (''mission_code'', chars 8), (''sr_hz'', Prim U32),
     (''_pad2'', Arr 2 (Prim U8))]"

definition PktSchedSync :: ctype where
  "PktSchedSync = Struct [
     (''count'', Prim U8), (''_pad'', Arr 3 (Prim U8)), (''entries'', Arr 32 SchedSyncEntry)]"

definition PktBandEntry :: ctype where
  "PktBandEntry = Struct [
     (''valid'', Prim U8), (''category'', Prim U8), (''_pad'', Arr 2 (Prim U8)),
     (''freq_lo_mhz'', Prim F32), (''freq_hi_mhz'', Prim F32), (''label'', chars 24),
     (''description'', chars 128)]"

definition PktBandPlan :: ctype where
  "PktBandPlan = Struct [
     (''count'', Prim U16), (''_pad'', Arr 2 (Prim U8)), (''entries'', Arr 128 PktBandEntry)]"

definition PktBandRemove :: ctype where
  "PktBandRemove = Struct [
     (''freq_lo_mhz'', Prim F32), (''freq_hi_mhz'', Prim F32)]"

definition PktBandCategory :: ctype where
  "PktBandCategory = Struct [
     (''id'', Prim U8), (''valid'', Prim U8), (''r'', Prim U8), (''g'', Prim U8),
     (''b'', Prim U8), (''_pad'', Arr 3 (Prim U8)), (''name'', chars 24)]"

definition PktBandCatSync :: ctype where
  "PktBandCatSync = Struct [
     (''count'', Prim U16), (''_pad'', Arr 2 (Prim U8)), (''entries'', Arr 64 PktBandCategory)]"

definition PktBandCatDelete :: ctype where
  "PktBandCatDelete = Struct [
     (''id'', Prim U8), (''_pad'', Arr 3 (Prim U8))]"

definition LwfFileEntry :: ctype where
  "LwfFileEntry = Struct [
     (''filename'', chars 64), (''size_bytes'', Prim U64), (''start_utc'', Prim U64),
     (''center_freq_hz'', Prim U64), (''sample_rate_hz'', Prim U64), (''fft_size'', Prim U32),
     (''num_rows'', Prim U32), (''station_name'', chars 32), (''station_lat'', Prim F32),
     (''station_lon'', Prim F32)]"

definition PktLwfList :: ctype where
  "PktLwfList = Struct [
     (''count'', Prim U16), (''_pad'', Arr 2 (Prim U8)), (''entries'', Arr 64 LwfFileEntry)]"

definition PktLwfDlReq :: ctype where
  "PktLwfDlReq = Struct [
     (''filename'', chars 64)]"

definition PktLwfDlData :: ctype where
  "PktLwfDlData = Struct [
     (''filename'', chars 64), (''total_bytes'', Prim U64), (''offset'', Prim U64),
     (''chunk_bytes'', Prim U32), (''is_first'', Prim U8), (''is_last'', Prim U8),
     (''_pad'', Arr 6 (Prim U8))]"

definition PktLwfLiveStart :: ctype where
  "PktLwfLiveStart = Struct [
     (''filename'', chars 64), (''fft_size'', Prim U32), (''fft_input_size'', Prim U32),
     (''sample_rate_hz'', Prim U64), (''center_freq_hz'', Prim U64), (''row_rate_hz'', Prim F32),
     (''db_min'', Prim F32), (''db_max'', Prim F32), (''start_utc_unix'', Prim U64),
     (''station_lon'', Prim F32), (''utc_offset_hours'', Prim I32), (''station_name'', chars 32),
     (''station_lat'', Prim F32), (''fft_row_rate_hz'', Prim F32)]"

definition PktLwfLiveRowHdr :: ctype where
  "PktLwfLiveRowHdr = Struct [
     (''filename'', chars 64), (''row_index'', Prim U32)]"

definition PktLwfLiveStop :: ctype where
  "PktLwfLiveStop = Struct [
     (''filename'', chars 64)]"

definition PktWfEvent :: ctype where
  "PktWfEvent = Struct [
     (''fft_idx_offset'', Prim I32), (''wall_time'', Prim I64), (''type'', Prim U8),
     (''label'', chars 32)]"

definition PktRegionResponse :: ctype where
  "PktRegionResponse = Struct [
     (''allowed'', Prim U8), (''pad'', Arr 3 (Prim U8))]"

definition PktFileMeta :: ctype where
  "PktFileMeta = Struct [
     (''filename'', chars 128), (''total_bytes'', Prim U64), (''transfer_id'', Prim U8)]"

definition PktFileData :: ctype where
  "PktFileData = Struct [
     (''transfer_id'', Prim U8), (''is_last'', Prim U8), (''chunk_bytes'', Prim U32),
     (''offset'', Prim U64)]"

definition PktDiskStat :: ctype where
  "PktDiskStat = Struct [
     (''source'', Prim U8), (''_pad'', Arr 7 (Prim U8)), (''free_bytes'', Prim U64),
     (''total_bytes'', Prim U64), (''station'', chars 64)]"

definition PktDfConfig :: ctype where
  "PktDfConfig = Struct [
     (''radius_m'', Prim F32), (''heading_deg'', Prim F32), (''snr_thr_db'', Prim F32),
     (''dc_guard_hz'', Prim F32), (''c_papr'', Prim F32), (''target_looks'', Prim U16),
     (''fft_size'', Prim U16), (''elements'', Prim U8), (''algo'', Prim U8),
     (''sense'', Prim U8), (''avg_frames'', Prim U8), (''max_frames'', Prim U8),
     (''signal_dim'', Prim U8), (''enable_control'', Prim U8), (''gain_idx'', Prim U8),
     (''array_type'', Prim U8), (''mrc'', Prim U8), (''_pad'', Arr 6 (Prim U8)),
     (''elem_x'', Arr 8 (Prim F32)), (''elem_y'', Arr 8 (Prim F32))]"

definition PktDfCalib :: ctype where
  "PktDfCalib = Struct [
     (''cmd'', Prim U8), (''n'', Prim U8), (''elements'', Prim U8), (''active'', Prim U8),
     (''arg_deg'', Prim F32), (''freq_hz'', Prim F64), (''worst_dev_db'', Prim F32),
     (''bearing'', Arr 36 (Prim F32)), (''measured'', Arr 36 (Prim F32)),
     (''snr_db'', Arr 36 (Prim F32)), (''err'', chars 64)]"

definition PktDfResult :: ctype where
  "PktDfResult = Struct [
     (''kind'', Prim U8), (''dnum'', Prim U8), (''elements'', Prim U8), (''algo'', Prim U8),
     (''overdrive_mask'', Prim U8), (''has_spectrum'', Prim U8), (''frames_used'', Prim U8),
     (''frames_discarded'', Prim U8), (''origin'', Prim U8), (''imbalance'', Prim U8),
     (''alt_n'', Prim U8), (''_rsv'', Prim U8), (''bearing_deg'', Prim F32),
     (''bearing_rel_deg'', Prim F32), (''snr_db'', Prim F32), (''conf_db'', Prim F32),
     (''algo_papr_db'', Prim F32), (''power_dbfs'', Prim F32), (''cf_mhz'', Prim F32),
     (''bw_khz'', Prim F32), (''eff_bw_khz'', Prim F32), (''n_eff_looks'', Prim F32),
     (''ambiguity'', Prim F32), (''diag_spread_db'', Prim F32), (''alt_deg'', Arr 2 (Prim F32)),
     (''alt_db'', Arr 2 (Prim F32)), (''station_lat'', Prim F32), (''station_lon'', Prim F32),
     (''t_end_ms'', Prim I64), (''dur_ms'', Prim U16), (''_rsv2'', Arr 2 (Prim U8)),
     (''note'', chars 64)]"

definition PktDfStatus :: ctype where
  "PktDfStatus = Struct [
     (''link'', Prim U8), (''usable'', Prim U8), (''sync_state'', Prim U8),
     (''delay_sync'', Prim U8), (''iq_sync'', Prim U8), (''noise_src'', Prim U8),
     (''channels'', Prim U8), (''overdrive'', Prim U8), (''measuring'', Prim U8),
     (''progress_pct'', Prim U8), (''meas_dnum'', Prim U8), (''_rsv'', Prim U8),
     (''daq_cf_mhz'', Prim F32), (''daq_fs_msps'', Prim F32), (''frame_rate_hz'', Prim F32),
     (''recv_mbps'', Prim F32), (''lambda_m'', Prim F32), (''ambiguity'', Prim F32),
     (''frames_ok'', Prim U32), (''frames_cal'', Prim U32), (''frames_bad'', Prim U32),
     (''gaps'', Prim U32), (''reconnects'', Prim U32), (''gain_tenths'', Arr 8 (Prim U16)),
     (''hw_id'', chars 20), (''last_error'', chars 64)]"

definition PktHeartbeat :: ctype where
  "PktHeartbeat = Struct [
     (''host_state'', Prim U8), (''sdr_temp_c'', Prim U8), (''sdr_state'', Prim U8),
     (''iq_on'', Prim U8), (''host_cpu_pct'', Prim U8), (''host_ram_pct'', Prim U8),
     (''host_cpu_temp_c'', Prim U8), (''host_bat_pct'', Prim U8), (''antenna'', chars 32),
     (''sdr_kind'', chars 16), (''host_up_x100'', Prim U32), (''host_bat_ac'', Prim U8),
     (''df_snr_thr'', Prim I8), (''df_state'', Prim U8), (''uplink_kind'', Prim U8),
     (''uplink_bars'', Prim U8)]"

definition PktIqChunkHdr :: ctype where
  "PktIqChunkHdr = Struct [
     (''req_id'', Prim U32), (''seq'', Prim U32), (''filename'', chars 128),
     (''filesize'', Prim U64), (''data_len'', Prim U32), (''sample_rate'', Prim U32)]"

definition PktIqProgress :: ctype where
  "PktIqProgress = Struct [
     (''req_id'', Prim U32), (''filename'', chars 128), (''done'', Prim U64),
     (''total'', Prim U64), (''phase'', Prim U8)]"

definition PktReportAdd :: ctype where
  "PktReportAdd = Struct [
     (''filename'', chars 128), (''reporter'', chars 32), (''info_data'', chars 1024)]"

definition PktDbSaveMeta :: ctype where
  "PktDbSaveMeta = Struct [
     (''filename'', chars 128), (''total_bytes'', Prim U64), (''transfer_id'', Prim U8),
     (''operator_name'', chars 32), (''info_data'', chars 1024)]"

definition PktDbSaveData :: ctype where
  "PktDbSaveData = Struct [
     (''transfer_id'', Prim U8), (''is_last'', Prim U8), (''chunk_bytes'', Prim U32)]"

definition DbFileEntry :: ctype where
  "DbFileEntry = Struct [
     (''filename'', chars 128), (''size_bytes'', Prim U64), (''operator_name'', chars 32),
     (''info_data'', chars 1024)]"

definition PktDbList :: ctype where
  "PktDbList = Struct [
     (''count'', Prim U16)]"

definition PktDbDownloadReq :: ctype where
  "PktDbDownloadReq = Struct [
     (''filename'', chars 128), (''operator_name'', chars 32)]"

definition PktDbDownloadData :: ctype where
  "PktDbDownloadData = Struct [
     (''filename'', chars 128), (''total_bytes'', Prim U64), (''chunk_bytes'', Prim U32),
     (''is_first'', Prim U8), (''is_last'', Prim U8)]"

definition PktDbDownloadInfo :: ctype where
  "PktDbDownloadInfo = Struct [
     (''filename'', chars 128), (''info_data'', chars 1024)]"

definition PktDbDeleteReq :: ctype where
  "PktDbDeleteReq = Struct [
     (''filename'', chars 128), (''operator_name'', chars 32)]"

definition PktDbSetNote :: ctype where
  "PktDbSetNote = Struct [
     (''filename'', chars 128), (''note'', chars 256)]"

definition PktEmitterEntry :: ctype where
  "PktEmitterEntry = Struct [
     (''emitter_uid'', chars 16), (''display_name'', chars 64), (''freq_center_mhz'', Prim F32),
     (''freq_tolerance_khz'', Prim F32), (''bw_khz'', Prim F32), (''modulation'', chars 16),
     (''protocol'', chars 16), (''tags_id'', chars 32), (''first_seen_utc'', Prim I64),
     (''last_seen_utc'', Prim I64), (''sighting_count'', Prim U32),
     (''contributing_stations'', chars 128), (''operator_notes'', chars 512)]"

definition PktEmitterListReq :: ctype where
  "PktEmitterListReq = Struct [
     (''offset'', Prim U16), (''limit'', Prim U16)]"

definition PktEmitterList :: ctype where
  "PktEmitterList = Struct [
     (''total_count'', Prim U16), (''offset'', Prim U16), (''count'', Prim U16),
     (''_pad'', Arr 2 (Prim U8))]"

definition PktEmitterUpsert :: ctype where
  "PktEmitterUpsert = Struct [
     (''emitter_uid'', chars 16), (''display_name'', chars 64), (''freq_center_mhz'', Prim F32),
     (''freq_tolerance_khz'', Prim F32), (''bw_khz'', Prim F32), (''modulation'', chars 16),
     (''protocol'', chars 16), (''tags_id'', chars 32), (''operator_notes'', chars 512),
     (''editor'', chars 32)]"

definition PktEmitterDelete :: ctype where
  "PktEmitterDelete = Struct [
     (''emitter_uid'', chars 16)]"

definition PktSightingEntry :: ctype where
  "PktSightingEntry = Struct [
     (''sighting_id'', chars 16), (''filename'', chars 128), (''reporter'', chars 32),
     (''station'', chars 32), (''freq_mhz'', Prim F32), (''bw_khz'', Prim F32),
     (''modulation'', chars 16), (''protocol'', chars 16), (''start_utc'', Prim I64),
     (''duration_s'', Prim U32), (''emitter_uid'', chars 16), (''match_status'', Prim U8),
     (''_pad'', Arr 3 (Prim U8))]"

definition PktSightingListReq :: ctype where
  "PktSightingListReq = Struct [
     (''emitter_uid'', chars 16), (''offset'', Prim U16), (''limit'', Prim U16)]"

definition PktSightingList :: ctype where
  "PktSightingList = Struct [
     (''emitter_uid_filter'', chars 16), (''total_count'', Prim U16), (''offset'', Prim U16),
     (''count'', Prim U16), (''_pad'', Arr 2 (Prim U8))]"

definition PktSightingLink :: ctype where
  "PktSightingLink = Struct [
     (''sighting_id'', chars 16), (''emitter_uid'', chars 16), (''action'', Prim U8),
     (''_pad'', Arr 3 (Prim U8)), (''editor'', chars 32)]"

definition MissionSyncEntry :: ctype where
  "MissionSyncEntry = Struct [
     (''valid'', Prim U8), (''state'', Prim U8), (''op_index'', Prim U8),
     (''rollover'', Prim U8), (''year'', Prim U16), (''_pad'', Prim U16), (''code'', chars 8),
     (''start_utc'', Prim I64), (''end_utc'', Prim I64), (''started_by'', chars 32),
     (''station_name'', chars 64), (''host_name'', chars 32), (''lat'', Prim F32),
     (''lon'', Prim F32), (''sdr_kind'', chars 24), (''antenna'', chars 64)]"

definition PktMissionSync :: ctype where
  "PktMissionSync = Struct [
     (''active_valid'', Prim U8), (''_pad'', Arr 3 (Prim U8)), (''history_count'', Prim U16),
     (''_pad2'', Prim U16), (''active'', MissionSyncEntry),
     (''entries'', Arr 32 MissionSyncEntry)]"

definition PktMissionSyncReq :: ctype where
  "PktMissionSyncReq = Struct [
     (''station'', chars 64)]"

definition PktMissionSyncFor :: ctype where
  "PktMissionSyncFor = Struct [
     (''station'', chars 64), (''found'', Prim U8), (''_pad'', Arr 3 (Prim U8)),
     (''sync'', PktMissionSync)]"

definition PktHistStatReq :: ctype where
  "PktHistStatReq = Struct [
     (''station'', chars 64), (''year'', Prim U32), (''code'', chars 8),
     (''start_utc_unix'', Prim U64), (''req_id'', Prim U8), (''_pad'', Arr 7 (Prim U8))]"

definition PktHistStat :: ctype where
  "PktHistStat = Struct [
     (''station'', chars 64), (''year'', Prim U32), (''code'', chars 8),
     (''start_utc_unix'', Prim U64), (''num_rows'', Prim U64), (''size_bytes'', Prim U64),
     (''fft_size'', Prim U32), (''row_rate_hz'', Prim F32), (''version'', Prim U16),
     (''found'', Prim U8), (''req_id'', Prim U8), (''filename'', chars 128),
     (''_pad'', Arr 4 (Prim U8))]"

definition PktMissionStart :: ctype where
  "PktMissionStart = Struct [
     (''op_index'', Prim U8), (''_pad'', Arr 3 (Prim U8))]"

definition PktMissionEnd :: ctype where
  "PktMissionEnd = Struct [
     (''op_index'', Prim U8), (''_pad'', Arr 3 (Prim U8))]"

definition PktMissionUpdate :: ctype where
  "PktMissionUpdate = Struct [
     (''code'', chars 8), (''year'', Prim U16), (''_pad'', Arr 2 (Prim U8)),
     (''name'', chars 64), (''purpose'', chars 128), (''target'', chars 64),
     (''notes'', chars 256), (''op_index'', Prim U8), (''_pad2'', Arr 3 (Prim U8))]"

definition PktMissionListReq :: ctype where
  "PktMissionListReq = Struct [
     (''_pad'', Arr 4 (Prim U8))]"

definition PktMissionDelete :: ctype where
  "PktMissionDelete = Struct [
     (''year'', Prim U16), (''_pad'', Arr 2 (Prim U8)), (''code'', chars 8),
     (''op_index'', Prim U8), (''_pad2'', Arr 3 (Prim U8))]"

definition MissionFileKey :: ctype where
  "MissionFileKey = Struct [
     (''station'', chars 64), (''year'', Prim U16), (''subdir'', Prim U8), (''_pad'', Prim U8),
     (''code'', chars 8), (''filename'', chars 128)]"

definition PktMissionFilePushMeta :: ctype where
  "PktMissionFilePushMeta = Struct [
     (''key'', MissionFileKey), (''total_bytes'', Prim U64), (''transfer_id'', Prim U8),
     (''mode'', Prim U8), (''_pad'', Arr 2 (Prim U8)), (''info_data'', chars 1024)]"

definition PktMissionFilePushData :: ctype where
  "PktMissionFilePushData = Struct [
     (''transfer_id'', Prim U8), (''is_last'', Prim U8), (''_pad'', Arr 2 (Prim U8)),
     (''offset'', Prim U64), (''chunk_bytes'', Prim U32), (''_pad2'', Arr 4 (Prim U8))]"

definition PktMissionFileListReq :: ctype where
  "PktMissionFileListReq = Struct [
     (''station'', chars 64), (''year'', Prim U16), (''subdir'', Prim U8), (''_pad'', Prim U8),
     (''code'', chars 8)]"

definition MissionFileEntry :: ctype where
  "MissionFileEntry = Struct [
     (''station'', chars 64), (''year'', Prim U16), (''subdir'', Prim U8), (''_pad'', Prim U8),
     (''code'', chars 8), (''filename'', chars 128), (''size_bytes'', Prim U64),
     (''mtime_unix'', Prim I64), (''operator_name'', chars 32), (''note'', chars 256)]"

definition PktMissionFileList :: ctype where
  "PktMissionFileList = Struct [
     (''count'', Prim U16), (''is_last_page'', Prim U8), (''_pad'', Prim U8),
     (''entries'', Arr 32 MissionFileEntry)]"

definition PktMissionFileDlReq :: ctype where
  "PktMissionFileDlReq = Struct [
     (''key'', MissionFileKey), (''start_offset'', Prim U64)]"

definition PktMissionFileDlData :: ctype where
  "PktMissionFileDlData = Struct [
     (''key'', MissionFileKey), (''total_bytes'', Prim U64), (''offset'', Prim U64),
     (''chunk_bytes'', Prim U32), (''is_first'', Prim U8), (''is_last'', Prim U8),
     (''_pad'', Arr 2 (Prim U8)), (''info_data'', chars 1024)]"

definition PktMissionFileDelete :: ctype where
  "PktMissionFileDelete = Struct [
     (''key'', MissionFileKey)]"

definition PktMissionFileSetNote :: ctype where
  "PktMissionFileSetNote = Struct [
     (''key'', MissionFileKey), (''note'', chars 256)]"

definition PktMissionFileRename :: ctype where
  "PktMissionFileRename = Struct [
     (''key'', MissionFileKey), (''new_filename'', chars 128)]"

definition PktMissionFilePushAck :: ctype where
  "PktMissionFilePushAck = Struct [
     (''key'', MissionFileKey), (''transfer_id'', Prim U8), (''status'', Prim U8),
     (''_pad'', Arr 2 (Prim U8)), (''total_bytes'', Prim U64), (''error_msg'', chars 64)]"

definition PktDbSaveFromArchive :: ctype where
  "PktDbSaveFromArchive = Struct [
     (''key'', MissionFileKey), (''operator_name'', chars 32)]"

section \<open>Packets of central_proto.hpp\<close>

definition CentralPktType :: "(string \<times> u8) list" where
  "CentralPktType = [
     (''HOST_OPEN'', 0x01), (''HOST_HB'', 0x02), (''JOIN_ROOM'', 0x10), (''LIST_REQ'', 0x20),
     (''LIST_RESP'', 0x21), (''LIST_REQ_V2'', 0x22), (''LIST_RESP_V2'', 0x23),
     (''STATION_DETAIL_REQ'', 0x24), (''STATION_DETAIL_RESP'', 0x25), (''ERROR'', 0xFF)]"

definition CentralMuxType :: "(string \<times> u8) list" where
  "CentralMuxType = [
     (''DATA'', 0x01), (''CONN_OPEN'', 0x02), (''CONN_CLOSE'', 0x03), (''NET_RESET'', 0x04),
     (''HOST_STATE'', 0x05)]"

definition CentralPktHdr :: ctype where
  "CentralPktHdr = Struct [
     (''magic'', Arr 4 (Prim U8)), (''type'', Prim U8), (''len'', Prim U32)]"

definition CentralHostOpen :: ctype where
  "CentralHostOpen = Struct [
     (''station_id'', chars 32), (''station_name'', chars 64), (''lat'', Prim F32),
     (''lon'', Prim F32), (''host_tier'', Prim U8), (''user_count'', Prim U8),
     (''_pad'', Arr 2 (Prim U8))]"

definition CentralHostHb :: ctype where
  "CentralHostHb = Struct [
     (''user_count'', Prim U8)]"

definition CentralJoinRoom :: ctype where
  "CentralJoinRoom = Struct [
     (''station_id'', chars 32)]"

definition CentralMuxHdr :: ctype where
  "CentralMuxHdr = Struct [
     (''conn_id'', Prim U16), (''type'', Prim U8), (''len'', Prim U32)]"

definition CentralStation :: ctype where
  "CentralStation = Struct [
     (''station_id'', chars 32), (''station_name'', chars 64), (''lat'', Prim F32),
     (''lon'', Prim F32), (''host_tier'', Prim U8), (''user_count'', Prim U8),
     (''_pad'', Arr 2 (Prim U8))]"

definition CentralListResp :: ctype where
  "CentralListResp = Struct [
     (''count'', Prim U16), (''lan_ip_count'', Prim U8), (''lan_ips'', Arr 8 (chars 16))]"

definition CentralError :: ctype where
  "CentralError = Struct [
     (''msg'', chars 64)]"

definition CentralHostStateChannel :: ctype where
  "CentralHostStateChannel = Struct [
     (''active'', Prim U8), (''mode'', Prim U8), (''iq_rec_on'', Prim U8),
     (''audio_rec_on'', Prim U8), (''dem_run'', Prim U8), (''_pad'', Arr 3 (Prim U8)),
     (''s_mhz'', Prim F32), (''e_mhz'', Prim F32), (''owner'', chars 32)]"

definition CentralHostStateFull :: ctype where
  "CentralHostStateFull = Struct [
     (''operator_login'', chars 32), (''center_freq_hz'', Prim U64),
     (''sample_rate_hz'', Prim U32), (''hist_recording'', Prim U8), (''channel_count'', Prim U8),
     (''bat_pct'', Prim U8), (''_pad'', Prim U8), (''channels'', Arr 10 CentralHostStateChannel)]"

definition CentralStationV2 :: ctype where
  "CentralStationV2 = Struct [
     (''station_id'', chars 32), (''station_name'', chars 64), (''lat'', Prim F32),
     (''lon'', Prim F32), (''host_tier'', Prim U8), (''user_count'', Prim U8),
     (''_pad'', Arr 2 (Prim U8)), (''operator_login'', chars 32), (''center_freq_hz'', Prim U64),
     (''sample_rate_hz'', Prim U32), (''hist_recording'', Prim U8), (''channel_count'', Prim U8),
     (''bat_pct'', Prim U8), (''_pad2'', Prim U8)]"

definition CentralStationDetailReq :: ctype where
  "CentralStationDetailReq = Struct [
     (''station_id'', chars 32)]"

definition CentralJoinSummary :: ctype where
  "CentralJoinSummary = Struct [
     (''name'', chars 32), (''tier'', Prim U8), (''authed'', Prim U8), (''conn_id'', Prim U16)]"

definition CentralHostHistInfo :: ctype where
  "CentralHostHistInfo = Struct [
     (''filename'', chars 64), (''start_utc_unix'', Prim U64), (''center_freq_hz'', Prim U64),
     (''sample_rate_hz'', Prim U32), (''fft_size'', Prim U32), (''row_rate_hz'', Prim F32),
     (''_pad'', Arr 4 (Prim U8))]"

text \<open>Packet types and sizes the relay repeats on its own side.\<close>

definition relay_types :: "(string \<times> u8) list" where
  "relay_types = [
     (''IQ_CHUNK'', 0x20), (''IQ_PROGRESS'', 0x21), (''AUTH_REQ'', 0x01), (''AUTH_ACK'', 0x02),
     (''FFT'', 0x03), (''AUDIO'', 0x04), (''CMD'', 0x05), (''STATUS'', 0x08),
     (''OP_LIST'', 0x09), (''CH_SYNC'', 0x0A), (''HEARTBEAT'', 0x14), (''DISK_STAT'', 0x15),
     (''DB_SAVE_META'', 0x24), (''DB_SAVE_DATA'', 0x25), (''DB_LIST'', 0x26),
     (''DB_DL_REQ'', 0x27), (''DB_DL_DATA'', 0x28), (''DB_DELETE'', 0x29),
     (''DB_SET_NOTE'', 0x2A), (''DB_DL_INFO'', 0x2D), (''DB_LIST_REQ'', 0x2E),
     (''SCHED_SYNC'', 0x30), (''LWF_LIVE_START'', 0x3C), (''LWF_LIVE_ROW'', 0x3D),
     (''LWF_LIVE_STOP'', 0x3E), (''LWF_LIVE_REQ'', 0x3F), (''RPT_ADD'', 0x23),
     (''EMITTER_LIST_REQ'', 0x41), (''EMITTER_LIST'', 0x42), (''EMITTER_UPSERT'', 0x43),
     (''EMITTER_DELETE'', 0x44), (''SIGHTING_LIST_REQ'', 0x45), (''SIGHTING_LIST'', 0x46),
     (''SIGHTING_LINK'', 0x47), (''MISSION_SYNC'', 0x48), (''MISSION_START'', 0x49),
     (''MISSION_END'', 0x4A), (''MISSION_UPDATE'', 0x4B), (''MISSION_LIST_REQ'', 0x4C),
     (''MISSION_DELETE'', 0x4D), (''MISSION_FILE_PUSH_META'', 0x4E),
     (''MISSION_FILE_PUSH_DATA'', 0x4F), (''MISSION_FILE_LIST_REQ'', 0x50),
     (''MISSION_FILE_LIST'', 0x51), (''MISSION_FILE_DL_REQ'', 0x52),
     (''MISSION_FILE_DL_DATA'', 0x53), (''MISSION_FILE_DELETE'', 0x54),
     (''MISSION_FILE_RENAME'', 0x55), (''MISSION_FILE_PUSH_ACK'', 0x56),
     (''MISSION_FILE_SET_NOTE'', 0x57), (''MISSION_SYNC_REQ'', 0x5A),
     (''MISSION_SYNC_FOR'', 0x5B), (''HIST_STAT_REQ'', 0x5C), (''HIST_STAT'', 0x5D),
     (''DB_SAVE_FROM_ARCHIVE'', 0x5E), (''CHAT'', 0x07)]"

definition BEWE_HDR_SIZE :: nat where "BEWE_HDR_SIZE = 9"
definition BEWE_AUTH_REQ_SIZE :: nat where "BEWE_AUTH_REQ_SIZE = 97"
definition BEWE_AUTH_ACK_SIZE :: nat where "BEWE_AUTH_ACK_SIZE = 50"
definition BEWE_OP_ENTRY_SIZE :: nat where "BEWE_OP_ENTRY_SIZE = 34"
definition BEWE_MAX_OPERATORS :: nat where "BEWE_MAX_OPERATORS = 16"
definition BEWE_AUDIO_HDR_SIZE :: nat where "BEWE_AUDIO_HDR_SIZE = 6"
definition CH_SYNC_ENTRY_SIZE :: nat where "CH_SYNC_ENTRY_SIZE = 80"
definition CH_SYNC_MASK_OFFSET :: nat where "CH_SYNC_MASK_OFFSET = 12"
definition CH_SYNC_OWNER_OFFSET :: nat where "CH_SYNC_OWNER_OFFSET = 28"
definition MAX_CHANNELS_RELAY :: nat where "MAX_CHANNELS_RELAY = 50"

end
