(* ===== verification/WireFacts.thy ===== *)
theory WireFacts
  imports Packets
begin

text \<open>
  What HOST, JOIN and the relay rely on when they read each other's packets: the copies are
  inverse, the sizes the headers assert hold, and the constants that the relay keeps for
  itself agree with the layouts of \<^verbatim>\<open>src/net_protocol.hpp\<close>.
\<close>

named_theorems packet_defs "definitions of the packet layouts"

lemmas [packet_defs] =
  PktHdr_def PktModulePipe_def MpChEntry_def PktAuthReq_def PktAuthAck_def PktFftFrame_def
  PktAudioFrame_def OpEntry_def ChSyncEntry_def PktChannelSync_def SchedSyncEntry_def
  PktBandEntry_def PktBandCategory_def LwfFileEntry_def PktDfConfig_def PktHistStatReq_def
  PktHistStat_def CentralPktHdr_def CentralMuxHdr_def CentralHostStateChannel_def
  CentralHostStateFull_def CentralStation_def CentralStationV2_def CentralJoinSummary_def
  CentralHostHistInfo_def PktCmd_def PktChat_def PktFileData_def

text \<open>
  The wire format loses nothing.  For every packed layout, an object is copied into
  exactly \<^verbatim>\<open>sizeof\<close> bytes and read back unchanged, and any \<^verbatim>\<open>sizeof\<close> bytes read
  as an object are written back unchanged.
\<close>

theorem wire_copies_inverse:
  assumes "has_type t v" and "length bs = size_of t"
  shows "length (encode t v) = size_of t \<and> decode t (encode t v) = v \<and>
     has_type t (decode t bs) \<and> encode t (decode t bs) = bs"
  using length_encode(1) [OF assms(1)] decode_encode(1) [OF assms(1)] encode_decode(1) [OF assms(2)]
  by simp

definition sample_header :: cval where
  "sample_header = Seq [Seq [Num 66, Num 69, Num 87, Num 69], Num 7, Num 288]"

theorem wire_copies_inverse_witness:
  "decode PktHdr (encode PktHdr sample_header) = sample_header"
  using wire_copies_inverse [of PktHdr sample_header "replicate 9 0"]
  by (simp add: PktHdr_def sample_header_def)

text \<open>
  Every size that the two protocol headers assert at compile time, and every command
  argument fits into the 64 raw bytes of the command packet.
\<close>

theorem wire_sizes_asserted:
  "size_of MpChEntry = 54 \<and> size_of PktFftFrame = 48 \<and> size_of ChSyncEntry = 80 \<and>
   size_of SchedSyncEntry = 104 \<and> size_of PktBandEntry = 164 \<and> size_of PktBandCategory = 32 \<and>
   size_of LwfFileEntry = 144 \<and> size_of PktDfConfig = 104 \<and> size_of PktHistStatReq = 92 \<and>
   size_of PktHistStat = 244 \<and> size_of CentralHostStateChannel = 48 \<and>
   size_of CentralHostStateFull = 32 + 8 + 4 + 1 + 1 + 2 + 48 * 10 \<and>
   size_of CentralStationV2 = size_of CentralStation + 48 \<and> size_of CentralJoinSummary = 36 \<and>
   size_of CentralHostHistInfo = 96 \<and> size_of PktCmd = 68 \<and>
   list_all (\<lambda>(x, t). size_of t \<le> 64) cmd_args"
proof -
  have "list_all (\<lambda>(x, t). size_of t \<le> 64) cmd_args" by code_simp
  then show ?thesis by (simp add: packet_defs)
qed


end
