(* ===== verification/Framing.thy ===== *)
theory Framing
  imports Packets
begin

text \<open>
  BEWE packets on a byte stream: \<^verbatim>\<open>make_packet\<close>, the send and receive loops of
  \<^verbatim>\<open>src/net_protocol.hpp\<close> and \<^verbatim>\<open>central/central_proto.hpp\<close>, and the packet loops
  of the server (\<^verbatim>\<open>src/net_server.cpp\<close>) and of the client
  (\<^verbatim>\<open>src/net_client.cpp\<close>).  A socket is the list of what its system calls will return
  (\<^verbatim>\<open>rx\<close>, \<^verbatim>\<open>tx\<close>); the end of the list is the peer closing the connection.
\<close>

type_synonym packet = "u8 \<times> bytes"

definition BEWE_MAGIC :: bytes where "BEWE_MAGIC = [0x42, 0x45, 0x57, 0x45]"

definition packet_header :: "u8 \<Rightarrow> nat \<Rightarrow> cval" where
  "packet_header type len =
     Seq [Seq (map (\<lambda>b. Num (unat b)) BEWE_MAGIC), Num (unat type), Num len]"

definition make_packet :: "u8 \<Rightarrow> bytes \<Rightarrow> bytes" where
  "make_packet type payload = encode PktHdr (packet_header type (length payload)) @ payload"

section \<open>System calls and byte loops\<close>

text \<open>
  What the next \<^verbatim>\<open>recv\<close> sees: bytes (it takes as many as asked for, the rest stay), a
  timeout with the state of the idle watchdog, an error, or the stop flag of the caller.
\<close>

datatype rx = Data bytes | Again bool | Fail | Stopped

fun recv_all :: "nat \<Rightarrow> rx list \<Rightarrow> bytes option \<times> rx list" where
  "recv_all 0 s = (Some [], s)"
| "recv_all (Suc n) [] = (None, [])"
| "recv_all (Suc n) (Data d # s) =
     (if d = [] then (None, s)
      else if length d \<le> Suc n
      then (let (r, s') = recv_all (Suc n - length d) s in (map_option ((@) d) r, s'))
      else (Some (take (Suc n) d), Data (drop (Suc n) d) # s))"
| "recv_all (Suc n) (_ # s) = (None, s)"

datatype recv_code = Got bytes | Timeout bool | Lost

fun recv_all_ex :: "nat \<Rightarrow> nat \<Rightarrow> rx list \<Rightarrow> recv_code \<times> rx list" where
  "recv_all_ex len 0 s = (Got [], s)"
| "recv_all_ex len (Suc n) [] = (Lost, [])"
| "recv_all_ex len (Suc n) (Stopped # s) = (Lost, Stopped # s)"
| "recv_all_ex len (Suc n) (Data d # s) =
     (if d = [] then (Lost, s)
      else if length d \<le> Suc n
      then (case recv_all_ex len (Suc n - length d) s of
              (Got r, s') \<Rightarrow> (Got (d @ r), s')
            | (c, s') \<Rightarrow> (c, s'))
      else (Got (take (Suc n) d), Data (drop (Suc n) d) # s))"
| "recv_all_ex len (Suc n) (Again idle # s) =
     (if Suc n = len then (Timeout idle, s) else recv_all_ex len (Suc n) s)"
| "recv_all_ex len (Suc n) (Fail # s) = (Lost, s)"

datatype tx = Sent nat | Interrupted | SendFail

text \<open>The bytes that reached the peer, and whether the loop reports success.\<close>

fun send_all :: "bytes \<Rightarrow> tx list \<Rightarrow> bytes \<times> bool" where
  "send_all [] t = ([], True)"
| "send_all b (Sent k # t) =
     (if k = 0 then ([], False)
      else let (out, ok) = send_all (drop k b) t in (take k b @ out, ok))"
| "send_all b _ = ([], False)"

fun central_send_all :: "bytes \<Rightarrow> tx list \<Rightarrow> bytes \<times> bool" where
  "central_send_all [] t = ([], True)"
| "central_send_all b (Sent k # t) =
     (if k = 0 then ([], False)
      else let (out, ok) = central_send_all (drop k b) t in (take k b @ out, ok))"
| "central_send_all b (Interrupted # t) = central_send_all b t"
| "central_send_all b _ = ([], False)"

definition send_packet :: "u8 \<Rightarrow> bytes \<Rightarrow> tx list \<Rightarrow> bytes \<times> bool" where
  "send_packet type payload t = send_all (make_packet type payload) t"

definition central_recv_all :: "nat \<Rightarrow> rx list \<Rightarrow> bytes option \<times> rx list" where
  "central_recv_all n s = recv_all n s"

section \<open>Relay packets\<close>

definition CENTRAL_MAGIC :: bytes where "CENTRAL_MAGIC = [0x42, 0x52, 0x4C, 0x59]"

definition central_packet :: "u8 \<Rightarrow> bytes \<Rightarrow> bytes" where
  "central_packet type payload =
     encode CentralPktHdr (Seq [Seq (map (\<lambda>b. Num (unat b)) CENTRAL_MAGIC), Num (unat type),
       Num (length payload)]) @ payload"

definition mux_frame :: "u16 \<Rightarrow> u8 \<Rightarrow> bytes \<Rightarrow> bytes" where
  "mux_frame conn_id type data =
     encode CentralMuxHdr (Seq [Num (unat conn_id), Num (unat type), Num (length data)]) @ data"

text \<open>Header fields of a received 9-byte header.\<close>

definition hdr_magic :: "bytes \<Rightarrow> bytes" where "hdr_magic h = take 4 h"
definition hdr_type :: "bytes \<Rightarrow> u8" where "hdr_type h = h ! 4"
definition hdr_len :: "bytes \<Rightarrow> nat" where "hdr_len h = le_nat (take 4 (drop 5 h))"

definition central_recv_pkt :: "nat \<Rightarrow> rx list \<Rightarrow> packet option \<times> rx list" where
  "central_recv_pkt max_payload s =
     (case central_recv_all 9 s of
        (None, s) \<Rightarrow> (None, s)
      | (Some h, s) \<Rightarrow>
          if hdr_magic h \<noteq> CENTRAL_MAGIC then (None, s)
          else if hdr_len h > max_payload then (None, s)
          else case central_recv_all (hdr_len h) s of
                 (None, s) \<Rightarrow> (None, s)
               | (Some p, s) \<Rightarrow> (Some (hdr_type h, p), s))"

section \<open>Packet loops\<close>

datatype ending = RecvFail | BadMagic | Oversized | RxIdle

fun rx_size :: "rx list \<Rightarrow> nat" where
  "rx_size [] = 0"
| "rx_size (Data d # s) = Suc (length d) + rx_size s"
| "rx_size (_ # s) = Suc (rx_size s)"

lemma recv_all_size: "recv_all n s = (r, s') \<Longrightarrow> rx_size s' \<le> rx_size s"
  by (induction n s arbitrary: r rule: recv_all.induct)
    (fastforce split: if_splits prod.splits)+

lemma recv_all_less: "recv_all (Suc n) s = (Some r, s') \<Longrightarrow> rx_size s' < rx_size s"
proof (cases s)
  case (Cons a t)
  assume r: "recv_all (Suc n) s = (Some r, s')"
  show ?thesis
  proof (cases a)
    case (Data d)
    then show ?thesis using r Cons recv_all_size [of "Suc n - length d" t]
      by (fastforce split: if_splits prod.splits)
  qed (use r Cons in simp_all)
qed simp

lemma recv_all_9: "recv_all 9 s = (Some r, s') \<Longrightarrow> rx_size s' < rx_size s"
  using recv_all_less [of 8 s r s'] by (simp add: numeral_eq_Suc)

lemma recv_two:
  "(Some h, s1) = recv_all 9 s \<Longrightarrow> (r, s2) = recv_all n s1 \<Longrightarrow> rx_size s2 < rx_size s"
  using recv_all_9 [of s h s1] recv_all_size [of n s1 r s2] by simp

text \<open>The server's loop over a client connection; packets in the order handled.\<close>

function client_loop :: "rx list \<Rightarrow> packet list \<times> ending" where
  "client_loop s =
     (case recv_all 9 s of
        (None, s1) \<Rightarrow> ([], RecvFail)
      | (Some h, s1) \<Rightarrow>
          if hdr_magic h \<noteq> BEWE_MAGIC then ([], BadMagic)
          else if hdr_len h > 1024 * 1024 then ([], Oversized)
          else case recv_all (hdr_len h) s1 of
                 (None, s2) \<Rightarrow> ([], RecvFail)
               | (Some p, s2) \<Rightarrow>
                   let (ps, e) = client_loop s2 in ((hdr_type h, p) # ps, e))"
  by auto
termination
  by (relation "measure rx_size")
    (auto simp: central_recv_all_def intro: recv_two)

declare client_loop.simps [simp del]

text \<open>The relay's loop over a JOIN connection: the same framing without a magic test.\<close>

function join_loop_packets :: "rx list \<Rightarrow> packet list \<times> ending" where
  "join_loop_packets s =
     (case central_recv_all 9 s of
        (None, s1) \<Rightarrow> ([], RecvFail)
      | (Some h, s1) \<Rightarrow>
          if hdr_len h > 4 * 1024 * 1024 then ([], Oversized)
          else case central_recv_all (hdr_len h) s1 of
                 (None, s2) \<Rightarrow> ([], RecvFail)
               | (Some p, s2) \<Rightarrow>
                   let (ps, e) = join_loop_packets s2 in ((hdr_type h, p) # ps, e))"
  by auto
termination
  by (relation "measure rx_size")
    (auto simp: central_recv_all_def intro: recv_two)

declare join_loop_packets.simps [simp del]

text \<open>The client's loop: receive timeouts do not end the connection before the watchdog.\<close>

lemma recv_all_ex_size: "recv_all_ex len n s = (c, s') \<Longrightarrow> rx_size s' \<le> rx_size s"
  by (induction len n s arbitrary: c rule: recv_all_ex.induct)
    (fastforce split: if_splits prod.splits recv_code.splits)+

lemma recv_all_ex_less:
  assumes "recv_all_ex len (Suc n) s = (c, s')" "c \<noteq> Lost"
  shows "rx_size s' < rx_size s"
proof (cases s)
  case (Cons a t)
  show ?thesis
  proof (cases a)
    case (Data d)
    then show ?thesis using assms Cons recv_all_ex_size [of len "Suc n - length d" t]
      by (fastforce split: if_splits prod.splits recv_code.splits)
  next
    case (Again i)
    then show ?thesis using assms Cons recv_all_ex_size [of len "Suc n" t]
      by (fastforce split: if_splits)
  qed (use assms Cons in simp_all)
qed (use assms in simp)

lemma recv_all_ex_9: "recv_all_ex 9 9 s = (c, s') \<Longrightarrow> c \<noteq> Lost \<Longrightarrow> rx_size s' < rx_size s"
  using recv_all_ex_less [of 9 8 s c s'] by (simp add: numeral_eq_Suc)

lemma recv_ex_one: "(c, s1) = recv_all_ex 9 9 s \<Longrightarrow> c \<noteq> Lost \<Longrightarrow> rx_size s1 < rx_size s"
  using recv_all_ex_9 [of s c s1] by simp

lemma recv_ex_two:
  "(Got h, s1) = recv_all_ex 9 9 s \<Longrightarrow> (c, s2) = recv_all_ex m n s1 \<Longrightarrow> rx_size s2 < rx_size s"
  using recv_all_ex_9 [of s "Got h" s1] recv_all_ex_size [of m n s1 c s2] by simp

function recv_loop :: "rx list \<Rightarrow> packet list \<times> ending" where
  "recv_loop s =
     (case recv_all_ex 9 9 s of
        (Timeout idle, s1) \<Rightarrow> if idle then ([], RxIdle) else recv_loop s1
      | (Lost, s1) \<Rightarrow> ([], RecvFail)
      | (Got h, s1) \<Rightarrow>
          if hdr_magic h \<noteq> BEWE_MAGIC then ([], BadMagic)
          else if hdr_len h > 4 * 1024 * 1024 then ([], Oversized)
          else case recv_all_ex (hdr_len h) (hdr_len h) s1 of
                 (Timeout idle, s2) \<Rightarrow> if idle then ([], RxIdle) else recv_loop s2
               | (Lost, s2) \<Rightarrow> ([], RecvFail)
               | (Got p, s2) \<Rightarrow> let (ps, e) = recv_loop s2 in ((hdr_type h, p) # ps, e))"
  by auto
termination
  by (relation "measure rx_size")
    (auto intro: recv_ex_two recv_ex_one)

declare recv_loop.simps [simp del]

end
