(* ===== verification/FramingFacts.thy ===== *)
theory FramingFacts
  imports Framing "HOL-Library.Sublist"
begin

text \<open>
  Correctness of the byte-stream layer: a send loop that reports success has delivered all
  its bytes, a packet loop recovers the packets whatever the segmentation of the stream, and
  the one place where the client's loop gives up alignment.
\<close>

lemma make_packet_bytes: "make_packet t p = BEWE_MAGIC @ [t] @ le_bytes 4 (length p) @ p"
proof -
  have one: "le_bytes 1 (unat b) = [b]" for b :: u8 by (simp add: le_bytes_def)
  have "concat (map (encode (Prim U8)) (map (\<lambda>b. Num (unat b)) bs)) = bs" for bs
    using one by (induction bs) simp_all
  then show ?thesis
    using one by (simp add: make_packet_def packet_header_def PktHdr_def del: One_nat_def)
qed

lemma length_make_packet [simp]: "length (make_packet t p) = 9 + length p"
  by (simp add: make_packet_bytes BEWE_MAGIC_def)

lemma header_fields:
  assumes "take 9 h = take 9 (make_packet t p)" "length p < 2 ^ 32"
  shows "hdr_magic (take 9 h) = BEWE_MAGIC" "hdr_type (take 9 h) = t" "hdr_len (take 9 h) = length p"
  using assms(2) unfolding assms(1) hdr_magic_def hdr_type_def hdr_len_def
  by (simp_all add: make_packet_bytes BEWE_MAGIC_def le_nat_le_bytes)

section \<open>Sending\<close>

text \<open>
  Both send loops put a prefix of the buffer on the wire, in order and without gaps or
  repetition, and report success exactly when all of it was accepted.
\<close>

theorem send_loops_exact:
  "(case send_all b t of (out, ok) \<Rightarrow> prefix out b \<and> ok = (out = b)) \<and>
   (case central_send_all b t of (out, ok) \<Rightarrow> prefix out b \<and> ok = (out = b))"
proof -
  have step: "prefix out (drop k b) \<Longrightarrow> prefix (take k b @ out) b \<and> (take k b @ out = b) = (out = drop k b)"
    for out b :: bytes and k
    by (metis append_take_drop_id same_append_eq same_prefix_prefix)
  have "case send_all b t of (out, ok) \<Rightarrow> prefix out b \<and> ok = (out = b)"
  proof (induction b t rule: send_all.induct)
    case (2 v va k t)
    then show ?case using step [of _ k "v # va"] by (auto split: prod.splits)
  qed auto
  moreover have "case central_send_all b t of (out, ok) \<Rightarrow> prefix out b \<and> ok = (out = b)"
  proof (induction b t rule: central_send_all.induct)
    case (2 v va k t)
    then show ?case using step [of _ k "v # va"] by (auto split: prod.splits)
  qed auto
  ultimately show ?thesis by blast
qed

section \<open>Receiving\<close>

definition segments :: "bytes \<Rightarrow> bytes list \<Rightarrow> bool" where
  "segments bs ds \<longleftrightarrow> concat ds = bs \<and> [] \<notin> set ds"

lemma recv_all_segments:
  assumes "segments bs ds" "n \<le> length bs"
  shows "\<exists>ds'. recv_all n (map Data ds) = (Some (take n bs), map Data ds') \<and> segments (drop n bs) ds'"
  using assms
proof (induction ds arbitrary: n bs)
  case Nil
  then show ?case by (auto simp: segments_def)
next
  case (Cons d ds)
  show ?case
  proof (cases n)
    case 0
    then show ?thesis using Cons.prems by (intro exI [of _ "d # ds"]) simp
  next
    case (Suc m)
    have s: "segments (concat ds) ds" "bs = d @ concat ds" "d \<noteq> []"
      using Cons.prems by (auto simp: segments_def)
    show ?thesis
    proof (cases "length d \<le> n")
      case True
      have le: "n - length d \<le> length (concat ds)"
        using Cons.prems(2) unfolding s(2) length_append by (simp only: le_diff_conv add.commute)
      obtain ds' where "recv_all (n - length d) (map Data ds) = (Some (take (n - length d) (concat ds)), map Data ds')"
        "segments (drop (n - length d) (concat ds)) ds'"
        using Cons.IH [OF s(1), of "n - length d"] le by blast
      then show ?thesis using True Suc s(2,3) by (intro exI [of _ ds']) simp
    next
      case False
      then show ?thesis using Suc s Cons.prems
        by (intro exI [of _ "drop n d # ds"]) (auto simp: segments_def)
    qed
  qed
qed

lemma recv_all_ex_data:
  "recv_all_ex len n (map Data ds) =
     (case recv_all n (map Data ds) of (Some r, s) \<Rightarrow> (Got r, s) | (None, s) \<Rightarrow> (Lost, s))"
proof (induction ds arbitrary: n)
  case Nil
  then show ?case by (cases n) auto
next
  case (Cons d ds)
  then show ?case by (cases n) (auto split: prod.splits option.splits)
qed

definition stream_of :: "packet list \<Rightarrow> bytes" where
  "stream_of ps = concat (map (\<lambda>(t, p). make_packet t p) ps)"

lemma recv_packet:
  assumes "segments (make_packet t p @ rest) ds" "length p < 2 ^ 32"
  shows "\<exists>h ds1 ds2. recv_all 9 (map Data ds) = (Some h, map Data ds1) \<and> hdr_magic h = BEWE_MAGIC \<and>
     hdr_type h = t \<and> hdr_len h = length p \<and> segments (p @ rest) ds1 \<and>
     recv_all (length p) (map Data ds1) = (Some p, map Data ds2) \<and> segments rest ds2"
proof -
  have n: "take 9 (make_packet t p @ rest) = take 9 (make_packet t p)"
    "drop 9 (make_packet t p @ rest) = p @ rest"
    by (simp_all add: make_packet_bytes BEWE_MAGIC_def)
  obtain ds1 where 1: "recv_all 9 (map Data ds) = (Some (take 9 (make_packet t p)), map Data ds1)"
      "segments (p @ rest) ds1"
    using recv_all_segments [OF assms(1), of 9] n by auto
  obtain ds2 where 2: "recv_all (length p) (map Data ds1) = (Some p, map Data ds2)" "segments rest ds2"
    using recv_all_segments [OF 1(2), of "length p"] by auto
  show ?thesis using 1 2 header_fields [OF refl assms(2)] by blast
qed

lemma loops_step:
  assumes "segments (make_packet t p @ rest) ds" "length p \<le> 1024 * 1024"
  obtains ds2 where "segments rest ds2"
    "client_loop (map Data ds) = (let (ps, e) = client_loop (map Data ds2) in ((t, p) # ps, e))"
    "join_loop_packets (map Data ds) = (let (ps, e) = join_loop_packets (map Data ds2) in ((t, p) # ps, e))"
    "recv_loop (map Data ds) = (let (ps, e) = recv_loop (map Data ds2) in ((t, p) # ps, e))"
proof -
  obtain h ds1 ds2 where r: "recv_all 9 (map Data ds) = (Some h, map Data ds1)"
      "hdr_magic h = BEWE_MAGIC" "hdr_type h = t" "hdr_len h = length p"
      "recv_all (length p) (map Data ds1) = (Some p, map Data ds2)" "segments rest ds2"
    using recv_packet [OF assms(1)] assms(2) by auto
  show thesis
  proof (rule that [OF r(6)])
    show "client_loop (map Data ds) = (let (ps, e) = client_loop (map Data ds2) in ((t, p) # ps, e))"
      unfolding client_loop.simps [of "map Data ds"] using r assms(2) by simp
    show "join_loop_packets (map Data ds) = (let (ps, e) = join_loop_packets (map Data ds2) in ((t, p) # ps, e))"
      unfolding join_loop_packets.simps [of "map Data ds"] using r assms(2) by (simp add: central_recv_all_def)
    show "recv_loop (map Data ds) = (let (ps, e) = recv_loop (map Data ds2) in ((t, p) # ps, e))"
      unfolding recv_loop.simps [of "map Data ds"] using r assms(2) by (simp add: recv_all_ex_data)
  qed
qed

lemma loops_nil: "client_loop [] = ([], RecvFail)" "join_loop_packets [] = ([], RecvFail)" "recv_loop [] = ([], RecvFail)"
  by (simp_all add: client_loop.simps [of "[]"] join_loop_packets.simps [of "[]"] recv_loop.simps [of "[]"]
      central_recv_all_def numeral_eq_Suc)

text \<open>
  C9: Framing.  Packets written one after the other and cut into arbitrary non-empty segments
  by the network are handled by the server's, the relay's and the client's loop exactly as
  sent: same types, same payloads, same order, none lost, and the loop ends when the peer
  closes.
\<close>

theorem packets_reassembled:
  assumes "concat ds = stream_of ps" and "[] \<notin> set ds"
    and "\<forall>(t, p)\<in>set ps. length p \<le> 1024 * 1024"
  shows "client_loop (map Data ds) = (ps, RecvFail) \<and>
     join_loop_packets (map Data ds) = (ps, RecvFail) \<and> recv_loop (map Data ds) = (ps, RecvFail)"
proof -
  have "segments (stream_of ps) ds" using assms by (simp add: segments_def)
  then show ?thesis using assms(3)
  proof (induction ps arbitrary: ds)
    case Nil
    then have "ds = []" by (cases ds) (auto simp: segments_def stream_of_def)
    then show ?case by (simp add: loops_nil)
  next
    case (Cons tp ps)
    obtain t p where tp: "tp = (t, p)" by fastforce
    have s: "segments (make_packet t p @ stream_of ps) ds"
      using Cons.prems(1) by (simp add: tp stream_of_def)
    obtain ds2 where d: "segments (stream_of ps) ds2"
      "client_loop (map Data ds) = (let (ps, e) = client_loop (map Data ds2) in ((t, p) # ps, e))"
      "join_loop_packets (map Data ds) = (let (ps, e) = join_loop_packets (map Data ds2) in ((t, p) # ps, e))"
      "recv_loop (map Data ds) = (let (ps, e) = recv_loop (map Data ds2) in ((t, p) # ps, e))"
      using loops_step [OF s] Cons.prems(2) tp by auto
    show ?case using Cons.IH [OF d(1)] Cons.prems(2) d(2-4) tp by simp
  qed
qed

theorem packets_reassembled_witness:
  "client_loop (map Data [take 5 (stream_of [(7, [1, 2])]), drop 5 (stream_of [(7, [1, 2])])])
     = ([(7, [1, 2])], RecvFail)"
proof -
  have "[] \<notin> set [take 5 (stream_of [(7, [1, 2])]), drop 5 (stream_of [(7, [1, 2])])]"
    by (simp add: stream_of_def make_packet_bytes BEWE_MAGIC_def)
  then show ?thesis
    using packets_reassembled [of "[take 5 (stream_of [(7, [1, 2])]), drop 5 (stream_of [(7, [1, 2])])]"
        "[(7, [1, 2])]"] by simp
qed

text \<open>
  The client's loop treats a receive timeout between the header and the first payload
  byte as if nothing had been read: it keeps the connection but has consumed the header, so
  the payload is parsed as the next header, and unless it happens to begin with the magic the
  connection is dropped although the peer sent a correct packet in time.
\<close>

theorem client_timeout_desynchronises:
  assumes "length p \<le> 4 * 1024 * 1024" and "9 \<le> length p" and "take 4 p \<noteq> BEWE_MAGIC"
  shows "recv_loop [Data (take 9 (make_packet t p)), Again False, Data p] = ([], BadMagic)"
proof -
  let ?h = "take 9 (make_packet t p)"
  have l: "length ?h = 9" "?h \<noteq> []" by (simp_all add: make_packet_bytes BEWE_MAGIC_def)
  have h: "hdr_magic ?h = BEWE_MAGIC" "hdr_len ?h = length p"
    using header_fields [of "make_packet t p" t p] assms(1) by auto
  have "recv_all_ex 9 (Suc 8) (Data ?h # s) = (Got ?h, s)" for s
    using l by (simp only: recv_all_ex.simps) (auto split: if_splits)
  then have r1: "recv_all_ex 9 9 (Data ?h # s) = (Got ?h, s)" for s
    by (simp add: numeral_eq_Suc)
  obtain m where m: "length p = Suc m" using assms(2) by (cases "length p") auto
  have r2: "recv_all_ex (length p) (length p) (Again False # s) = (Timeout False, s)" for s
    by (simp add: m)
  have "\<exists>s. recv_all_ex 9 (Suc 8) [Data p] = (Got (take 9 p), s)"
  proof (cases "length p = 9")
    case True
    then show ?thesis by (cases p) (auto simp: numeral_eq_Suc)
  next
    case False
    then have "\<not> length p \<le> Suc 8" using assms(2) by simp
    then show ?thesis using assms(2) by (auto simp: numeral_eq_Suc)
  qed
  then obtain s where r3: "recv_all_ex 9 9 [Data p] = (Got (take 9 p), s)"
    by (auto simp: numeral_eq_Suc)
  have bad: "hdr_magic (take 9 p) \<noteq> BEWE_MAGIC" using assms(3) by (simp add: hdr_magic_def)
  have "recv_loop [Data p] = ([], BadMagic)"
    unfolding recv_loop.simps [of "[Data p]"] r3 using bad by simp
  then show ?thesis
    unfolding recv_loop.simps [of "[Data ?h, Again False, Data p]"] r1 using h assms(1) r2 by simp
qed

theorem client_timeout_desynchronises_witness:
  "recv_loop [Data (take 9 (make_packet 8 (replicate 16 0))), Again False, Data (replicate 16 0)]
     = ([], BadMagic)"
proof (rule client_timeout_desynchronises)
  show "take 4 (replicate 16 0) \<noteq> BEWE_MAGIC"
  proof
    assume "take 4 (replicate 16 0) = BEWE_MAGIC"
    then have "hd (take 4 (replicate 16 (0 :: u8))) = hd BEWE_MAGIC" by simp
    then show False by (simp add: BEWE_MAGIC_def)
  qed
qed simp_all

end
