(* ===== verification/FftCodec.thy ===== *)
theory FftCodec
  imports CrcRegister Complex_Main
begin

text \<open>
  Transport coding of spectrum rows in \<^verbatim>\<open>src/net_protocol.hpp\<close>: the 6-bit packing of the
  8-bit quantised row (\<^verbatim>\<open>u6_pack\<close>, \<^verbatim>\<open>u6_unpack\<close>), the flag bits that share a word
  with the transform size, and the byte-rate meter with its saturating conversion.
\<close>

section \<open>Flags\<close>

definition FFT_FLAG_QUANT_U8 :: u32 where "FFT_FLAG_QUANT_U8 = 0x80000000"
definition FFT_FLAG_ZSTD :: u32 where "FFT_FLAG_ZSTD = 0x40000000"
definition FFT_FLAG_QUANT_U6 :: u32 where "FFT_FLAG_QUANT_U6 = 0x20000000"
definition FFT_FFT_SIZE_MASK :: u32 where "FFT_FFT_SIZE_MASK = 0x1FFFFFFF"

section \<open>Packing\<close>

definition u6_packed_bytes :: "nat \<Rightarrow> nat" where
  "u6_packed_bytes n = (n * 6 + 7) div 8"

definition set_bit_msb :: "bytes \<Rightarrow> nat \<Rightarrow> bytes" where
  "set_bit_msb dst p = dst[p div 8 := dst ! (p div 8) OR drop_bit (p mod 8) 0x80]"

definition get_bit_msb :: "bytes \<Rightarrow> nat \<Rightarrow> bool" where
  "get_bit_msb src p = (src ! (p div 8) AND drop_bit (p mod 8) 0x80 \<noteq> 0)"

definition u6_pack :: "bytes \<Rightarrow> bytes" where
  "u6_pack src =
     foldl (\<lambda>dst i. let v = (ucast (drop_bit 2 (src ! i)) :: u32); b = i * 6
              in foldl (\<lambda>dst k. if v AND push_bit (5 - k) 1 \<noteq> 0 then set_bit_msb dst (b + k) else dst)
                   dst [0..<6])
       (replicate (u6_packed_bytes (length src)) 0) [0..<length src]"

definition u6_unpack :: "bytes \<Rightarrow> nat \<Rightarrow> bytes" where
  "u6_unpack src n =
     map (\<lambda>i. let b = i * 6;
                  v = foldl (\<lambda>v k. let v = push_bit 1 v
                                   in if get_bit_msb src (b + k) then v OR 1 else v) (0 :: u32) [0..<6]
              in ucast (push_bit 2 v OR drop_bit 4 v)) [0..<n]"

section \<open>Rates\<close>

record byte_rate_meter =
  kbps :: real
  started :: bool
  prev_bytes :: nat
  last_time :: real

definition meter_sample :: "byte_rate_meter \<Rightarrow> real \<Rightarrow> nat \<Rightarrow> real \<Rightarrow> byte_rate_meter" where
  "meter_sample m now total_bytes min_win_sec =
     (if \<not> started m then m\<lparr> started := True, last_time := now, prev_bytes := total_bytes \<rparr>
      else let w = now - last_time m
           in if w < min_win_sec then m
              else let d = (if total_bytes \<ge> prev_bytes m then total_bytes - prev_bytes m else 0)
                   in m\<lparr> kbps := real d / w / 1024, last_time := now, prev_bytes := total_bytes \<rparr>)"

definition meter_reset :: "byte_rate_meter \<Rightarrow> byte_rate_meter" where
  "meter_reset m = m\<lparr> started := False, kbps := 0, prev_bytes := 0 \<rparr>"

text \<open>Not a number is no real; infinity is not one either and saturates like any large rate.\<close>

definition kbps_to_x100 :: "real \<Rightarrow> nat" where
  "kbps_to_x100 r =
     (if \<not> r > 0 then 0
      else let x = r * 100 in if x \<ge> 4294967295 then 4294967295 else nat \<lfloor>x\<rfloor>)"

section \<open>Bits of the packed row\<close>

lemma bit_80: "bit (drop_bit k (0x80 :: u8)) j \<longleftrightarrow> k \<le> 7 \<and> j = 7 - k"
proof -
  have "(0x80 :: u8) = push_bit 7 1" by simp
  then show ?thesis by (simp only: bit_drop_bit_eq bit_push_bit_iff o_def) (auto simp: bit_1_iff)
qed

lemma get_bit_msb_bit: "get_bit_msb src p = bit (src ! (p div 8)) (7 - p mod 8)"
proof -
  have "p mod 8 < 8" by simp
  then have "p mod 8 \<le> 7" by simp
  then have "bit (src ! (p div 8) AND drop_bit (p mod 8) 0x80) j =
      (j = 7 - p mod 8 \<and> bit (src ! (p div 8)) (7 - p mod 8))" for j
    by (auto simp: bit_and_iff bit_80)
  then show ?thesis unfolding get_bit_msb_def by (metis bit_0_eq bit_eqI bot_apply bot_bool_def)
qed

lemma same_position: "(p :: nat) = q \<longleftrightarrow> p div 8 = q div 8 \<and> 7 - p mod 8 = 7 - q mod 8"
proof -
  have "p mod 8 < 8" "q mod 8 < 8" by simp_all
  then have "(7 - p mod 8 = 7 - q mod 8) = (p mod 8 = q mod 8)" by linarith
  then show ?thesis by (metis div_mult_mod_eq)
qed

lemma length_set_bit_msb [simp]: "length (set_bit_msb dst p) = length dst"
  by (simp add: set_bit_msb_def)

lemma get_set_bit_msb:
  assumes "p div 8 < length dst"
  shows "get_bit_msb (set_bit_msb dst p) q = (get_bit_msb dst q \<or> p = q)"
proof -
  have "p mod 8 < 8" by simp
  then have m: "p mod 8 \<le> 7" by simp
  show ?thesis
  proof (cases "q div 8 = p div 8")
    case True
    then have "set_bit_msb dst p ! (q div 8) = dst ! (q div 8) OR drop_bit (p mod 8) 0x80"
      using assms by (simp add: set_bit_msb_def)
    then show ?thesis using True m same_position [of p q]
      by (auto simp: get_bit_msb_bit bit_or_iff bit_80)
  next
    case False
    then show ?thesis using same_position [of p q] by (auto simp: get_bit_msb_bit set_bit_msb_def)
  qed
qed

lemma set_bits_fold:
  assumes "\<forall>x\<in>set xs. f x div 8 < length dst"
  shows "length (foldl (\<lambda>d x. if P x then set_bit_msb d (f x) else d) dst xs) = length dst \<and>
    get_bit_msb (foldl (\<lambda>d x. if P x then set_bit_msb d (f x) else d) dst xs) q =
     (get_bit_msb dst q \<or> (\<exists>x\<in>set xs. P x \<and> f x = q))"
  using assms
proof (induction xs arbitrary: dst)
  case (Cons x xs)
  then show ?case by (cases "P x") (auto simp: get_set_bit_msb)
qed simp

lemma test_bit_push: "((v :: u32) AND push_bit k 1 \<noteq> 0) = bit v k"
proof -
  have "bit (v AND push_bit k 1) j = (j = k \<and> bit v k)" for j
    unfolding single_def [symmetric] by (auto simp: bit_and_iff dest: bit_imp_le_length)
  then show ?thesis by (metis bit_0_eq bit_eqI bot_apply bot_bool_def)
qed

definition packed_bit :: "bytes \<Rightarrow> nat \<Rightarrow> bool" where
  "packed_bit src p = bit (src ! (p div 6)) (7 - p mod 6)"

lemma foldl_product:
  "foldl (\<lambda>d i. foldl (\<lambda>d k. g d (i, k)) d ks) a is = foldl g a (List.product is ks)"
proof (induction "is" arbitrary: a)
  case (Cons i "is")
  have "foldl (\<lambda>d k. g d (i, k)) a ks = foldl g a (map (Pair i) ks)" by (simp add: foldl_map)
  then show ?case using Cons by simp
qed simp

lemma u6_pack_bits:
  assumes "p < 6 * length src"
  shows "length (u6_pack src) = u6_packed_bytes (length src) \<and>
    get_bit_msb (u6_pack src) p = packed_bit src p"
proof -
  let ?n = "length src"
  let ?P = "\<lambda>(i, k). bit (src ! i) (7 - k)" and ?f = "\<lambda>(i, k). i * 6 + k"
  let ?xs = "List.product [0..<?n] [0..<6]"
  let ?z = "replicate (u6_packed_bytes ?n) (0 :: u8)"
  have v: "((ucast (drop_bit 2 (src ! i)) :: u32) AND push_bit (5 - k) 1 \<noteq> 0) = bit (src ! i) (7 - k)"
    if "k < 6" for i k
  proof -
    have "2 + (5 - k) = 7 - k" using that by simp
    then show ?thesis unfolding test_bit_push bit_ucast_iff bit_drop_bit_eq o_def by auto
  qed
  have "foldl (\<lambda>dst k. if (ucast (drop_bit 2 (src ! i)) :: u32) AND push_bit (5 - k) 1 \<noteq> 0
                  then set_bit_msb dst (i * 6 + k) else dst) d [0..<6] =
      foldl (\<lambda>d k. if ?P (i, k) then set_bit_msb d (?f (i, k)) else d) d [0..<6]" for d i
  proof (rule foldl_cong [OF refl refl])
    fix a k assume "k \<in> set [0..<6]"
    then have k: "k < 6" by simp
    show "(if (ucast (drop_bit 2 (src ! i)) :: u32) AND push_bit (5 - k) 1 \<noteq> 0
           then set_bit_msb a (i * 6 + k) else a) = (if ?P (i, k) then set_bit_msb a (?f (i, k)) else a)"
      unfolding v [OF k] by simp
  qed
  then have "u6_pack src = foldl (\<lambda>d i. foldl (\<lambda>d k. if ?P (i, k) then set_bit_msb d (?f (i, k)) else d) d [0..<6]) ?z [0..<?n]"
    unfolding u6_pack_def Let_def by simp
  also have "\<dots> = foldl (\<lambda>d x. if ?P x then set_bit_msb d (?f x) else d) ?z ?xs"
    by (rule foldl_product)
  finally have u: "u6_pack src = foldl (\<lambda>d x. if ?P x then set_bit_msb d (?f x) else d) ?z ?xs" .
  have r: "\<forall>x\<in>set ?xs. ?f x div 8 < length ?z"
    by (auto simp: u6_packed_bytes_def)
  have "\<not> get_bit_msb ?z p" using assms by (auto simp: get_bit_msb_bit u6_packed_bytes_def)
  moreover have "(\<exists>x\<in>set ?xs. ?P x \<and> ?f x = p) = packed_bit src p"
  proof
    assume "\<exists>x\<in>set ?xs. ?P x \<and> ?f x = p"
    then obtain i k where "k < 6" "bit (src ! i) (7 - k)" "i * 6 + k = p" by auto
    then show "packed_bit src p" by (auto simp: packed_bit_def)
  next
    assume "packed_bit src p"
    then show "\<exists>x\<in>set ?xs. ?P x \<and> ?f x = p"
      using assms by (intro bexI [of _ "(p div 6, p mod 6)"]) (auto simp: packed_bit_def)
  qed
  ultimately show ?thesis unfolding u using set_bits_fold [OF r, of ?P p] by simp
qed

lemma u6_unpack_nth:
  assumes "i < n"
  shows "u6_unpack src n ! i =
     (let v = pack_msb (map (\<lambda>k. get_bit_msb src (i * 6 + k)) [0..<6]) :: u32
      in ucast (push_bit 2 v OR drop_bit 4 v))"
proof -
  have "(\<lambda>v k. let v = push_bit 1 v in if c k then v OR 1 else v) = (\<lambda>v k. shift_in (v :: u32) (c k))" for c :: "nat \<Rightarrow> bool"
    by (intro ext) (simp add: shift_in_def Let_def)
  then show ?thesis using assms unfolding u6_unpack_def pack_msb_def by (simp add: foldl_map Let_def)
qed

definition u6_round :: "u8 \<Rightarrow> u8" where
  "u6_round b = (b AND 0xFC) OR drop_bit 6 b"

lemma u6_round_bit: "k < 8 \<Longrightarrow> bit (u6_round b) k = bit b (if k < 2 then k + 6 else k)"
proof -
  assume k: "k < 8"
  have m: "(0xFC :: u8) = push_bit 2 (mask 6)" by (simp add: mask_eq_exp_minus_1)
  show ?thesis using k unfolding u6_round_def m
    by (auto simp: bit_or_iff bit_and_iff bit_push_bit_iff bit_mask_iff bit_drop_bit_eq add.commute
        dest: bit_imp_le_length)
qed

lemma u6_unpack_pack: "u6_unpack (u6_pack src) (length src) = map u6_round src"
proof (intro nth_equalityI)
  fix i assume "i < length (u6_unpack (u6_pack src) (length src))"
  then have i: "i < length src" by (simp add: u6_unpack_def)
  let ?xs = "map (\<lambda>k. get_bit_msb (u6_pack src) (i * 6 + k)) [0..<6]"
  have g: "get_bit_msb (u6_pack src) (i * 6 + k) = bit (src ! i) (7 - k)" if "k < 6" for k
    using u6_pack_bits [of "i * 6 + k" src] that i by (simp add: packed_bit_def)
  have xs: "?xs = map (\<lambda>k. bit (src ! i) (7 - k)) [0..<6]" using g by simp
  have b: "bit (pack_msb ?xs :: u32) k = (k < 6 \<and> bit (src ! i) (k + 2))" for k
  proof (cases "k < 6")
    case True
    then have "7 - (5 - k) = k + 2" by simp
    then show ?thesis using True unfolding xs by (simp add: bit_pack_msb)
  qed (simp add: xs bit_pack_msb)
  have "(ucast (push_bit 2 (pack_msb ?xs :: u32) OR drop_bit 4 (pack_msb ?xs)) :: u8) = u6_round (src ! i)"
  proof (rule bit_word_eqI)
    fix k assume "k < LENGTH(8)"
    then have k: "k < 8" by simp
    have "bit (ucast (push_bit 2 (pack_msb ?xs :: u32) OR drop_bit 4 (pack_msb ?xs)) :: u8) k =
        ((2 \<le> k \<and> bit (src ! i) (k - 2 + 2)) \<or> (4 + k < 6 \<and> bit (src ! i) (4 + k + 2)))"
      using k unfolding bit_ucast_iff bit_or_iff bit_push_bit_iff bit_drop_bit_eq o_def b by auto
    also have "\<dots> = bit (u6_round (src ! i)) k"
    proof (cases "k < 2")
      case False
      then obtain m where "k = m + 2" by (metis add.commute le_add_diff_inverse not_less)
      then show ?thesis using k by (simp add: u6_round_bit)
    qed (use k in \<open>simp add: u6_round_bit add.commute\<close>)
    finally show "bit (ucast (push_bit 2 (pack_msb ?xs :: u32) OR drop_bit 4 (pack_msb ?xs)) :: u8) k
        = bit (u6_round (src ! i)) k" .
  qed
  then show "u6_unpack (u6_pack src) (length src) ! i = map u6_round src ! i"
    using i by (simp add: u6_unpack_nth Let_def)
qed (simp add: u6_unpack_def)

lemma u6_round_idem: "u6_round (u6_round b) = u6_round b"
  by (intro bit_word_eqI) (auto simp: u6_round_bit)

lemma u6_round_error: "\<bar>int (unat (u6_round b)) - int (unat b)\<bar> \<le> 3"
proof -
  have m: "(0xFC :: u8) = push_bit 2 (mask 6)" by (simp add: mask_eq_exp_minus_1)
  have hi: "unat (u6_round b) div 4 = unat b div 4"
  proof -
    have "drop_bit 2 (u6_round b) = drop_bit 2 b"
    proof (rule bit_word_eqI)
      fix k
      show "bit (drop_bit 2 (u6_round b)) k = bit (drop_bit 2 b) k"
        using u6_round_bit [of "2 + k" b]
        by (cases "k < 6") (auto simp: bit_drop_bit_eq dest: bit_imp_le_length)
    qed
    then have "unat (drop_bit 2 (u6_round b)) = unat (drop_bit 2 b)" by simp
    then show ?thesis by (simp only: unat_drop_bit_eq) (simp add: drop_bit_eq_div)
  qed
  have "unat (u6_round b) = 4 * (unat b div 4) + unat (u6_round b) mod 4"
    using hi mult_div_mod_eq [of 4 "unat (u6_round b)"] by simp
  moreover have "unat b = 4 * (unat b div 4) + unat b mod 4" by simp
  moreover have "unat (u6_round b) mod 4 < 4" "unat b mod 4 < 4" by simp_all
  ultimately show ?thesis by linarith
qed

text \<open>
  C11: The 6-bit packing of a spectrum row.  A row of any length is packed into
  \<^verbatim>\<open>u6_packed_bytes\<close> bytes and comes back with the same length, every sample within 3 of
  its 8-bit value and both ends of the scale exact, and packing what came back changes
  nothing more (relaying a row repeatedly does not degrade it).
\<close>

theorem u6_round_trip:
  "let out = u6_unpack (u6_pack src) (length src)
   in length out = length src \<and>
      (\<forall>i < length src. \<bar>int (unat (out ! i)) - int (unat (src ! i))\<bar> \<le> 3 \<and>
         (src ! i = 0 \<longrightarrow> out ! i = 0) \<and> (src ! i = 255 \<longrightarrow> out ! i = 255)) \<and>
      u6_unpack (u6_pack out) (length out) = out"
proof -
  have "u6_round 0 = 0" "u6_round 255 = 255" by (simp_all add: u6_round_def)
  then show ?thesis
    using u6_round_error by (simp add: Let_def u6_unpack_pack u6_unpack_pack [of "map u6_round src", simplified] u6_round_idem o_def)
qed

theorem u6_round_trip_witness: "u6_unpack (u6_pack [0, 255]) 2 = [0, 255]"
proof -
  let ?out = "u6_unpack (u6_pack [0, 255]) 2"
  have t: "length ?out = 2" "\<forall>i < 2. ([0, 255] ! i = (0 :: u8) \<longrightarrow> ?out ! i = 0) \<and> ([0, 255] ! i = (255 :: u8) \<longrightarrow> ?out ! i = 255)"
    using u6_round_trip [of "[0, 255]"] by (simp_all add: Let_def numeral_2_eq_2)
  have "?out ! 0 = 0" "?out ! 1 = 255" using t(2) [rule_format, of 0] t(2) [rule_format, of 1] by simp_all
  then show ?thesis using t(1) by (intro nth_equalityI) (auto simp: less_2_cases_iff)
qed

end
