(* ===== verification/SendQueue.thy ===== *)
theory SendQueue
  imports Prelude "HOL-Library.Sublist"
begin

text \<open>
  The four send queues of a JOIN connection at the relay (\<^verbatim>\<open>JoinEntry\<close> in
  \<^verbatim>\<open>central/central_server.hpp\<close>): control and file packets are never dropped, spectrum
  and audio packets are dropped oldest first when a byte budget is exceeded, and one worker
  empties them in rounds.  Two locales state what a lossless and a lossy queue promise.
\<close>

section \<open>State and operations\<close>

record send_queues =
  ctrl_queue :: "bytes list"
  file_queue :: "bytes list"
  file_queue_bytes :: nat
  send_queue :: "bytes list"
  send_queue_bytes :: nat
  audio_queue :: "bytes list"
  audio_queue_bytes :: nat

definition SEND_QUEUE_MAX_BYTES :: nat where "SEND_QUEUE_MAX_BYTES = 2 * 1024 * 1024"
definition AUDIO_QUEUE_MAX_BYTES :: nat where "AUDIO_QUEUE_MAX_BYTES = 512 * 1024"
definition FILE_QUEUE_MAX_BYTES :: nat where "FILE_QUEUE_MAX_BYTES = 16 * 1024 * 1024"

definition no_packets :: send_queues where
  "no_packets = \<lparr> ctrl_queue = [], file_queue = [], file_queue_bytes = 0, send_queue = [],
     send_queue_bytes = 0, audio_queue = [], audio_queue_bytes = 0 \<rparr>"

definition enqueue_ctrl :: "bytes \<Rightarrow> send_queues \<Rightarrow> send_queues" where
  "enqueue_ctrl p q = q\<lparr> ctrl_queue := ctrl_queue q @ [p] \<rparr>"

fun drop_oldest :: "nat \<Rightarrow> nat \<Rightarrow> bytes list \<Rightarrow> nat \<Rightarrow> bytes list \<times> nat" where
  "drop_oldest maxb len [] b = ([], b)"
| "drop_oldest maxb len (p # ps) b =
     (if b + len > maxb then drop_oldest maxb len ps (b - length p) else (p # ps, b))"

definition enqueue_data :: "bytes \<Rightarrow> send_queues \<Rightarrow> send_queues" where
  "enqueue_data p q =
     (let (ps, b) = drop_oldest SEND_QUEUE_MAX_BYTES (length p) (send_queue q) (send_queue_bytes q)
      in q\<lparr> send_queue := ps @ [p], send_queue_bytes := b + length p \<rparr>)"

definition enqueue_audio :: "bytes \<Rightarrow> send_queues \<Rightarrow> send_queues" where
  "enqueue_audio p q =
     (let (ps, b) = drop_oldest AUDIO_QUEUE_MAX_BYTES (length p) (audio_queue q) (audio_queue_bytes q)
      in q\<lparr> audio_queue := ps @ [p], audio_queue_bytes := b + length p \<rparr>)"

text \<open>
  The wait predicate of \<^verbatim>\<open>enqueue_file\<close>; \<^verbatim>\<open>None\<close> means that the caller is still
  blocked, \<^verbatim>\<open>closing\<close> that the connection is dead or the worker is being stopped.
\<close>

definition file_ready :: "bool \<Rightarrow> nat \<Rightarrow> send_queues \<Rightarrow> bool" where
  "file_ready closing len q \<longleftrightarrow>
     closing \<or> file_queue q = [] \<or> file_queue_bytes q + len \<le> FILE_QUEUE_MAX_BYTES"

definition enqueue_file :: "bool \<Rightarrow> bytes \<Rightarrow> send_queues \<Rightarrow> send_queues option" where
  "enqueue_file closing p q =
     (if \<not> file_ready closing (length p) q then None
      else if closing then Some q
      else Some (q\<lparr> file_queue := file_queue q @ [p], file_queue_bytes := file_queue_bytes q + length p \<rparr>))"

fun pop_up_to :: "nat \<Rightarrow> bytes list \<Rightarrow> nat \<Rightarrow> bytes list \<times> bytes list \<times> nat" where
  "pop_up_to 0 ps b = ([], ps, b)"
| "pop_up_to (Suc n) [] b = ([], [], b)"
| "pop_up_to (Suc n) (p # ps) b =
     (let (out, rest, b') = pop_up_to n ps (if b \<ge> length p then b - length p else 0)
      in (p # out, rest, b'))"

record batch =
  b_ctrl :: "bytes list"
  b_audio :: "bytes list"
  b_fft :: "bytes list"
  b_file :: "bytes list"

definition take_batch :: "send_queues \<Rightarrow> batch \<times> send_queues" where
  "take_batch q =
     (if ctrl_queue q \<noteq> []
      then (\<lparr> b_ctrl = ctrl_queue q, b_audio = [], b_fft = [], b_file = [] \<rparr>, q\<lparr> ctrl_queue := [] \<rparr>)
      else let (a, ar, ab) = pop_up_to (length (audio_queue q)) (audio_queue q) (audio_queue_bytes q);
               (s, sr, sb) = pop_up_to 4 (send_queue q) (send_queue_bytes q);
               (f, fr, fb) = pop_up_to 2 (file_queue q) (file_queue_bytes q)
           in (\<lparr> b_ctrl = [], b_audio = a, b_fft = s, b_file = f \<rparr>,
               q\<lparr> audio_queue := ar, audio_queue_bytes := ab, send_queue := sr, send_queue_bytes := sb,
                  file_queue := fr, file_queue_bytes := fb \<rparr>))"

definition batch_packets :: "batch \<Rightarrow> bytes list" where
  "batch_packets b = b_ctrl b @ b_audio b @ b_fft b @ b_file b"

section \<open>What the queues promise\<close>

definition total_len :: "bytes list \<Rightarrow> nat" where
  "total_len ps = sum_list (map length ps)"

lemma total_len_simps [simp]:
  "total_len [] = 0" "total_len (p # ps) = length p + total_len ps"
  "total_len (ps @ qs) = total_len ps + total_len qs"
  by (simp_all add: total_len_def)

text \<open>
  A queue under some sequence of operations.  \<^verbatim>\<open>cont\<close> is its content,
  \<^verbatim>\<open>op x q = (ins, outs, q')\<close> one operation with the packets put in and taken out.
\<close>

fun run_ops :: "('o \<Rightarrow> 'q \<Rightarrow> 'p list \<times> 'p list \<times> 'q) \<Rightarrow> 'o list \<Rightarrow> 'q \<Rightarrow> 'p list \<times> 'p list \<times> 'q" where
  "run_ops op [] q = ([], [], q)"
| "run_ops op (x # xs) q =
     (let (i, out1, q1) = op x q; (is, os, q2) = run_ops op xs q1 in (i @ is, out1 @ os, q2))"

locale lossy_queue =
  fixes cont :: "'q \<Rightarrow> 'p list" and op :: "'o \<Rightarrow> 'q \<Rightarrow> 'p list \<times> 'p list \<times> 'q"
  assumes op_subseq: "op x q = (ins, outs, q') \<Longrightarrow> subseq (outs @ cont q') (cont q @ ins)"
begin

lemma run_subseq: "run_ops op xs q = (ins, outs, q') \<Longrightarrow> subseq (outs @ cont q') (cont q @ ins)"
proof (induction xs arbitrary: q ins outs)
  case (Cons x xs)
  obtain i out1 q1 where 1: "op x q = (i, out1, q1)" by (metis prod_cases3)
  obtain j os q2 where 2: "run_ops op xs q1 = (j, os, q2)" by (metis prod_cases3)
  have e: "ins = i @ j" "outs = out1 @ os" "q' = q2" using Cons.prems 1 2 by auto
  have "subseq (out1 @ (os @ cont q2)) (out1 @ (cont q1 @ j))"
    using Cons.IH [OF 2 [folded e(3)]] e(3) by (simp add: subseq_append')
  moreover have "subseq ((out1 @ cont q1) @ j) ((cont q @ i) @ j)"
    using op_subseq [OF 1] by (simp only: subseq_append)
  ultimately show ?case unfolding e append_assoc by (rule subseq_order.trans)
qed simp

end

locale lossless_queue =
  fixes cont :: "'q \<Rightarrow> 'p list" and op :: "'o \<Rightarrow> 'q \<Rightarrow> 'p list \<times> 'p list \<times> 'q"
  assumes op_content: "op x q = (ins, outs, q') \<Longrightarrow> cont q @ ins = outs @ cont q'"
begin

lemma run_content: "run_ops op xs q = (ins, outs, q') \<Longrightarrow> cont q @ ins = outs @ cont q'"
proof (induction xs arbitrary: q ins outs)
  case (Cons x xs)
  obtain i out1 q1 where 1: "op x q = (i, out1, q1)" by (metis prod_cases3)
  obtain j os q2 where 2: "run_ops op xs q1 = (j, os, q2)" by (metis prod_cases3)
  have e: "ins = i @ j" "outs = out1 @ os" "q' = q2" using Cons.prems 1 2 by auto
  have "cont q @ ins = (cont q @ i) @ j" by (simp add: e)
  also have "\<dots> = out1 @ (cont q1 @ j)" using op_content [OF 1] by simp
  also have "\<dots> = outs @ cont q'" using Cons.IH [OF 2 [folded e(3)]] by (simp add: e)
  finally show ?case .
qed simp

end

sublocale lossless_queue \<subseteq> lossy_queue
  by unfold_locales (metis op_content subseq_order.refl)

section \<open>The relay's queues keep the promises\<close>

datatype qop = Ctrl bytes | Fft bytes | Audio bytes | File bool bytes | Round

definition idle_batch :: batch where
  "idle_batch = \<lparr> b_ctrl = [], b_audio = [], b_fft = [], b_file = [] \<rparr>"

text \<open>A file packet whose enqueueing blocks is not in the queue yet.\<close>

fun queue_step :: "qop \<Rightarrow> send_queues \<Rightarrow> batch \<times> send_queues" where
  "queue_step (Ctrl p) q = (idle_batch, enqueue_ctrl p q)"
| "queue_step (Fft p) q = (idle_batch, enqueue_data p q)"
| "queue_step (Audio p) q = (idle_batch, enqueue_audio p q)"
| "queue_step (File closing p) q =
     (idle_batch, case enqueue_file closing p q of None \<Rightarrow> q | Some q' \<Rightarrow> q')"
| "queue_step Round q = take_batch q"

definition file_admitted :: "qop \<Rightarrow> send_queues \<Rightarrow> bytes list" where
  "file_admitted x q =
     (case x of File closing p \<Rightarrow> if \<not> closing \<and> file_ready closing (length p) q then [p] else [] | _ \<Rightarrow> [])"

definition ctrl_op :: "qop \<Rightarrow> send_queues \<Rightarrow> bytes list \<times> bytes list \<times> send_queues" where
  "ctrl_op x q = (case x of Ctrl p \<Rightarrow> [p] | _ \<Rightarrow> [], b_ctrl (fst (queue_step x q)), snd (queue_step x q))"

definition file_op :: "qop \<Rightarrow> send_queues \<Rightarrow> bytes list \<times> bytes list \<times> send_queues" where
  "file_op x q = (file_admitted x q, b_file (fst (queue_step x q)), snd (queue_step x q))"

definition fft_op :: "qop \<Rightarrow> send_queues \<Rightarrow> bytes list \<times> bytes list \<times> send_queues" where
  "fft_op x q = (case x of Fft p \<Rightarrow> [p] | _ \<Rightarrow> [], b_fft (fst (queue_step x q)), snd (queue_step x q))"

definition audio_op :: "qop \<Rightarrow> send_queues \<Rightarrow> bytes list \<times> bytes list \<times> send_queues" where
  "audio_op x q = (case x of Audio p \<Rightarrow> [p] | _ \<Rightarrow> [], b_audio (fst (queue_step x q)), snd (queue_step x q))"

lemma drop_oldest_suffix: "drop_oldest m len ps b = (ps', b') \<Longrightarrow> suffix ps' ps"
  by (induction m len ps b rule: drop_oldest.induct) (auto split: if_splits intro: suffix_ConsI)

lemma drop_oldest_bytes:
  "drop_oldest m len ps (total_len ps) = (ps', b') \<Longrightarrow>
     b' = total_len ps' \<and> (ps' = [] \<or> b' + len \<le> m)"
  by (induction m len ps "total_len ps" rule: drop_oldest.induct) (auto split: if_splits)

lemma pop_up_to_content: "pop_up_to n ps b = (out, rest, b') \<Longrightarrow> ps = out @ rest"
  by (induction n ps b arbitrary: out rule: pop_up_to.induct) (auto simp: Let_def split: prod.splits)

lemma pop_up_to_bytes: "pop_up_to n ps (total_len ps) = (out, rest, b') \<Longrightarrow> b' = total_len rest"
  by (induction n ps "total_len ps" arbitrary: out rule: pop_up_to.induct) (auto simp: Let_def split: prod.splits)

lemma pop_up_to_all: "length ps \<le> n \<Longrightarrow> pop_up_to n ps b = (out, rest, b') \<Longrightarrow> rest = []"
  by (induction n ps b arbitrary: out rule: pop_up_to.induct) (auto simp: Let_def split: prod.splits)

lemma pop_up_to_length: "pop_up_to n ps b = (out, rest, b') \<Longrightarrow> length rest = length ps - n"
  by (induction n ps b arbitrary: out rule: pop_up_to.induct) (auto simp: Let_def split: prod.splits)

lemmas queue_defs = enqueue_ctrl_def enqueue_data_def enqueue_audio_def enqueue_file_def take_batch_def
  idle_batch_def Let_def

interpretation ctrl: lossless_queue ctrl_queue ctrl_op
proof
  fix x q ins outs q'
  assume "ctrl_op x q = (ins, outs, q')"
  then show "ctrl_queue q @ ins = outs @ ctrl_queue q'"
    by (cases x) (auto simp: ctrl_op_def queue_defs split: prod.splits if_splits option.splits)
qed

interpretation files: lossless_queue file_queue file_op
proof
  fix x q ins outs q'
  assume "file_op x q = (ins, outs, q')"
  then show "file_queue q @ ins = outs @ file_queue q'"
    by (cases x) (auto simp: file_op_def file_admitted_def queue_defs
        dest!: pop_up_to_content split: prod.splits if_splits option.splits)
qed

lemma subseq_suffix_append: "suffix ps' ps \<Longrightarrow> subseq (ps' @ [p]) (ps @ [p])"
  by (simp add: suffix_imp_subseq)

interpretation fft: lossy_queue send_queue fft_op
proof
  fix x q ins outs q'
  assume "fft_op x q = (ins, outs, q')"
  then show "subseq (outs @ send_queue q') (send_queue q @ ins)"
    by (cases x) (auto simp: fft_op_def queue_defs dest!: pop_up_to_content drop_oldest_suffix
        intro: subseq_suffix_append split: prod.splits if_splits option.splits)
qed

interpretation audio: lossy_queue audio_queue audio_op
proof
  fix x q ins outs q'
  assume "audio_op x q = (ins, outs, q')"
  then show "subseq (outs @ audio_queue q') (audio_queue q @ ins)"
    by (cases x) (auto simp: audio_op_def queue_defs dest!: pop_up_to_content drop_oldest_suffix
        intro: subseq_suffix_append split: prod.splits if_splits option.splits)
qed

section \<open>Runs\<close>

fun queue_run :: "qop list \<Rightarrow> send_queues \<Rightarrow> batch list \<times> send_queues" where
  "queue_run [] q = ([], q)"
| "queue_run (x # xs) q = (let (b, q1) = queue_step x q; (bs, q2) = queue_run xs q1 in (b # bs, q2))"

fun admitted :: "qop list \<Rightarrow> send_queues \<Rightarrow> bytes list" where
  "admitted [] q = []"
| "admitted (x # xs) q = file_admitted x q @ admitted xs (snd (queue_step x q))"

definition offered :: "(qop \<Rightarrow> bytes list) \<Rightarrow> qop list \<Rightarrow> bytes list" where
  "offered f xs = concat (map f xs)"

definition ctrl_of :: "qop \<Rightarrow> bytes list" where "ctrl_of x = (case x of Ctrl p \<Rightarrow> [p] | _ \<Rightarrow> [])"
definition fft_of :: "qop \<Rightarrow> bytes list" where "fft_of x = (case x of Fft p \<Rightarrow> [p] | _ \<Rightarrow> [])"
definition audio_of :: "qop \<Rightarrow> bytes list" where "audio_of x = (case x of Audio p \<Rightarrow> [p] | _ \<Rightarrow> [])"

lemma run_ops_queue_run:
  assumes "\<And>x q. op x q = (f x, g (fst (queue_step x q)), snd (queue_step x q))"
  shows "run_ops op xs q = (offered f xs, concat (map g (fst (queue_run xs q))), snd (queue_run xs q))"
  by (induction xs arbitrary: q) (auto simp: assms offered_def Let_def split: prod.splits)

lemma run_ops_files:
  "run_ops file_op xs q = (admitted xs q, concat (map b_file (fst (queue_run xs q))), snd (queue_run xs q))"
  by (induction xs arbitrary: q) (auto simp: file_op_def Let_def split: prod.splits)

definition within :: "nat \<Rightarrow> bytes list \<Rightarrow> nat \<Rightarrow> bool" where
  "within maxb ps b \<longleftrightarrow> b = total_len ps \<and> (b \<le> maxb \<or> length ps \<le> 1)"

definition queues_ok :: "send_queues \<Rightarrow> bool" where
  "queues_ok q \<longleftrightarrow> within SEND_QUEUE_MAX_BYTES (send_queue q) (send_queue_bytes q) \<and>
     within AUDIO_QUEUE_MAX_BYTES (audio_queue q) (audio_queue_bytes q) \<and>
     within FILE_QUEUE_MAX_BYTES (file_queue q) (file_queue_bytes q)"

lemma within_drop_oldest:
  "within m ps b \<Longrightarrow> drop_oldest m (length p) ps b = (ps', b') \<Longrightarrow> within m (ps' @ [p]) (b' + length p)"
  using drop_oldest_bytes [of m "length p" ps ps' b'] by (auto simp: within_def)

lemma within_pop:
  assumes "within m ps b" "pop_up_to n ps b = (out, rest, b')"
  shows "within m rest b'"
proof -
  have "ps = out @ rest" "b' = total_len rest"
    using pop_up_to_content [OF assms(2)] pop_up_to_bytes [of n ps out rest b'] assms by (auto simp: within_def)
  then show ?thesis using assms(1) by (auto simp: within_def)
qed

lemma queue_step_ok: "queues_ok q \<Longrightarrow> queues_ok (snd (queue_step x q))"
proof (cases x)
  case (File closing p)
  moreover assume "queues_ok q"
  ultimately show ?thesis
    by (auto simp: queues_ok_def queue_defs file_ready_def within_def)
qed (auto simp: queues_ok_def queue_defs split: prod.splits intro: within_drop_oldest within_pop)

lemma queue_run_ok: "queues_ok q \<Longrightarrow> queues_ok (snd (queue_run xs q))"
proof (induction xs arbitrary: q)
  case (Cons x xs)
  then show ?case using Cons.IH [OF queue_step_ok [OF Cons.prems, of x]]
    by (simp add: Let_def case_prod_unfold)
qed simp

text \<open>
  C12: A JOIN connection's send queues over any sequence of enqueue operations and worker
  rounds, from the empty queues.  Control packets are sent in order, each exactly once, none
  dropped; the same holds of the file packets that were admitted.  Spectrum and audio packets
  are sent at most once and in order.  The byte counters are exact, and each budget is kept
  except for a single oversized packet.
\<close>

theorem relay_queues_deliver:
  "let (bs, q) = queue_run ops no_packets
   in concat (map b_ctrl bs) @ ctrl_queue q = offered ctrl_of ops \<and>
      concat (map b_file bs) @ file_queue q = admitted ops no_packets \<and>
      subseq (concat (map b_fft bs) @ send_queue q) (offered fft_of ops) \<and>
      subseq (concat (map b_audio bs) @ audio_queue q) (offered audio_of ops) \<and>
      queues_ok q"
proof -
  let ?r = "queue_run ops no_packets"
  have "ctrl_queue no_packets @ offered ctrl_of ops = concat (map b_ctrl (fst ?r)) @ ctrl_queue (snd ?r)"
    by (rule ctrl.run_content, rule run_ops_queue_run) (simp add: ctrl_op_def ctrl_of_def)
  moreover have "file_queue no_packets @ admitted ops no_packets = concat (map b_file (fst ?r)) @ file_queue (snd ?r)"
    by (rule files.run_content, rule run_ops_files)
  moreover have "subseq (concat (map b_fft (fst ?r)) @ send_queue (snd ?r)) (send_queue no_packets @ offered fft_of ops)"
    by (rule fft.run_subseq, rule run_ops_queue_run) (simp add: fft_op_def fft_of_def)
  moreover have "subseq (concat (map b_audio (fst ?r)) @ audio_queue (snd ?r)) (audio_queue no_packets @ offered audio_of ops)"
    by (rule audio.run_subseq, rule run_ops_queue_run) (simp add: audio_op_def audio_of_def)
  moreover have "queues_ok no_packets" by (simp add: queues_ok_def within_def no_packets_def)
  then have "queues_ok (snd ?r)" by (rule queue_run_ok)
  ultimately show ?thesis by (simp add: case_prod_unfold no_packets_def)
qed

section \<open>Draining\<close>

definition worker_round :: "send_queues \<Rightarrow> send_queues" where
  "worker_round q = snd (take_batch q)"

lemma take_batch_lengths:
  assumes "ctrl_queue q = []"
  shows "ctrl_queue (worker_round q) = []" "audio_queue (worker_round q) = []"
    "length (send_queue (worker_round q)) = length (send_queue q) - 4"
    "length (file_queue (worker_round q)) = length (file_queue q) - 2"
  using assms by (auto simp: worker_round_def take_batch_def Let_def dest: pop_up_to_length split: prod.splits)

lemma rounds_lengths:
  assumes "ctrl_queue q = []"
  shows "ctrl_queue ((worker_round ^^ k) q) = [] \<and>
     (0 < k \<longrightarrow> audio_queue ((worker_round ^^ k) q) = []) \<and>
     length (send_queue ((worker_round ^^ k) q)) = length (send_queue q) - 4 * k \<and>
     length (file_queue ((worker_round ^^ k) q)) = length (file_queue q) - 2 * k"
proof (induction k)
  case (Suc k)
  then show ?case using take_batch_lengths [of "(worker_round ^^ k) q"] by simp
qed (use assms in simp)

text \<open>
  C13: The worker drains.  Without new packets every queue is empty after one round for the
  control packets and k more, where k rounds are enough for four spectrum and two file
  packets each; in particular file transfers cannot be starved by audio or spectrum already
  queued.
\<close>

theorem worker_drains:
  assumes "length (send_queue q) \<le> 4 * k" and "length (file_queue q) \<le> 2 * k" and "0 < k"
  shows "let q' = (worker_round ^^ Suc k) q
     in ctrl_queue q' = [] \<and> audio_queue q' = [] \<and> send_queue q' = [] \<and> file_queue q' = []"
proof (cases "ctrl_queue q = []")
  case True
  then show ?thesis using rounds_lengths [OF True, of "Suc k"] assms by (simp add: Let_def)
next
  case False
  let ?q = "worker_round q"
  have "ctrl_queue ?q = []" "send_queue ?q = send_queue q" "file_queue ?q = file_queue q"
    using False by (simp_all add: worker_round_def take_batch_def)
  then show ?thesis using rounds_lengths [of ?q k] assms by (simp add: Let_def funpow_swap1)
qed

theorem worker_drains_witness:
  "let q' = (worker_round ^^ 2) (no_packets\<lparr> ctrl_queue := [[1]], file_queue := [[2], [3]] \<rparr>)
   in file_queue q' = []"
  using worker_drains [of "no_packets\<lparr> ctrl_queue := [[1]], file_queue := [[2], [3]] \<rparr>" 1]
  by (simp add: no_packets_def Let_def numeral_2_eq_2)

end
