(* ===== verification/Sigmf.thy ===== *)
theory Sigmf
  imports Prelude "HOL-Library.Sublist"
begin

text \<open>
  Sidecar files of recordings (\<^verbatim>\<open>src/sigmf.hpp\<close>): path rules, the JSON sidecar of a
  \<^verbatim>\<open>.sigmf-data\<close> file, and the plain \<^verbatim>\<open>.info\<close> sidecar with its note line.  A text
  is a list of characters.  The numeric members of \<^verbatim>\<open>Meta\<close> are kept as the text that
  \<^verbatim>\<open>snprintf\<close> and \<^verbatim>\<open>strftime\<close> give for them.
\<close>

section \<open>Paths\<close>

definition find_last_of :: "char \<Rightarrow> string \<Rightarrow> nat option" where
  "find_last_of c s =
     (if c \<in> set s then Some (length s - 1 - length (takeWhile (\<lambda>x. x \<noteq> c) (rev s))) else None)"

definition strip_iq_ext :: "string \<Rightarrow> string" where
  "strip_iq_ext p =
     (case find_last_of CHR ''.'' p of
        None \<Rightarrow> p
      | Some dot \<Rightarrow>
          let e = drop dot p
          in if e = ''.sigmf-data'' \<or> e = ''.sigmf-meta'' \<or> e = ''.wav'' then take dot p else p)"

definition data_path :: "string \<Rightarrow> string" where "data_path any = strip_iq_ext any @ ''.sigmf-data''"
definition meta_path :: "string \<Rightarrow> string" where "meta_path any = strip_iq_ext any @ ''.sigmf-meta''"

definition is_sigmf_data :: "string \<Rightarrow> bool" where
  "is_sigmf_data p =
     (case find_last_of CHR ''.'' p of None \<Rightarrow> False | Some dot \<Rightarrow> drop dot p = ''.sigmf-data'')"

definition sidecar_path :: "string \<Rightarrow> string" where
  "sidecar_path file = (if is_sigmf_data file then meta_path file else file @ ''.info'')"

section \<open>JSON text\<close>

abbreviation dq :: char where "dq \<equiv> CHR 0x22"
abbreviation bsl :: char where "bsl \<equiv> CHR 0x5C"
abbreviation nl :: char where "nl \<equiv> CHR 0x0A"
abbreviation cr :: char where "cr \<equiv> CHR 0x0D"
abbreviation tab :: char where "tab \<equiv> CHR 0x09"

definition esc_char :: "char \<Rightarrow> string" where
  "esc_char c = (if c = dq then [bsl, dq] else if c = bsl then [bsl, bsl]
     else if c = nl then [bsl, CHR ''n''] else if c = cr then [bsl, CHR ''r'']
     else if c = tab then [bsl, CHR ''t''] else [c])"

definition json_esc :: "string \<Rightarrow> string" where
  "json_esc s = concat (map esc_char s)"

record Meta =
  sample_rate_text :: string
  center_freq_text :: string
  bandwidth_text :: string
  duration_text :: string
  datetime_text :: string
  m_station :: string
  modulation :: string
  m_op :: string
  m_target :: string
  m_protocol :: string
  m_recorder :: string
  m_notes :: string
  m_tags :: string
  priority :: string
  signal_strength :: string

definition kv_str :: "string \<Rightarrow> string \<Rightarrow> string" where
  "kv_str k v = ''    '' @ [dq] @ k @ [dq] @ '': '' @ [dq] @ json_esc v @ [dq] @ '','' @ [nl]"

definition kv_num :: "string \<Rightarrow> string \<Rightarrow> string" where
  "kv_num k t = [dq] @ k @ [dq] @ '': '' @ t"

text \<open>The string members in the order in which they are written.\<close>

definition meta_strings :: "Meta \<Rightarrow> (string \<times> string) list" where
  "meta_strings m =
     (if m_recorder m \<noteq> [] then [(''core:recorder'', m_recorder m)] else []) @
     [(''bewe:station'', m_station m), (''bewe:modulation'', modulation m),
      (''bewe:operator'', m_op m), (''bewe:target'', m_target m), (''bewe:protocol'', m_protocol m),
      (''bewe:signal_strength'', signal_strength m), (''bewe:tags'', m_tags m),
      (''bewe:priority'', priority m), (''bewe:notes'', m_notes m)]"

definition meta_head :: "Meta \<Rightarrow> string" where
  "meta_head m = ''{'' @ [nl] @ ''  '' @ [dq] @ ''global'' @ [dq] @ '': {'' @ [nl] @
     ''    '' @ [dq] @ ''core:datatype'' @ [dq] @ '': '' @ [dq] @ ''ci16_le'' @ [dq] @ '','' @ [nl] @
     ''    '' @ kv_num ''core:sample_rate'' (sample_rate_text m) @ '','' @ [nl] @
     ''    '' @ [dq] @ ''core:version'' @ [dq] @ '': '' @ [dq] @ ''1.0.0'' @ [dq] @ '','' @ [nl]"

definition meta_tail :: "Meta \<Rightarrow> string" where
  "meta_tail m = ''    '' @ kv_num ''bewe:bandwidth_hz'' (bandwidth_text m) @ '','' @ [nl] @
     ''    '' @ kv_num ''bewe:duration_s'' (duration_text m) @ [nl] @
     ''  },'' @ [nl] @ ''  '' @ [dq] @ ''captures'' @ [dq] @ '': ['' @ [nl] @ ''    {'' @ [nl] @
     ''      '' @ [dq] @ ''core:sample_start'' @ [dq] @ '': 0,'' @ [nl] @
     ''      '' @ kv_num ''core:frequency'' (center_freq_text m) @
     (if datetime_text m \<noteq> []
      then '','' @ [nl] @ ''      '' @ [dq] @ ''core:datetime'' @ [dq] @ '': '' @ [dq] @ datetime_text m @ [dq] @ [nl]
      else [nl]) @
     ''    }'' @ [nl] @ ''  ],'' @ [nl] @ ''  '' @ [dq] @ ''annotations'' @ [dq] @ '': []'' @ [nl] @ ''}'' @ [nl]"

definition write_meta :: "Meta \<Rightarrow> string" where
  "write_meta m = meta_head m @ concat (map (\<lambda>(k, v). kv_str k v) (meta_strings m)) @ meta_tail m"

text \<open>The text after the first occurrence of a pattern: \<^verbatim>\<open>find\<close> followed by a skip.\<close>

fun after :: "string \<Rightarrow> string \<Rightarrow> string option" where
  "after k [] = (if k = [] then Some [] else None)"
| "after k (c # s) = (if prefix k (c # s) then Some (drop (length k) (c # s)) else after k s)"

definition unesc :: "char \<Rightarrow> char" where
  "unesc c = (if c = CHR ''n'' then nl else if c = CHR ''r'' then cr else if c = CHR ''t'' then tab else c)"

fun json_value :: "string \<Rightarrow> string" where
  "json_value [] = []"
| "json_value (c # s) =
     (if c = dq then []
      else if c = bsl then (case s of [] \<Rightarrow> [c] | d # s' \<Rightarrow> unesc d # json_value s')
      else c # json_value s)"

definition meta_find_str :: "string \<Rightarrow> string \<Rightarrow> string option" where
  "meta_find_str s key =
     (case after (dq # key @ [dq]) s of None \<Rightarrow> None
      | Some r \<Rightarrow> (case after '':'' r of None \<Rightarrow> None
      | Some r \<Rightarrow> (case after [dq] r of None \<Rightarrow> None
      | Some r \<Rightarrow> Some (json_value r))))"

text \<open>
  \<^verbatim>\<open>read_meta\<close> over an existing object; \<^verbatim>\<open>nums\<close> stands for the numeric members,
  which are parsed by \<^verbatim>\<open>atof\<close> and \<^verbatim>\<open>strptime\<close>.
\<close>

definition got :: "string \<Rightarrow> string \<Rightarrow> string \<Rightarrow> string" where
  "got s key old = (case meta_find_str s key of None \<Rightarrow> old | Some v \<Rightarrow> v)"

definition read_meta :: "(string \<Rightarrow> Meta \<Rightarrow> Meta) \<Rightarrow> string \<Rightarrow> Meta \<Rightarrow> Meta" where
  "read_meta nums s m0 =
     (let m = nums s m0
      in m\<lparr> m_recorder := got s ''core:recorder'' (m_recorder m),
            m_station := got s ''bewe:station'' (m_station m),
            modulation := got s ''bewe:modulation'' (modulation m),
            m_op := got s ''bewe:operator'' (m_op m),
            m_target := got s ''bewe:target'' (m_target m),
            m_protocol := got s ''bewe:protocol'' (m_protocol m),
            signal_strength := got s ''bewe:signal_strength'' (signal_strength m),
            m_tags := got s ''bewe:tags'' (m_tags m), priority := got s ''bewe:priority'' (priority m),
            m_notes := got s ''bewe:notes'' (m_notes m) \<rparr>)"

definition empty_meta :: Meta where
  "empty_meta = \<lparr> sample_rate_text = ''0'', center_freq_text = ''0'', bandwidth_text = ''0.0'',
     duration_text = ''0.0'', datetime_text = [], m_station = [], modulation = [], m_op = [],
     m_target = [], m_protocol = [], m_recorder = [], m_notes = [], m_tags = [], priority = [],
     signal_strength = [] \<rparr>"

section \<open>Plain sidecars\<close>

fun split_nl :: "string \<Rightarrow> string list" where
  "split_nl [] = []"
| "split_nl (c # s) =
     (if c = nl then [] # split_nl s
      else case split_nl s of [] \<Rightarrow> [[c]]
           | l # ls \<Rightarrow> (c # l) # ls)"

definition is_note :: "string \<Rightarrow> bool" where "is_note l = prefix ''Note:'' l"

fun unesc_note :: "string \<Rightarrow> string" where
  "unesc_note (a # b # s) =
     (if a = bsl \<and> b = CHR ''n'' then nl # unesc_note s else a # unesc_note (b # s))"
| "unesc_note s = s"

fun first_note :: "string list \<Rightarrow> string" where
  "first_note [] = []"
| "first_note (l # ls) =
     (if is_note l then unesc_note (dropWhile (\<lambda>c. c = CHR '' '' \<or> c = tab) (drop 5 l))
      else first_note ls)"

definition note_from_text :: "string \<Rightarrow> string" where
  "note_from_text s = (case meta_find_str s ''bewe:notes'' of Some v \<Rightarrow> v | None \<Rightarrow> first_note (split_nl s))"

definition esc_note :: "string \<Rightarrow> string" where
  "esc_note s = concat (map (\<lambda>c. if c = nl then [bsl, CHR ''n''] else if c = cr then [] else [c]) s)"

definition set_plain_note :: "string \<Rightarrow> string \<Rightarrow> string" where
  "set_plain_note buf note =
     concat (map (\<lambda>l. l @ [nl]) (filter (\<lambda>l. \<not> is_note l \<and> l \<noteq> []) (split_nl buf))) @
     (if esc_note note \<noteq> [] then ''Note: '' @ esc_note note @ [nl] else [])"

text \<open>
  \<^verbatim>\<open>update_note\<close> on a store of files; the sidecar is rewritten and nothing else.  The
  directory is writable.
\<close>

type_synonym files = "string \<rightharpoonup> string"

definition update_note :: "(string \<Rightarrow> Meta \<Rightarrow> Meta) \<Rightarrow> string \<Rightarrow> string \<Rightarrow> files \<Rightarrow> files" where
  "update_note nums path note fs =
     (if is_sigmf_data path
      then let m = (case fs (meta_path path) of None \<Rightarrow> empty_meta | Some s \<Rightarrow> read_meta nums s empty_meta)
           in fs(meta_path path \<mapsto> write_meta (m\<lparr> m_notes := note \<rparr>))
      else let sc = sidecar_path path;
               buf = (case fs sc of None \<Rightarrow> [] | Some s \<Rightarrow> s)
           in fs(sc \<mapsto> set_plain_note buf note))"

definition read_note :: "string \<Rightarrow> files \<Rightarrow> string" where
  "read_note path fs = (case fs (sidecar_path path) of None \<Rightarrow> [] | Some s \<Rightarrow> note_from_text s)"

section \<open>Reading back what was written\<close>

lemma after_noquote: "dq \<notin> set A \<Longrightarrow> after (dq # k) (A @ B) = after (dq # k) B"
  by (induction A) auto

lemma after_close: "c \<noteq> d \<Longrightarrow> after (dq # c # k) (dq # d # B) = after (dq # c # k) (d # B)"
  by simp

lemma quoted_prefix:
  "dq \<notin> set key \<Longrightarrow> dq \<notin> set x \<Longrightarrow> prefix (key @ [dq]) (x @ dq # B) \<longleftrightarrow> x = key"
proof (induction key arbitrary: x)
  case Nil
  then show ?case by (cases x) auto
next
  case (Cons c key)
  then show ?case by (cases x) auto
qed

lemma after_quoted:
  "dq \<notin> set key \<Longrightarrow> dq \<notin> set x \<Longrightarrow> x \<noteq> key \<Longrightarrow>
     after (dq # key @ [dq]) (dq # x @ dq # B) = after (dq # key @ [dq]) (dq # B)"
  using after_noquote [of x "key @ [dq]" "dq # B"] quoted_prefix [of key x B] by simp

lemma json_esc_simps [simp]:
  "json_esc [] = []" "json_esc (c # s) = esc_char c @ json_esc s"
  by (simp_all add: json_esc_def)

lemma esc_prefix:
  "dq \<notin> set key \<Longrightarrow> bsl \<notin> set key \<Longrightarrow> nl \<notin> set key \<Longrightarrow> cr \<notin> set key \<Longrightarrow> tab \<notin> set key \<Longrightarrow>
     prefix (key @ [dq]) (json_esc v @ dq # B) \<longleftrightarrow> v = key"
proof (induction key arbitrary: v)
  case Nil
  then show ?case by (cases v) (auto simp: esc_char_def)
next
  case (Cons c key)
  then show ?case by (cases v) (auto simp: esc_char_def)
qed

definition key_ok :: "string \<Rightarrow> bool" where
  "key_ok key \<longleftrightarrow> dq \<notin> set key \<and> bsl \<notin> set key \<and> nl \<notin> set key \<and> cr \<notin> set key \<and> tab \<notin> set key"

text \<open>A value mimics a key when the quoted key occurs in the written value.\<close>

definition mimics :: "string \<Rightarrow> string \<Rightarrow> bool" where
  "mimics v key \<longleftrightarrow> v = key \<or> suffix (dq # key) v"

lemma after_esc:
  assumes "key_ok key" "\<not> suffix (dq # key) v"
  shows "after (dq # key @ [dq]) (json_esc v @ dq # B) = after (dq # key @ [dq]) (dq # B)"
  using assms(2)
proof (induction v)
  case (Cons c v)
  have IH: "after (dq # key @ [dq]) (json_esc v @ dq # B) = after (dq # key @ [dq]) (dq # B)"
    using Cons by (auto simp: suffix_Cons)
  show ?case
  proof (cases "c = dq")
    case True
    then have "v \<noteq> key" using Cons by auto
    then have "\<not> prefix (key @ [dq]) (json_esc v @ dq # B)"
      using esc_prefix [of key v B] assms(1) by (simp add: key_ok_def)
    then show ?thesis using IH True by (simp add: esc_char_def)
  next
    case False
    then show ?thesis using IH by (auto simp: esc_char_def)
  qed
qed simp

lemma json_value_esc [simp]: "json_value (json_esc v @ dq # B) = v"
proof (induction v)
  case (Cons c v)
  then show ?case by (auto simp: esc_char_def unesc_def)
qed simp

definition key_head :: "string \<Rightarrow> bool" where
  "key_head key \<longleftrightarrow> key_ok key \<and> (\<exists>c ks. key = c # ks \<and> c \<noteq> CHR '':'' \<and> c \<noteq> CHR '','')"

lemma after_quoted_line:
  assumes "key_head key" "dq \<notin> set k" "k \<noteq> key"
  shows "after (dq # key @ [dq]) (dq # k @ dq # CHR '':'' # R) = after (dq # key @ [dq]) R"
proof -
  obtain c ks where c: "key = c # ks" "c \<noteq> CHR '':''" using assms(1) by (auto simp: key_head_def)
  have "after (dq # key @ [dq]) (dq # k @ dq # CHR '':'' # R) = after (dq # key @ [dq]) (dq # CHR '':'' # R)"
    using assms by (intro after_quoted) (auto simp: key_head_def key_ok_def)
  then show ?thesis using c by simp
qed

lemma after_value:
  assumes "key_head key" "\<not> mimics v key"
  shows "after (dq # key @ [dq]) (dq # json_esc v @ dq # CHR '','' # R) = after (dq # key @ [dq]) R"
proof -
  obtain c ks where c: "key = c # ks" "c \<noteq> CHR '',''" using assms(1) by (auto simp: key_head_def)
  have k: "key_ok key" using assms(1) by (simp add: key_head_def)
  have "\<not> prefix (key @ [dq]) (json_esc v @ dq # CHR '','' # R)"
    using esc_prefix [of key v] k assms(2) by (simp add: key_ok_def mimics_def)
  then have "after (dq # key @ [dq]) (dq # json_esc v @ dq # CHR '','' # R) =
      after (dq # key @ [dq]) (dq # CHR '','' # R)"
    using after_esc [OF k, of v] assms(2) by (simp add: mimics_def)
  then show ?thesis using c by simp
qed

lemma after_kv:
  assumes "key_head key" "dq \<notin> set k" "k \<noteq> key" "\<not> mimics v key"
  shows "after (dq # key @ [dq]) (kv_str k v @ R) = after (dq # key @ [dq]) R"
proof -
  let ?V = "dq # json_esc v @ dq # CHR '','' # nl # R"
  have "after (dq # key @ [dq]) (kv_str k v @ R) =
      after (dq # key @ [dq]) (''    '' @ (dq # k @ dq # CHR '':'' # ('' '' @ ?V)))"
    by (simp add: kv_str_def)
  also have "\<dots> = after (dq # key @ [dq]) ('' '' @ ?V)"
    using after_noquote [of "''    ''"] after_quoted_line [OF assms(1-3), of "'' '' @ ?V"] by simp
  also have "\<dots> = after (dq # key @ [dq]) (nl # R)"
    using after_noquote [of "'' ''"] after_value [OF assms(1,4), of "nl # R"] by simp
  finally show ?thesis by simp
qed

lemma find_kv: "meta_find_str (kv_str key v @ R) key = Some v"
proof -
  have "after (dq # key @ [dq]) (kv_str key v @ R) = Some ('': '' @ dq # json_esc v @ dq # CHR '','' # nl # R)"
    by (simp add: kv_str_def same_prefix_prefix)
  then show ?thesis by (simp add: meta_find_str_def)
qed

lemma find_skip:
  "key_head key \<Longrightarrow> dq \<notin> set k \<Longrightarrow> k \<noteq> key \<Longrightarrow> \<not> mimics v key \<Longrightarrow>
     meta_find_str (kv_str k v @ R) key = meta_find_str R key"
  by (simp add: meta_find_str_def after_kv)

lemma find_in_lines:
  assumes "key_head key" "\<forall>(k, w)\<in>set kvs. dq \<notin> set k \<and> \<not> mimics w key"
  shows "meta_find_str (concat (map (\<lambda>(k, v). kv_str k v) kvs) @ R) key =
     (case map_of kvs key of None \<Rightarrow> meta_find_str R key | Some v \<Rightarrow> Some v)"
  using assms(2)
proof (induction kvs)
  case (Cons p kvs)
  obtain k w where p: "p = (k, w)" by fastforce
  show ?case
  proof (cases "k = key")
    case True
    then show ?thesis by (simp add: p find_kv)
  next
    case False
    then show ?thesis using Cons find_skip [OF assms(1), of k w] by (simp add: p)
  qed
qed simp

definition nums_ok :: "Meta \<Rightarrow> bool" where
  "nums_ok m \<longleftrightarrow> dq \<notin> set (sample_rate_text m) \<and> dq \<notin> set (center_freq_text m) \<and>
     dq \<notin> set (bandwidth_text m) \<and> dq \<notin> set (duration_text m) \<and> dq \<notin> set (datetime_text m) \<and> datetime_text m \<noteq> ''core:recorder''"

definition string_keys :: "string list" where
  "string_keys = [''core:recorder'', ''bewe:station'', ''bewe:modulation'', ''bewe:operator'', ''bewe:target'',
     ''bewe:protocol'', ''bewe:signal_strength'', ''bewe:tags'', ''bewe:priority'', ''bewe:notes'']"

definition no_mimics :: "Meta \<Rightarrow> bool" where
  "no_mimics m \<longleftrightarrow> (\<forall>(k, v)\<in>set (meta_strings m). \<forall>key\<in>set string_keys. \<not> mimics v key)"

lemma string_key_head: "key \<in> set string_keys \<Longrightarrow> key_head key"
  by (auto simp: string_keys_def key_head_def key_ok_def)

lemma skip_quoted:
  assumes "key_head key" "dq \<notin> set A" "dq \<notin> set k" "k \<noteq> key" "d = CHR '':'' \<or> d = CHR '',''"
  shows "after (dq # key @ [dq]) (A @ dq # k @ dq # d # R) = after (dq # key @ [dq]) R"
proof -
  obtain c ks where c: "key = c # ks" "c \<noteq> CHR '':''" "c \<noteq> CHR '',''" using assms(1) by (auto simp: key_head_def)
  have "after (dq # key @ [dq]) (dq # k @ dq # d # R) = after (dq # key @ [dq]) (dq # d # R)"
    using assms by (intro after_quoted) (auto simp: key_head_def key_ok_def)
  then show ?thesis using c assms(2,5) after_noquote [of A "key @ [dq]"] by auto
qed

lemma head_split:
  "meta_head m @ R = [CHR ''{'', nl, CHR '' '', CHR '' ''] @ dq # ''global'' @ dq # CHR '':'' #
    ('' {'' @ nl # ''    '') @ dq # ''core:datatype'' @ dq # CHR '':'' #
    '' '' @ dq # ''ci16_le'' @ dq # CHR '','' #
    (nl # ''    '') @ dq # ''core:sample_rate'' @ dq # CHR '':'' #
    ('' '' @ sample_rate_text m @ CHR '','' # nl # ''    '') @ dq # ''core:version'' @ dq # CHR '':'' #
    '' '' @ dq # ''1.0.0'' @ dq # CHR '','' # nl # R"
  by (simp add: meta_head_def kv_num_def)

lemma head_skip:
  assumes "key \<in> set string_keys" "nums_ok m"
  shows "after (dq # key @ [dq]) (meta_head m @ R) = after (dq # key @ [dq]) R"
proof -
  note kh = string_key_head [OF assms(1)]
  have ne: "''global'' \<noteq> key" "''core:datatype'' \<noteq> key" "''ci16_le'' \<noteq> key" "''core:sample_rate'' \<noteq> key"
    "''core:version'' \<noteq> key" "''1.0.0'' \<noteq> key"
    using assms(1) by (auto simp: string_keys_def)
  note sk = skip_quoted [OF kh]
  have "after (dq # key @ [dq]) (meta_head m @ R) = after (dq # key @ [dq]) (nl # R)"
    unfolding head_split
    apply (subst sk [OF _ _ ne(1)], simp, simp, simp)
    apply (subst sk [OF _ _ ne(2)], simp, simp, simp)
    apply (subst sk [OF _ _ ne(3)], simp, simp, simp)
    apply (subst sk [OF _ _ ne(4)], simp, simp, simp)
    apply (subst sk [OF _ _ ne(5)], use assms(2) in \<open>simp add: nums_ok_def\<close>, simp, simp)
    apply (subst sk [OF _ _ ne(6)], simp, simp, simp)
    by simp
  then show ?thesis by simp
qed

lemma tail_skip:
  assumes "nums_ok m" "key = ''core:recorder''"
  shows "meta_find_str (meta_tail m) key = None"
proof -
  have "\<not> prefix (''core:recorder'' @ [dq]) (datetime_text m @ dq # R)" for R
    using assms quoted_prefix [of "''core:recorder''" "datetime_text m" R] by (auto simp: nums_ok_def string_keys_def)
  then have "after (dq # key @ [dq]) (meta_tail m) = None"
    using assms by (simp add: meta_tail_def kv_num_def nums_ok_def after_noquote)
  then show ?thesis by (simp add: meta_find_str_def)
qed

lemma read_back:
  assumes "nums_ok m" "no_mimics m" "key \<in> set string_keys"
  shows "got (write_meta m) key old = (case map_of (meta_strings m) key of None \<Rightarrow> old | Some v \<Rightarrow> v)"
proof -
  have kvs: "\<forall>(k, w)\<in>set (meta_strings m). dq \<notin> set k \<and> \<not> mimics w key"
    using assms(2,3) by (fastforce simp: no_mimics_def meta_strings_def)
  have "meta_find_str (write_meta m) key =
      (case map_of (meta_strings m) key of None \<Rightarrow> meta_find_str (meta_tail m) key | Some v \<Rightarrow> Some v)"
    using head_skip [OF assms(3,1)] find_in_lines [OF string_key_head [OF assms(3)] kvs]
    by (simp add: write_meta_def meta_find_str_def)
  moreover have "key = ''core:recorder''" if "map_of (meta_strings m) key = None"
    using that assms(3) by (auto simp: meta_strings_def string_keys_def split: if_splits)
  ultimately show ?thesis using tail_skip [OF assms(1)]
    by (auto simp: got_def split: option.splits)
qed

text \<open>The members that \<^verbatim>\<open>read_meta\<close> parses.\<close>

definition parsed_strings :: "Meta \<Rightarrow> string list" where
  "parsed_strings m = [m_recorder m, m_station m, modulation m, m_op m, m_target m, m_protocol m,
     signal_strength m, m_tags m, priority m, m_notes m]"

text \<open>The parser of the numeric members leaves the other members alone, and dates hold no quotes.\<close>

definition numeric :: "(string \<Rightarrow> Meta \<Rightarrow> Meta) \<Rightarrow> bool" where
  "numeric nums \<longleftrightarrow> (\<forall>s m. parsed_strings (nums s m) = parsed_strings m \<and> (nums_ok m \<longrightarrow> nums_ok (nums s m)))"

lemma numeric_recorder: "numeric nums \<Longrightarrow> m_recorder (nums s m) = m_recorder m"
  by (simp add: numeric_def parsed_strings_def)

lemma read_write:
  assumes "nums_ok m" "no_mimics m" "numeric nums"
  shows "parsed_strings (read_meta nums (write_meta m) empty_meta) = parsed_strings m"
proof -
  have g: "got (write_meta m) key old = (case map_of (meta_strings m) key of None \<Rightarrow> old | Some v \<Rightarrow> v)"
    if "key \<in> set string_keys" for key old using read_back [OF assms(1,2) that] .
  show ?thesis
    by (simp add: parsed_strings_def read_meta_def Let_def g string_keys_def meta_strings_def
        numeric_recorder [OF assms(3)] empty_meta_def)
qed

text \<open>
  C14: a note set on a recording with a JSON sidecar is read back, and the nine other text
  members survive the rewriting of the sidecar.  Values may contain quotes, backslashes, line ends and tabs; only a value
  that equals a key or ends in a quote followed by a key misleads the search.
\<close>

theorem sigmf_note_update:
  assumes "is_sigmf_data path" "fs (meta_path path) = Some (write_meta m)"
    and "nums_ok m" "no_mimics m" "numeric nums"
    and "\<forall>key\<in>set string_keys. \<not> mimics note key"
  shows "read_note path (update_note nums path note fs) = note \<and>
    (\<exists>m'. update_note nums path note fs = fs(meta_path path \<mapsto> write_meta m') \<and>
       parsed_strings m' = butlast (parsed_strings m) @ [note])"
proof -
  let ?r = "read_meta nums (write_meta m) empty_meta"
  let ?m = "?r\<lparr> m_notes := note \<rparr>"
  have u: "update_note nums path note fs = fs(meta_path path \<mapsto> write_meta ?m)"
    using assms(1,2) by (simp add: update_note_def Let_def)
  note R = read_write [OF assms(3,4,5)]
  have p: "parsed_strings ?m = butlast (parsed_strings m) @ [note]"
    using R by (simp add: parsed_strings_def)
  have "nums_ok (nums (write_meta m) empty_meta)"
    using assms(5) by (simp add: numeric_def nums_ok_def empty_meta_def)
  then have n: "nums_ok ?m" by (simp add: nums_ok_def read_meta_def Let_def)
  have "\<not> mimics v key" if "(k, v) \<in> set (meta_strings ?m)" "key \<in> set string_keys" for k v key
  proof -
    have e: "\<not> mimics [] key" using that(2) by (auto simp: mimics_def string_keys_def)
    have "v \<in> set (parsed_strings ?m) \<or> v = []"
      using that(1) by (auto simp: meta_strings_def parsed_strings_def split: if_splits)
    then have "v \<in> set (parsed_strings m) \<or> v = note \<or> v = []" unfolding p by (auto dest: in_set_butlastD)
    moreover have "\<not> mimics w key" if "w \<in> set (parsed_strings m)" for w
      using that \<open>key \<in> set string_keys\<close> assms(4) e
      by (cases "w = []") (auto simp: no_mimics_def meta_strings_def parsed_strings_def split: if_splits)
    ultimately show ?thesis using e assms(6) that(2) by auto
  qed
  then have "no_mimics ?m" by (auto simp: no_mimics_def)
  then have "got (write_meta ?m) ''bewe:notes'' [] = note"
    using read_back [OF n, of "''bewe:notes''"] by (simp add: string_keys_def meta_strings_def)
  moreover have "meta_find_str (write_meta ?m) ''bewe:notes'' \<noteq> None"
  proof
    assume "meta_find_str (write_meta ?m) ''bewe:notes'' = None"
    then have "got (write_meta ?m) ''bewe:notes'' ''x'' = ''x''" "got (write_meta ?m) ''bewe:notes'' ''y'' = ''y''"
      by (simp_all add: got_def)
    moreover have "got (write_meta ?m) ''bewe:notes'' old = note" for old
      using read_back [OF n \<open>no_mimics ?m\<close>, of "''bewe:notes''"] by (simp add: string_keys_def meta_strings_def)
    ultimately show False by simp
  qed
  ultimately have "note_from_text (write_meta ?m) = note"
    by (auto simp: note_from_text_def got_def)
  then have "read_note path (update_note nums path note fs) = note"
    using assms(1) by (simp add: u read_note_def sidecar_path_def)
  then show ?thesis using u p by auto
qed

definition sample_meta :: Meta where
  "sample_meta = empty_meta\<lparr> m_station := ''DGS'', m_op := ''A said '' @ [dq, CHR ''x'', dq], m_notes := ''old'',
     m_tags := ''t'', priority := ''1'' \<rparr>"

lemma sample_meta_ok: "nums_ok sample_meta" "no_mimics sample_meta" "numeric (\<lambda>s m. m)"
  by (simp_all add: nums_ok_def sample_meta_def empty_meta_def no_mimics_def meta_strings_def string_keys_def
      mimics_def suffix_def numeric_def Cons_eq_append_conv append_eq_Cons_conv)

theorem sigmf_note_update_witness:
  "read_note ''iq/r.sigmf-data'' (update_note (\<lambda>s m. m) ''iq/r.sigmf-data'' (''two'' @ nl # ''lines'')
     [''iq/r.sigmf-meta'' \<mapsto> write_meta sample_meta]) = ''two'' @ nl # ''lines''"
  using sigmf_note_update [of "''iq/r.sigmf-data''" "[''iq/r.sigmf-meta'' \<mapsto> write_meta sample_meta]" sample_meta
      "\<lambda>s m. m" "''two'' @ nl # ''lines''"] sample_meta_ok
  by (simp add: is_sigmf_data_def meta_path_def strip_iq_ext_def find_last_of_def string_keys_def mimics_def suffix_def
      Cons_eq_append_conv append_eq_Cons_conv)

section \<open>Plain notes\<close>

lemma esc_note_simps [simp]:
  "esc_note [] = []"
  "esc_note (c # s) = (if c = nl then [bsl, CHR ''n''] else if c = cr then [] else [c]) @ esc_note s"
  by (simp_all add: esc_note_def)

lemma sublist_pair_Cons: "\<not> sublist [a, b] (c # s) \<longleftrightarrow> \<not> (c = a \<and> (\<exists>s'. s = b # s')) \<and> \<not> sublist [a, b] s"
  by (auto simp: sublist_Cons_right prefix_Cons prefix_def)

lemma unesc_note_Cons:
  "\<not> (c = bsl \<and> (\<exists>s'. s = CHR ''n'' # s')) \<Longrightarrow> unesc_note (c # s) = c # unesc_note s"
  by (cases s) auto

lemma unesc_esc_note:
  "cr \<notin> set s \<Longrightarrow> \<not> sublist [bsl, CHR ''n''] s \<Longrightarrow> unesc_note (esc_note s) = s"
proof (induction s)
  case (Cons c s)
  have s: "\<not> (c = bsl \<and> (\<exists>s'. s = CHR ''n'' # s'))" "\<not> sublist [bsl, CHR ''n''] s"
    using Cons.prems(2) unfolding sublist_pair_Cons by auto
  have IH: "unesc_note (esc_note s) = s" using Cons s by simp
  show ?case
  proof (cases "c = nl")
    case False
    have "\<not> (c = bsl \<and> (\<exists>s'. esc_note s = CHR ''n'' # s'))"
      using s(1) Cons.prems(1) by (cases s) auto
    moreover have "c \<noteq> cr" using Cons.prems(1) by auto
    ultimately show ?thesis using IH False by (simp add: unesc_note_Cons)
  qed (use IH in simp)
qed simp

lemma esc_note_no_nl: "nl \<notin> set (esc_note s)"
  by (induction s) auto

lemma split_nl_line: "nl \<notin> set l \<Longrightarrow> split_nl (l @ nl # s) = l # split_nl s"
  by (induction l) auto

lemma split_nl_lines:
  "\<forall>l\<in>set ls. nl \<notin> set l \<Longrightarrow> split_nl (concat (map (\<lambda>l. l @ [nl]) ls) @ s) = ls @ split_nl s"
  by (induction ls) (auto simp: split_nl_line)

lemma split_nl_no_nl: "l \<in> set (split_nl s) \<Longrightarrow> nl \<notin> set l"
  by (induction s arbitrary: l) (fastforce split: if_splits list.splits)+

definition other_lines :: "string \<Rightarrow> string list" where
  "other_lines s = filter (\<lambda>l. \<not> is_note l \<and> l \<noteq> []) (split_nl s)"

lemma split_set_plain_note:
  "split_nl (set_plain_note buf note) =
     other_lines buf @ (if esc_note note \<noteq> [] then [''Note: '' @ esc_note note] else [])"
proof -
  have o: "\<forall>l\<in>set (other_lines buf). nl \<notin> set l" by (auto simp: other_lines_def split_nl_no_nl)
  have "split_nl (''Note: '' @ esc_note note @ [nl]) = [''Note: '' @ esc_note note]"
    using split_nl_line [of "''Note: '' @ esc_note note" "[]"] esc_note_no_nl [of "note"] by simp
  then show ?thesis using split_nl_lines [OF o] by (simp add: set_plain_note_def other_lines_def)
qed

lemma first_note_append: "\<forall>l\<in>set ls. \<not> is_note l \<Longrightarrow> first_note (ls @ ms) = first_note ms"
  by (induction ls) auto

lemma quote_free_after: "dq \<notin> set s \<Longrightarrow> after (dq # k) s = None"
  using after_noquote [of s k "[]"] by simp

lemma set_concat_split: "l \<in> set (split_nl s) \<Longrightarrow> set l \<subseteq> set s"
  by (induction s arbitrary: l) (fastforce split: if_splits list.splits)+

definition blank :: "char \<Rightarrow> bool" where "blank c \<longleftrightarrow> c = CHR '' '' \<or> c = tab"

text \<open>
  Updating the note of a plain sidecar keeps every other non-empty line in order, replaces
  the note line and only it, and the note is read back exactly when it has no carriage return,
  no leading blank and no backslash followed by n, and the file no quotes.
\<close>

theorem plain_note_update:
  assumes "\<not> is_sigmf_data path" "fs (sidecar_path path) = Some buf"
    and "cr \<notin> set note" "note = [] \<or> \<not> blank (hd note)" "\<not> sublist [bsl, CHR ''n''] note"
    and "dq \<notin> set note" "dq \<notin> set buf"
  shows "read_note path (update_note nums path note fs) = note \<and>
    (\<exists>buf'. update_note nums path note fs = fs(sidecar_path path \<mapsto> buf') \<and>
       other_lines buf' = other_lines buf \<and> length (filter is_note (split_nl buf')) \<le> 1)"
proof -
  let ?b = "set_plain_note buf note"
  have u: "update_note nums path note fs = fs(sidecar_path path \<mapsto> ?b)"
    using assms(1,2) by (simp add: update_note_def Let_def)
  note S = split_set_plain_note [of buf "note"]
  have ol: "\<forall>l\<in>set (other_lines buf). \<not> is_note l" by (simp add: other_lines_def)
  have e0: "esc_note note = [] \<longleftrightarrow> note = []" using assms(3) by (cases "note") auto
  have hd: "dropWhile (\<lambda>c. c = CHR '' '' \<or> c = tab) (esc_note note) = esc_note note"
    using assms(3,4) by (cases "note") (auto simp: blank_def)
  have "first_note (split_nl ?b) = note"
    using first_note_append [OF ol] e0 hd unesc_esc_note [OF assms(3,5)] first_note_append [OF ol, of "[]"]
    by (auto simp: S is_note_def)
  moreover have "dq \<notin> set ?b"
  proof -
    have "dq \<notin> set (esc_note note)" using assms(6) by (auto simp: esc_note_def)
    moreover have "dq \<notin> set l" if "l \<in> set (split_nl buf)" for l
      using set_concat_split [OF that] assms(7) by auto
    ultimately show ?thesis by (auto simp: set_plain_note_def)
  qed
  ultimately have "note_from_text ?b = note"
    by (simp add: note_from_text_def meta_find_str_def quote_free_after)
  then have "read_note path (update_note nums path note fs) = note" by (simp add: u read_note_def)
  moreover have "other_lines ?b = other_lines buf"
    unfolding other_lines_def S by (simp add: is_note_def other_lines_def)
  moreover have "length (filter is_note (split_nl ?b)) \<le> 1"
    using ol by (simp add: S filter_empty_conv)
  ultimately show ?thesis using u by blast
qed

definition sample_info :: string where
  "sample_info = ''Operator: kim'' @ nl # ''Note: old'' @ nl # ''Freq: 156.8''"

theorem plain_note_update_witness:
  "read_note ''hist/a.wav'' (update_note (\<lambda>s m. m) ''hist/a.wav'' (''two'' @ nl # ''lines'')
     [''hist/a.wav.info'' \<mapsto> sample_info]) = ''two'' @ nl # ''lines''"
  using plain_note_update [of "''hist/a.wav''" "[''hist/a.wav.info'' \<mapsto> sample_info]" sample_info
      "''two'' @ nl # ''lines''" "\<lambda>s m. m"]
  by (simp add: is_sigmf_data_def find_last_of_def sidecar_path_def sample_info_def blank_def sublist_pair_Cons)

end
