(* ===== verification/DbFiles.thy ===== *)
theory DbFiles
  imports Packets Sigmf
begin

text \<open>
  The file database of the relay: classification and validation of file names, saving,
  downloading, deleting and annotating files (\<^verbatim>\<open>central/central_server.cpp\<close>), the sender
  of an upload (\<^verbatim>\<open>NetClient::cmd_db_save\<close> in \<^verbatim>\<open>src/net_client.cpp\<close>) and the receiver of
  a download (\<^verbatim>\<open>src/net_client.cpp\<close>, \<^verbatim>\<open>src/ui.cpp\<close>).  The disk maps a path to its
  content; directories are a set of paths.  A write to an open handle appends to the file at
  the handle's path.
\<close>

section \<open>Names\<close>

definition path_in :: "string \<Rightarrow> string \<Rightarrow> string" where
  "path_in dir name = dir @ ''/'' @ name"

definition strstr :: "string \<Rightarrow> string \<Rightarrow> bool" where
  "strstr s k \<longleftrightarrow> after k s \<noteq> None"

definition db_subdir_for :: "string \<Rightarrow> string" where
  "db_subdir_for fn =
     (if fn = [] then ''iq''
      else if suffix ''.bewehist'' fn then ''hist''
      else if strstr fn ''_DE_'' then ''audio''
      else if (prefix ''leo_'' fn \<or> prefix ''all_'' fn) \<and> length fn > 4 \<and> suffix ''.txt'' fn then ''tle''
      else if prefix ''SATFRAME_'' fn then ''satframe''
      else ''iq'')"

definition db_filename_safe :: "string \<Rightarrow> bool" where
  "db_filename_safe s \<longleftrightarrow> s \<noteq> [] \<and> length s < 128 \<and> s \<noteq> ''.'' \<and> s \<noteq> ''..'' \<and>
     list_all (\<lambda>c. c \<noteq> CHR ''/'' \<and> c \<noteq> bsl \<and> \<not> (of_char c :: nat) < 0x20) s"

fun dec_str :: "nat \<Rightarrow> string" where
  "dec_str n = (if n < 10 then [char_of (n + 48)] else dec_str (n div 10) @ [char_of (n mod 10 + 48)])"

declare dec_str.simps [simp del]

record store =
  disk :: files
  dirs :: "string set"

text \<open>\<^verbatim>\<open>n\<close> further candidates are tried, the first of them is \<^verbatim>\<open>cand\<close>.\<close>

fun unique_from :: "files \<Rightarrow> string \<Rightarrow> string \<Rightarrow> string \<Rightarrow> nat \<Rightarrow> string \<Rightarrow> string" where
  "unique_from fs dir stem ext 0 cand = cand"
| "unique_from fs dir stem ext (Suc n) cand =
     (if fs (path_in dir cand) = None then cand
      else unique_from fs dir stem ext n (take 159 (stem @ ''_'' @ dec_str (1000 - n) @ ext)))"

definition db_unique_name :: "files \<Rightarrow> string \<Rightarrow> string \<Rightarrow> string \<Rightarrow> string" where
  "db_unique_name fs base subdir filename =
     (let (stem, ext) = (case find_last_of CHR ''.'' filename of
                           None \<Rightarrow> (filename, []) | Some dot \<Rightarrow> (take dot filename, drop dot filename))
      in unique_from fs (path_in base subdir) stem ext 999 filename)"

definition db_ensure_dirs :: "string \<Rightarrow> store \<Rightarrow> store" where
  "db_ensure_dirs base st =
     st\<lparr> dirs := {base, path_in base ''iq'', path_in base ''audio'', path_in base ''hist'',
                   path_in base ''satframe''} \<union> dirs st \<rparr>"

section \<open>Saving\<close>

text \<open>
  An upload in progress.  A request is the receive buffer from the start of the payload, whose
  first \<^verbatim>\<open>plen\<close> bytes are the payload; what follows is left from earlier packets.
\<close>

record upload =
  db_fp :: "string option"
  db_path :: string

definition no_upload :: upload where "no_upload = \<lparr> db_fp = None, db_path = [] \<rparr>"

definition text_of :: "nat \<Rightarrow> bytes \<Rightarrow> string" where "text_of n bs = chars_of (cstr n bs)"

definition db_save_meta :: "bool \<Rightarrow> string \<Rightarrow> bytes \<Rightarrow> nat \<Rightarrow> store \<times> upload \<Rightarrow> store \<times> upload" where
  "db_save_meta from_host base buf plen S =
     (if plen < 128 + 8 + 1 + 32 then S
      else let filename = text_of 128 buf in
      if \<not> db_filename_safe filename then S
      else let st = db_ensure_dirs base (fst S);
               sub = db_subdir_for filename;
               name = (if from_host \<and> sub = ''satframe'' then filename
                       else db_unique_name (disk st) base sub filename);
               dst = path_in (path_in base sub) name;
               info = (if plen \<ge> 128 + 8 + 1 + 32 + 1 then text_of 1023 (drop 169 buf) else []);
               open_ok = path_in base sub \<in> dirs st;
               st = (if info \<noteq> [] \<and> open_ok then st\<lparr> disk := (disk st)(sidecar_path dst \<mapsto> info) \<rparr> else st);
               st = (if open_ok then st\<lparr> disk := (disk st)(dst \<mapsto> []) \<rparr> else st)
           in (st, \<lparr> db_fp = (if open_ok then Some dst else None), db_path = dst \<rparr>))"

definition append_file :: "string \<Rightarrow> string \<Rightarrow> store \<Rightarrow> store" where
  "append_file p d st =
     (case disk st p of None \<Rightarrow> st | Some s \<Rightarrow> st\<lparr> disk := (disk st)(p \<mapsto> s @ d) \<rparr>)"

text \<open>
  \<^verbatim>\<open>6 + chunk_bytes\<close> is computed in 32 bits.  \<^verbatim>\<open>None\<close>: the write reads outside the
  receive buffer.  The last component says whether the upload has been completed.
\<close>

definition db_save_data :: "bytes \<Rightarrow> nat \<Rightarrow> store \<times> upload \<Rightarrow> ((store \<times> upload) \<times> bool) option" where
  "db_save_data buf plen S =
     (case db_fp (snd S) of
        None \<Rightarrow> Some (S, False)
      | Some p \<Rightarrow>
          if plen < 6 then Some (S, False)
          else let cb = (of_nat (le_nat (take 4 (drop 2 buf))) :: u32);
                   enough = plen \<ge> unat (6 + cb)
               in if enough \<and> 6 + unat cb > length buf then None
                  else let st = (if enough then append_file p (chars_of (take (unat cb) (drop 6 buf))) (fst S)
                                 else fst S)
                       in if buf ! 1 \<noteq> 0 then Some ((st, no_upload), True)
                          else Some ((st, snd S), False))"

section \<open>Finding, downloading, deleting, annotating\<close>

definition db_lookup :: "files \<Rightarrow> string \<Rightarrow> string \<Rightarrow> string option" where
  "db_lookup fs base fn =
     List.find (\<lambda>p. fs p \<noteq> None)
       (map (\<lambda>sub. path_in (path_in base sub) fn) [db_subdir_for fn, ''iq'', ''audio'', ''hist''])"

definition db_download_path :: "files \<Rightarrow> string \<Rightarrow> string \<Rightarrow> string" where
  "db_download_path fs base fn =
     (case db_lookup fs base fn of
        Some p \<Rightarrow> p
      | None \<Rightarrow> if fs (path_in base fn) \<noteq> None then path_in base fn
                else path_in (path_in base (db_subdir_for fn)) fn)"

definition db_target_path :: "files \<Rightarrow> string \<Rightarrow> string \<Rightarrow> string" where
  "db_target_path fs base fn = (case db_lookup fs base fn of Some p \<Rightarrow> p | None \<Rightarrow> path_in base fn)"

definition CHUNK :: nat where "CHUNK = 64 * 1024"

definition db_dl_body :: "string \<Rightarrow> nat \<Rightarrow> bool \<Rightarrow> bool \<Rightarrow> string \<Rightarrow> bytes" where
  "db_dl_body fn fsz is_first is_last d =
     str_buf 128 (bytes_of fn) @ le_bytes 8 fsz @ le_bytes 4 (length d) @
     [of_bool is_first, of_bool is_last] @ bytes_of d"

text \<open>
  The read loop over the rest of the file.  \<^verbatim>\<open>feof\<close> holds only after a read that asked for
  more than was left.
\<close>

function db_dl_chunks :: "string \<Rightarrow> nat \<Rightarrow> bool \<Rightarrow> string \<Rightarrow> bytes list" where
  "db_dl_chunks fn fsz first rest =
     (let d = take CHUNK rest; n = length d; last = n = 0 \<or> n < CHUNK
      in if n = 0 \<and> \<not> first then []
         else db_dl_body fn fsz first last d
              # (if n = 0 \<or> last then [] else db_dl_chunks fn fsz False (drop CHUNK rest)))"
  by auto
termination by (relation "measure (\<lambda>(fn, fsz, first, rest). length rest)") (auto simp: CHUNK_def)

declare db_dl_chunks.simps [simp del]

definition db_dl_info :: "string \<Rightarrow> files \<Rightarrow> string \<Rightarrow> bytes" where
  "db_dl_info fn fs fpath =
     str_buf 128 (bytes_of fn) @
     (let s = (case fs (sidecar_path fpath) of None \<Rightarrow> [] | Some s \<Rightarrow> take 1023 (bytes_of s))
      in s @ replicate (1024 - length s) 0)"

text \<open>The packets (type and payload) that answer a download request.\<close>

definition db_download :: "string \<Rightarrow> bytes \<Rightarrow> nat \<Rightarrow> files \<Rightarrow> (u8 \<times> bytes) list" where
  "db_download base buf plen fs =
     (if plen < 128 + 32 then []
      else let fn = text_of 128 buf in
      if \<not> db_filename_safe fn then []
      else let fpath = db_download_path fs base fn in
      case fs fpath of
        None \<Rightarrow> []
      | Some s \<Rightarrow> (0x2D, db_dl_info fn fs fpath) # map (Pair 0x28) (db_dl_chunks fn (length s) True s))"

text \<open>The disk afterwards, and whether the file list is sent again.\<close>

definition db_delete :: "string \<Rightarrow> bytes \<Rightarrow> nat \<Rightarrow> files \<Rightarrow> files \<times> bool" where
  "db_delete base buf plen fs =
     (if plen < 128 + 32 then (fs, False)
      else let fn = text_of 128 buf in
      if \<not> db_filename_safe fn then (fs, False)
      else let fpath = db_target_path fs base fn
           in (fs(fpath := None, sidecar_path fpath := None), True))"

definition db_set_note :: "(string \<Rightarrow> Meta \<Rightarrow> Meta) \<Rightarrow> string \<Rightarrow> bytes \<Rightarrow> nat \<Rightarrow> files \<Rightarrow> files \<times> bool" where
  "db_set_note nums base buf plen fs =
     (if plen < size_of PktDbSetNote then (fs, False)
      else let fn = text_of 128 buf in
      if \<not> db_filename_safe fn then (fs, False)
      else let nt = text_of 256 (drop 128 buf)
           in (update_note nums (db_target_path fs base fn) nt fs, True))"

section \<open>The other end\<close>

definition base_name :: "string \<Rightarrow> string" where
  "base_name p = (case find_last_of CHR ''/'' p of None \<Rightarrow> p | Some i \<Rightarrow> drop (Suc i) p)"

definition db_save_meta_packet :: "string \<Rightarrow> nat \<Rightarrow> string \<Rightarrow> string \<Rightarrow> bytes" where
  "db_save_meta_packet fn fsz op info =
     str_buf 128 (bytes_of fn) @ le_bytes 8 fsz @ [1] @ str_buf 32 (bytes_of op) @
     str_buf 512 (bytes_of info) @ replicate 512 0"

definition db_save_data_packet :: "bool \<Rightarrow> string \<Rightarrow> bytes" where
  "db_save_data_packet is_last d = [1, of_bool is_last] @ le_bytes 4 (length d) @ bytes_of d"

function db_save_chunks :: "nat \<Rightarrow> nat \<Rightarrow> string \<Rightarrow> bytes list" where
  "db_save_chunks fsz sent rest =
     (let d = take CHUNK rest; n = length d
      in if n = 0 then []
         else db_save_data_packet (sent + n \<ge> fsz) d # db_save_chunks fsz (sent + n) (drop CHUNK rest))"
  by auto
termination by (relation "measure (\<lambda>(fsz, sent, rest). length rest)") (auto simp: CHUNK_def)

declare db_save_chunks.simps [simp del]

definition cmd_db_save :: "string \<Rightarrow> string \<Rightarrow> files \<Rightarrow> (u8 \<times> bytes) list option" where
  "cmd_db_save filepath op fs =
     (case fs filepath of
        None \<Rightarrow> None
      | Some s \<Rightarrow>
          let info = (case fs (sidecar_path filepath) of None \<Rightarrow> [] | Some i \<Rightarrow> take 1023 i)
          in Some ((0x24, db_save_meta_packet (base_name filepath) (length s) op info)
                   # map (Pair 0x25) (db_save_chunks (length s) 0 s)))"

record downloads =
  db_dl_active :: "string \<rightharpoonup> string"
  local_disk :: files
  finished :: "string list"

text \<open>
  \<^verbatim>\<open>dest\<close> gives the local directory of a file name.  A chunk is the payload of a
  \<^verbatim>\<open>DB_DOWNLOAD_DATA\<close> packet.
\<close>

definition on_db_download_data :: "(string \<Rightarrow> string) \<Rightarrow> bytes \<Rightarrow> downloads \<Rightarrow> downloads" where
  "on_db_download_data dest payload D =
     (if length payload < size_of PktDbDownloadData then D
      else let key = text_of 128 payload;
               data_len = (if length payload > size_of PktDbDownloadData
                           then le_nat (take 4 (drop 136 payload)) else 0);
               is_first = payload ! 140 \<noteq> 0; is_last = payload ! 141 \<noteq> 0;
               path = path_in (dest key) key;
               D = (if is_first
                    then D\<lparr> db_dl_active := (db_dl_active D)(key \<mapsto> path),
                            local_disk := (local_disk D)(path \<mapsto> []) \<rparr>
                    else D)
           in case db_dl_active D key of
                None \<Rightarrow> D
              | Some p \<Rightarrow>
                  let D = (case local_disk D p of
                             None \<Rightarrow> D
                           | Some s \<Rightarrow> D\<lparr> local_disk := (local_disk D)
                               (p \<mapsto> s @ chars_of (take data_len (drop 142 payload))) \<rparr>)
                  in if is_last
                     then D\<lparr> db_dl_active := (db_dl_active D)(key := None), finished := finished D @ [p] \<rparr>
                     else D)"

section \<open>The file list\<close>

text \<open>The operator named in a sidecar: the JSON member, else the first plain line with that key.\<close>

definition json_operator :: "string \<Rightarrow> string option" where
  "json_operator info =
     (case after ([dq] @ ''bewe:operator'' @ [dq]) info of None \<Rightarrow> None
      | Some r \<Rightarrow> (case after '':'' r of None \<Rightarrow> None
      | Some r \<Rightarrow> (case after [dq] r of None \<Rightarrow> None
      | Some v \<Rightarrow> if dq \<in> set v \<and> hd v \<noteq> dq then Some (take 31 (takeWhile (\<lambda>c. c \<noteq> dq) v)) else None)))"

definition is_space :: "char \<Rightarrow> bool" where
  "is_space c \<longleftrightarrow> c \<in> {CHR '' '', tab, nl, CHR 0x0B, CHR 0x0C, cr}"

text \<open>\<^verbatim>\<open>sscanf (p, "%63[^:]: %127[^\n]", k, val)\<close> with both fields assigned.\<close>

definition kv_scan :: "string \<Rightarrow> (string \<times> string) option" where
  "kv_scan p =
     (let k = take 63 (takeWhile (\<lambda>c. c \<noteq> CHR '':'') p); r = drop (length k) p
      in if k = [] \<or> r = [] \<or> hd r \<noteq> CHR '':'' then None
         else let v = take 127 (takeWhile (\<lambda>c. c \<noteq> nl) (dropWhile is_space (tl r)))
              in if v = [] then None else Some (k, v))"

lemma next_line_shorter: "nl \<in> set p \<Longrightarrow> length (tl (dropWhile (\<lambda>c. c \<noteq> nl) p)) < length p"
  by (induction p) (auto simp: le_imp_less_Suc length_dropWhile_le)

function plain_operator :: "string \<Rightarrow> string" where
  "plain_operator p =
     (if p = [] then []
      else case kv_scan p of
        Some (k, v) \<Rightarrow>
          if k = ''Operator'' then take 31 v
          else if nl \<in> set p then plain_operator (tl (dropWhile (\<lambda>c. c \<noteq> nl) p)) else []
      | None \<Rightarrow> if nl \<in> set p then plain_operator (tl (dropWhile (\<lambda>c. c \<noteq> nl) p)) else [])"
  by auto
termination by (relation "measure length") (simp_all add: next_line_shorter del: length_tl)

declare plain_operator.simps [simp del]

definition file_operator :: "string \<Rightarrow> string" where
  "file_operator info =
     (case json_operator info of
        Some v \<Rightarrow> if v \<noteq> [] then v else plain_operator info
      | None \<Rightarrow> plain_operator info)"

definition c_text :: "string \<Rightarrow> string" where "c_text s = takeWhile (\<lambda>c. c \<noteq> CHR 0x00) s"

text \<open>One entry: path, name and size of a candidate.\<close>

definition db_entry :: "files \<Rightarrow> string \<times> string \<times> nat \<Rightarrow> bytes" where
  "db_entry fs e =
     (let (fp, fn, size) = e;
          info = (case fs (sidecar_path fp) of None \<Rightarrow> [] | Some s \<Rightarrow> take 1023 s)
      in str_buf 128 (bytes_of fn) @ le_bytes 8 size @ str_buf 32 (bytes_of (file_operator (c_text info))) @
         bytes_of info @ replicate (1024 - length info) 0)"

text \<open>The candidates of one directory, and of the three scanned ones; \<^verbatim>\<open>listing\<close> is what the
  directory scan of a path yields: modification time and name of its regular files.\<close>

definition scan_dir :: "(string \<Rightarrow> (int \<times> string) list) \<Rightarrow> files \<Rightarrow> string \<Rightarrow> string list \<Rightarrow> (int \<times> string \<times> string \<times> nat) list" where
  "scan_dir listing fs dir exts =
     map (\<lambda>(mt, fn). (mt, path_in dir fn, fn, (case fs (path_in dir fn) of None \<Rightarrow> 0 | Some s \<Rightarrow> length s)))
       (filter (\<lambda>(mt, fn). fn \<noteq> [] \<and> hd fn \<noteq> CHR ''.'' \<and> list_ex (\<lambda>e. suffix e fn) exts \<and>
                  fs (path_in dir fn) \<noteq> None) (listing dir))"

definition db_candidates :: "(string \<Rightarrow> (int \<times> string) list) \<Rightarrow> string \<Rightarrow> files \<Rightarrow> (int \<times> string \<times> string \<times> nat) list" where
  "db_candidates listing base fs =
     scan_dir listing fs (path_in base ''iq'') [''.wav'', ''.sigmf-data''] @
     scan_dir listing fs (path_in base ''audio'') [''.wav''] @
     scan_dir listing fs (path_in base ''hist'') [''.bewehist'', ''.wav'']"

text \<open>Newest first; \<^verbatim>\<open>std::sort\<close> may order entries of equal time differently.\<close>

definition db_list_body :: "(string \<Rightarrow> (int \<times> string) list) \<Rightarrow> string \<Rightarrow> files \<Rightarrow> bytes" where
  "db_list_body listing base fs =
     (let es = take 500 (sort_key (\<lambda>(mt, e). - mt) (db_candidates listing base fs))
      in le_bytes 2 (length es) @ concat (map (\<lambda>(mt, e). db_entry fs e) es))"

end
