(* ===== verification/DbFacts.thy ===== *)
theory DbFacts
  imports DbFiles
begin

text \<open>
  Facts about the file database: a download delivers the file and says so except when its size
  is a positive multiple of the chunk size, an upload arrives unchanged under a fresh name, the
  length check of an upload chunk wraps, and no request reaches a path outside the database.
\<close>

section \<open>Fields of the packets\<close>

lemma safe_no_nul: "db_filename_safe fn \<Longrightarrow> CHR 0x00 \<notin> set fn"
proof
  assume s: "db_filename_safe fn" and z: "CHR 0x00 \<in> set fn"
  then have "\<not> (of_char (CHR 0x00) :: nat) < 0x20" unfolding db_filename_safe_def list_all_iff by blast
  then show False by simp
qed

lemma safe_length: "db_filename_safe fn \<Longrightarrow> length fn < 128"
  by (simp add: db_filename_safe_def)

lemma takeWhile_bytes_of: "CHR 0x00 \<notin> set s \<Longrightarrow> takeWhile (\<lambda>c. c \<noteq> 0) (bytes_of s) = bytes_of s"
  by (auto simp: takeWhile_eq_all_conv bytes_of_def)

lemma text_of_str_buf:
  assumes "CHR 0x00 \<notin> set s" "length s < n"
  shows "text_of n (str_buf n (bytes_of s) @ r) = s"
proof -
  have "str_buf n (bytes_of s) = bytes_of s @ replicate (n - length s) 0"
    using assms by (simp add: str_buf_def takeWhile_bytes_of Let_def)
  moreover have "takeWhile (\<lambda>c. c \<noteq> 0) (bytes_of s @ replicate (n - length s) 0) = bytes_of s"
    using assms by (subst takeWhile_append2) (auto simp: bytes_of_def takeWhile_replicate)
  ultimately show ?thesis using assms(2) by (simp add: text_of_def cstr_def)
qed

lemma le_nat_4: "n < 2 ^ 32 \<Longrightarrow> le_nat (le_bytes 4 n) = n"
  by (simp add: le_nat_le_bytes)

section \<open>Downloads\<close>

definition dl_path :: "(string \<Rightarrow> string) \<Rightarrow> string \<Rightarrow> string" where
  "dl_path dest fn = path_in (dest fn) fn"

lemma nth_skip: "length a = k \<Longrightarrow> n \<ge> k \<Longrightarrow> (a @ b) ! n = b ! (n - k)"
  by (simp add: nth_append)

lemma dl_body_fields:
  assumes "db_filename_safe fn" "length d \<le> CHUNK"
    and b_def: "b = db_dl_body fn fsz f l d"
  shows "text_of 128 b = fn" "length b = 142 + length d" "le_nat (take 4 (drop 136 b)) = length d"
    "b ! 140 = of_bool f" "b ! 141 = of_bool l" "drop 142 b = bytes_of d"
proof -
  have n: "length d < 2 ^ 32" using assms(2) by (simp add: CHUNK_def)
  show "text_of 128 b = fn" using text_of_str_buf [OF safe_no_nul safe_length] assms(1)
    by (simp add: b_def db_dl_body_def)
  show "length b = 142 + length d" by (simp add: b_def db_dl_body_def)
  show "le_nat (take 4 (drop 136 b)) = length d" using le_nat_4 [OF n] by (simp add: b_def db_dl_body_def)
  show "b ! 140 = of_bool f" "b ! 141 = of_bool l" "drop 142 b = bytes_of d"
    by (simp_all add: b_def db_dl_body_def nth_append)
qed

lemma size_dl: "size_of PktDbDownloadData = 142"
  by (simp add: PktDbDownloadData_def)

lemma dl_step:
  assumes "db_filename_safe fn" "length d \<le> CHUNK"
    and "f \<or> (db_dl_active D fn = Some (dl_path dest fn) \<and> local_disk D (dl_path dest fn) = Some acc)"
  shows "on_db_download_data dest (db_dl_body fn fsz f l d) D =
     D\<lparr> db_dl_active := (db_dl_active D)(fn := if l then None else Some (dl_path dest fn)),
        local_disk := (local_disk D)(dl_path dest fn \<mapsto> (if f then [] else acc) @ d),
        finished := finished D @ (if l then [dl_path dest fn] else []) \<rparr>"
proof -
  define b where "b = db_dl_body fn fsz f l d"
  note F = dl_body_fields [OF assms(1,2) b_def]
  show ?thesis using assms(3) unfolding b_def [symmetric]
    by (cases f; cases l)
      (simp_all add: on_db_download_data_def size_dl F Let_def dl_path_def fun_upd_same fun_upd_idem chars_of_def [of "[]"] del: fun_upd_apply)
qed

abbreviation receive_all :: "(string \<Rightarrow> string) \<Rightarrow> bytes list \<Rightarrow> downloads \<Rightarrow> downloads" where
  "receive_all dest bs D \<equiv> fold (on_db_download_data dest) bs D"

text \<open>The file ends in a chunk that is marked as the last one.\<close>

definition ends_marked :: "bool \<Rightarrow> nat \<Rightarrow> bool" where
  "ends_marked first n \<longleftrightarrow> (first \<and> n = 0) \<or> \<not> CHUNK dvd n"

lemma CHUNK_pos: "0 < CHUNK"
  by (simp add: CHUNK_def)

lemma chunks_received:
  assumes "db_filename_safe fn"
    and "f \<or> (db_dl_active D fn = Some (dl_path dest fn) \<and> local_disk D (dl_path dest fn) = Some acc)"
  shows "receive_all dest (db_dl_chunks fn fsz f rest) D =
     D\<lparr> db_dl_active := (db_dl_active D)
          (fn := if ends_marked f (length rest) then None else Some (dl_path dest fn)),
        local_disk := (local_disk D)(dl_path dest fn \<mapsto> (if f then [] else acc) @ rest),
        finished := finished D @ (if ends_marked f (length rest) then [dl_path dest fn] else []) \<rparr>"
  using assms(2)
proof (induction "length rest" arbitrary: f D acc rest rule: less_induct)
  case less
  note step = dl_step [OF assms(1), where f = f and D = D and dest = dest and acc = acc and fsz = fsz]
  let ?base = "if f then [] else acc"
  consider (none) "\<not> f" "rest = []" | (last) "length rest < CHUNK" "f \<or> rest \<noteq> []" | (more) "CHUNK \<le> length rest"
    by (meson not_le)
  then show ?case
  proof cases
    case none
    then have "db_dl_chunks fn fsz f rest = []" by (simp add: db_dl_chunks.simps)
    moreover have "\<not> ends_marked f (length rest)" using none by (simp add: ends_marked_def)
    ultimately show ?thesis using none less.prems by (simp add: fun_upd_idem)
  next
    case last
    then have "db_dl_chunks fn fsz f rest = [db_dl_body fn fsz f True rest]"
      by (subst db_dl_chunks.simps) (auto simp: Let_def)
    moreover have "ends_marked f (length rest)"
      using last by (auto simp: ends_marked_def dest: dvd_imp_le)
    ultimately show ?thesis using last step [where d = rest and l = True] less.prems by simp
  next
    case more
    let ?d = "take CHUNK rest" and ?r = "drop CHUNK rest"
    let ?D = "on_db_download_data dest (db_dl_body fn fsz f False ?d) D"
    have c: "db_dl_chunks fn fsz f rest = db_dl_body fn fsz f False ?d # db_dl_chunks fn fsz False ?r"
      using more CHUNK_pos by (subst db_dl_chunks.simps) (auto simp: Let_def min_def)
    have D: "?D = D\<lparr> db_dl_active := (db_dl_active D)(fn \<mapsto> dl_path dest fn),
        local_disk := (local_disk D)(dl_path dest fn \<mapsto> ?base @ ?d) \<rparr>"
      using step [where d = ?d and l = False] less.prems by simp
    have "length ?r < length rest" using more CHUNK_pos by simp
    moreover have "db_dl_active ?D fn = Some (dl_path dest fn) \<and> local_disk ?D (dl_path dest fn) = Some (?base @ ?d)"
      unfolding D by simp
    ultimately have "receive_all dest (db_dl_chunks fn fsz False ?r) ?D =
        ?D\<lparr> db_dl_active := (db_dl_active ?D)(fn := if ends_marked False (length ?r) then None else Some (dl_path dest fn)),
          local_disk := (local_disk ?D)(dl_path dest fn \<mapsto> (?base @ ?d) @ ?r),
          finished := finished ?D @ (if ends_marked False (length ?r) then [dl_path dest fn] else []) \<rparr>"
      using less.hyps [where rest = ?r and f = False and D = ?D and acc = "?base @ ?d"] by simp
    moreover have "ends_marked False (length ?r) = ends_marked f (length rest)"
      using more CHUNK_pos by (auto simp: ends_marked_def dvd_minus_self)
    ultimately show ?thesis unfolding c by (simp add: D)
  qed
qed

text \<open>
  C15: a download of a stored file, received in order by a JOIN, leaves exactly the content of
  the file in the local copy; it is reported as finished, and its handle closed, if and only if
  the file is empty or its size is not a multiple of 64 KiB.
\<close>

theorem db_download_round_trip:
  assumes "160 \<le> plen" "text_of 128 buf = fn" "db_filename_safe fn"
    and "fs (db_download_path fs base fn) = Some s"
  shows "let replies = db_download base buf plen fs;
             D' = receive_all dest (map snd (filter (\<lambda>(t, b). t = 0x28) replies)) D;
             marked = (s = [] \<or> \<not> CHUNK dvd length s)
         in local_disk D' = (local_disk D)(dl_path dest fn \<mapsto> s) \<and>
            finished D' = finished D @ (if marked then [dl_path dest fn] else []) \<and>
            db_dl_active D' fn = (if marked then None else Some (dl_path dest fn))"
proof -
  have r: "map snd (filter (\<lambda>(t, b). t = 0x28) (db_download base buf plen fs)) = db_dl_chunks fn (length s) True s"
    using assms by (simp add: db_download_def Let_def filter_map comp_def)
  have "(s = [] \<or> \<not> CHUNK dvd length s) = ends_marked True (length s)" by (auto simp: ends_marked_def)
  then show ?thesis using chunks_received [OF assms(3), where f = True and D = D and dest = dest and fsz = "length s" and rest = s] by (simp add: r Let_def)
qed

theorem db_download_round_trip_witness:
  "local_disk (receive_all (\<lambda>fn. ''dl'') (map snd (filter (\<lambda>(t, b). t = 0x28)
      (db_download ''DB'' (str_buf 128 (bytes_of ''a.wav'') @ replicate 32 0) 160 [''DB/iq/a.wav'' \<mapsto> ''RIFF''])))
      \<lparr> db_dl_active = Map.empty, local_disk = Map.empty, finished = [] \<rparr>) =
   [''dl/a.wav'' \<mapsto> ''RIFF'']"
proof -
  have t: "text_of 128 (str_buf 128 (bytes_of ''a.wav'') @ replicate 32 0) = ''a.wav''"
    by (rule text_of_str_buf) simp_all
  show ?thesis
    using db_download_round_trip [of 160 "str_buf 128 (bytes_of ''a.wav'') @ replicate 32 0" "''a.wav''"
        "[''DB/iq/a.wav'' \<mapsto> ''RIFF'']" "''DB''" "''RIFF''" "\<lambda>fn. ''dl''"
        "\<lparr> db_dl_active = Map.empty, local_disk = Map.empty, finished = [] \<rparr>", OF _ t]
    by (simp add: Let_def db_download_path_def db_lookup_def db_subdir_for_def strstr_def path_in_def dl_path_def
        db_filename_safe_def suffix_def Cons_eq_append_conv append_eq_Cons_conv)
qed

section \<open>Uploads\<close>

text \<open>The relay's handling of a sequence of upload packets from a JOIN.\<close>

fun db_uploads :: "string \<Rightarrow> (u8 \<times> bytes) list \<Rightarrow> store \<times> upload \<Rightarrow> (store \<times> upload) option" where
  "db_uploads base [] S = Some S"
| "db_uploads base ((t, p) # ps) S =
     (if t = 0x24 then db_uploads base ps (db_save_meta False base p (length p) S)
      else if t = 0x25
      then (case db_save_data p (length p) S of None \<Rightarrow> None | Some (S', fin) \<Rightarrow> db_uploads base ps S')
      else db_uploads base ps S)"

lemma find_last_of_Some:
  assumes "find_last_of c s = Some i"
  obtains A B where "s = A @ c # B" "c \<notin> set B" "i = length A"
proof -
  have c: "c \<in> set s" using assms by (auto simp: find_last_of_def split: if_splits)
  let ?t = "takeWhile (\<lambda>x. x \<noteq> c) (rev s)"
  have i: "i = length s - 1 - length ?t" using assms c by (simp add: find_last_of_def)
  obtain d ds where d: "dropWhile (\<lambda>x. x \<noteq> c) (rev s) = d # ds"
    using c by (cases "dropWhile (\<lambda>x. x \<noteq> c) (rev s)") (auto simp: dropWhile_eq_Nil_conv)
  have "d = c" using hd_dropWhile [of "\<lambda>x. x \<noteq> c" "rev s"] d by auto
  then have "rev s = ?t @ c # ds" using takeWhile_dropWhile_id [of "\<lambda>x. x \<noteq> c" "rev s"] d by simp
  then have "rev (rev s) = rev (?t @ c # ds)" by (rule arg_cong)
  then have s: "s = rev ds @ c # rev ?t" by simp
  then have "length s = length (rev ds @ c # rev ?t)" by (rule arg_cong)
  then have "i = length (rev ds)" using i by simp
  moreover have "c \<notin> set (rev ?t)" by (auto dest: set_takeWhileD)
  ultimately show ?thesis using that s by blast
qed

lemma sigmf_sidecar:
  assumes "is_sigmf_data p"
  obtains A where "p = A @ ''.sigmf-data''" "sidecar_path p = A @ ''.sigmf-meta''"
proof -
  obtain dot where d: "find_last_of CHR ''.'' p = Some dot" "drop dot p = ''.sigmf-data''"
    using assms by (auto simp: is_sigmf_data_def split: option.splits)
  have "sidecar_path p = take dot p @ ''.sigmf-meta''"
    using assms d by (simp add: sidecar_path_def meta_path_def strip_iq_ext_def)
  moreover have "p = take dot p @ ''.sigmf-data''" using append_take_drop_id [of dot p] d(2) by simp
  ultimately show ?thesis using that by blast
qed

lemma sidecar_ne: "sidecar_path p \<noteq> p"
proof (cases "is_sigmf_data p")
  case True
  then show ?thesis by (rule sigmf_sidecar) simp
qed (simp add: sidecar_path_def)

lemma data_packet:
  assumes "length d \<le> CHUNK" "disk st p = Some acc"
  shows "db_save_data (db_save_data_packet l d) (length (db_save_data_packet l d)) (st, \<lparr> db_fp = Some p, db_path = q \<rparr>) =
     Some ((st\<lparr> disk := (disk st)(p \<mapsto> acc @ d) \<rparr>, if l then no_upload else \<lparr> db_fp = Some p, db_path = q \<rparr>), l)"
proof -
  have n: "length d < 2 ^ 32 - 6" using assms(1) by (simp add: CHUNK_def)
  define b where "b = db_save_data_packet l d"
  have f: "length b = 6 + length d" "le_nat (take 4 (drop 2 b)) = length d" "b ! 1 = of_bool l" "drop 6 b = bytes_of d"
    using n le_nat_4 [of "length d"] by (simp_all add: b_def db_save_data_packet_def)
  have b1: "b ! Suc 0 = of_bool l" using f(3) by simp
  have u: "unat (of_nat (length d) :: u32) = length d" using n by (simp add: unat_of_nat)
  have "(6 :: u32) + of_nat (length d) = of_nat (6 + length d)" by simp
  then have w: "unat ((6 :: u32) + of_nat (length d)) = 6 + length d" using n by (simp only: unat_of_nat) simp
  show ?thesis unfolding b_def [symmetric]
    by (cases l) (simp_all add: db_save_data_def Let_def f b1 u w append_file_def assms(2))
qed

lemma chunks_uploaded:
  assumes "disk st p = Some acc" "fsz = sent + length rest"
  shows "db_uploads base (map (Pair 0x25) (db_save_chunks fsz sent rest)) (st, \<lparr> db_fp = Some p, db_path = q \<rparr>) =
     Some (st\<lparr> disk := (disk st)(p \<mapsto> acc @ rest) \<rparr>, if rest = [] then \<lparr> db_fp = Some p, db_path = q \<rparr> else no_upload)"
  using assms
proof (induction "length rest" arbitrary: st acc sent rest rule: less_induct)
  case less
  show ?case
  proof (cases "rest = []")
    case True
    then show ?thesis using less.prems by (simp add: db_save_chunks.simps fun_upd_idem)
  next
    case False
    let ?d = "take CHUNK rest" and ?r = "drop CHUNK rest"
    have c: "db_save_chunks fsz sent rest = db_save_data_packet (sent + length ?d \<ge> fsz) ?d
        # db_save_chunks fsz (sent + length ?d) ?r"
      using False CHUNK_pos by (subst db_save_chunks.simps) (simp add: Let_def)
    have "sent + length ?d \<ge> fsz \<longleftrightarrow> ?r = []" using less.prems(2) by auto
    with c have c: "db_save_chunks fsz sent rest = db_save_data_packet (?r = []) ?d
        # db_save_chunks fsz (sent + length ?d) ?r" by (simp only:)
    note step = data_packet [of ?d st p acc "?r = []" q, OF _ less.prems(1)]
    show ?thesis
    proof (cases "?r = []")
      case True
      then show ?thesis unfolding c using step False by (simp add: db_save_chunks.simps)
    next
      case r: False
      let ?st = "st\<lparr> disk := (disk st)(p \<mapsto> acc @ ?d) \<rparr>"
      have "db_uploads base (map (Pair 0x25) (db_save_chunks fsz (sent + length ?d) ?r)) (?st, \<lparr> db_fp = Some p, db_path = q \<rparr>) =
          Some (?st\<lparr> disk := (disk ?st)(p \<mapsto> (acc @ ?d) @ ?r) \<rparr>, if ?r = [] then \<lparr> db_fp = Some p, db_path = q \<rparr> else no_upload)"
        by (rule less.hyps) (use False CHUNK_pos less.prems(2) in auto)
      moreover have "db_save_data (db_save_data_packet (?r = []) ?d) (length (db_save_data_packet (?r = []) ?d))
          (st, \<lparr> db_fp = Some p, db_path = q \<rparr>) = Some ((?st, \<lparr> db_fp = Some p, db_path = q \<rparr>), False)"
        using step r by simp
      ultimately show ?thesis unfolding c using r False by (simp del: drop_eq_Nil)
    qed
  qed
qed

lemma size_meta_packet: "length (db_save_meta_packet fn n op info) = 1193"
  by (simp add: db_save_meta_packet_def)

definition db_dst :: "files \<Rightarrow> string \<Rightarrow> string \<Rightarrow> string" where
  "db_dst fs base fn = path_in (path_in base (db_subdir_for fn)) (db_unique_name fs base (db_subdir_for fn) fn)"

lemma meta_uploaded:
  assumes "db_filename_safe fn" "path_in base (db_subdir_for fn) \<in> dirs (db_ensure_dirs base st)"
  defines "dst \<equiv> db_dst (disk st) base fn"
  shows "\<exists>st'. db_save_meta False base (db_save_meta_packet fn n op info) 1193 (st, up) =
      (st', \<lparr> db_fp = Some dst, db_path = dst \<rparr>) \<and> disk st' dst = Some [] \<and>
      (\<forall>q. q \<noteq> dst \<longrightarrow> q \<noteq> sidecar_path dst \<longrightarrow> disk st' q = disk st q)"
proof -
  have "text_of 128 (db_save_meta_packet fn n op info) = fn"
    unfolding db_save_meta_packet_def using text_of_str_buf [OF safe_no_nul safe_length] assms(1) by simp
  then show ?thesis using assms(1,2)
    by (simp add: db_save_meta_def Let_def dst_def db_dst_def db_ensure_dirs_def)
qed



section \<open>The length check of a chunk\<close>

text \<open>
  C17: the check of the chunk length against the packet wraps at 32 bits.  Handling an upload
  chunk reads outside the receive buffer exactly when the announced length is at least
  \<^verbatim>\<open>2^32 - 6\<close>; for every smaller length it stays inside the packet.
\<close>

theorem db_save_data_overrun:
  assumes "6 \<le> plen" "plen \<le> length buf" "length buf < 2 ^ 31" "db_fp up = Some p"
  shows "db_save_data buf plen (st, up) = None \<longleftrightarrow> 2 ^ 32 - 6 \<le> le_nat (take 4 (drop 2 buf))"
proof -
  define n where "n = le_nat (take 4 (drop 2 buf))"
  have len: "length (take 4 (drop 2 buf)) = 4" using assms(1,2) by simp
  have n: "n < 2 ^ 32" using le_nat_bound [of "take 4 (drop 2 buf)"] len by (simp only: n_def) simp
  have u: "unat (of_nat n :: u32) = n" using n by (simp add: unat_of_nat)
  have "(6 :: u32) + of_nat n = of_nat (6 + n)" by simp
  then have w: "unat ((6 :: u32) + of_nat n) = (6 + n) mod 2 ^ 32" by (simp only: unat_of_nat) simp
  have "db_save_data buf plen (st, up) = None \<longleftrightarrow> (6 + n) mod 2 ^ 32 \<le> plen \<and> length buf < 6 + n"
    using assms(1,4) by (auto simp: db_save_data_def Let_def n_def [symmetric] u w)
  also have "\<dots> \<longleftrightarrow> 2 ^ 32 - 6 \<le> n"
  proof (cases "2 ^ 32 - 6 \<le> n")
    case True
    then have "(6 + n) mod 2 ^ 32 = 6 + n - 2 ^ 32" using n by (subst le_mod_geq) auto
    then show ?thesis using True n assms(1,3) by simp
  next
    case False
    then show ?thesis using assms(2) by simp
  qed
  finally show ?thesis by (simp only: n_def)
qed

theorem db_save_data_overrun_witness:
  "db_save_data [1, 0, 0xFF, 0xFF, 0xFF, 0xFF] 6 (\<lparr> disk = Map.empty, dirs = {} \<rparr>, \<lparr> db_fp = Some ''x'', db_path = ''x'' \<rparr>) = None"
  using db_save_data_overrun [of 6 "[1, 0, 0xFF, 0xFF, 0xFF, 0xFF]" "\<lparr> db_fp = Some ''x'', db_path = ''x'' \<rparr>" "''x''"]
  by simp

section \<open>Confinement\<close>

text \<open>A path component, and the paths inside the database.\<close>

definition component :: "string \<Rightarrow> bool" where
  "component s \<longleftrightarrow> s \<noteq> [] \<and> s \<noteq> ''.'' \<and> s \<noteq> ''..'' \<and> CHR ''/'' \<notin> set s"

definition db_subdirs :: "string set" where
  "db_subdirs = {''iq'', ''audio'', ''hist'', ''tle'', ''satframe''}"

definition confined :: "string \<Rightarrow> string \<Rightarrow> bool" where
  "confined base p \<longleftrightarrow> (\<exists>name. component name \<and>
     (p = path_in base name \<or> (\<exists>sub\<in>db_subdirs. p = path_in (path_in base sub) name)))"

lemma safe_component: "db_filename_safe s \<Longrightarrow> component s"
  by (auto simp: db_filename_safe_def component_def list_all_iff)

lemma subdir_for_in: "db_subdir_for fn \<in> db_subdirs"
  by (simp add: db_subdir_for_def db_subdirs_def)

lemma dec_str_no_slash: "CHR ''/'' \<notin> set (dec_str n)"
proof (induction n rule: less_induct)
  case (less n)
  have d: "CHR ''/'' \<noteq> char_of (k + 48)" if "k < 10" for k :: nat
  proof
    assume "CHR ''/'' = char_of (k + 48)"
    then have "char_of (k + 48) = CHR ''/''" by (rule sym)
    then have "of_char (char_of (k + 48)) = (of_char (CHR ''/'') :: nat)" by (rule arg_cong)
    then show False using that by (simp add: of_char_of)
  qed
  show ?case
  proof (cases "n < 10")
    case True
    then show ?thesis using d [of n] by (subst dec_str.simps) simp
  next
    case False
    then show ?thesis using d [of "n mod 10"] less [of "n div 10"] by (subst dec_str.simps) simp
  qed
qed

lemma component_underscore: "CHR ''_'' \<in> set s \<Longrightarrow> CHR ''/'' \<notin> set s \<Longrightarrow> component s"
  by (auto simp: component_def)

lemma unique_from_component:
  "component cand \<Longrightarrow> CHR ''/'' \<notin> set stem \<Longrightarrow> CHR ''/'' \<notin> set ext \<Longrightarrow> length stem < 128 \<Longrightarrow>
     component (unique_from fs dir stem ext n cand)"
proof (induction fs dir stem ext n cand rule: unique_from.induct)
  case (2 fs dir stem ext n cand)
  let ?c = "take 159 (stem @ ''_'' @ dec_str (1000 - n) @ ext)"
  have "?c = stem @ CHR ''_'' # take (158 - length stem) (dec_str (1000 - n) @ ext)"
    using 2(5) by (simp add: take_Cons')
  then have "CHR ''_'' \<in> set ?c" by simp
  moreover have "CHR ''/'' \<notin> set ?c" using 2(3,4) dec_str_no_slash [of "1000 - n"] by (auto dest!: in_set_takeD)
  ultimately have "component ?c" by (rule component_underscore)
  then show ?case using 2 by (cases "fs (path_in dir cand) = None") simp_all
qed simp

lemma unique_component:
  assumes "db_filename_safe fn"
  shows "component (db_unique_name fs base sub fn)"
proof -
  note c = safe_component [OF assms]
  have "CHR ''/'' \<notin> set fn" using c by (simp add: component_def)
  then have "CHR ''/'' \<notin> set (take k fn)" "CHR ''/'' \<notin> set (drop k fn)" for k
    by (blast dest: in_set_takeD in_set_dropD)+
  then show ?thesis using unique_from_component [OF c] safe_length [OF assms] \<open>CHR ''/'' \<notin> set fn\<close>
    by (simp add: db_unique_name_def Let_def split: option.split)
qed

lemma confined_sub: "component name \<Longrightarrow> sub \<in> db_subdirs \<Longrightarrow> confined base (path_in (path_in base sub) name)"
  by (auto simp: confined_def)

lemma sidecar_of_component:
  assumes "component name"
  obtains name' where "component name'" "\<And>dir. sidecar_path (path_in dir name) = path_in dir name'"
proof -
  have "\<exists>name'. component name' \<and> (\<forall>dir. sidecar_path (path_in dir name) = path_in dir name')"
  proof (cases "is_sigmf_data name")
    case True
    then obtain A where A: "name = A @ ''.sigmf-data''" by (rule sigmf_sidecar)
    have "sidecar_path (path_in dir name) = path_in dir (A @ ''.sigmf-meta'')" for dir
    proof -
      have "find_last_of CHR ''.'' (path_in dir name) = Some (length (path_in dir A))"
        by (simp add: A find_last_of_def path_in_def)
      then show ?thesis
        by (simp add: sidecar_path_def is_sigmf_data_def meta_path_def strip_iq_ext_def A path_in_def)
    qed
    moreover have "component (A @ ''.sigmf-meta'')" using assms by (auto simp: A component_def)
    ultimately show ?thesis by blast
  next
    case False
    have "\<not> is_sigmf_data (path_in dir name)" for dir
    proof
      assume "is_sigmf_data (path_in dir name)"
      then obtain A where A: "path_in dir name = A @ ''.sigmf-data''" by (rule sigmf_sidecar)
      have "suffix name (path_in dir name)" by (simp add: path_in_def suffix_def)
      moreover have "suffix ''.sigmf-data'' (path_in dir name)" unfolding A by (simp add: suffix_def)
      ultimately have "suffix name ''.sigmf-data'' \<or> suffix ''.sigmf-data'' name"
        by (rule suffix_same_cases)
      moreover have "\<not> (suffix name ''.sigmf-data'' \<and> name \<noteq> ''.sigmf-data'')"
      proof
        assume s: "suffix name ''.sigmf-data'' \<and> name \<noteq> ''.sigmf-data''"
        then obtain B where B: "''.sigmf-data'' = B @ name" "B \<noteq> []" by (auto simp: suffix_def)
        have "rev (path_in dir name) = rev name @ CHR ''/'' # rev dir" by (simp add: path_in_def)
        moreover have "rev (path_in dir name) = rev ''.sigmf-data'' @ rev A" unfolding A by simp
        ultimately have "rev name @ CHR ''/'' # rev dir = rev name @ rev B @ rev A" unfolding B(1) by simp
        then have "CHR ''/'' # rev dir = rev B @ rev A" by simp
        then have "CHR ''/'' \<in> set B" using B(2) by (cases B rule: rev_cases) auto
        then have "CHR ''/'' \<in> set (''.sigmf-data'')" unfolding B(1) by simp
        then show False by simp
      qed
      ultimately have "suffix ''.sigmf-data'' name" by (metis suffix_order.refl)
      then obtain C where "name = C @ ''.sigmf-data''" unfolding suffix_def by blast
      then show False using False by (simp add: is_sigmf_data_def find_last_of_def)
    qed
    then have "\<forall>dir. sidecar_path (path_in dir name) = path_in dir (name @ ''.info'')"
      by (simp add: sidecar_path_def path_in_def)
    moreover have "component (name @ ''.info'')" using assms by (auto simp: component_def)
    ultimately show ?thesis by blast
  qed
  then show ?thesis using that by blast
qed

lemma find_in_set: "List.find P xs = Some x \<Longrightarrow> x \<in> set xs"
  by (auto simp: find_Some_iff)

lemma confined_sidecar: "confined base p \<Longrightarrow> confined base (sidecar_path p)"
proof -
  assume "confined base p"
  then obtain name where n: "component name"
    "p = path_in base name \<or> (\<exists>sub\<in>db_subdirs. p = path_in (path_in base sub) name)"
    unfolding confined_def by blast
  obtain name' where "component name'" "\<And>dir. sidecar_path (path_in dir name) = path_in dir name'"
    using sidecar_of_component [OF n(1)] by blast
  then show ?thesis using n(2) unfolding confined_def by blast
qed

text \<open>
  No request reaches a file outside the database.  Saving, deleting and annotating change
  only paths that consist of the database directory, at most one of its five subdirectories, and
  one component that is no dot entry; and the handle an upload appends to is such a path.
\<close>

theorem db_paths_confined:
  "(disk (fst (db_save_meta h base buf n (st, up))) p \<noteq> disk st p \<longrightarrow> confined base p) \<and>
   (db_fp (snd (db_save_meta h base buf n (st, up))) = Some p \<longrightarrow> confined base p \<or> db_fp up = Some p) \<and>
   (\<forall>S fin. db_save_data buf n (st, up) = Some (S, fin) \<longrightarrow> disk (fst S) p \<noteq> disk st p \<longrightarrow> db_fp up = Some p) \<and>
   (fst (db_delete base buf n fs) p \<noteq> fs p \<longrightarrow> confined base p) \<and>
   (fst (db_set_note nums base buf n fs) p \<noteq> fs p \<longrightarrow> confined base p)"
proof (intro conjI allI impI)
  let ?fn = "text_of 128 buf"
  let ?dst = "if h \<and> db_subdir_for ?fn = ''satframe'' then path_in (path_in base (db_subdir_for ?fn)) ?fn
    else db_dst (disk st) base ?fn"
  have dst: "db_filename_safe ?fn \<Longrightarrow> confined base ?dst"
    unfolding db_dst_def
    by (simp only: confined_sub [OF safe_component subdir_for_in] confined_sub [OF unique_component subdir_for_in]
        simp_thms split: if_split)
  have tgt: "db_filename_safe ?fn \<Longrightarrow> confined base (db_target_path fs base ?fn)"
  proof -
    assume s: "db_filename_safe ?fn"
    show "confined base (db_target_path fs base ?fn)"
    proof (cases "db_lookup fs base ?fn")
      case None
      then show ?thesis using safe_component [OF s] by (auto simp: db_target_path_def confined_def)
    next
      case (Some q)
      then have "q \<in> set (map (\<lambda>sub. path_in (path_in base sub) ?fn) [db_subdir_for ?fn, ''iq'', ''audio'', ''hist''])"
        unfolding db_lookup_def by (rule find_in_set)
      then obtain sub where "sub \<in> {db_subdir_for ?fn, ''iq'', ''audio'', ''hist''}" "q = path_in (path_in base sub) ?fn"
        by auto
      moreover have "{db_subdir_for ?fn, ''iq'', ''audio'', ''hist''} \<subseteq> db_subdirs"
        using subdir_for_in [of ?fn] by (simp add: db_subdirs_def)
      ultimately show ?thesis using confined_sub [OF safe_component [OF s]] Some
        by (auto simp: db_target_path_def simp del: insert_subset)
    qed
  qed
  show "confined base p" if "disk (fst (db_save_meta h base buf n (st, up))) p \<noteq> disk st p"
    using that dst confined_sidecar [OF dst]
    by (auto simp: db_save_meta_def Let_def db_ensure_dirs_def db_dst_def split: if_splits)
  show "confined base p \<or> db_fp up = Some p" if "db_fp (snd (db_save_meta h base buf n (st, up))) = Some p"
    using that dst by (auto simp: db_save_meta_def Let_def db_ensure_dirs_def db_dst_def split: if_splits)
  show "db_fp up = Some p" if "db_save_data buf n (st, up) = Some (S, fin)" "disk (fst S) p \<noteq> disk st p" for S fin
    using that by (auto simp: db_save_data_def Let_def append_file_def split: if_splits option.splits)
  show "confined base p" if "fst (db_delete base buf n fs) p \<noteq> fs p"
    using that tgt confined_sidecar [OF tgt] by (auto simp: db_delete_def Let_def split: if_splits)
  show "confined base p" if "fst (db_set_note nums base buf n fs) p \<noteq> fs p"
    using that tgt confined_sidecar [OF tgt]
    by (auto simp: db_set_note_def Let_def update_note_def sidecar_path_def split: if_splits)
qed

theorem db_paths_confined_witness:
  "confined ''DB'' ''DB/iq/a.wav''"
proof -
  let ?fs = "[''DB/iq/a.wav'' \<mapsto> ''RIFF'']" and ?b = "str_buf 128 (bytes_of ''a.wav'') @ replicate 32 0"
  have t: "text_of 128 ?b = ''a.wav''" by (rule text_of_str_buf) simp_all
  have "fst (db_delete ''DB'' ?b 160 ?fs) ''DB/iq/a.wav'' \<noteq> ?fs ''DB/iq/a.wav''"
    unfolding db_delete_def Let_def t
    by (simp add: db_target_path_def db_lookup_def db_subdir_for_def strstr_def path_in_def
        db_filename_safe_def suffix_def Cons_eq_append_conv append_eq_Cons_conv)
  then show ?thesis
    using db_paths_confined [of False "''DB''" ?b 160 undefined undefined "''DB/iq/a.wav''" ?fs "\<lambda>s m. m"] by blast
qed

end
