(* ===== verification/Relay.thy ===== *)
theory Relay
  imports Framing SendQueue DbFiles
begin

text \<open>
  The relay server, \<^verbatim>\<open>central/central_server.cpp\<close>: rooms with one HOST and several
  JOIN connections, the per-room packet caches, dispatch of HOST packets to JOINs,
  interception of JOIN packets, the operator list, channel synchronisation and chat.  A room
  is its index in the list of rooms, a JOIN its index in the room.  The mutexes make each of
  these functions one step.  What a function hands to the file archives and databases of the
  server is recorded in \<^verbatim>\<open>calls\<close>, and what it enqueues to a connection in
  \<^verbatim>\<open>je_ops\<close>, the operations of \<^verbatim>\<open>SendQueue\<close>.  The zstd library is a parameter.
\<close>

section \<open>State\<close>

record join_entry =
  conn_id :: u16
  je_open :: bool
  je_alive :: bool
  recv_audio :: "bool list"
  je_name :: bytes
  je_tier :: u8
  op_index :: u8
  authed :: bool
  file_transfers :: int
  fft_paused :: bool
  mod_recv :: "bytes set"
  je_upload :: upload
  je_ops :: "qop list"

record arch_rx =
  arch_date :: bytes
  arch_total :: nat
  arch_raw :: nat
  arch_buf :: bytes
  arch_active :: bool

record host_room =
  station_id :: bytes
  station_name :: bytes
  rm_open :: bool
  rm_alive :: bool
  resetting :: bool
  last_hb :: int
  hb_count :: nat
  host_send_queue :: "bytes list"
  joins :: "join_entry list"
  next_conn_id :: u16
  user_count :: u8
  cached_heartbeat :: bytes
  cached_status :: bytes
  cached_ch_sync :: bytes
  cached_op_list :: bytes
  cached_sched_sync :: bytes
  cached_mission_sync :: bytes
  mod_mask :: "bytes \<rightharpoonup> u32"
  arch_rx :: "bytes \<rightharpoonup> arch_rx"
  operator_login :: "bytes option"
  host_name :: bytes
  host_tier :: u8
  host_upload :: upload

text \<open>Calls into the parts of the server that are other components.\<close>

datatype relay_call =
    MissionFile u8 bytes
  | HistLive u8 bytes
  | HistFft bytes
  | MissionShadow bytes
  | SaveSchedules
  | SaveMissions
  | Report bytes
  | EmitterRequest u8 bytes
  | WipeMission bytes nat bytes
  | ModuleQuery bytes
  | ModuleHistory bytes
  | ModuleStore bytes bytes
  | ModuleArchive bytes bytes string bytes

record relay =
  rooms :: "host_room list"
  sched_by_station :: "bytes \<rightharpoonup> bytes"
  missions_by_station :: "bytes \<rightharpoonup> bytes"
  db :: store
  calls :: "(nat \<times> nat option \<times> relay_call) list"

text \<open>
  What the relay takes from outside: the zstd and zlib libraries, the location of the database, the
  directory scan and the parser of the numeric sidecar members.
\<close>

record server_env =
  zs_on :: bool
  zs_compress :: "bytes \<Rightarrow> bytes option"
  zs_decompress :: "bytes \<Rightarrow> bytes option"
  db_base :: string
  scan :: "string \<Rightarrow> (int \<times> string) list"
  inflate :: "bytes \<Rightarrow> nat \<Rightarrow> bytes option"
  note_nums :: "string \<Rightarrow> Meta \<Rightarrow> Meta"

definition pkt_type :: "bytes \<Rightarrow> u8" where "pkt_type p = p ! 4"
definition pkt_body :: "bytes \<Rightarrow> bytes" where "pkt_body p = drop BEWE_HDR_SIZE p"

definition new_room :: "bytes \<Rightarrow> bytes \<Rightarrow> bytes \<Rightarrow> u8 \<Rightarrow> int \<Rightarrow> host_room" where
  "new_room sid sname hname tier now = \<lparr> station_id = sid, station_name = sname, rm_open = True, rm_alive = True,
     resetting = False, last_hb = now, hb_count = 0, host_send_queue = [], joins = [], next_conn_id = 1,
     user_count = 0, cached_heartbeat = [], cached_status = [], cached_ch_sync = [], cached_op_list = [],
     cached_sched_sync = [], cached_mission_sync = [], mod_mask = Map.empty, arch_rx = Map.empty,
     operator_login = None, host_name = hname, host_tier = tier, host_upload = no_upload \<rparr>"

definition new_join :: "u16 \<Rightarrow> join_entry" where
  "new_join cid = \<lparr> conn_id = cid, je_open = True, je_alive = True,
     recv_audio = replicate MAX_CHANNELS_RELAY True, je_name = replicate 32 0, je_tier = 0,
     op_index = 0, authed = False, file_transfers = 0, fft_paused = False, mod_recv = {}, je_upload = no_upload, je_ops = [] \<rparr>"

definition upd_room :: "nat \<Rightarrow> (host_room \<Rightarrow> host_room) \<Rightarrow> relay \<Rightarrow> relay" where
  "upd_room i f R = R\<lparr> rooms := (rooms R)[i := f (rooms R ! i)] \<rparr>"

definition upd_join :: "nat \<Rightarrow> (join_entry \<Rightarrow> join_entry) \<Rightarrow> host_room \<Rightarrow> host_room" where
  "upd_join k f r = r\<lparr> joins := (joins r)[k := f (joins r ! k)] \<rparr>"

definition log_call :: "nat \<Rightarrow> nat option \<Rightarrow> relay_call \<Rightarrow> relay \<Rightarrow> relay" where
  "log_call i k c R = R\<lparr> calls := calls R @ [(i, k, c)] \<rparr>"

definition je_send :: "qop \<Rightarrow> join_entry \<Rightarrow> join_entry" where
  "je_send x je = je\<lparr> je_ops := je_ops je @ [x] \<rparr>"

definition send_to :: "(join_entry \<Rightarrow> bool) \<Rightarrow> qop \<Rightarrow> host_room \<Rightarrow> host_room" where
  "send_to P x r = r\<lparr> joins := map (\<lambda>je. if P je then je_send x je else je) (joins r) \<rparr>"

definition enqueue_host_send :: "u16 \<Rightarrow> u8 \<Rightarrow> bytes \<Rightarrow> host_room \<Rightarrow> host_room" where
  "enqueue_host_send cid type data r =
     r\<lparr> host_send_queue := host_send_queue r @ [mux_frame cid type data] \<rparr>"

definition MUX_DATA :: u8 where "MUX_DATA = 0x01"
definition MUX_CONN_OPEN :: u8 where "MUX_CONN_OPEN = 0x02"
definition MUX_CONN_CLOSE :: u8 where "MUX_CONN_CLOSE = 0x03"
definition MUX_NET_RESET :: u8 where "MUX_NET_RESET = 0x04"
definition MUX_HOST_STATE :: u8 where "MUX_HOST_STATE = 0x05"

section \<open>Chat\<close>

definition chat_target :: "bool \<Rightarrow> join_entry \<Rightarrow> bool" where
  "chat_target skip je \<longleftrightarrow> je_alive je \<and> authed je \<and> je_open je \<and> \<not> skip"

definition send_chat :: "nat option \<Rightarrow> bytes \<Rightarrow> host_room \<Rightarrow> host_room" where
  "send_chat skip pkt r =
     r\<lparr> joins := map (\<lambda>(k, je). if chat_target (skip = Some k) je then je_send (Fft pkt) je else je)
          (enumerate 0 (joins r)) \<rparr>"

definition broadcast_room_chat :: "nat \<Rightarrow> nat option \<Rightarrow> bytes \<Rightarrow> relay \<Rightarrow> relay" where
  "broadcast_room_chat i skip pkt R = upd_room i (send_chat skip pkt) R"

definition broadcast_global_chat :: "bytes \<Rightarrow> nat \<Rightarrow> nat option \<Rightarrow> relay \<Rightarrow> relay" where
  "broadcast_global_chat pkt skip_host skip_join R =
     R\<lparr> rooms := map (\<lambda>(i, r).
          if \<not> rm_alive r then r
          else let r = (if i \<noteq> skip_host \<and> rm_open r then enqueue_host_send 0xFFFF MUX_DATA pkt r else r)
               in send_chat (if i = skip_host then skip_join else None) pkt r)
          (enumerate 0 (rooms R)) \<rparr>"

section \<open>Operator list\<close>

definition op_entry :: "u8 \<Rightarrow> u8 \<Rightarrow> bytes \<Rightarrow> bytes" where
  "op_entry idx tier name = [idx, tier] @ str_buf 32 name"

definition host_label :: "host_room \<Rightarrow> bytes" where
  "host_label r = (case operator_login r of
      Some l \<Rightarrow> if cstr 32 l \<noteq> [] then cstr 32 l else cstr 32 (host_name r)
    | None \<Rightarrow> cstr 32 (host_name r))"

definition op_list_body :: "host_room \<Rightarrow> bytes" where
  "op_list_body r =
     (let js = take (BEWE_MAX_OPERATORS - 1) (filter (\<lambda>je. authed je \<and> je_alive je) (joins r));
          es = op_entry 0 (host_tier r) (host_label r)
               # map (\<lambda>je. op_entry (op_index je) (je_tier je) (cstr 32 (je_name je))) js
      in of_nat (length es) # concat es)"

definition build_and_broadcast_op_list :: "host_room \<Rightarrow> host_room" where
  "build_and_broadcast_op_list r =
     (let pkt = make_packet 0x09 (op_list_body r);
          r = r\<lparr> cached_op_list := pkt \<rparr>;
          r = send_to (\<lambda>je. je_alive je \<and> je_open je) (Ctrl pkt) r
      in if rm_alive r \<and> rm_open r then enqueue_host_send 0xFFFF MUX_DATA pkt r else r)"

section \<open>File list\<close>

definition broadcast_db_list :: "server_env \<Rightarrow> store \<Rightarrow> nat option \<Rightarrow> host_room \<Rightarrow> host_room" where
  "broadcast_db_list Z st only r =
     (let pkt = make_packet 0x26 (db_list_body (scan Z) (db_base Z) (disk st))
      in case only of
           Some k \<Rightarrow> upd_join k (je_send (Ctrl pkt)) r
         | None \<Rightarrow> send_to (\<lambda>je. je_alive je \<and> je_open je \<and> authed je) (Ctrl pkt)
                     (enqueue_host_send 0xFFFF MUX_DATA pkt r))"

section \<open>Channel synchronisation\<close>

definition CH_SYNC_RAW_BODY :: nat where
  "CH_SYNC_RAW_BODY = CH_SYNC_ENTRY_SIZE * MAX_CHANNELS_RELAY"

definition mask_at :: "nat \<Rightarrow> nat" where
  "mask_at ch = BEWE_HDR_SIZE + ch * CH_SYNC_ENTRY_SIZE + CH_SYNC_MASK_OFFSET"

definition listener_mask :: "join_entry list \<Rightarrow> nat \<Rightarrow> u32 \<Rightarrow> u32" where
  "listener_mask js ch orig =
     foldl (\<lambda>m je. if authed je \<and> je_alive je \<and> recv_audio je ! ch
                   then m OR push_bit (unat (op_index je)) 1 else m) (orig AND 1) js"

definition rewrite_masks :: "join_entry list \<Rightarrow> bytes \<Rightarrow> bytes" where
  "rewrite_masks js base =
     foldl (\<lambda>b ch. let orig = of_nat (le_nat (take 4 (drop (mask_at ch) b)))
                   in splice (mask_at ch) (le_bytes 4 (unat (listener_mask js ch orig))) b)
       base [0..<MAX_CHANNELS_RELAY]"

definition compress_chsync :: "server_env \<Rightarrow> bytes \<Rightarrow> bytes" where
  "compress_chsync Z raw =
     (if \<not> zs_on Z \<or> length raw < BEWE_HDR_SIZE + CH_SYNC_RAW_BODY then raw
      else case zs_compress Z (take CH_SYNC_RAW_BODY (drop BEWE_HDR_SIZE raw)) of
             None \<Rightarrow> raw
           | Some z \<Rightarrow> if length z \<ge> CH_SYNC_RAW_BODY then raw
                       else take 5 raw @ le_bytes 4 (length z) @ z)"

definition rebuild_and_broadcast_ch_sync :: "server_env \<Rightarrow> bool \<Rightarrow> host_room \<Rightarrow> host_room" where
  "rebuild_and_broadcast_ch_sync Z send_to_host r =
     (if cached_ch_sync r = [] then r
      else if length (cached_ch_sync r) < BEWE_HDR_SIZE + CH_SYNC_RAW_BODY then r
      else let base = rewrite_masks (joins r) (cached_ch_sync r);
               out = compress_chsync Z base;
               r = send_to (\<lambda>je. je_alive je \<and> je_open je) (Ctrl out) r;
               r = r\<lparr> cached_ch_sync := base \<rparr>
           in if send_to_host \<and> rm_alive r \<and> rm_open r
              then enqueue_host_send 0xFFFF MUX_DATA out r else r)"

definition dispatch_ch_sync :: "server_env \<Rightarrow> bytes \<Rightarrow> host_room \<Rightarrow> host_room" where
  "dispatch_ch_sync Z pkt r =
     (let body = pkt_body pkt
      in if length body = CH_SYNC_RAW_BODY
         then rebuild_and_broadcast_ch_sync Z False (r\<lparr> cached_ch_sync := pkt \<rparr>)
         else case zs_decompress Z body of
                None \<Rightarrow> r
              | Some raw \<Rightarrow>
                  if length raw \<noteq> CH_SYNC_RAW_BODY then r
                  else rebuild_and_broadcast_ch_sync Z False
                         (r\<lparr> cached_ch_sync := take 5 pkt @ le_bytes 4 CH_SYNC_RAW_BODY @ raw \<rparr>))"

end
