(* ===== verification/RelayDispatch.thy ===== *)
theory RelayDispatch
  imports Relay
begin

text \<open>
  Packets from a HOST at the relay: \<^verbatim>\<open>dispatch_to_joins\<close> and
  \<^verbatim>\<open>handle_host_module_pipe\<close> of \<^verbatim>\<open>central/central_server.cpp\<close>, one definition per
  branch.  A packet is handled in the receive buffer of its connection; \<^verbatim>\<open>stale\<close> is what
  follows it there.  \<^verbatim>\<open>None\<close> is an access outside the buffer.
\<close>

section \<open>Authentication answer\<close>

fun find_conn :: "u16 \<Rightarrow> join_entry list \<Rightarrow> nat option" where
  "find_conn c [] = None"
| "find_conn c (je # js) = (if conn_id je = c then Some 0 else map_option Suc (find_conn c js))"

definition auth_ack_target :: "bytes \<Rightarrow> u16 \<Rightarrow> host_room \<Rightarrow> nat option" where
  "auth_ack_target pkt cid r =
     (if pkt_type pkt = 0x02 \<and> length pkt \<ge> BEWE_HDR_SIZE + 2 \<and> pkt ! BEWE_HDR_SIZE \<noteq> 0 \<and> cid \<noteq> 0xFFFF
      then find_conn cid (joins r) else None)"

definition cached_packets :: "host_room \<Rightarrow> bytes list" where
  "cached_packets r = filter (\<lambda>p. p \<noteq> []) [cached_heartbeat r, cached_status r, cached_ch_sync r,
     cached_op_list r, cached_sched_sync r, cached_mission_sync r]"

definition dispatch_auth_ack :: "server_env \<Rightarrow> store \<Rightarrow> nat \<Rightarrow> bytes \<Rightarrow> host_room \<Rightarrow> host_room" where
  "dispatch_auth_ack Z st k pkt r =
     (let r = upd_join k (\<lambda>je. je\<lparr> op_index := pkt ! (BEWE_HDR_SIZE + 1), authed := True \<rparr>) r;
          r = upd_join k (\<lambda>je. je\<lparr> je_ops := je_ops je @ map Ctrl (pkt # cached_packets r) \<rparr>) r
      in broadcast_db_list Z st (Some k) (build_and_broadcast_op_list r))"

section \<open>Caches\<close>

definition cache_status :: "bytes \<Rightarrow> host_room \<Rightarrow> host_room" where
  "cache_status pkt r =
     (if pkt_type pkt = 0x14 then r\<lparr> cached_heartbeat := pkt \<rparr>
      else if pkt_type pkt = 0x08 then r\<lparr> cached_status := pkt \<rparr> else r)"

definition cache_sched :: "nat \<Rightarrow> bytes \<Rightarrow> relay \<Rightarrow> relay" where
  "cache_sched i pkt R =
     (if pkt_type pkt \<noteq> 0x30 then R
      else let R = upd_room i (\<lambda>r. r\<lparr> cached_sched_sync := pkt \<rparr>) R;
               R = R\<lparr> sched_by_station := (sched_by_station R)(station_id (rooms R ! i) \<mapsto> pkt) \<rparr>
           in log_call i None SaveSchedules R)"

definition sync_name :: "bytes \<Rightarrow> bytes" where
  "sync_name e = (if e ! 0 = 0 then [] else cstr 64 (at_member MissionSyncEntry ''station_name'' e))"

definition mission_sync_station_key :: "host_room \<Rightarrow> bytes \<Rightarrow> bytes" where
  "mission_sync_station_key r pkt =
     (if length pkt < BEWE_HDR_SIZE + size_of PktMissionSync then station_id r
      else let s = pkt_body pkt;
               active = at_member PktMissionSync ''active'' s;
               cnt = min 32 (le_nat (take 2 (at_member PktMissionSync ''history_count'' s)));
               entries = chunks cnt (size_of MissionSyncEntry) (at_member PktMissionSync ''entries'' s);
               names = (if s ! 0 \<noteq> 0 then [sync_name active] else []) @ map sync_name entries
           in case filter (\<lambda>n. n \<noteq> []) names of n # _ \<Rightarrow> n | [] \<Rightarrow> station_id r)"

definition cache_mission :: "nat \<Rightarrow> bytes \<Rightarrow> relay \<Rightarrow> relay" where
  "cache_mission i pkt R =
     (if pkt_type pkt \<noteq> 0x48 then R
      else let R = upd_room i (\<lambda>r. r\<lparr> cached_mission_sync := pkt \<rparr>) R;
               R = R\<lparr> missions_by_station :=
                 (missions_by_station R)(mission_sync_station_key (rooms R ! i) pkt \<mapsto> pkt) \<rparr>
           in log_call i None (MissionShadow pkt) (log_call i None SaveMissions R))"

section \<open>Module pipe\<close>

definition mod_target :: "bytes option \<Rightarrow> join_entry \<Rightarrow> bool" where
  "mod_target sub je \<longleftrightarrow> authed je \<and> je_alive je \<and> je_open je \<and>
     (case sub of None \<Rightarrow> True | Some m \<Rightarrow> m \<in> mod_recv je)"

definition broadcast_module_pkt_all :: "bytes \<Rightarrow> bytes option \<Rightarrow> relay \<Rightarrow> relay" where
  "broadcast_module_pkt_all pkt sub R =
     R\<lparr> rooms := map (\<lambda>r. if rm_alive r then send_to (mod_target sub) (Ctrl pkt) r else r) (rooms R) \<rparr>"

definition valid_date8 :: "bytes \<Rightarrow> bool" where
  "valid_date8 d \<longleftrightarrow> (\<forall>i\<in>{0..<8}. 0x30 \<le> d ! i \<and> d ! i \<le> 0x39) \<and> d ! 8 = 0"

text \<open>\<^verbatim>\<open>o\<close> characters are written so far.\<close>

fun station_chars :: "nat \<Rightarrow> nat \<Rightarrow> bytes \<Rightarrow> bytes" where
  "station_chars cap k [] = []"
| "station_chars cap k (c # s) =
     (if c = 0x5F \<or> k + 1 \<ge> cap then []
      else (if (0x30 \<le> c \<and> c \<le> 0x39) \<or> (0x41 \<le> c \<and> c \<le> 0x5A) \<or> (0x61 \<le> c \<and> c \<le> 0x7A) \<or> c = 0x2D
            then c else 0x5F) # station_chars cap (Suc k) s)"

definition arch_station_disp :: "bytes \<Rightarrow> nat \<Rightarrow> string" where
  "arch_station_disp sid cap =
     (let s = station_chars cap 0 sid in if s = [] \<and> cap > 6 then ''LOCAL'' else chars_of s)"

definition no_arch :: arch_rx where
  "no_arch = \<lparr> arch_date = replicate 9 0, arch_total = 0, arch_raw = 0, arch_buf = [], arch_active = False \<rparr>"

definition arch_meta :: "bytes \<Rightarrow> bytes \<Rightarrow> host_room \<Rightarrow> host_room" where
  "arch_meta m d r =
     (let date8 = take 8 d @ [0];
          total = le_nat (take 4 (at_member MpArchMeta ''total_bytes'' d));
          raw = le_nat (take 4 (at_member MpArchMeta ''raw_bytes'' d))
      in if \<not> valid_date8 date8 then r
         else r\<lparr> arch_rx := (arch_rx r)(m \<mapsto> no_arch\<lparr> arch_date := date8, arch_total := total, arch_raw := raw,
                               arch_active := total \<le> 256 * 1024 * 1024 \<rparr>) \<rparr>)"

definition arch_chunk :: "bytes \<Rightarrow> bytes \<Rightarrow> host_room \<Rightarrow> host_room" where
  "arch_chunk m d r =
     (case arch_rx r m of
        None \<Rightarrow> r
      | Some x \<Rightarrow>
          if \<not> arch_active x then r
          else if length (arch_buf x) + length d > arch_total x
          then r\<lparr> arch_rx := (arch_rx r)(m \<mapsto> x\<lparr> arch_active := False, arch_buf := [] \<rparr>) \<rparr>
          else r\<lparr> arch_rx := (arch_rx r)(m \<mapsto> x\<lparr> arch_buf := arch_buf x @ d \<rparr>) \<rparr>)"

definition arch_body :: "server_env \<Rightarrow> arch_rx \<Rightarrow> bytes option" where
  "arch_body Z x = (if arch_raw x > 0 \<and> arch_buf x \<noteq> [] then inflate Z (arch_buf x) (arch_raw x) else Some (arch_buf x))"

definition arch_done :: "server_env \<Rightarrow> nat \<Rightarrow> bytes \<Rightarrow> relay \<Rightarrow> relay" where
  "arch_done Z i m R =
     (case arch_rx (rooms R ! i) m of
        None \<Rightarrow> R
      | Some x \<Rightarrow>
          if \<not> arch_active x then R
          else let R = upd_room i (\<lambda>r. r\<lparr> arch_rx := (arch_rx r)(m \<mapsto> x\<lparr> arch_active := False, arch_buf := [] \<rparr>) \<rparr>) R
               in case arch_body Z x of
                    None \<Rightarrow> R
                  | Some body \<Rightarrow> log_call i None
                      (ModuleArchive m (arch_date x) (arch_station_disp (station_id (rooms R ! i)) 24) body) R)"

definition mp_hdr :: nat where "mp_hdr = size_of PktModulePipe"

definition mp_data_len :: "bytes \<Rightarrow> nat" where
  "mp_data_len pl = le_nat (take 4 (at_member PktModulePipe ''data_len'' pl))"

text \<open>A module packet that is long enough: its module id, kind and data.\<close>

definition module_packet :: "bytes \<Rightarrow> (bytes \<times> u8 \<times> bytes) option" where
  "module_packet pkt =
     (if length pkt < BEWE_HDR_SIZE + mp_hdr then None
      else let pl = pkt_body pkt; n = mp_data_len pl
           in if BEWE_HDR_SIZE + mp_hdr + n > length pkt then None
              else Some (cstr 8 pl, pl ! 8, take n (drop mp_hdr pl)))"

definition handle_host_module_pipe :: "server_env \<Rightarrow> nat \<Rightarrow> bytes \<Rightarrow> relay \<Rightarrow> relay" where
  "handle_host_module_pipe Z i pkt R =
     (case module_packet pkt of
        None \<Rightarrow> R
      | Some (m, kind, d) \<Rightarrow>
          if kind = 0xF3 \<and> length d \<ge> size_of MpState
          then broadcast_module_pkt_all pkt None
                 (upd_room i (\<lambda>r. r\<lparr> mod_mask := (mod_mask r)
                    (m \<mapsto> of_nat (le_nat (take 8 (at_member MpState ''mask'' d)))) \<rparr>) R)
          else if kind = 0xF4 \<and> length d \<ge> size_of MpData
          then broadcast_module_pkt_all pkt (Some m) (log_call i None (ModuleStore m d) R)
          else if kind = 0xFC then broadcast_module_pkt_all pkt (Some m) R
          else if kind = 0xEA \<and> length d \<ge> size_of MpArchMeta then upd_room i (arch_meta m d) R
          else if kind = 0xEB then upd_room i (arch_chunk m d) R
          else if kind = 0xEC then arch_done Z i m R
          else R)"

section \<open>Audio and chat\<close>

definition audio_target :: "u16 \<Rightarrow> nat \<Rightarrow> join_entry \<Rightarrow> bool" where
  "audio_target cid ch je \<longleftrightarrow> je_alive je \<and> je_open je \<and> authed je \<and>
     (cid = 0xFFFF \<or> cid = conn_id je) \<and> recv_audio je ! ch"

definition dispatch_audio :: "u16 \<Rightarrow> bytes \<Rightarrow> host_room \<Rightarrow> host_room" where
  "dispatch_audio cid pkt r =
     (if length pkt < BEWE_HDR_SIZE + 1 then r
      else let ch = unat (pkt ! BEWE_HDR_SIZE)
           in if ch \<ge> MAX_CHANNELS_RELAY then r else send_to (audio_target cid ch) (Audio pkt) r)"

definition system_chat :: "bytes \<Rightarrow> bool" where
  "system_chat pkt \<longleftrightarrow> length pkt \<ge> BEWE_HDR_SIZE + size_of PktChat \<and>
     take 6 (pkt_body pkt) = bytes_of ''SYSTEM''"

definition dispatch_chat :: "nat \<Rightarrow> bytes \<Rightarrow> relay \<Rightarrow> relay" where
  "dispatch_chat i pkt R =
     (if system_chat pkt then broadcast_room_chat i None pkt R else broadcast_global_chat pkt i None R)"

section \<open>Database requests of the HOST\<close>

definition dispatch_db_save :: "server_env \<Rightarrow> nat \<Rightarrow> bytes \<Rightarrow> bytes \<Rightarrow> relay \<Rightarrow> relay option" where
  "dispatch_db_save Z i pkt stale R =
     (let body = pkt_body pkt; buf = body @ stale; n = length body; up = host_upload (rooms R ! i)
      in if pkt_type pkt = 0x24
         then let (st, up) = db_save_meta True (db_base Z) buf n (db R, up)
              in Some (upd_room i (\<lambda>r. r\<lparr> host_upload := up \<rparr>) (R\<lparr> db := st \<rparr>))
         else case db_save_data buf n (db R, up) of
                None \<Rightarrow> None
              | Some ((st, up), fin) \<Rightarrow>
                  let R = upd_room i (\<lambda>r. r\<lparr> host_upload := up \<rparr>) (R\<lparr> db := st \<rparr>)
                  in Some (if fin then upd_room i (broadcast_db_list Z st None) R else R))"

definition dispatch_db_download :: "server_env \<Rightarrow> store \<Rightarrow> bytes \<Rightarrow> host_room \<Rightarrow> host_room" where
  "dispatch_db_download Z st pkt r =
     fold (\<lambda>(t, b). enqueue_host_send 0xFFFF MUX_DATA (make_packet t b))
       (db_download (db_base Z) (pkt_body pkt) (length (pkt_body pkt)) (disk st)) r"

definition dispatch_db_delete :: "server_env \<Rightarrow> nat \<Rightarrow> bytes \<Rightarrow> relay \<Rightarrow> relay" where
  "dispatch_db_delete Z i pkt R =
     (let (fs, ok) = db_delete (db_base Z) (pkt_body pkt) (length (pkt_body pkt)) (disk (db R));
          R = R\<lparr> db := (db R)\<lparr> disk := fs \<rparr> \<rparr>
      in if ok then upd_room i (broadcast_db_list Z (db R) None) R else R)"

section \<open>Everything else\<close>

definition is_ctrl_type :: "u8 \<Rightarrow> bool" where
  "is_ctrl_type t \<longleftrightarrow> t \<in> {0x14, 0x08, 0x05, 0x09, 0x02, 0x20, 0x30, 0x31, 0x35, 0x39, 0x3C, 0x3D, 0x3E, 0x3F,
     0x40, 0x5F, 0x60, 0x61, 0x62}"

definition forward_target :: "u8 \<Rightarrow> u16 \<Rightarrow> join_entry \<Rightarrow> bool" where
  "forward_target t cid je \<longleftrightarrow> je_alive je \<and> je_open je \<and> (cid = 0xFFFF \<or> cid = conn_id je) \<and>
     (authed je \<or> t = 0x02)"

definition file_last :: "bytes \<Rightarrow> bool" where
  "file_last pkt \<longleftrightarrow> pkt_type pkt = 0x0D \<and> length pkt \<ge> BEWE_HDR_SIZE + 2 \<and> pkt ! (BEWE_HDR_SIZE + 1) = 1"

definition forward_one :: "bytes \<Rightarrow> join_entry \<Rightarrow> join_entry" where
  "forward_one pkt je =
     (let t = pkt_type pkt
      in if t = 0x03 \<and> file_transfers je > 0 then je
         else if t = 0x03 \<and> fft_paused je then je
         else if t = 0x0D \<or> t = 0x0E
         then let je = (if t = 0x0E then je\<lparr> file_transfers := file_transfers je + 1 \<rparr> else je);
                  je = je_send (File False pkt) je
              in if file_last pkt
                 then je\<lparr> file_transfers := (if file_transfers je \<le> 0 then 0 else file_transfers je - 1) \<rparr>
                 else je
         else if is_ctrl_type t then je_send (Ctrl pkt) je
         else je_send (Fft pkt) je)"

definition dispatch_forward :: "u16 \<Rightarrow> bytes \<Rightarrow> host_room \<Rightarrow> host_room" where
  "dispatch_forward cid pkt r =
     r\<lparr> joins := map (\<lambda>je. if forward_target (pkt_type pkt) cid je then forward_one pkt je else je) (joins r) \<rparr>"

section \<open>Dispatch\<close>

definition archive_types :: "u8 set" where
  "archive_types = {0x4E, 0x4F, 0x50, 0x52, 0x5C, 0x5A, 0x54, 0x55, 0x57, 0x5E}"

definition hist_live :: "bytes \<Rightarrow> bool" where
  "hist_live pkt \<longleftrightarrow>
     (pkt_type pkt = 0x3C \<and>
        length pkt \<ge> BEWE_HDR_SIZE + (case offset_of PktLwfLiveStart ''fft_row_rate_hz'' of Some k \<Rightarrow> k | None \<Rightarrow> 0)) \<or>
     (pkt_type pkt = 0x3D \<and> length pkt \<ge> BEWE_HDR_SIZE + size_of PktLwfLiveRowHdr) \<or>
     (pkt_type pkt = 0x3E \<and> length pkt \<ge> BEWE_HDR_SIZE + size_of PktLwfLiveStop)"

definition dispatch_to_joins :: "server_env \<Rightarrow> nat \<Rightarrow> u16 \<Rightarrow> bytes \<Rightarrow> bytes \<Rightarrow> relay \<Rightarrow> relay option" where
  "dispatch_to_joins Z i cid pkt stale R =
     (let t = pkt_type pkt; r = rooms R ! i in
      if length pkt < BEWE_HDR_SIZE then Some R
      else case auth_ack_target pkt cid r of
        Some k \<Rightarrow> Some (upd_room i (dispatch_auth_ack Z (db R) k pkt) R)
      | None \<Rightarrow>
      let R = cache_mission i pkt (cache_sched i pkt (upd_room i (cache_status pkt) R)) in
      if t \<in> archive_types then Some (log_call i None (MissionFile t (pkt_body pkt)) R)
      else if hist_live pkt then Some (log_call i None (HistLive t (pkt_body pkt)) R)
      else if t = 0x58 then Some (handle_host_module_pipe Z i pkt R)
      else if t = 0x0A then Some (upd_room i (dispatch_ch_sync Z pkt) R)
      else if t = 0x04 then Some (upd_room i (dispatch_audio cid pkt) R)
      else if t = 0x07 then Some (dispatch_chat i pkt R)
      else if t = 0x24 \<or> t = 0x25 then dispatch_db_save Z i pkt stale R
      else if t = 0x27 then Some (upd_room i (dispatch_db_download Z (db R) pkt) R)
      else if t = 0x29 then Some (dispatch_db_delete Z i pkt R)
      else if t = 0x23
      then Some (if length pkt \<ge> BEWE_HDR_SIZE + size_of PktReportAdd then log_call i None (Report (pkt_body pkt)) R else R)
      else let R = (if t = 0x03 then log_call i None (HistFft pkt) R else R)
           in Some (upd_room i (dispatch_forward cid pkt) R))"

end
