(* ===== verification/RelayServer.thy ===== *)
theory RelayServer
  imports RelayDispatch
begin

text \<open>
  Packets from JOINs (\<^verbatim>\<open>intercept_join_cmd\<close>, \<^verbatim>\<open>handle_join_module_pipe\<close>), the
  connection life cycle (\<^verbatim>\<open>handshake\<close>, \<^verbatim>\<open>host_mux_loop\<close>, \<^verbatim>\<open>join_loop\<close>,
  \<^verbatim>\<open>watchdog_loop\<close>) and the server as a transition system.
\<close>

section \<open>Module packets of a JOIN\<close>

definition upd_je :: "nat \<Rightarrow> nat \<Rightarrow> (join_entry \<Rightarrow> join_entry) \<Rightarrow> relay \<Rightarrow> relay" where
  "upd_je i k f R = upd_room i (upd_join k f) R"

abbreviation the_join :: "nat \<Rightarrow> nat \<Rightarrow> relay \<Rightarrow> join_entry" where
  "the_join i k R \<equiv> joins (rooms R ! i) ! k"

fun route_to_station :: "bytes \<Rightarrow> bytes \<Rightarrow> host_room list \<Rightarrow> host_room list" where
  "route_to_station sid pkt [] = []"
| "route_to_station sid pkt (r # rs) =
     (if rm_alive r \<and> rm_open r \<and> station_id r = sid
      then enqueue_host_send 0xFFFF MUX_DATA pkt r # rs
      else r # route_to_station sid pkt rs)"

definition routed_kind :: "u8 \<Rightarrow> nat \<Rightarrow> bool" where
  "routed_kind kind n \<longleftrightarrow>
     (kind = 0xF2 \<and> n \<ge> size_of MpSet) \<or> (kind \<in> {0xF9, 0xFD, 0xFE} \<and> n \<ge> size_of MpChEdit) \<or>
     (kind = 0xFA \<and> n \<ge> size_of MpTune) \<or> (kind = 0xFB \<and> n \<ge> size_of MpRecReq)"

definition queried_kind :: "u8 \<Rightarrow> nat \<Rightarrow> bool" where
  "queried_kind kind n \<longleftrightarrow>
     (kind = 0xFF \<and> n \<ge> size_of MpVHistReq) \<or> kind = 0xED \<or> (kind = 0xEF \<and> n \<ge> size_of MpHFetch) \<or> kind = 0xF0"

definition handle_join_module_pipe :: "nat \<Rightarrow> nat \<Rightarrow> bytes \<Rightarrow> relay \<Rightarrow> relay" where
  "handle_join_module_pipe i k pkt R =
     (case module_packet pkt of
        None \<Rightarrow> R
      | Some (m, kind, d) \<Rightarrow>
          if queried_kind kind (length d) then log_call i (Some k) (ModuleQuery pkt) R
          else if routed_kind kind (length d) then R\<lparr> rooms := route_to_station (cstr 24 d) pkt (rooms R) \<rparr>
          else if kind = 0xF5 \<and> length d \<ge> size_of MpRecv
          then (if d ! 0 \<noteq> 0
                then log_call i (Some k) (ModuleHistory m) (upd_je i k (\<lambda>je. je\<lparr> mod_recv := mod_recv je \<union> {m} \<rparr>) R)
                else upd_je i k (\<lambda>je. je\<lparr> mod_recv := mod_recv je - {m} \<rparr>) R)
          else R)"

section \<open>Commands of a JOIN\<close>

definition BEWE_CMD_TOGGLE_RECV :: u8 where "BEWE_CMD_TOGGLE_RECV = 0x0C"
definition BEWE_CMD_CREATE_CH :: u8 where "BEWE_CMD_CREATE_CH = 0x03"
definition BEWE_CMD_TOGGLE_FFT_RECV :: u8 where "BEWE_CMD_TOGGLE_FFT_RECV = 0x22"

definition intercept_auth_req :: "bytes \<Rightarrow> join_entry \<Rightarrow> join_entry" where
  "intercept_auth_req body je =
     (if length body \<ge> BEWE_AUTH_REQ_SIZE
      then je\<lparr> je_name := take 31 body @ drop 31 (je_name je), je_tier := body ! 96 \<rparr> else je)"

definition reset_recv :: "nat \<Rightarrow> host_room \<Rightarrow> host_room" where
  "reset_recv ch r = r\<lparr> joins := map (\<lambda>je. je\<lparr> recv_audio := (recv_audio je)[ch := True] \<rparr>) (joins r) \<rparr>"

definition intercept_cmd :: "server_env \<Rightarrow> nat \<Rightarrow> nat \<Rightarrow> bytes \<Rightarrow> relay \<Rightarrow> bool \<times> relay" where
  "intercept_cmd Z i k body R =
     (if length body < 4 then (False, R)
      else if body ! 0 = BEWE_CMD_TOGGLE_RECV \<and> length body \<ge> 6
      then (True, if unat (body ! 4) < MAX_CHANNELS_RELAY
                  then upd_room i (rebuild_and_broadcast_ch_sync Z True)
                    (upd_je i k (\<lambda>je. je\<lparr> recv_audio := (recv_audio je)[unat (body ! 4) := (body ! 5 \<noteq> 0)] \<rparr>) R)
                  else R)
      else if body ! 0 = BEWE_CMD_TOGGLE_FFT_RECV \<and> length body \<ge> 5
      then (True, upd_je i k (\<lambda>je. je\<lparr> fft_paused := (body ! 4 = 0) \<rparr>) R)
      else if body ! 0 = BEWE_CMD_CREATE_CH \<and> length body \<ge> 5
      then (False, if unat (body ! 4) < MAX_CHANNELS_RELAY then upd_room i (reset_recv (unat (body ! 4))) R else R)
      else (False, R))"

section \<open>Database requests of a JOIN\<close>

definition intercept_db_save :: "server_env \<Rightarrow> nat \<Rightarrow> nat \<Rightarrow> bytes \<Rightarrow> bytes \<Rightarrow> relay \<Rightarrow> relay option" where
  "intercept_db_save Z i k pkt stale R =
     (let body = pkt_body pkt; buf = body @ stale; n = length body; up = je_upload (the_join i k R)
      in if pkt_type pkt = 0x24
         then let (st, up) = db_save_meta False (db_base Z) buf n (db R, up)
              in Some (upd_je i k (\<lambda>je. je\<lparr> je_upload := up \<rparr>) (R\<lparr> db := st \<rparr>))
         else case db_save_data buf n (db R, up) of
                None \<Rightarrow> None
              | Some ((st, up), fin) \<Rightarrow>
                  let R = upd_je i k (\<lambda>je. je\<lparr> je_upload := up \<rparr>) (R\<lparr> db := st \<rparr>)
                  in Some (if fin then upd_room i (broadcast_db_list Z st None) R else R))"

definition db_reply_op :: "u8 \<times> bytes \<Rightarrow> qop" where
  "db_reply_op p = (if fst p = 0x2D then Ctrl (make_packet (fst p) (snd p)) else File False (make_packet (fst p) (snd p)))"

definition intercept_db_download :: "server_env \<Rightarrow> bytes \<Rightarrow> files \<Rightarrow> join_entry \<Rightarrow> join_entry" where
  "intercept_db_download Z body fs je =
     je\<lparr> je_ops := je_ops je @ map db_reply_op (db_download (db_base Z) body (length body) fs) \<rparr>"

definition intercept_db_set_note :: "server_env \<Rightarrow> nat \<Rightarrow> bytes \<Rightarrow> relay \<Rightarrow> relay" where
  "intercept_db_set_note Z i pkt R =
     (let (fs, ok) = db_set_note (note_nums Z) (db_base Z) (pkt_body pkt) (length (pkt_body pkt)) (disk (db R));
          R = R\<lparr> db := (db R)\<lparr> disk := fs \<rparr> \<rparr>
      in if ok then upd_room i (broadcast_db_list Z (db R) None) R else R)"

section \<open>Chat and missions\<close>

definition command_chat :: "bytes \<Rightarrow> bool" where
  "command_chat pkt \<longleftrightarrow> length pkt \<ge> BEWE_HDR_SIZE + size_of PktChat \<and> pkt_body pkt ! 32 = 0x2F"

definition intercept_chat :: "nat \<Rightarrow> nat \<Rightarrow> bytes \<Rightarrow> relay \<Rightarrow> relay" where
  "intercept_chat i k pkt R =
     (if command_chat pkt then broadcast_room_chat i (Some k) pkt R else broadcast_global_chat pkt i (Some k) R)"

definition join_archive_types :: "u8 set" where
  "join_archive_types = {0x50, 0x52, 0x5A, 0x54, 0x55, 0x57, 0x5E, 0x4E, 0x4F}"

definition intercept_join_cmd :: "server_env \<Rightarrow> nat \<Rightarrow> nat \<Rightarrow> bytes \<Rightarrow> bytes \<Rightarrow> relay \<Rightarrow> (bool \<times> relay) option" where
  "intercept_join_cmd Z i k pkt stale R =
     (let t = pkt_type pkt; body = pkt_body pkt; je = the_join i k R in
      if length pkt < BEWE_HDR_SIZE then Some (False, R)
      else if \<not> authed je \<and> t \<noteq> 0x01 then Some (True, R)
      else if t = 0x58 then Some (True, if authed je then handle_join_module_pipe i k pkt R else R)
      else if t = 0x2E then Some (True, upd_room i (broadcast_db_list Z (db R) (Some k)) R)
      else if t = 0x01 then Some (False, upd_je i k (intercept_auth_req body) R)
      else if t = 0x05 then Some (intercept_cmd Z i k body R)
      else if t = 0x24 \<or> t = 0x25 then map_option (Pair True) (intercept_db_save Z i k pkt stale R)
      else if t = 0x27 then Some (True, upd_je i k (intercept_db_download Z body (disk (db R))) R)
      else if t = 0x29 then Some (True, dispatch_db_delete Z i pkt R)
      else if t = 0x2A then Some (True, intercept_db_set_note Z i pkt R)
      else if t = 0x23
      then Some (True, if length body \<ge> size_of PktReportAdd then log_call i (Some k) (Report body) R else R)
      else if t \<in> {0x41, 0x43, 0x44, 0x45, 0x47} then Some (True, log_call i (Some k) (EmitterRequest t body) R)
      else if t = 0x07 then Some (False, intercept_chat i k pkt R)
      else if t \<in> join_archive_types then Some (True, log_call i (Some k) (MissionFile t body) R)
      else if t = 0x4D \<and> length pkt \<ge> BEWE_HDR_SIZE + size_of PktMissionDelete
      then Some (False, log_call i (Some k) (WipeMission (station_name (rooms R ! i)) (le_nat (take 2 body))
             (cstr 8 (drop 4 body))) R)
      else Some (False, R))"

text \<open>One packet of \<^verbatim>\<open>join_loop\<close>.\<close>

definition join_packet :: "server_env \<Rightarrow> nat \<Rightarrow> nat \<Rightarrow> bytes \<Rightarrow> bytes \<Rightarrow> relay \<Rightarrow> relay option" where
  "join_packet Z i k pkt stale R =
     (case intercept_join_cmd Z i k pkt stale R of
        None \<Rightarrow> None
      | Some (consumed, R) \<Rightarrow>
          if consumed \<or> \<not> rm_alive (rooms R ! i) \<or> \<not> rm_open (rooms R ! i) then Some R
          else Some (upd_room i (enqueue_host_send (conn_id (the_join i k R)) MUX_DATA pkt) R))"

section \<open>Connections\<close>

text \<open>The end of \<^verbatim>\<open>host_mux_loop\<close> deletes an unfinished upload of the HOST.\<close>

definition drop_partial :: "host_room \<Rightarrow> store \<Rightarrow> store" where
  "drop_partial r st =
     (let up = host_upload r
      in if db_fp up \<noteq> None \<and> db_path up \<noteq> [] then st\<lparr> disk := (disk st)(db_path up := None) \<rparr> else st)"

fun find_room :: "bytes \<Rightarrow> host_room list \<Rightarrow> nat option" where
  "find_room sid [] = None"
| "find_room sid (r # rs) =
     (if station_id r = sid \<and> rm_alive r then Some 0 else map_option Suc (find_room sid rs))"

definition replay_sched :: "relay \<Rightarrow> host_room \<Rightarrow> host_room" where
  "replay_sched R r =
     (case sched_by_station R (station_id r) of
        None \<Rightarrow> r
      | Some p \<Rightarrow> if p = [] then r else enqueue_host_send 0xFFFF MUX_DATA p (r\<lparr> cached_sched_sync := p \<rparr>))"

definition replay_mission :: "relay \<Rightarrow> host_room \<Rightarrow> host_room" where
  "replay_mission R r =
     (case missions_by_station R (station_id r) of
        None \<Rightarrow> r
      | Some p \<Rightarrow> if p = [] then r else enqueue_host_send 0xFFFF MUX_DATA p (r\<lparr> cached_mission_sync := p \<rparr>))"

text \<open>A host opens its room; rooms with the same station id are evicted.\<close>

definition host_open :: "server_env \<Rightarrow> int \<Rightarrow> bytes \<Rightarrow> relay \<Rightarrow> relay" where
  "host_open Z now p R =
     (if length p < size_of CentralHostOpen then R
      else let sid = cstr 32 p;
               sname = at_member CentralHostOpen ''station_name'' p;
               tier = at_member CentralHostOpen ''host_tier'' p ! 0;
               r = new_room sid (cstr 63 sname) (str_buf 32 (take 64 sname)) tier now;
               r = replay_mission R (replay_sched R r);
               r = broadcast_db_list Z (db R) None (build_and_broadcast_op_list r)
           in R\<lparr> db := fold drop_partial (filter (\<lambda>r. station_id r = sid) (rooms R)) (db R),
                   rooms := filter (\<lambda>r. station_id r \<noteq> sid) (rooms R) @ [r] \<rparr>)"

definition join_room :: "bytes \<Rightarrow> relay \<Rightarrow> relay" where
  "join_room p R =
     (if length p < size_of CentralJoinRoom then R
      else case find_room (cstr 32 p) (rooms R) of
             None \<Rightarrow> R
           | Some i \<Rightarrow> upd_room i (\<lambda>r.
               let cid = next_conn_id r; js = joins r @ [new_join cid]
               in enqueue_host_send cid MUX_CONN_OPEN []
                    (r\<lparr> joins := js, next_conn_id := (if cid + 1 = 0xFFFF then 1 else cid + 1),
                        user_count := of_nat (length js) \<rparr>)) R)"

definition remove_nth :: "nat \<Rightarrow> 'a list \<Rightarrow> 'a list" where
  "remove_nth k xs = take k xs @ drop (Suc k) xs"

definition join_leave :: "nat \<Rightarrow> nat \<Rightarrow> relay \<Rightarrow> relay" where
  "join_leave i k R =
     upd_room i (\<lambda>r.
       let je = joins r ! k;
           r = (if rm_alive r \<and> rm_open r then enqueue_host_send (conn_id je) MUX_CONN_CLOSE [] r else r);
           r = r\<lparr> joins := remove_nth k (joins r) \<rparr>;
           r = r\<lparr> user_count := of_nat (length (joins r)) \<rparr>
       in if rm_alive r \<and> authed je then build_and_broadcast_op_list r else r) R"

definition host_close :: "nat \<Rightarrow> relay \<Rightarrow> relay" where
  "host_close i R = R\<lparr> db := drop_partial (rooms R ! i) (db R), rooms := remove_nth i (rooms R) \<rparr>"

section \<open>Frames of a HOST\<close>

definition host_hb :: "server_env \<Rightarrow> store \<Rightarrow> int \<Rightarrow> bytes \<Rightarrow> host_room \<Rightarrow> host_room" where
  "host_hb Z st now p r =
     (let r = r\<lparr> last_hb := now \<rparr>;
          r = (if hb_count r = 0 then broadcast_db_list Z st None r else r);
          r = r\<lparr> hb_count := hb_count r + 1 \<rparr>
      in if length p \<ge> size_of CentralHostHb then r\<lparr> user_count := p ! 0 \<rparr> else r)"

definition host_state :: "bytes \<Rightarrow> host_room \<Rightarrow> host_room" where
  "host_state p r =
     (if length p \<ge> size_of CentralHostStateFull then r\<lparr> operator_login := Some (take 32 p) \<rparr> else r)"

definition host_reset :: "bytes \<Rightarrow> host_room \<Rightarrow> host_room" where
  "host_reset p r = (case p of [] \<Rightarrow> r | flag # _ \<Rightarrow> r\<lparr> resetting := (flag = 0) \<rparr>)"

text \<open>One frame of \<^verbatim>\<open>host_mux_loop\<close>; an oversized frame ends the loop.\<close>

definition host_frame :: "server_env \<Rightarrow> nat \<Rightarrow> int \<Rightarrow> u16 \<Rightarrow> u8 \<Rightarrow> bytes \<Rightarrow> bytes \<Rightarrow> relay \<Rightarrow> relay option" where
  "host_frame Z i now cid type p stale R =
     (if type = 0x00 then Some (upd_room i (host_hb Z (db R) now p) R)
      else let R = upd_room i (\<lambda>r. r\<lparr> last_hb := now \<rparr>) R in
      if type = MUX_HOST_STATE then Some (upd_room i (host_state p) R)
      else if type = MUX_NET_RESET then Some (upd_room i (host_reset p) R)
      else if length p > 4 * 1024 * 1024 then Some (host_close i R)
      else if type \<noteq> MUX_DATA \<or> p = [] then Some R
      else dispatch_to_joins Z i cid p stale R)"

section \<open>Watchdog\<close>

definition HOST_TIMEOUT_SEC :: int where "HOST_TIMEOUT_SEC = 20"

definition watchdog :: "int \<Rightarrow> relay \<Rightarrow> relay" where
  "watchdog now R =
     R\<lparr> rooms := map (\<lambda>r. if rm_alive r \<and> now - last_hb r > HOST_TIMEOUT_SEC \<and> rm_open r
                          then r\<lparr> rm_open := False, rm_alive := False \<rparr> else r) (rooms R) \<rparr>"

definition disk_stat :: "nat \<Rightarrow> nat \<Rightarrow> relay \<Rightarrow> relay" where
  "disk_stat free_b total_b R =
     (let pkt = make_packet 0x15 ([1] @ replicate 7 0 @ le_bytes 8 free_b @ le_bytes 8 total_b @ replicate 64 0)
      in R\<lparr> rooms := map (\<lambda>r. if rm_alive r
                           then send_to (\<lambda>je. je_alive je \<and> je_open je \<and> authed je) (Ctrl pkt) r else r) (rooms R) \<rparr>)"

section \<open>The server\<close>

datatype event =
    HostOpen int bytes
  | JoinRoom bytes
  | HostFrame nat int u16 u8 bytes bytes
  | JoinPacket nat nat bytes bytes
  | JoinLeave nat nat
  | HostClose nat
  | Watchdog int
  | DiskStat nat nat

definition room_at :: "nat \<Rightarrow> relay \<Rightarrow> bool" where "room_at i R \<longleftrightarrow> i < length (rooms R)"
definition join_at :: "nat \<Rightarrow> nat \<Rightarrow> relay \<Rightarrow> bool" where
  "join_at i k R \<longleftrightarrow> room_at i R \<and> k < length (joins (rooms R ! i))"

text \<open>The loops run while their room and connection are alive; packets have a full header.\<close>

fun server_step :: "server_env \<Rightarrow> event \<Rightarrow> relay \<Rightarrow> relay option" where
  "server_step Z (HostOpen now p) R = Some (host_open Z now p R)"
| "server_step Z (JoinRoom p) R = Some (join_room p R)"
| "server_step Z (HostFrame i now cid type p stale) R =
     (if room_at i R \<and> rm_alive (rooms R ! i) then host_frame Z i now cid type p stale R else Some R)"
| "server_step Z (JoinPacket i k pkt stale) R =
     (if join_at i k R \<and> rm_alive (rooms R ! i) \<and> je_alive (the_join i k R) \<and> length pkt \<ge> BEWE_HDR_SIZE then join_packet Z i k pkt stale R else Some R)"
| "server_step Z (JoinLeave i k) R = (if join_at i k R then Some (join_leave i k R) else Some R)"
| "server_step Z (HostClose i) R = (if room_at i R then Some (host_close i R) else Some R)"
| "server_step Z (Watchdog now) R = Some (watchdog now R)"
| "server_step Z (DiskStat f t) R = Some (disk_stat f t R)"

definition init_relay :: "(bytes \<rightharpoonup> bytes) \<Rightarrow> (bytes \<rightharpoonup> bytes) \<Rightarrow> store \<Rightarrow> relay" where
  "init_relay sched missions st =
     \<lparr> rooms = [], sched_by_station = sched, missions_by_station = missions, db = st, calls = [] \<rparr>"

inductive server_run :: "server_env \<Rightarrow> event list \<Rightarrow> relay \<Rightarrow> bool" for Z where
  run_init: "server_run Z [] (init_relay sched missions st)"
| run_step: "server_run Z es R \<Longrightarrow> server_step Z e R = Some R' \<Longrightarrow> server_run Z (es @ [e]) R'"

inductive_cases server_run_NilE: "server_run Z [] R"
inductive_cases server_run_snocE: "server_run Z (es @ [e]) R"

end
