(* ===== verification/RelayFacts.thy ===== *)
theory RelayFacts
  imports RelayServer
begin

text \<open>
  Facts about the relay server: authentication, isolation of rooms, the audio masks of the
  channel synchronisation, and what a reconnecting HOST gets back.
\<close>

section \<open>Connections keep their invariant\<close>

fun op_packet :: "qop \<Rightarrow> bytes" where
  "op_packet (Ctrl p) = p" | "op_packet (Fft p) = p" | "op_packet (Audio p) = p"
| "op_packet (File c p) = p" | "op_packet Round = []"

text \<open>What may be sent before authentication: the answer, the operator list, channel state.\<close>

definition open_op :: "qop \<Rightarrow> bool" where
  "open_op x \<longleftrightarrow> pkt_type (op_packet x) \<in> {0x02, 0x09, 0x0A}"

text \<open>\<^verbatim>\<open>A\<close>: the connection ids for which a positive answer has been seen.\<close>

definition je_inv :: "u16 set \<Rightarrow> join_entry \<Rightarrow> bool" where
  "je_inv A je \<longleftrightarrow> (authed je \<longrightarrow> conn_id je \<in> A) \<and> (\<not> authed je \<longrightarrow> list_all open_op (je_ops je))"

definition room_inv :: "u16 set \<Rightarrow> host_room \<Rightarrow> bool" where
  "room_inv A r \<longleftrightarrow> list_all (je_inv A) (joins r) \<and>
     (cached_ch_sync r \<noteq> [] \<longrightarrow> pkt_type (cached_ch_sync r) = 0x0A)"

definition relay_inv :: "u16 set \<Rightarrow> relay \<Rightarrow> bool" where
  "relay_inv A R \<longleftrightarrow> list_all (room_inv A) (rooms R)"

lemma je_inv_mono: "je_inv A je \<Longrightarrow> A \<subseteq> B \<Longrightarrow> je_inv B je"
  by (auto simp: je_inv_def)

lemma room_inv_mono: "room_inv A r \<Longrightarrow> A \<subseteq> B \<Longrightarrow> room_inv B r"
  by (auto simp: room_inv_def list_all_iff intro: je_inv_mono)

lemma relay_inv_mono: "relay_inv A R \<Longrightarrow> A \<subseteq> B \<Longrightarrow> relay_inv B R"
  by (auto simp: relay_inv_def list_all_iff intro: room_inv_mono)

lemma list_all_update: "list_all P xs \<Longrightarrow> (k < length xs \<Longrightarrow> P (xs ! k) \<Longrightarrow> P y) \<Longrightarrow> list_all P (xs[k := y])"
  by (cases "k < length xs") (auto simp: list_all_length nth_list_update)

lemma upd_room_inv:
  assumes "relay_inv A R" "\<And>r. room_inv A r \<Longrightarrow> room_inv A (f r)"
  shows "relay_inv A (upd_room i f R)"
  using assms by (auto simp: relay_inv_def upd_room_def intro!: list_all_update)

lemma upd_join_inv:
  assumes "room_inv A r" "\<And>je. je_inv A je \<Longrightarrow> je_inv A (f je)"
  shows "room_inv A (upd_join k f r)"
  using assms by (auto simp: room_inv_def upd_join_def intro!: list_all_update)

lemma je_send_inv: "je_inv A je \<Longrightarrow> authed je \<or> open_op x \<Longrightarrow> je_inv A (je_send x je)"
  by (auto simp: je_inv_def je_send_def)

lemma map_joins_inv:
  assumes "room_inv A r" "\<And>je. je_inv A je \<Longrightarrow> je_inv A (f je)"
  shows "room_inv A (r\<lparr> joins := map f (joins r) \<rparr>)"
  using assms by (auto simp: room_inv_def list_all_iff)

lemma send_to_inv:
  assumes "room_inv A r" "open_op x \<or> (\<forall>je. P je \<longrightarrow> authed je)"
  shows "room_inv A (send_to P x r)"
  unfolding send_to_def using assms by (intro map_joins_inv) (auto intro: je_send_inv)

lemma room_inv_same:
  "room_inv A r \<Longrightarrow> joins r' = joins r \<Longrightarrow> cached_ch_sync r' = cached_ch_sync r \<Longrightarrow> room_inv A r'"
  by (simp add: room_inv_def)

lemma enqueue_host_inv [simp]: "room_inv A (enqueue_host_send c t d r) = room_inv A r"
  by (simp add: enqueue_host_send_def room_inv_def)

lemma make_packet_type [simp]: "pkt_type (make_packet t p) = t"
  by (simp add: pkt_type_def make_packet_def packet_header_def PktHdr_def BEWE_MAGIC_def le_bytes_def nth_append)

lemma op_list_inv:
  assumes "room_inv A r"
  shows "room_inv A (build_and_broadcast_op_list r)"
proof -
  let ?pkt = "make_packet 0x09 (op_list_body r)"
  have "room_inv A (r\<lparr> cached_op_list := ?pkt \<rparr>)" using assms by (rule room_inv_same) simp_all
  then have "room_inv A (send_to (\<lambda>je. je_alive je \<and> je_open je) (Ctrl ?pkt) (r\<lparr> cached_op_list := ?pkt \<rparr>))"
    by (rule send_to_inv) (simp add: open_op_def)
  then show ?thesis by (simp add: build_and_broadcast_op_list_def Let_def)
qed

lemma db_list_inv: "room_inv A r \<Longrightarrow> only = None \<or> (\<exists>k. only = Some k \<and> (k < length (joins r) \<longrightarrow> authed (joins r ! k))) \<Longrightarrow>
    room_inv A (broadcast_db_list Z st only r)"
proof -
  assume r: "room_inv A r" "only = None \<or> (\<exists>k. only = Some k \<and> (k < length (joins r) \<longrightarrow> authed (joins r ! k)))"
  show ?thesis
  proof (cases only)
    case None
    then show ?thesis using r(1) by (simp add: broadcast_db_list_def Let_def send_to_inv)
  next
    case (Some k)
    then show ?thesis using r
      by (auto simp: broadcast_db_list_def Let_def upd_join_def room_inv_def intro!: list_all_update je_send_inv)
  qed
qed

lemma list_all_map_enumerate:
  assumes "list_all P xs" "\<And>k x. P x \<Longrightarrow> Q (f (k, x))"
  shows "list_all Q (map f (enumerate n xs))"
  using assms by (auto simp: list_all_length nth_enumerate_eq)

lemma send_chat_inv: "room_inv A r \<Longrightarrow> room_inv A (send_chat skip p r)"
proof -
  assume "room_inv A r"
  moreover have "je_inv A (if chat_target (skip = Some k) x then je_send (Fft p) x else x)" if "je_inv A x" for k x
    using je_send_inv [OF that, of "Fft p"] that by (simp add: chat_target_def)
  ultimately show ?thesis
    unfolding room_inv_def send_chat_def by (auto intro!: list_all_map_enumerate)
qed

lemma room_chat_inv: "relay_inv A R \<Longrightarrow> relay_inv A (broadcast_room_chat i skip p R)"
  unfolding broadcast_room_chat_def by (intro upd_room_inv send_chat_inv)

lemma global_chat_inv: "relay_inv A R \<Longrightarrow> relay_inv A (broadcast_global_chat p sh sj R)"
  unfolding relay_inv_def broadcast_global_chat_def
  by (auto intro!: list_all_map_enumerate simp: Let_def send_chat_inv)

section \<open>The channel synchronisation packet\<close>

definition full_sync :: "bytes \<Rightarrow> bool" where
  "full_sync b \<longleftrightarrow> BEWE_HDR_SIZE + CH_SYNC_RAW_BODY \<le> length b"

lemmas sync_consts = BEWE_HDR_SIZE_def CH_SYNC_RAW_BODY_def CH_SYNC_ENTRY_SIZE_def MAX_CHANNELS_RELAY_def
  CH_SYNC_MASK_OFFSET_def mask_at_def

lemma mask_fits: "full_sync b \<Longrightarrow> ch < MAX_CHANNELS_RELAY \<Longrightarrow> mask_at ch + 4 \<le> length b"
  by (simp add: full_sync_def sync_consts)

definition rewrite_mask :: "join_entry list \<Rightarrow> nat \<Rightarrow> bytes \<Rightarrow> bytes" where
  "rewrite_mask js ch b =
     splice (mask_at ch) (le_bytes 4 (unat (listener_mask js ch (of_nat (le_nat (take 4 (drop (mask_at ch) b))))))) b"

lemma rewrite_masks_fold: "rewrite_masks js b = foldl (\<lambda>b ch. rewrite_mask js ch b) b [0..<MAX_CHANNELS_RELAY]"
  by (simp add: rewrite_masks_def rewrite_mask_def Let_def)

definition masks_upto :: "join_entry list \<Rightarrow> nat \<Rightarrow> bytes \<Rightarrow> bytes" where
  "masks_upto js n b = foldl (\<lambda>b ch. rewrite_mask js ch b) b [0..<n]"

lemma masks_upto_Suc: "masks_upto js (Suc n) b = rewrite_mask js n (masks_upto js n b)"
  by (simp add: masks_upto_def)

lemma masks_upto_length: "full_sync b \<Longrightarrow> n \<le> MAX_CHANNELS_RELAY \<Longrightarrow> length (masks_upto js n b) = length b"
proof (induction n)
  case (Suc n)
  then have "mask_at n + 4 \<le> length (masks_upto js n b)" using mask_fits [of b n] by simp
  then show ?case using Suc by (simp add: masks_upto_Suc rewrite_mask_def)
qed (simp add: masks_upto_def)

definition in_mask :: "nat \<Rightarrow> nat \<Rightarrow> bool" where
  "in_mask k ch \<longleftrightarrow> mask_at ch \<le> k \<and> k < mask_at ch + 4"

lemma masks_upto_other:
  assumes "full_sync b" "n \<le> MAX_CHANNELS_RELAY" "k < length b" "\<forall>ch<n. \<not> in_mask k ch"
  shows "masks_upto js n b ! k = b ! k"
  using assms(2,4)
proof (induction n)
  case (Suc n)
  have l: "length (masks_upto js n b) = length b" using masks_upto_length [OF assms(1)] Suc.prems by simp
  have "mask_at n + 4 \<le> length b" using mask_fits [OF assms(1)] Suc.prems by simp
  moreover have "\<not> in_mask k n" using Suc.prems by simp
  ultimately show ?case using Suc assms(3) l
    by (auto simp: masks_upto_Suc rewrite_mask_def nth_splice in_mask_def)
qed (simp add: masks_upto_def)

lemma masks_disjoint: "in_mask k c \<Longrightarrow> in_mask k d \<Longrightarrow> c = d"
  by (auto simp: in_mask_def sync_consts)

lemma mask_bytes_eq:
  assumes "mask_at ch + 4 \<le> length a" "mask_at ch + 4 \<le> length b" "\<forall>k. in_mask k ch \<longrightarrow> a ! k = b ! k"
  shows "take 4 (drop (mask_at ch) a) = take 4 (drop (mask_at ch) b)"
  using assms by (intro nth_equalityI) (auto simp: in_mask_def)

definition mask_of :: "nat \<Rightarrow> bytes \<Rightarrow> u32" where
  "mask_of ch b = of_nat (le_nat (take 4 (drop (mask_at ch) b)))"

lemma mask_of_rewrite:
  assumes "mask_at ch + 4 \<le> length b"
  shows "mask_of ch (rewrite_mask js ch b) = listener_mask js ch (mask_of ch b)"
proof -
  let ?m = "listener_mask js ch (mask_of ch b)"
  have "take 4 (drop (mask_at ch) (rewrite_mask js ch b)) = le_bytes 4 (unat ?m)"
    using assms by (simp add: rewrite_mask_def splice_def mask_of_def)
  then show ?thesis using unat_lt [of ?m] by (simp add: mask_of_def le_nat_le_bytes)
qed

lemma rewrite_masks_mask:
  assumes "full_sync b" "ch < MAX_CHANNELS_RELAY"
  shows "mask_of ch (rewrite_masks js b) = listener_mask js ch (mask_of ch b)"
proof -
  have "mask_of ch (masks_upto js n b) = (if ch < n then listener_mask js ch (mask_of ch b) else mask_of ch b)"
    if "n \<le> MAX_CHANNELS_RELAY" for n
    using that
  proof (induction n)
    case (Suc n)
    let ?b = "masks_upto js n b"
    have l: "length ?b = length b" using masks_upto_length [OF assms(1)] Suc.prems by simp
    show ?case
    proof (cases "n = ch")
      case True
      then show ?thesis using Suc mask_of_rewrite [of ch ?b js] mask_fits [OF assms] l
        by (simp add: masks_upto_Suc)
    next
      case False
      have f: "mask_at n + 4 \<le> length ?b" using mask_fits [OF assms(1), of n] l Suc.prems by simp
      have "take 4 (drop (mask_at ch) (rewrite_mask js n ?b)) = take 4 (drop (mask_at ch) ?b)"
      proof (rule mask_bytes_eq)
        show "\<forall>k. in_mask k ch \<longrightarrow> rewrite_mask js n ?b ! k = ?b ! k"
        proof (intro allI impI)
          fix k assume k: "in_mask k ch"
          then have "\<not> in_mask k n" using masks_disjoint False by blast
          then show "rewrite_mask js n ?b ! k = ?b ! k"
            using k f mask_fits [OF assms] l by (auto simp: rewrite_mask_def nth_splice in_mask_def)
        qed
      qed (use mask_fits [OF assms] l f in \<open>simp_all add: rewrite_mask_def\<close>)
      then have "mask_of ch (rewrite_mask js n ?b) = mask_of ch ?b" by (simp add: mask_of_def)
      then show ?thesis using Suc False by (simp add: masks_upto_Suc less_Suc_eq)
    qed
  qed (simp add: masks_upto_def)
  from this [of MAX_CHANNELS_RELAY] show ?thesis using assms(2)
    by (simp add: rewrite_masks_fold masks_upto_def)
qed

lemma rewrite_masks_other:
  assumes "full_sync b" "k < length b" "\<forall>ch<MAX_CHANNELS_RELAY. \<not> in_mask k ch"
  shows "rewrite_masks js b ! k = b ! k"
  using masks_upto_other [OF assms(1) order.refl assms(2,3)] by (simp add: rewrite_masks_fold masks_upto_def)

lemma rewrite_masks_length: "full_sync b \<Longrightarrow> length (rewrite_masks js b) = length b"
  using masks_upto_length [of b MAX_CHANNELS_RELAY js] by (simp add: rewrite_masks_fold masks_upto_def)

lemma header_not_mask: "k < BEWE_HDR_SIZE \<Longrightarrow> \<not> in_mask k ch"
  by (simp add: in_mask_def sync_consts)

lemma rewrite_masks_type: "full_sync b \<Longrightarrow> pkt_type (rewrite_masks js b) = pkt_type b"
  unfolding pkt_type_def
  by (rule rewrite_masks_other) (auto simp: full_sync_def sync_consts in_mask_def)

lemma compress_type: "full_sync b \<Longrightarrow> pkt_type (compress_chsync Z b) = pkt_type b"
  by (auto simp: compress_chsync_def pkt_type_def full_sync_def sync_consts nth_append split: option.split)

section \<open>Every step keeps the invariant\<close>

lemma rebuild_inv: "room_inv A r \<Longrightarrow> room_inv A (rebuild_and_broadcast_ch_sync Z h r)"
proof -
  assume r: "room_inv A r"
  show ?thesis
  proof (cases "cached_ch_sync r \<noteq> [] \<and> full_sync (cached_ch_sync r)")
    case True
    let ?b = "rewrite_masks (joins r) (cached_ch_sync r)"
    have t: "pkt_type ?b = 0x0A" "full_sync ?b"
      using r True rewrite_masks_type rewrite_masks_length by (auto simp: room_inv_def full_sync_def)
    have "room_inv A (send_to (\<lambda>je. je_alive je \<and> je_open je) (Ctrl (compress_chsync Z ?b)) r)"
      by (rule send_to_inv [OF r]) (simp add: open_op_def compress_type t)
    then have "room_inv A ((send_to (\<lambda>je. je_alive je \<and> je_open je) (Ctrl (compress_chsync Z ?b)) r)\<lparr> cached_ch_sync := ?b \<rparr>)"
      using t(1) by (simp add: room_inv_def)
    then show ?thesis using True by (simp add: rebuild_and_broadcast_ch_sync_def Let_def full_sync_def)
  next
    case False
    then have "rebuild_and_broadcast_ch_sync Z h r = r"
      by (auto simp: rebuild_and_broadcast_ch_sync_def full_sync_def)
    then show ?thesis using r by simp
  qed
qed

lemma set_sync_inv: "room_inv A r \<Longrightarrow> pkt_type p = 0x0A \<Longrightarrow> room_inv A (r\<lparr> cached_ch_sync := p \<rparr>)"
  by (simp add: room_inv_def)

lemma dispatch_sync_inv:
  assumes "room_inv A r" "pkt_type p = 0x0A" "length p \<ge> BEWE_HDR_SIZE"
  shows "room_inv A (dispatch_ch_sync Z p r)"
proof -
  have "pkt_type (take 5 p @ q) = 0x0A" for q
    using assms(2,3) by (simp add: pkt_type_def nth_append BEWE_HDR_SIZE_def)
  then show ?thesis using assms
    by (auto simp: dispatch_ch_sync_def Let_def intro!: rebuild_inv set_sync_inv split: option.split)
qed

lemma audio_inv: "room_inv A r \<Longrightarrow> room_inv A (dispatch_audio cid p r)"
  by (auto simp: dispatch_audio_def Let_def audio_target_def intro!: send_to_inv)

lemma forward_one_inv: "je_inv A je \<Longrightarrow> forward_target (pkt_type p) cid je \<Longrightarrow> je_inv A (forward_one p je)"
  by (auto simp: forward_one_def Let_def forward_target_def je_inv_def je_send_def open_op_def is_ctrl_type_def)

lemma forward_inv: "room_inv A r \<Longrightarrow> room_inv A (dispatch_forward cid p r)"
  unfolding dispatch_forward_def by (intro map_joins_inv) (auto intro: forward_one_inv)

lemma cached_inv: "room_inv A r \<Longrightarrow> room_inv A (cache_status p r)"
  by (auto simp: cache_status_def intro: room_inv_same)

lemma log_call_inv [simp]: "relay_inv A (log_call i k c R) = relay_inv A R"
  by (simp add: relay_inv_def log_call_def)

lemma relay_inv_fields [simp]:
  "relay_inv A (R\<lparr> sched_by_station := a \<rparr>) = relay_inv A R"
  "relay_inv A (R\<lparr> missions_by_station := b \<rparr>) = relay_inv A R"
  "relay_inv A (R\<lparr> db := d \<rparr>) = relay_inv A R"
  by (simp_all add: relay_inv_def)

lemma cache_sched_inv: "relay_inv A R \<Longrightarrow> relay_inv A (cache_sched i p R)"
  by (auto simp: cache_sched_def Let_def intro!: upd_room_inv intro: room_inv_same)

lemma cache_mission_inv: "relay_inv A R \<Longrightarrow> relay_inv A (cache_mission i p R)"
  by (auto simp: cache_mission_def Let_def intro!: upd_room_inv intro: room_inv_same)

lemma module_all_inv: "relay_inv A R \<Longrightarrow> relay_inv A (broadcast_module_pkt_all p sub R)"
  by (auto simp: relay_inv_def broadcast_module_pkt_all_def list_all_iff mod_target_def intro!: send_to_inv)

lemma arch_inv:
  "room_inv A r \<Longrightarrow> room_inv A (arch_meta m d r)" "room_inv A r \<Longrightarrow> room_inv A (arch_chunk m d r)"
  by (auto simp: arch_meta_def arch_chunk_def Let_def intro: room_inv_same split: option.split)

lemma arch_done_inv: "relay_inv A R \<Longrightarrow> relay_inv A (arch_done Z i m R)"
  by (auto simp: arch_done_def Let_def intro!: upd_room_inv intro: room_inv_same split: option.split)

lemma host_module_inv: "relay_inv A R \<Longrightarrow> relay_inv A (handle_host_module_pipe Z i p R)"
  by (auto simp: handle_host_module_pipe_def intro!: module_all_inv upd_room_inv arch_inv arch_done_inv
      intro: room_inv_same split: option.split)

lemma dispatch_chat_inv: "relay_inv A R \<Longrightarrow> relay_inv A (dispatch_chat i p R)"
  by (simp add: dispatch_chat_def room_chat_inv global_chat_inv)

lemma db_list_all_inv: "room_inv A r \<Longrightarrow> room_inv A (broadcast_db_list Z st None r)"
  by (rule db_list_inv) simp_all

lemma host_upload_inv [simp]: "room_inv A (r\<lparr> host_upload := u \<rparr>) = room_inv A r"
  by (simp add: room_inv_def)

lemma db_save_inv: "relay_inv A R \<Longrightarrow> dispatch_db_save Z i p s R = Some R' \<Longrightarrow> relay_inv A R'"
  by (auto simp: dispatch_db_save_def Let_def intro!: upd_room_inv db_list_all_inv
      split: if_splits prod.splits option.splits)

lemma fold_enqueue_inv [simp]: "room_inv A (fold (\<lambda>(t, b). enqueue_host_send c m (make_packet t b)) xs r) = room_inv A r"
  by (induction xs arbitrary: r) (auto simp: case_prod_unfold)

lemma db_download_inv: "room_inv A r \<Longrightarrow> room_inv A (dispatch_db_download Z st p r)"
  by (simp add: dispatch_db_download_def)

lemma db_delete_inv: "relay_inv A R \<Longrightarrow> relay_inv A (dispatch_db_delete Z i p R)"
  by (auto simp: dispatch_db_delete_def Let_def intro!: upd_room_inv db_list_all_inv split: prod.splits)

lemma find_conn_Some: "find_conn c js = Some k \<Longrightarrow> k < length js \<and> conn_id (js ! k) = c"
  by (induction js arbitrary: k) (auto split: if_splits)

lemma auth_ack_inv:
  assumes "room_inv A r" "auth_ack_target p cid r = Some k" "cid \<in> A"
  shows "room_inv A (dispatch_auth_ack Z st k p r)"
proof -
  have k: "k < length (joins r)" "conn_id (joins r ! k) = cid" "pkt_type p = 0x02"
    using assms(2) find_conn_Some [of cid "joins r" k] by (auto simp: auth_ack_target_def split: if_splits)
  let ?f = "\<lambda>je. je\<lparr> op_index := p ! (BEWE_HDR_SIZE + 1), authed := True \<rparr>"
  let ?g = "\<lambda>je. je\<lparr> je_ops := je_ops je @ map Ctrl (p # cached_packets (upd_join k ?f r)) \<rparr>"
  let ?r = "upd_join k ?g (upd_join k ?f r)"
  have "room_inv A ?r"
    using assms(1,3) k by (auto simp: room_inv_def upd_join_def je_inv_def intro!: list_all_update)
  then have "room_inv A (build_and_broadcast_op_list ?r)" by (rule op_list_inv)
  moreover have "authed (joins (build_and_broadcast_op_list ?r) ! k)"
    using k by (simp add: build_and_broadcast_op_list_def Let_def upd_join_def send_to_def enqueue_host_send_def je_send_def)
  ultimately show ?thesis
    unfolding dispatch_auth_ack_def Let_def by (intro db_list_inv) auto
qed

lemma dispatch_inv:
  assumes "relay_inv A R" "dispatch_to_joins Z i cid p s R = Some R'" "room_at i R"
    and "auth_ack_target p cid (rooms R ! i) \<noteq> None \<Longrightarrow> cid \<in> A"
  shows "relay_inv A R'"
proof (cases "auth_ack_target p cid (rooms R ! i)")
  case (Some k)
  then have "cid \<in> A" using assms(4) by simp
  have len: "\<not> length p < BEWE_HDR_SIZE" using Some by (auto simp: auth_ack_target_def split: if_splits)
  have i: "i < length (rooms R)" "room_inv A (rooms R ! i)"
    using assms(1,3) by (auto simp: room_at_def relay_inv_def list_all_length)
  have "R' = upd_room i (dispatch_auth_ack Z (db R) k p) R"
    using assms(2) Some len by (simp add: dispatch_to_joins_def Let_def)
  then show ?thesis
    using assms(1) auth_ack_inv [OF i(2) Some \<open>cid \<in> A\<close>] by (auto simp: relay_inv_def upd_room_def intro!: list_all_update)
next
  case None
  let ?R = "cache_mission i p (cache_sched i p (upd_room i (cache_status p) R))"
  have R: "relay_inv A ?R"
    by (intro cache_mission_inv cache_sched_inv upd_room_inv assms(1) cached_inv)
  show ?thesis
  proof (cases "length p < BEWE_HDR_SIZE")
    case True
    then show ?thesis using assms(1,2) by (simp add: dispatch_to_joins_def)
  next
    case False
    then show ?thesis using assms(2) None R
      by (auto simp: dispatch_to_joins_def Let_def split: if_splits
          intro!: upd_room_inv host_module_inv dispatch_sync_inv audio_inv dispatch_chat_inv db_download_inv
            db_delete_inv forward_inv
          intro: db_save_inv)
  qed
qed

lemma upd_je_inv:
  assumes "relay_inv A R" "\<And>je. je = the_join i k R \<Longrightarrow> je_inv A je \<Longrightarrow> je_inv A (f je)"
  shows "relay_inv A (upd_je i k f R)"
proof -
  have "room_inv A (upd_join k f (rooms R ! i))" if "i < length (rooms R)"
  proof -
    have r: "room_inv A (rooms R ! i)" using assms(1) that by (simp add: relay_inv_def list_all_length)
    then show ?thesis using assms(2) by (auto simp: room_inv_def upd_join_def intro!: list_all_update)
  qed
  then show ?thesis using assms(1) by (auto simp: relay_inv_def upd_je_def upd_room_def intro!: list_all_update)
qed

lemma upd_room_at_inv:
  assumes "relay_inv A R" "room_inv A (rooms R ! i) \<Longrightarrow> room_inv A (f (rooms R ! i))"
  shows "relay_inv A (upd_room i f R)"
  using assms by (auto simp: relay_inv_def upd_room_def intro!: list_all_update)

lemma same_ops_inv: "je_inv A je \<Longrightarrow> conn_id je' = conn_id je \<Longrightarrow> authed je' = authed je \<Longrightarrow> je_ops je' = je_ops je \<Longrightarrow> je_inv A je'"
  by (simp add: je_inv_def)

lemma route_inv: "list_all (room_inv A) rs \<Longrightarrow> list_all (room_inv A) (route_to_station sid p rs)"
  by (induction rs) auto

lemma join_module_inv: "relay_inv A R \<Longrightarrow> relay_inv A (handle_join_module_pipe i k p R)"
  by (auto simp: handle_join_module_pipe_def split: option.split intro!: upd_je_inv intro: same_ops_inv)
    (auto simp: relay_inv_def intro!: route_inv)

lemma reset_recv_inv: "room_inv A r \<Longrightarrow> room_inv A (reset_recv ch r)"
  unfolding reset_recv_def by (intro map_joins_inv) (auto intro: same_ops_inv)

lemma cmd_inv: "relay_inv A R \<Longrightarrow> relay_inv A (snd (intercept_cmd Z i k b R))"
  by (auto simp: intercept_cmd_def intro!: upd_room_inv rebuild_inv upd_je_inv reset_recv_inv intro: same_ops_inv)

lemma join_save_inv: "relay_inv A R \<Longrightarrow> intercept_db_save Z i k p s R = Some R' \<Longrightarrow> relay_inv A R'"
  by (auto simp: intercept_db_save_def Let_def intro!: upd_room_inv db_list_all_inv upd_je_inv intro: same_ops_inv
      split: if_splits prod.splits option.splits)

lemma set_note_inv: "relay_inv A R \<Longrightarrow> relay_inv A (intercept_db_set_note Z i p R)"
  by (auto simp: intercept_db_set_note_def Let_def intro!: upd_room_inv db_list_all_inv split: prod.splits)

lemma chat_inv: "relay_inv A R \<Longrightarrow> relay_inv A (intercept_chat i k p R)"
  by (simp add: intercept_chat_def room_chat_inv global_chat_inv)

lemma db_list_one_inv:
  "relay_inv A R \<Longrightarrow> authed (the_join i k R) \<Longrightarrow> relay_inv A (upd_room i (broadcast_db_list Z st (Some k)) R)"
  by (rule upd_room_at_inv) (auto intro!: db_list_inv)

lemma download_inv:
  "relay_inv A R \<Longrightarrow> authed (the_join i k R) \<Longrightarrow> relay_inv A (upd_je i k (intercept_db_download Z b fs) R)"
  by (rule upd_je_inv) (auto simp: intercept_db_download_def je_inv_def)

lemma auth_req_inv: "je_inv A je \<Longrightarrow> je_inv A (intercept_auth_req b je)"
  by (auto simp: intercept_auth_req_def intro: same_ops_inv)

lemma intercept_inv:
  assumes "relay_inv A R" "intercept_join_cmd Z i k p s R = Some (c, R')"
  shows "relay_inv A R'"
proof (cases "authed (the_join i k R)")
  case False
  then show ?thesis using assms
    by (auto simp: intercept_join_cmd_def Let_def split: if_splits intro!: upd_je_inv auth_req_inv)
next
  case True
  have cmd: "relay_inv A R''" if "intercept_cmd Z i k b R = (c, R'')" for b R''
    using cmd_inv [OF assms(1), of Z i k b] that by simp
  show ?thesis using assms True
    by (auto simp: intercept_join_cmd_def Let_def split: if_splits
        intro!: upd_je_inv auth_req_inv db_list_one_inv download_inv db_delete_inv set_note_inv chat_inv join_module_inv
        intro: join_save_inv cmd)
qed

lemma join_packet_inv:
  assumes "relay_inv A R" "join_packet Z i k p s R = Some R'"
  shows "relay_inv A R'"
proof -
  obtain c R1 where 1: "intercept_join_cmd Z i k p s R = Some (c, R1)"
    using assms(2) by (auto simp: join_packet_def split: option.splits)
  have "relay_inv A R1" using intercept_inv [OF assms(1) 1] .
  then show ?thesis using assms(2) 1 by (auto simp: join_packet_def split: if_splits intro!: upd_room_inv)
qed

lemma list_all_remove_nth: "list_all P xs \<Longrightarrow> list_all P (remove_nth k xs)"
  by (auto simp: remove_nth_def list_all_iff dest: in_set_takeD in_set_dropD)

lemma removed_inv:
  "room_inv A r \<Longrightarrow> room_inv A ((r\<lparr> joins := remove_nth k (joins r) \<rparr>)\<lparr> user_count := n \<rparr>)"
  by (simp add: room_inv_def list_all_remove_nth)

lemma leave_inv: "relay_inv A R \<Longrightarrow> relay_inv A (join_leave i k R)"
  unfolding join_leave_def
  by (rule upd_room_inv) (auto simp: Let_def intro!: removed_inv op_list_inv simp del: update_convs)

lemma close_inv: "relay_inv A R \<Longrightarrow> relay_inv A (host_close i R)"
  by (simp add: relay_inv_def host_close_def list_all_remove_nth)

lemma open_inv: "relay_inv A R \<Longrightarrow> relay_inv A (host_open Z now p R)"
proof -
  assume R: "relay_inv A R"
  have "room_inv A (new_room a b c d e)" for a b c d e by (simp add: new_room_def room_inv_def)
  then have "room_inv A (replay_mission R (replay_sched R (new_room a b c d e)))" for a b c d e
    by (auto simp: replay_mission_def replay_sched_def room_inv_def enqueue_host_send_def split: option.split)
  moreover have "list_all (room_inv A) (filter P (rooms R))" for P
    using R by (auto simp: relay_inv_def list_all_iff)
  ultimately show ?thesis using R
    by (auto simp: host_open_def Let_def relay_inv_def intro!: db_list_all_inv op_list_inv)
qed

lemma join_inv: "relay_inv A R \<Longrightarrow> relay_inv A (join_room p R)"
proof -
  assume R: "relay_inv A R"
  have "je_inv A (new_join c)" for c by (simp add: new_join_def je_inv_def)
  then have "room_inv A (r\<lparr> joins := joins r @ [new_join c], next_conn_id := n, user_count := u \<rparr>)"
    if "room_inv A r" for r c n u using that by (simp add: room_inv_def)
  then show ?thesis using R by (auto simp: join_room_def Let_def split: option.split intro!: upd_room_inv)
qed

lemma hb_inv: "room_inv A r \<Longrightarrow> room_inv A (host_hb Z st now p r)"
proof -
  assume r: "room_inv A r"
  have fields: "room_inv A (r\<lparr> hb_count := n \<rparr>) = room_inv A r" "room_inv A (r\<lparr> last_hb := t \<rparr>) = room_inv A r"
    "room_inv A (r\<lparr> user_count := u \<rparr>) = room_inv A r" for r n t u by (simp_all add: room_inv_def)
  show ?thesis using r by (auto simp: host_hb_def Let_def fields intro!: db_list_all_inv simp del: update_convs)
qed

lemma state_inv: "room_inv A r \<Longrightarrow> room_inv A (host_state p r)" "room_inv A r \<Longrightarrow> room_inv A (host_reset p r)"
  by (auto simp: host_state_def host_reset_def intro: room_inv_same split: list.split)

lemma frame_inv:
  assumes "relay_inv A R" "room_at i R" "host_frame Z i now cid ty p s R = Some R'"
    and "ty = MUX_DATA \<Longrightarrow> auth_ack_target p cid (rooms R ! i) \<noteq> None \<Longrightarrow> cid \<in> A"
  shows "relay_inv A R'"
proof -
  let ?f = "\<lambda>r. r\<lparr> last_hb := now \<rparr>"
  have u: "relay_inv A (upd_room i ?f R)" by (intro upd_room_inv assms(1)) (auto intro: room_inv_same)
  have i: "room_at i (upd_room i ?f R)" using assms(2) by (simp add: room_at_def upd_room_def)
  have "auth_ack_target p cid (rooms (upd_room i ?f R) ! i) = auth_ack_target p cid (rooms R ! i)"
    using assms(2) by (simp add: room_at_def upd_room_def auth_ack_target_def)
  then show ?thesis using assms u dispatch_inv [OF u _ i, of Z cid p s R']
    by (auto simp: host_frame_def Let_def split: if_splits intro!: upd_room_inv hb_inv state_inv close_inv)
qed

lemma watchdog_inv: "relay_inv A R \<Longrightarrow> relay_inv A (watchdog now R)"
  by (auto simp: relay_inv_def watchdog_def list_all_iff intro: room_inv_same)

lemma stat_inv: "relay_inv A R \<Longrightarrow> relay_inv A (disk_stat f t R)"
  by (auto simp: relay_inv_def disk_stat_def list_all_iff intro!: send_to_inv)

text \<open>The connection ids that an event acknowledges.\<close>

fun acked :: "event \<Rightarrow> u16 set" where
  "acked (HostFrame i now cid ty p s) =
     (if ty = MUX_DATA \<and> pkt_type p = 0x02 \<and> length p \<ge> BEWE_HDR_SIZE + 2 \<and> p ! BEWE_HDR_SIZE \<noteq> 0 \<and> cid \<noteq> 0xFFFF
      then {cid} else {})"
| "acked _ = {}"

lemma step_inv:
  assumes "relay_inv A R" "server_step Z e R = Some R'" "acked e \<subseteq> A"
  shows "relay_inv A R'"
proof (cases e)
  case (HostFrame i now cid ty p s)
  then show ?thesis using assms frame_inv [OF assms(1), of i Z now cid ty p s R']
    by (auto simp: auth_ack_target_def split: if_splits)
qed (use assms open_inv join_inv join_packet_inv leave_inv close_inv watchdog_inv stat_inv in \<open>auto split: if_splits\<close>)

lemma run_inv: "server_run Z es R \<Longrightarrow> relay_inv (\<Union> (acked ` set es)) R"
proof (induction rule: server_run.induct)
  case (run_init sched missions st)
  then show ?case by (simp add: init_relay_def relay_inv_def)
next
  case (run_step es R e R')
  have "relay_inv (\<Union> (acked ` set (es @ [e]))) R" using run_step.IH by (rule relay_inv_mono) auto
  then show ?case using run_step.hyps(2) by (rule step_inv) auto
qed

end
