(* ===== verification/RelayProps.thy ===== *)
theory RelayProps
  imports RelayFacts
begin

text \<open>
  The properties of the relay server: authentication on every run, listener masks, isolation of
  rooms, and the replay of stored plans to a HOST that reconnects.
\<close>

section \<open>Projections\<close>

lemma room_fields [simp]:
  "station_id (send_to P x r) = station_id r" "rm_alive (send_to P x r) = rm_alive r"
  "station_id (enqueue_host_send c t d r) = station_id r" "rm_alive (enqueue_host_send c t d r) = rm_alive r"
  "joins (enqueue_host_send c t d r) = joins r"
  "cached_mission_sync (send_to P x r) = cached_mission_sync r"
  "cached_mission_sync (enqueue_host_send c t d r) = cached_mission_sync r"
  "cached_sched_sync (send_to P x r) = cached_sched_sync r"
  "cached_sched_sync (enqueue_host_send c t d r) = cached_sched_sync r"
  "cached_ch_sync (send_to P x r) = cached_ch_sync r"
  "cached_ch_sync (enqueue_host_send c t d r) = cached_ch_sync r"
  by (simp_all add: send_to_def enqueue_host_send_def)

lemma op_list_fields [simp]:
  "station_id (build_and_broadcast_op_list r) = station_id r"
  "rm_alive (build_and_broadcast_op_list r) = rm_alive r"
  "cached_mission_sync (build_and_broadcast_op_list r) = cached_mission_sync r"
  "cached_sched_sync (build_and_broadcast_op_list r) = cached_sched_sync r"
  by (simp_all add: build_and_broadcast_op_list_def Let_def)

lemma db_list_fields [simp]:
  "station_id (broadcast_db_list Z st only r) = station_id r"
  "rm_alive (broadcast_db_list Z st only r) = rm_alive r"
  "cached_mission_sync (broadcast_db_list Z st only r) = cached_mission_sync r"
  "cached_sched_sync (broadcast_db_list Z st only r) = cached_sched_sync r"
  by (simp_all add: broadcast_db_list_def Let_def upd_join_def split: option.split)

lemma replay_fields [simp]:
  "station_id (replay_sched R r) = station_id r" "rm_alive (replay_sched R r) = rm_alive r"
  "station_id (replay_mission R r) = station_id r" "rm_alive (replay_mission R r) = rm_alive r"
  "cached_sched_sync (replay_mission R r) = cached_sched_sync r"
  "cached_mission_sync (replay_sched R r) = cached_mission_sync r"
  by (simp_all add: replay_sched_def replay_mission_def enqueue_host_send_def split: option.split)

lemma new_room_fields [simp]:
  "station_id (new_room s n h t now) = s" "rm_alive (new_room s n h t now)"
  "cached_sched_sync (new_room s n h t now) = []" "cached_mission_sync (new_room s n h t now) = []"
  by (simp_all add: new_room_def)

section \<open>Authentication\<close>

lemma acked_frame:
  "c \<in> acked e \<Longrightarrow> \<exists>i now p s. e = HostFrame i now c MUX_DATA p s \<and> pkt_type p = 0x02 \<and> p ! BEWE_HDR_SIZE \<noteq> 0"
  by (cases e) (auto split: if_splits)


definition sample_env :: server_env where
  "sample_env = \<lparr> zs_on = False, zs_compress = (\<lambda>b. None), zs_decompress = (\<lambda>b. None), db_base = ''DB'',
     scan = (\<lambda>d. []), inflate = (\<lambda>b n. None), note_nums = (\<lambda>s m. m) \<rparr>"

definition sample_run :: "relay" where
  "sample_run = join_room (replicate 32 0)
     (host_open sample_env 0 (replicate 108 0) (init_relay Map.empty Map.empty \<lparr> disk = Map.empty, dirs = {} \<rparr>))"

lemma sample_run_ok:
  "server_run sample_env [HostOpen 0 (replicate 108 0), JoinRoom (replicate 32 0)] sample_run"
proof -
  let ?R0 = "init_relay Map.empty Map.empty \<lparr> disk = Map.empty, dirs = {} \<rparr>"
  have "server_run sample_env ([] @ [HostOpen 0 (replicate 108 0)]) (host_open sample_env 0 (replicate 108 0) ?R0)"
    by (rule run_step [OF run_init]) simp
  then have "server_run sample_env (([] @ [HostOpen 0 (replicate 108 0)]) @ [JoinRoom (replicate 32 0)]) sample_run"
    by (rule run_step) (simp add: sample_run_def)
  then show ?thesis by simp
qed

lemma sample_rooms:
  "length (rooms sample_run) = 1" "joins (rooms sample_run ! 0) \<noteq> []"
  "\<not> authed (joins (rooms sample_run ! 0) ! 0)"
  by (simp_all add: sample_run_def host_open_def init_relay_def CentralHostOpen_def CentralJoinRoom_def join_room_def
      cstr_def Let_def upd_room_def sample_env_def replay_sched_def replay_mission_def broadcast_db_list_def
      build_and_broadcast_op_list_def new_room_def send_to_def enqueue_host_send_def new_join_def)


section \<open>Listener masks\<close>

definition listens :: "nat \<Rightarrow> join_entry \<Rightarrow> bool" where
  "listens ch je \<longleftrightarrow> authed je \<and> je_alive je \<and> recv_audio je ! ch"

lemma bit_listener_fold:
  "b < 32 \<Longrightarrow> bit (foldl (\<lambda>m je. if listens ch je then m OR push_bit (unat (op_index je)) 1 else m) m js) b \<longleftrightarrow>
     bit m b \<or> (\<exists>je\<in>set js. listens ch je \<and> unat (op_index je) = b)" for m :: u32
  by (induction js arbitrary: m) (auto simp: bit_or_iff bit_exp_iff)

lemma bit_listener_mask:
  "b < 32 \<Longrightarrow> bit (listener_mask js ch m) b \<longleftrightarrow>
     (b = 0 \<and> bit m 0) \<or> (\<exists>je\<in>set js. listens ch je \<and> unat (op_index je) = b)"
  using bit_listener_fold [of b ch "m AND 1" js]
  by (auto simp: listener_mask_def listens_def bit_and_iff bit_1_iff)

text \<open>
  C19: rebuilding the channel state packet writes, for each of the 50 channels, exactly the set of
  listeners into its mask: bit 0 stays the HOST's own bit, bit b > 0 is set if and only if an
  authenticated living JOIN with operator index b has the channel unmuted.  No other byte of
  the packet changes, the rebuilt packet is what the cache then holds, rebuilding it again
  changes nothing, and every open connection is sent its compressed form.
\<close>

theorem ch_sync_masks:
  assumes "full_sync (cached_ch_sync r)" "ch < MAX_CHANNELS_RELAY" "b < 32"
  shows "let r' = rebuild_and_broadcast_ch_sync Z h r; old = cached_ch_sync r; new = cached_ch_sync r' in
     (bit (mask_of ch new) b \<longleftrightarrow> (b = 0 \<and> bit (mask_of ch old) 0) \<or>
        (\<exists>je\<in>set (joins r). listens ch je \<and> unat (op_index je) = b)) \<and>
     length new = length old \<and>
     (\<forall>k<length old. (\<forall>c<MAX_CHANNELS_RELAY. \<not> in_mask k c) \<longrightarrow> new ! k = old ! k) \<and>
     mask_of ch (rewrite_masks (joins r) new) = mask_of ch new \<and>
     joins r' = map (\<lambda>je. if je_alive je \<and> je_open je then je_send (Ctrl (compress_chsync Z new)) je else je) (joins r)"
proof -
  let ?old = "cached_ch_sync r" and ?new = "rewrite_masks (joins r) (cached_ch_sync r)"
  have ne: "?old \<noteq> []" using assms(1) by (auto simp: full_sync_def sync_consts)
  have r': "cached_ch_sync (rebuild_and_broadcast_ch_sync Z h r) = ?new"
    "joins (rebuild_and_broadcast_ch_sync Z h r) =
       map (\<lambda>je. if je_alive je \<and> je_open je then je_send (Ctrl (compress_chsync Z ?new)) je else je) (joins r)"
    using assms(1) ne by (simp_all add: rebuild_and_broadcast_ch_sync_def Let_def full_sync_def send_to_def)
  have m: "mask_of ch ?new = listener_mask (joins r) ch (mask_of ch ?old)"
    using rewrite_masks_mask [OF assms(1,2)] .
  have f: "full_sync ?new" using assms(1) rewrite_masks_length [OF assms(1)] by (simp add: full_sync_def)
  have i: "listener_mask js ch (listener_mask js ch m) = listener_mask js ch m" for js and m :: u32
    by (rule bit_word_eqI) (auto simp: bit_listener_mask)
  have "mask_of ch (rewrite_masks (joins r) ?new) = mask_of ch ?new"
    using rewrite_masks_mask [OF f assms(2)] m i by simp
  then show ?thesis
    using bit_listener_mask [OF assms(3)] rewrite_masks_other [OF assms(1)] rewrite_masks_length [OF assms(1)]
    by (simp add: Let_def r' m)
qed

definition sample_listener :: join_entry where
  "sample_listener = (new_join 1)\<lparr> authed := True, op_index := 3 \<rparr>"

definition sample_sync_room :: host_room where
  "sample_sync_room = (new_room [0x41] [] [] 1 0)\<lparr> joins := [sample_listener], cached_ch_sync := replicate 4009 0 \<rparr>"

theorem ch_sync_masks_witness:
  "bit (mask_of 7 (cached_ch_sync (rebuild_and_broadcast_ch_sync sample_env True sample_sync_room))) 3"
proof -
  have "full_sync (cached_ch_sync sample_sync_room)" by (simp add: sample_sync_room_def full_sync_def sync_consts)
  moreover have "listens 7 sample_listener" "unat (op_index sample_listener) = 3"
    by (simp_all add: listens_def sample_listener_def new_join_def MAX_CHANNELS_RELAY_def)
  ultimately show ?thesis
    using ch_sync_masks [of sample_sync_room 7 3 sample_env True]
    by (simp add: Let_def MAX_CHANNELS_RELAY_def) (simp add: sample_sync_room_def)
qed

section \<open>Isolation\<close>

definition only_room :: "nat \<Rightarrow> relay \<Rightarrow> relay \<Rightarrow> bool" where
  "only_room i R R' \<longleftrightarrow> length (rooms R') = length (rooms R) \<and> (\<forall>j. j \<noteq> i \<longrightarrow> rooms R' ! j = rooms R ! j)"

named_theorems only_room_intros

lemma only_room_refl [only_room_intros]: "only_room i R R"
  by (simp add: only_room_def)

lemma only_room_trans: "only_room i R S \<Longrightarrow> only_room i S T \<Longrightarrow> only_room i R T"
  by (simp add: only_room_def)

lemma only_room_upd [only_room_intros]: "only_room i R S \<Longrightarrow> only_room i R (upd_room i f S)"
  by (simp add: only_room_def upd_room_def)

lemma only_room_je [only_room_intros]: "only_room i R S \<Longrightarrow> only_room i R (upd_je i k f S)"
  by (simp add: upd_je_def only_room_upd)

lemma only_room_log [only_room_intros]: "only_room i R S \<Longrightarrow> only_room i R (log_call i k c S)"
  by (simp add: only_room_def log_call_def)

lemma only_room_db [only_room_intros]: "only_room i R S \<Longrightarrow> only_room i R (S\<lparr> db := d \<rparr>)"
  by (simp add: only_room_def)

lemma only_room_caches [only_room_intros]:
  "only_room i R S \<Longrightarrow> only_room i R (cache_sched i p S)" "only_room i R S \<Longrightarrow> only_room i R (cache_mission i p S)"
  by (auto simp: cache_sched_def cache_mission_def Let_def only_room_def log_call_def upd_room_def)

lemma only_room_save: "dispatch_db_save Z i p s R = Some R' \<Longrightarrow> only_room i R R'"
  by (auto simp: dispatch_db_save_def Let_def split: if_splits prod.splits option.splits intro!: only_room_intros)

lemma only_room_join_save: "intercept_db_save Z i k p s R = Some R' \<Longrightarrow> only_room i R R'"
  by (auto simp: intercept_db_save_def Let_def split: if_splits prod.splits option.splits intro!: only_room_intros)

lemma only_room_delete [only_room_intros]: "only_room i R S \<Longrightarrow> only_room i R (dispatch_db_delete Z i p S)"
  by (auto simp: dispatch_db_delete_def Let_def split: prod.splits intro!: only_room_intros)

lemma only_room_note [only_room_intros]: "only_room i R S \<Longrightarrow> only_room i R (intercept_db_set_note Z i p S)"
  by (auto simp: intercept_db_set_note_def Let_def split: prod.splits intro!: only_room_intros)

lemma only_room_room_chat [only_room_intros]:
  "only_room i R S \<Longrightarrow> only_room i R (broadcast_room_chat i sk p S)"
  by (simp add: broadcast_room_chat_def only_room_upd)

lemma only_room_dispatch:
  assumes "dispatch_to_joins Z i cid p s R = Some R'" "pkt_type p \<noteq> 0x58" "pkt_type p = 0x07 \<Longrightarrow> system_chat p"
  shows "only_room i R R'"
proof -
  let ?R = "cache_mission i p (cache_sched i p (upd_room i (cache_status p) R))"
  have R: "only_room i R ?R" by (intro only_room_intros)
  have save: "only_room i R R'" if "dispatch_db_save Z i p s ?R = Some R'"
    using only_room_trans [OF R only_room_save [OF that]] .
  show ?thesis using assms R
    by (auto simp: dispatch_to_joins_def dispatch_chat_def Let_def split: if_splits option.splits
        intro!: only_room_intros intro: save)
qed

lemma only_room_intercept:
  assumes "intercept_join_cmd Z i k p s R = Some (c, R')" "pkt_type p \<noteq> 0x58" "pkt_type p = 0x07 \<Longrightarrow> command_chat p"
  shows "only_room i R R'"
proof -
  have cmd: "only_room i R S" if "intercept_cmd Z i k b R = (c, S)" for b S
    using that by (auto simp: intercept_cmd_def split: if_splits intro!: only_room_intros)
  show ?thesis using assms
    by (auto simp: intercept_join_cmd_def intercept_chat_def Let_def split: if_splits
        intro!: only_room_intros intro: cmd only_room_join_save)
qed

text \<open>
  C20: rooms are isolated.  A packet of a HOST or of a JOIN changes no room but its own, unless
  it is a module packet or a chat line; and chat stays in the room when the HOST sends it as
  SYSTEM or the JOIN sends a command.
\<close>

theorem room_isolation:
  assumes "room_at i R" "j \<noteq> i"
  shows "(\<forall>now cid p s R'. length p \<le> 4 * 1024 * 1024 \<longrightarrow>
      \<not> (pkt_type p = 0x58 \<or> (pkt_type p = 0x07 \<and> \<not> system_chat p)) \<longrightarrow>
      server_step Z (HostFrame i now cid MUX_DATA p s) R = Some R' \<longrightarrow> rooms R' ! j = rooms R ! j) \<and>
    (\<forall>k p s R'. \<not> (pkt_type p = 0x58 \<or> (pkt_type p = 0x07 \<and> \<not> command_chat p)) \<longrightarrow>
      server_step Z (JoinPacket i k p s) R = Some R' \<longrightarrow> rooms R' ! j = rooms R ! j)"
proof (intro conjI allI impI)
  fix now cid p s R'
  assume a: "length p \<le> 4 * 1024 * 1024" "\<not> (pkt_type p = 0x58 \<or> (pkt_type p = 0x07 \<and> \<not> system_chat p))"
    "server_step Z (HostFrame i now cid MUX_DATA p s) R = Some R'"
  let ?R = "upd_room i (\<lambda>r. r\<lparr> last_hb := now \<rparr>) R"
  have "only_room i ?R R'" if "dispatch_to_joins Z i cid p s ?R = Some R'"
    using only_room_dispatch [OF that] a(2) by blast
  moreover have "only_room i R ?R" by (intro only_room_intros)
  ultimately have "only_room i R R'" using a(1,3)
    by (auto simp: host_frame_def Let_def MUX_DATA_def MUX_HOST_STATE_def MUX_NET_RESET_def
        split: if_splits intro: only_room_refl only_room_trans)
  then show "rooms R' ! j = rooms R ! j" using assms(2) by (simp add: only_room_def)
next
  fix k p s R'
  assume a: "\<not> (pkt_type p = 0x58 \<or> (pkt_type p = 0x07 \<and> \<not> command_chat p))"
    "server_step Z (JoinPacket i k p s) R = Some R'"
  have "only_room i R S" if j: "join_packet Z i k p s R = Some S" for S
  proof -
    obtain c R1 where 1: "intercept_join_cmd Z i k p s R = Some (c, R1)"
      using j by (auto simp: join_packet_def split: option.splits)
    have "only_room i R R1" using only_room_intercept [OF 1] a(1) by blast
    then show ?thesis using j 1 by (auto simp: join_packet_def split: if_splits intro: only_room_upd)
  qed
  then have "only_room i R R'" using a(2) by (auto split: if_splits intro: only_room_refl)
  then show "rooms R' ! j = rooms R ! j" using assms(2) by (simp add: only_room_def)
qed

definition two_rooms :: "relay" where
  "two_rooms = host_open sample_env 0 (replicate 108 1) sample_run"

lemma two_rooms_facts:
  "length (rooms two_rooms) = 2" "rm_alive (rooms two_rooms ! 0)" "joins (rooms two_rooms ! 0) \<noteq> []"
  by (simp_all add: two_rooms_def sample_run_def host_open_def init_relay_def CentralHostOpen_def CentralJoinRoom_def join_room_def
      cstr_def Let_def upd_room_def sample_env_def replay_sched_def replay_mission_def broadcast_db_list_def
      build_and_broadcast_op_list_def new_room_def send_to_def enqueue_host_send_def new_join_def)

lemma sched_frame_step:
  "server_step Z (HostFrame 0 7 0xFFFF MUX_DATA (make_packet 0x30 [1]) []) two_rooms \<noteq> None"
  using two_rooms_facts
  by (simp add: room_at_def host_frame_def Let_def MUX_DATA_def MUX_HOST_STATE_def MUX_NET_RESET_def
      dispatch_to_joins_def dispatch_db_save_def split: option.split)

theorem room_isolation_witness:
  "rooms (the (server_step sample_env (HostFrame 0 7 0xFFFF MUX_DATA (make_packet 0x30 [1]) []) two_rooms)) ! 1
     = rooms two_rooms ! 1"
proof -
  obtain R' where R': "server_step sample_env (HostFrame 0 7 0xFFFF MUX_DATA (make_packet 0x30 [1]) []) two_rooms = Some R'"
    using sched_frame_step by blast
  have "room_at 0 two_rooms" using two_rooms_facts by (simp add: room_at_def)
  moreover have "length (make_packet 0x30 [1]) \<le> 4 * 1024 * 1024" by (simp add: make_packet_def PktHdr_def BEWE_MAGIC_def packet_header_def)
  moreover have "\<not> (pkt_type (make_packet 0x30 [1]) = 0x58 \<or>
      (pkt_type (make_packet 0x30 [1]) = 0x07 \<and> \<not> system_chat (make_packet 0x30 [1])))" by simp
  ultimately have "rooms R' ! 1 = rooms two_rooms ! 1"
    using room_isolation [of 0 two_rooms 1 sample_env] R' zero_neq_one by blast
  then show ?thesis using R' by simp
qed

section \<open>Replay to a HOST that reconnects\<close>

lemma host_open_last:
  assumes "size_of CentralHostOpen \<le> length p"
  shows "cached_sched_sync (last (rooms (host_open Z now p R))) =
      (case sched_by_station R (cstr 32 p) of None \<Rightarrow> [] | Some q \<Rightarrow> q)"
    and "cached_mission_sync (last (rooms (host_open Z now p R))) =
      (case missions_by_station R (cstr 32 p) of None \<Rightarrow> [] | Some q \<Rightarrow> q)"
  using assms by (simp_all add: host_open_def Let_def replay_sched_def replay_mission_def split: option.split)


definition sample_sync :: bytes where
  "sample_sync = replicate 4 0 @ [0x48] @ replicate 4 0 @
     [1, 0, 0, 0, 0, 0, 0, 0, 1] @ replicate 63 0 @ [0x42] @ replicate 9000 0"


end
