(* ===== verification/HistFile.thy ===== *)
theory HistFile
  imports Wire Sigmf
begin

text \<open>
  The spectrum history files (\<^verbatim>\<open>.bewehist\<close>) of \<^verbatim>\<open>src/long_waterfall.hpp\<close> and their
  compression in \<^verbatim>\<open>central/central_mission_archive.cpp\<close>.  A raw file (version 3) is a header
  of 128 bytes followed by rows of \<^verbatim>\<open>fft_size\<close> bytes; a compressed file (version 4) has the
  rows in independently compressed blocks and an index of the blocks at the end.  Files are
  byte lists; the compressor is a parameter.
\<close>

section \<open>Layout\<close>

definition FileHeader :: ctype where
  "FileHeader = Struct [
     (''magic'', chars 4), (''version'', Prim U16), (''fft_size'', Prim U32),
     (''sample_rate_hz'', Prim U64), (''center_freq_hz'', Prim U64),
     (''row_rate_hz'', Prim F32), (''db_min'', Prim F32), (''db_max'', Prim F32),
     (''start_utc_unix'', Prim U64), (''station_lon'', Prim F32), (''fft_input_size'', Prim U32),
     (''utc_offset_hours'', Prim I32), (''reserved_v2'', Arr 6 (Prim U8)),
     (''station_name'', chars 32), (''station_lat'', Prim F32), (''reserved_v3'', Arr 28 (Prim U8))]"

definition V4Ext :: ctype where
  "V4Ext = Struct [
     (''codec'', Prim U8), (''flags'', Prim U8), (''block_rows'', Prim U32), (''num_blocks'', Prim U32),
     (''num_rows'', Prim U64), (''index_offset'', Prim U64)]"

definition HistBlockIndex :: ctype where
  "HistBlockIndex = Struct [(''frame_offset'', Prim U64), (''comp_len'', Prim U32), (''raw_rows'', Prim U32)]"

definition FILE_VERSION :: nat where "FILE_VERSION = 3"
definition FILE_VERSION_ZSTD :: nat where "FILE_VERSION_ZSTD = 4"
definition HIST_CODEC_ZSTD :: nat where "HIST_CODEC_ZSTD = 1"
definition HIST_V4_FLAG_COL_DELTA :: nat where "HIST_V4_FLAG_COL_DELTA = 2"

abbreviation hdr_size :: nat where "hdr_size \<equiv> 128"

text \<open>A number of \<^verbatim>\<open>k\<close> bytes in the header, and in the extension overlaid on its last member.\<close>

definition hdr_num :: "string \<Rightarrow> nat \<Rightarrow> bytes \<Rightarrow> nat" where
  "hdr_num f k h = le_nat (take k (at_member FileHeader f h))"

definition v4ext :: "string \<Rightarrow> nat \<Rightarrow> bytes \<Rightarrow> nat" where
  "v4ext f k h = le_nat (take k (at_member V4Ext f (at_member FileHeader ''reserved_v3'' h)))"

abbreviation hdr_version :: "bytes \<Rightarrow> nat" where "hdr_version \<equiv> hdr_num ''version'' 2"
abbreviation hdr_fft_size :: "bytes \<Rightarrow> nat" where "hdr_fft_size \<equiv> hdr_num ''fft_size'' 4"
abbreviation hdr_fft_input_size :: "bytes \<Rightarrow> nat" where "hdr_fft_input_size \<equiv> hdr_num ''fft_input_size'' 4"
abbreviation hdr_start_utc :: "bytes \<Rightarrow> nat" where "hdr_start_utc \<equiv> hdr_num ''start_utc_unix'' 8"
abbreviation ext_num_rows :: "bytes \<Rightarrow> nat" where "ext_num_rows \<equiv> v4ext ''num_rows'' 8"

definition has_magic :: "bytes \<Rightarrow> bool" where
  "has_magic f \<longleftrightarrow> hdr_size \<le> length f \<and> take 4 f = bytes_of ''BWWF''"

definition hist_default_block_rows :: "nat \<Rightarrow> nat" where
  "hist_default_block_rows fft_size =
     (if fft_size = 0 then 256 else min 1024 (max 64 (2 * 1024 * 1024 div fft_size)))"

section \<open>Differences along the frequency axis\<close>

fun col_delta :: "u8 \<Rightarrow> bytes \<Rightarrow> bytes" where
  "col_delta prev [] = []"
| "col_delta prev (x # xs) = (x - prev) # col_delta x xs"

fun prefix_sums :: "u8 \<Rightarrow> bytes \<Rightarrow> bytes" where
  "prefix_sums acc [] = []"
| "prefix_sums acc (x # xs) = (acc + x) # prefix_sums (acc + x) xs"

text \<open>A function applied to each of \<^verbatim>\<open>n\<close> rows.\<close>

definition each_row :: "(bytes \<Rightarrow> bytes) \<Rightarrow> nat \<Rightarrow> nat \<Rightarrow> bytes \<Rightarrow> bytes" where
  "each_row f n fft xs = concat (map f (chunks n fft xs))"

section \<open>Compression\<close>

text \<open>\<^verbatim>\<open>ZSTD_compress\<close> and \<^verbatim>\<open>ZSTD_decompress\<close> (with the capacity of the destination).\<close>

record zstd =
  z_compress :: "bytes \<Rightarrow> bytes option"
  z_decompress :: "nat \<Rightarrow> bytes \<Rightarrow> bytes option"

record hist_block =
  frame_offset :: nat
  comp_len :: nat
  raw_rows :: nat

definition block_bytes :: "hist_block \<Rightarrow> bytes" where
  "block_bytes e = le_bytes 8 (frame_offset e) @ le_bytes 4 (comp_len e) @ le_bytes 4 (raw_rows e)"

fun compress_blocks :: "zstd \<Rightarrow> nat \<Rightarrow> nat \<Rightarrow> nat \<Rightarrow> nat \<Rightarrow> nat \<Rightarrow> bytes \<Rightarrow> (bytes \<times> hist_block list) option" where
  "compress_blocks Z fft br 0 rows off body = Some ([], [])"
| "compress_blocks Z fft br (Suc nb) rows off body =
     (let n = min br rows; raw = take (n * fft) body
      in case z_compress Z (each_row (col_delta 0) n fft raw) of
           None \<Rightarrow> None
         | Some z \<Rightarrow>
             (case compress_blocks Z fft br nb (rows - n) (off + length z) (drop (n * fft) body) of
                None \<Rightarrow> None
              | Some (frames, index) \<Rightarrow>
                  Some (z @ frames,
                    \<lparr> frame_offset = off, comp_len = length z mod 2 ^ 32, raw_rows = n \<rparr> # index)))"

text \<open>The extension fields are set in a copy of the header.\<close>

definition v4_header :: "bytes \<Rightarrow> nat \<Rightarrow> nat \<Rightarrow> nat \<Rightarrow> nat \<Rightarrow> bytes" where
  "v4_header h br nb rows ioff =
     splice 100 ([of_nat HIST_CODEC_ZSTD, of_nat HIST_V4_FLAG_COL_DELTA] @ le_bytes 4 br @ le_bytes 4 nb @
                 le_bytes 8 rows @ le_bytes 8 ioff)
       (splice 4 (le_bytes 2 FILE_VERSION_ZSTD) h)"

text \<open>The content that replaces a raw file; \<^verbatim>\<open>None\<close>: the file is left as it is.\<close>

definition compress_hist_file :: "zstd \<Rightarrow> bytes \<Rightarrow> bytes option" where
  "compress_hist_file Z f =
     (if \<not> has_magic f \<or> hdr_version f \<noteq> FILE_VERSION \<or> hdr_fft_size f = 0 then None
      else let fft = hdr_fft_size f; body = drop hdr_size f; rows = length body div fft in
      if rows = 0 then None
      else let br = hist_default_block_rows fft; nb = ((rows + br - 1) div br) mod 2 ^ 32
           in case compress_blocks Z fft br nb rows hdr_size body of
                None \<Rightarrow> None
              | Some (frames, index) \<Rightarrow>
                  Some (v4_header (take hdr_size f) br nb rows (hdr_size + length frames) @ frames @
                        concat (map block_bytes index)))"

section \<open>Decompression\<close>

definition block_at :: "bytes \<Rightarrow> hist_block" where
  "block_at b = \<lparr> frame_offset = le_nat (take 8 b), comp_len = le_nat (take 4 (drop 8 b)),
                   raw_rows = le_nat (take 4 (drop 12 b)) \<rparr>"

text \<open>\<^verbatim>\<open>fseeko\<close> and \<^verbatim>\<open>fread\<close> of exactly \<^verbatim>\<open>n\<close> bytes; offsets are signed.\<close>

definition read_at :: "bytes \<Rightarrow> nat \<Rightarrow> nat \<Rightarrow> bytes option" where
  "read_at f off n =
     (let b = take n (drop off f) in if off < 2 ^ 63 \<and> length b = n then Some b else None)"

definition read_index :: "bytes \<Rightarrow> nat \<Rightarrow> nat \<Rightarrow> hist_block list option" where
  "read_index f ioff nb = map_option (\<lambda>b. map block_at (chunks nb 16 b)) (read_at f ioff (nb * 16))"

fun decompress_blocks :: "zstd \<Rightarrow> nat \<Rightarrow> nat \<Rightarrow> bool \<Rightarrow> bytes \<Rightarrow> hist_block list \<Rightarrow> bytes option" where
  "decompress_blocks Z fft br delta f [] = Some []"
| "decompress_blocks Z fft br delta f (e # es) =
     (if raw_rows e = 0 \<or> raw_rows e > br then None
      else case read_at f (frame_offset e) (comp_len e) of
             None \<Rightarrow> None
           | Some c \<Rightarrow>
               (case z_decompress Z (br * fft) c of
                  None \<Rightarrow> None
                | Some d \<Rightarrow>
                    if length d \<noteq> raw_rows e * fft then None
                    else map_option ((@) (if delta then each_row (prefix_sums 0) (raw_rows e) fft d else d))
                           (decompress_blocks Z fft br delta f es)))"

definition raw_header :: "bytes \<Rightarrow> bytes" where
  "raw_header h = splice 100 (replicate 28 0) (splice 4 (le_bytes 2 FILE_VERSION) h)"

definition decompress_hist_file :: "zstd \<Rightarrow> bytes \<Rightarrow> bytes option" where
  "decompress_hist_file Z f =
     (let fft = hdr_fft_size f; br = v4ext ''block_rows'' 4 f; nb = v4ext ''num_blocks'' 4 f;
          ioff = v4ext ''index_offset'' 8 f
      in if \<not> has_magic f \<or> hdr_version f \<noteq> FILE_VERSION_ZSTD \<or> fft = 0 then None
         else if v4ext ''codec'' 1 f \<noteq> HIST_CODEC_ZSTD \<or> nb = 0 \<or> br = 0 \<or> ioff = 0 then None
         else case read_index f ioff nb of
                None \<Rightarrow> None
              | Some index \<Rightarrow>
                  map_option ((@) (raw_header (take hdr_size f)))
                    (decompress_blocks Z fft br (odd (v4ext ''flags'' 1 f div HIST_V4_FLAG_COL_DELTA)) f index))"

section \<open>File names\<close>

text \<open>Hour and minute in Korea.\<close>

definition kst_hm :: "int \<Rightarrow> int \<times> int" where
  "kst_hm t = (let s = t + 9 * 3600 in ((s div 3600) mod 24, (s div 60) mod 60))"

definition two_digits :: "int \<Rightarrow> string" where
  "two_digits n = [char_of (nat (n div 10) + 48), char_of (nat (n mod 10) + 48)]"

definition hhmm_tail :: "int \<Rightarrow> string" where
  "hhmm_tail t = (case kst_hm t of (h, m) \<Rightarrow> ''-'' @ two_digits h @ two_digits m @ ''.bewehist'')"

text \<open>\<^verbatim>\<open>rfind\<close>: the text before the last occurrence of a pattern.\<close>

fun before_last :: "string \<Rightarrow> string \<Rightarrow> string option" where
  "before_last k [] = (if k = [] then Some [] else None)"
| "before_last k (c # s) =
     (case before_last k s of
        Some p \<Rightarrow> Some (c # p)
      | None \<Rightarrow> if prefix k (c # s) then Some [] else None)"

definition build_hist_filename_finalize :: "string \<Rightarrow> int \<Rightarrow> string" where
  "build_hist_filename_finalize live_name end_utc =
     (case before_last ''-LIVE.bewehist'' live_name of
        None \<Rightarrow> live_name | Some p \<Rightarrow> p @ hhmm_tail end_utc)"

definition hist_is_short_stub :: "nat \<Rightarrow> nat \<Rightarrow> bool" where
  "hist_is_short_stub start_utc end_utc \<longleftrightarrow> start_utc \<le> end_utc \<and> end_utc - start_utc < 90"

end
