(* ===== verification/MissionArchive.thy ===== *)
theory MissionArchive
  imports HistFile DbFiles Packets
begin

text \<open>
  The mission archive of the relay, \<^verbatim>\<open>central/central_mission_archive.cpp\<close>: files under
  \<^verbatim>\<open>missions/<station>/<year>/<code>/{iq,audio,hist}/\<close>, pushed in chunks by a HOST or a JOIN,
  downloaded from any offset, deleted, renamed and annotated.  An open file is the path it was
  opened with; what happens to a file that is renamed or deleted while it is open is not
  tracked.  The results of system calls that may fail are arguments.
\<close>

section \<open>Paths\<close>

definition path_component_safe :: "nat \<Rightarrow> string \<Rightarrow> bool" where
  "path_component_safe maxlen s \<longleftrightarrow> s \<noteq> [] \<and> length s < maxlen \<and> s \<noteq> ''.'' \<and> s \<noteq> ''..'' \<and>
     list_all (\<lambda>c. c \<noteq> CHR ''/'' \<and> c \<noteq> bsl \<and> \<not> (of_char c :: nat) < 0x20) s"

definition MFS_IQ :: u8 where "MFS_IQ = 1"
definition MFS_AUDIO :: u8 where "MFS_AUDIO = 2"
definition MFS_HIST :: u8 where "MFS_HIST = 3"

definition subdir_name :: "u8 \<Rightarrow> string option" where
  "subdir_name s = (if s = MFS_IQ then Some ''iq'' else if s = MFS_AUDIO then Some ''audio''
                    else if s = MFS_HIST then Some ''hist'' else None)"

definition archive_root :: "string \<Rightarrow> string" where
  "archive_root base = path_in base ''missions''"

definition mission_dir :: "string \<Rightarrow> string \<Rightarrow> nat \<Rightarrow> string \<Rightarrow> string option" where
  "mission_dir base station year code =
     (if \<not> path_component_safe 64 station \<or> \<not> path_component_safe 8 code \<or> year < 1970 \<or> year > 3000 then None
      else Some (path_in (path_in (path_in (archive_root base) station) (dec_str year)) code))"

definition archive_dir :: "string \<Rightarrow> string \<Rightarrow> nat \<Rightarrow> string \<Rightarrow> u8 \<Rightarrow> string option" where
  "archive_dir base station year code subdir =
     (case subdir_name subdir of
        None \<Rightarrow> None
      | Some sub \<Rightarrow> map_option (\<lambda>d. path_in d sub) (mission_dir base station year code))"

text \<open>The directories made by \<^verbatim>\<open>mkdir_p\<close>: every proper prefix that ends before a slash, and the path.\<close>

definition mkdir_p :: "string \<Rightarrow> store \<Rightarrow> store" where
  "mkdir_p p st = st\<lparr> dirs := insert p (set (map (\<lambda>i. take i p) (filter (\<lambda>i. p ! i = CHR ''/'') [1..<length p]))) \<union> dirs st \<rparr>"

section \<open>Keys\<close>

text \<open>The members of a \<^verbatim>\<open>MissionFileKey\<close>; texts are read from a buffer with a zero appended.\<close>

definition key_station :: "bytes \<Rightarrow> string" where "key_station k = text_of 64 k"
definition key_year :: "bytes \<Rightarrow> nat" where "key_year k = le_nat (take 2 (at_member MissionFileKey ''year'' k))"
definition key_subdir :: "bytes \<Rightarrow> u8" where "key_subdir k = at_member MissionFileKey ''subdir'' k ! 0"
definition key_code :: "bytes \<Rightarrow> string" where "key_code k = text_of 8 (at_member MissionFileKey ''code'' k)"
definition key_filename :: "bytes \<Rightarrow> string" where "key_filename k = text_of 128 (at_member MissionFileKey ''filename'' k)"

definition key_valid :: "bytes \<Rightarrow> bool" where
  "key_valid k \<longleftrightarrow> path_component_safe 64 (key_station k) \<and> path_component_safe 8 (key_code k) \<and>
     path_component_safe 128 (key_filename k) \<and> subdir_name (key_subdir k) \<noteq> None"

definition key_dir :: "string \<Rightarrow> bytes \<Rightarrow> string option" where
  "key_dir base k = archive_dir base (key_station k) (key_year k) (key_code k) (key_subdir k)"

text \<open>The file that a request names, if the key is accepted.\<close>

definition key_path :: "string \<Rightarrow> bytes \<Rightarrow> string option" where
  "key_path base k =
     (if key_valid k then map_option (\<lambda>d. path_in d (key_filename k)) (key_dir base k) else None)"

abbreviation key_size :: nat where "key_size \<equiv> 204"

section \<open>Push\<close>

record transfer =
  xf_key :: bytes
  xf_append :: bool
  expected_bytes :: nat
  written_bytes :: nat
  high_water :: nat
  archive_path :: string
  xf_info :: string

record archive =
  ar_store :: store
  xfers :: "u8 \<rightharpoonup> transfer"
  ar_acks :: "bytes list"

definition push_ack :: "bytes \<Rightarrow> u8 \<Rightarrow> u8 \<Rightarrow> nat \<Rightarrow> string \<Rightarrow> bytes" where
  "push_ack key tid status tot err =
     key @ [tid, status, 0, 0] @ le_bytes 8 tot @ str_buf 64 (bytes_of err)"

definition send_push_ack :: "bytes \<Rightarrow> u8 \<Rightarrow> u8 \<Rightarrow> nat \<Rightarrow> string \<Rightarrow> archive \<Rightarrow> archive" where
  "send_push_ack key tid status tot err A = A\<lparr> ar_acks := ar_acks A @ [push_ack key tid status tot err] \<rparr>"

definition put_file :: "string \<Rightarrow> string \<Rightarrow> store \<Rightarrow> store" where
  "put_file p s st = st\<lparr> disk := (disk st)(p \<mapsto> s) \<rparr>"

definition file_text :: "string \<Rightarrow> store \<Rightarrow> string" where
  "file_text p st = (case disk st p of None \<Rightarrow> [] | Some s \<Rightarrow> s)"

text \<open>\<^verbatim>\<open>None\<close>: \<^verbatim>\<open>fopen\<close> succeeds, otherwise the text of the error.\<close>

definition push_meta :: "string option \<Rightarrow> string \<Rightarrow> bytes \<Rightarrow> archive \<Rightarrow> archive" where
  "push_meta open_error base p A =
     (if length p < size_of PktMissionFilePushMeta then A
      else let key = take key_size p; tid = at_member PktMissionFilePushMeta ''transfer_id'' p ! 0 in
      if \<not> key_valid key then send_push_ack key tid 3 0 ''invalid key'' A
      else case key_dir base key of
        None \<Rightarrow> send_push_ack key tid 3 0 ''bad path'' A
      | Some dir \<Rightarrow>
          let path = path_in dir (key_filename key);
              mode = at_member PktMissionFilePushMeta ''mode'' p ! 0;
              A = A\<lparr> ar_store := mkdir_p dir (ar_store A), xfers := (xfers A)(tid := None) \<rparr>
          in case open_error of
               Some e \<Rightarrow> send_push_ack key tid 1 0 e A
             | None \<Rightarrow>
                 let info = text_of 1024 (at_member PktMissionFilePushMeta ''info_data'' p);
                     st = put_file path (if mode = 1 then file_text path (ar_store A) else []) (ar_store A);
                     st = (if info = [] then st else put_file (sidecar_path path) info st)
                 in A\<lparr> ar_store := st, xfers := (xfers A)(tid \<mapsto>
                      \<lparr> xf_key = key, xf_append = (mode = 1),
                        expected_bytes = le_nat (take 8 (at_member PktMissionFilePushMeta ''total_bytes'' p)),
                        written_bytes = 0, high_water = 0, archive_path = path, xf_info = info \<rparr>) \<rparr>)"

text \<open>
  \<^verbatim>\<open>fseeko\<close> and \<^verbatim>\<open>fwrite\<close>: a gap is filled with zeros; a file opened for appending is
  written at its end whatever the position is.
\<close>

definition write_at :: "nat \<Rightarrow> string \<Rightarrow> string \<Rightarrow> string" where
  "write_at off d s =
     (if d = [] then s
      else take off (s @ replicate (off - length s) (char_of (0 :: nat))) @ d @ drop (off + length d) s)"

definition write_chunk :: "bool \<Rightarrow> nat \<Rightarrow> string \<Rightarrow> string \<Rightarrow> string" where
  "write_chunk app off d s = (if app then s @ d else write_at off d s)"

definition push_data_hdr :: nat where "push_data_hdr = size_of PktMissionFilePushData"

text \<open>
  One chunk; \<^verbatim>\<open>merge\<close> is what happens to the store when a history segment is complete.
\<close>

definition push_chunk :: "bool \<Rightarrow> (string \<Rightarrow> store \<Rightarrow> store) \<Rightarrow> u8 \<Rightarrow> bool \<Rightarrow> nat \<Rightarrow> string \<Rightarrow> archive \<Rightarrow> archive" where
  "push_chunk write_ok merge tid is_last off d A =
     (case xfers A tid of
        None \<Rightarrow> A
      | Some xf \<Rightarrow>
          if off \<ge> 2 ^ 63
          then (send_push_ack (xf_key xf) tid 1 (written_bytes xf) ''seek failed'' A)\<lparr> xfers := (xfers A)(tid := None) \<rparr>
          else if d \<noteq> [] \<and> \<not> write_ok
          then (send_push_ack (xf_key xf) tid 1 (written_bytes xf) ''short write'' A)\<lparr> xfers := (xfers A)(tid := None) \<rparr>
          else let path = archive_path xf;
                   st = (if d \<noteq> [] \<and> disk (ar_store A) path \<noteq> None
                         then put_file path (write_chunk (xf_append xf) off d (file_text path (ar_store A))) (ar_store A)
                         else ar_store A);
                   xf = (if d \<noteq> [] then xf\<lparr> written_bytes := written_bytes xf + length d,
                                            high_water := max (high_water xf) (off + length d) \<rparr> else xf);
                   A = A\<lparr> ar_store := st \<rparr>
               in if \<not> is_last then A\<lparr> xfers := (xfers A)(tid \<mapsto> xf) \<rparr>
                  else let A = (send_push_ack (xf_key xf) tid 0 (length (file_text path st)) [] A)\<lparr> xfers := (xfers A)(tid := None) \<rparr>
                       in if key_subdir (xf_key xf) = MFS_HIST then A\<lparr> ar_store := merge path (ar_store A) \<rparr> else A)"

definition push_data :: "bool \<Rightarrow> (string \<Rightarrow> store \<Rightarrow> store) \<Rightarrow> bytes \<Rightarrow> archive \<Rightarrow> archive" where
  "push_data write_ok merge p A =
     (if length p < push_data_hdr then A
      else let n = le_nat (take 4 (at_member PktMissionFilePushData ''chunk_bytes'' p));
               raw = drop push_data_hdr p
      in if n > length raw then A
         else push_chunk write_ok merge (p ! 0) (at_member PktMissionFilePushData ''is_last'' p ! 0 \<noteq> 0)
                (le_nat (take 8 (at_member PktMissionFilePushData ''offset'' p))) (chars_of (take n raw)) A)"

section \<open>Download\<close>

definition dl_body :: "bytes \<Rightarrow> nat \<Rightarrow> nat \<Rightarrow> bool \<Rightarrow> bool \<Rightarrow> bytes \<Rightarrow> string \<Rightarrow> bytes" where
  "dl_body key tot off is_first is_last info d =
     key @ le_bytes 8 tot @ le_bytes 8 off @ le_bytes 4 (length d) @ [of_bool is_first, of_bool is_last, 0, 0] @
     info @ replicate (1024 - length info) 0 @ bytes_of d"

definition DL_CHUNK :: nat where "DL_CHUNK = 256 * 1024"

text \<open>The loop from offset \<^verbatim>\<open>off\<close>; \<^verbatim>\<open>rest\<close> is what is left of the file.\<close>

function dl_chunks :: "bytes \<Rightarrow> nat \<Rightarrow> nat \<Rightarrow> bool \<Rightarrow> bytes \<Rightarrow> string \<Rightarrow> bytes list" where
  "dl_chunks key tot off first info rest =
     (if rest = [] then []
      else let d = take DL_CHUNK rest
           in dl_body key tot off first (off + length d \<ge> tot) (if first then info else []) d
              # dl_chunks key tot (off + length d) False info (drop DL_CHUNK rest))"
  by auto
termination by (relation "measure (\<lambda>(key, tot, off, first, info, rest). length rest)") (auto simp: DL_CHUNK_def)

declare dl_chunks.simps [simp del]

text \<open>The bodies of the \<^verbatim>\<open>MISSION_FILE_DL_DATA\<close> packets that answer a request.\<close>

definition mission_dl_req :: "string \<Rightarrow> bytes \<Rightarrow> files \<Rightarrow> bytes list" where
  "mission_dl_req base p fs =
     (if length p < size_of PktMissionFileDlReq then []
      else let key = take key_size p in
      case key_path base key of
        None \<Rightarrow> []
      | Some path \<Rightarrow>
          (case fs path of
             None \<Rightarrow> [dl_body key 0 0 True True [] []]
           | Some s \<Rightarrow>
               let tot = length s;
                   start = min tot (le_nat (take 8 (at_member PktMissionFileDlReq ''start_offset'' p)));
                   info = (if start = 0 then (case fs (sidecar_path path) of None \<Rightarrow> [] | Some i \<Rightarrow> take 1023 (bytes_of i)) else [])
               in if start \<ge> tot then [dl_body key tot start True True [] []]
                  else dl_chunks key tot start True info (drop start s)))"

section \<open>Delete, rename, annotate, wipe\<close>

definition mission_delete_file :: "string \<Rightarrow> bytes \<Rightarrow> store \<Rightarrow> store" where
  "mission_delete_file base p st =
     (if length p < size_of PktMissionFileDelete then st
      else case key_path base (take key_size p) of
             None \<Rightarrow> st
           | Some path \<Rightarrow> st\<lparr> disk := (disk st)(path := None, sidecar_path path := None) \<rparr>)"

definition rename_file :: "string \<Rightarrow> string \<Rightarrow> files \<Rightarrow> files" where
  "rename_file src dst fs = (case fs src of None \<Rightarrow> fs | Some s \<Rightarrow> fs(src := None, dst \<mapsto> s))"

definition mission_rename_file :: "string \<Rightarrow> bytes \<Rightarrow> store \<Rightarrow> store" where
  "mission_rename_file base p st =
     (if length p < size_of PktMissionFileRename then st
      else let key = take key_size p; newfn = text_of 128 (at_member PktMissionFileRename ''new_filename'' p) in
      if \<not> key_valid key \<or> \<not> path_component_safe 128 newfn then st
      else case key_dir base key of
             None \<Rightarrow> st
           | Some dir \<Rightarrow>
               let src = path_in dir (key_filename key); dst = path_in dir newfn
               in st\<lparr> disk := rename_file (sidecar_path src) (sidecar_path dst) (rename_file src dst (disk st)) \<rparr>)"

text \<open>The sidecar can only be written if the directory exists.\<close>

definition mission_set_note :: "(string \<Rightarrow> Meta \<Rightarrow> Meta) \<Rightarrow> string \<Rightarrow> bytes \<Rightarrow> store \<Rightarrow> store" where
  "mission_set_note nums base p st =
     (if length p < size_of PktMissionFileSetNote then st
      else let key = take key_size p in
      if \<not> key_valid key then st
      else case key_dir base key of
             None \<Rightarrow> st
           | Some dir \<Rightarrow>
               if dir \<in> dirs st
               then st\<lparr> disk := update_note nums (path_in dir (key_filename key))
                                  (text_of 256 (at_member PktMissionFileSetNote ''note'' p)) (disk st) \<rparr>
               else st)"

definition below :: "string \<Rightarrow> string \<Rightarrow> bool" where
  "below d p \<longleftrightarrow> prefix (d @ ''/'') p"

definition rm_rf :: "string \<Rightarrow> store \<Rightarrow> store" where
  "rm_rf d st =
     (if d \<in> dirs st then st\<lparr> disk := (\<lambda>p. if below d p then None else disk st p), dirs := dirs st - {q. q = d \<or> below d q} \<rparr>
      else st\<lparr> disk := (disk st)(d := None) \<rparr>)"

definition archive_wipe_mission :: "string \<Rightarrow> string \<Rightarrow> nat \<Rightarrow> string \<Rightarrow> store \<Rightarrow> store" where
  "archive_wipe_mission base station year code st =
     (case mission_dir base station year code of None \<Rightarrow> st | Some d \<Rightarrow> rm_rf d st)"

section \<open>The packets that change the archive\<close>

text \<open>
  Packets of the HOST and of the JOINs reach the same functions; an event carries the outcome of
  the system calls beside the payload.
\<close>

datatype archive_event =
    PushMeta "string option" bytes
  | PushData bool bytes
  | FileDelete bytes
  | FileRename bytes
  | FileNote bytes

fun event_packet :: "archive_event \<Rightarrow> u8 \<times> bytes" where
  "event_packet (PushMeta e p) = (0x4E, p)"
| "event_packet (PushData ok p) = (0x4F, p)"
| "event_packet (FileDelete p) = (0x54, p)"
| "event_packet (FileRename p) = (0x55, p)"
| "event_packet (FileNote p) = (0x57, p)"

fun archive_step :: "(string \<Rightarrow> Meta \<Rightarrow> Meta) \<Rightarrow> (string \<Rightarrow> store \<Rightarrow> store) \<Rightarrow> string \<Rightarrow> archive_event \<Rightarrow> archive \<Rightarrow> archive" where
  "archive_step nums merge base (PushMeta e p) A = push_meta e base p A"
| "archive_step nums merge base (PushData ok p) A = push_data ok merge p A"
| "archive_step nums merge base (FileDelete p) A = A\<lparr> ar_store := mission_delete_file base p (ar_store A) \<rparr>"
| "archive_step nums merge base (FileRename p) A = A\<lparr> ar_store := mission_rename_file base p (ar_store A) \<rparr>"
| "archive_step nums merge base (FileNote p) A = A\<lparr> ar_store := mission_set_note nums base p (ar_store A) \<rparr>"

definition archive_run :: "(string \<Rightarrow> Meta \<Rightarrow> Meta) \<Rightarrow> (string \<Rightarrow> store \<Rightarrow> store) \<Rightarrow> string \<Rightarrow> archive_event list \<Rightarrow> archive \<Rightarrow> archive" where
  "archive_run nums merge base es A = fold (archive_step nums merge base) es A"

end
