(* ===== verification/MissionPush.thy ===== *)
theory MissionPush
  imports MissionArchive
begin

text \<open>
  The senders of the mission archive: the upload worker of a HOST, \<^verbatim>\<open>src/mission_push.cpp\<close>, which
  removes a local file when the relay has acknowledged it, and the upload of a JOIN,
  \<^verbatim>\<open>start_upload\<close> of \<^verbatim>\<open>src/mission_view.cpp\<close> with the two send functions of
  \<^verbatim>\<open>src/net_client.cpp\<close>.  The worker thread and the thread that receives packets take turns at
  the steps below; each of them holds the lock of the map or the queue it changes.
\<close>

section \<open>Queue\<close>

record push_item =
  pi_path :: string
  pi_subdir :: u8
  pi_year :: int
  pi_code :: string
  pi_filename :: string
  pi_station :: string

text \<open>\<^verbatim>\<open>ack_map\<close>: \<^verbatim>\<open>Some None\<close> while an acknowledgement is awaited.\<close>

record pusher =
  local_files :: files
  pq :: "push_item list"
  ack_map :: "u8 \<rightharpoonup> bytes option"
  next_transfer_id :: u8

text \<open>\<^verbatim>\<open>atoi\<close>: spaces, a sign, digits; the rest of the text is ignored.\<close>

definition is_digit :: "char \<Rightarrow> bool" where
  "is_digit c \<longleftrightarrow> 48 \<le> (of_char c :: nat) \<and> (of_char c :: nat) \<le> 57"

definition digits_value :: "string \<Rightarrow> int" where
  "digits_value s = foldl (\<lambda>v c. 10 * v + (of_char c - 48)) 0 (takeWhile is_digit s)"

definition atoi :: "string \<Rightarrow> int" where
  "atoi s = (case dropWhile (\<lambda>c. c = CHR '' '' \<or> 9 \<le> (of_char c :: nat) \<and> (of_char c :: nat) \<le> 13) s of
               [] \<Rightarrow> 0
             | c # r \<Rightarrow> if c = CHR ''-'' then - digits_value r
                         else if c = CHR ''+'' then digits_value r else digits_value (c # r))"

definition push_subdir_name :: "u8 \<Rightarrow> string" where
  "push_subdir_name s = (if s = MFS_IQ then ''iq'' else if s = MFS_AUDIO then ''audio''
                         else if s = MFS_HIST then ''hist'' else [])"

text \<open>The text before the first slash and the text after it.\<close>

definition cut_slash :: "string \<Rightarrow> (string \<times> string) option" where
  "cut_slash s = (if CHR ''/'' \<in> set s
                  then Some (takeWhile (\<lambda>c. c \<noteq> CHR ''/'') s, tl (dropWhile (\<lambda>c. c \<noteq> CHR ''/'') s)) else None)"

definition parse_mission_path :: "string \<Rightarrow> string \<Rightarrow> u8 \<Rightarrow> (int \<times> string \<times> string \<times> string) option" where
  "parse_mission_path missions_root full subdir =
     (let root = missions_root @ ''/'' in
      if \<not> prefix root full then None
      else case cut_slash (drop (length root) full) of None \<Rightarrow> None | Some (station, r) \<Rightarrow>
        (case cut_slash r of None \<Rightarrow> None | Some (ys, r) \<Rightarrow>
        (case cut_slash r of None \<Rightarrow> None | Some (code, r) \<Rightarrow>
        (case cut_slash r of None \<Rightarrow> None | Some (subs, fn) \<Rightarrow>
           if station = [] \<or> ys = [] \<or> code = [] \<or> fn = [] then None
           else if c_text subs \<noteq> push_subdir_name subdir then None
           else let year = atoi (c_text ys)
                in if year < 1970 \<or> year > 3000 then None else Some (year, code, fn, station)))))"

definition push_enqueue :: "string \<Rightarrow> string \<Rightarrow> u8 \<Rightarrow> pusher \<Rightarrow> pusher" where
  "push_enqueue root path subdir P =
     (case parse_mission_path root path subdir of
        None \<Rightarrow> P
      | Some (year, code, fn, station) \<Rightarrow>
          if local_files P path = None then P
          else if \<exists>e\<in>set (pq P). pi_path e = path then P
          else P\<lparr> pq := pq P @ [\<lparr> pi_path = path, pi_subdir = subdir, pi_year = year, pi_code = code,
                                   pi_filename = fn, pi_station = station \<rparr>] \<rparr>)"

text \<open>
  The scan at start; the entries of the directory tree are given as station, year, code,
  subdirectory and name, in the order in which they are read.
\<close>

definition orphan_name :: "string \<Rightarrow> bool" where
  "orphan_name n \<longleftrightarrow> \<not> prefix ''.'' n \<and> \<not> suffix ''.info'' n \<and> \<not> suffix ''.sigmf-meta'' n \<and> \<not> strstr n ''-LIVE.''"

definition scan_orphans_enqueue :: "string \<Rightarrow> (string \<times> string \<times> string \<times> u8 \<times> string) list \<Rightarrow> pusher \<Rightarrow> pusher" where
  "scan_orphans_enqueue root entries P =
     foldl (\<lambda>P (st, y, c, sub, n).
              if \<not> prefix ''.'' st \<and> \<not> prefix ''.'' y \<and> \<not> prefix ''.'' c \<and> sub \<in> {MFS_IQ, MFS_AUDIO} \<and> orphan_name n
              then push_enqueue root (path_in (path_in (path_in (path_in (path_in root st) y) c) (push_subdir_name sub)) n) sub P
              else P) P entries"

section \<open>Packets of an upload\<close>

definition mission_key :: "string \<Rightarrow> nat \<Rightarrow> u8 \<Rightarrow> string \<Rightarrow> string \<Rightarrow> bytes" where
  "mission_key station year subdir code filename =
     str_buf 64 (bytes_of station) @ le_bytes 2 year @ [subdir, 0] @ str_buf 8 (bytes_of code) @
     str_buf 128 (bytes_of filename)"

definition push_meta_body :: "bytes \<Rightarrow> nat \<Rightarrow> u8 \<Rightarrow> u8 \<Rightarrow> string \<Rightarrow> bytes" where
  "push_meta_body key tot tid mode info =
     key @ le_bytes 8 tot @ [tid, mode, 0, 0] @ str_buf 1024 (bytes_of info)"

definition push_data_body :: "u8 \<Rightarrow> bool \<Rightarrow> nat \<Rightarrow> string \<Rightarrow> bytes" where
  "push_data_body tid is_last off d =
     [tid, of_bool is_last, 0, 0] @ le_bytes 8 off @ le_bytes 4 (length d) @ [0, 0, 0, 0] @ bytes_of d"

abbreviation push_chunk_size :: nat where "push_chunk_size \<equiv> 256 * 1024"

text \<open>
  The loop of \<^verbatim>\<open>push_one\<close>; \<^verbatim>\<open>rest\<close> is what can still be read from the file, \<^verbatim>\<open>alive\<close> the
  flag \<^verbatim>\<open>running\<close> before the chunk at an offset.  The result tells whether all chunks were read.
\<close>

function push_loop :: "(nat \<Rightarrow> bool) \<Rightarrow> u8 \<Rightarrow> nat \<Rightarrow> nat \<Rightarrow> bool \<Rightarrow> string \<Rightarrow> bytes list \<times> bool" where
  "push_loop alive tid tot off sent_any rest =
     (if \<not> (off < tot \<or> \<not> sent_any) then ([], True)
      else if \<not> alive off then ([], False)
      else let want = min push_chunk_size (tot - off) in
           if length rest < want then ([], False)
           else let body = push_data_body tid (off + want \<ge> tot) off (take want rest) in
                if want = 0 then ([body], True)
                else let (bs, ok) = push_loop alive tid tot (off + want) True (drop want rest)
                     in (body # bs, ok))"
  by auto
termination by (relation "measure (\<lambda>(alive, tid, tot, off, sent_any, rest). tot - off)") auto

declare push_loop.simps [simp del]

section \<open>The worker of a HOST\<close>

fun alloc_tid :: "nat \<Rightarrow> (u8 \<Rightarrow> bool) \<Rightarrow> u8 \<Rightarrow> u8 \<times> u8" where
  "alloc_tid 0 used n = (1, n)"
| "alloc_tid (Suc k) used n =
     (let (i, n) = (n, n + 1);
          (i, n) = (if i = 0 then (n, n + 1) else (i, n))
      in if used i then alloc_tid k used n else (i, n))"

definition alloc_transfer_id :: "pusher \<Rightarrow> u8 \<times> pusher" where
  "alloc_transfer_id P =
     (let (i, n) = alloc_tid 256 (\<lambda>i. ack_map P i \<noteq> None) (next_transfer_id P)
      in (i, P\<lparr> next_transfer_id := n \<rparr>))"

definition item_key :: "push_item \<Rightarrow> bytes" where
  "item_key it = mission_key (pi_station it) (nat (pi_year it mod 65536)) (pi_subdir it) (pi_code it) (pi_filename it)"

text \<open>
  \<^verbatim>\<open>push_one\<close> up to the point where it waits: the packets it sends, and the transfer id if it
  waits at all.
\<close>

definition push_begin :: "(nat \<Rightarrow> bool) \<Rightarrow> push_item \<Rightarrow> pusher \<Rightarrow> pusher \<times> (u8 \<times> bytes) list \<times> u8 option" where
  "push_begin alive it P =
     (case local_files P (pi_path it) of
        None \<Rightarrow> (P, [], None)
      | Some s \<Rightarrow>
          if pi_station it = [] then (P, [], None)
          else let (tid, P) = alloc_transfer_id P;
                   info = (case local_files P (sidecar_path (pi_path it)) of None \<Rightarrow> [] | Some i \<Rightarrow> c_text (take 1023 i));
                   (bs, ok) = push_loop alive tid (length s) 0 False s;
                   pkts = (0x4E, push_meta_body (item_key it) (length s) tid 0 info) # map (Pair 0x4F) bs
               in (P\<lparr> ack_map := (ack_map P)(tid := if ok then Some None else None) \<rparr>, pkts, if ok then Some tid else None))"

definition unlink_with_sidecar :: "string \<Rightarrow> files \<Rightarrow> files" where
  "unlink_with_sidecar p fs = fs(p := None, sidecar_path p := None)"

text \<open>The rest of \<^verbatim>\<open>push_one\<close>, when the wait is over: acknowledged, timed out or stopped.\<close>

definition push_finish :: "bool \<Rightarrow> push_item \<Rightarrow> u8 \<Rightarrow> pusher \<Rightarrow> pusher \<times> bool" where
  "push_finish running it tid P =
     (let ack_ok = (case ack_map P tid of Some (Some a) \<Rightarrow> a ! 205 = 0 | _ \<Rightarrow> False);
          P = P\<lparr> ack_map := (ack_map P)(tid := None) \<rparr>
      in if \<not> running \<or> \<not> ack_ok then (P, False)
         else (P\<lparr> local_files := unlink_with_sidecar (pi_path it) (local_files P) \<rparr>, True))"

definition worker_take :: "pusher \<Rightarrow> (push_item \<times> pusher) option" where
  "worker_take P = (case pq P of [] \<Rightarrow> None | it # r \<Rightarrow> Some (it, P\<lparr> pq := r \<rparr>))"

definition worker_done :: "bool \<Rightarrow> push_item \<Rightarrow> bool \<Rightarrow> pusher \<Rightarrow> pusher" where
  "worker_done running it ok P = (if \<not> ok \<and> running then P\<lparr> pq := pq P @ [it] \<rparr> else P)"

text \<open>The callback for an acknowledgement, \<^verbatim>\<open>a\<close> is the payload of the packet.\<close>

definition same_upload :: "bytes \<Rightarrow> push_item \<Rightarrow> bool" where
  "same_upload a it \<longleftrightarrow> pi_year it = int (key_year a) \<and> pi_code it = key_code a \<and> pi_filename it = key_filename a"

definition on_push_ack :: "bytes \<Rightarrow> pusher \<Rightarrow> pusher" where
  "on_push_ack a P =
     (if length a < size_of PktMissionFilePushAck then P
      else let tid = a ! 204 in
      if ack_map P tid \<noteq> None then P\<lparr> ack_map := (ack_map P)(tid \<mapsto> Some a) \<rparr>
      else if a ! 205 \<noteq> 0 then P
      else P\<lparr> local_files := fold (\<lambda>it. unlink_with_sidecar (pi_path it)) (filter (same_upload a) (pq P)) (local_files P),
              pq := filter (\<lambda>it. \<not> same_upload a it) (pq P) \<rparr>)"

section \<open>The upload of a JOIN\<close>

text \<open>The static counter and the id; ids below \<^verbatim>\<open>0x80\<close> are replaced, the counter is not.\<close>

definition alloc_upload_xfer_id :: "u8 \<Rightarrow> u8 \<times> u8" where
  "alloc_upload_xfer_id n = (if unat n < 0x80 then 0x80 else n, n + 1)"

definition send_mission_file_push_meta :: "bytes \<Rightarrow> nat \<Rightarrow> u8 \<Rightarrow> u8 \<Rightarrow> string \<Rightarrow> u8 \<times> bytes" where
  "send_mission_file_push_meta key tot tid mode info =
     (0x4E, let i = take 1023 (takeWhile (\<lambda>c. c \<noteq> 0) (bytes_of info))
            in key @ le_bytes 8 tot @ [tid, mode, 0, 0] @ i @ replicate (1024 - length i) 0)"

definition send_mission_file_push_data :: "u8 \<Rightarrow> nat \<Rightarrow> string \<Rightarrow> bool \<Rightarrow> (u8 \<times> bytes) list" where
  "send_mission_file_push_data tid off d is_last =
     (if length d > 4 * 1024 * 1024 then []
      else [(0x4F, [tid, of_bool is_last, 0, 0] @ le_bytes 8 off @ le_bytes 4 (length d) @ [0, 0, 0, 0] @ bytes_of d)])"

function upload_loop :: "u8 \<Rightarrow> nat \<Rightarrow> nat \<Rightarrow> string \<Rightarrow> (u8 \<times> bytes) list" where
  "upload_loop xid tot off rest =
     (if \<not> off < tot then []
      else let want = min push_chunk_size (tot - off) in
           if length rest < want then []
           else send_mission_file_push_data xid off (take want rest) (off + want \<ge> tot)
                @ upload_loop xid tot (off + want) (drop want rest))"
  by auto
termination by (relation "measure (\<lambda>(xid, tot, off, rest). tot - off)") auto

declare upload_loop.simps [simp del]

definition start_upload :: "string \<Rightarrow> nat \<Rightarrow> u8 \<Rightarrow> string \<Rightarrow> string \<Rightarrow> string \<Rightarrow> u8 \<Rightarrow> files \<Rightarrow> (u8 \<times> bytes) list option" where
  "start_upload station year subdir code full_path filename xid fs =
     (if year = 0 \<or> code = [] \<or> station = [] then None
      else case fs full_path of
        None \<Rightarrow> None
      | Some s \<Rightarrow>
          let info = (case fs (sidecar_path full_path) of None \<Rightarrow> [] | Some i \<Rightarrow> c_text (take 1023 i));
              k = mission_key station year subdir code filename
          in Some (send_mission_file_push_meta k (length s) xid 0 info
                   # (if s = [] then send_mission_file_push_data xid 0 [] True
                      else upload_loop xid (length s) 0 s)))"

end
