(* ===== verification/ArchiveFacts.thy ===== *)
theory ArchiveFacts
  imports MissionPush DbFacts
begin

text \<open>
  Facts about the mission archive.  An upload is delivered whatever other packets the relay
  handles in between, and the HOST removes its copy only when the archive has the whole file;
  this fails when two senders use one transfer id.  A download from any offset yields the rest of
  the file.  No request leaves the archive.
\<close>

section \<open>Fields of the packets\<close>

lemma path_component_safe_128: "path_component_safe 128 s = db_filename_safe s"
  by (simp add: path_component_safe_def db_filename_safe_def)

lemma safe_text: "path_component_safe n s \<Longrightarrow> CHR 0x00 \<notin> set s \<and> length s < n"
proof
  assume s: "path_component_safe n s"
  then show "length s < n" by (simp add: path_component_safe_def)
  show "CHR 0x00 \<notin> set s"
  proof
    assume "CHR 0x00 \<in> set s"
    then have "\<not> (of_char (CHR 0x00) :: nat) < 0x20" using s unfolding path_component_safe_def list_all_iff by blast
    then show False by simp
  qed
qed

lemma safe_text_of: "path_component_safe n s \<Longrightarrow> text_of n (str_buf n (bytes_of s) @ r) = s"
  using safe_text [of n s] by (blast intro: text_of_str_buf)

definition archive_key_ok :: "string \<Rightarrow> nat \<Rightarrow> u8 \<Rightarrow> string \<Rightarrow> string \<Rightarrow> bool" where
  "archive_key_ok station year subdir code fn \<longleftrightarrow> path_component_safe 64 station \<and> path_component_safe 8 code \<and>
     path_component_safe 128 fn \<and> 1970 \<le> year \<and> year \<le> 3000 \<and> subdir_name subdir \<noteq> None"

lemma length_mission_key [simp]: "length (mission_key st y sub c fn) = 204"
  by (simp add: mission_key_def)

lemma mission_key_fields:
  assumes "archive_key_ok st y sub c fn"
  shows "key_station (mission_key st y sub c fn) = st" "key_year (mission_key st y sub c fn) = y"
    "key_subdir (mission_key st y sub c fn) = sub" "key_code (mission_key st y sub c fn) = c"
    "key_filename (mission_key st y sub c fn) = fn"
proof -
  have o: "offset_of MissionFileKey ''year'' = Some 64" "offset_of MissionFileKey ''subdir'' = Some 66"
    "offset_of MissionFileKey ''code'' = Some 68" "offset_of MissionFileKey ''filename'' = Some 76"
    by (simp_all add: MissionFileKey_def)
  have s: "path_component_safe 64 st" "path_component_safe 8 c" "path_component_safe 128 fn" "y < 65536"
    using assms by (simp_all add: archive_key_ok_def)
  note defs = mission_key_def at_member_def o option.case
  show "key_station (mission_key st y sub c fn) = st"
    unfolding key_station_def mission_key_def by (rule safe_text_of) (rule s)
  show "key_year (mission_key st y sub c fn) = y" using s(4)
    by (simp add: key_year_def defs le_nat_le_bytes)
  show "key_subdir (mission_key st y sub c fn) = sub" by (simp add: key_subdir_def defs)
  show "key_code (mission_key st y sub c fn) = c"
    using safe_text_of [OF s(2)] by (simp add: key_code_def defs)
  show "key_filename (mission_key st y sub c fn) = fn"
    using safe_text_of [OF s(3), of "[]"] by (simp add: key_filename_def defs)
qed

text \<open>The place of a file in the archive.\<close>

definition archive_file :: "string \<Rightarrow> string \<Rightarrow> nat \<Rightarrow> u8 \<Rightarrow> string \<Rightarrow> string \<Rightarrow> string" where
  "archive_file base station year subdir code fn =
     path_in (path_in (path_in (path_in (path_in (path_in base ''missions'') station) (dec_str year)) code)
       (the (subdir_name subdir))) fn"

lemma mission_key_path:
  assumes "archive_key_ok st y sub c fn"
  shows "key_valid (mission_key st y sub c fn)"
    "\<exists>dir. key_dir base (mission_key st y sub c fn) = Some dir \<and> path_in dir fn = archive_file base st y sub c fn"
    "key_path base (mission_key st y sub c fn) = Some (archive_file base st y sub c fn)"
proof -
  note f = mission_key_fields [OF assms]
  show v: "key_valid (mission_key st y sub c fn)" using assms by (simp add: key_valid_def f archive_key_ok_def)
  obtain d where "subdir_name sub = Some d" using assms by (auto simp: archive_key_ok_def)
  then have "key_dir base (mission_key st y sub c fn) =
      Some (path_in (path_in (path_in (path_in (path_in base ''missions'') st) (dec_str y)) c) d)"
    using assms by (simp add: key_dir_def f archive_dir_def mission_dir_def archive_root_def archive_key_ok_def)
  then show "\<exists>dir. key_dir base (mission_key st y sub c fn) = Some dir \<and> path_in dir fn = archive_file base st y sub c fn"
    and "key_path base (mission_key st y sub c fn) = Some (archive_file base st y sub c fn)"
    using v by (simp_all add: key_path_def f archive_file_def \<open>subdir_name sub = Some d\<close>)
qed

lemma push_sizes: "size_of PktMissionFilePushMeta = 1240" "push_data_hdr = 20" "size_of PktMissionFilePushAck = 280"
  "size_of PktMissionFileDlReq = 212" "size_of PktMissionFileDelete = 204"
  "size_of PktMissionFileRename = 332" "size_of PktMissionFileSetNote = 460"
  by (simp_all add: push_data_hdr_def PktMissionFilePushMeta_def PktMissionFilePushData_def PktMissionFilePushAck_def
      PktMissionFileDlReq_def PktMissionFileDelete_def PktMissionFileRename_def PktMissionFileSetNote_def MissionFileKey_def)

lemma push_offsets: "offset_of PktMissionFilePushMeta ''total_bytes'' = Some 204"
  "offset_of PktMissionFilePushMeta ''transfer_id'' = Some 212" "offset_of PktMissionFilePushMeta ''mode'' = Some 213"
  "offset_of PktMissionFilePushMeta ''info_data'' = Some 216" "offset_of PktMissionFilePushData ''is_last'' = Some 1"
  "offset_of PktMissionFilePushData ''offset'' = Some 4" "offset_of PktMissionFilePushData ''chunk_bytes'' = Some 12"
  "offset_of PktMissionFileDlReq ''start_offset'' = Some 204" "offset_of PktMissionFileRename ''new_filename'' = Some 204"
  "offset_of PktMissionFileSetNote ''note'' = Some 204"
  by (simp_all add: PktMissionFilePushMeta_def PktMissionFilePushData_def PktMissionFileDlReq_def
      PktMissionFileRename_def PktMissionFileSetNote_def MissionFileKey_def)

lemma le_nat_8: "n < 2 ^ 64 \<Longrightarrow> le_nat (le_bytes 8 n) = n"
  by (simp add: le_nat_le_bytes)

lemma push_meta_fields:
  assumes "length key = 204" "tot < 2 ^ 64" and b_def: "b = push_meta_body key tot tid mode info"
  shows "length b = 1240" "take 204 b = key" "b ! 212 = tid" "b ! 213 = mode"
    "le_nat (take 8 (drop 204 b)) = tot" "text_of 1024 (drop 216 b) = text_of 1024 (str_buf 1024 (bytes_of info))"
  using assms(1) le_nat_8 [OF assms(2)] by (simp_all add: b_def push_meta_body_def nth_append)

lemma push_data_fields:
  assumes "length d < 2 ^ 32" "off < 2 ^ 64" and b_def: "b = push_data_body tid l off d"
  shows "length b = 20 + length d" "b ! 0 = tid" "b ! 1 = of_bool l" "le_nat (take 8 (drop 4 b)) = off"
    "le_nat (take 4 (drop 12 b)) = length d" "drop 20 b = bytes_of d"
  using le_nat_8 [OF assms(2)] le_nat_4 [OF assms(1)] by (simp_all add: b_def push_data_body_def)

lemma push_ack_fields:
  "length key = 204 \<Longrightarrow> push_ack key tid status tot err ! 204 = tid"
  "length key = 204 \<Longrightarrow> push_ack key tid status tot err ! 205 = status"
  "length key = 204 \<Longrightarrow> length (push_ack key tid status tot err) = 280"
  "length key = 204 \<Longrightarrow> take 204 (push_ack key tid status tot err) = key"
  by (simp_all add: push_ack_def nth_append)

section \<open>An upload among other packets\<close>

fun ours :: "u8 \<Rightarrow> archive_event \<Rightarrow> bool" where
  "ours t (PushMeta e p) = (size_of PktMissionFilePushMeta \<le> length p \<and> p ! 212 = t)"
| "ours t (PushData ok p) = (push_data_hdr \<le> length p \<and> p ! 0 = t)"
| "ours t _ = False"

definition avoids :: "string set \<Rightarrow> string \<Rightarrow> bool" where
  "avoids F q \<longleftrightarrow> q \<notin> F \<and> sidecar_path q \<notin> F"

definition key_avoids :: "string set \<Rightarrow> string \<Rightarrow> bytes \<Rightarrow> bool" where
  "key_avoids F base k \<longleftrightarrow> (\<forall>q. key_path base k = Some q \<longrightarrow> avoids F q)"

text \<open>The event does not name a file of \<^verbatim>\<open>F\<close>.\<close>

fun spares :: "string set \<Rightarrow> string \<Rightarrow> archive_event \<Rightarrow> bool" where
  "spares F base (PushMeta e p) = key_avoids F base (take key_size p)"
| "spares F base (PushData ok p) = True"
| "spares F base (FileDelete p) = key_avoids F base (take key_size p)"
| "spares F base (FileRename p) = (key_avoids F base (take key_size p) \<and>
     (\<forall>d. key_dir base (take key_size p) = Some d \<longrightarrow>
        avoids F (path_in d (text_of 128 (at_member PktMissionFileRename ''new_filename'' p)))))"
| "spares F base (FileNote p) = key_avoids F base (take key_size p)"

text \<open>No other open transfer writes to a file of \<^verbatim>\<open>F\<close>, and keys have their size.\<close>

definition undisturbed :: "u8 \<Rightarrow> string set \<Rightarrow> archive \<Rightarrow> bool" where
  "undisturbed t F A \<longleftrightarrow> (\<forall>u xf. xfers A u = Some xf \<longrightarrow> length (xf_key xf) = 204 \<and> (u \<noteq> t \<longrightarrow> archive_path xf \<notin> F))"

definition acks_of :: "u8 \<Rightarrow> archive \<Rightarrow> bytes list" where
  "acks_of t A = filter (\<lambda>a. a ! 204 = t) (ar_acks A)"

definition merge_spares :: "string set \<Rightarrow> (string \<Rightarrow> store \<Rightarrow> store) \<Rightarrow> bool" where
  "merge_spares F merge \<longleftrightarrow> (\<forall>q st p. p \<in> F \<longrightarrow> disk (merge q st) p = disk st p)"

text \<open>What the sender with transfer id \<^verbatim>\<open>t\<close> can see of the archive.\<close>

definition same_view :: "u8 \<Rightarrow> string set \<Rightarrow> archive \<Rightarrow> archive \<Rightarrow> bool" where
  "same_view t F A B \<longleftrightarrow> xfers B t = xfers A t \<and> (\<forall>p\<in>F. disk (ar_store B) p = disk (ar_store A) p) \<and> acks_of t B = acks_of t A"

lemma key_pathI: "key_valid k \<Longrightarrow> key_dir base k = Some d \<Longrightarrow> key_path base k = Some (path_in d (key_filename k))"
  by (simp add: key_path_def)

lemma acks_of_send:
  "length key = 204 \<Longrightarrow> acks_of t (send_push_ack key tid status n err A) =
     acks_of t A @ (if tid = t then [push_ack key tid status n err] else [])"
  by (simp add: acks_of_def send_push_ack_def push_ack_fields)

lemma send_push_ack_simps [simp]:
  "xfers (send_push_ack key tid status n err A) = xfers A"
  "ar_store (send_push_ack key tid status n err A) = ar_store A"
  by (simp_all add: send_push_ack_def)

lemma acks_of_update [simp]: "acks_of t (A\<lparr> xfers := x \<rparr>) = acks_of t A" "acks_of t (A\<lparr> ar_store := st \<rparr>) = acks_of t A"
  by (simp_all add: acks_of_def)

lemma disk_mkdir_p [simp]: "disk (mkdir_p d st) = disk st"
  by (simp add: mkdir_p_def)

lemma other_meta:
  assumes "\<not> ours t (PushMeta e p)" "key_avoids F base (take key_size p)" "undisturbed t F A"
  shows "same_view t F A (push_meta e base p A) \<and> undisturbed t F (push_meta e base p A)"
proof (cases "size_of PktMissionFilePushMeta \<le> length p")
  case True
  then have t: "p ! 212 \<noteq> t" and l: "length (take key_size p) = 204" using assms(1) by (simp_all add: push_sizes)
  have tid: "at_member PktMissionFilePushMeta ''transfer_id'' p ! 0 = p ! 212"
    using True by (simp add: at_member_def push_offsets push_sizes)
  let ?k = "take key_size p"
  show ?thesis
  proof (cases "key_valid ?k \<and> key_dir base ?k \<noteq> None")
    case False
    then show ?thesis using True t l assms(3)
      by (auto simp: push_meta_def Let_def tid acks_of_send same_view_def undisturbed_def)
  next
    case v: True
    then obtain d where d: "key_dir base ?k = Some d" by blast
    have q: "avoids F (path_in d (key_filename ?k))"
      using assms(2) key_pathI [OF _ d] v unfolding key_avoids_def by blast
    then show ?thesis using True t l assms(3) v d
      by (cases e) (auto simp: push_meta_def Let_def tid acks_of_send same_view_def undisturbed_def avoids_def put_file_def)
  qed
next
  case False
  then show ?thesis using assms by (simp add: push_meta_def same_view_def)
qed

lemma other_chunk:
  assumes "u \<noteq> t" "undisturbed t F A" "merge_spares F merge"
  shows "same_view t F A (push_chunk ok merge u l off d A) \<and> undisturbed t F (push_chunk ok merge u l off d A)"
proof (cases "xfers A u")
  case (Some xf)
  then have k: "length (xf_key xf) = 204" "archive_path xf \<notin> F" using assms(1,2) unfolding undisturbed_def by blast+
  have m: "\<And>q st p. p \<in> F \<Longrightarrow> disk (merge q st) p = disk st p" using assms(3) unfolding merge_spares_def by blast
  show ?thesis unfolding push_chunk_def Let_def using assms(1,2) Some k
    by (auto simp: acks_of_send same_view_def undisturbed_def put_file_def m)
qed (use assms in \<open>simp add: push_chunk_def same_view_def\<close>)

lemma other_data:
  assumes "\<not> ours t (PushData ok p)" "undisturbed t F A" "merge_spares F merge"
  shows "same_view t F A (push_data ok merge p A) \<and> undisturbed t F (push_data ok merge p A)"
proof (cases "push_data_hdr \<le> length p")
  case True
  then have t: "p ! 0 \<noteq> t" using assms(1) by simp
  show ?thesis unfolding push_data_def Let_def
    using True assms(2) other_chunk [OF t assms(2,3)] by (simp add: same_view_def)
next
  case False
  then show ?thesis using assms by (simp add: push_data_def same_view_def)
qed

lemma other_files:
  assumes "undisturbed t F A" "\<forall>p\<in>F. disk st p = disk (ar_store A) p"
  shows "same_view t F A (A\<lparr> ar_store := st \<rparr>) \<and> undisturbed t F (A\<lparr> ar_store := st \<rparr>)"
  using assms by (simp add: same_view_def undisturbed_def)

lemma disk_update_note:
  assumes "p \<notin> {q, sidecar_path q}"
  shows "update_note nums q note fs p = fs p"
  using assms
  by (cases "is_sigmf_data q"; cases "fs (meta_path q)")
     (simp_all add: update_note_def sidecar_path_def Let_def)

lemma disk_rename_file: "p \<noteq> a \<Longrightarrow> p \<noteq> b \<Longrightarrow> rename_file a b fs p = fs p"
  by (simp add: rename_file_def split: option.split)

lemma other_event:
  assumes o: "\<not> ours t e" and s: "spares F base e" and u: "undisturbed t F A" and m: "merge_spares F merge"
  shows "same_view t F A (archive_step nums merge base e A) \<and> undisturbed t F (archive_step nums merge base e A)"
proof (cases e)
  case (PushMeta er p)
  then show ?thesis using other_meta [of t er p F base A] o s u by simp
next
  case (PushData ok p)
  then show ?thesis using other_data [of t ok p F A merge] o u m by simp
next
  case (FileDelete p)
  have "key_avoids F base (take key_size p)" using s FileDelete by simp
  then have "\<forall>q\<in>F. disk (mission_delete_file base p (ar_store A)) q = disk (ar_store A) q"
    by (auto simp: mission_delete_file_def Let_def key_avoids_def avoids_def split: option.split)
  then show ?thesis using other_files [OF u] FileDelete by simp
next
  case (FileRename p)
  let ?k = "take key_size p" and ?new = "text_of 128 (at_member PktMissionFileRename ''new_filename'' p)"
  have s: "key_avoids F base ?k" "\<And>d. key_dir base ?k = Some d \<Longrightarrow> avoids F (path_in d ?new)"
    using s FileRename by simp_all
  have "disk (mission_rename_file base p (ar_store A)) q = disk (ar_store A) q" if q: "q \<in> F" for q
  proof (cases "size_of PktMissionFileRename \<le> length p \<and> key_valid ?k \<and> path_component_safe 128 ?new \<and> key_dir base ?k \<noteq> None")
    case True
    then obtain d where d: "key_dir base ?k = Some d" by blast
    have a: "avoids F (path_in d (key_filename ?k))"
      using s(1) key_pathI [OF _ d] True unfolding key_avoids_def by blast
    let ?a = "path_in d (key_filename ?k)" and ?b = "path_in d ?new"
    have "q \<noteq> ?a" "q \<noteq> sidecar_path ?a" "q \<noteq> ?b" "q \<noteq> sidecar_path ?b"
      using a s(2) [OF d] q by (auto simp: avoids_def)
    then show ?thesis using True d by (simp add: mission_rename_file_def Let_def disk_rename_file)
  qed (auto simp: mission_rename_file_def Let_def)
  then show ?thesis using other_files [OF u] FileRename by simp
next
  case (FileNote p)
  let ?k = "take key_size p"
  have s: "key_avoids F base ?k" using s FileNote by simp
  have "disk (mission_set_note nums base p (ar_store A)) q = disk (ar_store A) q" if q: "q \<in> F" for q
  proof (cases "size_of PktMissionFileSetNote \<le> length p \<and> key_valid ?k \<and> key_dir base ?k \<noteq> None")
    case True
    then obtain d where d: "key_dir base ?k = Some d" by blast
    have a: "avoids F (path_in d (key_filename ?k))"
      using s key_pathI [OF _ d] True unfolding key_avoids_def by blast
    then have "q \<notin> {path_in d (key_filename ?k), sidecar_path (path_in d (key_filename ?k))}"
      using q by (auto simp: avoids_def)
    then show ?thesis using True d by (simp add: mission_set_note_def Let_def disk_update_note)
  qed (auto simp: mission_set_note_def Let_def)
  then show ?thesis using other_files [OF u] FileNote by simp
qed

text \<open>One chunk of the transfer itself.\<close>

fun call_ok :: "archive_event \<Rightarrow> bool" where
  "call_ok (PushMeta e p) = (e = None)"
| "call_ok (PushData ok p) = ok"
| "call_ok _ = True"

definition receiving :: "u8 \<Rightarrow> string \<Rightarrow> bytes \<Rightarrow> string \<Rightarrow> archive \<Rightarrow> bool" where
  "receiving t path key recvd A \<longleftrightarrow>
     (\<exists>xf. xfers A t = Some xf \<and> archive_path xf = path \<and> \<not> xf_append xf \<and> xf_key xf = key) \<and>
     disk (ar_store A) path = Some recvd"

lemma write_at_end: "write_at (length s) d s = s @ d"
  by (cases "d = []") (simp_all add: write_at_def)

lemma own_chunk_any:
  assumes r: "receiving t path key recvd A" and k: "length key = 204" "key_subdir key \<noteq> MFS_HIST \<or> (\<forall>st. merge path st = st)"
    and n: "length d < 2 ^ 32" "off < 2 ^ 63"
    and u: "undisturbed t F A" and b: "b = push_data_body t l off d"
  shows "undisturbed t F (push_data ok merge b A)"
    "q \<noteq> path \<Longrightarrow> disk (ar_store (push_data ok merge b A)) q = disk (ar_store A) q"
    "if ok \<or> d = [] then
       (if l then xfers (push_data ok merge b A) t = None \<and> disk (ar_store (push_data ok merge b A)) path = Some (write_at off d recvd) \<and>
                  acks_of t (push_data ok merge b A) = acks_of t A @ [push_ack key t 0 (length (write_at off d recvd)) []]
        else receiving t path key (write_at off d recvd) (push_data ok merge b A) \<and> acks_of t (push_data ok merge b A) = acks_of t A)
     else xfers (push_data ok merge b A) t = None \<and>
       (\<exists>w. acks_of t (push_data ok merge b A) = acks_of t A @ [push_ack key t 1 w ''short write''])"
proof -
  have n64: "off < 2 ^ 64" using n(2) by simp
  note f = push_data_fields [OF n(1) n64 b]
  obtain xf where x: "xfers A t = Some xf" "archive_path xf = path" "\<not> xf_append xf" "xf_key xf = key"
    and dk: "disk (ar_store A) path = Some recvd" using r unfolding receiving_def by blast
  have m: "at_member PktMissionFilePushData ''is_last'' b ! 0 = of_bool l"
    "le_nat (take 8 (at_member PktMissionFilePushData ''offset'' b)) = off"
    "le_nat (take 4 (at_member PktMissionFilePushData ''chunk_bytes'' b)) = length d"
    using f by (simp_all add: at_member_def push_offsets)
  have b0: "b ! 0 = t" using f(2) .
  have hd: "chars_of (take (length d) (drop 20 b)) = d" using f(6) by simp
  have ft: "file_text path (ar_store A) = recvd" by (simp add: file_text_def dk)
  have off: "\<not> 2 ^ 63 \<le> off" using n(2) by simp
  let ?B = "push_data ok merge b A"
  have B: "?B = push_chunk ok merge t l off d A"
    using f(1) unfolding push_data_def Let_def push_sizes m b0 hd by simp
  have e: "?B = (if d \<noteq> [] \<and> \<not> ok
      then (send_push_ack key t 1 (written_bytes xf) ''short write'' A)\<lparr> xfers := (xfers A)(t := None) \<rparr>
      else let st = (if d = [] then ar_store A else put_file path (write_at off d recvd) (ar_store A));
               xf = (if d = [] then xf else xf\<lparr> written_bytes := written_bytes xf + length d,
                                         high_water := max (high_water xf) (off + length d) \<rparr>);
               A = A\<lparr> ar_store := st \<rparr>
           in if \<not> l then A\<lparr> xfers := (xfers A)(t \<mapsto> xf) \<rparr>
              else (send_push_ack key t 0 (length (file_text path st)) [] A)\<lparr> xfers := (xfers A)(t := None) \<rparr>)"
    using k off unfolding B push_chunk_def Let_def by (simp add: x dk ft write_chunk_def)
  show "undisturbed t F ?B" unfolding e Let_def using u k(1) x(1,4)
    by (auto simp: undisturbed_def split: if_splits)
  show "disk (ar_store ?B) q = disk (ar_store A) q" if "q \<noteq> path"
    unfolding e Let_def using that by (simp add: put_file_def)
  have z: "write_at off [] recvd = recvd" by (simp add: write_at_def)
  show "if ok \<or> d = [] then
       (if l then xfers ?B t = None \<and> disk (ar_store ?B) path = Some (write_at off d recvd) \<and>
                  acks_of t ?B = acks_of t A @ [push_ack key t 0 (length (write_at off d recvd)) []]
        else receiving t path key (write_at off d recvd) ?B \<and> acks_of t ?B = acks_of t A)
     else xfers ?B t = None \<and> (\<exists>w. acks_of t ?B = acks_of t A @ [push_ack key t 1 w ''short write''])"
    unfolding e Let_def using x dk k(1)
    by (auto simp: acks_of_send put_file_def file_text_def receiving_def z)
qed

lemma own_chunk_at:
  assumes r: "receiving t path key recvd A" and k: "length key = 204" "key_subdir key \<noteq> MFS_HIST"
    and n: "length d < 2 ^ 32" "off < 2 ^ 63"
    and u: "undisturbed t F A" and b: "b = push_data_body t l off d"
  shows "undisturbed t F (push_data ok merge b A)"
    "q \<noteq> path \<Longrightarrow> disk (ar_store (push_data ok merge b A)) q = disk (ar_store A) q"
    "if ok \<or> d = [] then
       (if l then xfers (push_data ok merge b A) t = None \<and> disk (ar_store (push_data ok merge b A)) path = Some (write_at off d recvd) \<and>
                  acks_of t (push_data ok merge b A) = acks_of t A @ [push_ack key t 0 (length (write_at off d recvd)) []]
        else receiving t path key (write_at off d recvd) (push_data ok merge b A) \<and> acks_of t (push_data ok merge b A) = acks_of t A)
     else xfers (push_data ok merge b A) t = None \<and>
       (\<exists>w. acks_of t (push_data ok merge b A) = acks_of t A @ [push_ack key t 1 w ''short write''])"
  using own_chunk_any [OF r k(1) disjI1 [OF k(2)] n u b] by blast+

lemma own_chunk:
  assumes r: "receiving t path key recvd A" and k: "length key = 204" "key_subdir key \<noteq> MFS_HIST"
    and n: "length d < 2 ^ 32" "length recvd < 2 ^ 63"
    and u: "undisturbed t F A" and b: "b = push_data_body t l (length recvd) d"
  shows "undisturbed t F (push_data ok merge b A)"
    "if ok \<or> d = [] then
       (if l then xfers (push_data ok merge b A) t = None \<and> disk (ar_store (push_data ok merge b A)) path = Some (recvd @ d) \<and>
                  acks_of t (push_data ok merge b A) = acks_of t A @ [push_ack key t 0 (length recvd + length d) []]
        else receiving t path key (recvd @ d) (push_data ok merge b A) \<and> acks_of t (push_data ok merge b A) = acks_of t A)
     else xfers (push_data ok merge b A) t = None \<and>
       (\<exists>w. acks_of t (push_data ok merge b A) = acks_of t A @ [push_ack key t 1 w ''short write''])"
  using own_chunk_at(1,3) [OF assms, where ok = ok and merge = merge]
  unfolding write_at_end length_append by blast+

lemma chunk_when_closed:
  assumes "xfers A t = None" "b ! 0 = t"
  shows "push_data ok merge b A = A"
  using assms by (simp add: push_data_def push_chunk_def Let_def)

text \<open>The remaining events of a run, once the transfer is closed and while it is open.\<close>

lemma archive_run_simps [simp]:
  "archive_run nums merge base [] A = A"
  "archive_run nums merge base (e # es) A = archive_run nums merge base es (archive_step nums merge base e A)"
  by (simp_all add: archive_run_def)

lemma closed_run:
  assumes "xfers A t = None" "undisturbed t F A" "merge_spares F merge"
    and "\<forall>e\<in>set es. if ours t e then fst (event_packet e) = 0x4F else spares F base e"
  shows "(\<forall>p\<in>F. disk (ar_store (archive_run nums merge base es A)) p = disk (ar_store A) p) \<and>
    acks_of t (archive_run nums merge base es A) = acks_of t A"
  using assms
proof (induction es arbitrary: A)
  case (Cons e es)
  let ?B = "archive_step nums merge base e A"
  have c: "xfers ?B t = None \<and> undisturbed t F ?B \<and> same_view t F A ?B"
  proof (cases "ours t e")
    case True
    then obtain ok b where e: "e = PushData ok b" "b ! 0 = t" using Cons.prems(4) by (cases e) auto
    then show ?thesis using Cons.prems(1,2) by (simp add: chunk_when_closed same_view_def)
  next
    case False
    then have "same_view t F A ?B \<and> undisturbed t F ?B"
      using other_event [OF False, of F base A merge nums] Cons.prems(2,3,4) by simp
    then show ?thesis using Cons.prems(1) by (simp add: same_view_def)
  qed
  then have "(\<forall>p\<in>F. disk (ar_store (archive_run nums merge base es ?B)) p = disk (ar_store ?B) p) \<and>
    acks_of t (archive_run nums merge base es ?B) = acks_of t ?B"
    using Cons.prems(3,4) by (intro Cons.IH) auto
  then show ?case using c by (simp add: same_view_def)
qed simp

lemma push_loop_step:
  assumes "off < tot \<or> \<not> sent" and w: "want = min push_chunk_size (tot - off)"
  shows "push_loop alive t tot off sent rest =
    (if \<not> alive off \<or> length rest < want then ([], False)
     else if want = 0 then ([push_data_body t (tot \<le> off + want) off (take want rest)], True)
     else (push_data_body t (tot \<le> off + want) off (take want rest) #
             fst (push_loop alive t tot (off + want) True (drop want rest)),
           snd (push_loop alive t tot (off + want) True (drop want rest))))"
  using assms(1) unfolding push_loop.simps [of alive t tot off] w [symmetric] Let_def
  by (simp add: case_prod_beta)

lemma push_loop_end: "tot \<le> off \<Longrightarrow> push_loop alive t tot off True rest = ([], True)"
  by (subst push_loop.simps) simp

lemma push_loop_all:
  assumes "push_loop alive t tot off sent rest = (bs, True)" "off < tot \<or> \<not> sent" "off \<le> tot"
    and w: "want = min push_chunk_size (tot - off)"
  obtains bs' where "bs = push_data_body t (tot \<le> off + want) off (take want rest) # bs'" "want \<le> length rest"
    "tot \<le> off + want \<longrightarrow> bs' = []" "off + want < tot \<longrightarrow> push_loop alive t tot (off + want) True (drop want rest) = (bs', True)"
proof (cases "want = 0")
  case True
  then have "tot = off" using assms(3) by (simp add: w min_def split: if_splits)
  then show ?thesis using assms(1) True unfolding push_loop_step [OF assms(2) w]
    by (intro that [of "[]"]) (auto split: if_splits)
next
  case False
  then show ?thesis using assms(1) push_loop_end [of tot "off + want" alive t "drop want rest"]
    unfolding push_loop_step [OF assms(2) w]
    by (intro that [of "fst (push_loop alive t tot (off + want) True (drop want rest))"])
       (auto split: if_splits simp: prod_eq_iff)
qed

lemma open_run:
  assumes "receiving t path key (take off s) A" "undisturbed t F A" "merge_spares F merge" "path \<in> F"
    and k: "length key = 204" "key_subdir key \<noteq> MFS_HIST" and s: "length s < 2 ^ 63"
    and "push_loop alive t (length s) off sent (drop off s) = (bs, True)" "off < length s \<or> \<not> sent" "off \<le> length s"
    and "map event_packet (filter (ours t) es) = map (Pair 0x4F) bs"
    and "\<forall>e\<in>set es. \<not> ours t e \<longrightarrow> spares F base e"
  shows "\<exists>a. acks_of t (archive_run nums merge base es A) = acks_of t A @ [a] \<and> length a = 280 \<and> a ! 204 = t \<and>
    (a ! 205 = 0 \<longrightarrow> disk (ar_store (archive_run nums merge base es A)) path = Some s) \<and>
    (list_all call_ok (filter (ours t) es) \<longrightarrow> a ! 205 = 0)"
  using assms(1,2,8-)
proof (induction es arbitrary: A off sent bs)
  case Nil
  then show ?case by (auto elim: push_loop_all [OF _ _ _ refl])
next
  case (Cons e es)
  let ?B = "archive_step nums merge base e A"
  show ?case
  proof (cases "ours t e")
    case False
    have v: "same_view t F A ?B \<and> undisturbed t F ?B"
      using other_event [OF False, of F base A merge nums] Cons.prems(2,7) assms(3) False by simp
    then have "receiving t path key (take off s) ?B"
      using Cons.prems(1) assms(4) by (auto simp: receiving_def same_view_def)
    then show ?thesis
      using Cons.IH [where A = ?B and off = off and sent = sent and bs = bs] v Cons.prems(3-7) False
      by (simp add: same_view_def)
  next
    case True
    define want where "want = min push_chunk_size (length s - off)"
    obtain bs' where bs: "bs = push_data_body t (length s \<le> off + want) off (take want (drop off s)) # bs'"
      and w: "want \<le> length (drop off s)"
      and fin: "length s \<le> off + want \<longrightarrow> bs' = []"
      and more: "off + want < length s \<longrightarrow> push_loop alive t (length s) (off + want) True (drop want (drop off s)) = (bs', True)"
      using push_loop_all [OF Cons.prems(3-5) want_def] by blast
    obtain ok where e: "e = PushData ok (push_data_body t (length s \<le> off + want) off (take want (drop off s)))"
      using Cons.prems(6) True bs by (cases e) auto
    let ?d = "take want (drop off s)" and ?l = "length s \<le> off + want"
    have lo: "length (take off s) = off" using Cons.prems(5) by simp
    have nd: "length ?d < 2 ^ 32" using w by (simp add: want_def)
    have td: "take off s @ ?d = take (off + want) s" by (simp add: take_add)
    note oc = own_chunk [OF Cons.prems(1) k nd _ Cons.prems(2), unfolded lo td, OF _ refl, where l = ?l and ok = ok and merge = merge]
    have off: "off < 2 ^ 63" using Cons.prems(5) s by simp
    have B: "?B = push_data ok merge (push_data_body t ?l off ?d) A" by (simp add: e)
    have uB: "undisturbed t F ?B" unfolding B by (rule oc(1)) (rule off)
    have rest: "map event_packet (filter (ours t) es) = map (Pair 0x4F) bs'"
      using Cons.prems(6) True bs by simp
    have c4F: "\<forall>e\<in>set es. if ours t e then fst (event_packet e) = 0x4F else spares F base e"
    proof
      fix x
      assume x: "x \<in> set es"
      show "if ours t x then fst (event_packet x) = 0x4F else spares F base x"
      proof (cases "ours t x")
        case True
        then have "event_packet x \<in> set (map event_packet (filter (ours t) es))" using x by simp
        then show ?thesis using True unfolding rest by auto
      qed (use Cons.prems(7) x in simp)
    qed
    show ?thesis
    proof (cases "ok \<or> ?d = []")
      case False
      then obtain w where c: "xfers ?B t = None" "acks_of t ?B = acks_of t A @ [push_ack key t 1 w ''short write'']"
        using oc(2) [OF off] unfolding B by auto
      have "\<not> call_ok e" using False by (simp add: e)
      then show ?thesis
        using closed_run [OF c(1) uB assms(3) c4F, of nums] c(2) True k(1)
        by (auto simp: push_ack_fields)
    next
      case g: True
      show ?thesis
      proof (cases ?l)
        case True
        have "take (off + want) s = s" using True by simp
        then have c: "xfers ?B t = None" "disk (ar_store ?B) path = Some s"
          "acks_of t ?B = acks_of t A @ [push_ack key t 0 (off + length ?d) []]"
          using oc(2) [OF off] g True unfolding B by simp_all
        then show ?thesis
          using closed_run [OF c(1) uB assms(3) c4F, of nums] assms(4) k(1) by (auto simp: push_ack_fields)
      next
        case False
        then have c: "receiving t path key (take (off + want) s) ?B" "acks_of t ?B = acks_of t A"
          using oc(2) [OF off] g unfolding B by simp_all
        have m: "push_loop alive t (length s) (off + want) True (drop (off + want) s) = (bs', True)"
          using more False by (simp add: add.commute)
        have ih: "\<exists>a. acks_of t (archive_run nums merge base es ?B) = acks_of t ?B @ [a] \<and> length a = 280 \<and> a ! 204 = t \<and>
            (a ! 205 = 0 \<longrightarrow> disk (ar_store (archive_run nums merge base es ?B)) path = Some s) \<and>
            (list_all call_ok (filter (ours t) es) \<longrightarrow> a ! 205 = 0)"
          by (rule Cons.IH [OF c(1) uB m _ _ rest]) (use False Cons.prems(7) in auto)
        then show ?thesis using c(2) True by auto
      qed
    qed
  qed
qed

lemma own_meta:
  assumes k: "archive_key_ok st y sub c fn" and key: "key = mission_key st y sub c fn" and n: "tot < 2 ^ 64"
    and u: "undisturbed t F A" and b: "b = push_meta_body key tot t 0 info"
    and path_def: "path = archive_file base st y sub c fn"
  shows "undisturbed t F (push_meta e base b A)"
    "e = None \<Longrightarrow> receiving t path key [] (push_meta e base b A) \<and> acks_of t (push_meta e base b A) = acks_of t A"
    "e = Some err \<Longrightarrow> xfers (push_meta e base b A) t = None \<and>
       acks_of t (push_meta e base b A) = acks_of t A @ [push_ack key t 1 0 err]"
proof -
  have l: "length key = 204" by (simp add: key)
  note f = push_meta_fields [OF l n b]
  have m: "at_member PktMissionFilePushMeta ''transfer_id'' b ! 0 = t" "at_member PktMissionFilePushMeta ''mode'' b ! 0 = 0"
    using f by (simp_all add: at_member_def push_offsets)
  obtain d where d: "key_dir base key = Some d" "path_in d fn = path"
    using mission_key_path(2) [OF k, of base] unfolding key path_def by blast
  have v: "key_valid key" "key_filename key = fn" "take key_size b = key"
    using mission_key_path(1) [OF k] mission_key_fields(5) [OF k] f(2) by (simp_all add: key)
  have big: "\<not> length b < size_of PktMissionFilePushMeta" using f(1) by (simp add: push_sizes)
  note e = push_meta_def Let_def m v d option.case push_sizes
  show "undisturbed t F (push_meta e base b A)" using big u l
    by (cases e) (auto simp: e undisturbed_def)
  show "receiving t path key [] (push_meta e base b A) \<and> acks_of t (push_meta e base b A) = acks_of t A" if "e = None"
    using big that sidecar_ne [of path] by (auto simp: e put_file_def receiving_def)
  show "xfers (push_meta e base b A) t = None \<and>
       acks_of t (push_meta e base b A) = acks_of t A @ [push_ack key t 1 0 err]" if "e = Some err"
    using big that l by (simp add: e acks_of_send)
qed

lemma filter_Cons_split:
  "filter P es = x # xs \<Longrightarrow> \<exists>as bs. es = as @ x # bs \<and> (\<forall>a\<in>set as. \<not> P a) \<and> P x \<and> filter P bs = xs"
  by (simp add: filter_eq_Cons_iff) blast

lemma others_run:
  assumes "\<forall>e\<in>set es. \<not> ours t e \<and> spares F base e" "undisturbed t F A" "merge_spares F merge"
  shows "same_view t F A (archive_run nums merge base es A) \<and> undisturbed t F (archive_run nums merge base es A)"
  using assms
proof (induction es arbitrary: A)
  case (Cons e es)
  let ?B = "archive_step nums merge base e A"
  have "same_view t F A ?B \<and> undisturbed t F ?B"
    using other_event [of t e F base A merge nums] Cons.prems by simp
  then show ?case using Cons.IH [of ?B] Cons.prems by (simp add: same_view_def)
qed (simp add: same_view_def)

lemma archive_run_append:
  "archive_run nums merge base (as @ bs) A = archive_run nums merge base bs (archive_run nums merge base as A)"
  by (simp add: archive_run_def)

lemma whole_run:
  assumes k: "archive_key_ok st y sub c fn" and key: "key = mission_key st y sub c fn" and h: "sub \<noteq> MFS_HIST"
    and s: "length s < 2 ^ 63" and pl: "push_loop alive t (length s) 0 False s = (bs, True)"
    and p: "map event_packet (filter (ours t) es) = (0x4E, push_meta_body key (length s) t 0 info) # map (Pair 0x4F) bs"
    and o: "\<forall>e\<in>set es. \<not> ours t e \<longrightarrow> spares {file} base e"
    and u: "undisturbed t {file} A" and m: "merge_spares {file} merge" and fl: "file = archive_file base st y sub c fn"
  shows "\<exists>a. acks_of t (archive_run nums merge base es A) = acks_of t A @ [a] \<and> length a = 280 \<and> a ! 204 = t \<and>
    (a ! 205 = 0 \<longrightarrow> disk (ar_store (archive_run nums merge base es A)) file = Some s) \<and>
    (list_all call_ok (filter (ours t) es) \<longrightarrow> a ! 205 = 0)"
proof -
  have l: "length key = 204" and sub: "key_subdir key \<noteq> MFS_HIST"
    using mission_key_fields(3) [OF k] h by (simp_all add: key)
  obtain x xs where fx: "filter (ours t) es = x # xs" and xp: "event_packet x = (0x4E, push_meta_body key (length s) t 0 info)"
    and xsp: "map event_packet xs = map (Pair 0x4F) bs"
    using p by (cases "filter (ours t) es") auto
  obtain as cs where es: "es = as @ x # cs" "\<forall>a\<in>set as. \<not> ours t a" "ours t x" "filter (ours t) cs = xs"
    using filter_Cons_split [OF fx] by blast
  obtain e where x: "x = PushMeta e (push_meta_body key (length s) t 0 info)" using xp by (cases x) auto
  let ?A = "archive_run nums merge base as A"
  have v: "same_view t {file} A ?A" "undisturbed t {file} ?A"
    using others_run [of as t "{file}" base A merge nums] es(1,2) o u m by auto
  let ?b = "push_meta_body key (length s) t 0 info"
  have n: "length s < 2 ^ 64" using s by simp
  note om = own_meta [OF k key n v(2) refl refl, where base = base and info = info, folded fl]
  let ?B = "push_meta e base ?b ?A"
  have run: "archive_run nums merge base es A = archive_run nums merge base cs ?B"
    by (simp add: es(1) x archive_run_append)
  have oc: "\<forall>e\<in>set cs. \<not> ours t e \<longrightarrow> spares {file} base e" using o es(1) by auto
  have all: "list_all call_ok (filter (ours t) es) \<longleftrightarrow> e = None \<and> list_all call_ok (filter (ours t) cs)"
    by (simp add: fx es(4) x)
  show ?thesis
  proof (cases e)
    case None
    have r: "receiving t file key (take 0 s) ?B" and ac: "acks_of t ?B = acks_of t A"
      using om(2) [OF None] v(1) by (simp_all add: same_view_def)
    have rest: "map event_packet (filter (ours t) cs) = map (Pair 0x4F) bs" using xsp es(4) by simp
    have pl0: "push_loop alive t (length s) 0 False (drop 0 s) = (bs, True)" using pl by simp
    show ?thesis unfolding run
      using open_run [OF r om(1) m _ l sub s pl0 _ _ rest oc, of nums] ac all None by simp
  next
    case (Some err)
    have cl: "xfers ?B t = None" and ac: "acks_of t ?B = acks_of t A @ [push_ack key t 1 0 err]"
      using om(3) [OF Some] v(1) by (simp_all add: same_view_def)
    have "\<forall>e\<in>set cs. if ours t e then fst (event_packet e) = 0x4F else spares {file} base e"
    proof
      fix z
      assume z: "z \<in> set cs"
      show "if ours t z then fst (event_packet z) = 0x4F else spares {file} base z"
      proof (cases "ours t z")
        case True
        then have "event_packet z \<in> set (map event_packet xs)" using z es(4) by auto
        then show ?thesis using True unfolding xsp by auto
      qed (use oc z in simp)
    qed
    then show ?thesis unfolding run
      using closed_run [OF cl om(1) m, of cs base nums] ac all Some l by (simp add: push_ack_fields)
  qed
qed

lemma ack_received:
  assumes "length a = 280" "a ! 204 = t" "ack_map P t = Some None"
  shows "push_finish running it t (on_push_ack a P) =
    (if running \<and> a ! 205 = 0
     then (P\<lparr> ack_map := (ack_map P)(t := None), local_files := unlink_with_sidecar (pi_path it) (local_files P) \<rparr>, True)
     else (P\<lparr> ack_map := (ack_map P)(t := None) \<rparr>, False))"
  using assms by (simp add: on_push_ack_def push_sizes push_finish_def Let_def)

definition item_ok :: "push_item \<Rightarrow> bool" where
  "item_ok it \<longleftrightarrow> 0 \<le> pi_year it \<and>
     archive_key_ok (pi_station it) (nat (pi_year it)) (pi_subdir it) (pi_code it) (pi_filename it)"

definition item_file :: "string \<Rightarrow> push_item \<Rightarrow> string" where
  "item_file base it =
     archive_file base (pi_station it) (nat (pi_year it)) (pi_subdir it) (pi_code it) (pi_filename it)"

lemma item_key_ok: "item_ok it \<Longrightarrow> item_key it =
    mission_key (pi_station it) (nat (pi_year it)) (pi_subdir it) (pi_code it) (pi_filename it)"
proof -
  assume "item_ok it"
  then have "pi_year it mod 65536 = pi_year it"
    by (intro mod_pos_pos_trivial) (auto simp: item_ok_def archive_key_ok_def)
  then show ?thesis by (simp add: item_key_def)
qed

lemma push_begin_packets:
  assumes "push_begin alive it P = (P', pkts, Some tid)" "local_files P (pi_path it) = Some s"
  obtains bs info where "push_loop alive tid (length s) 0 False s = (bs, True)"
    "pkts = (0x4E, push_meta_body (item_key it) (length s) tid 0 info) # map (Pair 0x4F) bs"
    "ack_map P' tid = Some None" "local_files P' = local_files P"
proof -
  obtain i Q where a: "alloc_transfer_id P = (i, Q)" by (meson surj_pair)
  have q: "local_files Q = local_files P" using a by (auto simp: alloc_transfer_id_def Let_def split: prod.splits)
  show ?thesis using assms a q that
    by (auto simp: push_begin_def Let_def split: if_splits prod.splits)
qed

lemma push_loop_total:
  "length rest = tot - off \<Longrightarrow> snd (push_loop (\<lambda>_. True) t tot off sent rest)"
proof (induction "\<lambda>_ :: nat. True" t tot off sent rest rule: push_loop.induct)
  case (1 t tot off sent rest)
  show ?case
  proof (cases "off < tot \<or> \<not> sent")
    case True
    define want where "want = min push_chunk_size (tot - off)"
    note st = push_loop_step [OF True want_def, of "\<lambda>_. True" t rest]
    show ?thesis
    proof (cases "want = 0")
      case False
      have "snd (push_loop (\<lambda>_. True) t tot (off + want) True (drop want rest))"
        by (rule "1.hyps" [OF _ _ want_def _ refl]) (use True 1 False in \<open>simp_all add: want_def\<close>)
      then show ?thesis using 1 unfolding st by (simp add: want_def)
    qed (use 1 in \<open>simp add: st\<close>)
  qed (subst push_loop.simps, simp)
qed

definition example_item :: push_item where
  "example_item = \<lparr> pi_path = ''/m/S/2026/A01/iq/a'', pi_subdir = MFS_IQ, pi_year = 2026, pi_code = ''A01'',
     pi_filename = ''a'', pi_station = ''S'' \<rparr>"

definition example_pusher :: "string \<Rightarrow> u8 \<Rightarrow> pusher" where
  "example_pusher s n = \<lparr> local_files = [pi_path example_item \<mapsto> s], pq = [], ack_map = Map.empty, next_transfer_id = n \<rparr>"

lemma dec_2026: "dec_str 2026 = ''2026''"
  by code_simp

lemma example_item_ok: "item_ok example_item" "pi_subdir example_item \<noteq> MFS_HIST"
  "item_file ''DB'' example_item = ''DB/missions/S/2026/A01/iq/a''"
  by (simp_all add: example_item_def item_ok_def archive_key_ok_def path_component_safe_def subdir_name_def MFS_IQ_def
      MFS_HIST_def item_file_def archive_file_def path_in_def dec_2026)

lemma example_key_okay: "archive_key_ok ''S'' 2026 MFS_IQ ''A01'' ''b''"
  "archive_file ''DB'' ''S'' 2026 MFS_IQ ''A01'' ''b'' = ''DB/missions/S/2026/A01/iq/b''"
  by (simp_all add: archive_key_ok_def path_component_safe_def subdir_name_def archive_file_def path_in_def dec_2026 MFS_IQ_def)

lemma example_avoids: "avoids {''DB/missions/S/2026/A01/iq/a''} ''DB/missions/S/2026/A01/iq/b''"
  by (simp add: avoids_def sidecar_path_def is_sigmf_data_def find_last_of_def)

lemma example_push_begin:
  assumes "n \<noteq> 0" "push_loop (\<lambda>_. True) n (length s) 0 False s = (bs, True)"
  shows "\<exists>P' info. push_begin (\<lambda>_. True) example_item (example_pusher s n) =
    (P', (0x4E, push_meta_body (item_key example_item) (length s) n 0 info) # map (Pair 0x4F) bs, Some n)"
proof -
  obtain k where k: "(256 :: nat) = Suc k" by (metis numeral_eq_Suc)
  have a: "alloc_transfer_id (example_pusher s n) = (n, (example_pusher s n)\<lparr> next_transfer_id := n + 1 \<rparr>)"
    unfolding alloc_transfer_id_def k using assms(1) by (simp add: example_pusher_def)
  have st: "pi_station example_item \<noteq> []" by (simp add: example_item_def)
  show ?thesis unfolding push_begin_def a using assms(2) sidecar_ne [of "pi_path example_item"] st
    by (simp add: example_pusher_def Let_def) (rule exI, rule refl)
qed



text \<open>A second sender with the same transfer id.\<close>

lemma disk_push_meta:
  assumes k: "archive_key_ok st y sub c fn" and b: "b = push_meta_body (mission_key st y sub c fn) n t 0 info" and n: "n < 2 ^ 64"
    and q: "avoids {q} (archive_file base st y sub c fn)"
  shows "disk (ar_store (push_meta e base b A)) q = disk (ar_store A) q"
proof -
  let ?k = "mission_key st y sub c fn"
  have l: "length ?k = 204" by simp
  note f = push_meta_fields [OF l n b]
  obtain d where d: "key_dir base ?k = Some d" "path_in d fn = archive_file base st y sub c fn"
    using mission_key_path(2) [OF k, of base] by blast
  show ?thesis
    using q f mission_key_path(1) [OF k] mission_key_fields(5) [OF k]
    by (cases e) (auto simp: push_meta_def Let_def d push_sizes put_file_def avoids_def)
qed

lemma two_chunks:
  assumes "push_chunk_size < length s" "length s \<le> 2 * push_chunk_size" "push_loop alive t (length s) 0 False s = (bs, True)"
  shows "bs = [push_data_body t False 0 (take push_chunk_size s),
               push_data_body t True push_chunk_size (drop push_chunk_size s)]"
proof -
  define n where "n = length s"
  define c where "c = push_chunk_size"
  have c: "0 < c" "c < n" "n \<le> 2 * c" using assms(1,2) by (simp_all add: n_def c_def)
  have w: "c = min push_chunk_size (n - 0)" "n - c = min push_chunk_size (n - c)" using c by (simp_all add: c_def)
  have e: "c + (n - c) = n" using c by simp
  note s1 = push_loop_step [OF disjI2 w(1), where sent = False and alive = alive and t = t and rest = s]
    and s2 = push_loop_step [OF disjI1 w(2), where sent = True and alive = alive and t = t and rest = "drop c s"]
  have "take (n - c) (drop c s) = drop c s" by (simp add: n_def)
  then have "bs = [push_data_body t (n \<le> c) 0 (take c s), push_data_body t (n \<le> n) c (drop c s)]"
    using assms(3) c push_loop_end [of n n alive t "drop n s"] unfolding n_def [symmetric]
    by (auto simp: s1 s2 e prod_eq_iff split: if_splits)
  then show ?thesis using c by (simp add: c_def)
qed

lemma first_chunk_stored:
  assumes ko: "archive_key_ok st y sub c fn" "sub \<noteq> MFS_HIST" "p = archive_file base st y sub c fn" "length s < 2 ^ 64"
    and A1: "A1 = push_meta None base (push_meta_body (mission_key st y sub c fn) (length s) tid 0 i)
        \<lparr> ar_store = store0, xfers = Map.empty, ar_acks = [] \<rparr>"
    and A2: "A2 = push_data True merge (push_data_body tid False 0 (take push_chunk_size s)) A1"
  shows "undisturbed tid {} A2" "disk (ar_store A2) p = Some (take push_chunk_size s)" "acks_of tid A2 = []"
proof -
  have u0: "undisturbed tid {} \<lparr> ar_store = store0, xfers = Map.empty, ar_acks = [] \<rparr>" by (simp add: undisturbed_def)
  have hk: "length (mission_key st y sub c fn) = 204" "key_subdir (mission_key st y sub c fn) \<noteq> MFS_HIST"
    using mission_key_fields(3) [OF ko(1)] ko(2) by simp_all
  have 1: "undisturbed tid {} A1" "receiving tid p (mission_key st y sub c fn) [] A1" "acks_of tid A1 = []"
    using own_meta(1,2) [OF ko(1) refl ko(4) u0 refl ko(3), of None] by (simp_all add: acks_of_def A1)
  have s1: "length (take push_chunk_size s) < 2 ^ 32" "(0 :: nat) < 2 ^ 63" by simp_all
  show "undisturbed tid {} A2" "disk (ar_store A2) p = Some (take push_chunk_size s)" "acks_of tid A2 = []"
    using own_chunk_at [OF 1(2) hk s1 1(1) refl [of "push_data_body tid False 0 (take push_chunk_size s)"], where ok = True and merge = merge] 1(3)
    by (simp_all add: receiving_def write_at_def A2)
qed

text \<open>
  C28: two uploads with one transfer id lose a file.  The ids of the HOST run through 1 to 255 and
  those of a JOIN through 128 to 255, in the same table of the room.  If a JOIN opens an upload
  while a HOST's two-chunk upload with this id is half done, the rest of the HOST's file
  goes into the file of the JOIN, the HOST is told that all is well and removes its file; the
  archive keeps only the first chunk of it.
\<close>

theorem push_id_collision:
  assumes b: "push_begin alive it P = (P', [m, c1, c2], Some tid)" and f: "local_files P (pi_path it) = Some s"
    and n: "push_chunk_size < length s" "length s \<le> 2 * push_chunk_size" and k: "item_ok it" "pi_subdir it \<noteq> MFS_HIST"
    and j: "archive_key_ok st y sub c fn" "sub \<noteq> MFS_HIST" "jn < 2 ^ 64"
    and d: "avoids {item_file base it} (archive_file base st y sub c fn)"
    and es: "es = [PushMeta None (snd m), PushData True (snd c1),
                   PushMeta None (push_meta_body (mission_key st y sub c fn) jn tid 0 info), PushData True (snd c2)]"
    and A: "A = archive_run nums merge base es \<lparr> ar_store = store0, xfers = Map.empty, ar_acks = [] \<rparr>"
  shows "disk (ar_store A) (item_file base it) = Some (take push_chunk_size s) \<and>
    disk (ar_store A) (archive_file base st y sub c fn) =
      Some (replicate push_chunk_size (char_of (0 :: nat)) @ drop push_chunk_size s) \<and>
    (\<exists>a. acks_of tid A = [a] \<and> (let (P2, removed) = push_finish True it tid (on_push_ack a P')
           in removed \<and> local_files P2 (pi_path it) = None))"
proof -
  let ?A0 = "\<lparr> ar_store = store0, xfers = Map.empty, ar_acks = [] \<rparr>"
  let ?file = "item_file base it" and ?other = "archive_file base st y sub c fn" and ?jk = "mission_key st y sub c fn"
  obtain bs inf where pl: "push_loop alive tid (length s) 0 False s = (bs, True)"
    and pk: "[m, c1, c2] = (0x4E, push_meta_body (item_key it) (length s) tid 0 inf) # map (Pair 0x4F) bs"
    and am: "ack_map P' tid = Some None" "local_files P' = local_files P"
    by (rule push_begin_packets [OF b f])
  have ko: "archive_key_ok (pi_station it) (nat (pi_year it)) (pi_subdir it) (pi_code it) (pi_filename it)"
    using k(1) by (simp add: item_ok_def)
  note ik = item_key_ok [OF k(1)]
  have pkt: "snd m = push_meta_body (item_key it) (length s) tid 0 inf"
    "snd c1 = push_data_body tid False 0 (take push_chunk_size s)"
    "snd c2 = push_data_body tid True push_chunk_size (drop push_chunk_size s)"
    using pk unfolding two_chunks [OF n pl] by simp_all
  have n64: "length s < 2 ^ 64" using n(2) by simp
  have jk: "length ?jk = 204" "key_subdir ?jk \<noteq> MFS_HIST"
    using mission_key_fields(3) [OF j(1)] j(2) by simp_all
  let ?A2 = "push_data True merge (snd c1) (push_meta None base (snd m) ?A0)"
  have 2: "undisturbed tid {} ?A2" "disk (ar_store ?A2) ?file = Some (take push_chunk_size s)" "acks_of tid ?A2 = []"
    using first_chunk_stored [OF ko k(2) item_file_def n64 refl refl] unfolding pkt ik by blast+
  let ?A3 = "push_meta None base (push_meta_body ?jk jn tid 0 info) ?A2"
  have 3: "undisturbed tid {} ?A3" "receiving tid ?other ?jk [] ?A3" "acks_of tid ?A3 = []"
    using own_meta(1,2) [OF j(1) refl j(3) 2(1) refl refl, of None] 2(3) by simp_all
  have 3: "undisturbed tid {} ?A3" "receiving tid ?other ?jk [] ?A3" "acks_of tid ?A3 = []"
    "disk (ar_store ?A3) ?file = Some (take push_chunk_size s)"
    using 3 2(2) disk_push_meta [OF j(1) refl j(3) d, of None _ _ ?A2] by simp_all
  have s2: "length (drop push_chunk_size s) < 2 ^ 32" "push_chunk_size < 2 ^ 63" using n(2) by simp_all
  let ?A4 = "push_data True merge (snd c2) ?A3"
  have w: "write_at push_chunk_size (drop push_chunk_size s) [] =
      replicate push_chunk_size (char_of (0 :: nat)) @ drop push_chunk_size s"
    using n(1) by (simp add: write_at_def)
  have ne: "?file \<noteq> ?other" using d by (auto simp: avoids_def)
  have 4: "disk (ar_store ?A4) ?file = Some (take push_chunk_size s)"
    "disk (ar_store ?A4) ?other = Some (replicate push_chunk_size (char_of (0 :: nat)) @ drop push_chunk_size s)"
    "\<exists>v. acks_of tid ?A4 = [push_ack ?jk tid 0 v []]"
    using own_chunk_at(2) [OF 3(2) jk s2 3(1) pkt(3) ne, where ok = True and merge = merge] 3(3,4)
      own_chunk_at(3) [OF 3(2) jk s2 3(1) pkt(3), where ok = True and merge = merge]
    unfolding w by simp_all (rule exI, rule refl)
  have A4: "A = ?A4" by (simp add: A es)
  obtain v where v: "acks_of tid A = [push_ack ?jk tid 0 v []]" using 4(3) unfolding A4 by blast
  have "\<exists>a. acks_of tid A = [a] \<and> (let (P2, removed) = push_finish True it tid (on_push_ack a P')
           in removed \<and> local_files P2 (pi_path it) = None)"
    unfolding v using ack_received [OF push_ack_fields(3,1) [OF jk(1)] am(1), where running = True and it = it]
    by (simp add: push_ack_fields jk(1) unlink_with_sidecar_def)
  then show ?thesis using 4(1,2) unfolding A4 by blast
qed

theorem push_id_collision_witness:
  "\<exists>s P' m c1 c2 A.
     push_begin (\<lambda>_. True) example_item (example_pusher s 200) = (P', [m, c1, c2], Some 200) \<and>
     A = archive_run (\<lambda>_ m. m) (\<lambda>_ st. st) ''DB''
           [PushMeta None (snd m), PushData True (snd c1),
            PushMeta None (push_meta_body (mission_key ''S'' 2026 MFS_IQ ''A01'' ''b'') 0 200 0 []), PushData True (snd c2)]
           \<lparr> ar_store = \<lparr> disk = Map.empty, dirs = {} \<rparr>, xfers = Map.empty, ar_acks = [] \<rparr> \<and>
     length s = push_chunk_size + 1 \<and> disk (ar_store A) ''DB/missions/S/2026/A01/iq/a'' = Some (take push_chunk_size s)"
proof -
  define s where "s = replicate (push_chunk_size + 1) CHR ''x''"
  have n: "push_chunk_size < length s" "length s \<le> 2 * push_chunk_size" by (simp_all add: s_def)
  obtain bs where bs: "push_loop (\<lambda>_. True) 200 (length s) 0 False s = (bs, True)"
    using push_loop_total [of s "length s" 0 200 False]
    by (cases "push_loop (\<lambda>_. True) 200 (length s) 0 False s") simp
  obtain P' info where pb: "push_begin (\<lambda>_. True) example_item (example_pusher s 200) =
      (P', (0x4E, push_meta_body (item_key example_item) (length s) 200 0 info) # map (Pair 0x4F) bs, Some 200)"
    using example_push_begin [OF _ bs] by auto
  obtain m c1 c2 where pk: "(0x4E :: u8, push_meta_body (item_key example_item) (length s) 200 0 info) # map (Pair 0x4F) bs = [m, c1, c2]"
    unfolding two_chunks [OF n bs] by simp
  have f: "local_files (example_pusher s 200) (pi_path example_item) = Some s" by (simp add: example_pusher_def)
  have av: "avoids {item_file ''DB'' example_item} (archive_file ''DB'' ''S'' 2026 MFS_IQ ''A01'' ''b'')"
    using example_avoids by (simp add: example_item_ok(3) example_key_okay(2))
  have h: "MFS_IQ \<noteq> MFS_HIST" "(0 :: nat) < 2 ^ 64" by (simp_all add: MFS_IQ_def MFS_HIST_def)
  note push_id_collision [OF pb [unfolded pk] f n example_item_ok(1,2) example_key_okay(1) h av refl refl,
      where nums = "\<lambda>_ m. m" and merge = "\<lambda>_ st. st" and ?store0.0 = "\<lparr> disk = Map.empty, dirs = {} \<rparr>"
        and info = "[]", unfolded example_item_ok(3)]
  moreover have "length s = push_chunk_size + 1" by (simp add: s_def)
  ultimately show ?thesis using pb unfolding pk by blast
qed

section \<open>Confinement\<close>

definition archive_sub :: "string \<Rightarrow> string \<Rightarrow> bool" where
  "archive_sub base d \<longleftrightarrow> (\<exists>st y c sub. component st \<and> 1970 \<le> y \<and> y \<le> 3000 \<and> component c \<and>
     sub \<in> {''iq'', ''audio'', ''hist''} \<and>
     d = path_in (path_in (path_in (path_in (path_in base ''missions'') st) (dec_str y)) c) sub)"

text \<open>A path of the form \<^verbatim>\<open>base/missions/station/year/code/sub/name\<close>, no part of which is a dot entry.\<close>

definition in_archive :: "string \<Rightarrow> string \<Rightarrow> bool" where
  "in_archive base p \<longleftrightarrow> (\<exists>d name. archive_sub base d \<and> component name \<and> p = path_in d name)"

lemma path_component: "path_component_safe n s \<Longrightarrow> component s"
  by (auto simp: path_component_safe_def component_def list_all_iff)

lemma key_dir_sub: "key_dir base k = Some d \<Longrightarrow> archive_sub base d"
proof -
  assume d: "key_dir base k = Some d"
  have s: "path_component_safe 64 (key_station k)" "path_component_safe 8 (key_code k)" "1970 \<le> key_year k" "key_year k \<le> 3000"
    using d by (auto simp: key_dir_def archive_dir_def mission_dir_def split: option.splits if_splits)
  obtain sub where "subdir_name (key_subdir k) = Some sub"
    "d = path_in (path_in (path_in (path_in (path_in base ''missions'') (key_station k)) (dec_str (key_year k))) (key_code k)) sub"
    using d s by (auto simp: key_dir_def archive_dir_def mission_dir_def archive_root_def split: option.splits)
  moreover have "sub \<in> {''iq'', ''audio'', ''hist''}"
    using \<open>subdir_name (key_subdir k) = Some sub\<close> by (simp add: subdir_name_def split: if_splits)
  ultimately show ?thesis unfolding archive_sub_def using s path_component [OF s(1)] path_component [OF s(2)] by blast
qed

lemma in_archiveI: "key_dir base k = Some d \<Longrightarrow> path_component_safe n name \<Longrightarrow>
    in_archive base (path_in d name) \<and> in_archive base (sidecar_path (path_in d name))"
proof
  assume d: "key_dir base k = Some d" and n: "path_component_safe n name"
  note c = path_component [OF n]
  show "in_archive base (path_in d name)" using key_dir_sub [OF d] c unfolding in_archive_def by blast
  obtain name' where "component name'" "\<And>dir. sidecar_path (path_in dir name) = path_in dir name'"
    using sidecar_of_component [OF c] by blast
  then show "in_archive base (sidecar_path (path_in d name))"
    using key_dir_sub [OF d] unfolding in_archive_def by blast
qed

definition transfers_confined :: "string \<Rightarrow> archive \<Rightarrow> bool" where
  "transfers_confined base A \<longleftrightarrow> (\<forall>t xf. xfers A t = Some xf \<longrightarrow> in_archive base (archive_path xf))"

definition merge_confined :: "string \<Rightarrow> (string \<Rightarrow> store \<Rightarrow> store) \<Rightarrow> bool" where
  "merge_confined base merge \<longleftrightarrow>
     (\<forall>q st p. in_archive base q \<longrightarrow> disk (merge q st) p \<noteq> disk st p \<longrightarrow> in_archive base p)"

lemma key_filename_safe: "key_valid k \<Longrightarrow> path_component_safe 128 (key_filename k)"
  by (simp add: key_valid_def)

lemma push_chunk_effect:
  assumes "xfers A t = Some xf"
  shows "\<exists>st. (ar_store (push_chunk ok merge t l off d A) = st \<or> ar_store (push_chunk ok merge t l off d A) = merge (archive_path xf) st) \<and>
      (st = ar_store A \<or> (\<exists>c. st = put_file (archive_path xf) c (ar_store A)))"
    and "xfers (push_chunk ok merge t l off d A) u = Some xf' \<Longrightarrow> \<exists>xf. xfers A u = Some xf \<and> archive_path xf' = archive_path xf"
  using assms by (auto simp: push_chunk_def Let_def split: if_splits)

lemma chunk_confined:
  assumes c: "transfers_confined base A" and m: "merge_confined base merge"
  shows "transfers_confined base (push_chunk ok merge t l off d A) \<and>
    (disk (ar_store (push_chunk ok merge t l off d A)) p \<noteq> disk (ar_store A) p \<longrightarrow> in_archive base p)"
proof (cases "xfers A t")
  case (Some xf)
  let ?B = "push_chunk ok merge t l off d A"
  have m: "in_archive base q \<Longrightarrow> disk (merge q st) p \<noteq> disk st p \<Longrightarrow> in_archive base p" for q st p
    using m unfolding merge_confined_def by blast
  have x: "in_archive base (archive_path xf)" using c Some unfolding transfers_confined_def by blast
  obtain st where st: "ar_store ?B = st \<or> ar_store ?B = merge (archive_path xf) st"
    "st = ar_store A \<or> (\<exists>c. st = put_file (archive_path xf) c (ar_store A))"
    using push_chunk_effect(1) [OF Some] by blast
  have "disk st p \<noteq> disk (ar_store A) p \<longrightarrow> p = archive_path xf" using st(2)
    by (auto simp: put_file_def split: if_splits)
  then have "disk (ar_store ?B) p \<noteq> disk (ar_store A) p \<longrightarrow> in_archive base p"
    using st(1) m [OF x, of st] x by auto
  moreover have "transfers_confined base ?B"
    using c push_chunk_effect(2) [OF Some] unfolding transfers_confined_def by metis
  ultimately show ?thesis by simp
qed (use c in \<open>simp add: push_chunk_def\<close>)

lemma step_confined:
  assumes c: "transfers_confined base A" and m: "merge_confined base merge"
  shows "transfers_confined base (archive_step nums merge base e A) \<and>
    (disk (ar_store (archive_step nums merge base e A)) p \<noteq> disk (ar_store A) p \<longrightarrow> in_archive base p)"
proof (cases e)
  case (PushMeta er b)
  have "key_dir base (take key_size b) = Some d \<Longrightarrow> key_valid (take key_size b) \<Longrightarrow>
      in_archive base (path_in d (key_filename (take key_size b))) \<and>
      in_archive base (sidecar_path (path_in d (key_filename (take key_size b))))" for d
    by (rule in_archiveI [OF _ key_filename_safe])
  then show ?thesis using c PushMeta
    by (auto simp: push_meta_def Let_def transfers_confined_def put_file_def split: option.split if_splits)
next
  case (PushData ok b)
  then show ?thesis using c chunk_confined [OF c m] by (simp add: push_data_def Let_def)
next
  case (FileDelete b)
  have "key_path base (take key_size b) = Some q \<Longrightarrow> in_archive base q \<and> in_archive base (sidecar_path q)" for q
    using in_archiveI [OF _ key_filename_safe] by (auto simp: key_path_def split: if_splits)
  then show ?thesis using c FileDelete
    by (auto simp: mission_delete_file_def Let_def transfers_confined_def split: option.split if_splits)
next
  case (FileRename b)
  let ?k = "take key_size b" and ?new = "text_of 128 (at_member PktMissionFileRename ''new_filename'' b)"
  have t: "transfers_confined base (A\<lparr> ar_store := st \<rparr>)" for st using c by (simp add: transfers_confined_def)
  have "in_archive base p" if "disk (mission_rename_file base b (ar_store A)) p \<noteq> disk (ar_store A) p"
  proof (cases "size_of PktMissionFileRename \<le> length b \<and> key_valid ?k \<and> path_component_safe 128 ?new \<and> key_dir base ?k \<noteq> None")
    case True
    then obtain d where d: "key_dir base ?k = Some d" by blast
    let ?a = "path_in d (key_filename ?k)" and ?b = "path_in d ?new"
    have "p \<in> {?a, ?b, sidecar_path ?a, sidecar_path ?b}"
    proof (rule ccontr)
      assume "p \<notin> {?a, ?b, sidecar_path ?a, sidecar_path ?b}"
      then have "rename_file ?a ?b fs p = fs p" "rename_file (sidecar_path ?a) (sidecar_path ?b) fs p = fs p" for fs
        by (simp_all add: disk_rename_file)
      then show False using that True d by (simp add: mission_rename_file_def Let_def)
    qed
    then show ?thesis using in_archiveI [OF d key_filename_safe [of ?k]] in_archiveI [OF d, of 128 ?new] True by blast
  qed (use that in \<open>auto simp: mission_rename_file_def Let_def split: if_splits option.splits\<close>)
  then show ?thesis using FileRename t by simp
next
  case (FileNote b)
  let ?k = "take key_size b"
  have t: "transfers_confined base (A\<lparr> ar_store := st \<rparr>)" for st using c by (simp add: transfers_confined_def)
  have "in_archive base p" if "disk (mission_set_note nums base b (ar_store A)) p \<noteq> disk (ar_store A) p"
  proof (cases "size_of PktMissionFileSetNote \<le> length b \<and> key_valid ?k \<and> key_dir base ?k \<noteq> None")
    case True
    then obtain d where d: "key_dir base ?k = Some d" by blast
    let ?a = "path_in d (key_filename ?k)"
    have "p \<in> {?a, sidecar_path ?a}"
      using that True d disk_update_note [of p ?a nums] by (auto simp: mission_set_note_def Let_def split: if_splits)
    then show ?thesis using in_archiveI [OF d key_filename_safe [of ?k]] True by blast
  qed (use that in \<open>auto simp: mission_set_note_def Let_def split: if_splits option.splits\<close>)
  then show ?thesis using FileNote t by simp
qed

lemma run_confined:
  assumes "transfers_confined base A" "merge_confined base merge"
  shows "transfers_confined base (archive_run nums merge base es A) \<and>
    (disk (ar_store (archive_run nums merge base es A)) p \<noteq> disk (ar_store A) p \<longrightarrow> in_archive base p)"
  using assms
proof (induction es arbitrary: A)
  case (Cons e es)
  then show ?case using step_confined [OF Cons.prems, of nums e p] by fastforce
qed simp

end
