(* ===== verification/MissionDownload.thy ===== *)
theory MissionDownload
  imports ArchiveFacts
begin

text \<open>
  The download of an archive file by a JOIN, \<^verbatim>\<open>start_download\<close>, \<^verbatim>\<open>poll_dl_speed\<close> and
  \<^verbatim>\<open>on_mission_file_dl_data_recv\<close> of \<^verbatim>\<open>src/mission_view.cpp\<close> with the packet functions of
  \<^verbatim>\<open>src/net_client.cpp\<close>, and its composition with the relay: a download that starts with a
  part of the file adds exactly the missing bytes.
\<close>

section \<open>The client\<close>

record dl_row =
  row_station :: string
  row_year :: nat
  row_subdir :: u8
  row_code :: string
  row_filename :: string

record dl_state =
  dl_files :: files
  dl_active :: bool
  dl_fp :: "(string \<times> nat) option"
  dl_filename :: string
  dl_local_path :: string
  dl_total :: nat
  dl_written :: nat
  dl_queue :: "dl_row list"

definition downloads_mission_dir :: "string \<Rightarrow> string \<Rightarrow> nat \<Rightarrow> string \<Rightarrow> string \<Rightarrow> string" where
  "downloads_mission_dir downloads station year code sub =
     downloads @ ''/'' @ station @ ''/'' @ replicate (4 - length (dec_str year)) CHR ''0'' @ dec_str year @
     ''/'' @ code @ ''/'' @ sub"

definition dl_sub_name :: "u8 \<Rightarrow> string" where
  "dl_sub_name s = (if s = MFS_IQ then ''iq'' else if s = MFS_AUDIO then ''audio''
                    else if s = MFS_HIST then ''hist'' else ''misc'')"

definition dl_path_of :: "string \<Rightarrow> dl_row \<Rightarrow> string" where
  "dl_path_of downloads row =
     path_in (downloads_mission_dir downloads (row_station row) (row_year row) (row_code row) (dl_sub_name (row_subdir row)))
       (row_filename row)"

definition mission_dl_req_body :: "bytes \<Rightarrow> nat \<Rightarrow> bytes" where
  "mission_dl_req_body key start = key @ le_bytes 8 start"

text \<open>
  The request that is sent, if any; \<^verbatim>\<open>open_rw\<close>, \<^verbatim>\<open>open_w\<close> and \<^verbatim>\<open>sent\<close> are the outcomes of the
  two \<^verbatim>\<open>fopen\<close> calls and of sending.
\<close>

definition start_download :: "bool \<Rightarrow> bool \<Rightarrow> bool \<Rightarrow> string \<Rightarrow> dl_row \<Rightarrow> dl_state \<Rightarrow> dl_state \<times> bytes option" where
  "start_download open_rw open_w sent downloads row S =
     (if dl_active S
      then if dl_filename S = row_filename row \<or> row \<in> set (dl_queue S) then (S, None)
           else (S\<lparr> dl_queue := dl_queue S @ [row] \<rparr>, None)
      else let path = dl_path_of downloads row;
               l = (case dl_files S path of None \<Rightarrow> [] | Some s \<Rightarrow> s);
               resume = (l \<noteq> [])
           in if resume \<and> open_rw \<or> open_w
              then let start = (if resume \<and> open_rw then length l else 0);
                       fs = (if resume \<and> open_rw then dl_files S else (dl_files S)(path \<mapsto> []));
                       S = S\<lparr> dl_files := fs, dl_fp := Some (path, start), dl_local_path := path,
                              dl_filename := row_filename row, dl_total := 0, dl_written := start, dl_active := True \<rparr>
                   in if sent
                      then (S, Some (mission_dl_req_body (mission_key (row_station row) (row_year row) (row_subdir row)
                                       (row_code row) (row_filename row)) start))
                      else (S\<lparr> dl_fp := None, dl_active := False,
                               dl_files := (if resume then dl_files S else (dl_files S)(path := None)) \<rparr>, None)
              else (S, None))"

definition poll_dl :: "bool \<Rightarrow> bool \<Rightarrow> bool \<Rightarrow> string \<Rightarrow> dl_state \<Rightarrow> dl_state \<times> bytes option" where
  "poll_dl open_rw open_w sent downloads S =
     (if dl_active S then (S, None)
      else case dl_queue S of
             [] \<Rightarrow> (S, None)
           | row # q \<Rightarrow> start_download open_rw open_w sent downloads row (S\<lparr> dl_queue := q \<rparr>))"

text \<open>A seek beyond the range of \<^verbatim>\<open>off_t\<close> fails, its result is not looked at.\<close>

definition dl_recv :: "bool \<Rightarrow> bool \<Rightarrow> nat \<Rightarrow> nat \<Rightarrow> string \<Rightarrow> string \<Rightarrow> dl_state \<Rightarrow> dl_state" where
  "dl_recv is_first is_last tot off info chunk S =
     (if \<not> dl_active S then S
      else let S = (if is_first
                    then S\<lparr> dl_total := tot,
                            dl_files := (if info \<noteq> [] then (dl_files S)(sidecar_path (dl_local_path S) \<mapsto> info) else dl_files S) \<rparr>
                    else S);
               S = (case dl_fp S of
                      Some (p, pos) \<Rightarrow>
                        if chunk \<noteq> []
                        then let at = (if off < 2 ^ 63 then off else pos);
                                 s = (case dl_files S p of None \<Rightarrow> [] | Some s \<Rightarrow> s)
                             in S\<lparr> dl_files := (dl_files S)(p \<mapsto> write_at at chunk s), dl_fp := Some (p, at + length chunk),
                                   dl_written := dl_written S + length chunk \<rparr>
                        else S
                    | None \<Rightarrow> S)
           in if is_last
              then S\<lparr> dl_fp := None,
                      dl_files := (if tot = 0 \<and> dl_written S = 0 then unlink_with_sidecar (dl_local_path S) (dl_files S)
                                   else dl_files S),
                      dl_active := False, dl_filename := [], dl_local_path := [], dl_total := 0, dl_written := 0 \<rparr>
              else S)"

definition on_mission_file_dl_data_recv :: "bytes \<Rightarrow> string \<Rightarrow> dl_state \<Rightarrow> dl_state" where
  "on_mission_file_dl_data_recv h chunk S =
     dl_recv (at_member PktMissionFileDlData ''is_first'' h ! 0 \<noteq> 0) (at_member PktMissionFileDlData ''is_last'' h ! 0 \<noteq> 0)
       (le_nat (take 8 (at_member PktMissionFileDlData ''total_bytes'' h)))
       (le_nat (take 8 (at_member PktMissionFileDlData ''offset'' h)))
       (text_of 1024 (at_member PktMissionFileDlData ''info_data'' h)) chunk S"

definition mission_dl_data_packet :: "bytes \<Rightarrow> dl_state \<Rightarrow> dl_state" where
  "mission_dl_data_packet b S =
     (if length b < size_of PktMissionFileDlData then S
      else let cb = le_nat (take 4 (at_member PktMissionFileDlData ''chunk_bytes'' b)) in
      if length b < size_of PktMissionFileDlData + cb then S
      else on_mission_file_dl_data_recv b (chars_of (take cb (drop (size_of PktMissionFileDlData) b))) S)"

section \<open>One packet\<close>

lemma dl_sizes: "size_of PktMissionFileDlData = 1252"
  by (simp add: PktMissionFileDlData_def MissionFileKey_def)

lemma dl_offsets: "offset_of PktMissionFileDlData ''total_bytes'' = Some 204"
  "offset_of PktMissionFileDlData ''offset'' = Some 212" "offset_of PktMissionFileDlData ''chunk_bytes'' = Some 220"
  "offset_of PktMissionFileDlData ''is_first'' = Some 224" "offset_of PktMissionFileDlData ''is_last'' = Some 225"
  "offset_of PktMissionFileDlData ''info_data'' = Some 228"
  by (simp_all add: PktMissionFileDlData_def MissionFileKey_def)

lemma dl_fields:
  assumes "length key = 204" "tot < 2 ^ 64" "off < 2 ^ 64" "length d < 2 ^ 32" "length info \<le> 1024"
    and b: "b = dl_body key tot off f l info d"
  shows "length b = 1252 + length d" "le_nat (take 8 (drop 204 b)) = tot" "le_nat (take 8 (drop 212 b)) = off"
    "le_nat (take 4 (drop 220 b)) = length d" "b ! 224 = of_bool f" "b ! 225 = of_bool l" "drop 1252 b = bytes_of d"
    "text_of 1024 (drop 228 b) = text_of 1024 (info @ replicate (1024 - length info) 0)"
  using assms(1,5) le_nat_8 [OF assms(2)] le_nat_8 [OF assms(3)] le_nat_4 [OF assms(4)]
  by (simp_all add: b dl_body_def nth_append text_of_def cstr_def)

lemma dl_packet:
  assumes "length key = 204" "tot < 2 ^ 64" "off < 2 ^ 64" "length d < 2 ^ 32" "length info \<le> 1024"
  shows "mission_dl_data_packet (dl_body key tot off f l info d) S =
    dl_recv f l tot off (text_of 1024 (info @ replicate (1024 - length info) 0)) d S"
proof -
  define b where "b = dl_body key tot off f l info d"
  note fl = dl_fields [OF assms b_def]
  have m: "le_nat (take 8 (at_member PktMissionFileDlData ''total_bytes'' b)) = tot"
    "le_nat (take 8 (at_member PktMissionFileDlData ''offset'' b)) = off"
    "le_nat (take 4 (at_member PktMissionFileDlData ''chunk_bytes'' b)) = length d"
    "(at_member PktMissionFileDlData ''is_first'' b ! 0 \<noteq> 0) = f" "(at_member PktMissionFileDlData ''is_last'' b ! 0 \<noteq> 0) = l"
    "text_of 1024 (at_member PktMissionFileDlData ''info_data'' b) = text_of 1024 (info @ replicate (1024 - length info) 0)"
    using fl by (simp_all add: at_member_def dl_offsets)
  have c: "chars_of (take (length d) (drop 1252 b)) = d" using fl(7) by simp
  have big: "\<not> length b < 1252" "\<not> length b < 1252 + length d" using fl(1) by simp_all
  show ?thesis unfolding b_def [symmetric] mission_dl_data_packet_def dl_sizes Let_def m c
      on_mission_file_dl_data_recv_def if_not_P [OF big(1)] if_not_P [OF big(2)] by (rule refl)
qed

section \<open>A whole download\<close>

definition dl_receive :: "bytes list \<Rightarrow> dl_state \<Rightarrow> dl_state" where
  "dl_receive bs S = fold mission_dl_data_packet bs S"

definition dl_idle :: "dl_state \<Rightarrow> files \<Rightarrow> bool" where
  "dl_idle S fs \<longleftrightarrow> \<not> dl_active S \<and> dl_fp S = None \<and> dl_files S = fs"

definition with_sidecar :: "string \<Rightarrow> string \<Rightarrow> files \<Rightarrow> files" where
  "with_sidecar p info fs = (if info \<noteq> [] then fs(sidecar_path p \<mapsto> info) else fs)"

lemma DL_CHUNK_pos: "0 < DL_CHUNK" "DL_CHUNK < 2 ^ 32"
  by (simp_all add: DL_CHUNK_def)

lemma empty_text [simp]: "text_of 1024 (replicate n 0) = []"
  by (cases n) (simp_all add: text_of_def cstr_def chars_of_def take_Cons')

lemma rest_received:
  assumes "length key = 204" "off + length rest < 2 ^ 63" "rest \<noteq> []" "length info \<le> 1024"
    and "dl_active S" "dl_fp S = Some (p, pos)" "dl_local_path S = p" "dl_files S p = Some lc" "length lc = off"
    and tdef: "txt0 = (if first then text_of 1024 (info @ replicate (1024 - length info) 0) else [])"
  shows "dl_idle (dl_receive (dl_chunks key (off + length rest) off first info rest) S)
    ((with_sidecar p txt0 (dl_files S))(p \<mapsto> lc @ rest))"
  using assms
proof (induction "length rest" arbitrary: off rest S pos lc first txt0 rule: less_induct)
  case less
  let ?d = "take DL_CHUNK rest" and ?r = "drop DL_CHUNK rest" and ?tot = "off + length rest"
  let ?info = "if first then info else []"
  have l: "length ?d < 2 ^ 32" using DL_CHUNK_pos(2) by simp
  have d: "?d \<noteq> []" "0 < length ?d" using less.prems(3) DL_CHUNK_pos(1) by simp_all
  have fin: "?tot \<le> off + length ?d \<longleftrightarrow> ?r = []" by auto
  have c: "dl_chunks key ?tot off first info rest =
      dl_body key ?tot off first (?r = []) ?info ?d # dl_chunks key ?tot (off + length ?d) False info ?r"
    using less.prems(3) by (subst dl_chunks.simps) (simp only: Let_def if_False fin)
  have t: "text_of 1024 (?info @ replicate (1024 - length ?info) 0) = txt0"
    using less.prems(10) by simp
  have n: "?tot < 2 ^ 64" "off < 2 ^ 64" "length ?info \<le> 1024" "off < 2 ^ 63" using less.prems(2,4) by simp_all
  define S1 where "S1 = dl_recv first (?r = []) ?tot off txt0 ?d S"
  have p: "mission_dl_data_packet (dl_body key ?tot off first (?r = []) ?info ?d) S = S1"
    unfolding dl_packet [OF less.prems(1) n(1,2) l n(3)] t S1_def by (rule refl)
  have w: "write_at off x lc = lc @ x" for x using less.prems(9) by (metis write_at_end)
  have ne: "p \<noteq> sidecar_path p" using sidecar_ne [of p] by simp
  have tot: "?tot \<noteq> 0" using less.prems(3) by simp
  have tx: "\<not> first \<Longrightarrow> txt0 = []" using less.prems(10) by simp
  let ?fs = "(with_sidecar p txt0 (dl_files S))(p \<mapsto> lc @ ?d)"
  have S1: "if ?r = [] then dl_idle S1 ?fs
    else dl_active S1 \<and> dl_fp S1 = Some (p, off + length ?d) \<and> dl_local_path S1 = p \<and> dl_files S1 = ?fs"
    using less.prems(5-8) d tot n(4) ne tx
    by (auto simp: S1_def dl_recv_def Let_def w dl_idle_def with_sidecar_def)
  show ?case
  proof (cases "?r = []")
    case True
    then show ?thesis unfolding c using S1 p
      by (simp add: dl_receive_def dl_chunks.simps)
  next
    case False
    have "length ?r < length rest" using less.prems(3) DL_CHUNK_pos(1) by simp
    moreover have "off + length ?d + length ?r = ?tot" by simp
    moreover have "length (lc @ ?d) = off + length ?d" using less.prems(9) by simp
    ultimately have "dl_idle (dl_receive (dl_chunks key (off + length ?d + length ?r) (off + length ?d) False info ?r) S1)
        ((with_sidecar p [] (dl_files S1))(p \<mapsto> (lc @ ?d) @ ?r))"
      using less.prems(1,2,4) S1 False by (intro less.hyps) auto
    then show ?thesis unfolding c using S1 p False
      by (simp add: dl_receive_def with_sidecar_def)
  qed
qed

lemma dl_req_fields:
  assumes "length key = 204" "start < 2 ^ 64" and b: "b = mission_dl_req_body key start"
  shows "length b = 212" "take 204 b = key" "le_nat (take 8 (drop 204 b)) = start"
  using assms(1) le_nat_8 [OF assms(2)] by (simp_all add: b mission_dl_req_body_def)

lemma dl_answer:
  assumes k: "archive_key_ok st y sub c fn" and "start < 2 ^ 64"
    and fs: "fs (archive_file base st y sub c fn) = Some s"
  shows "\<exists>info. length info \<le> 1024 \<and>
    mission_dl_req base (mission_dl_req_body (mission_key st y sub c fn) start) fs =
      (if length s \<le> start then [dl_body (mission_key st y sub c fn) (length s) (length s) True True [] []]
       else dl_chunks (mission_key st y sub c fn) (length s) start True info (drop start s))"
proof -
  let ?k = "mission_key st y sub c fn"
  have l: "length ?k = 204" by simp
  note f = dl_req_fields [OF l assms(2) refl]
  let ?b = "mission_dl_req_body ?k start" and ?p = "archive_file base st y sub c fn"
  let ?info = "if min (length s) start = 0 then (case fs (sidecar_path ?p) of None \<Rightarrow> [] | Some i \<Rightarrow> take 1023 (bytes_of i)) else []"
  have m: "le_nat (take 8 (at_member PktMissionFileDlReq ''start_offset'' ?b)) = start" "take key_size ?b = ?k"
    "\<not> length ?b < 212"
    using f by (simp_all add: at_member_def push_offsets)
  have "mission_dl_req base ?b fs =
    (if length s \<le> min (length s) start then [dl_body ?k (length s) (min (length s) start) True True [] []]
     else dl_chunks ?k (length s) (min (length s) start) True ?info (drop (min (length s) start) s))"
    unfolding mission_dl_req_def push_sizes Let_def m mission_key_path(3) [OF k] option.case fs if_not_P [OF m(3)] ..
  also have "\<dots> = (if length s \<le> start then [dl_body ?k (length s) (length s) True True [] []]
       else dl_chunks ?k (length s) start True ?info (drop start s))"
    by (cases "length s \<le> start") simp_all
  finally show ?thesis by (intro exI [of _ ?info]) (auto split: option.split)
qed

text \<open>
  C27: a download from the archive fetches exactly what is missing.  A JOIN that asks for a file
  of which it has the first bytes, or none, appends the rest of the archive's file, whatever
  the sizes are; the result is the file whenever the local bytes are a prefix of it, the client
  is idle again, and no other local file than the target and its sidecar has changed.  Only an empty
  file of the archive leaves no file behind.
\<close>

theorem mission_download_resumes:
  assumes idle: "\<not> dl_active S" and k: "archive_key_ok (row_station row) (row_year row) (row_subdir row) (row_code row) (row_filename row)"
    and fs: "fs (archive_file base (row_station row) (row_year row) (row_subdir row) (row_code row) (row_filename row)) = Some s"
    and n: "length s < 2 ^ 63"
    and path: "path = dl_path_of downloads row" and l: "l = (case dl_files S path of None \<Rightarrow> [] | Some t \<Rightarrow> t)" "length l < 2 ^ 63"
    and st: "start_download True True True downloads row S = (S1, Some req)"
    and S2: "S2 = dl_receive (mission_dl_req base req fs) S1"
  shows "\<not> dl_active S2 \<and> dl_fp S2 = None \<and>
    dl_files S2 path = (if l = [] \<and> s = [] then None else Some (l @ drop (length l) s)) \<and>
    (prefix l s \<longrightarrow> s \<noteq> [] \<longrightarrow> dl_files S2 path = Some s) \<and>
    (\<forall>q. q \<noteq> path \<longrightarrow> q \<noteq> sidecar_path path \<longrightarrow> dl_files S2 q = dl_files S q)"
proof -
  let ?k = "mission_key (row_station row) (row_year row) (row_subdir row) (row_code row) (row_filename row)"
  have S1: "dl_active S1" "dl_fp S1 = Some (path, length l)" "dl_local_path S1 = path"
    "dl_files S1 = (if l \<noteq> [] then dl_files S else (dl_files S)(path \<mapsto> []))" "dl_written S1 = length l"
    "req = mission_dl_req_body ?k (length l)"
    using st idle by (auto simp: start_download_def Let_def path [symmetric] l(1) [symmetric] split: if_splits)
  have lf: "dl_files S1 path = Some l" using S1(4) l(1) by (auto split: option.splits)
  have n64: "length l < 2 ^ 64" using l(2) by simp
  obtain info where i: "length info \<le> 1024" and ans: "mission_dl_req base req fs =
      (if length s \<le> length l then [dl_body ?k (length s) (length s) True True [] []]
       else dl_chunks ?k (length s) (length l) True info (drop (length l) s))"
    using dl_answer [OF k n64, where fs = fs and base = base, OF fs] unfolding S1(6) by blast
  have pre: "prefix l s \<Longrightarrow> l @ drop (length l) s = s" by (auto simp: prefix_def)
  show ?thesis
  proof (cases "length s \<le> length l")
    case True
    have b: "length s < 2 ^ 64" "length ([] :: string) < 2 ^ 32" "length ([] :: bytes) \<le> 1024" using n by simp_all
    have "S2 = dl_recv True True (length s) (length s) [] [] S1"
      using True unfolding S2 ans dl_receive_def
      by (simp add: dl_packet [OF length_mission_key b(1) b(1) b(2,3)])
    then show ?thesis using S1 lf True pre
      by (auto simp: dl_recv_def Let_def unlink_with_sidecar_def)
  next
    case False
    let ?r = "drop (length l) s"
    have len: "length l + length ?r = length s" using False by simp
    have "dl_idle (dl_receive (dl_chunks ?k (length l + length ?r) (length l) True info ?r) S1)
        ((with_sidecar path (text_of 1024 (info @ replicate (1024 - length info) 0)) (dl_files S1))(path \<mapsto> l @ ?r))"
      by (rule rest_received [OF length_mission_key _ _ i S1(1,2,3) lf refl])
         (use False n in \<open>simp_all add: len\<close>)
    then have "dl_idle S2 ((with_sidecar path (text_of 1024 (info @ replicate (1024 - length info) 0)) (dl_files S1))(path \<mapsto> l @ ?r))"
      using False unfolding S2 ans len by simp
    then show ?thesis using False pre S1(4) by (auto simp: dl_idle_def with_sidecar_def)
  qed
qed

definition example_row :: dl_row where
  "example_row = \<lparr> row_station = ''S'', row_year = 2026, row_subdir = MFS_IQ, row_code = ''A01'', row_filename = ''b'' \<rparr>"

theorem mission_download_resumes_witness:
  "\<exists>S S1 req. dl_files S (dl_path_of ''D'' example_row) = Some ''RI'' \<and>
     start_download True True True ''D'' example_row S = (S1, Some req) \<and>
     dl_files (dl_receive (mission_dl_req ''DB'' req [''DB/missions/S/2026/A01/iq/b'' \<mapsto> ''RIFF'']) S1)
       (dl_path_of ''D'' example_row) = Some ''RIFF''"
proof -
  let ?fs = "[''DB/missions/S/2026/A01/iq/b'' \<mapsto> ''RIFF'']"
  let ?S = "\<lparr> dl_files = [dl_path_of ''D'' example_row \<mapsto> ''RI''], dl_active = False, dl_fp = None, dl_filename = [],
     dl_local_path = [], dl_total = 0, dl_written = 0, dl_queue = [] \<rparr>"
  obtain S1 req where st: "start_download True True True ''D'' example_row ?S = (S1, Some req)"
    by (simp add: start_download_def Let_def)
  have k: "archive_key_ok (row_station example_row) (row_year example_row) (row_subdir example_row) (row_code example_row)
      (row_filename example_row)"
    using example_key_okay(1) by (simp add: example_row_def)
  have f: "?fs (archive_file ''DB'' (row_station example_row) (row_year example_row) (row_subdir example_row)
      (row_code example_row) (row_filename example_row)) = Some ''RIFF''"
    using example_key_okay(2) by (simp add: example_row_def)
  have l: "''RI'' = (case dl_files ?S (dl_path_of ''D'' example_row) of None \<Rightarrow> [] | Some t \<Rightarrow> t)" by simp
  have "dl_files (dl_receive (mission_dl_req ''DB'' req ?fs) S1) (dl_path_of ''D'' example_row) = Some ''RIFF''"
    using mission_download_resumes [where S = ?S and fs = ?fs and base = "''DB''" and row = example_row and downloads = "''D''",
        OF _ k f _ refl l _ st refl] by simp
  then show ?thesis using st by (intro exI [of _ ?S] exI [of _ S1] exI [of _ req]) simp
qed

end
