(* ===== verification/HistFacts.thy ===== *)
theory HistFacts
  imports HistFile
begin

text \<open>Compressing a history file loses nothing but a torn last row.\<close>

section \<open>Headers\<close>

lemma take_drop_splice_before:
  "m + n \<le> off \<Longrightarrow> off \<le> length xs \<Longrightarrow> take n (drop m (splice off ys xs)) = take n (drop m xs)"
  by (simp add: splice_def drop_take)

lemma drop_splice_after:
  "off + length ys \<le> m \<Longrightarrow> off \<le> length xs \<Longrightarrow> drop m (splice off ys xs) = drop m xs"
  by (simp add: splice_def)

lemma take_drop_splice_at:
  "off \<le> length xs \<Longrightarrow> m \<le> length ys \<Longrightarrow> n + m \<le> length ys \<Longrightarrow>
     take n (drop (off + m) (splice off ys xs)) = take n (drop m ys)"
  by (simp add: splice_def)

lemma header_offsets [simp]:
  "at_member FileHeader ''version'' h = drop 4 h"
  "at_member FileHeader ''fft_size'' h = drop 6 h"
  "at_member FileHeader ''sample_rate_hz'' h = drop 10 h"
  "at_member FileHeader ''center_freq_hz'' h = drop 18 h"
  "at_member FileHeader ''row_rate_hz'' h = drop 26 h"
  "at_member FileHeader ''db_min'' h = drop 30 h"
  "at_member FileHeader ''db_max'' h = drop 34 h"
  "at_member FileHeader ''start_utc_unix'' h = drop 38 h"
  "at_member FileHeader ''fft_input_size'' h = drop 50 h"
  "at_member FileHeader ''reserved_v3'' h = drop 100 h"
  "at_member V4Ext ''codec'' h = h"
  "at_member V4Ext ''flags'' h = drop 1 h"
  "at_member V4Ext ''block_rows'' h = drop 2 h"
  "at_member V4Ext ''num_blocks'' h = drop 6 h"
  "at_member V4Ext ''num_rows'' h = drop 10 h"
  "at_member V4Ext ''index_offset'' h = drop 18 h"
  by (simp_all add: at_member_def FileHeader_def V4Ext_def numeral_2_eq_2)

lemma v4_header_length [simp]: "length h = hdr_size \<Longrightarrow> length (v4_header h br nb rows ioff) = hdr_size"
  by (simp add: v4_header_def)

lemma raw_header_length [simp]: "length h = hdr_size \<Longrightarrow> length (raw_header h) = hdr_size"
  by (simp add: raw_header_def)

lemma take_drop_prefix: "m + n \<le> length h \<Longrightarrow> take n (drop m (h @ x)) = take n (drop m h)"
  by simp

text \<open>Fields outside the version and the extension are those of the raw header.\<close>

lemma v4_header_keeps:
  assumes "length h = hdr_size" "m + n \<le> 4 \<or> 6 \<le> m" "m + n \<le> 100"
  shows "take n (drop m (v4_header h br nb rows ioff @ x)) = take n (drop m h)"
  using assms
  by (auto simp: v4_header_def take_drop_prefix take_drop_splice_before drop_splice_after simp del: drop_append take_append)

lemma v4_header_fields:
  assumes "length h = hdr_size"
  shows "take 4 (v4_header h br nb rows ioff @ x) = take 4 h"
    "hdr_fft_size (v4_header h br nb rows ioff @ x) = hdr_fft_size h"
proof -
  show "take 4 (v4_header h br nb rows ioff @ x) = take 4 h"
    using v4_header_keeps [OF assms, of 0 4] by (simp del: take_append)
  have "take 4 (drop 6 (v4_header h br nb rows ioff @ x)) = take 4 (drop 6 h)"
    by (rule v4_header_keeps [OF assms]) simp_all
  then show "hdr_fft_size (v4_header h br nb rows ioff @ x) = hdr_fft_size h"
    by (simp only: hdr_num_def header_offsets)
qed

lemma hdr_fft_size_take [simp]: "hdr_fft_size (take hdr_size f) = hdr_fft_size f"
  by (simp add: hdr_num_def drop_take)

lemma v4_header_version:
  assumes "length h = hdr_size"
  shows "hdr_version (v4_header h br nb rows ioff @ x) = FILE_VERSION_ZSTD"
proof -
  have "take 2 (drop 4 (v4_header h br nb rows ioff @ x)) = le_bytes 2 FILE_VERSION_ZSTD"
    using assms take_drop_splice_at [of 4 h 0 "le_bytes 2 FILE_VERSION_ZSTD" 2]
    by (simp add: v4_header_def take_drop_prefix take_drop_splice_before del: drop_append take_append)
  then show ?thesis by (simp add: hdr_num_def le_nat_le_bytes FILE_VERSION_ZSTD_def)
qed

lemma v4_header_ext:
  assumes "length h = hdr_size"
  shows "v4ext ''codec'' 1 (v4_header h br nb rows ioff @ x) = HIST_CODEC_ZSTD"
    "v4ext ''flags'' 1 (v4_header h br nb rows ioff @ x) = HIST_V4_FLAG_COL_DELTA"
    "v4ext ''block_rows'' 4 (v4_header h br nb rows ioff @ x) = br mod 2 ^ 32"
    "v4ext ''num_blocks'' 4 (v4_header h br nb rows ioff @ x) = nb mod 2 ^ 32"
    "v4ext ''num_rows'' 8 (v4_header h br nb rows ioff @ x) = rows mod 2 ^ 64"
    "v4ext ''index_offset'' 8 (v4_header h br nb rows ioff @ x) = ioff mod 2 ^ 64"
  using assms
  by (simp_all add: v4ext_def v4_header_def splice_def le_nat_le_bytes HIST_CODEC_ZSTD_def HIST_V4_FLAG_COL_DELTA_def)

section \<open>Differences\<close>

lemma prefix_sums_delta [simp]: "prefix_sums acc (col_delta acc xs) = xs"
  by (induction xs arbitrary: acc) auto

lemma length_col_delta [simp]: "length (col_delta acc xs) = length xs"
  by (induction xs arbitrary: acc) auto

lemma length_prefix_sums [simp]: "length (prefix_sums acc xs) = length xs"
  by (induction xs arbitrary: acc) auto

lemma length_each_row:
  "(\<And>r. length (f r) = length r) \<Longrightarrow> length xs = n * fft \<Longrightarrow> length (each_row f n fft xs) = n * fft"
  using chunks_length [of xs n fft] by (auto simp: each_row_def intro!: length_concat_const [THEN trans])

lemma chunks_each_row:
  assumes "\<And>r. length (f r) = length r" "length xs = n * fft"
  shows "chunks n fft (each_row f n fft xs) = map f (chunks n fft xs)"
  using chunks_concat [of "map f (chunks n fft xs)" fft] chunks_length [OF assms(2)] assms(1)
  by (simp add: each_row_def)

lemma each_row_inverse:
  assumes "\<And>r. g (f r) = r" "\<And>r. length (f r) = length r" "length xs = n * fft"
  shows "each_row g n fft (each_row f n fft xs) = xs"
proof -
  have "map g (map f (chunks n fft xs)) = chunks n fft xs" by (simp add: assms(1) map_idI)
  then show ?thesis
    unfolding each_row_def [of g] chunks_each_row [OF assms(2,3)] using concat_chunks [OF assms(3)] by simp
qed

section \<open>Blocks\<close>

definition zstd_ok :: "zstd \<Rightarrow> bool" where
  "zstd_ok Z \<longleftrightarrow> (\<forall>b z n. z_compress Z b = Some z \<longrightarrow> length b \<le> n \<longrightarrow> z_decompress Z n z = Some b)"

lemma zstd_okD: "zstd_ok Z \<Longrightarrow> z_compress Z b = Some z \<Longrightarrow> length b \<le> n \<Longrightarrow> z_decompress Z n z = Some b"
  by (simp add: zstd_ok_def)

definition lies_at :: "bytes \<Rightarrow> nat \<Rightarrow> bytes \<Rightarrow> bool" where
  "lies_at f off b \<longleftrightarrow> take (length b) (drop off f) = b \<and> off + length b < 2 ^ 32"

lemma lies_at_append:
  "lies_at f off (a @ b) \<longleftrightarrow> lies_at f off a \<and> lies_at f (off + length a) b"
proof -
  let ?A = "take (length a) (drop off f)" and ?B = "take (length b) (drop (off + length a) f)"
  have "?A @ ?B = a @ b \<longleftrightarrow> ?A = a \<and> ?B = b"
  proof
    assume e: "?A @ ?B = a @ b"
    then have "length ?A + length ?B = length a + length b" by (metis length_append)
    then have "length ?A = length a" by simp
    then show "?A = a \<and> ?B = b" using e append_eq_append_conv [of ?A a ?B b] by blast
  qed simp
  then show ?thesis by (auto simp: lies_at_def take_add add.commute)
qed

lemma read_lies_at: "lies_at f off b \<Longrightarrow> read_at f off (length b mod 2 ^ 32) = Some b"
  by (auto simp: lies_at_def read_at_def Let_def dest: arg_cong [where f = length])

lemma blocks_count: "0 < br \<Longrightarrow> (rows + br - 1) div br = Suc nb \<Longrightarrow> (rows - br + br - 1) div br = nb" for br :: nat
proof -
  assume a: "0 < br" "(rows + br - 1) div br = Suc nb"
  have r: "0 < rows" using a by (cases rows) auto
  show ?thesis
  proof (cases "br \<le> rows")
    case True
    have "(rows + br - 1) div br = Suc ((rows - 1) div br)"
      using a(1) r div_add_self2 [of br "rows - 1"] by simp
    then show ?thesis using a True by simp
  next
    case False
    then have "(rows + br - 1) div br = 1" using a(1) r div_add_self2 [of br "rows - 1"] by simp
    then show ?thesis using a False by simp
  qed
qed

lemma compress_blocks_index:
  "compress_blocks Z fft br nb rows off body = Some (frames, index) \<Longrightarrow> length index = nb"
  by (induction Z fft br nb rows off body arbitrary: frames index rule: compress_blocks.induct)
    (auto simp: Let_def split: option.splits)

text \<open>Every block of the index holds the rows with its numbers.\<close>

definition block_of :: "zstd \<Rightarrow> nat \<Rightarrow> nat \<Rightarrow> nat \<Rightarrow> bytes \<Rightarrow> bytes \<Rightarrow> nat \<Rightarrow> hist_block \<Rightarrow> bool" where
  "block_of Z fft br rows body f b e \<longleftrightarrow>
     raw_rows e = min br (rows - b * br) \<and> frame_offset e < 2 ^ 32 \<and> comp_len e < 2 ^ 32 \<and>
     (\<exists>c. read_at f (frame_offset e) (comp_len e) = Some c \<and>
        z_compress Z (each_row (col_delta 0) (raw_rows e) fft (take (raw_rows e * fft) (drop (b * br * fft) body))) = Some c)"

lemma block_of_shift:
  "block_of Z fft br (rows - br) (drop (br * fft) body) f k e \<longleftrightarrow> block_of Z fft br rows body f (Suc k) e"
  by (simp add: block_of_def algebra_simps)

lemma compress_blocks_nth:
  assumes "compress_blocks Z fft br nb rows off body = Some (frames, index)" "lies_at f off frames" "b < nb"
    and "0 < br" "rows \<le> nb * br" "(nb - 1) * br < rows"
  shows "block_of Z fft br rows body f b (index ! b)"
  using assms
proof (induction Z fft br nb rows off body arbitrary: frames index b rule: compress_blocks.induct)
  case (2 Z fft br nb rows off body)
  let ?n = "min br rows"
  obtain z frames' index' where z: "z_compress Z (each_row (col_delta 0) ?n fft (take (?n * fft) body)) = Some z"
    and r: "compress_blocks Z fft br nb (rows - ?n) (off + length z) (drop (?n * fft) body) = Some (frames', index')"
    and e: "frames = z @ frames'" "index = \<lparr> frame_offset = off, comp_len = length z mod 2 ^ 32, raw_rows = ?n \<rparr> # index'"
    using 2(2) by (auto simp: Let_def split: option.splits)
  have l: "lies_at f off z" "lies_at f (off + length z) frames'" using 2(3) e(1) by (simp_all add: lies_at_append)
  show ?case
  proof (cases b)
    case 0
    then show ?thesis using z e(2) l(1) read_lies_at [OF l(1)] by (simp add: block_of_def lies_at_def)
  next
    case (Suc k)
    then have nb: "0 < nb" and k: "k < nb" using 2(4) by auto
    obtain nb' where nb': "nb = Suc nb'" using nb by (cases nb) auto
    have n: "?n = br" using 2(7) nb' by simp
    have "block_of Z fft br (rows - ?n) (drop (?n * fft) body) f k (index' ! k)"
      using 2(7) 2(6) nb' n by (intro 2(1) [OF refl refl z r l(2) k 2(5)]) simp_all
    then show ?thesis using Suc e(2) n by (simp add: block_of_shift)
  qed
qed simp

lemma decompress_compressed:
  assumes "compress_blocks Z fft br nb rows off body = Some (frames, index)" "lies_at f off frames" "zstd_ok Z"
    and "0 < br" "nb = (rows + br - 1) div br" "rows * fft \<le> length body"
  shows "decompress_blocks Z fft br True f index = Some (take (rows * fft) body)"
  using assms
proof (induction Z fft br nb rows off body arbitrary: frames index rule: compress_blocks.induct)
  case (1 Z fft br rows off body)
  then have "rows = 0" by (cases rows) (auto simp: div_eq_0_iff)
  then show ?case using 1 by simp
next
  case (2 Z fft br nb rows off body)
  let ?n = "min br rows" and ?r = "take (min br rows * fft) body"
  obtain z frames' index' where z: "z_compress Z (each_row (col_delta 0) ?n fft ?r) = Some z"
    and r: "compress_blocks Z fft br nb (rows - ?n) (off + length z) (drop (?n * fft) body) = Some (frames', index')"
    and e: "frames = z @ frames'" "index = \<lparr> frame_offset = off, comp_len = length z mod 2 ^ 32, raw_rows = ?n \<rparr> # index'"
    using 2(2) by (auto simp: Let_def split: option.splits)
  have l: "lies_at f off z" "lies_at f (off + length z) frames'" using 2(3) e(1) by (simp_all add: lies_at_append)
  have rows: "0 < rows" using 2(5,6) by (cases rows) auto
  have len: "length ?r = ?n * fft" using order_trans [OF mult_le_mono1 [OF min.cobounded2] 2(7)] by simp
  have le: "length (each_row (col_delta 0) ?n fft ?r) = ?n * fft" by (rule length_each_row) (use len in simp_all)
  have d: "z_decompress Z (br * fft) z = Some (each_row (col_delta 0) ?n fft ?r)"
    by (rule zstd_okD [OF 2(4) z]) (simp add: le)
  have "decompress_blocks Z fft br True f index' = Some (take ((rows - ?n) * fft) (drop (?n * fft) body))"
  proof (rule 2(1) [OF refl refl z r l(2) 2(4,5)])
    show "nb = (rows - ?n + br - 1) div br"
      using blocks_count [of br rows nb] 2(5,6) by (cases "br \<le> rows") auto
    show "(rows - ?n) * fft \<le> length (drop (?n * fft) body)"
      using 2(7) by (simp add: diff_mult_distrib)
  qed
  moreover have "each_row (prefix_sums 0) ?n fft (each_row (col_delta 0) ?n fft ?r) = ?r"
    by (rule each_row_inverse) (use len in simp_all)
  moreover have "?r @ take ((rows - ?n) * fft) (drop (?n * fft) body) = take (rows * fft) body"
    by (simp add: take_add [symmetric] diff_mult_distrib flip: min_mult_distrib_right)
  ultimately show ?case
    using e(2) d le rows 2(5) read_lies_at [OF l(1)] by simp
qed

section \<open>Whole files\<close>

definition hist_rows :: "bytes \<Rightarrow> nat" where
  "hist_rows f = length (drop hdr_size f) div hdr_fft_size f"

lemma block_rows_range: "64 \<le> hist_default_block_rows fft \<and> hist_default_block_rows fft \<le> 1024"
  by (simp add: hist_default_block_rows_def)

lemma length_block_bytes [simp]: "length (block_bytes e) = 16"
  by (simp add: block_bytes_def)

lemma block_at_bytes:
  "frame_offset e < 2 ^ 64 \<Longrightarrow> comp_len e < 2 ^ 32 \<Longrightarrow> raw_rows e < 2 ^ 32 \<Longrightarrow> block_at (block_bytes e) = e"
  by (simp add: block_at_def block_bytes_def le_nat_le_bytes)

lemma length_index: "length (concat (map block_bytes index)) = length index * 16"
  by (induction index) auto

text \<open>What a compressed file holds.\<close>

definition compressed :: "zstd \<Rightarrow> bytes \<Rightarrow> bytes \<Rightarrow> nat \<Rightarrow> nat \<Rightarrow> hist_block list \<Rightarrow> bool" where
  "compressed Z f c br ioff index \<longleftrightarrow>
     has_magic c \<and> hdr_version c = FILE_VERSION_ZSTD \<and> hdr_fft_size c = hdr_fft_size f \<and> 0 < hdr_fft_size f \<and>
     v4ext ''codec'' 1 c = HIST_CODEC_ZSTD \<and> v4ext ''flags'' 1 c = HIST_V4_FLAG_COL_DELTA \<and>
     v4ext ''block_rows'' 4 c = br \<and> 0 < br \<and> v4ext ''num_blocks'' 4 c = length index \<and> index \<noteq> [] \<and>
     ext_num_rows c = hist_rows f \<and> v4ext ''index_offset'' 8 c = ioff \<and> hdr_size \<le> ioff \<and>
     ioff + length index * 16 = length c \<and> length c < 2 ^ 32 \<and>
     read_index c ioff (length index) = Some index \<and>
     length index = (hist_rows f + br - 1) div br \<and>
     (\<forall>b<length index. block_of Z (hdr_fft_size f) br (hist_rows f) (drop hdr_size f) c b (index ! b))"

lemma compress_parts:
  assumes "compress_hist_file Z f = Some c"
  obtains frames index where
    "has_magic f" "hdr_version f = FILE_VERSION" "0 < hdr_fft_size f" "0 < hist_rows f"
    "compress_blocks Z (hdr_fft_size f) (hist_default_block_rows (hdr_fft_size f))
       (((hist_rows f + hist_default_block_rows (hdr_fft_size f) - 1) div hist_default_block_rows (hdr_fft_size f)) mod 2 ^ 32)
       (hist_rows f) hdr_size (drop hdr_size f) = Some (frames, index)"
    "c = v4_header (take hdr_size f) (hist_default_block_rows (hdr_fft_size f))
       (((hist_rows f + hist_default_block_rows (hdr_fft_size f) - 1) div hist_default_block_rows (hdr_fft_size f)) mod 2 ^ 32)
       (hist_rows f) (hdr_size + length frames) @ frames @ concat (map block_bytes index)"
  using assms that unfolding compress_hist_file_def hist_rows_def
  by (auto simp: Let_def split: if_splits option.splits)

lemma blocks_cover: "0 < br \<Longrightarrow> n \<le> (n + br - 1) div br * br" for br :: nat
  using dividend_less_times_div [of br "n + br - 1"] by (simp add: mult.commute)

lemma blocks_needed: "0 < br \<Longrightarrow> 0 < n \<Longrightarrow> ((n + br - 1) div br - 1) * br < n" for br :: nat
proof -
  assume a: "0 < br" "0 < n"
  have "(n + br - 1) div br = Suc ((n - 1) div br)" using a div_add_self2 [of br "n - 1"] by simp
  then have "((n + br - 1) div br - 1) * br = (n - 1) div br * br" by simp
  also have "\<dots> \<le> n - 1" by (rule div_times_less_eq_dividend)
  also have "\<dots> < n" using a(2) by simp
  finally show ?thesis .
qed

lemma power_of_32: "(2 :: nat) ^ 32 = 4294967296"
  by simp

lemma compress_compressed:
  assumes "compress_hist_file Z f = Some c" "length f < 2 ^ 32" "length c < 2 ^ 32"
  shows "\<exists>frames index. compressed Z f c (hist_default_block_rows (hdr_fft_size f)) (hdr_size + length frames) index \<and>
     lies_at c hdr_size frames \<and>
     compress_blocks Z (hdr_fft_size f) (hist_default_block_rows (hdr_fft_size f)) (length index) (hist_rows f) hdr_size
       (drop hdr_size f) = Some (frames, index) \<and>
     (\<exists>ext. c = v4_header (take hdr_size f) (hist_default_block_rows (hdr_fft_size f)) (length index) (hist_rows f)
        (hdr_size + length frames) @ ext)"
proof -
  let ?fft = "hdr_fft_size f" and ?br = "hist_default_block_rows (hdr_fft_size f)" and ?rows = "hist_rows f"
    and ?h = "take hdr_size f"
  let ?nb = "(?rows + ?br - 1) div ?br"
  have br: "0 < ?br" "?br < 2 ^ 32" using block_rows_range [of ?fft] by simp_all
  obtain frames index where m: "has_magic f" "0 < ?fft" and rows: "0 < ?rows"
    and cb: "compress_blocks Z ?fft ?br (?nb mod 2 ^ 32) ?rows hdr_size (drop hdr_size f) = Some (frames, index)"
    and c: "c = v4_header ?h ?br (?nb mod 2 ^ 32) ?rows (hdr_size + length frames) @ frames @ concat (map block_bytes index)"
    using compress_parts [OF assms(1)] by metis
  have h: "length ?h = hdr_size" using m(1) by (simp add: has_magic_def)
  have "?rows \<le> length f" unfolding hist_rows_def by (rule order_trans [OF div_le_dividend]) simp
  then have r: "?rows < 2 ^ 32" using assms(2) by simp
  have "?nb * 64 \<le> ?nb * ?br" using block_rows_range [of ?fft] by (intro mult_le_mono2) simp
  also have "\<dots> \<le> ?rows + ?br - 1" by (rule div_times_less_eq_dividend)
  finally have nb: "?nb < 2 ^ 32" using r block_rows_range [of ?fft] power_of_32 by linarith
  have li: "length index = ?nb" using compress_blocks_index [OF cb] nb by simp
  have len: "length c = hdr_size + length frames + length index * 16" using c h length_index [of index] by simp
  have fr: "lies_at c hdr_size frames" using c h assms(3) len by (simp add: lies_at_def)
  have blocks: "block_of Z ?fft ?br ?rows (drop hdr_size f) c b (index ! b)" if "b < length index" for b
    using compress_blocks_nth [OF cb fr] that li nb br(1) blocks_cover [OF br(1), of ?rows]
      blocks_needed [OF br(1) rows] by simp
  have "map block_at (chunks (length index) 16 (concat (map block_bytes index))) = index"
  proof -
    have "chunks (length index) 16 (concat (map block_bytes index)) = map block_bytes index"
      using chunks_concat [of "map block_bytes index" 16] by simp
    moreover have "block_at (block_bytes e) = e" if e: "e \<in> set index" for e
    proof -
      obtain b where "b < length index" "e = index ! b" using e by (auto simp: in_set_conv_nth)
      then show ?thesis using blocks [of b] br(2) by (intro block_at_bytes) (auto simp: block_of_def)
    qed
    ultimately show ?thesis by (simp add: map_idI)
  qed
  then have ri: "read_index c (hdr_size + length frames) (length index) = Some index"
    using c h len assms(3) length_index [of index] by (simp add: read_index_def read_at_def Let_def)
  have "index \<noteq> []" using li rows br(1) by (auto simp: div_eq_0_iff)
  moreover have "has_magic c"
    using v4_header_fields(1) [OF h] m(1) len c by (simp add: has_magic_def del: take_append)
  moreover have "hdr_fft_size c = ?fft"
    using v4_header_fields(2) [OF h] c by (simp only: hdr_fft_size_take)
  ultimately have "compressed Z f c ?br (hdr_size + length frames) index"
    using m(2) br r nb li len assms(3) ri blocks c v4_header_version [OF h] v4_header_ext [OF h]
    by (simp add: compressed_def)
  moreover have "?nb mod 2 ^ 32 = length index" using li nb by simp
  ultimately show ?thesis using fr cb c by (intro exI [of _ frames] exI [of _ index]) auto
qed

lemma raw_v4_header:
  "length h = hdr_size \<Longrightarrow> raw_header (v4_header h br nb rows ioff) = raw_header h"
  by (simp add: raw_header_def v4_header_def splice_def drop_take min_def add.commute)

lemma raw_header_same:
  assumes "length h = hdr_size" "hdr_version h = FILE_VERSION" "drop 100 h = replicate 28 0"
  shows "raw_header h = h"
proof -
  have "le_bytes 2 FILE_VERSION = take 2 (drop 4 h)"
    using assms(1,2) le_bytes_le_nat [of "take 2 (drop 4 h)" 2] by (simp add: hdr_num_def)
  then have "splice 4 (le_bytes 2 FILE_VERSION) h = take 4 h @ take 2 (drop 4 h) @ drop 6 h"
    using assms(1) by (simp add: splice_def)
  also have "take 2 (drop 4 h) @ drop 6 h = drop 4 h" using append_take_drop_id [of 2 "drop 4 h"] by simp
  also have "take 4 h @ drop 4 h = h" by (rule append_take_drop_id)
  finally show ?thesis using assms(1,3) by (simp add: raw_header_def splice_def flip: assms(3))
qed

lemma hdr_version_take [simp]: "hdr_version (take hdr_size f) = hdr_version f"
  by (simp add: hdr_num_def drop_take)

lemma decompress_compressed_file:
  assumes "compressed Z f c br ioff index"
  shows "decompress_hist_file Z c = map_option ((@) (raw_header (take hdr_size c)))
     (decompress_blocks Z (hdr_fft_size f) br True c index)"
proof -
  have "v4ext ''num_blocks'' 4 c = length index" "index \<noteq> []" "0 < br" "0 < hdr_fft_size f" "0 < ioff"
    "v4ext ''codec'' 1 c = HIST_CODEC_ZSTD" "v4ext ''flags'' 1 c = HIST_V4_FLAG_COL_DELTA" "has_magic c"
    "hdr_version c = FILE_VERSION_ZSTD" "hdr_fft_size c = hdr_fft_size f" "v4ext ''block_rows'' 4 c = br"
    "v4ext ''index_offset'' 8 c = ioff" "read_index c ioff (length index) = Some index"
    using assms by (auto simp: compressed_def)
  then show ?thesis by (simp add: decompress_hist_file_def Let_def HIST_V4_FLAG_COL_DELTA_def)
qed

lemma hist_compress_inverse:
  assumes "zstd_ok Z" "compress_hist_file Z f = Some c" "length f < 2 ^ 32" "length c < 2 ^ 32"
    and "take 28 (drop 100 f) = replicate 28 0"
  shows "decompress_hist_file Z c = Some (take (hdr_size + hist_rows f * hdr_fft_size f) f) \<and>
    ext_num_rows c = hist_rows f \<and> length f < hdr_size + Suc (hist_rows f) * hdr_fft_size f"
proof -
  let ?fft = "hdr_fft_size f" and ?br = "hist_default_block_rows (hdr_fft_size f)" and ?h = "take hdr_size f"
  obtain frames index ext where c: "compressed Z f c ?br (hdr_size + length frames) index" and fr: "lies_at c hdr_size frames"
    and cb: "compress_blocks Z ?fft ?br (length index) (hist_rows f) hdr_size (drop hdr_size f) = Some (frames, index)"
    and ce: "c = v4_header ?h ?br (length index) (hist_rows f) (hdr_size + length frames) @ ext"
    using compress_compressed [OF assms(2-4)] by metis
  have m: "has_magic f" "hdr_version f = FILE_VERSION" using assms(2) by (auto simp: compress_hist_file_def split: if_splits)
  have h: "length ?h = hdr_size" using m(1) by (simp add: has_magic_def)
  have le: "hist_rows f * ?fft \<le> length (drop hdr_size f)" by (simp add: hist_rows_def)
  have "decompress_blocks Z ?fft ?br True c index = Some (take (hist_rows f * ?fft) (drop hdr_size f))"
    using c by (intro decompress_compressed [OF cb fr assms(1) _ _ le]) (simp_all add: compressed_def)
  moreover have "raw_header (take hdr_size c) = ?h"
    using ce h raw_v4_header [OF h] raw_header_same [OF h] m(2) assms(5) by (simp add: drop_take)
  ultimately have "decompress_hist_file Z c = Some (?h @ take (hist_rows f * ?fft) (drop hdr_size f))"
    by (simp add: decompress_compressed_file [OF c])
  moreover have "length (drop hdr_size f) < Suc (hist_rows f) * ?fft"
    using c dividend_less_times_div [of ?fft "length (drop hdr_size f)"]
    by (simp add: hist_rows_def compressed_def mult.commute)
  ultimately show ?thesis using c h by (simp add: take_add compressed_def)
qed

text \<open>
  C23: compressing a history file loses nothing.  Decompressing the compressed file gives the
  header and every complete row of the raw file, byte for byte, and only what was left of a torn
  last row is gone; the number of rows it claims is the number of rows it holds.
\<close>

theorem hist_compress_round_trip:
  assumes "zstd_ok Z" "compress_hist_file Z f = Some c" "length f < 2 ^ 32" "length c < 2 ^ 32"
    and "take 28 (drop 100 f) = replicate 28 0"
  shows "decompress_hist_file Z c = Some (take (hdr_size + hist_rows f * hdr_fft_size f) f) \<and>
    ext_num_rows c = hist_rows f \<and> length f < hdr_size + Suc (hist_rows f) * hdr_fft_size f"
  by (rule hist_compress_inverse [OF assms])

text \<open>A file of two rows and half a row, with a compressor that stores.\<close>

definition stored :: zstd where
  "stored = \<lparr> z_compress = Some, z_decompress = (\<lambda>n z. if length z \<le> n then Some z else None) \<rparr>"

lemma stored_ok: "zstd_ok stored"
  by (simp add: zstd_ok_def stored_def)

definition small_hist :: bytes where
  "small_hist = bytes_of ''BWWF'' @ [3, 0, 4, 0, 0, 0] @ replicate 118 0 @ [10, 20, 15, 15, 1, 2, 3, 4, 9, 9]"

lemma small_hist_facts:
  "length small_hist = 138" "has_magic small_hist" "hdr_version small_hist = FILE_VERSION" "hdr_fft_size small_hist = 4"
  "hist_rows small_hist = 2"
  by (simp_all add: small_hist_def has_magic_def bytes_of_def hdr_num_def FILE_VERSION_def hist_rows_def)

lemma small_hist_compressed:
  "\<exists>c. compress_hist_file stored small_hist = Some c \<and> length c = 152"
proof -
  have "length (each_row (col_delta 0) 2 4 (take 8 (drop hdr_size small_hist))) = 8"
    using length_each_row [of "col_delta 0" "take 8 (drop hdr_size small_hist)" 2 4] small_hist_facts(1) by simp
  then show ?thesis
    using small_hist_facts
    by (simp add: compress_hist_file_def Let_def hist_default_block_rows_def stored_def)
qed

theorem hist_compress_round_trip_witness:
  "\<exists>c. compress_hist_file stored small_hist = Some c \<and> decompress_hist_file stored c = Some (take 136 small_hist)"
proof -
  obtain c where c: "compress_hist_file stored small_hist = Some c" "length c = 152"
    using small_hist_compressed by blast
  have "take 28 (drop 100 small_hist) = replicate 28 0"
    by (simp add: small_hist_def bytes_of_def)
  then show ?thesis
    using hist_compress_round_trip [OF stored_ok c(1)] c small_hist_facts by simp
qed

end
