(* ===== verification/HistReader.thy ===== *)
theory HistReader
  imports HistFacts
begin

text \<open>
  The reader of history files, \<^verbatim>\<open>src/hist_reader.cpp\<close>: random access to rows of raw and
  compressed files, with a cache of one decompressed block and an optional copy of all rows.  A
  reader keeps the content of its file; reading outside of a mapped file is the value
  \<^verbatim>\<open>OutOfBounds\<close>.
\<close>

section \<open>State\<close>

datatype 'a access = Value 'a | Failed | OutOfBounds

record hist_reader =
  hr_file :: bytes
  hr_mapped :: bool
  hr_fft :: nat
  num_rows :: nat
  is_v4 :: bool
  v4_flags :: nat
  block_rows :: nat
  hr_index :: "hist_block list"
  cache_block :: "nat option"
  cache_buf :: bytes
  full :: "bytes option"

definition full_ready :: "hist_reader \<Rightarrow> bool" where
  "full_ready R \<longleftrightarrow> (case full R of None \<Rightarrow> False | Some b \<Rightarrow> b \<noteq> [])"

section \<open>Opening\<close>

definition read_header :: "bytes \<Rightarrow> (bytes \<times> nat) option" where
  "read_header f =
     (if \<not> has_magic f \<or> (hdr_version f \<noteq> FILE_VERSION \<and> hdr_version f \<noteq> FILE_VERSION_ZSTD) then None
      else Some (take hdr_size f, length f))"

text \<open>The size of the rows of a raw file, in 64 bits.\<close>

definition body_size :: "nat \<Rightarrow> nat" where
  "body_size n = (n + 2 ^ 64 - hdr_size) mod 2 ^ 64"

definition rows_from_header :: "bytes \<Rightarrow> nat \<Rightarrow> nat" where
  "rows_from_header h file_size =
     (if hdr_version h = FILE_VERSION_ZSTD then ext_num_rows h
      else if hdr_fft_size h = 0 then 0 else body_size file_size div hdr_fft_size h)"

text \<open>Bytes of the mapping under the 64-bit test \<^verbatim>\<open>off + n <= map_size_\<close>, or of the stream.\<close>

definition file_bytes :: "bool \<Rightarrow> bytes \<Rightarrow> nat \<Rightarrow> nat \<Rightarrow> bytes access" where
  "file_bytes mapped f off n =
     (if mapped \<and> (off + n) mod 2 ^ 64 \<le> length f
      then (if off + n \<le> length f then Value (take n (drop off f)) else OutOfBounds)
      else case read_at f off n of None \<Rightarrow> Failed | Some b \<Rightarrow> Value b)"

definition hist_open :: "bool \<Rightarrow> bytes \<Rightarrow> hist_reader access" where
  "hist_open mapped f =
     (if \<not> has_magic f \<or> (hdr_version f \<noteq> FILE_VERSION \<and> hdr_version f \<noteq> FILE_VERSION_ZSTD) \<or> hdr_fft_size f = 0
      then Failed
      else let fft = hdr_fft_size f;
               R = \<lparr> hr_file = f, hr_mapped = mapped, hr_fft = fft, num_rows = 0, is_v4 = False, v4_flags = 0,
                     block_rows = 0, hr_index = [], cache_block = None, cache_buf = [], full = None \<rparr>
      in if hdr_version f = FILE_VERSION_ZSTD
         then let nb = v4ext ''num_blocks'' 4 f; ioff = v4ext ''index_offset'' 8 f; need = nb * 16
              in if v4ext ''codec'' 1 f \<noteq> HIST_CODEC_ZSTD \<or> v4ext ''block_rows'' 4 f = 0 \<or> nb = 0 \<or>
                    ioff < hdr_size \<or> (ioff + need) mod 2 ^ 64 > length f
                 then Failed
                 else case file_bytes mapped f ioff need of
                        Value b \<Rightarrow> Value (R\<lparr> is_v4 := True, v4_flags := v4ext ''flags'' 1 f,
                          block_rows := v4ext ''block_rows'' 4 f, num_rows := ext_num_rows f mod 2 ^ 32,
                          hr_index := map block_at (chunks nb 16 b) \<rparr>)
                      | Failed \<Rightarrow> Failed | OutOfBounds \<Rightarrow> OutOfBounds
         else Value (R\<lparr> num_rows := ((length f - hdr_size) div fft) mod 2 ^ 32 \<rparr>))"

text \<open>A file that is still being written has grown to \<^verbatim>\<open>f\<close>.\<close>

definition refresh_live :: "bytes \<Rightarrow> hist_reader \<Rightarrow> bool \<times> hist_reader" where
  "refresh_live f R =
     (if is_v4 R \<or> length f = length (hr_file R) then (False, R)
      else let n = (body_size (length f) div hr_fft R) mod 2 ^ 32
           in (n \<noteq> num_rows R, R\<lparr> hr_file := f, num_rows := n \<rparr>))"

section \<open>Rows\<close>

text \<open>\<^verbatim>\<open>row[i] += row[i - 1]\<close> in place.\<close>

definition undelta_row :: "bytes \<Rightarrow> bytes" where
  "undelta_row row = foldl (\<lambda>r i. r[i := r ! i + r ! (i - 1)]) row [1..<length row]"

definition load_block :: "zstd \<Rightarrow> nat \<Rightarrow> hist_reader \<Rightarrow> unit access \<times> hist_reader" where
  "load_block Z b R =
     (if b \<ge> length (hr_index R) then (Failed, R)
      else let e = hr_index R ! b; fft = hr_fft R; cap = block_rows R * fft; want = raw_rows e * fft
           in case file_bytes (hr_mapped R) (hr_file R) (frame_offset e) (comp_len e) of
                Failed \<Rightarrow> (Failed, R) | OutOfBounds \<Rightarrow> (OutOfBounds, R)
              | Value c \<Rightarrow>
                  (case z_decompress Z cap c of
                     None \<Rightarrow> (Failed, R\<lparr> cache_block := None \<rparr>)
                   | Some d \<Rightarrow>
                       if length d \<noteq> want then (Failed, R\<lparr> cache_block := None \<rparr>)
                       else let old = cache_buf R @ replicate (cap - length (cache_buf R)) 0;
                                d' = (if odd (v4_flags R div HIST_V4_FLAG_COL_DELTA)
                                      then each_row undelta_row (raw_rows e) fft d else d)
                            in (Value (), R\<lparr> cache_buf := d' @ drop want old, cache_block := Some b \<rparr>)))"

definition get_row :: "zstd \<Rightarrow> nat \<Rightarrow> hist_reader \<Rightarrow> bytes access \<times> hist_reader" where
  "get_row Z r R =
     (let fft = hr_fft R in
      if fft = 0 \<or> r \<ge> num_rows R then (Failed, R)
      else if \<not> is_v4 R then (file_bytes (hr_mapped R) (hr_file R) (hdr_size + r * fft) fft, R)
      else if full_ready R
      then (case full R of
              Some b \<Rightarrow> (if r * fft + fft \<le> length b then Value (take fft (drop (r * fft) b)) else Failed, R)
            | None \<Rightarrow> (Failed, R))
      else if block_rows R = 0 then (Failed, R)
      else let b = r div block_rows R
           in case (if cache_block R = Some b then (Value (), R) else load_block Z b R) of
                (Value _, R) \<Rightarrow> (Value (take fft (drop ((r - b * block_rows R) * fft) (cache_buf R))), R)
              | (Failed, R) \<Rightarrow> (Failed, R) | (OutOfBounds, R) \<Rightarrow> (OutOfBounds, R))"

fun read_rows :: "('s \<Rightarrow> 'r \<times> 's) list \<Rightarrow> 's \<Rightarrow> 'r list \<times> 's" where
  "read_rows [] s = ([], s)"
| "read_rows (g # gs) s = (case g s of (x, s) \<Rightarrow> (case read_rows gs s of (xs, s) \<Rightarrow> (x # xs, s)))"

definition get_rows :: "zstd \<Rightarrow> nat list \<Rightarrow> hist_reader \<Rightarrow> bytes access list \<times> hist_reader" where
  "get_rows Z rs R = read_rows (map (get_row Z) rs) R"

text \<open>The rows in one buffer; the first row that cannot be read ends the loop.\<close>

fun preload_rows :: "zstd \<Rightarrow> nat list \<Rightarrow> hist_reader \<Rightarrow> bytes access \<times> hist_reader" where
  "preload_rows Z [] R = (Value [], R)"
| "preload_rows Z (r # rs) R =
     (case get_row Z r R of
        (Value row, R) \<Rightarrow>
          (case preload_rows Z rs R of
             (Value b, R) \<Rightarrow> (Value (row @ b), R) | (Failed, R) \<Rightarrow> (Failed, R) | (OutOfBounds, R) \<Rightarrow> (OutOfBounds, R))
      | (Failed, R) \<Rightarrow> (Failed, R) | (OutOfBounds, R) \<Rightarrow> (OutOfBounds, R))"

definition preload_full :: "zstd \<Rightarrow> nat \<Rightarrow> hist_reader \<Rightarrow> bool access \<times> hist_reader" where
  "preload_full Z max_bytes R =
     (if \<not> is_v4 R \<or> full_ready R then (Value (full_ready R), R)
      else if num_rows R = 0 \<or> hr_fft R = 0 \<or> num_rows R * hr_fft R > max_bytes then (Value False, R)
      else case preload_rows Z [0..<num_rows R] R of
             (Value b, R) \<Rightarrow> (Value True, R\<lparr> full := Some b, cache_buf := [], cache_block := None \<rparr>)
           | (Failed, R) \<Rightarrow> (Value False, R) | (OutOfBounds, R) \<Rightarrow> (OutOfBounds, R))"

text \<open>A copy for another thread: it shares the rows in memory and has a cache of its own.\<close>

definition clone_for_thread :: "hist_reader \<Rightarrow> hist_reader" where
  "clone_for_thread R = R\<lparr> cache_block := None, cache_buf := [] \<rparr>"

section \<open>Readers\<close>

text \<open>
  What a client may rely on: a reader stands for a function from row numbers to results, and
  reading returns its value and leaves a reader for the same function.
\<close>

locale row_reader =
  fixes get :: "nat \<Rightarrow> 's \<Rightarrow> 'r \<times> 's"
    and stands_for :: "'s \<Rightarrow> (nat \<Rightarrow> 'r) \<Rightarrow> bool"
  assumes get_value: "stands_for s rows \<Longrightarrow> fst (get r s) = rows r"
    and get_keeps: "stands_for s rows \<Longrightarrow> stands_for (snd (get r s)) rows"
begin

lemma read_values: "stands_for s rows \<Longrightarrow> fst (read_rows (map get rs) s) = map rows rs"
proof (induction rs arbitrary: s)
  case (Cons r rs)
  show ?case using Cons.IH [OF get_keeps [OF Cons.prems, of r]] get_value [OF Cons.prems, of r]
    by (simp add: case_prod_beta)
qed simp

lemma read_keeps: "stands_for s rows \<Longrightarrow> stands_for (snd (read_rows (map get rs) s)) rows"
proof (induction rs arbitrary: s)
  case (Cons r rs)
  show ?case using Cons.IH [OF get_keeps [OF Cons.prems, of r]] by (simp add: case_prod_beta)
qed simp

end

text \<open>The rows of a raw file.\<close>

definition hist_row :: "bytes \<Rightarrow> nat \<Rightarrow> bytes access" where
  "hist_row f r = (if r < hist_rows f then Value (take (hdr_fft_size f) (drop (hdr_size + r * hdr_fft_size f) f)) else Failed)"

definition raw_reader :: "hist_reader \<Rightarrow> (nat \<Rightarrow> bytes access) \<Rightarrow> bool" where
  "raw_reader R rows \<longleftrightarrow> \<not> is_v4 R \<and> 0 < hr_fft R \<and> hr_fft R = hdr_fft_size (hr_file R) \<and>
     num_rows R = hist_rows (hr_file R) \<and> hdr_size \<le> length (hr_file R) \<and> length (hr_file R) < 2 ^ 32 \<and>
     rows = hist_row (hr_file R)"

lemma row_in_file: "0 < hdr_fft_size f \<Longrightarrow> hdr_size \<le> length f \<Longrightarrow> r < hist_rows f \<Longrightarrow>
   hdr_size + r * hdr_fft_size f + hdr_fft_size f \<le> length f"
proof -
  assume a: "0 < hdr_fft_size f" "hdr_size \<le> length f" "r < hist_rows f"
  have "Suc r * hdr_fft_size f \<le> hist_rows f * hdr_fft_size f" using a(3) by (intro mult_le_mono1) simp
  also have "\<dots> \<le> length f - hdr_size" by (simp add: hist_rows_def)
  finally show ?thesis using a(2) by simp
qed

lemma file_bytes_in: "off + n \<le> length f \<Longrightarrow> length f < 2 ^ 32 \<Longrightarrow> file_bytes m f off n = Value (take n (drop off f))"
  by (simp add: file_bytes_def read_at_def Let_def)

interpretation raw: row_reader "get_row Z" raw_reader for Z
proof
  fix s :: hist_reader and rows r
  assume s: "raw_reader s rows"
  then show "fst (get_row Z r s) = rows r"
    using row_in_file [of "hr_file s" r] file_bytes_in [of "hdr_size + r * hr_fft s" "hr_fft s" "hr_file s"]
    by (auto simp: get_row_def raw_reader_def hist_row_def Let_def)
  show "raw_reader (snd (get_row Z r s)) rows" using s by (auto simp: get_row_def raw_reader_def Let_def)
qed

section \<open>Compressed files\<close>

lemma undelta_fold:
  "k \<le> length xs \<Longrightarrow>
   foldl (\<lambda>r i. r[i := r ! i + r ! (i - 1)]) xs [1..<k] = prefix_sums 0 (take k xs) @ drop k xs"
proof (induction k)
  case (Suc k)
  have sums: "prefix_sums a (ys @ [y]) = prefix_sums a ys @ [(if ys = [] then a else last (prefix_sums a ys)) + y]" for a y and ys :: bytes
  proof (induction ys arbitrary: a)
    case (Cons z ys)
    then show ?case by (cases ys) auto
  qed simp
  have take: "take (Suc k) xs = take k xs @ [xs ! k]" using Suc.prems by (simp add: take_Suc_conv_app_nth)
  have drop: "drop k xs = xs ! k # drop (Suc k) xs" using Suc.prems by (simp add: Cons_nth_drop_Suc)
  show ?case
  proof (cases k)
    case 0
    then show ?thesis using take drop by simp
  next
    case (Suc j)
    let ?p = "prefix_sums 0 (take k xs)"
    have p: "length ?p = k" "take k xs \<noteq> []" "?p \<noteq> []" using \<open>Suc k \<le> length xs\<close> Suc by (auto simp flip: length_0_conv)
    have "foldl (\<lambda>r i. r[i := r ! i + r ! (i - 1)]) xs [1..<Suc k] =
        (?p @ drop k xs)[k := (?p @ drop k xs) ! k + (?p @ drop k xs) ! (k - 1)]"
      using Suc.IH \<open>Suc k \<le> length xs\<close> Suc by simp
    also have "\<dots> = ?p @ (xs ! k + last ?p) # drop (Suc k) xs"
      using p Suc drop by (simp add: nth_append list_update_append last_conv_nth)
    also have "\<dots> = prefix_sums 0 (take (Suc k) xs) @ drop (Suc k) xs"
      using p(2) sums [of 0 "take k xs" "xs ! k"] by (simp add: take add.commute)
    finally show ?thesis .
  qed
qed simp

lemma undelta_row_sums: "undelta_row = prefix_sums 0"
  using undelta_fold [of "length row" row for row] by (auto simp: undelta_row_def)

text \<open>The cached block, and the rows in memory.\<close>

definition cache_ok :: "bytes \<Rightarrow> hist_reader \<Rightarrow> bool" where
  "cache_ok f R \<longleftrightarrow> (\<forall>b. cache_block R = Some b \<longrightarrow>
     (let n = min (block_rows R) (hist_rows f - b * block_rows R)
      in take (n * hr_fft R) (cache_buf R) = take (n * hr_fft R) (drop (b * block_rows R * hr_fft R) (drop hdr_size f))))"

definition v4_of :: "zstd \<Rightarrow> bytes \<Rightarrow> hist_reader \<Rightarrow> bool" where
  "v4_of Z f R \<longleftrightarrow> zstd_ok Z \<and> hdr_size \<le> length f \<and>
     (\<exists>ioff. compressed Z f (hr_file R) (block_rows R) ioff (hr_index R)) \<and>
     is_v4 R \<and> hr_fft R = hdr_fft_size f \<and> num_rows R = hist_rows f \<and>
     v4_flags R = HIST_V4_FLAG_COL_DELTA \<and> cache_ok f R \<and>
     (full_ready R \<longrightarrow> full R = Some (take (hist_rows f * hr_fft R) (drop hdr_size f)))"

lemma take_drop_within:
  "k + m \<le> n \<Longrightarrow> take n xs = take n ys \<Longrightarrow> take m (drop k xs) = take m (drop k ys)"
proof -
  assume a: "k + m \<le> n" "take n xs = take n ys"
  have "take m (drop k zs) = take m (drop k (take n zs))" for zs :: "'a list" using a(1) by (simp add: drop_take)
  then show ?thesis using a(2) by metis
qed

lemma file_bytes_read:
  "read_at f off n = Some b \<Longrightarrow> off < 2 ^ 32 \<Longrightarrow> n < 2 ^ 32 \<Longrightarrow> length f < 2 ^ 32 \<Longrightarrow> file_bytes m f off n = Value b"
  by (cases "off \<le> length f") (auto simp: file_bytes_def read_at_def Let_def split: if_splits)

lemma load_block_ok:
  assumes "compressed Z f (hr_file R) (block_rows R) ioff (hr_index R)" "zstd_ok Z"
    and "hr_fft R = hdr_fft_size f" "v4_flags R = HIST_V4_FLAG_COL_DELTA" "b < length (hr_index R)"
  shows "\<exists>B. load_block Z b R = (Value (), R\<lparr> cache_buf := B, cache_block := Some b \<rparr>) \<and>
     cache_ok f (R\<lparr> cache_buf := B, cache_block := Some b \<rparr>)"
proof -
  let ?e = "hr_index R ! b" and ?fft = "hr_fft R" and ?br = "block_rows R"
  let ?n = "min ?br (hist_rows f - b * ?br)"
  let ?raw = "take (?n * ?fft) (drop (b * ?br * ?fft) (drop hdr_size f))"
  have bo: "block_of Z ?fft ?br (hist_rows f) (drop hdr_size f) (hr_file R) b ?e"
    using assms(1,3,5) by (simp add: compressed_def)
  then obtain c where c: "read_at (hr_file R) (frame_offset ?e) (comp_len ?e) = Some c"
      "z_compress Z (each_row (col_delta 0) ?n ?fft ?raw) = Some c"
    and e: "raw_rows ?e = ?n" "frame_offset ?e < 2 ^ 32" "comp_len ?e < 2 ^ 32"
    unfolding block_of_def by auto
  have "?n * ?fft \<le> length (drop (b * ?br * ?fft) (drop hdr_size f))"
  proof -
    have "hist_rows f * ?fft \<le> length (drop hdr_size f)" using assms(3) by (simp add: hist_rows_def)
    moreover have "?n * ?fft \<le> hist_rows f * ?fft - b * ?br * ?fft" by (simp add: flip: diff_mult_distrib)
    ultimately show ?thesis by simp
  qed
  then have len: "length ?raw = ?n * ?fft" by simp
  have d: "z_decompress Z (?br * ?fft) c = Some (each_row (col_delta 0) ?n ?fft ?raw)"
    by (rule zstd_okD [OF assms(2) c(2)]) (use length_each_row [OF length_col_delta len] in simp)
  have inv: "each_row undelta_row ?n ?fft (each_row (col_delta 0) ?n ?fft ?raw) = ?raw"
    unfolding undelta_row_sums by (rule each_row_inverse) (use len in simp_all)
  have "file_bytes (hr_mapped R) (hr_file R) (frame_offset ?e) (comp_len ?e) = Value c"
    by (rule file_bytes_read [OF c(1) e(2,3)]) (use assms(1) in \<open>simp add: compressed_def\<close>)
  then have "load_block Z b R = (Value (), R\<lparr> cache_buf := ?raw @
      drop (?n * ?fft) (cache_buf R @ replicate (?br * ?fft - length (cache_buf R)) 0), cache_block := Some b \<rparr>)"
    using assms(4,5) d e(1) inv length_each_row [OF length_col_delta len]
    by (simp add: load_block_def Let_def HIST_V4_FLAG_COL_DELTA_def)
  moreover have "cache_ok f (R\<lparr> cache_buf := ?raw @ X, cache_block := Some b \<rparr>)" for X
    using len by (simp add: cache_ok_def Let_def del: length_take)
  ultimately show ?thesis by blast
qed

lemma row_block:
  fixes r n br :: nat
  assumes "r < n" "0 < br"
  shows "r div br < (n + br - 1) div br" "r - r div br * br < min br (n - r div br * br)"
proof -
  have "r div br * br \<le> r" by (rule div_times_less_eq_dividend)
  moreover have "r - r div br * br < br" using assms(2) by (simp add: minus_div_mult_eq_mod)
  ultimately show "r - r div br * br < min br (n - r div br * br)"
    using assms(1) unfolding min_less_iff_conj by linarith
  have "Suc (r div br) * br \<le> n + br - 1" using \<open>r div br * br \<le> r\<close> assms(1) unfolding mult_Suc by linarith
  then show "r div br < (n + br - 1) div br" using assms(2) by (simp only: less_eq_div_iff_mult_less_eq Suc_le_eq [symmetric])
qed

lemma cached_row:
  assumes "cache_ok f R" "cache_block R = Some (r div block_rows R)" "r < hist_rows f" "0 < block_rows R"
    and "hr_fft R = hdr_fft_size f"
  shows "take (hr_fft R) (drop ((r - r div block_rows R * block_rows R) * hr_fft R) (cache_buf R)) =
    take (hdr_fft_size f) (drop (hdr_size + r * hdr_fft_size f) f)"
proof -
  let ?br = "block_rows R" and ?fft = "hr_fft R"
  let ?b = "r div ?br" let ?w = "r - ?b * ?br" let ?n = "min ?br (hist_rows f - ?b * ?br)"
  have "Suc ?w \<le> ?n" using row_block(2) [OF assms(3,4)] by simp
  then have "Suc ?w * ?fft \<le> ?n * ?fft" by (rule mult_le_mono1)
  then have "?w * ?fft + ?fft \<le> ?n * ?fft" by simp
  moreover have "take (?n * ?fft) (cache_buf R) = take (?n * ?fft) (drop (?b * ?br * ?fft) (drop hdr_size f))"
    using assms(1,2) by (simp add: cache_ok_def Let_def)
  ultimately have "take ?fft (drop (?w * ?fft) (cache_buf R)) = take ?fft (drop (?w * ?fft) (drop (?b * ?br * ?fft) (drop hdr_size f)))"
    by (rule take_drop_within)
  moreover have "?w * ?fft + ?b * ?br * ?fft = r * ?fft"
    by (simp add: flip: add_mult_distrib)
  then have "?w * ?fft + (?b * ?br * ?fft + hdr_size) = hdr_size + r * hdr_fft_size f"
    using assms(5) by simp
  ultimately show ?thesis by (simp only: drop_drop assms(5))
qed

lemma get_row_v4:
  assumes R: "v4_of Z f R"
  shows "fst (get_row Z r R) = hist_row f r" "v4_of Z f (snd (get_row Z r R))"
proof -
  obtain ioff where z: "zstd_ok Z" and c: "compressed Z f (hr_file R) (block_rows R) ioff (hr_index R)"
    and v: "is_v4 R" "hr_fft R = hdr_fft_size f" "hdr_size \<le> length f" "num_rows R = hist_rows f"
      "v4_flags R = HIST_V4_FLAG_COL_DELTA" "cache_ok f R"
    and full: "full_ready R \<Longrightarrow> full R = Some (take (hist_rows f * hr_fft R) (drop hdr_size f))"
    using R unfolding v4_of_def by auto
  have pos: "0 < hdr_fft_size f" "0 < block_rows R" "length (hr_index R) = (hist_rows f + block_rows R - 1) div block_rows R"
    using c by (simp_all add: compressed_def)
  let ?b = "r div block_rows R"
  have "fst (get_row Z r R) = hist_row f r \<and> v4_of Z f (snd (get_row Z r R))"
  proof (cases "r < hist_rows f")
    case False
    then show ?thesis using R v by (simp add: get_row_def hist_row_def Let_def)
  next
    case True
    note row = row_in_file [OF pos(1) v(3) True]
    show ?thesis
    proof (cases "full_ready R")
      case True
      have "Suc r * hr_fft R \<le> hist_rows f * hr_fft R" using \<open>r < hist_rows f\<close> by (intro mult_le_mono1) simp
      then show ?thesis
        using True full [OF True] v pos row \<open>r < hist_rows f\<close> R take_drop_within [of "r * hr_fft R" "hr_fft R" "hist_rows f * hr_fft R"
            "take (hist_rows f * hr_fft R) (drop hdr_size f)" "drop hdr_size f"]
        by (simp add: get_row_def hist_row_def Let_def add.commute)
    next
      case False
      have b: "?b < length (hr_index R)" using row_block(1) [OF \<open>r < hist_rows f\<close> pos(2)] pos(3) by simp
      show ?thesis
      proof (cases "cache_block R = Some ?b")
        case True
        then show ?thesis
          using cached_row [OF v(6) True \<open>r < hist_rows f\<close> pos(2) v(2)] v pos False \<open>r < hist_rows f\<close> R
          by (simp add: get_row_def hist_row_def Let_def)
      next
        case miss: False
        obtain B where B: "load_block Z ?b R = (Value (), R\<lparr> cache_buf := B, cache_block := Some ?b \<rparr>)"
            "cache_ok f (R\<lparr> cache_buf := B, cache_block := Some ?b \<rparr>)"
          using load_block_ok [OF c z v(2,5) b] by blast
        have "v4_of Z f (R\<lparr> cache_buf := B, cache_block := Some ?b \<rparr>)"
          using z c v full B(2) by (auto simp: v4_of_def full_ready_def)
        then show ?thesis
          using cached_row [OF B(2), of r] miss B(1) v pos False \<open>r < hist_rows f\<close>
          by (simp add: get_row_def hist_row_def Let_def)
      qed
    qed
  qed
  then show "fst (get_row Z r R) = hist_row f r" "v4_of Z f (snd (get_row Z r R))" by simp_all
qed

interpretation v4: row_reader "get_row Z" "\<lambda>R rows. rows = hist_row f \<and> v4_of Z f R" for Z f
  by unfold_locales (auto simp: get_row_v4)

lemma hist_rows_le: "hist_rows f \<le> length f"
  unfolding hist_rows_def by (rule order_trans [OF div_le_dividend]) simp

lemma open_raw:
  assumes "has_magic f" "hdr_version f = FILE_VERSION" "0 < hdr_fft_size f" "length f < 2 ^ 32"
  shows "\<exists>R. hist_open m f = Value R \<and> raw_reader R (hist_row f)"
  using assms hist_rows_le [of f]
  by (simp add: hist_open_def raw_reader_def Let_def FILE_VERSION_def FILE_VERSION_ZSTD_def has_magic_def
      hist_rows_def [symmetric] hist_rows_def [of f, simplified, symmetric])

lemma open_compressed:
  assumes "compressed Z f c br ioff index" "zstd_ok Z" "hdr_size \<le> length f" "length f < 2 ^ 32"
  shows "\<exists>R. hist_open m c = Value R \<and> v4_of Z f R"
proof -
  have c: "v4ext ''num_blocks'' 4 c = length index" "index \<noteq> []" "0 < br" "0 < hdr_fft_size f" "hdr_size \<le> ioff"
    "v4ext ''codec'' 1 c = HIST_CODEC_ZSTD" "v4ext ''flags'' 1 c = HIST_V4_FLAG_COL_DELTA" "has_magic c"
    "hdr_version c = FILE_VERSION_ZSTD" "hdr_fft_size c = hdr_fft_size f" "v4ext ''block_rows'' 4 c = br"
    "v4ext ''index_offset'' 8 c = ioff" "read_index c ioff (length index) = Some index" "ext_num_rows c = hist_rows f"
    "ioff + length index * 16 = length c" "length c < 2 ^ 32"
    using assms(1) by (auto simp: compressed_def)
  obtain b where b: "read_at c ioff (length index * 16) = Some b" "map block_at (chunks (length index) 16 b) = index"
    using c(13) by (auto simp: read_index_def)
  have "file_bytes m c ioff (length index * 16) = Value b"
    by (rule file_bytes_read [OF b(1)]) (use c(15,16) in simp_all)
  then show ?thesis
    using c b(2) assms hist_rows_le [of f]
    by (simp add: hist_open_def Let_def v4_of_def cache_ok_def full_ready_def) blast
qed

lemma concat_rows:
  "n * fft \<le> length xs \<Longrightarrow> concat (map (\<lambda>r. take fft (drop (r * fft) xs)) [0..<n]) = take (n * fft) xs"
proof (induction n)
  case (Suc n)
  have "take (Suc n * fft) xs = take (n * fft + fft) xs" by (simp add: add.commute)
  then show ?case using Suc by (simp only: take_add) simp
qed simp

lemma preload_rows_ok:
  assumes "v4_of Z f R" "\<forall>r\<in>set rs. r < hist_rows f"
  shows "\<exists>R'. preload_rows Z rs R =
      (Value (concat (map (\<lambda>r. take (hdr_fft_size f) (drop (hdr_size + r * hdr_fft_size f) f)) rs)), R') \<and> v4_of Z f R'"
  using assms
proof (induction rs arbitrary: R)
  case (Cons r rs)
  obtain R1 where R1: "get_row Z r R = (hist_row f r, R1)" "v4_of Z f R1"
    using get_row_v4 [OF Cons.prems(1), of r] by (metis prod.collapse)
  then show ?case using Cons.IH [OF R1(2)] Cons.prems(2) by (fastforce simp: hist_row_def)
qed simp

lemma v4_preload:
  assumes R: "v4_of Z f R"
  shows "\<exists>R' b. preload_full Z max_bytes R = (Value b, R') \<and> v4_of Z f R'"
proof (cases "full_ready R \<or> num_rows R = 0 \<or> hr_fft R = 0 \<or> num_rows R * hr_fft R > max_bytes")
  case True
  then show ?thesis using R by (auto simp: preload_full_def)
next
  case False
  let ?all = "take (hist_rows f * hdr_fft_size f) (drop hdr_size f)"
  have v: "is_v4 R" "num_rows R = hist_rows f" using R by (simp_all add: v4_of_def)
  have "concat (map (\<lambda>r. take (hdr_fft_size f) (drop (hdr_size + r * hdr_fft_size f) f)) [0..<hist_rows f]) = ?all"
    using concat_rows [of "hist_rows f" "hdr_fft_size f" "drop hdr_size f"] by (simp add: hist_rows_def add.commute)
  then obtain R' where R': "preload_rows Z [0..<num_rows R] R = (Value ?all, R')" "v4_of Z f R'"
    using preload_rows_ok [OF R, of "[0..<num_rows R]"] v(2) by auto
  have "v4_of Z f (R'\<lparr> full := Some ?all, cache_buf := [], cache_block := None \<rparr>)"
    using R'(2) by (auto simp: v4_of_def cache_ok_def)
  then show ?thesis using False v(1) R'(1) by (auto simp: preload_full_def)
qed

text \<open>
  C24: reading a compressed history file is equivalent to reading the raw file it was made from.
  Both open, and any sequence of row requests gets the same answers, with the block cache in
  whatever state the earlier requests left it, after loading all rows into memory, and in a copy
  made for another thread; the answer is the row of the raw file, or a failure past its end.
\<close>

theorem hist_readers_equivalent:
  assumes "zstd_ok Z" "compress_hist_file Z f = Some c" "length f < 2 ^ 32" "length c < 2 ^ 32"
  shows "\<exists>R3 R4. hist_open m f = Value R3 \<and> hist_open m c = Value R4 \<and>
    fst (get_rows Z rs R3) = map (hist_row f) rs \<and>
    fst (get_rows Z rs R4) = map (hist_row f) rs \<and>
    (let R4' = snd (get_rows Z rs R4) in
       fst (get_rows Z rs' R4') = map (hist_row f) rs' \<and>
       fst (get_rows Z rs' (clone_for_thread R4')) = map (hist_row f) rs' \<and>
       fst (get_rows Z rs' (snd (preload_full Z max_bytes R4'))) = map (hist_row f) rs')"
proof -
  have m: "has_magic f" "hdr_version f = FILE_VERSION" "0 < hdr_fft_size f"
    using assms(2) by (auto simp: compress_hist_file_def split: if_splits)
  obtain R3 where R3: "hist_open m f = Value R3" "raw_reader R3 (hist_row f)"
    using open_raw [OF m assms(3)] by blast
  obtain br ioff index where "compressed Z f c br ioff index" using compress_compressed [OF assms(2-4)] by blast
  then obtain R4 where R4: "hist_open m c = Value R4" "v4_of Z f R4"
    using open_compressed assms(1,3) m(1) by (metis has_magic_def)
  let ?R = "snd (get_rows Z rs R4)"
  have R: "v4_of Z f ?R" using v4.read_keeps [of _ f Z R4 rs] R4(2) by (simp add: get_rows_def)
  have "v4_of Z f (clone_for_thread ?R)"
    using R by (auto simp: v4_of_def clone_for_thread_def cache_ok_def full_ready_def)
  moreover have "v4_of Z f (snd (preload_full Z max_bytes ?R))"
    using v4_preload [OF R, of max_bytes] by (metis snd_conv)
  moreover have "fst (get_rows Z qs R) = map (hist_row f) qs" if "v4_of Z f R" for qs R
    using v4.read_values [of _ f Z R qs] that by (simp add: get_rows_def)
  moreover have "fst (get_rows Z rs R3) = map (hist_row f) rs"
    using raw.read_values [OF R3(2)] by (simp add: get_rows_def)
  ultimately show ?thesis using R3(1) R4 R by (simp add: Let_def)
qed

theorem hist_readers_equivalent_witness:
  "\<exists>c R4. compress_hist_file stored small_hist = Some c \<and> hist_open True c = Value R4 \<and>
     fst (get_rows stored [1, 0, 1, 2] R4) = [Value [1, 2, 3, 4], Value [10, 20, 15, 15], Value [1, 2, 3, 4], Failed]"
proof -
  obtain c where c: "compress_hist_file stored small_hist = Some c" "length c = 152"
    using small_hist_compressed by blast
  obtain R4 where R4: "hist_open True c = Value R4"
      "fst (get_rows stored [1, 0, 1, 2] R4) = map (hist_row small_hist) [1, 0, 1, 2]"
    using hist_readers_equivalent [OF stored_ok c(1), of True "[1, 0, 1, 2]"] c(2) small_hist_facts(1) by auto
  have "map (hist_row small_hist) [1, 0, 1, 2] = [Value [1, 2, 3, 4], Value [10, 20, 15, 15], Value [1, 2, 3, 4], Failed]"
    using small_hist_facts by (simp add: hist_row_def) (simp add: small_hist_def bytes_of_def)
  then show ?thesis using c(1) R4 by auto
qed

section \<open>Malformed files\<close>

lemma file_bytes_overrun:
  assumes "off < 2 ^ 64" "n < 2 ^ 63" "length f < 2 ^ 63"
  shows "file_bytes True f off n = OutOfBounds \<longleftrightarrow> 2 ^ 64 \<le> off + n \<and> off + n - 2 ^ 64 \<le> length f"
proof (cases "off + n < 2 ^ 64")
  case False
  then have "(off + n) mod 2 ^ 64 = off + n - 2 ^ 64" using assms(1,2) by (simp add: mod_if)
  then show ?thesis using False assms by (auto simp: file_bytes_def split: option.split)
qed (auto simp: file_bytes_def split: option.split)

text \<open>
  A malformed compressed file makes the reader read outside of the mapped file exactly when
  the 64-bit sum of an offset and a length wraps around: on opening, for the index; on reading
  a row, only for a block of the index.
\<close>

theorem hist_reader_overrun:
  assumes "has_magic f" "hdr_version f = FILE_VERSION_ZSTD" "0 < hdr_fft_size f" "v4ext ''codec'' 1 f = HIST_CODEC_ZSTD"
    and "0 < v4ext ''block_rows'' 4 f" "0 < v4ext ''num_blocks'' 4 f" "hdr_size \<le> v4ext ''index_offset'' 8 f"
    and "length f < 2 ^ 63"
  shows "(hist_open True f = OutOfBounds \<longleftrightarrow>
      2 ^ 64 \<le> v4ext ''index_offset'' 8 f + v4ext ''num_blocks'' 4 f * 16 \<and>
      v4ext ''index_offset'' 8 f + v4ext ''num_blocks'' 4 f * 16 - 2 ^ 64 \<le> length f) \<and>
    (\<forall>R r. fst (get_row Z r R) = OutOfBounds \<longrightarrow> is_v4 R \<longrightarrow>
      (\<exists>e\<in>set (hr_index R). 2 ^ 64 \<le> frame_offset e + comp_len e))"
proof (intro conjI allI impI)
  let ?ioff = "v4ext ''index_offset'' 8 f" and ?nb = "v4ext ''num_blocks'' 4 f"
  have b: "?ioff < 2 ^ 64" "?nb < 2 ^ 32"
    using le_nat_bound [of "take 8 (drop 118 f)"] le_nat_bound [of "take 4 (drop 106 f)"]
      power_increasing [of "length (take 8 (drop 118 f))" 8 "256 :: nat"] power_increasing [of "length (take 4 (drop 106 f))" 4 "256 :: nat"]
    by (simp_all add: v4ext_def)
  then have o: "file_bytes True f ?ioff (?nb * 16) = OutOfBounds \<longleftrightarrow>
      2 ^ 64 \<le> ?ioff + ?nb * 16 \<and> ?ioff + ?nb * 16 - 2 ^ 64 \<le> length f"
    using assms(8) by (intro file_bytes_overrun) simp_all
  have w: "(?ioff + ?nb * 16) mod 2 ^ 64 \<le> length f" if "file_bytes True f ?ioff (?nb * 16) = OutOfBounds"
    using that by (auto simp: file_bytes_def split: if_splits option.splits)
  show "hist_open True f = OutOfBounds \<longleftrightarrow> 2 ^ 64 \<le> ?ioff + ?nb * 16 \<and> ?ioff + ?nb * 16 - 2 ^ 64 \<le> length f"
    unfolding o [symmetric] using assms w
    by (auto simp: hist_open_def Let_def split: access.splits)
  fix R r
  assume r: "fst (get_row Z r R) = OutOfBounds" "is_v4 R"
  then have "fst (load_block Z (r div block_rows R) R) = OutOfBounds"
    by (auto simp: get_row_def Let_def full_ready_def split: if_splits access.splits option.splits prod.splits)
  then have b: "r div block_rows R < length (hr_index R)"
    and o: "file_bytes (hr_mapped R) (hr_file R) (frame_offset (hr_index R ! (r div block_rows R)))
        (comp_len (hr_index R ! (r div block_rows R))) = OutOfBounds"
    by (auto simp: load_block_def Let_def split: if_splits access.splits option.splits)
  then have "2 ^ 64 \<le> frame_offset (hr_index R ! (r div block_rows R)) + comp_len (hr_index R ! (r div block_rows R))"
    by (auto simp: file_bytes_def split: if_splits option.splits intro!: leI)
  then show "\<exists>e\<in>set (hr_index R). 2 ^ 64 \<le> frame_offset e + comp_len e" using b by auto
qed

definition wrapped_index :: bytes where
  "wrapped_index = bytes_of ''BWWF'' @ [4, 0, 1, 0, 0, 0] @ replicate 90 0 @
     [1, 0] @ [1, 0, 0, 0] @ [1, 0, 0, 0] @ replicate 8 0 @ [0xF0, 0xFF, 0xFF, 0xFF, 0xFF, 0xFF, 0xFF, 0xFF, 0, 0]"

theorem hist_reader_overrun_witness: "hist_open True wrapped_index = OutOfBounds"
proof -
  have "has_magic wrapped_index" "hdr_version wrapped_index = FILE_VERSION_ZSTD" "0 < hdr_fft_size wrapped_index"
    "v4ext ''codec'' 1 wrapped_index = HIST_CODEC_ZSTD" "0 < v4ext ''block_rows'' 4 wrapped_index"
    "v4ext ''num_blocks'' 4 wrapped_index = 1" "v4ext ''index_offset'' 8 wrapped_index = 2 ^ 64 - 16"
    "length wrapped_index = 128"
    by (simp_all add: wrapped_index_def has_magic_def bytes_of_def hdr_num_def v4ext_def FILE_VERSION_ZSTD_def HIST_CODEC_ZSTD_def)
  then show ?thesis using hist_reader_overrun [of wrapped_index stored, THEN conjunct1] by simp
qed

end
