(* ===== verification/HistMerge.thy ===== *)
theory HistMerge
  imports Complex_Main ArchiveFacts HistReader
begin

text \<open>
  The joining of a recovered history segment with the file before it, \<^verbatim>\<open>merge_hist_segment\<close> of
  \<^verbatim>\<open>central/central_mission_archive.cpp\<close>, and its effect on the rows of the files.
  Single-precision numbers are decoded to the reals they stand for; the differences and quotients the code
  rounds are exact here.  The directory is a list of names in the order in which \<^verbatim>\<open>readdir\<close> gives them.
\<close>

section \<open>Headers\<close>

text \<open>\<^verbatim>\<open>None\<close> for infinities and for what is not a number.\<close>

definition f32_value :: "bytes \<Rightarrow> real option" where
  "f32_value b =
     (let n = le_nat (take 4 b); e = n div 2 ^ 23 mod 256; m = n mod 2 ^ 23; s = (if n \<ge> 2 ^ 31 then -1 else 1)
      in if e = 255 then None
         else if e = 0 then Some (s * real m * 2 / 2 ^ 150)
         else Some (s * (real m + 2 ^ 23) * 2 ^ e / 2 ^ 150))"

definition hdr_f32 :: "string \<Rightarrow> bytes \<Rightarrow> real option" where
  "hdr_f32 f h = f32_value (at_member FileHeader f h)"

text \<open>The value of the literal \<^verbatim>\<open>0.01f\<close>.\<close>

definition centi :: real where "centi = 10737418 / 2 ^ 30"

definition f32_close :: "real option \<Rightarrow> real option \<Rightarrow> bool" where
  "f32_close a b = (case (a, b) of (Some x, Some y) \<Rightarrow> \<bar>x - y\<bar> < centi | _ \<Rightarrow> False)"

definition hist_geom_match :: "bytes \<Rightarrow> bytes \<Rightarrow> bool" where
  "hist_geom_match a b \<longleftrightarrow>
     hdr_fft_size a = hdr_fft_size b \<and> hdr_fft_input_size a = hdr_fft_input_size b \<and>
     hdr_num ''sample_rate_hz'' 8 a = hdr_num ''sample_rate_hz'' 8 b \<and>
     hdr_num ''center_freq_hz'' 8 a = hdr_num ''center_freq_hz'' 8 b \<and>
     f32_close (hdr_f32 ''row_rate_hz'' a) (hdr_f32 ''row_rate_hz'' b) \<and>
     f32_close (hdr_f32 ''db_min'' a) (hdr_f32 ''db_min'' b) \<and>
     f32_close (hdr_f32 ''db_max'' a) (hdr_f32 ''db_max'' b)"

text \<open>The width of a row as \<^verbatim>\<open>hist_read_header\<close> and the merge see it.\<close>

definition row_width :: "bytes \<Rightarrow> nat" where
  "row_width h = (if hdr_fft_size h \<noteq> 0 then hdr_fft_size h else hdr_fft_input_size h)"

text \<open>The number of rows of a history file; \<^verbatim>\<open>None\<close>: it is not accepted.\<close>

definition hist_read_header :: "bytes \<Rightarrow> nat option" where
  "hist_read_header f =
     (if \<not> has_magic f then None
      else if hdr_version f = FILE_VERSION_ZSTD
      then (if ext_num_rows f > 0 then Some (ext_num_rows f) else None)
      else if hdr_version f = FILE_VERSION
      then (let w = row_width f; rows = (length f - hdr_size) div w
            in if w = 0 \<or> rows = 0 then None else Some rows)
      else None)"

definition row_rate :: "bytes \<Rightarrow> real" where
  "row_rate h = (case hdr_f32 ''row_rate_hz'' h of Some r \<Rightarrow> if r > 1/2 then r else 5 | None \<Rightarrow> 5)"

definition to_int64 :: "nat \<Rightarrow> int" where
  "to_int64 n = (if n < 2 ^ 63 then int n else int n - 2 ^ 64)"

definition end_utc :: "bytes \<Rightarrow> nat \<Rightarrow> int" where
  "end_utc h rows = to_int64 (hdr_start_utc h) + \<lfloor>real rows / row_rate h\<rfloor>"

section \<open>The file before a segment\<close>

definition hist_name :: "string \<Rightarrow> bool" where
  "hist_name n \<longleftrightarrow> \<not> prefix ''.'' n \<and> suffix ''.bewehist'' n \<and> \<not> strstr n ''-LIVE.bewehist''"

text \<open>The file \<^verbatim>\<open>f\<close> may be continued by the segment \<^verbatim>\<open>seg\<close>.\<close>

definition continues :: "bytes \<Rightarrow> bytes \<Rightarrow> bool" where
  "continues f seg \<longleftrightarrow>
     (case hist_read_header f of
        None \<Rightarrow> False
      | Some rows \<Rightarrow> hist_geom_match f seg \<and> hdr_start_utc f < hdr_start_utc seg \<and>
          \<bar>to_int64 (hdr_start_utc seg) - end_utc f rows\<bar> \<le> 2)"

fun find_best :: "files \<Rightarrow> string \<Rightarrow> string \<Rightarrow> bytes \<Rightarrow> string list \<Rightarrow> (string \<times> bytes) option \<Rightarrow> (string \<times> bytes) option" where
  "find_best fs dir seg_path seg [] best = best"
| "find_best fs dir seg_path seg (n # ns) best =
     find_best fs dir seg_path seg ns
       (let p = path_in dir n in
        if \<not> hist_name n \<or> p = seg_path then best
        else case fs p of
               None \<Rightarrow> best
             | Some s \<Rightarrow>
                 (let f = bytes_of s in
                  if \<not> continues f seg then best
                  else case best of None \<Rightarrow> Some (n, f)
                       | Some (bn, bf) \<Rightarrow> if hdr_start_utc bf < hdr_start_utc f then Some (n, f) else best))"

section \<open>Merging\<close>

text \<open>The raw content of the file before the segment.\<close>

definition raw_of :: "zstd \<Rightarrow> bytes \<Rightarrow> bytes option" where
  "raw_of Z f = (if hdr_version f = FILE_VERSION_ZSTD then decompress_hist_file Z f else Some f)"

definition merged_name :: "string \<Rightarrow> int \<Rightarrow> string" where
  "merged_name n t =
     (case before_last ''-'' n of
        Some p \<Rightarrow> if length n \<ge> length p + 5 then p @ hhmm_tail t else n
      | None \<Rightarrow> n)"

text \<open>
  The directory part of a path is what precedes the last slash.  The second component of
  the result is the file handed to the compressor.
\<close>

definition merge_hist_segment :: "zstd \<Rightarrow> bool \<Rightarrow> (string \<Rightarrow> string list) \<Rightarrow> string \<Rightarrow> files \<Rightarrow> files \<times> string option" where
  "merge_hist_segment Z rename_ok readdir seg_path fs =
     (case fs seg_path of None \<Rightarrow> (fs, None) | Some ss \<Rightarrow>
      let seg = bytes_of ss in
      case hist_read_header seg of None \<Rightarrow> (fs, None) | Some srows \<Rightarrow>
      if hdr_version seg \<noteq> FILE_VERSION then (fs, None)
      else case find_last_of CHR ''/'' seg_path of None \<Rightarrow> (fs, None) | Some k \<Rightarrow>
      let dir = take k seg_path in
      case find_best fs dir seg_path seg (readdir dir) None of None \<Rightarrow> (fs, None) | Some (bn, bf) \<Rightarrow>
      let tmp = path_in dir ''.merge.tmp''; fs = fs(tmp := None) in
      case raw_of Z bf of None \<Rightarrow> (fs, None) | Some raw \<Rightarrow>
      let w = row_width seg; body = take (srows * w) (drop hdr_size seg) in
      if length body < srows * w \<or> \<not> rename_ok then (fs, None)
      else let brows = the (hist_read_header bf);
               merged = path_in dir (merged_name bn (end_utc bf (brows + srows)));
               best = path_in dir bn;
               fs = fs(merged \<mapsto> chars_of (raw @ body));
               fs = (if best \<noteq> merged then fs(best := None) else fs);
               fs = (if seg_path \<noteq> merged then fs(seg_path := None) else fs)
           in (fs, Some merged))"

section \<open>The rows of the merged file\<close>

lemma find_best_from:
  assumes "find_best fs dir seg_path seg ns best = Some (bn, bf)"
  shows "best = Some (bn, bf) \<or>
    (bn \<in> set ns \<and> hist_name bn \<and> path_in dir bn \<noteq> seg_path \<and> fs (path_in dir bn) = Some (chars_of bf) \<and> continues bf seg)"
  using assms
proof (induction ns arbitrary: best)
  case (Cons n ns)
  show ?case using Cons.IH [OF Cons.prems [unfolded find_best.simps]]
    by (auto simp: Let_def split: if_splits option.splits)
qed simp

lemma hdr_num_prefix: "hdr_size \<le> length a \<Longrightarrow> hdr_fft_size (a @ b) = hdr_fft_size a"
  using hdr_fft_size_take [of "a @ b"] hdr_fft_size_take [of a] by simp

lemma rows_append:
  assumes h: "hdr_size \<le> length a" and w: "w = hdr_fft_size a" "0 < w"
    and a: "length a = hdr_size + n * w" and b: "length b = r * w"
  shows "hist_rows (a @ b) = n + r"
    and "k < n \<Longrightarrow> hist_row (a @ b) k = hist_row a k"
    and "k < r \<Longrightarrow> hist_row (a @ b) (n + k) = Value (take w (drop (k * w) b))"
    and "n + r \<le> k \<Longrightarrow> hist_row (a @ b) k = Failed"
proof -
  have f: "hdr_fft_size (a @ b) = w" using hdr_num_prefix [OF h] w(1) by simp
  have l: "length (drop hdr_size (a @ b)) = (n + r) * w" using a b by (simp add: add_mult_distrib)
  show rows: "hist_rows (a @ b) = n + r" unfolding hist_rows_def f l using w(2) by simp
  have ra: "hist_rows a = n" unfolding hist_rows_def using a w by simp
  have lt: "j * w + w \<le> m * w" if "j < m" for j m :: nat
    using that mult_le_mono1 [of "Suc j" m w] by simp
  show "hist_row (a @ b) k = hist_row a k" if "k < n"
    using that lt [of k n] a unfolding hist_row_def rows ra f w(1) [symmetric] by simp
  show "hist_row (a @ b) (n + k) = Value (take w (drop (k * w) b))" if "k < r"
    using that a unfolding hist_row_def rows f by (simp add: add_mult_distrib)
  show "hist_row (a @ b) k = Failed" if "n + r \<le> k"
    using that unfolding hist_row_def rows by simp
qed

text \<open>The file in the archive has the complete rows of \<^verbatim>\<open>f\<close>, raw or compressed.\<close>

definition stores_rows :: "zstd \<Rightarrow> bytes \<Rightarrow> bytes \<Rightarrow> bool" where
  "stores_rows Z g f \<longleftrightarrow>
     (g = f \<and> hdr_version f = FILE_VERSION \<and> hdr_fft_size f dvd length (drop hdr_size f)) \<or>
     (compress_hist_file Z f = Some g \<and> zstd_ok Z \<and> length f < 2 ^ 32 \<and> length g < 2 ^ 32 \<and>
      take 28 (drop 100 f) = replicate 28 0)"

lemma versions_differ: "FILE_VERSION \<noteq> FILE_VERSION_ZSTD"
  by (simp add: FILE_VERSION_def FILE_VERSION_ZSTD_def)

lemma stores_rowsD:
  assumes s: "stores_rows Z g f" and r: "hist_read_header g = Some n" and w: "0 < hdr_fft_size g"
  shows "raw_of Z g = Some (take (hdr_size + hist_rows f * hdr_fft_size f) f)" "n = hist_rows f"
    "hdr_fft_size g = hdr_fft_size f" "hdr_size \<le> length f" "hdr_size + hist_rows f * hdr_fft_size f \<le> length f"
proof -
  have le: "hist_rows f * hdr_fft_size f \<le> length f - hdr_size" by (simp add: hist_rows_def)
  consider (raw) "g = f" "hdr_version f = FILE_VERSION" "hdr_fft_size f dvd length (drop hdr_size f)"
    | (zip) "compress_hist_file Z f = Some g" "zstd_ok Z" "length f < 2 ^ 32" "length g < 2 ^ 32" "take 28 (drop 100 f) = replicate 28 0"
    using s unfolding stores_rows_def by blast
  then have "raw_of Z g = Some (take (hdr_size + hist_rows f * hdr_fft_size f) f) \<and> n = hist_rows f \<and>
      hdr_fft_size g = hdr_fft_size f \<and> hdr_size \<le> length f"
  proof cases
    case raw
    have h: "hdr_size \<le> length f" using r raw(1) by (simp add: hist_read_header_def has_magic_def split: if_splits)
    have "hist_rows f * hdr_fft_size f = length f - hdr_size" using raw(3) by (simp add: hist_rows_def)
    then have "length f = hdr_size + hist_rows f * hdr_fft_size f" using h by simp
    then show ?thesis using r raw w h versions_differ
      by (auto simp: raw_of_def hist_read_header_def row_width_def hist_rows_def Let_def split: if_splits)
  next
    case zip
    obtain br ioff index where c: "compressed Z f g br ioff index"
      using compress_compressed [OF zip(1,3,4)] by blast
    have v: "hdr_version g = FILE_VERSION_ZSTD" "ext_num_rows g = hist_rows f" "hdr_fft_size g = hdr_fft_size f"
      using c by (simp_all add: compressed_def)
    have "has_magic f" using zip(1) by (auto simp: compress_hist_file_def split: if_splits)
    then show ?thesis using hist_compress_inverse [OF zip(2,1,3,4,5)] r v
      by (auto simp: raw_of_def hist_read_header_def has_magic_def split: if_splits)
  qed
  then show "raw_of Z g = Some (take (hdr_size + hist_rows f * hdr_fft_size f) f)" "n = hist_rows f"
    "hdr_fft_size g = hdr_fft_size f" "hdr_size \<le> length f" "hdr_size + hist_rows f * hdr_fft_size f \<le> length f"
    using le by auto
qed

text \<open>What a merge does when it finds a file to continue.\<close>

lemma merge_effect:
  assumes seg: "fs seg_path = Some (chars_of seg)" "hist_read_header seg = Some srows" "hdr_version seg = FILE_VERSION"
    and dir: "find_last_of CHR ''/'' seg_path = Some j" "dir = take j seg_path"
    and best: "find_best fs dir seg_path seg (readdir dir) None = Some (bn, bf)" and raw: "raw_of Z bf = Some raw"
    and p: "p = path_in dir (merged_name bn (end_utc bf (the (hist_read_header bf) + srows)))"
    and body: "body = take (srows * row_width seg) (drop hdr_size seg)"
  shows "length body = srows * row_width seg"
    and "\<exists>fs'. merge_hist_segment Z True readdir seg_path fs = (fs', Some p) \<and>
      fs' p = Some (chars_of (raw @ body)) \<and>
      (\<forall>q. q \<noteq> p \<longrightarrow> fs' q = (if q \<in> {path_in dir bn, seg_path, path_in dir ''.merge.tmp''} then None else fs q))"
proof -
  have "hdr_version seg \<noteq> FILE_VERSION_ZSTD" using seg(3) versions_differ by simp
  then have "srows = (length seg - hdr_size) div row_width seg"
    using seg(2,3) by (auto simp: hist_read_header_def Let_def split: if_splits)
  then have "srows * row_width seg \<le> length seg - hdr_size" by simp
  then show l: "length body = srows * row_width seg" by (simp add: body)
  have nl: "\<not> length body < srows * row_width seg" using l by simp
  let ?fs = "fs(path_in dir ''.merge.tmp'' := None, p \<mapsto> chars_of (raw @ body))"
  let ?fs2 = "if path_in dir bn \<noteq> p then ?fs(path_in dir bn := None) else ?fs"
  let ?fs3 = "if seg_path \<noteq> p then ?fs2(seg_path := None) else ?fs2"
  have "merge_hist_segment Z True readdir seg_path fs = (?fs3, Some p)"
    unfolding merge_hist_segment_def Let_def seg(1) option.case bytes_chars_of seg(2) dir(1) dir(2) [symmetric] best
      prod.case raw p [symmetric] body [symmetric]
    using seg(3) nl by simp
  moreover have "?fs3 p = Some (chars_of (raw @ body))" by (simp del: chars_of_append)
  moreover have "\<forall>q. q \<noteq> p \<longrightarrow> ?fs3 q = (if q \<in> {path_in dir bn, seg_path, path_in dir ''.merge.tmp''} then None else fs q)"
    by auto
  ultimately show "\<exists>fs'. merge_hist_segment Z True readdir seg_path fs = (fs', Some p) \<and>
      fs' p = Some (chars_of (raw @ body)) \<and>
      (\<forall>q. q \<noteq> p \<longrightarrow> fs' q = (if q \<in> {path_in dir bn, seg_path, path_in dir ''.merge.tmp''} then None else fs q))"
    by blast
qed

lemma best_geometry:
  assumes "find_best fs dir seg_path seg ns None = Some (bn, bf)"
  shows "hdr_fft_size bf = hdr_fft_size seg" "\<exists>n. hist_read_header bf = Some n" "path_in dir bn \<noteq> seg_path"
    "fs (path_in dir bn) = Some (chars_of bf)" "hist_name bn" "bn \<in> set ns"
  using find_best_from [OF assms] by (auto simp: continues_def hist_geom_match_def split: option.splits)

lemma merge_keeps_rows:
  assumes seg: "fs seg_path = Some (chars_of seg)" "hist_read_header seg = Some srows" "hdr_version seg = FILE_VERSION"
      "0 < hdr_fft_size seg"
    and dir: "find_last_of CHR ''/'' seg_path = Some j" "dir = take j seg_path"
    and best: "find_best fs dir seg_path seg (readdir dir) None = Some (bn, bf)" and f: "stores_rows Z bf f"
  shows "\<exists>fs' p m. merge_hist_segment Z True readdir seg_path fs = (fs', Some p) \<and> fs' p = Some (chars_of m) \<and>
    hist_rows m = hist_rows f + srows \<and>
    (\<forall>k. hist_row m k = (if k < hist_rows f then hist_row f k else hist_row seg (k - hist_rows f))) \<and>
    (\<forall>q. q \<noteq> p \<longrightarrow> fs' q = (if q \<in> {path_in dir bn, seg_path, path_in dir ''.merge.tmp''} then None else fs q))"
proof -
  note g = best_geometry [OF best]
  obtain n where n: "hist_read_header bf = Some n" using g(2) by blast
  have wb: "0 < hdr_fft_size bf" using g(1) seg(4) by simp
  note st = stores_rowsD [OF f n wb]
  let ?w = "hdr_fft_size seg" and ?raw = "take (hdr_size + hist_rows f * hdr_fft_size f) f"
  have w: "hdr_fft_size f = ?w" using st(3) g(1) by simp
  have rw: "row_width seg = ?w" using seg(4) by (simp add: row_width_def)
  define body where "body = take (srows * row_width seg) (drop hdr_size seg)"
  define p where "p = path_in dir (merged_name bn (end_utc bf (the (hist_read_header bf) + srows)))"
  obtain fs' where e: "length body = srows * ?w" "merge_hist_segment Z True readdir seg_path fs = (fs', Some p)"
    "fs' p = Some (chars_of (?raw @ body))"
    "\<forall>q. q \<noteq> p \<longrightarrow> fs' q = (if q \<in> {path_in dir bn, seg_path, path_in dir ''.merge.tmp''} then None else fs q)"
    using merge_effect [where fs = fs and readdir = readdir and bn = bn,
        OF seg(1-3) dir best st(1) p_def body_def, unfolded rw] by blast
  have lr: "hdr_size \<le> length ?raw" "length ?raw = hdr_size + hist_rows f * ?w"
    using st(4,5) w by simp_all
  have wr: "?w = hdr_fft_size ?raw"
    using hdr_num_prefix [of ?raw "drop (hdr_size + hist_rows f * hdr_fft_size f) f"] lr(1) w by simp
  note ra = rows_append [OF lr(1) wr seg(4) lr(2) e(1)]
  have rr: "hist_row ?raw k = hist_row f k" if "k < hist_rows f" for k
  proof -
    have "k * ?w + ?w \<le> hist_rows f * ?w" using that mult_le_mono1 [of "Suc k" "hist_rows f" ?w] by simp
    then show ?thesis using that lr(2) w wr [symmetric] seg(4)
      unfolding hist_row_def by (simp add: hist_rows_def take_drop_within drop_take min_def)
  qed
  have sr: "hist_rows seg = srows"
    using seg(2-4) versions_differ by (auto simp: hist_read_header_def row_width_def hist_rows_def Let_def split: if_splits)
  have sk: "hist_row seg k = Value (take ?w (drop (k * ?w) body))" if "k < srows" for k
  proof -
    have "k * ?w + ?w \<le> srows * ?w" using that mult_le_mono1 [of "Suc k" srows ?w] by simp
    then show ?thesis using that unfolding hist_row_def sr body_def rw
      by (simp add: drop_take min_def add.commute)
  qed
  have "hist_row (?raw @ body) k = (if k < hist_rows f then hist_row f k else hist_row seg (k - hist_rows f))" for k
  proof -
    consider "k < hist_rows f" | i where "k = hist_rows f + i" "i < srows" | "hist_rows f + srows \<le> k"
      by (metis add_less_cancel_left le_add_diff_inverse not_less)
    then show ?thesis
    proof cases
      case 1
      then show ?thesis using ra(2) rr by simp
    next
      case 2
      then show ?thesis using ra(3) [of i] sk by simp
    next
      case 3
      then show ?thesis using ra(4) [of k] by (simp add: hist_row_def sr)
    qed
  qed
  then show ?thesis using e ra(1) by blast
qed

text \<open>
  Merging a recovered segment keeps every row.  When the relay finds a file that the
  segment continues, stored raw without a torn row or compressed, one file is left that has
  the rows of that file followed by the rows of the segment, the two originals are gone (unless
  the merged file has taken the name of one), and only these paths have changed.
\<close>

theorem hist_merge_rows:
  assumes seg: "fs seg_path = Some (chars_of seg)" "hist_read_header seg = Some srows" "hdr_version seg = FILE_VERSION"
      "0 < hdr_fft_size seg"
    and dir: "find_last_of CHR ''/'' seg_path = Some j" "dir = take j seg_path"
    and best: "find_best fs dir seg_path seg (readdir dir) None = Some (bn, bf)" and f: "stores_rows Z bf f"
  shows "\<exists>fs' p m. merge_hist_segment Z True readdir seg_path fs = (fs', Some p) \<and> fs' p = Some (chars_of m) \<and>
    hist_rows m = hist_rows f + srows \<and>
    (\<forall>k. hist_row m k = (if k < hist_rows f then hist_row f k else hist_row seg (k - hist_rows f))) \<and>
    (\<forall>q. q \<noteq> p \<longrightarrow> fs' q = (if q \<in> {path_in dir bn, seg_path, path_in dir ''.merge.tmp''} then None else fs q))"
  by (rule merge_keeps_rows [where fs = fs and readdir = readdir, OF assms])

text \<open>Two files of rows of four bytes that begin at the seconds \<^verbatim>\<open>t\<close>.\<close>

definition example_hist :: "u8 \<Rightarrow> bytes \<Rightarrow> bytes" where
  "example_hist t body = bytes_of ''BWWF'' @ [3, 0, 4, 0, 0, 0] @ replicate 28 0 @ [t, 0, 0, 0, 0, 0, 0, 0] @
     replicate 82 0 @ body"

lemma le_nat_zeros: "le_nat (replicate n 0) = 0"
  by (induction n) auto

lemma example_hist_facts:
  "length (example_hist t b) = 128 + length b" "has_magic (example_hist t b)" "hdr_version (example_hist t b) = FILE_VERSION"
  "hdr_fft_size (example_hist t b) = 4" "hdr_fft_input_size (example_hist t b) = 0"
  "hdr_start_utc (example_hist t b) = unat t" "hdr_num ''sample_rate_hz'' 8 (example_hist t b) = 0"
  "hdr_num ''center_freq_hz'' 8 (example_hist t b) = 0" "hdr_f32 ''row_rate_hz'' (example_hist t b) = Some 0"
  "hdr_f32 ''db_min'' (example_hist t b) = Some 0" "hdr_f32 ''db_max'' (example_hist t b) = Some 0"
  by (simp_all add: example_hist_def has_magic_def bytes_of_def hdr_num_def hdr_f32_def f32_value_def FILE_VERSION_def Let_def
      at_member_def FileHeader_def le_nat_zeros)

lemma example_read: "4 \<le> length b \<Longrightarrow> hist_read_header (example_hist t b) = Some (length b div 4)"
  using versions_differ by (auto simp: hist_read_header_def example_hist_facts row_width_def Let_def div_eq_0_iff)

lemma example_continues:
  assumes "4 \<le> length b" "length b < 20" "unat t < unat u" "unat u \<le> unat t + 2"
  shows "continues (example_hist t b) (example_hist u c)"
proof -
  have "real (length b div 4) / 5 < 1" using assms(2) by simp
  then have "\<lfloor>real (length b div 4) / 5\<rfloor> = 0" by (simp add: floor_eq_iff)
  moreover have "\<bar>uint u - uint t\<bar> \<le> 2" unfolding uint_nat using assms(3,4) by linarith
  moreover have "unat t < 256" "unat u < 256" using unat_lt [of t] unat_lt [of u] by simp_all
  ultimately show ?thesis using assms
    by (simp add: continues_def example_read hist_geom_match_def example_hist_facts f32_close_def centi_def end_utc_def
        to_int64_def row_rate_def)
qed

lemma name_facts: "hist_name ''a-0100.bewehist''" "\<not> hist_name ''x''" "find_last_of CHR ''/'' ''/h/s.bewehist'' = Some 2"
  by (simp_all add: hist_name_def strstr_def suffix_def Cons_eq_append_conv append_eq_Cons_conv find_last_of_def)

theorem hist_merge_rows_witness:
  "\<exists>fs' p m. merge_hist_segment stored True (\<lambda>_. [''a-0100.bewehist'']) ''/h/s.bewehist''
       [''/h/a-0100.bewehist'' \<mapsto> chars_of (example_hist 99 [1, 2, 3, 4]),
        ''/h/s.bewehist'' \<mapsto> chars_of (example_hist 100 [5, 6, 7, 8, 9, 9, 9, 9])] = (fs', Some p) \<and>
     fs' p = Some (chars_of m) \<and> hist_rows m = 3 \<and> hist_row m 1 = Value [5, 6, 7, 8]"
proof -
  let ?f = "example_hist 99 [1, 2, 3, 4]" and ?g = "example_hist 100 [5, 6, 7, 8, 9, 9, 9, 9]"
  let ?fs = "[''/h/a-0100.bewehist'' \<mapsto> chars_of ?f, ''/h/s.bewehist'' \<mapsto> chars_of ?g]"
  have b: "find_best ?fs ''/h'' ''/h/s.bewehist'' ?g [''a-0100.bewehist''] None = Some (''a-0100.bewehist'', ?f)"
    using example_continues [of "[1, 2, 3, 4]" 99 100 "[5, 6, 7, 8, 9, 9, 9, 9]"] name_facts(1)
    by (simp add: path_in_def Let_def)
  have st: "stores_rows stored ?f ?f" by (simp add: stores_rows_def example_hist_facts)
  have r: "hist_rows ?f = 1" "hist_rows ?g = 2" by (simp_all add: hist_rows_def example_hist_facts)
  have g: "?fs ''/h/s.bewehist'' = Some (chars_of ?g)" "hist_read_header ?g = Some 2" "0 < hdr_fft_size ?g"
    by (simp_all add: example_read example_hist_facts)
  have d: "''/h'' = take 2 ''/h/s.bewehist''" by simp
  obtain fs' p m where m: "merge_hist_segment stored True (\<lambda>_. [''a-0100.bewehist'']) ''/h/s.bewehist'' ?fs = (fs', Some p)"
    "fs' p = Some (chars_of m)" "hist_rows m = hist_rows ?f + 2"
    "\<forall>k. hist_row m k = (if k < hist_rows ?f then hist_row ?f k else hist_row ?g (k - hist_rows ?f))"
    using hist_merge_rows [where fs = ?fs and readdir = "\<lambda>_. [''a-0100.bewehist'']",
        OF g(1,2) example_hist_facts(3) g(3) name_facts(3) d b st] by blast
  have "hist_row m 1 = hist_row ?g 0" using m(4) by (simp add: r)
  also have "\<dots> = Value [5, 6, 7, 8]"
    by (simp add: hist_row_def r example_hist_facts) (simp add: example_hist_def bytes_of_def)
  finally show ?thesis using m r by auto
qed

text \<open>
  A torn last row spoils everything that is merged behind it.  If the raw file before the
  segment ends in a part of a row, this part is copied too, so that the row at the seam
  consists of the torn part and the first bytes of the segment, and every later row of the
  merged file has the boundary in the wrong place.
\<close>

theorem hist_merge_torn:
  assumes seg: "fs seg_path = Some (chars_of seg)" "hist_read_header seg = Some srows" "hdr_version seg = FILE_VERSION"
      "0 < hdr_fft_size seg"
    and dir: "find_last_of CHR ''/'' seg_path = Some j" "dir = take j seg_path"
    and best: "find_best fs dir seg_path seg (readdir dir) None = Some (bn, bf)" "hdr_version bf = FILE_VERSION"
    and torn: "torn = drop (hdr_size + hist_rows bf * hdr_fft_size seg) bf" and w: "w = hdr_fft_size seg"
  shows "length torn < w \<and>
    (\<exists>fs' p m. merge_hist_segment Z True readdir seg_path fs = (fs', Some p) \<and> fs' p = Some (chars_of m) \<and>
      hist_rows m = hist_rows bf + srows \<and>
      (\<forall>k < srows. hist_row m (hist_rows bf + k) = Value (take w (drop (k * w) (torn @ drop hdr_size seg)))))"
proof -
  note g = best_geometry [OF best(1)]
  have h: "hdr_size \<le> length bf" using g(2) by (auto simp: hist_read_header_def has_magic_def split: if_splits)
  have raw: "raw_of Z bf = Some bf" using best(2) versions_differ by (simp add: raw_of_def)
  have rw: "row_width seg = w" "0 < w" using seg(4) by (simp_all add: row_width_def w)
  have wb: "hdr_fft_size bf = w" using g(1) by (simp add: w)
  define body where "body = take (srows * row_width seg) (drop hdr_size seg)"
  define p where "p = path_in dir (merged_name bn (end_utc bf (the (hist_read_header bf) + srows)))"
  obtain fs' where e: "length body = srows * w" "merge_hist_segment Z True readdir seg_path fs = (fs', Some p)"
    "fs' p = Some (chars_of (bf @ body))"
    using merge_effect [where fs = fs and readdir = readdir and bn = bn,
        OF seg(1-3) dir best(1) raw p_def body_def, unfolded rw(1)] by blast
  have lt: "length (drop hdr_size bf) = hist_rows bf * w + length torn"
  proof -
    have "hist_rows bf * w \<le> length (drop hdr_size bf)" by (simp add: hist_rows_def wb)
    then show ?thesis by (simp add: torn w)
  qed
  have tw: "length torn < w"
  proof -
    have "length (drop hdr_size bf) < Suc (hist_rows bf) * w"
      using dividend_less_times_div [of w "length (drop hdr_size bf)"] rw(2) by (simp add: hist_rows_def wb mult.commute)
    then show ?thesis using lt by simp
  qed
  have hm: "hdr_fft_size (bf @ body) = w" using hdr_num_prefix [OF h] wb by simp
  have lm: "length (drop hdr_size (bf @ body)) = (hist_rows bf + srows) * w + length torn"
    using lt e(1) h by (simp add: add_mult_distrib)
  have rows: "hist_rows (bf @ body) = hist_rows bf + srows"
    unfolding hist_rows_def [of "bf @ body"] hm lm using tw rw(2) by simp
  have "hist_row (bf @ body) (hist_rows bf + k) = Value (take w (drop (k * w) (torn @ drop hdr_size seg)))" if k: "k < srows" for k
  proof -
    have km: "k * w + w \<le> srows * w" using k mult_le_mono1 [of "Suc k" srows w] by simp
    have "drop (hdr_size + (hist_rows bf + k) * w) (bf @ body) = drop (k * w) (drop (hdr_size + hist_rows bf * w) (bf @ body))"
      by (simp only: drop_drop algebra_simps)
    also have "drop (hdr_size + hist_rows bf * w) (bf @ body) = torn @ body" using lt h by (simp add: torn w)
    finally have 1: "drop (hdr_size + (hist_rows bf + k) * w) (bf @ body) = drop (k * w) (torn @ body)" .
    have "torn @ body = take (length torn + srows * w) (torn @ drop hdr_size seg)" by (simp add: body_def rw(1))
    then have "take w (drop (k * w) (torn @ body)) = take w (drop (k * w) (torn @ drop hdr_size seg))"
      using km by (simp add: drop_take min_def del: take_append drop_append)
    then show ?thesis using k 1 unfolding hist_row_def rows hm by simp
  qed
  then show ?thesis using tw e(2,3) rows by blast
qed

theorem hist_merge_torn_witness:
  "\<exists>fs' p m. merge_hist_segment stored True (\<lambda>_. [''a-0100.bewehist'']) ''/h/s.bewehist''
       [''/h/a-0100.bewehist'' \<mapsto> chars_of (example_hist 99 [1, 2, 3, 4, 0]),
        ''/h/s.bewehist'' \<mapsto> chars_of (example_hist 100 [5, 6, 7, 8, 9, 9, 9, 9])] = (fs', Some p) \<and>
     fs' p = Some (chars_of m) \<and> hist_row m 1 = Value [0, 5, 6, 7] \<and> hist_row m 2 = Value [8, 9, 9, 9]"
proof -
  let ?f = "example_hist 99 [1, 2, 3, 4, 0]" and ?g = "example_hist 100 [5, 6, 7, 8, 9, 9, 9, 9]"
  let ?fs = "[''/h/a-0100.bewehist'' \<mapsto> chars_of ?f, ''/h/s.bewehist'' \<mapsto> chars_of ?g]"
  have b: "find_best ?fs ''/h'' ''/h/s.bewehist'' ?g [''a-0100.bewehist''] None = Some (''a-0100.bewehist'', ?f)"
    using example_continues [of "[1, 2, 3, 4, 0]" 99 100 "[5, 6, 7, 8, 9, 9, 9, 9]"] name_facts(1)
    by (simp add: path_in_def Let_def)
  have r: "hist_rows ?f = 1" by (simp add: hist_rows_def example_hist_facts)
  have g: "?fs ''/h/s.bewehist'' = Some (chars_of ?g)" "hist_read_header ?g = Some 2" "0 < hdr_fft_size ?g"
    by (simp_all add: example_read example_hist_facts)
  have d: "''/h'' = take 2 ''/h/s.bewehist''" by simp
  obtain fs' p m where m: "merge_hist_segment stored True (\<lambda>_. [''a-0100.bewehist'']) ''/h/s.bewehist'' ?fs = (fs', Some p)"
    "fs' p = Some (chars_of m)"
    "\<forall>k<2. hist_row m (hist_rows ?f + k) = Value (take (hdr_fft_size ?g) (drop (k * hdr_fft_size ?g)
        (drop (hdr_size + hist_rows ?f * hdr_fft_size ?g) ?f @ drop hdr_size ?g)))"
    using hist_merge_torn [where fs = ?fs and readdir = "\<lambda>_. [''a-0100.bewehist'']" and Z = stored,
        OF g(1,2) example_hist_facts(3) g(3) name_facts(3) d b example_hist_facts(3) refl refl] by blast
  have "drop (hdr_size + 4) ?f @ drop hdr_size ?g = [0, 5, 6, 7, 8, 9, 9, 9, 9]"
    by (simp add: example_hist_def bytes_of_def)
  then have "\<forall>k<2. hist_row m (1 + k) = Value (take 4 (drop (k * 4) [0, 5, 6, 7, 8, 9, 9, 9, 9]))"
    using m(3) by (simp add: r example_hist_facts del: drop_append)
  then have "hist_row m (1 + 0) = Value (take 4 (drop (0 * 4) [0, 5, 6, 7, 8, 9, 9, 9, 9]))"
    "hist_row m (1 + 1) = Value (take 4 (drop (1 * 4) [0, 5, 6, 7, 8, 9, 9, 9, 9]))"
    by (metis zero_less_numeral, metis one_less_numeral_iff semiring_norm(76))
  then show ?thesis using m(1,2)
    by (intro exI [of _ fs'] exI [of _ p] exI [of _ m]) (simp add: numeral_2_eq_2)
qed

section \<open>Confinement\<close>

text \<open>The merge as the upload of a history segment calls it.\<close>

definition hist_merge :: "zstd \<Rightarrow> bool \<Rightarrow> (string \<Rightarrow> string list) \<Rightarrow> string \<Rightarrow> store \<Rightarrow> store" where
  "hist_merge Z rename_ok readdir seg_path st =
     st\<lparr> disk := fst (merge_hist_segment Z rename_ok readdir seg_path (disk st)) \<rparr>"

lemma before_last_prefix: "before_last k s = Some p \<Longrightarrow> prefix p s"
  by (induction s arbitrary: p) (auto split: if_splits option.splits)

lemma digit_no_slash: "CHR ''/'' \<noteq> char_of (n + 48)" if "n < 10" for n :: nat
proof
  assume "CHR ''/'' = char_of (n + 48)"
  then have "char_of (n + 48) = CHR ''/''" by (rule sym)
  then have "of_char (char_of (n + 48)) = (of_char (CHR ''/'') :: nat)" by (rule arg_cong)
  then show False using that by (simp add: of_char_of)
qed

lemma two_digits_no_slash: "0 \<le> n \<Longrightarrow> n < 100 \<Longrightarrow> CHR ''/'' \<notin> set (two_digits n)"
  using digit_no_slash [of "nat (n div 10)"] digit_no_slash [of "nat (n mod 10)"] by (simp add: two_digits_def)

lemma tail_no_slash: "CHR ''/'' \<notin> set (hhmm_tail t)"
proof -
  have m: "0 \<le> x mod 24 \<and> x mod 24 < 100" "0 \<le> x mod 60 \<and> x mod 60 < 100" for x :: int
    using pos_mod_bound [of 24 x] pos_mod_bound [of 60 x] by simp_all
  show ?thesis using m two_digits_no_slash by (simp add: hhmm_tail_def kst_hm_def Let_def)
qed

lemma merged_name_component: "component n \<Longrightarrow> component (merged_name n t)"
proof (cases "before_last ''-'' n")
  case (Some p)
  assume n: "component n"
  then have "CHR ''/'' \<notin> set p" using before_last_prefix [OF Some] by (auto simp: component_def prefix_def)
  moreover have "CHR ''-'' \<in> set (hhmm_tail t)" by (cases "kst_hm t") (simp add: hhmm_tail_def)
  then have "p @ hhmm_tail t \<notin> {[], ''.'', ''..''}" by (auto simp: append_eq_Cons_conv)
  ultimately show ?thesis using n tail_no_slash [of t] Some by (auto simp: merged_name_def component_def)
qed (simp add: merged_name_def)

lemma last_slash: "component name \<Longrightarrow> find_last_of CHR ''/'' (path_in d name) = Some (length d)"
proof -
  assume c: "component name"
  then have n: "CHR ''/'' \<in> set (path_in d name)" "CHR ''/'' \<notin> set name" by (simp_all add: path_in_def component_def)
  then obtain i where i: "find_last_of CHR ''/'' (path_in d name) = Some i" by (simp add: find_last_of_def)
  then obtain A B where s: "path_in d name = A @ CHR ''/'' # B" "CHR ''/'' \<notin> set B" "i = length A" by (rule find_last_of_Some)
  then have "d = A" using n(2) by (auto simp: path_in_def append_eq_append_conv2 Cons_eq_append_conv append_eq_Cons_conv)
  then show ?thesis using i s(3) by simp
qed

lemma merge_changes:
  assumes "component name" "fst (merge_hist_segment Z ok readdir (path_in d name) fs) p \<noteq> fs p"
  shows "\<exists>n. p = path_in d n \<and> (n = name \<or> n = ''.merge.tmp'' \<or> n \<in> set (readdir d) \<or> (\<exists>b\<in>set (readdir d). \<exists>t. n = merged_name b t))"
proof -
  have d: "find_last_of CHR ''/'' (path_in d name) = Some (length d)" by (rule last_slash [OF assms(1)])
  have t: "take (length d) (path_in d name) = d" by (simp add: path_in_def)
  let ?q = "path_in d name"
  note e = merge_hist_segment_def Let_def d t option.case
  show ?thesis
  proof (cases "fs ?q")
    case None
    then show ?thesis using assms(2) by (simp add: e)
  next
    case ss: (Some ss)
    let ?seg = "bytes_of ss"
    show ?thesis
    proof (cases "hist_read_header ?seg")
      case None
      then show ?thesis using assms(2) by (simp add: e ss)
    next
      case sr: (Some srows)
      show ?thesis
      proof (cases "find_best fs d ?q ?seg (readdir d) None")
        case None
        then show ?thesis using assms(2) by (simp add: e ss sr split: if_splits)
      next
        case (Some best)
        then obtain bn bf where b: "find_best fs d ?q ?seg (readdir d) None = Some (bn, bf)" by (cases best) simp
        define m where "m = path_in d (merged_name bn (end_utc bf (the (hist_read_header bf) + srows)))"
        have "p \<in> {m, path_in d bn, ?q, path_in d ''.merge.tmp''}"
          using assms(2) by (cases "raw_of Z bf") (auto simp: e ss sr b m_def [symmetric] split: if_splits)
        then show ?thesis using best_geometry(6) [OF b] unfolding m_def by blast
      qed
    qed
  qed
qed

lemma hist_merge_confined:
  assumes "\<And>d. list_all component (readdir d)"
  shows "merge_confined base (hist_merge Z ok readdir)"
  unfolding merge_confined_def
proof (intro allI impI)
  fix q st p
  assume q: "in_archive base q" and p: "disk (hist_merge Z ok readdir q st) p \<noteq> disk st p"
  obtain d name where d: "archive_sub base d" "component name" "q = path_in d name" using q unfolding in_archive_def by blast
  have "\<exists>n. p = path_in d n \<and> (n = name \<or> n = ''.merge.tmp'' \<or> n \<in> set (readdir d) \<or> (\<exists>b\<in>set (readdir d). \<exists>t. n = merged_name b t))"
    using merge_changes [OF d(2)] p unfolding d(3) hist_merge_def by simp
  moreover have "component ''.merge.tmp''" by (simp add: component_def)
  moreover have "component n" if "n \<in> set (readdir d)" for n using assms [of d] that by (simp add: list_all_iff)
  ultimately have "\<exists>n. p = path_in d n \<and> component n" using d(2) merged_name_component by blast
  then show "in_archive base p" using d(1) unfolding in_archive_def by blast
qed



end
