(* ===== verification/HistStream.thy ===== *)
theory HistStream
  imports HistMerge FftCodec
begin

text \<open>
  The live history streams of a room: while a mission is active the relay records every
  spectrum frame of the HOST as a row of a history file, \<^verbatim>\<open>archive_hist_on_live_start\<close>,
  \<^verbatim>\<open>_fft\<close>, \<^verbatim>\<open>_live_row\<close> and \<^verbatim>\<open>_live_stop\<close> of \<^verbatim>\<open>central/central_mission_archive.cpp\<close>.
  A stream is written at the end of its file, apart from the two range members of the
  header; the time and the outcomes of system calls are arguments.
\<close>

section \<open>State\<close>

record hist_stream =
  hs_path :: string
  hs_fft_size :: nat
  hs_rows :: nat
  hs_start_utc :: nat
  hs_range :: "(bytes \<times> bytes) option"

text \<open>The streams by the file name of their start packet; the active mission's station, year and code.\<close>

record hist_room =
  ha_streams :: "(string \<times> hist_stream) list"
  ha_store :: store
  ha_active :: "(string \<times> nat \<times> string) option"
  ha_compress :: "string list"

definition update_active_mission_shadow :: "bytes \<Rightarrow> hist_room \<Rightarrow> hist_room" where
  "update_active_mission_shadow body R =
     (if length body < size_of PktMissionSync then R\<lparr> ha_active := None \<rparr>
      else let e = at_member PktMissionSync ''active'' body in
           if at_member PktMissionSync ''active_valid'' body ! 0 = 0 \<or> at_member MissionSyncEntry ''valid'' e ! 0 = 0
           then R\<lparr> ha_active := None \<rparr>
           else R\<lparr> ha_active := Some (text_of 63 (at_member MissionSyncEntry ''station_name'' e),
                                        le_nat (take 2 (at_member MissionSyncEntry ''year'' e)),
                                        text_of 7 (at_member MissionSyncEntry ''code'' e)) \<rparr>)"

definition map_file :: "string \<Rightarrow> (string \<Rightarrow> string) \<Rightarrow> store \<Rightarrow> store" where
  "map_file p f st = (case disk st p of None \<Rightarrow> st | Some s \<Rightarrow> put_file p (f s) st)"

section \<open>Opening a stream\<close>

text \<open>\<^verbatim>\<open>k\<close> further names are tried.\<close>

fun live_free :: "files \<Rightarrow> string \<Rightarrow> string \<Rightarrow> nat \<Rightarrow> nat \<Rightarrow> string \<Rightarrow> string" where
  "live_free fs dir fname 0 n cand = cand"
| "live_free fs dir fname (Suc k) n cand =
     (if fs cand = None then cand
      else case before_last ''-LIVE.bewehist'' fname of
             None \<Rightarrow> cand
           | Some p \<Rightarrow> live_free fs dir fname k (n + 1) (path_in dir (p @ ''_'' @ dec_str n @ ''-LIVE.bewehist'')))"

definition ls_field :: "string \<Rightarrow> nat \<Rightarrow> bytes \<Rightarrow> bytes" where
  "ls_field f k ls = take k (at_member PktLwfLiveStart f ls)"

definition above_half :: "bytes \<Rightarrow> bool" where
  "above_half b = (case f32_value b of Some x \<Rightarrow> x > 1/2 | None \<Rightarrow> take 4 b = [0, 0, 0x80, 0x7F])"

text \<open>The packed struct \<^verbatim>\<open>LwfHeader128\<close> of the function.\<close>

definition live_header :: "bytes \<Rightarrow> bytes" where
  "live_header ls =
     bytes_of ''BWWF'' @ le_bytes 2 3 @ ls_field ''fft_size'' 4 ls @ ls_field ''sample_rate_hz'' 8 ls @
     ls_field ''center_freq_hz'' 8 ls @
     (if above_half (ls_field ''fft_row_rate_hz'' 4 ls) then ls_field ''fft_row_rate_hz'' 4 ls else ls_field ''row_rate_hz'' 4 ls) @
     ls_field ''db_min'' 4 ls @ ls_field ''db_max'' 4 ls @ ls_field ''start_utc_unix'' 8 ls @ ls_field ''station_lon'' 4 ls @
     ls_field ''fft_input_size'' 4 ls @ ls_field ''utc_offset_hours'' 4 ls @ replicate 6 0 @
     ls_field ''station_name'' 32 ls @ ls_field ''station_lat'' 4 ls @ replicate 28 0"

definition archive_hist_on_live_start :: "bool \<Rightarrow> string \<Rightarrow> bytes \<Rightarrow> hist_room \<Rightarrow> hist_room" where
  "archive_hist_on_live_start open_ok base ls R =
     (case ha_active R of None \<Rightarrow> R | Some (station, year, code) \<Rightarrow>
      let fname = text_of 64 ls in
      if \<not> path_component_safe 128 fname then R
      else case archive_dir base station year code MFS_HIST of None \<Rightarrow> R | Some dir \<Rightarrow>
      let st = mkdir_p dir (ha_store R);
          others = filter (\<lambda>(k, _). k \<noteq> fname) (ha_streams R);
          path = live_free (disk st) dir fname 98 2 (path_in dir fname)
      in if \<not> open_ok then R\<lparr> ha_store := st, ha_streams := others \<rparr>
         else R\<lparr> ha_store := put_file path (chars_of (live_header ls)) st,
                 ha_streams := others @ [(fname,
                   \<lparr> hs_path = path, hs_fft_size = le_nat (ls_field ''fft_size'' 4 ls), hs_rows = 0,
                     hs_start_utc = le_nat (ls_field ''start_utc_unix'' 8 ls), hs_range = None \<rparr>)] \<rparr>)"

text \<open>The packet of an older HOST is filled up with zeros.\<close>

definition on_lwf_live_start :: "bool \<Rightarrow> string \<Rightarrow> bytes \<Rightarrow> hist_room \<Rightarrow> hist_room" where
  "on_lwf_live_start open_ok base body R =
     (case offset_of PktLwfLiveStart ''fft_row_rate_hz'' of None \<Rightarrow> R | Some off \<Rightarrow>
        if length body < off then R
        else archive_hist_on_live_start open_ok base
               (take (size_of PktLwfLiveStart) (body @ replicate (size_of PktLwfLiveStart) 0)) R)"

section \<open>Closing a stream\<close>

fun final_free :: "files \<Rightarrow> string \<Rightarrow> string \<Rightarrow> nat \<Rightarrow> nat \<Rightarrow> string \<Rightarrow> string" where
  "final_free fs dir fin 0 n cand = cand"
| "final_free fs dir fin (Suc k) n cand =
     (if fs cand = None then cand
      else case before_last ''.bewehist'' fin of
             None \<Rightarrow> cand
           | Some p \<Rightarrow> final_free fs dir fin k (n + 1) (path_in dir (p @ ''_'' @ dec_str n @ ''.bewehist'')))"

definition archive_hist_on_live_stop :: "bool \<Rightarrow> bool \<Rightarrow> nat \<Rightarrow> string \<Rightarrow> hist_room \<Rightarrow> hist_room" where
  "archive_hist_on_live_stop compress_on rename_ok now fname R =
     (case map_of (ha_streams R) fname of None \<Rightarrow> R | Some s \<Rightarrow>
      let R = R\<lparr> ha_streams := filter (\<lambda>(k, _). k \<noteq> fname) (ha_streams R) \<rparr>;
          path = hs_path s; fs = disk (ha_store R)
      in if hs_rows s = 0 \<or> hist_is_short_stub (hs_start_utc s) now
         then R\<lparr> ha_store := (ha_store R)\<lparr> disk := fs(path := None, path @ ''.info'' := None) \<rparr> \<rparr>
         else let (dir, file) = (case find_last_of CHR ''/'' path of None \<Rightarrow> ([], path) | Some k \<Rightarrow> (take k path, drop (Suc k) path));
                  fin = build_hist_filename_finalize file (int now)
              in if fin = file
                 then R\<lparr> ha_compress := (if compress_on then ha_compress R @ [path] else ha_compress R) \<rparr>
                 else let finalp = final_free fs dir fin 98 2 (path_in dir fin)
                      in if rename_ok \<and> fs path \<noteq> None
                         then R\<lparr> ha_store := (ha_store R)\<lparr> disk := rename_file path finalp fs \<rparr>,
                                 ha_compress := (if compress_on then ha_compress R @ [finalp] else ha_compress R) \<rparr>
                         else R)"

section \<open>Recording\<close>

text \<open>Comparison of single-precision numbers.\<close>

definition f32_eq :: "bytes \<Rightarrow> bytes \<Rightarrow> bool" where
  "f32_eq a b =
     (case (f32_value a, f32_value b) of
        (Some x, Some y) \<Rightarrow> x = y
      | (None, None) \<Rightarrow> take 4 a = take 4 b \<and> le_nat (take 4 a) mod 2 ^ 23 = 0
      | _ \<Rightarrow> False)"

text \<open>The row of a spectrum frame with the range it was quantised with.\<close>

definition frame_row :: "zstd \<Rightarrow> bytes \<Rightarrow> (bytes \<times> bytes \<times> bytes) option" where
  "frame_row Z body =
     (if length body < size_of PktFftFrame then None
      else let flags = le_nat (take 4 (at_member PktFftFrame ''fft_size'' body));
               w = (of_nat flags :: u32); n = unat (w AND FFT_FFT_SIZE_MASK);
               quantized = (w AND FFT_FLAG_QUANT_U8 \<noteq> 0); zstd_c = (w AND FFT_FLAG_ZSTD \<noteq> 0); u6_c = (w AND FFT_FLAG_QUANT_U6 \<noteq> 0);
               rest = drop (size_of PktFftFrame) body; inner = (if u6_c then u6_packed_bytes n else n)
           in if \<not> quantized \<or> n = 0 then None
              else map_option (\<lambda>p. (if u6_c then u6_unpack p n else p,
                                     take 4 (at_member PktFftFrame ''power_min'' body), take 4 (at_member PktFftFrame ''power_max'' body)))
                     (if zstd_c
                      then (case z_decompress Z inner rest of None \<Rightarrow> None | Some d \<Rightarrow> if length d \<noteq> inner then None else Some d)
                      else if length rest \<noteq> inner then None else Some rest))"

text \<open>The maximum of each group of \<^verbatim>\<open>pad\<close> bins.\<close>

definition fold_row :: "nat \<Rightarrow> nat \<Rightarrow> bytes \<Rightarrow> bytes" where
  "fold_row pad out row = map (\<lambda>i. foldl max (row ! (i * pad)) (take (pad - 1) (drop (i * pad + 1) row))) [0..<out]"

text \<open>The row as it is stored in a stream of a given width.\<close>

definition stream_row :: "nat \<Rightarrow> bytes \<Rightarrow> bytes option" where
  "stream_row w row =
     (if w = 0 then None
      else if w = length row then Some row
      else if length row mod w \<noteq> 0 then None
      else Some (fold_row (length row div w) w row))"

definition set_range :: "bytes \<Rightarrow> bytes \<Rightarrow> (string \<times> hist_stream) \<times> store \<Rightarrow> (string \<times> hist_stream) \<times> store" where
  "set_range lo hi = (\<lambda>((k, s), st).
     if hs_range s = None
     then ((k, s\<lparr> hs_range := Some (lo, hi) \<rparr>), map_file (hs_path s) (\<lambda>t. chars_of (splice 30 (lo @ hi) (bytes_of t))) st)
     else ((k, s), st))"

fun each_stream :: "((string \<times> hist_stream) \<times> store \<Rightarrow> (string \<times> hist_stream) \<times> store) \<Rightarrow>
    (string \<times> hist_stream) list \<Rightarrow> store \<Rightarrow> (string \<times> hist_stream) list \<times> store" where
  "each_stream f [] st = ([], st)"
| "each_stream f (e # es) st = (let (e, st) = f (e, st); (es, st) = each_stream f es st in (e # es, st))"

definition range_changed :: "bytes \<Rightarrow> bytes \<Rightarrow> hist_stream \<Rightarrow> bool" where
  "range_changed lo hi s = (case hs_range s of None \<Rightarrow> False | Some (a, b) \<Rightarrow> \<not> f32_eq lo a \<or> \<not> f32_eq hi b)"

definition add_row :: "bytes \<Rightarrow> (string \<times> hist_stream) \<times> store \<Rightarrow> (string \<times> hist_stream) \<times> store" where
  "add_row row = (\<lambda>((k, s), st).
     case stream_row (hs_fft_size s) row of
       None \<Rightarrow> ((k, s), st)
     | Some r \<Rightarrow> ((k, s\<lparr> hs_rows := hs_rows s + 1 \<rparr>), map_file (hs_path s) (\<lambda>t. t @ chars_of r) st))"

definition archive_hist_on_fft :: "zstd \<Rightarrow> bool \<Rightarrow> bool \<Rightarrow> nat \<Rightarrow> bytes \<Rightarrow> hist_room \<Rightarrow> hist_room" where
  "archive_hist_on_fft Z compress_on rename_ok now body R =
     (if ha_streams R = [] then R
      else case frame_row Z body of None \<Rightarrow> R | Some (row, lo, hi) \<Rightarrow>
      let rotate = map fst (filter (\<lambda>(k, s). range_changed lo hi s) (ha_streams R));
          (ss, st) = each_stream (set_range lo hi) (ha_streams R) (ha_store R);
          R = R\<lparr> ha_streams := ss, ha_store := st \<rparr>;
          R = fold (\<lambda>k. archive_hist_on_live_stop compress_on rename_ok now (take 63 k)) rotate R;
          (ss, st) = each_stream (add_row row) (ha_streams R) (ha_store R)
      in R\<lparr> ha_streams := ss, ha_store := st \<rparr>)"

text \<open>A single row of an older HOST.\<close>

definition archive_hist_on_live_row :: "zstd \<Rightarrow> bytes \<Rightarrow> hist_room \<Rightarrow> hist_room" where
  "archive_hist_on_live_row Z body R =
     (if length body < size_of PktLwfLiveRowHdr then R
      else let fname = text_of 64 body; row = drop (size_of PktLwfLiveRowHdr) body in
      case map_of (ha_streams R) fname of None \<Rightarrow> R | Some s \<Rightarrow>
      if row = [] then R
      else let n = hs_fft_size s in
      case (if n \<noteq> 0 \<and> length row \<noteq> n
            then (case z_decompress Z (u6_packed_bytes n) row of
                    None \<Rightarrow> None
                  | Some d \<Rightarrow> if length d \<noteq> u6_packed_bytes n then None else Some (u6_unpack d n))
            else Some row) of
        None \<Rightarrow> R
      | Some r \<Rightarrow> R\<lparr> ha_streams := map (\<lambda>(k, t). if k = fname then (k, t\<lparr> hs_rows := hs_rows t + 1 \<rparr>) else (k, t)) (ha_streams R),
                      ha_store := map_file (hs_path s) (\<lambda>t. t @ chars_of r) (ha_store R) \<rparr>)"

end
