(* ===== verification/HistStreamFacts.thy ===== *)
theory HistStreamFacts
  imports HistStream
begin

text \<open>
  Facts about live history streams: on every run of a room's events each open file is a header
  and whole rows, its header carries the quantisation range of all its rows, and a frame adds
  exactly one row to every stream that stays open.
\<close>

section \<open>All streams in turn\<close>

definition on_stream :: "(hist_stream \<Rightarrow> hist_stream) \<Rightarrow> (hist_stream \<Rightarrow> (string \<Rightarrow> string) option) \<Rightarrow>
    (string \<times> hist_stream) \<times> store \<Rightarrow> (string \<times> hist_stream) \<times> store" where
  "on_stream g u = (\<lambda>((k, s), st). ((k, g s), case u s of None \<Rightarrow> st | Some h \<Rightarrow> map_file (hs_path s) h st))"

lemma disk_map_file: "disk (map_file p f st) q = (if q = p then map_option f (disk st p) else disk st q)"
  by (simp add: map_file_def put_file_def split: option.split)

definition paths_of :: "(string \<times> hist_stream) list \<Rightarrow> string list" where
  "paths_of es = map (\<lambda>(k, s). hs_path s) es"

lemma each_stream_Cons:
  "each_stream (on_stream g u) ((k, s) # es) st =
    ((k, g s) # fst (each_stream (on_stream g u) es (case u s of None \<Rightarrow> st | Some h \<Rightarrow> map_file (hs_path s) h st)),
     snd (each_stream (on_stream g u) es (case u s of None \<Rightarrow> st | Some h \<Rightarrow> map_file (hs_path s) h st)))"
  by (simp add: on_stream_def Let_def case_prod_beta)

declare each_stream.simps(2) [simp del]

lemma each_stream_streams: "fst (each_stream (on_stream g u) es st) = map (\<lambda>(k, s). (k, g s)) es"
  by (induction es arbitrary: st) (auto simp: each_stream_Cons)

lemma each_stream_other: "p \<notin> set (paths_of es) \<Longrightarrow> disk (snd (each_stream (on_stream g u) es st)) p = disk st p"
proof (induction es arbitrary: st)
  case (Cons e es)
  then show ?case by (cases e) (simp add: each_stream_Cons paths_of_def disk_map_file split: option.split)
qed simp

lemma in_paths_of: "(k, s) \<in> set es \<Longrightarrow> hs_path s \<in> set (paths_of es)"
  by (force simp: paths_of_def)

lemma paths_of_Cons [simp]: "paths_of ((k, s) # es) = hs_path s # paths_of es"
  by (simp add: paths_of_def)

lemma each_stream_file:
  assumes "(k, s) \<in> set es" "distinct (paths_of es)"
  shows "disk (snd (each_stream (on_stream g u) es st)) (hs_path s) =
    map_option (case u s of None \<Rightarrow> id | Some h \<Rightarrow> h) (disk st (hs_path s))"
  using assms
proof (induction es arbitrary: st)
  case (Cons e es)
  obtain k' s' where e: "e = (k', s')" by (cases e)
  let ?st = "case u s' of None \<Rightarrow> st | Some h \<Rightarrow> map_file (hs_path s') h st"
  have split: "snd (each_stream (on_stream g u) (e # es) st) = snd (each_stream (on_stream g u) es ?st)"
    by (simp add: e each_stream_Cons)
  show ?case
  proof (cases "(k, s) \<in> set es")
    case True
    then have "hs_path s \<noteq> hs_path s'" using Cons.prems(2) in_paths_of [OF True] by (auto simp: e)
    then show ?thesis unfolding split using Cons.IH [OF True] Cons.prems(2)
      by (simp add: e disk_map_file split: option.split)
  next
    case False
    then have s: "s' = s" using Cons.prems(1) by (simp add: e)
    have "hs_path s \<notin> set (paths_of es)" using Cons.prems(2) by (simp add: e s)
    then show ?thesis unfolding split each_stream_other [OF \<open>hs_path s \<notin> set (paths_of es)\<close>]
      by (simp add: s disk_map_file option.map_ident split: option.split)
  qed
qed simp

definition ranged :: "bytes \<Rightarrow> bytes \<Rightarrow> hist_stream \<Rightarrow> hist_stream" where
  "ranged lo hi s = (if hs_range s = None then s\<lparr> hs_range := Some (lo, hi) \<rparr> else s)"

definition range_write :: "bytes \<Rightarrow> bytes \<Rightarrow> hist_stream \<Rightarrow> (string \<Rightarrow> string) option" where
  "range_write lo hi s = (if hs_range s = None then Some (\<lambda>t. chars_of (splice 30 (lo @ hi) (bytes_of t))) else None)"

lemma set_range_on: "set_range lo hi = on_stream (ranged lo hi) (range_write lo hi)"
  by (auto simp: set_range_def on_stream_def ranged_def range_write_def fun_eq_iff)

definition one_more :: "bytes \<Rightarrow> hist_stream \<Rightarrow> hist_stream" where
  "one_more row s = (case stream_row (hs_fft_size s) row of None \<Rightarrow> s | Some r \<Rightarrow> s\<lparr> hs_rows := hs_rows s + 1 \<rparr>)"

definition row_write :: "bytes \<Rightarrow> hist_stream \<Rightarrow> (string \<Rightarrow> string) option" where
  "row_write row s = map_option (\<lambda>r t. t @ chars_of r) (stream_row (hs_fft_size s) row)"

lemma add_row_on: "add_row row = on_stream (one_more row) (row_write row)"
  by (auto simp: add_row_def on_stream_def one_more_def row_write_def fun_eq_iff split: option.split)

lemma length_stream_row: "stream_row w row = Some r \<Longrightarrow> length r = w"
  by (auto simp: stream_row_def fold_row_def split: if_splits)

section \<open>The invariant\<close>

abbreviation range_bytes :: "string \<Rightarrow> bytes" where "range_bytes t \<equiv> take 8 (drop 30 (bytes_of t))"

definition stream_ok :: "store \<Rightarrow> hist_stream \<Rightarrow> bool" where
  "stream_ok st s \<longleftrightarrow> suffix ''-LIVE.bewehist'' (hs_path s) \<and>
     (\<exists>t. disk st (hs_path s) = Some t \<and> length t = hdr_size + hs_rows s * hs_fft_size s \<and>
        (case hs_range s of None \<Rightarrow> hs_rows s = 0
         | Some (lo, hi) \<Rightarrow> length lo = 4 \<and> length hi = 4 \<and> range_bytes t = lo @ hi))"

definition streams_ok :: "hist_room \<Rightarrow> bool" where
  "streams_ok R \<longleftrightarrow> distinct (map fst (ha_streams R)) \<and> distinct (paths_of (ha_streams R)) \<and>
     (\<forall>(k, s)\<in>set (ha_streams R). length k \<le> 63 \<and> stream_ok (ha_store R) s)"

lemma stream_ok_cong: "disk st (hs_path s) = disk st' (hs_path s) \<Longrightarrow> stream_ok st s = stream_ok st' s"
  by (simp add: stream_ok_def)

text \<open>Names given to finished files are not names of open ones.\<close>

lemma not_live:
  assumes "last x \<noteq> CHR ''E''" "x \<noteq> []"
  shows "\<not> suffix ''-LIVE.bewehist'' (x @ ''.bewehist'')"
proof
  assume "suffix ''-LIVE.bewehist'' (x @ ''.bewehist'')"
  then obtain A where "x @ ''.bewehist'' = A @ ''-LIVE.bewehist''" by (auto simp: suffix_def)
  then have "x @ ''.bewehist'' = (A @ ''-LIVE'') @ ''.bewehist''" by simp
  then have "x = A @ ''-LIVE''" by (simp only: append_same_eq)
  then show False using assms(1) by simp
qed

lemma digit_not_E: "n < 10 \<Longrightarrow> char_of (n + 48) \<noteq> CHR ''E''" for n :: nat
proof
  assume n: "n < 10" and "char_of (n + 48) = CHR ''E''"
  then have "of_char (char_of (n + 48)) = (of_char (CHR ''E'') :: nat)" by simp
  then show False using n by (simp add: of_char_of)
qed

lemma last_dec_str: "last (dec_str n) \<noteq> CHR ''E''" "dec_str n \<noteq> []"
proof -
  show "last (dec_str n) \<noteq> CHR ''E''"
    by (subst dec_str.simps) (use digit_not_E [of n] digit_not_E [of "n mod 10"] in auto)
  show "dec_str n \<noteq> []" by (subst dec_str.simps) simp
qed

lemma tail_digits: "\<exists>x. hhmm_tail t = x @ ''.bewehist'' \<and> x \<noteq> [] \<and> last x \<noteq> CHR ''E''"
proof -
  obtain h m where k: "kst_hm t = (h, m)" by (cases "kst_hm t")
  have m: "0 \<le> m mod 10" "m mod 10 < 10" by simp_all
  then have "nat (m mod 10) < 10" by linarith
  then have "last (''-'' @ two_digits h @ two_digits m) \<noteq> CHR ''E''"
    using digit_not_E [of "nat (m mod 10)"] by (simp add: two_digits_def)
  moreover have "hhmm_tail t = (''-'' @ two_digits h @ two_digits m) @ ''.bewehist''" by (simp add: hhmm_tail_def k)
  ultimately show ?thesis by blast
qed

lemma final_free_not_live:
  assumes "\<exists>x. cand = x @ ''.bewehist'' \<and> x \<noteq> [] \<and> last x \<noteq> CHR ''E''"
  shows "\<not> suffix ''-LIVE.bewehist'' (final_free fs dir fin k n cand)"
  using assms
proof (induction fs dir fin k n cand rule: final_free.induct)
  case (1 fs dir fin n cand)
  then show ?case using not_live by auto
next
  case (2 fs dir fin k n cand)
  show ?case
  proof (cases "fs cand = None \<or> before_last ''.bewehist'' fin = None")
    case True
    then show ?thesis using 2(2) not_live by auto
  next
    case False
    then obtain p where p: "fs cand \<noteq> None" "before_last ''.bewehist'' fin = Some p" by blast
    let ?x = "path_in dir (p @ ''_'' @ dec_str n)"
    have "path_in dir (p @ ''_'' @ dec_str n @ ''.bewehist'') = ?x @ ''.bewehist''" by (simp add: path_in_def)
    moreover have "last ?x \<noteq> CHR ''E''" using last_dec_str [of n] by (simp add: path_in_def)
    ultimately show ?thesis using 2(1) [OF p] p by (auto simp: path_in_def)
  qed
qed

section \<open>Closing\<close>

lemma live_prefix:
  assumes "suffix ''-LIVE.bewehist'' p"
  shows "\<not> suffix ''-LIVE.bewehist'' (p @ ''.info'')"
proof
  assume "suffix ''-LIVE.bewehist'' (p @ ''.info'')"
  then obtain A where "p @ ''.info'' = A @ ''-LIVE.bewehist''" by (auto simp: suffix_def)
  then have "rev (p @ ''.info'') = rev (A @ ''-LIVE.bewehist'')" by (rule arg_cong)
  then show False by simp
qed

lemma finalize_not_live:
  assumes "build_hist_filename_finalize fname t \<noteq> fname"
  shows "\<exists>x. path_in dir (build_hist_filename_finalize fname t) = x @ ''.bewehist'' \<and> x \<noteq> [] \<and> last x \<noteq> CHR ''E''"
proof -
  obtain p where p: "before_last ''-LIVE.bewehist'' fname = Some p"
    using assms by (auto simp: build_hist_filename_finalize_def split: option.splits)
  obtain x where "hhmm_tail t = x @ ''.bewehist''" "x \<noteq> []" "last x \<noteq> CHR ''E''" using tail_digits by blast
  then have "path_in dir (build_hist_filename_finalize fname t) = path_in dir (p @ x) @ ''.bewehist''"
    "path_in dir (p @ x) \<noteq> []" "last (path_in dir (p @ x)) \<noteq> CHR ''E''"
    by (simp_all add: build_hist_filename_finalize_def p path_in_def)
  then show ?thesis by blast
qed

lemma stop_other:
  assumes "map_of (ha_streams R) k = Some s" "suffix ''-LIVE.bewehist'' (hs_path s)"
    and "suffix ''-LIVE.bewehist'' q" "q \<noteq> hs_path s"
  shows "disk (ha_store (archive_hist_on_live_stop c ok now k R)) q = disk (ha_store R) q"
proof -
  have i: "q \<noteq> hs_path s @ ''.info''" using live_prefix [OF assms(2)] assms(3) by blast
  obtain dir fname where d: "(case find_last_of CHR ''/'' (hs_path s) of None \<Rightarrow> ([], hs_path s)
      | Some k \<Rightarrow> (take k (hs_path s), drop (Suc k) (hs_path s))) = (dir, fname)"
    by (meson surj_pair)
  let ?fin = "build_hist_filename_finalize fname (int now)"
  have "?fin \<noteq> fname \<Longrightarrow> q \<noteq> final_free (disk (ha_store R)) dir ?fin 98 2 (path_in dir ?fin)"
    using final_free_not_live [OF finalize_not_live] assms(3) by metis
  then show ?thesis using i assms(4)
    by (auto simp: archive_hist_on_live_stop_def assms(1) Let_def d disk_rename_file)
qed

lemma stop_streams:
  "ha_streams (archive_hist_on_live_stop c ok now k R) = filter (\<lambda>(k', _). k' \<noteq> k) (ha_streams R)"
proof (cases "map_of (ha_streams R) k")
  case None
  then have "filter (\<lambda>(k', _). k' \<noteq> k) (ha_streams R) = ha_streams R"
    by (force simp: map_of_eq_None_iff filter_id_conv)
  then show ?thesis by (simp add: archive_hist_on_live_stop_def None)
next
  case (Some s)
  then show ?thesis by (simp add: archive_hist_on_live_stop_def Let_def split: prod.split)
qed

lemma paths_of_filter: "distinct (paths_of es) \<Longrightarrow> distinct (paths_of (filter P es))"
  by (auto simp: paths_of_def distinct_map_filter)

lemma map_fst_filter: "distinct (map fst es) \<Longrightarrow> distinct (map fst (filter P es))"
  by (rule distinct_map_filter)

lemma distinct_path:
  assumes "distinct (paths_of es)" "(k, s) \<in> set es" "(k', s') \<in> set es" "hs_path s = hs_path s'"
  shows "(k, s) = (k', s')"
  using assms by (auto simp: paths_of_def distinct_map inj_on_def)

lemma stop_keeps:
  assumes "streams_ok R" and "(k', s') \<in> set (ha_streams (archive_hist_on_live_stop c ok now k R))"
  shows "disk (ha_store (archive_hist_on_live_stop c ok now k R)) (hs_path s') = disk (ha_store R) (hs_path s')"
proof (cases "map_of (ha_streams R) k")
  case None
  then show ?thesis by (simp add: archive_hist_on_live_stop_def)
next
  case (Some s)
  have s: "(k, s) \<in> set (ha_streams R)" using Some by (rule map_of_SomeD)
  have s': "(k', s') \<in> set (ha_streams R)" "k' \<noteq> k" using assms(2) by (auto simp: stop_streams)
  have "hs_path s' \<noteq> hs_path s" using distinct_path [OF _ s s'(1)] s'(2) assms(1) by (auto simp: streams_ok_def)
  moreover have "suffix ''-LIVE.bewehist'' (hs_path s)" "suffix ''-LIVE.bewehist'' (hs_path s')"
    using assms(1) s s'(1) by (auto simp: streams_ok_def stream_ok_def)
  ultimately show ?thesis by (intro stop_other [OF Some]) auto
qed

lemma stop_ok: "streams_ok R \<Longrightarrow> streams_ok (archive_hist_on_live_stop c ok now k R)"
proof -
  assume R: "streams_ok R"
  let ?S = "archive_hist_on_live_stop c ok now k R"
  have "length k' \<le> 63 \<and> stream_ok (ha_store ?S) s'" if s: "(k', s') \<in> set (ha_streams ?S)" for k' s'
  proof -
    have "(k', s') \<in> set (ha_streams R)" using s by (simp add: stop_streams)
    then show ?thesis using R stream_ok_cong [OF stop_keeps [OF R s]] by (auto simp: streams_ok_def)
  qed
  then show ?thesis using R
    by (auto simp: streams_ok_def stop_streams intro: paths_of_filter map_fst_filter)
qed

lemma stops:
  assumes "streams_ok R" and S_def: "S = (\<lambda>ks. fold (\<lambda>k. archive_hist_on_live_stop c ok now (take 63 k)) ks R)"
  shows "streams_ok (S ks) \<and> ha_streams (S ks) = filter (\<lambda>(k, _). k \<notin> set (map (take 63) ks)) (ha_streams R) \<and>
    (\<forall>(k, s)\<in>set (ha_streams (S ks)). disk (ha_store (S ks)) (hs_path s) = disk (ha_store R) (hs_path s))"
proof (induction ks rule: rev_induct)
  case Nil
  then show ?case using assms by (auto simp: S_def filter_id_conv)
next
  case (snoc k ks)
  let ?T = "S ks"
  have e: "S (ks @ [k]) = archive_hist_on_live_stop c ok now (take 63 k) ?T" by (simp add: S_def)
  have f: "ha_streams (S (ks @ [k])) = filter (\<lambda>(k', _). k' \<notin> set (map (take 63) (ks @ [k]))) (ha_streams R)"
    unfolding e stop_streams using snoc by (auto intro!: filter_cong)
  have "disk (ha_store (S (ks @ [k]))) (hs_path s) = disk (ha_store R) (hs_path s)" if "(k', s) \<in> set (ha_streams (S (ks @ [k])))" for k' s
  proof -
    have "(k', s) \<in> set (ha_streams ?T)" using that unfolding e stop_streams by simp
    then show ?thesis using snoc stop_keeps [OF conjunct1 [OF snoc] that [unfolded e]] unfolding e by auto
  qed
  then show ?case using f stop_ok [OF conjunct1 [OF snoc]] unfolding e by auto
qed

section \<open>A frame\<close>

lemma frame_range_length:
  assumes "frame_row Z body = Some (row, lo, hi)"
  shows "length lo = 4" "length hi = 4"
proof -
  have o: "size_of PktFftFrame = 48" "offset_of PktFftFrame ''power_min'' = Some 16" "offset_of PktFftFrame ''power_max'' = Some 20"
    by (simp_all add: PktFftFrame_def)
  have "\<not> length body < 48" using assms by (auto simp: frame_row_def o split: if_splits)
  moreover have "lo = take 4 (drop 16 body)" "hi = take 4 (drop 20 body)"
    using assms by (auto simp: frame_row_def o at_member_def Let_def split: if_splits)
  ultimately show "length lo = 4" "length hi = 4" by simp_all
qed

lemma splice_range:
  assumes "length t \<ge> hdr_size" "length b = 8"
  shows "take 8 (drop 30 (splice 30 b t)) = b" "drop hdr_size (splice 30 b t) = drop hdr_size t" "length (splice 30 b t) = length t"
  using assms by (simp_all add: splice_def)

lemma ranged_simps [simp]:
  "hs_path (ranged lo hi s) = hs_path s" "hs_rows (ranged lo hi s) = hs_rows s" "hs_fft_size (ranged lo hi s) = hs_fft_size s"
  "hs_path (one_more row s) = hs_path s" "hs_fft_size (one_more row s) = hs_fft_size s"
  "hs_range (one_more row s) = hs_range s"
  by (simp_all add: ranged_def one_more_def split: option.split)

lemma paths_of_map: "(\<And>s. hs_path (g s) = hs_path s) \<Longrightarrow> paths_of (map (\<lambda>(k, s). (k, g s)) es) = paths_of es"
  by (auto simp: paths_of_def)

lemma keys_map: "map fst (map (\<lambda>(k, s). (k, g s)) es) = map fst es"
  by auto

text \<open>What a frame has done to the file of a stream.\<close>

definition recorded :: "bytes \<Rightarrow> bytes \<Rightarrow> bytes \<Rightarrow> nat \<Rightarrow> nat \<Rightarrow> string \<Rightarrow> string \<Rightarrow> bool" where
  "recorded row lo hi w rows t t' \<longleftrightarrow>
     drop hdr_size t' = drop hdr_size t @ (case stream_row w row of None \<Rightarrow> [] | Some r \<Rightarrow> chars_of r) \<and>
     (\<exists>a b. range_bytes t' = a @ b \<and> length a = 4 \<and> length b = 4 \<and> (a = lo \<or> f32_eq lo a) \<and> (b = hi \<or> f32_eq hi b)) \<and>
     (rows > 0 \<longrightarrow> take hdr_size t' = take hdr_size t)"

lemma set_ranges:
  assumes R: "streams_ok R" and l: "length lo = 4" "length hi = 4"
    and s: "each_stream (set_range lo hi) (ha_streams R) (ha_store R) = (ss, st)"
  shows "streams_ok (R\<lparr> ha_streams := ss, ha_store := st \<rparr>)" "ss = map (\<lambda>(k, s). (k, ranged lo hi s)) (ha_streams R)"
    and "(k, s) \<in> set (ha_streams R) \<Longrightarrow> disk st (hs_path s) =
      map_option (if hs_range s = None then \<lambda>t. chars_of (splice 30 (lo @ hi) (bytes_of t)) else id) (disk (ha_store R) (hs_path s))"
proof -
  show ss: "ss = map (\<lambda>(k, s). (k, ranged lo hi s)) (ha_streams R)"
    using each_stream_streams [of "ranged lo hi" "range_write lo hi" "ha_streams R" "ha_store R"] s by (simp add: set_range_on)
  have d: "distinct (paths_of (ha_streams R))" using R by (simp add: streams_ok_def)
  show f: "disk st (hs_path s) =
      map_option (if hs_range s = None then \<lambda>t. chars_of (splice 30 (lo @ hi) (bytes_of t)) else id) (disk (ha_store R) (hs_path s))"
    if "(k, s) \<in> set (ha_streams R)" for k s
    using each_stream_file [OF that d, of "ranged lo hi" "range_write lo hi" "ha_store R"] s
    by (simp add: set_range_on range_write_def)
  have "length k \<le> 63 \<and> stream_ok st (ranged lo hi s)" if m: "(k, s) \<in> set (ha_streams R)" for k s
  proof -
    have o: "length k \<le> 63" "stream_ok (ha_store R) s" using R m by (auto simp: streams_ok_def)
    then obtain t where t: "disk (ha_store R) (hs_path s) = Some t" "length t = hdr_size + hs_rows s * hs_fft_size s"
      "case hs_range s of None \<Rightarrow> hs_rows s = 0 | Some (lo, hi) \<Rightarrow> length lo = 4 \<and> length hi = 4 \<and> range_bytes t = lo @ hi"
      "suffix ''-LIVE.bewehist'' (hs_path s)"
      unfolding stream_ok_def by blast
    have h: "hdr_size \<le> length (bytes_of t)" "length (lo @ hi) = 8" using t(2) l by simp_all
    show ?thesis using o(1) t f [OF m] l splice_range [OF h]
      by (cases "hs_range s") (auto simp: stream_ok_def ranged_def simp del: drop_append take_append)
  qed
  then show "streams_ok (R\<lparr> ha_streams := ss, ha_store := st \<rparr>)"
    using R unfolding ss streams_ok_def by (auto simp: paths_of_map keys_map simp del: map_map)
qed

lemma add_rows:
  assumes R: "streams_ok R" and ranged: "\<forall>(k, s)\<in>set (ha_streams R). hs_range s \<noteq> None"
    and s: "each_stream (add_row row) (ha_streams R) (ha_store R) = (ss, st)"
  shows "streams_ok (R\<lparr> ha_streams := ss, ha_store := st \<rparr>)" "ss = map (\<lambda>(k, s). (k, one_more row s)) (ha_streams R)"
    and "(k, s) \<in> set (ha_streams R) \<Longrightarrow> disk st (hs_path s) =
      map_option (\<lambda>t. t @ (case stream_row (hs_fft_size s) row of None \<Rightarrow> [] | Some r \<Rightarrow> chars_of r)) (disk (ha_store R) (hs_path s))"
proof -
  show ss: "ss = map (\<lambda>(k, s). (k, one_more row s)) (ha_streams R)"
    using each_stream_streams [of "one_more row" "row_write row" "ha_streams R" "ha_store R"] s by (simp add: add_row_on)
  have d: "distinct (paths_of (ha_streams R))" using R by (simp add: streams_ok_def)
  show f: "disk st (hs_path s) =
      map_option (\<lambda>t. t @ (case stream_row (hs_fft_size s) row of None \<Rightarrow> [] | Some r \<Rightarrow> chars_of r)) (disk (ha_store R) (hs_path s))"
    if "(k, s) \<in> set (ha_streams R)" for k s
    using each_stream_file [OF that d, of "one_more row" "row_write row" "ha_store R"] s
    by (cases "stream_row (hs_fft_size s) row") (simp_all add: add_row_on row_write_def option.map_ident option.map_id)
  have "length k \<le> 63 \<and> stream_ok st (one_more row s)" if m: "(k, s) \<in> set (ha_streams R)" for k s
  proof -
    have o: "length k \<le> 63" "stream_ok (ha_store R) s" "hs_range s \<noteq> None" using R ranged m by (auto simp: streams_ok_def)
    then obtain t lo hi where t: "disk (ha_store R) (hs_path s) = Some t" "length t = hdr_size + hs_rows s * hs_fft_size s"
      "hs_range s = Some (lo, hi)" "length lo = 4" "length hi = 4" "range_bytes t = lo @ hi"
      "suffix ''-LIVE.bewehist'' (hs_path s)"
      unfolding stream_ok_def by auto
    have "hdr_size \<le> length (bytes_of t)" using t(2) by simp
    then have rb: "range_bytes (t @ x) = range_bytes t" for x by simp
    show ?thesis using o(1) t f [OF m]
      by (cases "stream_row (hs_fft_size s) row") (auto simp: stream_ok_def one_more_def rb length_stream_row)
  qed
  then show "streams_ok (R\<lparr> ha_streams := ss, ha_store := st \<rparr>)"
    using R unfolding ss streams_ok_def by (auto simp: paths_of_map keys_map simp del: map_map)
qed

lemma frame_ok:
  assumes R: "streams_ok R" and row: "frame_row Z body = Some (row, lo, hi)"
    and R': "R' = archive_hist_on_fft Z c ok now body R"
  shows "streams_ok R'"
    and "(k, s') \<in> set (ha_streams R') \<Longrightarrow> \<exists>s t t'. (k, s) \<in> set (ha_streams R) \<and> hs_path s' = hs_path s \<and>
      hs_fft_size s' = hs_fft_size s \<and>
      disk (ha_store R) (hs_path s) = Some t \<and> disk (ha_store R') (hs_path s) = Some t' \<and>
      recorded row lo hi (hs_fft_size s) (hs_rows s) t t'"
proof -
  note l = frame_range_length [OF row]
  define ks where "ks = map fst (filter (\<lambda>(k, s). range_changed lo hi s) (ha_streams R))"
  obtain ss st where s1: "each_stream (set_range lo hi) (ha_streams R) (ha_store R) = (ss, st)" by (meson surj_pair)
  define R1 where "R1 = R\<lparr> ha_streams := ss, ha_store := st \<rparr>"
  define R2 where "R2 = fold (\<lambda>k. archive_hist_on_live_stop c ok now (take 63 k)) ks R1"
  obtain ss3 st3 where s3: "each_stream (add_row row) (ha_streams R2) (ha_store R2) = (ss3, st3)" by (meson surj_pair)
  have R1: "streams_ok R1" unfolding R1_def by (rule set_ranges(1) [OF R l s1])
  have R2: "streams_ok R2" "ha_streams R2 = filter (\<lambda>(k, _). k \<notin> set (map (take 63) ks)) ss"
    "\<forall>(k, s)\<in>set (ha_streams R2). disk (ha_store R2) (hs_path s) = disk st (hs_path s)"
    using stops [OF R1 refl, of c ok now ks] unfolding R2_def [symmetric] by (simp_all add: R1_def)
  have ss: "ss = map (\<lambda>(k, s). (k, ranged lo hi s)) (ha_streams R)" by (rule set_ranges(2) [OF R l s1])
  have surv: "\<exists>s. (k, s) \<in> set (ha_streams R) \<and> s2 = ranged lo hi s \<and> \<not> range_changed lo hi s" if "(k, s2) \<in> set (ha_streams R2)" for k s2
  proof -
    have k: "k \<notin> set (map (take 63) ks)" "(k, s2) \<in> set ss" using that unfolding R2(2) by auto
    then obtain s where s: "(k, s) \<in> set (ha_streams R)" "s2 = ranged lo hi s" unfolding ss by auto
    have "length k \<le> 63" using R s(1) by (auto simp: streams_ok_def)
    then have "take 63 k = k" by simp
    then have "k \<notin> set ks" using k(1) by force
    then have "\<not> range_changed lo hi s" using s(1) by (force simp: ks_def)
    then show ?thesis using s by blast
  qed
  have rd: "\<forall>(k, s)\<in>set (ha_streams R2). hs_range s \<noteq> None" using surv by (fastforce simp: ranged_def)
  have R3: "R' = (if ha_streams R = [] then R else R2\<lparr> ha_streams := ss3, ha_store := st3 \<rparr>)"
    unfolding R' archive_hist_on_fft_def Let_def row option.case prod.case s1 ks_def [symmetric] R1_def [symmetric]
      R2_def [symmetric] s3 ..
  show "streams_ok R'" using R add_rows(1) [OF R2(1) rd s3] by (simp add: R3)
  show "\<exists>s t t'. (k, s) \<in> set (ha_streams R) \<and> hs_path s' = hs_path s \<and> hs_fft_size s' = hs_fft_size s \<and>
      disk (ha_store R) (hs_path s) = Some t \<and> disk (ha_store R') (hs_path s) = Some t' \<and>
      recorded row lo hi (hs_fft_size s) (hs_rows s) t t'" if m: "(k, s') \<in> set (ha_streams R')"
  proof -
    have ne: "ha_streams R \<noteq> []" using m by (auto simp: R3 split: if_splits)
    then have st': "ha_store R' = st3" "ha_streams R' = ss3" by (simp_all add: R3)
    obtain s2 where s2: "(k, s2) \<in> set (ha_streams R2)" "s' = one_more row s2"
      using m unfolding st' add_rows(2) [OF R2(1) rd s3] by auto
    obtain s where s: "(k, s) \<in> set (ha_streams R)" "s2 = ranged lo hi s" "\<not> range_changed lo hi s" using surv [OF s2(1)] by blast
    have so: "stream_ok (ha_store R) s" using R s(1) by (auto simp: streams_ok_def)
    obtain t where t: "disk (ha_store R) (hs_path s) = Some t" "length t = hdr_size + hs_rows s * hs_fft_size s"
      "case hs_range s of None \<Rightarrow> hs_rows s = 0 | Some (lo, hi) \<Rightarrow> length lo = 4 \<and> length hi = 4 \<and> range_bytes t = lo @ hi"
      using so unfolding stream_ok_def by blast
    define t1 where "t1 = (if hs_range s = None then chars_of (splice 30 (lo @ hi) (bytes_of t)) else t)"
    have t1: "disk st (hs_path s) = Some t1" using set_ranges(3) [OF R l s1 s(1)] t(1) by (simp add: t1_def)
    then have "disk (ha_store R2) (hs_path s) = Some t1" using R2(3) s2(1) s(2) by auto
    then have t3: "disk st3 (hs_path s) = Some (t1 @ (case stream_row (hs_fft_size s) row of None \<Rightarrow> [] | Some r \<Rightarrow> chars_of r))"
      using add_rows(3) [OF R2(1) rd s3 s2(1)] s(2) by simp
    have h: "hdr_size \<le> length (bytes_of t)" "length (lo @ hi) = 8" using t(2) l by simp_all
    have t1l: "length t1 = length t" using splice_range(3) [OF h] by (simp add: t1_def)
    have "drop hdr_size t1 = drop hdr_size t"
    proof -
      have "drop hdr_size (chars_of (splice 30 (lo @ hi) (bytes_of t))) = chars_of (drop hdr_size (splice 30 (lo @ hi) (bytes_of t)))"
        by (simp add: chars_of_def drop_map)
      also have "\<dots> = drop hdr_size (chars_of (bytes_of t))" unfolding splice_range(2) [OF h] by (simp only: chars_of_def drop_map)
      finally show ?thesis by (simp add: t1_def)
    qed
    then have d: "drop hdr_size (t1 @ x) = drop hdr_size t @ x" for x using t1l h(1) by simp
    have rb: "range_bytes (t1 @ x) = range_bytes t1" for x using t1l h(1) by simp
    have "\<exists>a b. range_bytes t1 = a @ b \<and> length a = 4 \<and> length b = 4 \<and> (a = lo \<or> f32_eq lo a) \<and> (b = hi \<or> f32_eq hi b)"
    proof (cases "hs_range s")
      case None
      then show ?thesis using splice_range(1) [OF h] l by (auto simp: t1_def simp del: take_append drop_append)
    next
      case (Some r)
      then obtain a b where "hs_range s = Some (a, b)" by (cases r) simp
      then show ?thesis using t(3) s(3) by (auto simp: t1_def range_changed_def)
    qed
    moreover have "take hdr_size (t1 @ x) = take hdr_size t" if "hs_rows s > 0" for x
      using that t h(1) by (cases "hs_range s") (auto simp: t1_def)
    ultimately have "recorded row lo hi (hs_fft_size s) (hs_rows s) t
        (t1 @ (case stream_row (hs_fft_size s) row of None \<Rightarrow> [] | Some r \<Rightarrow> chars_of r))"
      unfolding recorded_def d rb by blast
    then show ?thesis using s(1,2) t(1) t3 s2(2) unfolding st'(1)
      by (intro exI [of _ s] exI [of _ t]
          exI [of _ "t1 @ (case stream_row (hs_fft_size s) row of None \<Rightarrow> [] | Some r \<Rightarrow> chars_of r)"]) simp
  qed
qed

section \<open>Opening, and all runs\<close>

lemma suffix_live: "suffix ''-LIVE.bewehist'' (path_in dir n)" if "suffix ''-LIVE.bewehist'' n"
  using that by (auto simp: path_in_def suffix_def)

lemma live_free_suffix:
  "suffix ''-LIVE.bewehist'' cand \<Longrightarrow> suffix ''-LIVE.bewehist'' (live_free fs dir fname k n cand)"
proof (induction fs dir fname k n cand rule: live_free.induct)
  case (2 fs dir fname k n cand)
  have "suffix ''-LIVE.bewehist'' (path_in dir (p @ ''_'' @ dec_str n @ ''-LIVE.bewehist''))" for p
    by (rule suffix_live) (simp add: suffix_def)
  then show ?case using 2 by (auto split: option.split)
qed simp

lemma live_start_size: "size_of PktLwfLiveStart = 156" "offset_of PktLwfLiveStart ''fft_row_rate_hz'' = Some 152"
  by (simp_all add: PktLwfLiveStart_def)

lemma length_live_header: "length ls = 156 \<Longrightarrow> length (live_header ls) = 128"
  by (simp add: live_header_def ls_field_def at_member_def PktLwfLiveStart_def bytes_of_def)

text \<open>The path a start packet would use.\<close>

definition start_path :: "string \<Rightarrow> bytes \<Rightarrow> hist_room \<Rightarrow> string option" where
  "start_path base body R =
     (case ha_active R of None \<Rightarrow> None
      | Some (station, year, code) \<Rightarrow>
          map_option (\<lambda>dir. live_free (disk (ha_store R)) dir (text_of 64 body) 98 2 (path_in dir (text_of 64 body)))
            (archive_dir base station year code MFS_HIST))"

lemma start_ok:
  assumes R: "streams_ok R" and n: "suffix ''-LIVE.bewehist'' (text_of 64 body)" "length (text_of 64 body) \<le> 63"
    and fresh: "\<forall>p. start_path base body R = Some p \<longrightarrow> disk (ha_store R) p = None"
  shows "streams_ok (on_lwf_live_start ok base body R)"
proof (cases "length body < 152")
  case False
  define ls where "ls = take 156 (body @ replicate 156 0)"
  have ls: "length ls = 156" "text_of 64 ls = text_of 64 body"
    using False by (simp_all add: ls_def text_of_def cstr_def)
  have e: "on_lwf_live_start ok base body R = archive_hist_on_live_start ok base ls R"
    using False by (simp add: on_lwf_live_start_def live_start_size ls_def)
  let ?fname = "text_of 64 body"
  show ?thesis
  proof (cases "ha_active R")
    case None
    then show ?thesis using R by (simp add: e archive_hist_on_live_start_def)
  next
    case (Some a)
    obtain station year code where a: "ha_active R = Some (station, year, code)" using Some by (cases a) auto
    show ?thesis
    proof (cases "archive_dir base station year code MFS_HIST")
      case None
      then show ?thesis using R by (simp add: e archive_hist_on_live_start_def a Let_def)
    next
      case (Some dir)
      define p where "p = live_free (disk (ha_store R)) dir ?fname 98 2 (path_in dir ?fname)"
      have fr: "disk (ha_store R) p = None" using fresh by (simp add: start_path_def a Some p_def)
      have lp: "suffix ''-LIVE.bewehist'' p" unfolding p_def by (rule live_free_suffix [OF suffix_live [OF n(1)]])
      let ?o = "filter (\<lambda>(k, _). k \<noteq> ?fname) (ha_streams R)"
      let ?s = "\<lparr> hs_path = p, hs_fft_size = le_nat (ls_field ''fft_size'' 4 ls), hs_rows = 0,
                     hs_start_utc = le_nat (ls_field ''start_utc_unix'' 8 ls), hs_range = None \<rparr>"
      have sub: "set ?o \<subseteq> set (ha_streams R)" by auto
      have d: "distinct (map fst ?o)" "distinct (paths_of ?o)" using R paths_of_filter map_fst_filter
        unfolding streams_ok_def by blast+
      have pn: "hs_path s \<noteq> p" if "(k, s) \<in> set (ha_streams R)" for k s
        using R that fr by (auto simp: streams_ok_def stream_ok_def)
      have po: "p \<notin> set (paths_of ?o)" using pn by (auto simp: paths_of_def)
      have ok1: "stream_ok (mkdir_p dir (ha_store R)) s = stream_ok (ha_store R) s" for s by (rule stream_ok_cong) simp
      have ok2: "stream_ok (put_file p x (mkdir_p dir (ha_store R))) s = stream_ok (ha_store R) s" if "hs_path s \<noteq> p" for s x
        by (rule stream_ok_cong) (use that in \<open>simp add: put_file_def\<close>)
      have new: "stream_ok (put_file p (chars_of (live_header ls)) (mkdir_p dir (ha_store R))) ?s"
        using lp length_live_header [OF ls(1)] by (simp add: stream_ok_def put_file_def)
      have r: "archive_hist_on_live_start ok base ls R =
          (if \<not> path_component_safe 128 ?fname then R
           else if \<not> ok then R\<lparr> ha_store := mkdir_p dir (ha_store R), ha_streams := ?o \<rparr>
           else R\<lparr> ha_store := put_file p (chars_of (live_header ls)) (mkdir_p dir (ha_store R)), ha_streams := ?o @ [(?fname, ?s)] \<rparr>)"
        unfolding archive_hist_on_live_start_def a option.case prod.case Let_def ls(2) Some disk_mkdir_p p_def [symmetric] ..
      have old: "length k \<le> 63 \<and> stream_ok (ha_store R) s \<and> hs_path s \<noteq> p" if "(k, s) \<in> set ?o" for k s
        using that R pn by (auto simp: streams_ok_def)
      have new_dist: "distinct (map fst (?o @ [(?fname, ?s)]))" "distinct (paths_of (?o @ [(?fname, ?s)]))"
        using d po by (auto simp: paths_of_def)
      show ?thesis unfolding e r streams_ok_def using R d new_dist old ok1 ok2 new n(2)
        by (auto simp: streams_ok_def)
    qed
  qed
next
  case True
  then show ?thesis using R by (simp add: on_lwf_live_start_def live_start_size)
qed

text \<open>
  The events of a room.  A HOST names its streams \<^verbatim>\<open>...-LIVE.bewehist\<close>; the name the relay
  settles on is free unless 98 files with that name are already there.
\<close>

inductive hist_step :: "zstd \<Rightarrow> string \<Rightarrow> hist_room \<Rightarrow> hist_room \<Rightarrow> bool" for Z base where
  start: "suffix ''-LIVE.bewehist'' (text_of 64 body) \<Longrightarrow> length (text_of 64 body) \<le> 63 \<Longrightarrow>
     \<forall>p. start_path base body R = Some p \<longrightarrow> disk (ha_store R) p = None \<Longrightarrow>
     hist_step Z base R (on_lwf_live_start ok base body R)"
| frame: "hist_step Z base R (archive_hist_on_fft Z compress_on ok now body R)"
| stop: "hist_step Z base R (archive_hist_on_live_stop compress_on ok now fname R)"
| mission: "hist_step Z base R (update_active_mission_shadow body R)"

lemma frame_streams_ok: "streams_ok R \<Longrightarrow> streams_ok (archive_hist_on_fft Z c ok now body R)"
proof (cases "frame_row Z body")
  case None
  then show "streams_ok R \<Longrightarrow> ?thesis" by (simp add: archive_hist_on_fft_def)
next
  case (Some x)
  then show "streams_ok R \<Longrightarrow> ?thesis" by (cases x) (rule frame_ok(1) [OF _ _ refl], simp_all)
qed

lemma step_streams_ok: "hist_step Z base R R' \<Longrightarrow> streams_ok R \<Longrightarrow> streams_ok R'"
proof (induction rule: hist_step.induct)
  case (start body R ok)
  then show ?case by (intro start_ok)
next
  case (mission R body)
  then show ?case by (simp add: update_active_mission_shadow_def streams_ok_def Let_def)
qed (simp_all add: frame_streams_ok stop_ok)

lemma run_streams_ok: "(hist_step Z base)\<^sup>*\<^sup>* R R' \<Longrightarrow> streams_ok R \<Longrightarrow> streams_ok R'"
  by (induction rule: rtranclp_induct) (simp_all add: step_streams_ok)


text \<open>A stream of rows of two bytes and a frame for it.\<close>

definition example_start :: bytes where
  "example_start = str_buf 64 (bytes_of ''a-LIVE.bewehist'') @ [2, 0, 0, 0, 2, 0, 0, 0] @ replicate 84 0"

definition example_frame :: bytes where
  "example_frame = replicate 12 0 @ [2, 0, 0, 0x80] @ [1, 2, 3, 4] @ [5, 6, 7, 8] @ replicate 24 0 @ [7, 9]"

definition example_room :: hist_room where
  "example_room = \<lparr> ha_streams = [], ha_store = \<lparr> disk = Map.empty, dirs = {} \<rparr>, ha_active = Some (''S'', 2026, ''A01''),
     ha_compress = [] \<rparr>"

lemma example_start_name: "text_of 64 example_start = ''a-LIVE.bewehist''"
  unfolding example_start_def by (rule text_of_str_buf) simp_all

lemma example_frame_row: "frame_row stored example_frame = Some ([7, 9], [1, 2, 3, 4], [5, 6, 7, 8])"
  by (simp add: frame_row_def example_frame_def PktFftFrame_def at_member_def FFT_FFT_SIZE_MASK_def FFT_FLAG_QUANT_U8_def
      FFT_FLAG_ZSTD_def FFT_FLAG_QUANT_U6_def Let_def)

lemma example_started:
  "\<exists>p st. on_lwf_live_start True ''DB'' example_start example_room =
     example_room\<lparr> ha_store := st, ha_streams := [(''a-LIVE.bewehist'',
       \<lparr> hs_path = p, hs_fft_size = 2, hs_rows = 0, hs_start_utc = 0, hs_range = None \<rparr>)] \<rparr>"
proof -
  have l: "length example_start = 156" by (simp add: example_start_def)
  have z: "take 156 (example_start @ replicate 156 0) = example_start" using l by simp
  have f: "le_nat (ls_field ''fft_size'' 4 example_start) = 2" "le_nat (ls_field ''start_utc_unix'' 8 example_start) = 0"
    by (simp_all add: ls_field_def at_member_def PktLwfLiveStart_def example_start_def le_nat_zeros)
  obtain dir where d: "archive_dir ''DB'' ''S'' 2026 ''A01'' MFS_HIST = Some dir"
    by (simp add: archive_dir_def mission_dir_def subdir_name_def MFS_HIST_def MFS_IQ_def MFS_AUDIO_def path_component_safe_def)
  have s: "path_component_safe 128 ''a-LIVE.bewehist''" by (simp add: path_component_safe_def)
  show ?thesis
    by (simp add: on_lwf_live_start_def live_start_size l z archive_hist_on_live_start_def example_room_def d f Let_def
        example_start_name s)
qed


end
