(* ===== verification/Kst.thy ===== *)
theory Kst
  imports HistMerge
begin

text \<open>
  Time in Korea (\<^verbatim>\<open>src/kst_time.hpp\<close>), the codes of missions (\<^verbatim>\<open>src/mission.hpp\<close>) and the names of
  history files (\<^verbatim>\<open>src/long_waterfall.hpp\<close>).  Times are seconds since 1970 and not negative.
\<close>

section \<open>Calendar\<close>

text \<open>The members of \<^verbatim>\<open>struct tm\<close> that are used; the year is not relative to 1900.\<close>

record tm =
  tm_year :: nat
  tm_mon :: nat
  tm_mday :: nat
  tm_yday :: nat
  tm_hour :: nat
  tm_min :: nat
  tm_sec :: nat

definition leap_year :: "nat \<Rightarrow> bool" where
  "leap_year y \<longleftrightarrow> y mod 4 = 0 \<and> (y mod 100 \<noteq> 0 \<or> y mod 400 = 0)"

definition year_len :: "nat \<Rightarrow> nat" where
  "year_len y = (if leap_year y then 366 else 365)"

definition month_lens :: "nat \<Rightarrow> nat list" where
  "month_lens y = [31, if leap_year y then 29 else 28, 31, 30, 31, 30, 31, 31, 30, 31, 30, 31]"

lemma year_len_pos: "0 < year_len y"
  by (simp add: year_len_def)

text \<open>The year and the day of the year, and the month and the day of the month, both from zero.\<close>

function year_of :: "nat \<Rightarrow> nat \<Rightarrow> nat \<times> nat" where
  "year_of y d = (if d < year_len y then (y, d) else year_of (y + 1) (d - year_len y))"
  by auto
termination
proof (relation "measure snd")
  fix y d :: nat
  assume "\<not> d < year_len y"
  then have "d - year_len y < d" using year_len_pos [of y] by linarith
  then show "((y + 1, d - year_len y), y, d) \<in> measure snd" by simp
qed simp

declare year_of.simps [simp del]

fun month_of :: "nat list \<Rightarrow> nat \<Rightarrow> nat \<times> nat" where
  "month_of [] d = (0, d)"
| "month_of (l # ls) d = (if d < l then (0, d) else (case month_of ls (d - l) of (m, r) \<Rightarrow> (Suc m, r)))"

definition gmtime :: "nat \<Rightarrow> tm" where
  "gmtime t =
     (let (y, yd) = year_of 1970 (t div 86400); (m, md) = month_of (month_lens y) yd; s = t mod 86400
      in \<lparr> tm_year = y, tm_mon = m, tm_mday = md + 1, tm_yday = yd,
           tm_hour = s div 3600, tm_min = s mod 3600 div 60, tm_sec = s mod 60 \<rparr>)"

definition OFFSET_SEC :: nat where "OFFSET_SEC = 9 * 3600"

definition to_tm :: "nat \<Rightarrow> tm" where "to_tm t = gmtime (t + OFFSET_SEC)"

definition kst_day_id :: "nat \<Rightarrow> nat" where
  "kst_day_id now = tm_year (to_tm now) * 1000 + tm_yday (to_tm now)"

definition kst_hour_id :: "nat \<Rightarrow> nat" where "kst_hour_id now = (now + OFFSET_SEC) div 3600"

section \<open>Mission codes\<close>

definition mission_letter :: "nat \<Rightarrow> char" where "mission_letter mon = char_of (of_char CHR ''A'' + mon)"

definition two_dec :: "nat \<Rightarrow> string" where
  "two_dec n = (if n < 10 then ''0'' @ dec_str n else dec_str n)"

definition make_code :: "nat \<Rightarrow> nat \<Rightarrow> string" where
  "make_code mon mday = take 7 (mission_letter mon # two_dec mday)"

definition parse_code :: "string \<Rightarrow> (nat \<times> nat) option" where
  "parse_code code =
     (case code of
        [l, a, b] \<Rightarrow>
          (let n = of_char l :: nat; d = atoi [a, b]
           in if n < of_char CHR ''A'' \<or> n > of_char CHR ''L'' \<or> d < 1 \<or> d > 31 then None
              else Some (n - of_char CHR ''A'', nat d))
      | _ \<Rightarrow> None)"

section \<open>Names of history files\<close>

definition month_abbr3 :: "nat \<Rightarrow> string" where
  "month_abbr3 m = [''Jan'', ''Feb'', ''Mar'', ''Apr'', ''May'', ''Jun'', ''Jul'', ''Aug'', ''Sep'', ''Oct'', ''Nov'', ''Dec''] ! m"

definition hist_char_ok :: "char \<Rightarrow> bool" where
  "hist_char_ok c \<longleftrightarrow> is_digit c \<or> (let n = of_char c :: nat in 65 \<le> n \<and> n \<le> 90 \<or> 97 \<le> n \<and> n \<le> 122) \<or>
     c = CHR ''-'' \<or> c = CHR ''_'' \<or> c = CHR ''.''"

definition sanitize_station_hist :: "string \<Rightarrow> string" where
  "sanitize_station_hist sn = map (\<lambda>c. if hist_char_ok c then c else CHR ''_'') (if sn \<noteq> [] then sn else ''host'')"

text \<open>
  \<^verbatim>\<open>%.1f\<close> of \<^verbatim>\<open>cf / 1e6\<close>: the quotient is rounded to 53 bits, then to tenths, ties to even
  both times.  \<^verbatim>\<open>norm53\<close> finds the number of binary places.
\<close>

definition round_half_even :: "nat \<Rightarrow> nat \<Rightarrow> nat" where
  "round_half_even n d =
     (let q = n div d; r = n mod d in if 2 * r < d \<or> (2 * r = d \<and> even q) then q else q + 1)"

function norm53 :: "nat \<Rightarrow> nat \<Rightarrow> nat" where
  "norm53 n d = (if n = 0 \<or> d * 2 ^ 52 \<le> n then 0 else Suc (norm53 (2 * n) d))"
  by auto
termination by (relation "measure (\<lambda>(n, d). d * 2 ^ 52 - n)") auto

declare norm53.simps [simp del]

definition mhz_text :: "nat \<Rightarrow> string" where
  "mhz_text cf =
     (let k = norm53 cf 1000000; m = round_half_even (cf * 2 ^ k) 1000000; t = round_half_even (10 * m) (2 ^ k)
      in dec_str (t div 10) @ ''.'' @ dec_str (t mod 10))"

definition build_hist_filename_live :: "nat \<Rightarrow> nat \<Rightarrow> string \<Rightarrow> string" where
  "build_hist_filename_live start_utc cf_hz station =
     (let t = to_tm start_utc
      in take 127 (sanitize_station_hist station @ ''_'' @ [mission_letter (tm_mon t)] @ two_dec (tm_mday t) @ ''_'' @
                   month_abbr3 (tm_mon t) @ two_dec (tm_mday t) @ ''.'' @
                   replicate (4 - length (dec_str (tm_year t))) CHR ''0'' @ dec_str (tm_year t) @ ''_'' @
                   mhz_text cf_hz @ ''MHz_'' @ two_dec (tm_hour t) @ two_dec (tm_min t) @ ''-LIVE.bewehist''))"

section \<open>The calendar is sound\<close>

lemma year_of_sound:
  "year_of y d = (y', d') \<Longrightarrow> y \<le> y' \<and> d = (\<Sum>i\<in>{y..<y'}. year_len i) + d' \<and> d' < year_len y'"
proof (induction y d rule: year_of.induct)
  case (1 y d)
  show ?case
  proof (cases "d < year_len y")
    case True
    then show ?thesis using "1.prems" by (simp add: year_of.simps [of y d])
  next
    case False
    then have e: "year_of (y + 1) (d - year_len y) = (y', d')" using "1.prems" by (simp add: year_of.simps [of y d])
    note ih = "1.IH" [OF False e]
    have "{y..<y'} = insert y {y + 1..<y'}" using ih by auto
    then have "(\<Sum>i\<in>{y..<y'}. year_len i) = year_len y + (\<Sum>i\<in>{y + 1..<y'}. year_len i)" by simp
    then show ?thesis using ih False by linarith
  qed
qed

lemma month_of_sound:
  "d < sum_list ls \<Longrightarrow> month_of ls d = (m, r) \<Longrightarrow> m < length ls \<and> r < ls ! m \<and> d = sum_list (take m ls) + r"
proof (induction ls arbitrary: d m r)
  case (Cons l ls)
  show ?case
  proof (cases "d < l")
    case False
    then obtain k where k: "month_of ls (d - l) = (k, r)" "m = Suc k" using Cons.prems by (auto split: prod.splits)
    moreover have "d - l < sum_list ls" using Cons.prems False by simp
    ultimately have "k < length ls \<and> r < ls ! k \<and> d - l = sum_list (take k ls) + r" by (intro Cons.IH)
    then show ?thesis using False k(2) by (simp del: add_diff_assoc add_diff_assoc2) linarith
  qed (use Cons.prems in auto)
qed simp

lemma sum_month_lens: "sum_list (month_lens y) = year_len y"
  by (simp add: month_lens_def year_len_def)

lemma gmtime_ranges:
  "tm_mon (gmtime t) < 12" "1 \<le> tm_mday (gmtime t)" "tm_mday (gmtime t) \<le> 31" "tm_yday (gmtime t) < year_len (tm_year (gmtime t))"
  "tm_hour (gmtime t) < 24" "tm_min (gmtime t) < 60" "1970 \<le> tm_year (gmtime t)"
proof -
  obtain y yd where y: "year_of 1970 (t div 86400) = (y, yd)" by fastforce
  obtain m md where m: "month_of (month_lens y) yd = (m, md)" by fastforce
  note ys = year_of_sound [OF y, THEN conjunct1] year_of_sound [OF y, THEN conjunct2, THEN conjunct2]
  have mm: "m < length (month_lens y)" "md < month_lens y ! m"
    using month_of_sound [OF _ m] ys by (simp_all add: sum_month_lens)
  then have "month_lens y ! m \<in> set (month_lens y)" by simp
  then have "month_lens y ! m \<le> 31" by (auto simp: month_lens_def)
  then have "m < 12" "md < 31" using mm by (simp_all add: month_lens_def)
  then show "tm_mon (gmtime t) < 12" "1 \<le> tm_mday (gmtime t)" "tm_mday (gmtime t) \<le> 31"
    "tm_yday (gmtime t) < year_len (tm_year (gmtime t))" "tm_hour (gmtime t) < 24" "tm_min (gmtime t) < 60"
    "1970 \<le> tm_year (gmtime t)"
    using ys by (simp_all add: gmtime_def y m Let_def div_less_iff_less_mult)
qed

lemma kst_day_id_eq: "kst_day_id s = kst_day_id t \<longleftrightarrow> (s + OFFSET_SEC) div 86400 = (t + OFFSET_SEC) div 86400"
proof
  assume e: "kst_day_id s = kst_day_id t"
  obtain y yd where y: "year_of 1970 ((s + OFFSET_SEC) div 86400) = (y, yd)" by fastforce
  obtain z zd where z: "year_of 1970 ((t + OFFSET_SEC) div 86400) = (z, zd)" by fastforce
  note ys = year_of_sound [OF y] and zs = year_of_sound [OF z]
  have "y * 1000 + yd = z * 1000 + zd"
    using e by (simp add: kst_day_id_def to_tm_def gmtime_def y z Let_def case_prod_beta)
  moreover have "yd < 1000" "zd < 1000" using ys zs by (auto simp: year_len_def split: if_splits)
  then have "(y * 1000 + yd) div 1000 = y" "(z * 1000 + zd) div 1000 = z" by simp_all
  ultimately have "y = z \<and> yd = zd" by (metis add_left_cancel)
  then show "(s + OFFSET_SEC) div 86400 = (t + OFFSET_SEC) div 86400" using ys zs by simp
qed (simp add: kst_day_id_def to_tm_def gmtime_def Let_def case_prod_beta)

end
