(* ===== verification/HistCheck.thy ===== *)
theory HistCheck
  imports Kst HistStream "HOL-Library.Char_ord" "HOL-Library.List_Lexorder"
begin

text \<open>
  The comparison of the history files a HOST has kept with the archive of the relay:
  \<^verbatim>\<open>handle_hist_stat_req\<close> of \<^verbatim>\<open>central/central_mission_archive.cpp\<close>, which answers how many rows the
  archive has, and \<^verbatim>\<open>src/hist_check.cpp\<close>, which uploads what is missing and removes a local file
  when the relay has all of it.  Log lines and disk space warnings are left out.
\<close>

section \<open>The relay: how many rows are there\<close>

record hist_stat =
  st_rows :: nat
  st_size :: nat
  st_width :: nat
  st_rate :: bytes
  st_version :: nat
  st_name :: string

text \<open>The width of a row as this query and the HOST see it.\<close>

definition stat_width :: "bytes \<Rightarrow> nat" where
  "stat_width f = (if hdr_fft_input_size f \<noteq> 0 then hdr_fft_input_size f else hdr_fft_size f)"

definition stat_rows :: "bytes \<Rightarrow> nat option" where
  "stat_rows f =
     (if hdr_version f = FILE_VERSION_ZSTD then Some (ext_num_rows f)
      else if hdr_version f = FILE_VERSION
      then Some (if stat_width f = 0 then 0 else (length f - hdr_size) div stat_width f)
      else None)"

definition stat_entry :: "string \<Rightarrow> bytes \<Rightarrow> nat \<Rightarrow> hist_stat" where
  "stat_entry n f rows =
     \<lparr> st_rows = rows, st_size = length f, st_width = stat_width f,
       st_rate = take 4 (at_member FileHeader ''row_rate_hz'' f), st_version = hdr_version f, st_name = n \<rparr>"

definition stat_file_name :: "string \<Rightarrow> bool" where
  "stat_file_name n \<longleftrightarrow> \<not> prefix ''.'' n \<and> suffix ''.bewehist'' n"

definition stat_of :: "files \<Rightarrow> string \<Rightarrow> nat \<Rightarrow> string \<Rightarrow> hist_stat option" where
  "stat_of fs dir start n =
     (if \<not> stat_file_name n then None
      else case fs (path_in dir n) of
             None \<Rightarrow> None
           | Some s \<Rightarrow>
               (let f = bytes_of s
                in if \<not> has_magic f \<or> hdr_start_utc f \<noteq> start then None
                   else map_option (stat_entry n f) (stat_rows f)))"

text \<open>The file with most rows is kept, the first one of those with equally many.\<close>

fun stat_scan :: "files \<Rightarrow> string \<Rightarrow> nat \<Rightarrow> string list \<Rightarrow> hist_stat option \<Rightarrow> hist_stat option" where
  "stat_scan fs dir start [] best = best"
| "stat_scan fs dir start (n # ns) best =
     stat_scan fs dir start ns
       (case stat_of fs dir start n of
          None \<Rightarrow> best
        | Some e \<Rightarrow> (case best of None \<Rightarrow> Some e | Some b \<Rightarrow> if st_rows e \<le> st_rows b then best else Some e))"

definition hist_stat_body :: "string \<Rightarrow> bytes \<Rightarrow> hist_stat option \<Rightarrow> bytes" where
  "hist_stat_body station q r =
     str_buf 64 (bytes_of station) @ take 4 (at_member PktHistStatReq ''year'' q) @ take 8 (at_member PktHistStatReq ''code'' q) @
     take 8 (at_member PktHistStatReq ''start_utc_unix'' q) @
     (case r of
        None \<Rightarrow> replicate 8 0 @ replicate 8 0 @ replicate 4 0 @ replicate 4 0 @ replicate 2 0 @ [0]
      | Some e \<Rightarrow> le_bytes 8 (st_rows e) @ le_bytes 8 (st_size e) @ le_bytes 4 (st_width e) @ st_rate e @
                  le_bytes 2 (st_version e) @ [1]) @
     [at_member PktHistStatReq ''req_id'' q ! 0] @
     (case r of None \<Rightarrow> replicate 128 0 | Some e \<Rightarrow> str_buf 128 (bytes_of (st_name e))) @ replicate 4 0"

text \<open>
  The station is the one of the room; \<^verbatim>\<open>active\<close> is the shadow of the active mission, \<^verbatim>\<open>readdir\<close> gives
  the names in a directory.  The result is the payload of the answer.
\<close>

definition handle_hist_stat_req :: "string \<Rightarrow> string \<Rightarrow> (string \<times> nat \<times> string) option \<Rightarrow> (string \<Rightarrow> string list) \<Rightarrow>
    files \<Rightarrow> bytes \<Rightarrow> bytes option" where
  "handle_hist_stat_req base station_id active readdir fs q =
     (if length q < size_of PktHistStatReq then None
      else let station = take 64 (case active of Some (st, _) \<Rightarrow> st | None \<Rightarrow> station_id);
               code = text_of 8 (at_member PktHistStatReq ''code'' q);
               year = le_nat (take 4 (at_member PktHistStatReq ''year'' q)) mod 65536;
               start = le_nat (take 8 (at_member PktHistStatReq ''start_utc_unix'' q))
           in Some (hist_stat_body station q
                (case archive_dir base station year code MFS_HIST of
                   None \<Rightarrow> None | Some dir \<Rightarrow> stat_scan fs dir start (readdir dir) None)))"

section \<open>The HOST: local files\<close>

definition hc_parse_mission_path :: "string \<Rightarrow> string \<Rightarrow> (int \<times> string) option" where
  "hc_parse_mission_path mroot path =
     (if \<not> prefix mroot path then None
      else let rest = drop (length mroot) path; rest = (if prefix ''/'' rest then tl rest else rest) in
      case cut_slash rest of None \<Rightarrow> None | Some (station, r) \<Rightarrow>
      (case cut_slash r of None \<Rightarrow> None | Some (ys, r) \<Rightarrow>
      (case cut_slash r of None \<Rightarrow> None | Some (code, r) \<Rightarrow>
         let year = atoi (c_text ys)
         in if year > 1970 \<and> code \<noteq> [] \<and> length code < 8 then Some (year, code) else None)))"

text \<open>The number of rows and their width.\<close>

definition read_local :: "bytes \<Rightarrow> (nat \<times> nat) option" where
  "read_local f =
     (if \<not> has_magic f \<or> hdr_version f \<noteq> FILE_VERSION \<or> stat_width f = 0 then None
      else let rows = (length f - hdr_size) div stat_width f
           in if rows > 0 then Some (rows, stat_width f) else None)"

text \<open>The seconds after which row \<^verbatim>\<open>k\<close> begins; a quotient by infinity is zero.\<close>

definition row_seconds :: "bytes \<Rightarrow> nat \<Rightarrow> nat" where
  "row_seconds f k =
     (if take 4 (at_member FileHeader ''row_rate_hz'' f) = [0, 0, 0x80, 0x7F] then 0 else nat \<lfloor>real k / row_rate f\<rfloor>)"

definition segment_start :: "bytes \<Rightarrow> nat \<Rightarrow> nat" where
  "segment_start f k = (hdr_start_utc f + row_seconds f k) mod 2 ^ 64"

definition segment_name :: "bytes \<Rightarrow> nat \<Rightarrow> nat \<Rightarrow> string" where
  "segment_name f rows from =
     build_hist_filename_finalize
       (build_hist_filename_live (segment_start f from) (hdr_num ''center_freq_hz'' 8 f)
          (text_of 32 (at_member FileHeader ''station_name'' f)))
       (int (segment_start f rows))"

definition segment_content :: "bytes \<Rightarrow> nat \<Rightarrow> nat \<Rightarrow> nat \<Rightarrow> bytes" where
  "segment_content f rows w from =
     splice 38 (le_bytes 8 (segment_start f from)) (take hdr_size f) @
     take ((rows - from) * w) (drop (hdr_size + from * w) f)"

definition export_segment :: "bool \<Rightarrow> bool \<Rightarrow> string \<Rightarrow> bytes \<Rightarrow> nat \<Rightarrow> nat \<Rightarrow> nat \<Rightarrow> files \<Rightarrow> files \<times> string option" where
  "export_segment open_ok copy_ok src f rows w from fs =
     (if from \<ge> rows then (fs, None)
      else let dir = (case find_last_of CHR ''/'' src of None \<Rightarrow> ''.'' | Some k \<Rightarrow> take k src);
               name = segment_name f rows from;
               path = final_free fs dir name 98 2 (path_in dir name)
           in if \<not> open_ok then (fs, None)
              else if \<not> copy_ok then (fs(path := None), None)
              else (fs(path \<mapsto> chars_of (segment_content f rows w from)), Some path))"

section \<open>The HOST: asking the relay\<close>

record checker =
  hc_push :: pusher
  hc_exported :: "(string \<times> nat) set"
  hc_req :: u8

definition hist_stat_req_body :: "string \<Rightarrow> nat \<Rightarrow> string \<Rightarrow> nat \<Rightarrow> u8 \<Rightarrow> bytes" where
  "hist_stat_req_body station year code start req =
     str_buf 64 (bytes_of station) @ le_bytes 4 year @ str_buf 8 (bytes_of code) @ le_bytes 8 start @ [req] @ replicate 7 0"

text \<open>\<^verbatim>\<open>answer\<close> is what comes back for a request within the time limit, if anything.\<close>

definition query_central :: "(bytes \<Rightarrow> bytes option) \<Rightarrow> string \<Rightarrow> nat \<Rightarrow> string \<Rightarrow> nat \<Rightarrow> checker \<Rightarrow> bytes option \<times> checker" where
  "query_central answer station year code start C =
     (let n = hc_req C + 1; n = (if n = 0 then 1 else n)
      in ((case answer (hist_stat_req_body station year code start n) of
             None \<Rightarrow> None
           | Some a \<Rightarrow> if length a < size_of PktHistStat \<or> at_member PktHistStat ''req_id'' a ! 0 \<noteq> n then None else Some a),
          C\<lparr> hc_req := n \<rparr>))"

datatype check_result = Unreadable | NoAnswer | WholeUpload | Removed | Pending | NotExported | SegmentUpload string

definition upload_started :: "check_result \<Rightarrow> bool" where
  "upload_started r = (case r of WholeUpload \<Rightarrow> True | SegmentUpload _ \<Rightarrow> True | _ \<Rightarrow> False)"

text \<open>The comparison of one file, when the relay's answer is there.\<close>

definition compare_rows :: "bool \<Rightarrow> bool \<Rightarrow> string \<Rightarrow> string \<Rightarrow> bytes \<Rightarrow> nat \<Rightarrow> nat \<Rightarrow> bytes \<Rightarrow> checker \<Rightarrow> checker \<times> check_result" where
  "compare_rows open_ok copy_ok mroot path f rows w a C =
     (let P = hc_push C; fs = local_files P; crows = le_nat (take 8 (at_member PktHistStat ''num_rows'' a))
      in if at_member PktHistStat ''found'' a ! 0 = 0 then (C\<lparr> hc_push := push_enqueue mroot path MFS_HIST P \<rparr>, WholeUpload)
         else if crows \<ge> rows
         then (C\<lparr> hc_push := P\<lparr> local_files := fs(path := None, path @ ''.info'' := None) \<rparr> \<rparr>, Removed)
         else if (path, crows) \<in> hc_exported C then (C, Pending)
         else case export_segment open_ok copy_ok path f rows w crows fs of
                (fs, None) \<Rightarrow> (C\<lparr> hc_push := P\<lparr> local_files := fs \<rparr> \<rparr>, NotExported)
              | (fs, Some seg) \<Rightarrow>
                  (C\<lparr> hc_exported := insert (path, crows) (hc_exported C),
                       hc_push := push_enqueue mroot seg MFS_HIST (P\<lparr> local_files := fs \<rparr>) \<rparr>, SegmentUpload seg))"

definition check_one :: "bool \<Rightarrow> bool \<Rightarrow> (bytes \<Rightarrow> bytes option) \<Rightarrow> string \<Rightarrow> nat \<Rightarrow> string \<Rightarrow> string \<Rightarrow> checker \<Rightarrow> checker \<times> check_result" where
  "check_one open_ok copy_ok answer mroot year code path C =
     (case local_files (hc_push C) path of None \<Rightarrow> (C, Unreadable) | Some s \<Rightarrow>
      let f = bytes_of s in
      case read_local f of None \<Rightarrow> (C, Unreadable) | Some (rows, w) \<Rightarrow>
      (case query_central answer (text_of 32 (at_member FileHeader ''station_name'' f)) year code (hdr_start_utc f) C of
         (None, C) \<Rightarrow> (C, NoAnswer)
       | (Some a, C) \<Rightarrow> compare_rows open_ok copy_ok mroot path f rows w a C))"

section \<open>Directories\<close>

definition hist_files :: "string \<Rightarrow> string list \<Rightarrow> string list" where
  "hist_files dir names = map (path_in dir) (filter hist_name names)"

text \<open>
  The first pass over the files of a mission, without the one that is being written; it collects the
  results.  The second pass, when the uploads are through, goes over those that had one.
\<close>

fun check_pass :: "(string \<Rightarrow> bool) \<Rightarrow> (string \<Rightarrow> bool) \<Rightarrow> (bytes \<Rightarrow> bytes option) \<Rightarrow> string \<Rightarrow> nat \<Rightarrow> string \<Rightarrow> string \<Rightarrow>
    string list \<Rightarrow> checker \<Rightarrow> checker \<times> (string \<times> check_result) list" where
  "check_pass open_ok copy_ok answer mroot year code cur [] C = (C, [])"
| "check_pass open_ok copy_ok answer mroot year code cur (p # ps) C =
     (if cur \<noteq> [] \<and> p = cur then check_pass open_ok copy_ok answer mroot year code cur ps C
      else let (C, r) = check_one (open_ok p) (copy_ok p) answer mroot year code p C;
               (C, rs) = check_pass open_ok copy_ok answer mroot year code cur ps C
           in (C, (p, r) # rs))"

definition second_pass :: "(string \<Rightarrow> bool) \<Rightarrow> (string \<Rightarrow> bool) \<Rightarrow> (bytes \<Rightarrow> bytes option) \<Rightarrow> string \<Rightarrow> nat \<Rightarrow> string \<Rightarrow>
    (string \<times> check_result) list \<Rightarrow> checker \<Rightarrow> checker \<times> (string \<times> check_result) list" where
  "second_pass open_ok copy_ok answer mroot year code rs C =
     foldl (\<lambda>(C, out) p. if local_files (hc_push C) p = None then (C, out)
              else let (C, r) = check_one (open_ok p) (copy_ok p) answer mroot year code p C in (C, out @ [(p, r)]))
       (C, []) (map fst (filter (\<lambda>(p, r). upload_started r) rs))"

text \<open>The line of the report in the chat.\<close>

definition report_span :: "string \<Rightarrow> string" where
  "report_span file =
     (case (before_last ''.bewehist'' file, find_last_of CHR ''_'' file) of
        (Some p, Some us) \<Rightarrow> if us < length p then drop (Suc us) p else file
      | _ \<Rightarrow> file)"

definition report_line :: "string \<Rightarrow> string \<Rightarrow> string \<Rightarrow> string \<Rightarrow> string" where
  "report_line verb station code file =
     take 255 (verb @ '' : '' @ station @ '' '' @ code @ '' '' @ report_span file)"

text \<open>The history directories of all missions with a retained file; the tree is given by its entries.\<close>

definition collect_mission_dirs :: "string \<Rightarrow> (string \<times> string \<times> string \<times> string list) list \<Rightarrow> string list" where
  "collect_mission_dirs mroot entries =
     sort (map (\<lambda>(st, y, c, ns). path_in (path_in (path_in (path_in mroot st) y) c) ''hist'')
       (filter (\<lambda>(st, y, c, ns). \<not> prefix ''.'' st \<and> \<not> prefix ''.'' y \<and> \<not> prefix ''.'' c \<and> list_ex hist_name ns) entries))"

definition enqueue_dirs :: "string \<Rightarrow> string list \<Rightarrow> string list \<Rightarrow> string list" where
  "enqueue_dirs mroot ds q =
     foldl (\<lambda>q d. if hc_parse_mission_path mroot (d @ ''/x'') = None \<or> d \<in> set q then q else q @ [d]) q ds"

text \<open>The command \<^verbatim>\<open>/hist check\<close>: the new queue of directories and the line that is sent to the chat.\<close>

definition run_command :: "bool \<Rightarrow> bool \<Rightarrow> string \<Rightarrow> (string \<times> string \<times> string \<times> string list) list \<Rightarrow> string \<Rightarrow>
    string list \<Rightarrow> string list \<times> string" where
  "run_command running online mroot entries cur q =
     (if \<not> running then (q, ''HIST: worker not running'')
      else if \<not> online then (q, ''HIST: Central not online'')
      else let ds = collect_mission_dirs mroot entries; ds = (if cur \<noteq> [] \<and> cur \<notin> set ds then ds @ [cur] else ds)
           in if ds = [] then (q, ''HIST: nothing retained'')
              else let q' = enqueue_dirs mroot ds q; n = length q' - length q
                   in if n = 0 then (q', ''HIST: already running'')
                      else (q', ''HIST: checking '' @ dec_str n @ '' mission'' @ (if n = 1 then [] else ''s'')))"

end
