(* ===== verification/HistRecover.thy ===== *)
theory HistRecover
  imports HistCheck
begin

text \<open>
  What the comparison of history files achieves: no local file is given up before the archive
  has its rows, and a file whose end is missing in the archive is completed there, through
  the upload of a segment and its merging.
\<close>

section \<open>The answer of the relay\<close>

lemma stat_offsets: "size_of PktHistStatReq = 92" "size_of PktHistStat = 244"
  "offset_of PktHistStatReq ''year'' = Some 64" "offset_of PktHistStatReq ''code'' = Some 68"
  "offset_of PktHistStatReq ''start_utc_unix'' = Some 76" "offset_of PktHistStatReq ''req_id'' = Some 84"
  "offset_of PktHistStat ''num_rows'' = Some 84" "offset_of PktHistStat ''found'' = Some 110"
  "offset_of PktHistStat ''req_id'' = Some 111"
  by (simp_all add: PktHistStatReq_def PktHistStat_def)

lemma le_nat_8_mod: "le_nat (le_bytes 8 n) = n mod 2 ^ 64"
  using le_nat_le_bytes [of 8 n] by simp

lemma answer_fields:
  assumes q: "length q = 92" and e: "\<And>e. r = Some e \<Longrightarrow> length (st_rate e) = 4" and a: "a = hist_stat_body station q r"
  shows "length a = 244" "at_member PktHistStat ''found'' a ! 0 = of_bool (r \<noteq> None)"
    "at_member PktHistStat ''req_id'' a ! 0 = q ! 84"
    "r = Some e \<Longrightarrow> le_nat (take 8 (at_member PktHistStat ''num_rows'' a)) = st_rows e mod 2 ^ 64"
proof -
  have l: "length (take 4 (drop 64 q)) = 4" "length (take 8 (drop 68 q)) = 8" "length (take 8 (drop 76 q)) = 8"
    using q by simp_all
  show "length a = 244" "at_member PktHistStat ''found'' a ! 0 = of_bool (r \<noteq> None)"
    "at_member PktHistStat ''req_id'' a ! 0 = q ! 84"
    "r = Some e \<Longrightarrow> le_nat (take 8 (at_member PktHistStat ''num_rows'' a)) = st_rows e mod 2 ^ 64"
    using l q e by (cases r; auto simp: a hist_stat_body_def at_member_def stat_offsets nth_append le_nat_8_mod)+
qed

lemma stat_of_Some:
  "stat_of fs dir start n = Some e \<longleftrightarrow> stat_file_name n \<and> (\<exists>g. fs (path_in dir n) = Some (chars_of g) \<and> has_magic g \<and>
     hdr_start_utc g = start \<and> stat_rows g = Some (st_rows e) \<and> e = stat_entry n g (st_rows e))"
  (is "?l \<longleftrightarrow> ?r")
proof
  assume ?l
  then obtain s where s: "stat_file_name n" "fs (path_in dir n) = Some s" "has_magic (bytes_of s)"
    "hdr_start_utc (bytes_of s) = start" "map_option (stat_entry n (bytes_of s)) (stat_rows (bytes_of s)) = Some e"
    by (auto simp: stat_of_def Let_def split: if_splits option.splits)
  then show ?r by (intro conjI exI [of _ "bytes_of s"]) (auto simp: stat_entry_def)
qed (auto simp: stat_of_def)

lemma scan_found:
  "stat_scan fs dir start ns best = Some e \<Longrightarrow> best = Some e \<or> (\<exists>n\<in>set ns. stat_of fs dir start n = Some e)"
proof (induction ns arbitrary: best)
  case (Cons n ns)
  from Cons.IH [OF Cons.prems [unfolded stat_scan.simps]] show ?case
    by (auto split: option.splits if_splits)
qed simp

lemma scan_keeps: "\<exists>e. stat_scan fs dir start ns (Some b) = Some e \<and> st_rows b \<le> st_rows e"
proof (induction ns arbitrary: b)
  case (Cons n ns)
  show ?case
  proof (cases "stat_of fs dir start n")
    case (Some e)
    show ?thesis using Cons.IH [of b] Cons.IH [of e] by (cases "st_rows e \<le> st_rows b") (auto simp: Some)
  qed (simp add: Cons.IH)
qed simp

lemma scan_complete:
  assumes "n \<in> set ns" "stat_of fs dir start n = Some e"
  shows "\<exists>e'. stat_scan fs dir start ns best = Some e' \<and> st_rows e \<le> st_rows e'"
  using assms(1)
proof (induction ns arbitrary: best)
  case (Cons k ns)
  show ?case
  proof (cases "k = n")
    case True
    obtain b where "stat_scan fs dir start (k # ns) best = stat_scan fs dir start ns (Some b)" "st_rows e \<le> st_rows b"
      using assms(2) True by (cases best; cases "st_rows e \<le> st_rows (the best)") auto
    then show ?thesis using scan_keeps [of fs dir start ns b] by auto
  qed (use Cons in auto)
qed simp

text \<open>The request as the relay sees it, and what it answers.\<close>

lemma request_fields:
  assumes "length code < 8" "CHR 0x00 \<notin> set code" "year < 2 ^ 32" "start < 2 ^ 64"
    and q: "q = hist_stat_req_body station year code start n"
  shows "length q = 92" "text_of 8 (at_member PktHistStatReq ''code'' q) = code"
    "le_nat (take 4 (at_member PktHistStatReq ''year'' q)) = year"
    "le_nat (take 8 (at_member PktHistStatReq ''start_utc_unix'' q)) = start" "q ! 84 = n"
proof -
  have "text_of 8 (str_buf 8 (bytes_of code) @ r) = code" for r
    using assms(1,2) by (intro text_of_str_buf) simp_all
  then show "length q = 92" "text_of 8 (at_member PktHistStatReq ''code'' q) = code"
    "le_nat (take 4 (at_member PktHistStatReq ''year'' q)) = year"
    "le_nat (take 8 (at_member PktHistStatReq ''start_utc_unix'' q)) = start" "q ! 84 = n"
    using le_nat_4 [OF assms(3)] le_nat_8 [OF assms(4)]
    by (simp_all add: q hist_stat_req_body_def at_member_def stat_offsets nth_append)
qed

lemma hdr_start_bound: "hdr_start_utc f < 2 ^ 64"
proof -
  let ?b = "take 8 (at_member FileHeader ''start_utc_unix'' f)"
  have "le_nat ?b < 256 ^ length ?b" by (rule le_nat_bound)
  also have "\<dots> \<le> 256 ^ 8" by (intro power_increasing) simp_all
  finally show ?thesis by (simp add: hdr_num_def)
qed

lemma rate_length: "has_magic g \<Longrightarrow> length (st_rate (stat_entry n g m)) = 4"
  by (auto simp: stat_entry_def has_magic_def)

lemma answer_of_relay:
  assumes "length code < 8" "CHR 0x00 \<notin> set code" "year < 65536" "start < 2 ^ 64"
    and d: "archive_dir base (take 64 (case active of Some (st, _) \<Rightarrow> st | None \<Rightarrow> sid)) year code MFS_HIST = dir"
    and r: "r = (case dir of None \<Rightarrow> None | Some d \<Rightarrow> stat_scan fs d start (readdir d) None)"
    and q: "q = hist_stat_req_body station year code start n"
  shows "\<exists>st. handle_hist_stat_req base sid active readdir fs q = Some (hist_stat_body st q r)"
proof -
  have y: "year < 2 ^ 32" "year mod 65536 = year" using assms(3) by simp_all
  note f = request_fields [OF assms(1,2) y(1) assms(4) q]
  show ?thesis unfolding handle_hist_stat_req_def stat_offsets(1) Let_def f(2-4) y(2) d r using f(1) by auto
qed

lemma query_relay:
  assumes k: "length code < 8" "CHR 0x00 \<notin> set code" "year < 65536" "start < 2 ^ 64"
    and d: "archive_dir base (take 64 (case active of Some (st, _) \<Rightarrow> st | None \<Rightarrow> sid)) year code MFS_HIST = dir"
    and r: "r = (case dir of None \<Rightarrow> None | Some d \<Rightarrow> stat_scan fs d start (readdir d) None)"
  obtains a req where "query_central (handle_hist_stat_req base sid active readdir fs) station year code start C =
      (Some a, C\<lparr> hc_req := req \<rparr>)"
    "at_member PktHistStat ''found'' a ! 0 = of_bool (r \<noteq> None)"
    "\<And>e. r = Some e \<Longrightarrow> le_nat (take 8 (at_member PktHistStat ''num_rows'' a)) = st_rows e mod 2 ^ 64"
proof -
  define n where "n = (if hc_req C + 1 = 0 then 1 else hc_req C + 1)"
  define q where "q = hist_stat_req_body station year code start n"
  obtain st where h: "handle_hist_stat_req base sid active readdir fs q = Some (hist_stat_body st q r)"
    using answer_of_relay [OF k d r q_def] by blast
  have y: "year < 2 ^ 32" using k(3) by simp
  note f = request_fields [OF k(1,2) y k(4) q_def]
  have four: "length (st_rate e) = 4" if re: "r = Some e" for e
  proof -
    obtain d' where "stat_scan fs d' start (readdir d') None = Some e" using re r by (cases dir) auto
    then obtain m where "stat_of fs d' start m = Some e" using scan_found by blast
    then show ?thesis using rate_length unfolding stat_of_Some by metis
  qed
  note a = answer_fields [OF f(1) four refl, where station = st]
  have "query_central (handle_hist_stat_req base sid active readdir fs) station year code start C =
      (Some (hist_stat_body st q r), C\<lparr> hc_req := n \<rparr>)"
    unfolding query_central_def Let_def n_def [symmetric] q_def [symmetric] h stat_offsets option.case
    using a(1,3) f(5) by simp
  then show thesis using that [OF _ a(2) a(4)] by blast
qed

section \<open>Nothing is given up\<close>

lemma local_files_enqueue [simp]: "local_files (push_enqueue rt p s P) = local_files P"
  by (simp add: push_enqueue_def Let_def split: option.split prod.split)

lemma export_changes:
  "export_segment open_ok True src f rows w from fs = (fs', res) \<Longrightarrow> fs' p \<noteq> fs p \<Longrightarrow> res = Some p"
  by (auto simp: export_segment_def Let_def split: if_splits)

lemma compare_changes:
  assumes c: "compare_rows open_ok True rt path f rows w a C = (C', r)"
    and d: "local_files (hc_push C') p \<noteq> local_files (hc_push C) p"
  shows "r = SegmentUpload p \<or>
    (r = Removed \<and> p \<in> {path, path @ ''.info''} \<and> at_member PktHistStat ''found'' a ! 0 \<noteq> 0 \<and>
     rows \<le> le_nat (take 8 (at_member PktHistStat ''num_rows'' a)))"
proof -
  obtain fs' res where e: "export_segment open_ok True path f rows w (le_nat (take 8 (at_member PktHistStat ''num_rows'' a)))
      (local_files (hc_push C)) = (fs', res)" by fastforce
  show ?thesis using c d export_changes [OF e, of p]
    by (auto simp: compare_rows_def Let_def e split: if_splits option.splits)
qed

text \<open>
  C30: the comparison with the archive never gives up rows.  If checking a file changes
  anything among the local files, then either the new segment was written, or the checked file
  and its sidecar were removed; and then the relay's directory of this mission does hold a file with
  the same start time that has at least as many rows as the local one.
\<close>

theorem hist_check_keeps:
  assumes c: "check_one open_ok True (handle_hist_stat_req base sid active readdir fs) rt year code path C = (C', r)"
    and k: "length code < 8" "CHR 0x00 \<notin> set code" "year < 65536"
    and d: "local_files (hc_push C') p \<noteq> local_files (hc_push C) p"
  shows "r = SegmentUpload p \<or>
    (r = Removed \<and> p \<in> {path, path @ ''.info''} \<and>
     (\<exists>s rows w dir n g m. local_files (hc_push C) path = Some s \<and> read_local (bytes_of s) = Some (rows, w) \<and>
        archive_dir base (take 64 (case active of Some (st, _) \<Rightarrow> st | None \<Rightarrow> sid)) year code MFS_HIST = Some dir \<and>
        n \<in> set (readdir dir) \<and> fs (path_in dir n) = Some (chars_of g) \<and> has_magic g \<and>
        hdr_start_utc g = hdr_start_utc (bytes_of s) \<and> stat_rows g = Some m \<and> rows \<le> m))"
proof -
  have "C' \<noteq> C" using d by blast
  then obtain s rows w where s: "local_files (hc_push C) path = Some s" "read_local (bytes_of s) = Some (rows, w)"
    using c by (auto simp: check_one_def Let_def split: option.splits)
  define dir where "dir = archive_dir base (take 64 (case active of Some (st, _) \<Rightarrow> st | None \<Rightarrow> sid)) year code MFS_HIST"
  define e where "e = (case dir of None \<Rightarrow> None | Some d \<Rightarrow> stat_scan fs d (hdr_start_utc (bytes_of s)) (readdir d) None)"
  obtain a req where a: "query_central (handle_hist_stat_req base sid active readdir fs)
      (text_of 32 (at_member FileHeader ''station_name'' (bytes_of s))) year code (hdr_start_utc (bytes_of s)) C = (Some a, C\<lparr> hc_req := req \<rparr>)"
    "at_member PktHistStat ''found'' a ! 0 = of_bool (e \<noteq> None)"
    "\<And>x. e = Some x \<Longrightarrow> le_nat (take 8 (at_member PktHistStat ''num_rows'' a)) = st_rows x mod 2 ^ 64"
    using query_relay [OF k hdr_start_bound dir_def [symmetric] e_def] by blast
  have "compare_rows open_ok True rt path (bytes_of s) rows w a (C\<lparr> hc_req := req \<rparr>) = (C', r)"
    using c unfolding check_one_def s option.case Let_def prod.case a(1) by simp
  from compare_changes [OF this, of p] d
  consider "r = SegmentUpload p" | (removed) "r = Removed" "p \<in> {path, path @ ''.info''}" "e \<noteq> None"
      "rows \<le> le_nat (take 8 (at_member PktHistStat ''num_rows'' a))"
    unfolding a(2) by auto
  then show ?thesis
  proof cases
    case removed
    then obtain x where x: "e = Some x" by blast
    then obtain dd n where n: "dir = Some dd" "n \<in> set (readdir dd)" "stat_of fs dd (hdr_start_utc (bytes_of s)) n = Some x"
      using scan_found [of fs _ _ _ None x] by (fastforce simp: e_def split: option.splits)
    have "rows \<le> st_rows x mod 2 ^ 64" using removed(4) a(3) [OF x] by simp
    then have "rows \<le> st_rows x" using mod_less_eq_dividend order_trans by blast
    then show ?thesis using removed(1,2) s n unfolding stat_of_Some dir_def by blast
  qed simp
qed

end
