(* ===== verification/DecText.thy ===== *)
theory DecText
  imports Kst
begin

text \<open>
  Decimal numbers as texts: \<^verbatim>\<open>printf\<close> and \<^verbatim>\<open>atoi\<close> are inverse, and the characters of the names the
  program builds are those that the relay accepts in a path.
\<close>

section \<open>Digits\<close>

lemma char_digit: "n < 10 \<Longrightarrow> (of_char (char_of (n + 48) :: char) :: nat) = n + 48" for n :: nat
  by (simp add: of_char_of)

lemma char_digit_int: "n < 10 \<Longrightarrow> (of_char (char_of (n + 48) :: char) :: int) = int n + 48" for n :: nat
proof -
  assume "n < 10"
  then have "(of_char (char_of (n + 48) :: char) :: nat) = n + 48" by (rule char_digit)
  then have "int (of_char (char_of (n + 48) :: char)) = int n + 48" by (simp only: of_nat_add of_nat_numeral)
  then show ?thesis by (simp only: of_nat_of_char)
qed

lemma is_digit_char: "n < 10 \<Longrightarrow> is_digit (char_of (n + 48))" for n :: nat
  by (simp add: is_digit_def char_digit)

lemma dec_str_digits: "list_all is_digit (dec_str n)"
proof (induction n rule: less_induct)
  case (less n)
  show ?case
  proof (cases "n < 10")
    case True
    then show ?thesis by (subst dec_str.simps) (simp add: is_digit_char)
  next
    case False
    then show ?thesis using less [of "n div 10"] is_digit_char [of "n mod 10"] by (subst dec_str.simps) simp
  qed
qed

lemma dec_str_nonempty [simp]: "dec_str n \<noteq> []"
  by (subst dec_str.simps) simp

lemma takeWhile_digits: "list_all P xs \<Longrightarrow> \<not> P c \<Longrightarrow> takeWhile P (xs @ c # ys) = xs"
  by (induction xs) simp_all

lemma takeWhile_all: "list_all P xs \<Longrightarrow> takeWhile P xs = xs"
  by (induction xs) simp_all

definition digit_sum :: "string \<Rightarrow> int" where
  "digit_sum s = foldl (\<lambda>v c. 10 * v + (of_char c - 48)) 0 s"

lemma digits_value_sum: "digits_value s = digit_sum (takeWhile is_digit s)"
  by (simp add: digits_value_def digit_sum_def)

lemma digit_sum_dec: "digit_sum (dec_str n) = int n"
proof (induction n rule: less_induct)
  case (less n)
  show ?case
  proof (cases "n < 10")
    case True
    then show ?thesis by (subst dec_str.simps) (simp add: digit_sum_def char_digit_int)
  next
    case False
    then have "digit_sum (dec_str (n div 10)) = int (n div 10)" using less by simp
    moreover have "n mod 10 < 10" by simp
    ultimately show ?thesis using False char_digit_int [of "n mod 10"]
      by (subst dec_str.simps) (simp add: digit_sum_def zdiv_int zmod_int)
  qed
qed

lemma digits_value_dec: "\<not> is_digit c \<Longrightarrow> digits_value (dec_str n @ c # r) = int n"
  "digits_value (dec_str n) = int n"
  by (simp_all add: digits_value_sum takeWhile_digits [OF dec_str_digits] takeWhile_all [OF dec_str_digits] digit_sum_dec)

text \<open>Characters that are neither white space nor a sign begin a number.\<close>

lemma digit_ranges: "is_digit c \<Longrightarrow> c \<noteq> CHR '' '' \<and> \<not> (of_char c :: nat) \<le> 13 \<and> c \<noteq> CHR ''-'' \<and> c \<noteq> CHR ''+''"
  by (auto simp: is_digit_def)

lemma atoi_dec: "atoi (dec_str n) = int n"
proof -
  obtain c r where s: "dec_str n = c # r" by (cases "dec_str n") simp_all
  then have "is_digit c" using dec_str_digits [of n] by simp
  note d = digit_ranges [OF this]
  have "dropWhile (\<lambda>c. c = CHR '' '' \<or> 9 \<le> (of_char c :: nat) \<and> (of_char c :: nat) \<le> 13) (c # r) = c # r"
    using d by simp
  then show ?thesis using d digits_value_dec(2) [of n] by (simp add: atoi_def s)
qed

section \<open>Safe names\<close>

definition safe_char :: "char \<Rightarrow> bool" where
  "safe_char c \<longleftrightarrow> c \<noteq> CHR ''/'' \<and> c \<noteq> bsl \<and> \<not> (of_char c :: nat) < 0x20"

lemma path_component_safe_chars:
  "path_component_safe n s \<longleftrightarrow> s \<noteq> [] \<and> length s < n \<and> s \<noteq> ''.'' \<and> s \<noteq> ''..'' \<and> list_all safe_char s"
  by (auto simp: path_component_safe_def safe_char_def list_all_iff)

lemma digit_safe: "is_digit c \<Longrightarrow> safe_char c"
  by (auto simp: is_digit_def safe_char_def)

lemma dec_str_safe [simp]: "list_all safe_char (dec_str n)"
  using dec_str_digits [of n] digit_safe by (auto simp: list_all_iff)

lemma two_dec_safe [simp]: "list_all safe_char (two_dec n)"
  by (simp add: two_dec_def digit_safe is_digit_def)

lemma mhz_text_safe [simp]: "list_all safe_char (mhz_text cf)"
  by (simp add: mhz_text_def Let_def safe_char_def)

lemma hist_char_safe: "hist_char_ok c \<Longrightarrow> safe_char c"
  by (auto simp: hist_char_ok_def safe_char_def Let_def is_digit_def)

lemma sanitize_safe [simp]: "list_all safe_char (sanitize_station_hist s)"
proof -
  have "safe_char (if hist_char_ok c then c else CHR ''_'')" for c
    using hist_char_safe [of c] by (simp add: safe_char_def)
  then show ?thesis unfolding sanitize_station_hist_def list.pred_map by (simp add: comp_def list.pred_True)
qed

lemma sanitize_nonempty [simp]: "sanitize_station_hist s \<noteq> []"
  by (simp add: sanitize_station_hist_def)

lemma month_abbr3_safe: "m < 12 \<Longrightarrow> list_all safe_char (month_abbr3 m)"
proof -
  assume m: "m < 12"
  let ?l = "[''Jan'', ''Feb'', ''Mar'', ''Apr'', ''May'', ''Jun'', ''Jul'', ''Aug'', ''Sep'', ''Oct'', ''Nov'', ''Dec'']"
  have "month_abbr3 m \<in> set ?l" unfolding month_abbr3_def by (rule nth_mem) (use m in simp)
  then show ?thesis by (auto simp: safe_char_def)
qed

lemma mission_letter_safe: "m < 12 \<Longrightarrow> safe_char (mission_letter m)"
proof -
  assume m: "m < 12"
  have n: "(of_char (mission_letter m) :: nat) = 65 + m" using m by (simp add: mission_letter_def of_char_of)
  then show ?thesis using m by (auto simp: safe_char_def)
qed

lemma two_digits_safe: "0 \<le> n \<Longrightarrow> n < 100 \<Longrightarrow> list_all safe_char (two_digits n)"
  using is_digit_char [of "nat (n div 10)"] is_digit_char [of "nat (n mod 10)"] by (simp add: two_digits_def digit_safe)

lemma hhmm_tail_safe [simp]: "list_all safe_char (hhmm_tail t)"
proof -
  have m: "0 \<le> x mod 24 \<and> x mod 24 < 100" "0 \<le> x mod 60 \<and> x mod 60 < 100" for x :: int
    using pos_mod_bound [of 24 x] pos_mod_bound [of 60 x] by simp_all
  show ?thesis using m two_digits_safe by (simp add: hhmm_tail_def kst_hm_def Let_def safe_char_def)
qed

lemma length_hhmm_tail [simp]: "length (hhmm_tail t) = 14"
  by (simp add: hhmm_tail_def two_digits_def split: prod.split)

lemma before_last_append: "before_last k s = Some p \<Longrightarrow> prefix (p @ k) s"
  by (induction s arbitrary: p) (auto split: if_splits option.splits)

lemma live_name_safe: "list_all safe_char (build_hist_filename_live t cf st)"
  "length (build_hist_filename_live t cf st) \<le> 127"
proof -
  have lits: "list_all safe_char ''_''" "list_all safe_char ''.''" "list_all safe_char ''MHz_''"
    "list_all safe_char ''-LIVE.bewehist''" "safe_char CHR ''0''"
    by (simp_all add: safe_char_def)
  note lits = lits(5) lits(1-4) [simplified list.pred_inject simp_thms]
  have tk: "list_all safe_char xs \<Longrightarrow> list_all safe_char (take k xs)" for xs k
    by (auto simp: list_all_iff dest: in_set_takeD)
  have rp: "list_all safe_char (replicate k CHR ''0'')" for k using lits(1) by (simp add: list_all_iff)
  have m: "tm_mon (to_tm t) < 12" by (simp add: to_tm_def gmtime_ranges)
  show "list_all safe_char (build_hist_filename_live t cf st)"
    unfolding build_hist_filename_live_def Let_def
    by (intro tk) (simp only: list_all_append list.pred_inject lits rp sanitize_safe two_dec_safe dec_str_safe mhz_text_safe
      month_abbr3_safe [OF m] mission_letter_safe [OF m] simp_thms)
  show "length (build_hist_filename_live t cf st) \<le> 127" by (simp add: build_hist_filename_live_def Let_def)
qed

end
