(* ===== verification/HistComplete.thy ===== *)
theory HistComplete
  imports HistRecover DecText
begin

text \<open>
  The recovery of the missing end of a history file, over all the parts that take part in it: the
  comparison and the export by the HOST, the upload worker, the archive with its merging, and
  the second comparison.
\<close>

section \<open>Files of a HOST and their segments\<close>

definition plain_hist :: "bytes \<Rightarrow> bool" where
  "plain_hist f \<longleftrightarrow> has_magic f \<and> hdr_version f = FILE_VERSION \<and> 0 < hdr_fft_size f \<and>
     (hdr_fft_input_size f = 0 \<or> hdr_fft_input_size f = hdr_fft_size f)"

lemma plain_facts:
  assumes "plain_hist f"
  shows "stat_width f = hdr_fft_size f" "row_width f = hdr_fft_size f" "stat_rows f = Some (hist_rows f)"
    "read_local f = (if hist_rows f > 0 then Some (hist_rows f, hdr_fft_size f) else None)"
    "hist_read_header f = (if hist_rows f > 0 then Some (hist_rows f) else None)"
    "hdr_size \<le> length f"
  using assms versions_differ
  by (auto simp: plain_hist_def stat_width_def row_width_def stat_rows_def read_local_def hist_read_header_def
      hist_rows_def has_magic_def)

lemma segment_start_bound: "segment_start f k < 2 ^ 64"
  by (simp add: segment_start_def)

lemma segment_bytes:
  assumes "hdr_size \<le> length f"
  shows "m + n \<le> 38 \<or> 46 \<le> m \<and> m + n \<le> 128 \<Longrightarrow> take n (drop m (segment_content f rows w k)) = take n (drop m f)"
    and "take 8 (drop 38 (segment_content f rows w k)) = le_bytes 8 (segment_start f k)"
    and "drop hdr_size (segment_content f rows w k) = take ((rows - k) * w) (drop (hdr_size + k * w) f)"
    and "hdr_size \<le> length (segment_content f rows w k)"
proof -
  let ?h = "splice 38 (le_bytes 8 (segment_start f k)) (take hdr_size f)"
  have h: "?h = take 38 f @ le_bytes 8 (segment_start f k) @ drop 46 (take 128 f)"
    using assms by (simp add: splice_def min_def)
  have l: "length ?h = 128" using assms by (simp add: h min_def)
  show "take 8 (drop 38 (segment_content f rows w k)) = le_bytes 8 (segment_start f k)"
    using assms unfolding segment_content_def h by (simp add: min_def)
  show "drop hdr_size (segment_content f rows w k) = take ((rows - k) * w) (drop (hdr_size + k * w) f)"
    "hdr_size \<le> length (segment_content f rows w k)"
    using l by (simp_all add: segment_content_def)
  assume mn: "m + n \<le> 38 \<or> 46 \<le> m \<and> m + n \<le> 128"
  have "take n (drop m (segment_content f rows w k)) = take n (drop m ?h)"
    unfolding segment_content_def by (rule take_drop_prefix) (use mn l in linarith)
  also have "\<dots> = take n (drop m (take hdr_size f))"
  proof (cases "m + n \<le> 38")
    case True
    then show ?thesis using assms by (intro take_drop_splice_before) simp_all
  next
    case False
    then have "38 + length (le_bytes 8 (segment_start f k)) \<le> m" using mn by simp
    then show ?thesis using assms by (subst drop_splice_after) simp_all
  qed
  also have "\<dots> = take n (drop m f)"
  proof -
    have "n \<le> hdr_size - m" using mn by linarith
    then show ?thesis by (simp add: drop_take min_absorb1)
  qed
  finally show "take n (drop m (segment_content f rows w k)) = take n (drop m f)" .
qed

lemma segment_fields:
  assumes "plain_hist f" and seg: "seg = segment_content f rows (hdr_fft_size f) k"
  shows "plain_hist seg" "hdr_start_utc seg = segment_start f k" "hdr_fft_size seg = hdr_fft_size f"
    "hist_geom_match g seg = hist_geom_match g f"
proof -
  note h = plain_facts(6) [OF assms(1)]
  note b = segment_bytes [OF h, where rows = rows and w = "hdr_fft_size f" and k = k, folded seg]
  have n: "hdr_num x 4 seg = hdr_num x 4 f" if "x = ''fft_size'' \<or> x = ''fft_input_size''" for x
    using that by (auto simp: hdr_num_def b(1))
  have v: "hdr_version seg = hdr_version f" by (simp add: hdr_num_def b(1))
  have r: "hdr_num x 8 seg = hdr_num x 8 f" if "x = ''sample_rate_hz'' \<or> x = ''center_freq_hz''" for x
    using that by (auto simp: hdr_num_def b(1))
  have fl: "hdr_f32 x seg = hdr_f32 x f" if "x = ''row_rate_hz'' \<or> x = ''db_min'' \<or> x = ''db_max''" for x
    using that by (auto simp: hdr_f32_def f32_value_def b(1))
  have m: "has_magic seg" using assms(1) b(1) [of 0 4] b(4) by (simp add: plain_hist_def has_magic_def)
  show "hdr_fft_size seg = hdr_fft_size f" by (simp add: n)
  show "plain_hist seg" using assms(1) m n v by (simp add: plain_hist_def)
  show "hdr_start_utc seg = segment_start f k"
    using le_nat_8 [OF segment_start_bound] by (simp add: hdr_num_def b(2))
  show "hist_geom_match g seg = hist_geom_match g f" by (simp add: hist_geom_match_def n r fl)
qed

lemma rows_end:
  assumes "plain_hist f"
  shows "hdr_size + hist_rows f * hdr_fft_size f \<le> length f"
proof -
  have "hist_rows f * hdr_fft_size f \<le> length f - hdr_size"
    using div_times_less_eq_dividend [of "length f - hdr_size" "hdr_fft_size f"] by (simp add: hist_rows_def)
  then show ?thesis using plain_facts(6) [OF assms] by linarith
qed

lemma segment_rows:
  assumes p: "plain_hist f" and seg: "seg = segment_content f (hist_rows f) (hdr_fft_size f) k" and k: "k \<le> hist_rows f"
  shows "hist_rows seg = hist_rows f - k" "i < hist_rows f - k \<Longrightarrow> hist_row seg i = hist_row f (k + i)"
proof -
  let ?w = "hdr_fft_size f"
  have w: "0 < ?w" using p by (simp add: plain_hist_def)
  note h = plain_facts(6) [OF p]
  note b = segment_bytes(3) [OF h, where rows = "hist_rows f" and w = ?w and k = k, folded seg]
  note sf = segment_fields [OF p seg]
  have e: "(hist_rows f - k) * ?w + k * ?w = hist_rows f * ?w" using k by (simp add: diff_mult_distrib)
  have "(hist_rows f - k) * ?w \<le> length (drop (hdr_size + k * ?w) f)" using rows_end [OF p] e by simp
  then have l: "length (drop hdr_size seg) = (hist_rows f - k) * ?w" using b by (simp add: min_def)
  then show r: "hist_rows seg = hist_rows f - k" using sf(3) w unfolding hist_rows_def by simp
  show "hist_row seg i = hist_row f (k + i)" if i: "i < hist_rows f - k"
  proof -
    have "Suc i * ?w \<le> (hist_rows f - k) * ?w" using i by (intro mult_le_mono1) simp
    then have le: "i * ?w + ?w \<le> (hist_rows f - k) * ?w" by simp
    have "take ?w (drop (hdr_size + i * ?w) seg) = take ?w (drop (i * ?w) (drop hdr_size seg))"
      by (simp add: add.commute)
    also have "\<dots> = take ?w (drop (hdr_size + (k + i) * ?w) f)"
      using le unfolding b by (simp add: drop_take min_def algebra_simps)
    finally show ?thesis using i k unfolding hist_row_def r sf(3) by simp
  qed
qed

section \<open>The relay finds the file that is continued\<close>

text \<open>The file of the archive was recorded from the same stream as the local file.\<close>

definition same_stream :: "bytes \<Rightarrow> bytes \<Rightarrow> bool" where
  "same_stream g f \<longleftrightarrow> hist_geom_match g f \<and> hdr_start_utc g = hdr_start_utc f \<and>
     take 4 (at_member FileHeader ''row_rate_hz'' g) = take 4 (at_member FileHeader ''row_rate_hz'' f)"

lemma row_rate_pos: "1 / 2 < row_rate f"
  by (simp add: row_rate_def split: option.split)

lemma same_stream_rate: "same_stream g f \<Longrightarrow> row_rate g = row_rate f"
  by (simp add: same_stream_def row_rate_def hdr_f32_def f32_value_def)

lemma row_seconds_floor:
  assumes "hdr_f32 ''row_rate_hz'' f \<noteq> None"
  shows "int (row_seconds f k) = \<lfloor>real k / row_rate f\<rfloor>"
proof -
  have "take 4 (at_member FileHeader ''row_rate_hz'' f) \<noteq> [0, 0, 0x80, 0x7F]"
    using assms by (auto simp: hdr_f32_def f32_value_def)
  moreover have "0 \<le> \<lfloor>real k / row_rate f\<rfloor>" using row_rate_pos [of f] by simp
  ultimately show ?thesis by (simp add: row_seconds_def)
qed

lemma segment_continues:
  assumes p: "plain_hist f" and seg: "seg = segment_content f rows (hdr_fft_size f) k"
    and g: "same_stream g f" "hist_read_header g = Some k" and k: "row_rate f \<le> real k"
    and n: "hdr_start_utc f + row_seconds f k < 2 ^ 63"
  shows "continues g seg"
proof -
  note sf = segment_fields [OF p seg]
  have geo: "hist_geom_match g f" "hdr_start_utc g = hdr_start_utc f" using g(1) by (simp_all add: same_stream_def)
  then have fl: "hdr_f32 ''row_rate_hz'' f \<noteq> None"
    by (auto simp: hist_geom_match_def f32_close_def split: option.splits)
  have st: "segment_start f k = hdr_start_utc f + row_seconds f k" using n by (simp add: segment_start_def)
  have "1 \<le> real k / row_rate f" using k row_rate_pos [of f] by (simp add: field_simps)
  then have "1 \<le> \<lfloor>real k / row_rate f\<rfloor>" by simp
  then have pos: "0 < row_seconds f k" using row_seconds_floor [OF fl, of k] by linarith
  have e: "end_utc g k = int (hdr_start_utc f) + int (row_seconds f k)"
    using n geo(2) same_stream_rate [OF g(1)] by (simp add: end_utc_def to_int64_def row_seconds_floor [OF fl])
  have "to_int64 (hdr_start_utc seg) = int (hdr_start_utc f) + int (row_seconds f k)"
    using n by (simp add: sf(2) st to_int64_def)
  then show ?thesis using g(2) sf(2,4) geo pos e by (simp add: continues_def st)
qed

lemma find_best_selects:
  assumes n: "hist_name n" "path_in dir n \<noteq> seg_path" "fs (path_in dir n) = Some (chars_of g)" "continues g seg"
    and o: "\<And>m s. m \<in> set ns \<Longrightarrow> m \<noteq> n \<Longrightarrow> hist_name m \<Longrightarrow> path_in dir m \<noteq> seg_path \<Longrightarrow> fs (path_in dir m) = Some s \<Longrightarrow>
      \<not> continues (bytes_of s) seg"
    and b: "best = Some (n, g) \<or> (best = None \<and> n \<in> set ns)"
  shows "find_best fs dir seg_path seg ns best = Some (n, g)"
  using o b
proof (induction ns arbitrary: best)
  case (Cons m ns)
  show ?case
  proof (cases "m = n")
    case True
    then show ?thesis using n Cons.prems by (auto intro: Cons.IH)
  next
    case False
    have "(let q = path_in dir m in if \<not> hist_name m \<or> q = seg_path then best
        else case fs q of None \<Rightarrow> best
             | Some s \<Rightarrow> (let f = bytes_of s in if \<not> continues f seg then best
                  else case best of None \<Rightarrow> Some (m, f)
                       | Some (bn, bf) \<Rightarrow> if hdr_start_utc bf < hdr_start_utc f then Some (m, f) else best)) = best"
      using Cons.prems(1) [of m] False by (auto simp: Let_def split: option.split)
    then show ?thesis unfolding find_best.simps using Cons.prems False by (auto intro!: Cons.IH)
  qed
qed simp

section \<open>The segment gets into the queue\<close>

lemma live_name_long: "2 < length (build_hist_filename_live t cf st)"
proof -
  have "3 \<le> length (''_'' @ [mission_letter m] @ two_dec d @ r)" for m d and r :: string
    by (cases "dec_str d") (simp_all add: two_dec_def)
  then show ?thesis by (simp add: build_hist_filename_live_def Let_def)
qed

lemma live_component_safe: "path_component_safe 128 (build_hist_filename_live t cf st)"
  using live_name_safe [of t cf st] live_name_long [of t cf st] by (auto simp: path_component_safe_chars)

lemma final_name_safe: "path_component_safe 128 (build_hist_filename_finalize (build_hist_filename_live t cf st) e)"
proof (cases "before_last ''-LIVE.bewehist'' (build_hist_filename_live t cf st)")
  case None
  then show ?thesis using live_component_safe by (simp add: build_hist_filename_finalize_def)
next
  case (Some p)
  note ls = live_name_safe [of t cf st]
  have px: "prefix (p @ ''-LIVE.bewehist'') (build_hist_filename_live t cf st)" using before_last_append [OF Some] .
  then have "length (p @ ''-LIVE.bewehist'') \<le> 127" using prefix_length_le [OF px] ls(2) by linarith
  moreover have "list_all safe_char p" using px ls(1) by (auto simp: prefix_def list_all_iff)
  moreover have "14 \<le> length (p @ hhmm_tail t)" for t by simp
  then have "p @ hhmm_tail t \<noteq> x" if "length x < 14" for t x using that by (metis linorder_not_less)
  from this [of "[]"] this [of "''.''"] this [of "''..''"]
  have "p @ hhmm_tail t \<notin> {[], ''.'', ''..''}" for t by (simp del: append_is_Nil_conv)
  ultimately show ?thesis unfolding build_hist_filename_finalize_def Some path_component_safe_chars by simp
qed

lemma segment_name_safe: "path_component_safe 128 (segment_name f rows k)"
  unfolding segment_name_def by (rule final_name_safe)

lemma final_free_first: "fs cand = None \<Longrightarrow> final_free fs dir fin k n cand = cand"
  by (cases k) simp_all

text \<open>A path below the directory of missions is taken apart into what it was made of.\<close>

definition local_hist :: "string \<Rightarrow> string \<Rightarrow> nat \<Rightarrow> string \<Rightarrow> string" where
  "local_hist mroot st y c = path_in (path_in (path_in (path_in mroot st) (dec_str y)) c) ''hist''"

lemma cut_slash_first: "CHR ''/'' \<notin> set a \<Longrightarrow> cut_slash (a @ CHR ''/'' # b) = Some (a, b)"
proof -
  assume "CHR ''/'' \<notin> set a"
  then have "takeWhile (\<lambda>c. c \<noteq> CHR ''/'') (a @ CHR ''/'' # b) = a" "dropWhile (\<lambda>c. c \<noteq> CHR ''/'') (a @ CHR ''/'' # b) = CHR ''/'' # b"
    by (simp_all add: takeWhile_append dropWhile_append)
  then show ?thesis by (simp add: cut_slash_def)
qed

lemma safe_no_slash: "path_component_safe n s \<Longrightarrow> CHR ''/'' \<notin> set s \<and> s \<noteq> []"
  by (auto simp: path_component_safe_def list_all_iff)

lemma parse_local_hist:
  assumes "path_component_safe m st" "path_component_safe n c" "path_component_safe k fn" "1970 \<le> y" "y \<le> 3000"
  shows "parse_mission_path mroot (path_in (local_hist mroot st y c) fn) MFS_HIST = Some (int y, c, fn, st)"
proof -
  have "path_in (local_hist mroot st y c) fn =
      (mroot @ ''/'') @ st @ CHR ''/'' # dec_str y @ CHR ''/'' # c @ CHR ''/'' # ''hist'' @ CHR ''/'' # fn"
    by (simp add: local_hist_def path_in_def)
  then have d: "prefix (mroot @ ''/'') (path_in (local_hist mroot st y c) fn)"
    "drop (length (mroot @ ''/'')) (path_in (local_hist mroot st y c) fn) =
       st @ CHR ''/'' # dec_str y @ CHR ''/'' # c @ CHR ''/'' # ''hist'' @ CHR ''/'' # fn"
    by (simp_all add: prefix_def)
  have ns: "CHR ''/'' \<notin> set st" "CHR ''/'' \<notin> set c" "st \<noteq> []" "c \<noteq> []" "fn \<noteq> []" "CHR ''/'' \<notin> set ''hist''"
    using safe_no_slash assms by auto
  have ct: "c_text ''hist'' = push_subdir_name MFS_HIST"
    by (simp add: c_text_def push_subdir_name_def MFS_HIST_def MFS_IQ_def MFS_AUDIO_def)
  have "CHR 0x00 \<notin> set (dec_str y)" using dec_str_digits [of y] by (auto simp: list_all_iff is_digit_def)
  then have cy: "c_text (dec_str y) = dec_str y" by (simp add: c_text_def) (metis takeWhile_eq_all_conv)
  show ?thesis
    unfolding parse_mission_path_def Let_def d(2) cut_slash_first [OF ns(1)] cut_slash_first [OF dec_str_no_slash]
      cut_slash_first [OF ns(2)] cut_slash_first [OF ns(6)] option.case prod.case ct cy atoi_dec
    using d(1) ns assms by simp
qed

lemma check_segment:
  assumes loc: "local_files (hc_push C) path = Some (chars_of f)" "plain_hist f" "k < hist_rows f"
    and a: "query_central ans (text_of 32 (at_member FileHeader ''station_name'' f)) y c (hdr_start_utc f) C = (Some a, C\<lparr> hc_req := q \<rparr>)"
      "at_member PktHistStat ''found'' a ! 0 \<noteq> 0" "le_nat (take 8 (at_member PktHistStat ''num_rows'' a)) = k"
    and p: "path = path_in d name" "component name" "d = local_hist mroot st y c"
      "path_component_safe i st" "path_component_safe j c" "1970 \<le> y" "y \<le> 3000"
    and seg: "sn = segment_name f (hist_rows f) k" "seg = path_in d sn"
      "local_files (hc_push C) seg = None" "(path, k) \<notin> hc_exported C" "\<forall>e\<in>set (pq (hc_push C)). pi_path e \<noteq> seg"
  shows "check_one True True ans mroot y c path C =
    (C\<lparr> hc_req := q, hc_exported := insert (path, k) (hc_exported C),
        hc_push := (hc_push C)\<lparr>
          local_files := (local_files (hc_push C))(seg \<mapsto> chars_of (segment_content f (hist_rows f) (hdr_fft_size f) k)),
          pq := pq (hc_push C) @ [\<lparr> pi_path = seg, pi_subdir = MFS_HIST, pi_year = int y, pi_code = c,
                                    pi_filename = sn, pi_station = st \<rparr>] \<rparr> \<rparr>, SegmentUpload seg)"
proof -
  let ?fs = "local_files (hc_push C)"
  have r: "read_local f = Some (hist_rows f, hdr_fft_size f)" using plain_facts(4) [OF loc(2)] loc(3) by simp
  have d: "find_last_of CHR ''/'' path = Some (length d)" "take (length d) path = d"
    unfolding p(1) using last_slash [OF p(2)] by (simp_all add: path_in_def)
  have ff: "final_free ?fs d sn 98 2 seg = seg" using seg(3) by (rule final_free_first [where fs = ?fs])
  have ex: "export_segment True True path f (hist_rows f) (hdr_fft_size f) k ?fs =
      (?fs(seg \<mapsto> chars_of (segment_content f (hist_rows f) (hdr_fft_size f) k)), Some seg)"
    using loc(3) unfolding export_segment_def d Let_def option.case seg(1) [symmetric] seg(2) [symmetric] ff by simp
  have "path_component_safe 128 sn" unfolding seg(1) by (rule segment_name_safe)
  from parse_local_hist [OF p(4,5) this p(6,7)]
  have pl: "parse_mission_path mroot seg MFS_HIST = Some (int y, c, sn, st)" unfolding seg(2) p(3) by simp
  have cmp: "compare_rows True True mroot path f (hist_rows f) (hdr_fft_size f) a (C\<lparr> hc_req := q \<rparr>) =
    (C\<lparr> hc_req := q, hc_exported := insert (path, k) (hc_exported C),
        hc_push := push_enqueue mroot seg MFS_HIST ((hc_push C)\<lparr> local_files :=
          ?fs(seg \<mapsto> chars_of (segment_content f (hist_rows f) (hdr_fft_size f) k)) \<rparr>) \<rparr>, SegmentUpload seg)"
    using a(2) loc(3) seg(4) by (simp add: compare_rows_def Let_def a(3) ex)
  show ?thesis unfolding check_one_def loc(1) option.case Let_def bytes_chars_of r prod.case a(1) cmp
    using seg(5) by (simp add: push_enqueue_def pl)
qed

section \<open>The merge completes the file\<close>

lemma same_header:
  assumes "take hdr_size a = take hdr_size b" "hdr_size \<le> length a"
  shows "plain_hist a = plain_hist b" "hdr_start_utc a = hdr_start_utc b"
proof -
  have t: "take n (drop m a) = take n (drop m b)" if "m + n \<le> hdr_size" for m n
  proof -
    have "take n (drop m a) = take n (drop m (take hdr_size a))"
      "take n (drop m b) = take n (drop m (take hdr_size b))" using that by (simp_all add: drop_take min_absorb1)
    then show ?thesis using assms(1) by simp
  qed
  have l: "hdr_size \<le> length b" using arg_cong [OF assms(1), of length] assms(2) by simp
  have n: "hdr_version a = hdr_version b" "hdr_fft_size a = hdr_fft_size b" "hdr_fft_input_size a = hdr_fft_input_size b"
    by (simp_all add: hdr_num_def t)
  show "hdr_start_utc a = hdr_start_utc b" by (simp add: hdr_num_def t)
  show "plain_hist a = plain_hist b" using t [of 0 4] l assms(2) by (simp add: plain_hist_def has_magic_def n)
qed

lemma merged_stat_name: "hist_name n \<Longrightarrow> stat_file_name (merged_name n t)"
proof (cases "before_last ''-'' n")
  case (Some p)
  assume n: "hist_name n"
  then have "\<not> prefix ''.'' (p @ ''-'' @ r)" for r
    using before_last_prefix [OF Some] by (cases p) (auto simp: hist_name_def prefix_def)
  then show ?thesis using n Some
    by (auto simp: merged_name_def stat_file_name_def hist_name_def hhmm_tail_def suffix_def split: prod.split)
qed (simp add: merged_name_def stat_file_name_def hist_name_def)

lemma merge_restores:
  assumes f: "plain_hist f" "k < hist_rows f" "row_rate f \<le> real k" "hdr_start_utc f + row_seconds f k < 2 ^ 63"
    and g: "same_stream g f" "hist_read_header g = Some k" "stores_rows Z g f0"
    and f0: "plain_hist f0" "hdr_start_utc f0 = hdr_start_utc f" "\<forall>i<k. hist_row f0 i = hist_row f i"
    and seg: "seg = segment_content f (hist_rows f) (hdr_fft_size f) k" "component sn" "fs (path_in dir sn) = Some (chars_of seg)"
    and n: "hist_name n" "n \<in> set (readdir dir)" "n \<noteq> sn" "fs (path_in dir n) = Some (chars_of g)"
      "\<forall>m\<in>set (readdir dir). \<forall>s. m \<noteq> n \<and> m \<noteq> sn \<and> fs (path_in dir m) = Some s \<longrightarrow> \<not> continues (bytes_of s) seg"
  shows "\<exists>fs' q m. merge_hist_segment Z True readdir (path_in dir sn) fs = (fs', Some (path_in dir q)) \<and>
    fs' (path_in dir q) = Some (chars_of m) \<and> stat_file_name q \<and> plain_hist m \<and> hdr_start_utc m = hdr_start_utc f \<and>
    hist_rows m = hist_rows f \<and> (\<forall>i. hist_row m i = hist_row f i) \<and>
    (\<forall>x. x \<noteq> path_in dir q \<longrightarrow> fs' x = (if x \<in> {path_in dir n, path_in dir sn, path_in dir ''.merge.tmp''} then None else fs x))"
proof -
  note sf = segment_fields [OF f(1) seg(1)]
  note sr = segment_rows [OF f(1) seg(1) less_imp_le [OF f(2)]]
  have w: "0 < hdr_fft_size seg" using sf(1) by (simp add: plain_hist_def)
  have hs: "hist_read_header seg = Some (hist_rows f - k)" using plain_facts(5) [OF sf(1)] sr(1) f(2) by simp
  have vs: "hdr_version seg = FILE_VERSION" using sf(1) by (simp add: plain_hist_def)
  have d: "find_last_of CHR ''/'' (path_in dir sn) = Some (length dir)" "dir = take (length dir) (path_in dir sn)"
    using last_slash [OF seg(2)] by (simp_all add: path_in_def)
  have co: "continues g seg" by (rule segment_continues [OF f(1) seg(1) g(1,2) f(3,4)])
  have ne: "path_in dir n \<noteq> path_in dir sn" using n(3) by (simp add: path_in_def)
  have b: "find_best fs dir (path_in dir sn) seg (readdir dir) None = Some (n, g)"
    using n(2,5) by (intro find_best_selects [where fs = fs and dir = dir, OF n(1) ne n(4) co]) auto
  have gw: "0 < hdr_fft_size g" using g(1) f(1) by (simp add: same_stream_def hist_geom_match_def plain_hist_def)
  note st = stores_rowsD [OF g(3) g(2) gw]
  define body where "body = take ((hist_rows f - k) * row_width seg) (drop hdr_size seg)"
  define t where "t = end_utc g (the (hist_read_header g) + (hist_rows f - k))"
  let ?q = "path_in dir (merged_name n t)" and ?raw = "take (hdr_size + hist_rows f0 * hdr_fft_size f0) f0"
  obtain fs' where e: "merge_hist_segment Z True readdir (path_in dir sn) fs = (fs', Some ?q)" "fs' ?q = Some (chars_of (?raw @ body))"
    using merge_effect [where fs = fs and readdir = readdir and bn = n,
        OF seg(3) hs vs d b st(1) arg_cong [OF t_def, of "\<lambda>t. path_in dir (merged_name n t)"] body_def] by blast
  obtain fs2 p m where m: "merge_hist_segment Z True readdir (path_in dir sn) fs = (fs2, Some p)" "fs2 p = Some (chars_of m)"
    "hist_rows m = hist_rows f0 + (hist_rows f - k)"
    "\<forall>i. hist_row m i = (if i < hist_rows f0 then hist_row f0 i else hist_row seg (i - hist_rows f0))"
    "\<forall>x. x \<noteq> p \<longrightarrow> fs2 x = (if x \<in> {path_in dir n, path_in dir sn, path_in dir ''.merge.tmp''} then None else fs x)"
    using merge_keeps_rows [where fs = fs and readdir = readdir, OF seg(3) hs vs w d b g(3)] by blast
  have eq: "fs2 = fs'" "p = ?q" using e(1) m(1) by simp_all
  then have "chars_of m = chars_of (?raw @ body)" using e(2) m(2) by simp
  then have mm: "m = ?raw @ body" by (metis bytes_chars_of)
  have "take hdr_size m = take hdr_size f0" "hdr_size \<le> length m"
    unfolding mm using st(4,5) by (simp_all add: min_absorb1)
  note head = same_header [OF this]
  have rows: "hist_rows m = hist_rows f" using m(3) st(2) f(2) by simp
  have "hist_row m i = hist_row f i" for i
  proof (cases "i < k")
    case True
    then show ?thesis using m(4) st(2) f0(3) by simp
  next
    case False
    show ?thesis
    proof (cases "i < hist_rows f")
      case True
      then have "hist_row seg (i - k) = hist_row f (k + (i - k))" using False by (intro sr(2)) simp
      then show ?thesis using m(4) st(2) False by simp
    next
      case out: False
      then have "hist_row m i = Failed" using rows by (simp add: hist_row_def)
      then show ?thesis using out by (simp add: hist_row_def)
    qed
  qed
  then show ?thesis using m(1,2,5) eq rows head f0(1,2) merged_stat_name [OF n(1)] by (metis (no_types, lifting))
qed

section \<open>The second check\<close>

lemma stat_rows_bound: "stat_rows g = Some r \<Longrightarrow> length g < 2 ^ 64 \<Longrightarrow> r < 2 ^ 64"
proof -
  assume r: "stat_rows g = Some r" and l: "length g < 2 ^ 64"
  have "le_nat (take 8 x) < 2 ^ 64" for x
  proof -
    have "le_nat (take 8 x) < 256 ^ length (take 8 x)" by (rule le_nat_bound)
    also have "\<dots> \<le> 256 ^ 8" by (intro power_increasing) simp_all
    finally show ?thesis by simp
  qed
  moreover have "(length g - hdr_size) div stat_width g < 2 ^ 64"
    using l div_le_dividend [of "length g - hdr_size" "stat_width g"] by linarith
  ultimately show ?thesis using r by (auto simp: stat_rows_def v4ext_def split: if_splits)
qed

lemma check_removes:
  assumes loc: "local_files (hc_push C) path = Some (chars_of f)" "plain_hist f" "0 < hist_rows f"
    and k: "length c < 8" "CHR 0x00 \<notin> set c" "y < 65536"
    and dir: "archive_dir base (take 64 (case active of Some (st, _) \<Rightarrow> st | None \<Rightarrow> sid)) y c MFS_HIST = Some dir"
    and m: "q \<in> set (readdir dir)" "fs (path_in dir q) = Some (chars_of m)" "stat_file_name q" "plain_hist m"
      "hdr_start_utc m = hdr_start_utc f" "hist_rows m = hist_rows f"
    and sz: "\<forall>n g. fs (path_in dir n) = Some (chars_of g) \<longrightarrow> length g < 2 ^ 64"
  shows "\<exists>C'. check_one True True (handle_hist_stat_req base sid active readdir fs) mroot y c path C = (C', Removed) \<and>
    local_files (hc_push C') = (local_files (hc_push C))(path := None, path @ ''.info'' := None)"
proof -
  let ?e = "stat_entry q m (hist_rows m)" and ?r = "stat_scan fs dir (hdr_start_utc f) (readdir dir) None"
  have "stat_of fs dir (hdr_start_utc f) q = Some ?e"
    unfolding stat_of_Some using m plain_facts(3) [OF m(4)] by (auto simp: plain_hist_def stat_entry_def)
  from scan_complete [OF m(1) this, of None]
  obtain e where e: "?r = Some e" "hist_rows f \<le> st_rows e" using m(6) by (auto simp: stat_entry_def)
  then obtain n where "stat_of fs dir (hdr_start_utc f) n = Some e" using scan_found by blast
  then have eb: "st_rows e < 2 ^ 64" unfolding stat_of_Some using stat_rows_bound sz by blast
  have r: "?r = (case Some dir of None \<Rightarrow> None | Some d \<Rightarrow> stat_scan fs d (hdr_start_utc f) (readdir d) None)" by simp
  obtain a req where a: "query_central (handle_hist_stat_req base sid active readdir fs)
      (text_of 32 (at_member FileHeader ''station_name'' f)) y c (hdr_start_utc f) C = (Some a, C\<lparr> hc_req := req \<rparr>)"
    "at_member PktHistStat ''found'' a ! 0 = of_bool (?r \<noteq> None)"
    "\<And>x. ?r = Some x \<Longrightarrow> le_nat (take 8 (at_member PktHistStat ''num_rows'' a)) = st_rows x mod 2 ^ 64"
    using query_relay [where fs = fs and readdir = readdir, OF k hdr_start_bound dir r] by blast
  have n: "le_nat (take 8 (at_member PktHistStat ''num_rows'' a)) = st_rows e" using a(3) [OF e(1)] eb by simp
  have rl: "read_local f = Some (hist_rows f, hdr_fft_size f)" using plain_facts(4) [OF loc(2)] loc(3) by simp
  show ?thesis unfolding check_one_def loc(1) option.case Let_def bytes_chars_of rl prod.case a(1)
    using a(2) e by (simp add: compare_rows_def Let_def n)
qed

section \<open>Recovery\<close>

lemma scan_only:
  assumes e: "stat_of fs dir start n = Some e"
  shows "\<lbrakk>\<And>m. m \<in> set ns \<Longrightarrow> m \<noteq> n \<Longrightarrow> stat_of fs dir start m = None; best = Some e \<or> best = None \<and> n \<in> set ns\<rbrakk> \<Longrightarrow>
    stat_scan fs dir start ns best = Some e"
proof (induction ns arbitrary: best)
  case (Cons m ns)
  show ?case
  proof (cases "m = n")
    case True
    then show ?thesis using e Cons.prems by (auto intro!: Cons.IH)
  next
    case False
    then have "stat_of fs dir start m = None" using Cons.prems by simp
    then show ?thesis using Cons.prems False by (auto intro!: Cons.IH)
  qed
qed simp

lemma answer_partial:
  assumes f: "plain_hist f" and kc: "length c < 8" "CHR 0x00 \<notin> set c" "y < 65536"
    and arc: "archive_dir base (take 64 (case active of Some (st, _) \<Rightarrow> st | None \<Rightarrow> sid)) y c MFS_HIST = Some dir"
      "n \<in> set (readdir dir)" "hist_name n" "fs (path_in dir n) = Some (chars_of g)" "length g < 2 ^ 64"
      "same_stream g f" "hist_read_header g = Some k" "stores_rows Z g f0" "plain_hist f0"
    and others: "\<forall>m\<in>set (readdir dir). \<forall>s. m \<noteq> n \<and> fs (path_in dir m) = Some s \<longrightarrow> hdr_start_utc (bytes_of s) \<noteq> hdr_start_utc f"
  obtains a req where "query_central (handle_hist_stat_req base sid active readdir fs)
      (text_of 32 (at_member FileHeader ''station_name'' f)) y c (hdr_start_utc f) C = (Some a, C\<lparr> hc_req := req \<rparr>)"
    "at_member PktHistStat ''found'' a ! 0 \<noteq> 0" "le_nat (take 8 (at_member PktHistStat ''num_rows'' a)) = k"
proof -
  have gm: "has_magic g" using arc(7) by (auto simp: hist_read_header_def split: if_splits)
  have gs: "hdr_start_utc g = hdr_start_utc f" using arc(6) by (simp add: same_stream_def)
  have gr: "stat_rows g = Some k"
  proof (cases "hdr_version g = FILE_VERSION_ZSTD")
    case True
    then show ?thesis using arc(7) by (auto simp: hist_read_header_def stat_rows_def split: if_splits)
  next
    case False
    then have "g = f0 \<or> hdr_version g = FILE_VERSION_ZSTD"
      using arc(8) compress_compressed by (auto simp: stores_rows_def compressed_def)
    then have "plain_hist g" using False arc(9) by simp
    then show ?thesis using plain_facts(3,5) arc(7) by (auto split: if_splits)
  qed
  have so: "stat_of fs dir (hdr_start_utc f) n = Some (stat_entry n g k)"
    unfolding stat_of_Some using arc(3,4) gm gs gr by (auto simp: stat_file_name_def hist_name_def stat_entry_def)
  have none: "stat_of fs dir (hdr_start_utc f) m = None" if "m \<in> set (readdir dir)" "m \<noteq> n" for m
    using others that by (auto simp: stat_of_def Let_def split: option.split)
  have "stat_scan fs dir (hdr_start_utc f) (readdir dir) None = Some (stat_entry n g k)"
    using none arc(2) by (intro scan_only [where fs = fs and dir = dir, OF so]) auto
  then have r: "Some (stat_entry n g k) = (case Some dir of None \<Rightarrow> None | Some d \<Rightarrow> stat_scan fs d (hdr_start_utc f) (readdir d) None)"
    by simp
  obtain a req where a: "query_central (handle_hist_stat_req base sid active readdir fs)
      (text_of 32 (at_member FileHeader ''station_name'' f)) y c (hdr_start_utc f) C = (Some a, C\<lparr> hc_req := req \<rparr>)"
    "at_member PktHistStat ''found'' a ! 0 = of_bool (Some (stat_entry n g k) \<noteq> None)"
    "\<And>x. Some (stat_entry n g k) = Some x \<Longrightarrow> le_nat (take 8 (at_member PktHistStat ''num_rows'' a)) = st_rows x mod 2 ^ 64"
    using query_relay [where fs = fs and readdir = readdir, OF kc(1-3) hdr_start_bound arc(1) r] by blast
  show ?thesis
    using a(2) a(3) [OF refl] stat_rows_bound [OF gr arc(5)] by (intro that [OF a(1)]) (simp_all add: stat_entry_def)
qed


text \<open>A file of six rows, of which the archive has five.\<close>

abbreviation ex_name :: string where "ex_name \<equiv> ''a-0100.bewehist''"
abbreviation ex_dir :: string where
  "ex_dir \<equiv> path_in (path_in (path_in (path_in (archive_root ''/b'') ''s'') (dec_str 2026)) ''A01'') ''hist''"
abbreviation ex_local :: string where "ex_local \<equiv> local_hist ''/m'' ''s'' 2026 ''A01''"
abbreviation ex_part :: bytes where "ex_part \<equiv> example_hist 99 (replicate 20 1)"
abbreviation ex_full :: bytes where "ex_full \<equiv> example_hist 99 (replicate 20 1 @ [2, 2, 2, 2])"

definition ex_checker :: "bytes \<Rightarrow> checker" where
  "ex_checker f = \<lparr> hc_push = \<lparr> local_files = [path_in ex_local ex_name \<mapsto> chars_of f], pq = [], ack_map = Map.empty,
     next_transfer_id = 1 \<rparr>, hc_exported = {}, hc_req = 0 \<rparr>"

lemma ex_archive: "archive_dir ''/b'' (take 64 (case None of Some (st, _) \<Rightarrow> st | None \<Rightarrow> ''s'')) 2026 ''A01'' MFS_HIST = Some ex_dir"
  by (simp add: archive_dir_def mission_dir_def path_component_safe_def subdir_name_def MFS_IQ_def MFS_AUDIO_def MFS_HIST_def)

lemma ex_plain: "plain_hist (example_hist t b)"
  by (simp add: plain_hist_def example_hist_facts)

lemma ex_rows: "hist_rows ex_part = 5" "hist_rows ex_full = 6"
  by (simp_all add: hist_rows_def example_hist_facts)

lemma ex_row:
  "i * 4 + 4 \<le> length b \<Longrightarrow> take 4 (drop (128 + i * 4) (example_hist t b)) = take 4 (drop (i * 4) b)"
proof -
  obtain h where h: "example_hist t b = h @ b" "length h = 128"
    by (rule that [of "take 128 (example_hist t b)"]) (simp_all add: example_hist_def bytes_of_def)
  then show ?thesis by simp
qed

lemma ex_rows_agree: "\<forall>i<5. hist_row ex_part i = hist_row ex_full i"
proof (intro allI impI)
  fix i :: nat assume i: "i < 5"
  have "take 4 (drop (i * 4) (replicate 20 1 @ z)) = replicate 4 (1 :: u8)" for z
    using i by (simp add: min_def)
  from this [of "[]"] this [of "[2, 2, 2, 2]"]
  have "take 4 (drop (i * 4) (replicate 20 1)) = take 4 (drop (i * 4) (replicate 20 1 @ [2, 2, 2, 2 :: u8]))" by simp
  then show "hist_row ex_part i = hist_row ex_full i"
    using i ex_row [of i "replicate 20 1" 99] ex_row [of i "replicate 20 1 @ [2, 2, 2, 2]" 99]
    by (simp add: hist_row_def ex_rows example_hist_facts)
qed

lemma ex_rate: "row_rate (example_hist t b) = 5" "row_seconds (example_hist t b) 5 = 1"
proof -
  show "row_rate (example_hist t b) = 5" by (simp add: row_rate_def example_hist_facts)
  moreover have "int (row_seconds (example_hist t b) 5) = \<lfloor>real 5 / row_rate (example_hist t b)\<rfloor>"
    by (rule row_seconds_floor) (simp add: example_hist_facts)
  ultimately show "row_seconds (example_hist t b) 5 = 1" by simp
qed

lemma ex_same: "same_stream (example_hist t b) (example_hist t b')"
  by (simp add: same_stream_def hist_geom_match_def example_hist_facts f32_close_def centi_def)
    (simp add: example_hist_def bytes_of_def)

lemma ex_segment_name: "segment_name (example_hist t b) r k \<noteq> CHR ''a'' # x"
proof
  let ?f = "example_hist t b"
  let ?l = "build_hist_filename_live (segment_start ?f k) (hdr_num ''center_freq_hz'' 8 ?f)
          (text_of 32 (at_member FileHeader ''station_name'' ?f))"
  assume a: "segment_name ?f r k = CHR ''a'' # x"
  have "text_of 32 (at_member FileHeader ''station_name'' ?f) = []"
    by (simp add: example_hist_def bytes_of_def at_member_def FileHeader_def text_of_def cstr_def chars_of_def)
  then obtain l where l: "?l = CHR ''h'' # l"
    by (simp add: build_hist_filename_live_def sanitize_station_hist_def hist_char_ok_def Let_def)
  have sn: "segment_name ?f r k = build_hist_filename_finalize ?l (int (segment_start ?f r))" by (simp add: segment_name_def)
  show False
  proof (cases "before_last ''-LIVE.bewehist'' ?l")
    case None
    then show ?thesis using a l unfolding sn build_hist_filename_finalize_def by simp
  next
    case (Some p)
    have "prefix p ?l" by (rule before_last_prefix [OF Some])
    then have "p = [] \<or> hd p = CHR ''h''" unfolding l by (auto simp: prefix_Cons)
    then show ?thesis using a unfolding sn build_hist_filename_finalize_def Some
      by (cases p) (auto simp: hhmm_tail_def split: prod.splits)
  qed
qed


theorem hist_check_keeps_witness:
  "\<exists>C' n g m. check_one True True (handle_hist_stat_req ''/b'' ''s'' None (\<lambda>_. [ex_name]) [path_in ex_dir ex_name \<mapsto> chars_of ex_part])
       ''/m'' 2026 ''A01'' (path_in ex_local ex_name) (ex_checker ex_part) = (C', Removed) \<and>
     local_files (hc_push C') (path_in ex_local ex_name) = None \<and>
     [path_in ex_dir ex_name \<mapsto> chars_of ex_part] (path_in ex_dir n) = Some (chars_of g) \<and> stat_rows g = Some m \<and> 5 \<le> m"
proof -
  let ?fs = "[path_in ex_dir ex_name \<mapsto> chars_of ex_part]" and ?rd = "\<lambda>d :: string. [ex_name]" and ?p = "path_in ex_local ex_name"
  let ?h = "handle_hist_stat_req ''/b'' ''s'' None ?rd ?fs"
  have loc: "local_files (hc_push (ex_checker ex_part)) ?p = Some (chars_of ex_part)" by (simp add: ex_checker_def)
  have k: "length ''A01'' < 8" "CHR 0x00 \<notin> set ''A01''" "(2026::nat) < 65536" by simp_all
  have st: "stat_file_name ex_name" using name_facts(1) by (simp add: stat_file_name_def hist_name_def)
  have sz: "\<forall>n g. ?fs (path_in ex_dir n) = Some (chars_of g) \<longrightarrow> length g < 2 ^ 64"
  proof (intro allI impI)
    fix n g assume "?fs (path_in ex_dir n) = Some (chars_of g)"
    then have "chars_of g = chars_of ex_part" by (auto split: if_splits)
    then have "length (chars_of g) = length (chars_of ex_part)" by simp
    then show "length g < 2 ^ 64" by (simp add: example_hist_facts)
  qed
  obtain C' where c: "check_one True True ?h ''/m'' 2026 ''A01'' ?p (ex_checker ex_part) = (C', Removed)"
    "local_files (hc_push C') = (local_files (hc_push (ex_checker ex_part)))(?p := None, ?p @ ''.info'' := None)"
    using check_removes [where fs = ?fs and readdir = ?rd and q = ex_name and m = ex_part and f = ex_part and C = "ex_checker ex_part"
        and path = ?p and dir = ex_dir, OF loc ex_plain _ k ex_archive _ _ st ex_plain refl refl sz] ex_rows by auto
  have d: "local_files (hc_push C') ?p \<noteq> local_files (hc_push (ex_checker ex_part)) ?p" using c(2) loc by simp
  from hist_check_keeps [where fs = ?fs and readdir = ?rd, OF c(1) k d]
  obtain s rows w n g m where x: "local_files (hc_push (ex_checker ex_part)) ?p = Some s" "read_local (bytes_of s) = Some (rows, w)"
    "?fs (path_in ex_dir n) = Some (chars_of g)" "stat_rows g = Some m" "rows \<le> m"
    unfolding ex_archive by blast
  have "s = chars_of ex_part" using x(1) loc by simp
  then have "rows = 5" using x(2) plain_facts(4) [OF ex_plain [of 99 "replicate 20 1"]] ex_rows by simp
  then show ?thesis using c x(3-5) by (intro exI conjI) (rule c(1), simp, rule x(3), rule x(4), simp)
qed

end
