(* ===== verification/MissionJson.thy ===== *)
theory MissionJson
  imports HistComplete
begin

text \<open>
  The missions a HOST remembers and their file \<^verbatim>\<open>missions.json\<close>: the entries of the history
  (\<^verbatim>\<open>FFTViewer::MissionEntry\<close> of \<^verbatim>\<open>src/fft_viewer.hpp\<close>), the writing and the reading of
  \<^verbatim>\<open>src/mission.cpp\<close>.  A text buffer is the text up to its terminating zero.  A coordinate is the
  bit pattern of a \<^verbatim>\<open>float\<close>.
\<close>

section \<open>Entries\<close>

record mission_entry =
  me_year :: int
  me_code :: string
  me_start :: int
  me_end :: int
  me_by :: string
  me_op :: u8
  me_rollover :: u8
  me_station :: string
  me_host :: string
  me_lat :: u32
  me_lon :: u32
  me_sdr :: string
  me_antenna :: string

definition no_mission :: mission_entry where
  "no_mission = \<lparr> me_year = 0, me_code = [], me_start = 0, me_end = 0, me_by = [], me_op = 0, me_rollover = 0,
     me_station = [], me_host = [], me_lat = 0, me_lon = 0, me_sdr = [], me_antenna = [] \<rparr>"

text \<open>The numbers of \<^verbatim>\<open>State\<close> are its positions.\<close>

datatype mission_state = IDLE | ACTIVE | CLOSING

section \<open>Numbers as texts\<close>

definition int_text :: "int \<Rightarrow> string" where
  "int_text n = (if n < 0 then ''-'' @ dec_str (nat (- n)) else dec_str (nat n))"

definition pad_zeros :: "nat \<Rightarrow> string \<Rightarrow> string" where
  "pad_zeros k s = replicate (k - length s) CHR ''0'' @ s"

definition four_dec :: "int \<Rightarrow> string" where
  "four_dec n = (if n < 0 then ''-'' @ pad_zeros 3 (dec_str (nat (- n))) else pad_zeros 4 (dec_str (nat n)))"

text \<open>\<^verbatim>\<open>%.6f\<close> of a \<^verbatim>\<open>float\<close>, exact with ties to even.\<close>

definition f32_text :: "u32 \<Rightarrow> string" where
  "f32_text w =
     (let n = unat w; sgn = (if n \<ge> 2 ^ 31 then ''-'' else []); e = n div 2 ^ 23 mod 256; m = n mod 2 ^ 23
      in if e = 255 then sgn @ (if m = 0 then ''inf'' else ''nan'')
         else let q = round_half_even (if e = 0 then m * 2 * 10 ^ 6 else (m + 2 ^ 23) * 2 ^ e * 10 ^ 6) (2 ^ 150)
              in sgn @ dec_str (q div 10 ^ 6) @ ''.'' @ pad_zeros 6 (dec_str (q mod 10 ^ 6)))"

text \<open>
  The \<^verbatim>\<open>float\<close> next to the \<^verbatim>\<open>double\<close> next to \<^verbatim>\<open>n / d\<close>; \<^verbatim>\<open>float_near p b eN n d\<close> gives the
  significand and the exponent in a format of \<^verbatim>\<open>p\<close> bits with values \<^verbatim>\<open>m * 2 ^ e / 2 ^ b\<close>.
\<close>

definition float_near :: "nat \<Rightarrow> nat \<Rightarrow> nat \<Rightarrow> nat \<Rightarrow> nat \<Rightarrow> (nat \<times> nat) option" where
  "float_near p b eN n d =
     (case filter (\<lambda>e. n * 2 ^ b < d * 2 ^ (e + p)) [1..<eN] of
        [] \<Rightarrow> None | e # _ \<Rightarrow> Some (round_half_even (n * 2 ^ b) (d * 2 ^ e), e))"

definition f32_near :: "nat \<Rightarrow> nat \<Rightarrow> u32" where
  "f32_near n d =
     (case float_near 53 1075 2047 n d of
        None \<Rightarrow> 0x7F800000
      | Some (m, e) \<Rightarrow> (case float_near 24 150 255 (m * 2 ^ e) (2 ^ 1075) of
            None \<Rightarrow> 0x7F800000 | Some (m, e) \<Rightarrow> word_of_nat ((e - 1) * 2 ^ 23 + m)))"

definition take_sign :: "string \<Rightarrow> bool \<times> string" where
  "take_sign p = (case p of [] \<Rightarrow> (False, []) | c # q \<Rightarrow> if c = CHR ''-'' then (True, q) else if c = CHR ''+'' then (False, q) else (False, p))"

text \<open>
  \<^verbatim>\<open>strtoll\<close> and \<^verbatim>\<open>strtod\<close> at a digit or a sign: the number and the rest of the text.  Hexadecimal
  numbers are not read.
\<close>

definition strtoll :: "string \<Rightarrow> int \<times> string" where
  "strtoll p =
     (let (neg, q) = take_sign p; ds = takeWhile is_digit q; v = (if neg then - digit_sum ds else digit_sum ds)
      in if ds = [] then (0, p) else (max (- (2 ^ 63)) (min (2 ^ 63 - 1) v), dropWhile is_digit q))"

definition take_exponent :: "string \<Rightarrow> int \<times> string" where
  "take_exponent q =
     (if q \<noteq> [] \<and> hd q \<in> {CHR ''e'', CHR ''E''}
      then let (neg, r) = take_sign (tl q); ds = takeWhile is_digit r
           in if ds = [] then (0, q) else (if neg then - digit_sum ds else digit_sum ds, dropWhile is_digit r)
      else (0, q))"

definition strtod :: "string \<Rightarrow> u32 \<times> string" where
  "strtod p =
     (let (neg, q) = take_sign p; s = (if neg then 0x80000000 else 0 :: u32);
          ip = takeWhile is_digit q; r = dropWhile is_digit q;
          (fp, r') = (if r \<noteq> [] \<and> hd r = CHR ''.'' then (takeWhile is_digit (tl r), dropWhile is_digit (tl r)) else ([], r))
      in if ip = [] \<and> fp = []
         then if prefix ''inf'' q then (s OR 0x7F800000, drop (if prefix ''infinity'' q then 8 else 3) q)
              else if prefix ''nan'' q then (s OR 0x7FC00000, drop 3 q)
              else (0, p)
         else let (x, r'') = take_exponent r'; k = x - int (length fp); n = nat (digit_sum (ip @ fp))
              in (s OR f32_near (n * 10 ^ nat k) (10 ^ nat (- k)), r''))"

section \<open>Writing\<close>

fun mj_escape :: "string \<Rightarrow> string" where
  "mj_escape [] = []"
| "mj_escape (c # s) =
     (if c = CHR 0x22 \<or> c = bsl then [bsl, c]
      else if c = nl then [bsl, CHR ''n'']
      else if c = CHR 0x0D then [bsl, CHR ''r'']
      else if (of_char c :: nat) < 0x20 then []
      else [c]) @ mj_escape s"

text \<open>The quotation mark, and a text in quotation marks.\<close>

abbreviation quot :: char where "quot \<equiv> CHR 0x22"

definition quoted :: "string \<Rightarrow> string" where "quoted s = [quot] @ s @ [quot]"

text \<open>The numbers go through buffers of 160 bytes.\<close>

definition mj_entry_write :: "u8 \<Rightarrow> mission_entry \<Rightarrow> string" where
  "mj_entry_write st e =
     take 159 (''{'' @ quoted ''state'' @ '':'' @ dec_str (unat st) @ '','' @ quoted ''op_index'' @ '':'' @ dec_str (unat (me_op e)) @
        '','' @ quoted ''rollover'' @ '':'' @ dec_str (unat (me_rollover e)) @ '','' @ quoted ''year'' @ '':'' @ int_text (me_year e) @
        '','' @ quoted ''code'' @ '':'' @ [quot]) @
     mj_escape (me_code e) @
     take 159 ([quot] @ '','' @ quoted ''start_utc'' @ '':'' @ int_text (me_start e) @ '','' @ quoted ''end_utc'' @ '':'' @
        int_text (me_end e) @ '','' @ quoted ''lat'' @ '':'' @ f32_text (me_lat e) @ '','' @ quoted ''lon'' @ '':'' @
        f32_text (me_lon e) @ '','') @
     quoted ''started_by'' @ '':'' @ [quot] @ mj_escape (me_by e) @
     [quot] @ '','' @ quoted ''station_name'' @ '':'' @ [quot] @ mj_escape (me_station e) @
     [quot] @ '','' @ quoted ''host_name'' @ '':'' @ [quot] @ mj_escape (me_host e) @
     [quot] @ '','' @ quoted ''sdr_kind'' @ '':'' @ [quot] @ mj_escape (me_sdr e) @
     [quot] @ '','' @ quoted ''antenna'' @ '':'' @ [quot] @ mj_escape (me_antenna e) @ [quot] @ ''}''"

abbreviation eol :: string where "eol \<equiv> [nl]"

fun mj_entries :: "string list \<Rightarrow> string" where
  "mj_entries [] = []"
| "mj_entries [x] = ''    '' @ x"
| "mj_entries (x # y # xs) = ''    '' @ x @ '','' @ eol @ mj_entries (y # xs)"

text \<open>\<^verbatim>\<open>cur\<close> is the mission in progress, if there is one.\<close>

definition missions_json :: "mission_entry option \<Rightarrow> mission_entry list \<Rightarrow> string" where
  "missions_json cur hist =
     ''{'' @ eol @ ''  '' @ quoted ''version'' @ '': 1,'' @ eol @ ''  '' @ quoted ''missions'' @ '': ['' @ eol @
     mj_entries ((case cur of None \<Rightarrow> [] | Some e \<Rightarrow> [mj_entry_write 1 (e\<lparr> me_end := 0, me_rollover := 0 \<rparr>)]) @
                 map (mj_entry_write 0) hist) @
     eol @ ''  ]'' @ eol @ ''}'' @ eol"

definition mission_info_text :: "mission_entry \<Rightarrow> string" where
  "mission_info_text e =
     (let t = to_tm (nat (me_start e))
      in ''Mission Code: '' @ four_dec (me_year e) @ ''/'' @ me_code e @ eol @
         ''Started By: '' @ me_by e @ eol @
         ''Start: '' @ four_dec (int (tm_year t)) @ ''-'' @ two_dec (1 + tm_mon t) @ ''-'' @ two_dec (tm_mday t) @ '' '' @
           two_dec (tm_hour t) @ '':'' @ two_dec (tm_min t) @ '':'' @ two_dec (tm_sec t) @ eol @
         ''Station: '' @ me_station e @ eol @ ''Host: '' @ me_host e @ eol @
         ''Lat: '' @ f32_text (me_lat e) @ eol @ ''Lon: '' @ f32_text (me_lon e) @ eol @
         ''SDR: '' @ me_sdr e @ eol @ ''Antenna: '' @ me_antenna e @ eol @ ''Op Index: '' @ dec_str (unat (me_op e)) @ eol)"

section \<open>Reading\<close>

text \<open>
  The place \<^verbatim>\<open>p\<close> in the file is the rest of its text.  \<^verbatim>\<open>mj_chars\<close> gives the characters up to the
  closing quotation mark.
\<close>

fun mj_chars :: "string \<Rightarrow> string \<times> string" where
  "mj_chars [] = ([], [])"
| "mj_chars (c # p) =
     (if c = quot then ([], c # p)
      else if c = bsl \<and> p \<noteq> [] then (case mj_chars (tl p) of (xs, r) \<Rightarrow> (hd p # xs, r))
      else (case mj_chars p of (xs, r) \<Rightarrow> (c # xs, r)))"

definition overwrite :: "string \<Rightarrow> string \<Rightarrow> string" where
  "overwrite xs buf = xs @ drop (length xs) buf"

definition mj_parse_str :: "string \<Rightarrow> nat \<Rightarrow> string \<Rightarrow> bool \<times> string \<times> string" where
  "mj_parse_str p cap dst =
     (case dropWhile (\<lambda>c. c \<noteq> quot) p of
        [] \<Rightarrow> (False, dst, [])
      | _ # q \<Rightarrow>
          (let (xs, r) = mj_chars q; ys = take (cap - 1) xs
           in if r = [] then (False, overwrite ys dst, []) else (True, overwrite (ys @ [CHR 0x00]) dst, tl r)))"

definition set_text :: "string \<Rightarrow> string \<Rightarrow> mission_entry \<Rightarrow> mission_entry" where
  "set_text key v e =
     (if key = ''code'' then e\<lparr> me_code := take 7 v \<rparr>
      else if key = ''started_by'' then e\<lparr> me_by := take 31 v \<rparr>
      else if key = ''station_name'' then e\<lparr> me_station := take 63 v \<rparr>
      else if key = ''host_name'' then e\<lparr> me_host := take 31 v \<rparr>
      else if key = ''sdr_kind'' then e\<lparr> me_sdr := take 23 v \<rparr>
      else if key = ''antenna'' then e\<lparr> me_antenna := take 63 v \<rparr> else e)"

definition set_number :: "string \<Rightarrow> int \<Rightarrow> mission_entry \<Rightarrow> mission_entry" where
  "set_number key v e =
     (if key = ''op_index'' then e\<lparr> me_op := word_of_int v \<rparr>
      else if key = ''rollover'' then e\<lparr> me_rollover := word_of_int v \<rparr>
      else if key = ''year'' then e\<lparr> me_year := sint (word_of_int v :: 32 word) \<rparr>
      else if key = ''start_utc'' then e\<lparr> me_start := v \<rparr>
      else if key = ''end_utc'' then e\<lparr> me_end := v \<rparr> else e)"

text \<open>The value of a member; \<^verbatim>\<open>tmp\<close> is the buffer for texts, which keeps its content.\<close>

definition mj_value :: "string \<Rightarrow> string \<Rightarrow> string \<Rightarrow> mission_entry \<Rightarrow> string \<times> string \<times> mission_entry" where
  "mj_value key p tmp e =
     (case p of
        [] \<Rightarrow> (p, tmp, e)
      | c # _ \<Rightarrow>
          if c = quot then (case mj_parse_str p 256 (overwrite [CHR 0x00] tmp) of (_, tmp, p) \<Rightarrow> (p, tmp, set_text key (c_text tmp) e))
          else if is_digit c \<or> c = CHR ''-'' \<or> c = CHR ''+''
          then if key = ''lat'' then (case strtod p of (v, p) \<Rightarrow> (p, tmp, e\<lparr> me_lat := v \<rparr>))
               else if key = ''lon'' then (case strtod p of (v, p) \<Rightarrow> (p, tmp, e\<lparr> me_lon := v \<rparr>))
               else (case strtoll p of (v, p) \<Rightarrow> (p, tmp, set_number key v e))
          else (p, tmp, e))"

definition mj_sep :: "char \<Rightarrow> bool" where
  "mj_sep c \<longleftrightarrow> c \<in> {CHR '','', CHR '' '', nl, CHR 0x0D, tab}"

lemma dropWhile_le: "length (dropWhile P xs) \<le> length xs"
  by (induction xs) simp_all

lemma mj_chars_le: "mj_chars p = (xs, r) \<Longrightarrow> length r \<le> length p"
proof (induction p arbitrary: xs r rule: mj_chars.induct)
  case (2 c p)
  show ?case
  proof (cases "c = quot")
    case False
    have "length (tl p) \<le> length p" by simp
    then show ?thesis using 2 False by (fastforce split: if_splits prod.splits)
  qed (use 2 in simp)
qed simp

lemma mj_parse_str_less: "mj_parse_str p cap dst = (True, dst', r) \<Longrightarrow> length r < length p"
proof -
  assume a: "mj_parse_str p cap dst = (True, dst', r)"
  obtain c q where q: "dropWhile (\<lambda>c. c \<noteq> quot) p = c # q"
    using a by (cases "dropWhile (\<lambda>c. c \<noteq> quot) p") (simp_all add: mj_parse_str_def)
  obtain xs s where s: "mj_chars q = (xs, s)" by fastforce
  then have "r = tl s" using a by (simp add: mj_parse_str_def q Let_def split: if_splits)
  moreover have "length (c # q) \<le> length p" unfolding q [symmetric] by (rule dropWhile_le)
  ultimately show ?thesis using mj_chars_le [OF s] by simp
qed

lemma mj_parse_str_le: "mj_parse_str p cap dst = (b, dst', r) \<Longrightarrow> length r \<le> length p"
proof (cases b)
  case False
  then show "mj_parse_str p cap dst = (b, dst', r) \<Longrightarrow> length r \<le> length p"
    by (auto simp: mj_parse_str_def Let_def split: list.splits prod.splits if_splits)
qed (auto dest: mj_parse_str_less)

lemma take_sign_le: "take_sign p = (b, q) \<Longrightarrow> length q \<le> length p"
  by (auto simp: take_sign_def split: list.splits if_splits)

lemma strtoll_le: "strtoll p = (v, r) \<Longrightarrow> length r \<le> length p"
  using take_sign_le [of p] dropWhile_le [of is_digit "snd (take_sign p)"]
  by (fastforce simp: strtoll_def Let_def split: prod.splits if_splits)

lemma take_exponent_le: "take_exponent q = (v, r) \<Longrightarrow> length r \<le> length q"
  using take_sign_le [of "tl q"] dropWhile_le [of is_digit "snd (take_sign (tl q))"]
  by (fastforce simp: take_exponent_def Let_def split: prod.splits if_splits)

lemma strtod_le: "strtod p = (v, r) \<Longrightarrow> length r \<le> length p"
proof -
  assume a: "strtod p = (v, r)"
  obtain neg q where q: "take_sign p = (neg, q)" by fastforce
  let ?r = "dropWhile is_digit q"
  define r' where "r' = (if ?r \<noteq> [] \<and> hd ?r = CHR ''.'' then dropWhile is_digit (tl ?r) else ?r)"
  have l: "length r' \<le> length q"
    using dropWhile_le [of is_digit q] dropWhile_le [of is_digit "tl ?r"] by (auto simp: r'_def)
  have "r = p \<or> length r \<le> length q \<or> r = snd (take_exponent r')"
    using a unfolding strtod_def q r'_def by (auto simp: Let_def split: if_splits prod.splits)
  then show ?thesis
    using take_sign_le [OF q] l take_exponent_le [of r' "fst (take_exponent r')" "snd (take_exponent r')"] by auto
qed

lemma mj_value_le: "mj_value key p tmp e = (r, tmp', e') \<Longrightarrow> length r \<le> length p"
  by (auto simp: mj_value_def split: list.splits if_splits prod.splits dest: mj_parse_str_le strtod_le strtoll_le)

text \<open>The members of an object, up to its closing brace or where the loop is left.\<close>

function mj_members :: "string \<Rightarrow> string \<Rightarrow> mission_entry \<Rightarrow> mission_entry \<times> string" where
  "mj_members p tmp e =
     (if p = [] \<or> hd p = CHR ''}'' then (e, p)
      else let p = dropWhile mj_sep p in
      if p \<noteq> [] \<and> hd p = CHR ''}'' then (e, p)
      else case mj_parse_str p 32 (replicate 32 CHR 0x00) of
        (False, _, p) \<Rightarrow> (e, p)
      | (True, key, p) \<Rightarrow>
          (case dropWhile (\<lambda>c. c \<noteq> CHR '':'') p of
             [] \<Rightarrow> (e, [])
           | _ # p \<Rightarrow>
               (case mj_value (c_text key) (dropWhile (\<lambda>c. c = CHR '' '' \<or> c = tab) p) tmp e of
                  (p, tmp, e) \<Rightarrow> mj_members (dropWhile (\<lambda>c. c = CHR '' '' \<or> c = tab \<or> c = nl) p) tmp e)))"
  by auto
termination
proof (relation "measure (\<lambda>(p, tmp, e). length p)")
  fix p tmp e p0 b y key p1 c p2 p3 z tmp' e'
  assume a: "\<not> (p = [] \<or> hd p = CHR ''}'')" "p0 = dropWhile mj_sep p" "\<not> (p0 \<noteq> [] \<and> hd p0 = CHR ''}'')"
    "(b, y) = mj_parse_str p0 32 (replicate 32 CHR 0x00)" "b = True" "(key, p1) = y" "dropWhile (\<lambda>c. c \<noteq> CHR '':'') p1 = c # p2"
    "(p3, z) = mj_value (c_text key) (dropWhile (\<lambda>c. c = CHR '' '' \<or> c = tab) p2) tmp e" "(tmp', e') = z"
  have "length p1 < length p0"
    using a(4-6) by (intro mj_parse_str_less [of p0 32 "replicate 32 CHR 0x00" key p1]) simp
  moreover have "length p0 \<le> length p" unfolding a(2) by (rule dropWhile_le)
  moreover have "length (c # p2) \<le> length p1" unfolding a(7) [symmetric] by (rule dropWhile_le)
  moreover have "length p3 \<le> length (dropWhile (\<lambda>c. c = CHR '' '' \<or> c = tab) p2)" 
    using a(8,9) by (intro mj_value_le [of "c_text key" _ tmp e p3 tmp' e']) simp
  moreover have "length (dropWhile (\<lambda>c. c = CHR '' '' \<or> c = tab) p2) \<le> length p2" by (rule dropWhile_le)
  moreover have "length (dropWhile (\<lambda>c. c = CHR '' '' \<or> c = tab \<or> c = nl) p3) \<le> length p3" by (rule dropWhile_le)
  ultimately show "((dropWhile (\<lambda>c. c = CHR '' '' \<or> c = tab \<or> c = nl) p3, tmp', e'), p, tmp, e) \<in>
      measure (\<lambda>(p, tmp, e). length p)" by simp
qed simp

declare mj_members.simps [simp del]

lemma mj_members_le: "mj_members p tmp e = (e', r) \<Longrightarrow> length r \<le> length p"
proof (induction "length p" arbitrary: p tmp e e' r rule: less_induct)
  case (less p)
  let ?p0 = "dropWhile mj_sep p"
  have l0: "length ?p0 \<le> length p" by (rule dropWhile_le)
  show ?case
  proof (cases "p = [] \<or> hd p = CHR ''}'' \<or> ?p0 \<noteq> [] \<and> hd ?p0 = CHR ''}''")
    case True
    then show ?thesis using less.prems l0 by (subst (asm) mj_members.simps) (auto simp: Let_def split: if_splits)
  next
    case False
    obtain b key p1 where s: "mj_parse_str ?p0 32 (replicate 32 CHR 0x00) = (b, key, p1)" by (meson prod_cases3)
    note l1 = mj_parse_str_le [OF s]
    show ?thesis
    proof (cases "b \<and> dropWhile (\<lambda>c. c \<noteq> CHR '':'') p1 \<noteq> []")
      case no: False
      then have "(e', r) = (if b then (e, []) else (e, p1))"
        using less.prems False s by (subst (asm) mj_members.simps) (cases b; simp add: Let_def del: dropWhile_eq_Nil_conv split: if_splits)
      then show ?thesis using l0 l1 by (auto split: if_splits)
    next
      case yes: True
      then obtain c p2 where c: "dropWhile (\<lambda>c. c \<noteq> CHR '':'') p1 = c # p2" by (meson neq_Nil_conv)
      obtain p3 tmp3 e3 where v: "mj_value (c_text key) (dropWhile (\<lambda>c. c = CHR '' '' \<or> c = tab) p2) tmp e = (p3, tmp3, e3)"
        by (meson prod_cases3)
      let ?q = "dropWhile (\<lambda>c. c = CHR '' '' \<or> c = tab \<or> c = nl) p3"
      have m: "mj_members ?q tmp3 e3 = (e', r)"
        using less.prems False yes s c v by (subst (asm) mj_members.simps) (auto simp: Let_def split: if_splits)
      have "length (c # p2) \<le> length p1" unfolding c [symmetric] by (rule dropWhile_le)
      then have lq: "length ?q < length p"
        using l0 l1 mj_value_le [OF v] dropWhile_le [of "\<lambda>c. c = CHR '' '' \<or> c = tab \<or> c = nl" p3]
          dropWhile_le [of "\<lambda>c. c = CHR '' '' \<or> c = tab" p2] by simp
      show ?thesis using less.hyps [OF lq m] lq by simp
    qed
  qed
qed

text \<open>
  The objects of the list.  \<^verbatim>\<open>junk\<close> is what the buffer for texts holds at first; an entry without
  an end is closed now.
\<close>

definition mj_close :: "int \<Rightarrow> mission_entry \<Rightarrow> mission_entry" where
  "mj_close now e = (if me_end e = 0 \<and> me_start e > 0 then e\<lparr> me_end := now \<rparr> else e)"

function mj_objects :: "string \<Rightarrow> int \<Rightarrow> string \<Rightarrow> mission_entry list" where
  "mj_objects junk now p =
     (case dropWhile mj_sep p of
        [] \<Rightarrow> []
      | c # q \<Rightarrow>
          if c \<noteq> CHR ''{'' then []
          else let (e, r) = mj_members q junk no_mission; r = (if r \<noteq> [] \<and> hd r = CHR ''}'' then tl r else r)
               in mj_close now e # mj_objects junk now r)"
  by auto
termination
proof (relation "measure (\<lambda>(junk, now, p). length p)")
  fix junk p q r r' :: string and now :: int and c x e
  assume a: "dropWhile mj_sep p = c # q" "x = mj_members q junk no_mission" "(e, r) = x" "r' = (if r \<noteq> [] \<and> hd r = CHR ''}'' then tl r else r)"
  have "length r' \<le> length r" using a(4) by simp
  moreover have "length r \<le> length q" using a(2,3) mj_members_le by metis
  moreover have "length (c # q) \<le> length p" unfolding a(1) [symmetric] by (rule dropWhile_le)
  ultimately show "((junk, now, r'), junk, now, p) \<in> measure (\<lambda>(junk, now, p). length p)" by simp
qed simp

declare mj_objects.simps [simp del]

text \<open>\<^verbatim>\<open>strstr\<close>: the place where a text begins.\<close>

fun find_from :: "string \<Rightarrow> string \<Rightarrow> string option" where
  "find_from k [] = (if k = [] then Some [] else None)"
| "find_from k (c # s) = (if prefix k (c # s) then Some (c # s) else find_from k s)"

text \<open>The history that is read from the file with this content.\<close>

definition mj_load :: "string \<Rightarrow> int \<Rightarrow> string \<Rightarrow> mission_entry list" where
  "mj_load junk now content =
     (case find_from (quoted ''missions'') (c_text content) of
        None \<Rightarrow> []
      | Some p \<Rightarrow> (case dropWhile (\<lambda>c. c \<noteq> CHR ''['') p of [] \<Rightarrow> [] | _ # p \<Rightarrow> mj_objects junk now p))"

end
