(* ===== verification/Mission.thy ===== *)
theory Mission
  imports MissionJson
begin

text \<open>
  The life of a mission, \<^verbatim>\<open>src/mission.cpp\<close> as a HOST runs it: start, end, the change of day, deletion,
  the files that go with it, and the snapshot that is sent to the relay and the JOINs
  (\<^verbatim>\<open>src/ui.cpp\<close> applies it).  Each function holds \<^verbatim>\<open>mission_mtx\<close>; the parts between which
  it is released run in sequence here.  Directories can be made and files written.
\<close>

section \<open>State\<close>

text \<open>What is asked of other parts of the program.\<close>

datatype mission_call = RequestRotate | FinalizeStaleLive | StopRec | StopIqRec nat | StopAudioRec nat | BroadcastSync bytes

text \<open>\<^verbatim>\<open>vm_cur\<close> holds the members \<^verbatim>\<open>mission_*\<close> of the viewer; there is none for \<^verbatim>\<open>rollover\<close>.\<close>

record viewer =
  vm_state :: mission_state
  vm_cur :: mission_entry
  vm_history :: "mission_entry list"
  vm_store :: store
  vm_net :: bool
  vm_calls :: "mission_call list"

text \<open>What a start captures: the station, the hardware, and who is logged in.\<close>

datatype hw_type = NoHw | BLADERF | PLUTO | RTLSDR

record mission_ctx =
  cx_station :: string
  cx_lat :: u32
  cx_lon :: u32
  cx_antenna :: string
  cx_blade :: bool
  cx_pluto :: bool
  cx_rtl :: bool
  cx_hw :: hw_type
  cx_login :: string
  cx_user :: "string option"
  cx_logname :: "string option"
  cx_hostname :: "string option"

definition call :: "mission_call list \<Rightarrow> viewer \<Rightarrow> viewer" where
  "call cs v = v\<lparr> vm_calls := vm_calls v @ cs \<rparr>"

section \<open>Paths\<close>

definition mission_year_dir :: "string \<Rightarrow> string \<Rightarrow> int \<Rightarrow> string" where
  "mission_year_dir mroot st y = path_in (path_in mroot st) (four_dec y)"

definition local_mission_dir :: "string \<Rightarrow> string \<Rightarrow> int \<Rightarrow> string \<Rightarrow> string" where
  "local_mission_dir mroot st y code = path_in (mission_year_dir mroot st y) code"

definition mission_info_path :: "string \<Rightarrow> string \<Rightarrow> int \<Rightarrow> string \<Rightarrow> string" where
  "mission_info_path mroot st y code = path_in (local_mission_dir mroot st y code) ''mission.info''"

definition missions_json_path :: "string \<Rightarrow> string" where "missions_json_path mroot = path_in mroot ''missions.json''"
definition last_rolled_path :: "string \<Rightarrow> string" where "last_rolled_path mroot = path_in mroot ''.last_rolled''"

definition or_unknown :: "string \<Rightarrow> string" where "or_unknown st = (if st = [] then ''_unknown_'' else st)"

definition mkdirs :: "string list \<Rightarrow> viewer \<Rightarrow> viewer" where
  "mkdirs ds v = v\<lparr> vm_store := (vm_store v)\<lparr> dirs := dirs (vm_store v) \<union> set ds \<rparr> \<rparr>"

definition put_text :: "string \<Rightarrow> string \<Rightarrow> viewer \<Rightarrow> viewer" where
  "put_text p s v = v\<lparr> vm_store := (vm_store v)\<lparr> disk := (disk (vm_store v))(p \<mapsto> s) \<rparr> \<rparr>"

section \<open>Persistence\<close>

definition running :: "viewer \<Rightarrow> bool" where
  "running v \<longleftrightarrow> vm_state v = ACTIVE \<and> me_code (vm_cur v) \<noteq> []"

definition mission_save_meta_to_disk :: "string \<Rightarrow> viewer \<Rightarrow> viewer" where
  "mission_save_meta_to_disk mroot v =
     (let cur = vm_cur v;
          v = put_text (missions_json_path mroot) (missions_json (if running v then Some cur else None) (vm_history v)) (mkdirs [mroot] v)
      in if \<not> running v then v
         else let st = or_unknown (me_station cur); d = local_mission_dir mroot st (me_year cur) (me_code cur)
              in if d \<in> dirs (vm_store v) then put_text (mission_info_path mroot st (me_year cur) (me_code cur)) (mission_info_text cur) v
                 else v)"

definition mission_load_history :: "string \<Rightarrow> string \<Rightarrow> int \<Rightarrow> viewer \<Rightarrow> viewer" where
  "mission_load_history mroot junk now v =
     (case disk (vm_store v) (missions_json_path mroot) of
        None \<Rightarrow> v | Some s \<Rightarrow> v\<lparr> vm_history := mj_load junk now s \<rparr>)"

section \<open>The snapshot\<close>

definition fill_sync_entry :: "mission_entry \<Rightarrow> u8 \<Rightarrow> bytes" where
  "fill_sync_entry e st =
     [1, st, me_op e, me_rollover e] @ le_bytes 2 (nat (me_year e mod 2 ^ 16)) @ [0, 0] @ str_buf 8 (bytes_of (me_code e)) @
     le_bytes 8 (nat (me_start e mod 2 ^ 64)) @ le_bytes 8 (nat (me_end e mod 2 ^ 64)) @ str_buf 32 (bytes_of (me_by e)) @
     str_buf 64 (bytes_of (me_station e)) @ str_buf 32 (bytes_of (me_host e)) @ le_bytes 4 (unat (me_lat e)) @
     le_bytes 4 (unat (me_lon e)) @ str_buf 24 (bytes_of (me_sdr e)) @ str_buf 64 (bytes_of (me_antenna e))"

definition mission_sync_body :: "viewer \<Rightarrow> bytes" where
  "mission_sync_body v =
     (let es = take 32 (rev (vm_history v)); none = replicate 256 0
      in [of_bool (running v), 0, 0, 0] @ le_bytes 2 (length es) @ [0, 0] @
         (if running v then fill_sync_entry ((vm_cur v)\<lparr> me_rollover := 0, me_end := 0 \<rparr>) 1 else none) @
         concat (map (\<lambda>e. fill_sync_entry e 0) es) @ concat (replicate (32 - length es) none))"

definition mission_broadcast_sync :: "viewer \<Rightarrow> viewer" where
  "mission_broadcast_sync v = (if vm_net v then call [BroadcastSync (mission_sync_body v)] v else v)"

text \<open>How a JOIN takes it over.  A HOST sends no state above 2.\<close>

definition state_of_byte :: "u8 \<Rightarrow> mission_state" where
  "state_of_byte b = (if b = 0 then IDLE else if b = 1 then ACTIVE else CLOSING)"

definition int64_at :: "bytes \<Rightarrow> int" where "int64_at b = to_int64 (le_nat (take 8 b))"

abbreviation entry_at :: "string \<Rightarrow> bytes \<Rightarrow> bytes" where "entry_at \<equiv> at_member MissionSyncEntry"

definition sync_entry_of :: "bytes \<Rightarrow> mission_entry" where
  "sync_entry_of b =
     \<lparr> me_year = int (le_nat (take 2 (entry_at ''year'' b))), me_code = text_of 8 (entry_at ''code'' b),
       me_start = int64_at (entry_at ''start_utc'' b), me_end = int64_at (entry_at ''end_utc'' b),
       me_by = text_of 32 (entry_at ''started_by'' b), me_op = entry_at ''op_index'' b ! 0,
       me_rollover = entry_at ''rollover'' b ! 0, me_station = text_of 64 (entry_at ''station_name'' b),
       me_host = text_of 32 (entry_at ''host_name'' b), me_lat = word_of_nat (le_nat (take 4 (entry_at ''lat'' b))),
       me_lon = word_of_nat (le_nat (take 4 (entry_at ''lon'' b))), me_sdr = text_of 24 (entry_at ''sdr_kind'' b),
       me_antenna = text_of 64 (entry_at ''antenna'' b) \<rparr>"

definition on_mission_sync :: "bytes \<Rightarrow> viewer \<Rightarrow> viewer" where
  "on_mission_sync body v =
     (let a = take 256 (at_member PktMissionSync ''active'' body);
          n = min (le_nat (take 2 (at_member PktMissionSync ''history_count'' body))) 32;
          es = map (\<lambda>i. take 256 (drop (256 * i) (at_member PktMissionSync ''entries'' body))) [0..<n];
          v = (if at_member PktMissionSync ''active_valid'' body ! 0 \<noteq> 0 \<and> entry_at ''valid'' a ! 0 \<noteq> 0
               then v\<lparr> vm_state := state_of_byte (entry_at ''state'' a ! 0),
                       vm_cur := (sync_entry_of a)\<lparr> me_end := 0, me_rollover := 0 \<rparr> \<rparr>
               else v\<lparr> vm_state := IDLE, vm_cur := no_mission \<rparr>)
      in v\<lparr> vm_history := map sync_entry_of (filter (\<lambda>b. entry_at ''valid'' b ! 0 \<noteq> 0) es) \<rparr>)"

section \<open>Removal of old files\<close>

text \<open>Both functions remove a tree; the first also removes a plain file.\<close>

definition cleanup_rm_rf :: "string \<Rightarrow> store \<Rightarrow> store" where
  "cleanup_rm_rf d st =
     (if d \<in> dirs st then st\<lparr> disk := (\<lambda>p. if below d p then None else disk st p), dirs := dirs st - {q. q = d \<or> below d q} \<rparr>
      else st\<lparr> disk := (disk st)(d := None) \<rparr>)"

definition rm_rf_dir :: "string \<Rightarrow> store \<Rightarrow> store" where
  "rm_rf_dir d st = (if d \<in> dirs st then cleanup_rm_rf d st else st)"

definition target_month :: "char \<Rightarrow> int \<Rightarrow> (char \<times> int) option" where
  "target_month c y =
     (let n = of_char c :: nat
      in if n < of_char CHR ''A'' \<or> n > of_char CHR ''L'' then None
         else let m = int n - of_char CHR ''A'' - 2; (m, y) = (if m < 0 then (m + 12, y - 1) else (m, y))
              in Some (mission_letter (nat m), y))"

text \<open>\<^verbatim>\<open>ls\<close> gives the names in a directory.\<close>

definition cleanup_dirs :: "string \<Rightarrow> (string \<Rightarrow> string list) \<Rightarrow> char \<Rightarrow> int \<Rightarrow> string list" where
  "cleanup_dirs mroot ls l y =
     concat (map (\<lambda>st. let d = mission_year_dir mroot st y
                        in map (path_in d) (filter (\<lambda>n. n \<noteq> [] \<and> \<not> prefix ''.'' n \<and> hd n = l) (ls d)))
             (filter (\<lambda>st. \<not> prefix ''.'' st) (ls mroot)))"

definition cleanup_two_months_ago_missions :: "string \<Rightarrow> (string \<Rightarrow> string list) \<Rightarrow> string \<Rightarrow> int \<Rightarrow> store \<Rightarrow> store" where
  "cleanup_two_months_ago_missions mroot ls code y st =
     (case code of [] \<Rightarrow> st | c # _ \<Rightarrow>
      (case target_month c y of None \<Rightarrow> st | Some (l, y) \<Rightarrow> fold cleanup_rm_rf (cleanup_dirs mroot ls l y) st))"

section \<open>Start and end\<close>

definition mission_sdr_kind_str :: "mission_ctx \<Rightarrow> string" where
  "mission_sdr_kind_str x =
     (if cx_blade x then ''BladeRF'' else if cx_pluto x then ''Pluto'' else if cx_rtl x then ''RTL-SDR''
      else if cx_hw x = BLADERF then ''BladeRF'' else if cx_hw x = PLUTO then ''Pluto''
      else if cx_hw x = RTLSDR then ''RTL-SDR'' else ''Unknown'')"

definition fill_host_name :: "mission_ctx \<Rightarrow> string" where
  "fill_host_name x =
     take 31 (if cx_login x \<noteq> [] then cx_login x else case cx_hostname x of None \<Rightarrow> [] | Some h \<Rightarrow> take 63 h)"

definition fill_started_by :: "mission_ctx \<Rightarrow> string \<Rightarrow> string" where
  "fill_started_by x requested =
     take 31 (hd (filter (\<lambda>s. s \<noteq> [])
       ([requested, cx_login x] @ map (\<lambda>z. case z of None \<Rightarrow> [] | Some s \<Rightarrow> s)
          [cx_user x, cx_logname x, map_option (take 63) (cx_hostname x)] @ [''unknown''])))"

definition mission_start :: "string \<Rightarrow> (string \<Rightarrow> string list) \<Rightarrow> mission_ctx \<Rightarrow> nat \<Rightarrow> string \<Rightarrow> u8 \<Rightarrow> viewer \<Rightarrow> viewer \<times> bool" where
  "mission_start mroot ls x now by_whom op v =
     (if vm_state v \<noteq> IDLE then (v, False)
      else let t = to_tm now; y = int (tm_year t);
               cur = \<lparr> me_year = y, me_code = take 7 (make_code (tm_mon t) (tm_mday t)), me_start = int now, me_end = 0,
                       me_by = fill_started_by x by_whom, me_op = op, me_rollover = 0, me_station = take 63 (cx_station x),
                       me_host = fill_host_name x, me_lat = cx_lat x, me_lon = cx_lon x,
                       me_sdr = take 23 (mission_sdr_kind_str x), me_antenna = take 63 (cx_antenna x) \<rparr>;
               st = or_unknown (me_station cur); d = local_mission_dir mroot st y (me_code cur);
               v = mkdirs [mroot, path_in mroot st, mission_year_dir mroot st y, d, path_in d ''iq'', path_in d ''audio'', path_in d ''hist'']
                     (v\<lparr> vm_state := ACTIVE, vm_cur := cur \<rparr>);
               v = mission_broadcast_sync (mission_save_meta_to_disk mroot (call [RequestRotate, FinalizeStaleLive] v))
           in (v\<lparr> vm_store := cleanup_two_months_ago_missions mroot ls (me_code cur) y (vm_store v) \<rparr>, True))"

text \<open>\<^verbatim>\<open>recs\<close>: whether the receiver records, and for each channel whether IQ and audio are recorded.\<close>

definition stop_calls :: "bool \<times> (bool \<times> bool) list \<Rightarrow> mission_call list" where
  "stop_calls recs =
     (if fst recs then [StopRec] else []) @
     concat (map (\<lambda>(i, iq, au). (if iq then [StopIqRec i] else []) @ (if au then [StopAudioRec i] else []))
       (zip [0..<length (snd recs)] (snd recs)))"

definition mission_end :: "string \<Rightarrow> bool \<times> (bool \<times> bool) list \<Rightarrow> nat \<Rightarrow> viewer \<Rightarrow> viewer \<times> bool" where
  "mission_end mroot recs now v =
     (if vm_state v \<noteq> ACTIVE then (v, False)
      else let v = v\<lparr> vm_state := CLOSING, vm_cur := (vm_cur v)\<lparr> me_end := int now \<rparr> \<rparr>;
               v = call (RequestRotate # stop_calls recs) v;
               v = v\<lparr> vm_history := vm_history v @ [(vm_cur v)\<lparr> me_rollover := 0 \<rparr>], vm_state := IDLE, vm_cur := no_mission \<rparr>
           in (mission_broadcast_sync (mission_save_meta_to_disk mroot v), True))"

definition mission_rollover_utc0 :: "string \<Rightarrow> (string \<Rightarrow> string list) \<Rightarrow> mission_ctx \<Rightarrow> bool \<times> (bool \<times> bool) list \<Rightarrow> nat \<Rightarrow> nat \<Rightarrow>
    viewer \<Rightarrow> viewer" where
  "mission_rollover_utc0 mroot ls x recs now1 now2 v =
     (if vm_state v = ACTIVE
      then fst (mission_start mroot ls x now2 (me_by (vm_cur v)) (me_op (vm_cur v)) (fst (mission_end mroot recs now1 v)))
      else v)"

section \<open>Deletion\<close>

definition erase :: "int \<Rightarrow> string \<Rightarrow> mission_entry list \<Rightarrow> mission_entry list" where
  "erase y code h = filter (\<lambda>e. \<not> (me_year e = y \<and> me_code e = code)) h"

definition history_station :: "int \<Rightarrow> string \<Rightarrow> mission_entry list \<Rightarrow> string" where
  "history_station y code h =
     (case filter (\<lambda>e. me_year e = y \<and> me_code e = code) h of [] \<Rightarrow> [] | e # _ \<Rightarrow> me_station e)"

definition mission_delete :: "string \<Rightarrow> bool \<times> (bool \<times> bool) list \<Rightarrow> nat \<Rightarrow> int \<Rightarrow> string \<Rightarrow> viewer \<Rightarrow> viewer \<times> bool" where
  "mission_delete mroot recs now y code v =
     (if code = [] \<or> y \<le> 0 \<or> CHR ''/'' \<in> set code then (v, False)
      else let v = (if vm_state v = ACTIVE \<and> me_year (vm_cur v) = y \<and> me_code (vm_cur v) = code then v
                    else v\<lparr> vm_history := erase y code (vm_history v) \<rparr>);
               v = (if vm_state v = ACTIVE \<and> me_year (vm_cur v) = y \<and> take 8 (me_code (vm_cur v)) = take 8 code
                    then (let v = fst (mission_end mroot recs now v) in v\<lparr> vm_history := erase y code (vm_history v) \<rparr>)
                    else v);
               d = local_mission_dir mroot (or_unknown (history_station y code (vm_history v))) y code;
               v = v\<lparr> vm_store := rm_rf_dir d (vm_store v) \<rparr>
           in (mission_broadcast_sync (mission_save_meta_to_disk mroot v), True))"

section \<open>The old layout\<close>

text \<open>Directories \<^verbatim>\<open>year/code\<close> without a station are moved; \<^verbatim>\<open>ok\<close> is the outcome of \<^verbatim>\<open>rename\<close>.\<close>

definition rename_tree :: "string \<Rightarrow> string \<Rightarrow> store \<Rightarrow> store" where
  "rename_tree src dst st =
     (let back = (\<lambda>p. src @ drop (length dst) p)
      in st\<lparr> disk := (\<lambda>p. if p = dst \<or> below dst p then disk st (back p) else if p = src \<or> below src p then None else disk st p),
             dirs := {p. if p = dst \<or> below dst p then back p \<in> dirs st else p \<in> dirs st \<and> \<not> (p = src \<or> below src p)} \<rparr>)"

definition legacy_year :: "string \<Rightarrow> bool" where
  "legacy_year n \<longleftrightarrow> length n = 4 \<and> list_all is_digit n"

definition migrate_station :: "int \<Rightarrow> string \<Rightarrow> viewer \<Rightarrow> string" where
  "migrate_station y code v =
     (let hs = filter (\<lambda>e. me_year e = y \<and> take 8 (me_code e) = take 8 code) (vm_history v);
          st = (case hs of [] \<Rightarrow> [] | e # _ \<Rightarrow> me_station e);
          st = (if st = [] \<and> vm_state v = ACTIVE \<and> me_year (vm_cur v) = y \<and> take 8 (me_code (vm_cur v)) = take 8 code
                then me_station (vm_cur v) else st)
      in or_unknown st)"

definition migrate_one :: "string \<Rightarrow> (string \<Rightarrow> string \<Rightarrow> bool) \<Rightarrow> string \<Rightarrow> string \<Rightarrow> viewer \<Rightarrow> viewer" where
  "migrate_one mroot ok yn code v =
     (let y = atoi yn; st = migrate_station y code v; src = path_in (path_in mroot yn) code; dst = local_mission_dir mroot st y code;
          v = mkdirs [mroot, path_in mroot st, mission_year_dir mroot st y] v
      in if ok src dst then v\<lparr> vm_store := rename_tree src dst (vm_store v) \<rparr> else v)"

definition rmdir :: "string \<Rightarrow> store \<Rightarrow> store" where
  "rmdir d st = (if (\<exists>p. below d p \<and> disk st p \<noteq> None) \<or> (\<exists>p\<in>dirs st. below d p) then st else st\<lparr> dirs := dirs st - {d} \<rparr>)"

definition mission_migrate_old_layout :: "string \<Rightarrow> (string \<Rightarrow> string list) \<Rightarrow> (string \<Rightarrow> string \<Rightarrow> bool) \<Rightarrow> viewer \<Rightarrow> viewer" where
  "mission_migrate_old_layout mroot ls ok v =
     fold (\<lambda>yn v. let d = path_in mroot yn in
             if d \<notin> dirs (vm_store v) then v
             else let v = fold (migrate_one mroot ok yn) (filter (\<lambda>n. \<not> prefix ''.'' n) (ls d)) v
                  in v\<lparr> vm_store := rmdir d (vm_store v) \<rparr>)
       (filter (\<lambda>n. \<not> prefix ''.'' n \<and> legacy_year n) (ls mroot)) v"

section \<open>Where recordings go\<close>

text \<open>The directory of the running mission; \<^verbatim>\<open>seen\<close> remembers when it was last made.\<close>

definition dirs_recheck_due :: "string \<Rightarrow> int \<Rightarrow> (string \<times> int) list \<Rightarrow> bool \<times> (string \<times> int) list" where
  "dirs_recheck_due d now seen =
     (let seen = (if length seen > 32 then [] else seen);
          t = (case map_of seen d of None \<Rightarrow> 0 | Some t \<Rightarrow> t);
          others = filter (\<lambda>(k, _). k \<noteq> d) seen
      in if now - t < 5 then (False, (d, t) # others) else (True, (d, now) # others))"

definition active_dir :: "string \<Rightarrow> string \<Rightarrow> int \<Rightarrow> (string \<times> int) list \<Rightarrow> viewer \<Rightarrow> string \<times> (string \<times> int) list \<times> viewer" where
  "active_dir mroot sub now seen v =
     (if \<not> running v then ([], seen, v)
      else let st = or_unknown (me_station (vm_cur v)); y = me_year (vm_cur v); m = local_mission_dir mroot st y (me_code (vm_cur v));
               d = path_in m sub; (due, seen) = dirs_recheck_due d now seen
           in (d, seen, if due then mkdirs [mroot, path_in mroot st, mission_year_dir mroot st y, m, d] v else v))"

definition mission_active_station_name :: "viewer \<Rightarrow> string" where
  "mission_active_station_name v = (if vm_state v \<noteq> ACTIVE then [] else me_station (vm_cur v))"

section \<open>The change of the day\<close>

record utc0 =
  last_day :: int
  last_hour :: nat

definition scan_int :: "string \<Rightarrow> int option" where
  "scan_int s =
     (let p = dropWhile (\<lambda>c. c = CHR '' '' \<or> 9 \<le> (of_char c :: nat) \<and> (of_char c :: nat) \<le> 13) s; (neg, q) = take_sign p;
          ds = takeWhile is_digit q
      in if ds = [] then None else Some (if neg then - digit_sum ds else digit_sum ds))"

definition load_last_rolled_day_id :: "string \<Rightarrow> store \<Rightarrow> int" where
  "load_last_rolled_day_id mroot st =
     (case disk st (last_rolled_path mroot) of
        None \<Rightarrow> -1 | Some s \<Rightarrow> (case scan_int s of None \<Rightarrow> -1 | Some n \<Rightarrow> n))"

definition save_last_rolled_day_id :: "string \<Rightarrow> int \<Rightarrow> viewer \<Rightarrow> viewer" where
  "save_last_rolled_day_id mroot d v = put_text (last_rolled_path mroot) (int_text d @ eol) (mkdirs [mroot] v)"

definition utc0_begin :: "string \<Rightarrow> nat \<Rightarrow> viewer \<Rightarrow> utc0 \<times> viewer" where
  "utc0_begin mroot now v =
     (let d = load_last_rolled_day_id mroot (vm_store v); b = int (kst_day_id now)
      in if d < 0 then (\<lparr> last_day = b, last_hour = kst_hour_id now \<rparr>, save_last_rolled_day_id mroot b v)
         else (\<lparr> last_day = d, last_hour = kst_hour_id now \<rparr>, v))"

text \<open>One turn of the loop; the clock is read once more by the end and by the start of a mission.\<close>

definition utc0_tick :: "string \<Rightarrow> (string \<Rightarrow> string list) \<Rightarrow> mission_ctx \<Rightarrow> bool \<times> (bool \<times> bool) list \<Rightarrow> nat \<times> nat \<times> nat \<Rightarrow>
    utc0 \<times> viewer \<Rightarrow> utc0 \<times> viewer" where
  "utc0_tick mroot ls x recs clock wv =
     (case (clock, wv) of ((now, now1, now2), (w, v)) \<Rightarrow>
      let d = int (kst_day_id now); h = kst_hour_id now
      in if d \<noteq> last_day w
         then (\<lparr> last_day = d, last_hour = h \<rparr>,
               call [RequestRotate] (save_last_rolled_day_id mroot d (mission_rollover_utc0 mroot ls x recs now1 now2 v)))
         else if h \<noteq> last_hour w then (w\<lparr> last_hour := h \<rparr>, call [RequestRotate] v)
         else (w, v))"

section \<open>Requests\<close>

text \<open>What JOINs ask of the HOST, and the start of the program.\<close>

datatype mission_event =
    StartRequest u8 string
  | EndRequest
  | ListRequest
  | DeleteRequest bytes

definition mission_request :: "string \<Rightarrow> (string \<Rightarrow> string list) \<Rightarrow> mission_ctx \<Rightarrow> bool \<times> (bool \<times> bool) list \<Rightarrow> nat \<Rightarrow> mission_event \<Rightarrow> viewer \<Rightarrow> viewer" where
  "mission_request mroot ls x recs now e v =
     (case e of
        StartRequest op who \<Rightarrow>
          (case mission_start mroot ls x now who op v of (v, ok) \<Rightarrow> if ok then v else mission_broadcast_sync v)
      | EndRequest \<Rightarrow> fst (mission_end mroot recs now v)
      | ListRequest \<Rightarrow> mission_broadcast_sync v
      | DeleteRequest b \<Rightarrow>
          fst (mission_delete mroot recs now (int (le_nat (take 2 (at_member PktMissionDelete ''year'' b))))
                 (text_of 8 (at_member PktMissionDelete ''code'' b)) v))"

definition mission_boot :: "string \<Rightarrow> (string \<Rightarrow> string list) \<Rightarrow> (string \<Rightarrow> string \<Rightarrow> bool) \<Rightarrow> string \<Rightarrow> nat \<Rightarrow> viewer \<Rightarrow> utc0 \<times> viewer" where
  "mission_boot mroot ls ok junk now v =
     utc0_begin mroot now (mission_migrate_old_layout mroot ls ok
       (mission_save_meta_to_disk mroot (mission_load_history mroot junk (int now) v)))"

end
