(* ===== verification/MissionFacts.thy ===== *)
theory MissionFacts
  imports Mission
begin

text \<open>
  What holds of missions on every run: the states, the file \<^verbatim>\<open>missions.json\<close>, the daily change,
  the removal of old files, and what a deletion leaves behind.
\<close>

section \<open>Frames\<close>

lemma call_simps [simp]:
  "vm_state (call cs v) = vm_state v" "vm_cur (call cs v) = vm_cur v" "vm_history (call cs v) = vm_history v"
  "vm_store (call cs v) = vm_store v" "vm_net (call cs v) = vm_net v" "running (call cs v) = running v"
  by (simp_all add: call_def running_def)

lemma mkdirs_simps [simp]:
  "vm_state (mkdirs ds v) = vm_state v" "vm_cur (mkdirs ds v) = vm_cur v" "vm_history (mkdirs ds v) = vm_history v"
  "disk (vm_store (mkdirs ds v)) = disk (vm_store v)" "running (mkdirs ds v) = running v"
  by (simp_all add: mkdirs_def running_def)

lemma put_text_simps [simp]:
  "vm_state (put_text p s v) = vm_state v" "vm_cur (put_text p s v) = vm_cur v" "vm_history (put_text p s v) = vm_history v"
  "disk (vm_store (put_text p s v)) = (disk (vm_store v))(p \<mapsto> s)" "running (put_text p s v) = running v"
  by (simp_all add: put_text_def running_def)

lemma broadcast_simps [simp]:
  "vm_state (mission_broadcast_sync v) = vm_state v" "vm_cur (mission_broadcast_sync v) = vm_cur v"
  "vm_history (mission_broadcast_sync v) = vm_history v" "vm_store (mission_broadcast_sync v) = vm_store v"
  "running (mission_broadcast_sync v) = running v"
  by (simp_all add: mission_broadcast_sync_def)

lemma save_simps [simp]:
  "vm_state (mission_save_meta_to_disk mroot v) = vm_state v" "vm_cur (mission_save_meta_to_disk mroot v) = vm_cur v"
  "vm_history (mission_save_meta_to_disk mroot v) = vm_history v" "running (mission_save_meta_to_disk mroot v) = running v"
  by (simp_all add: mission_save_meta_to_disk_def Let_def)

abbreviation info_of :: "string \<Rightarrow> viewer \<Rightarrow> string" where
  "info_of mroot v \<equiv> mission_info_path mroot (or_unknown (me_station (vm_cur v))) (me_year (vm_cur v)) (me_code (vm_cur v))"

text \<open>The files directly in the directory of missions are none of a mission.\<close>

lemma top_file:
  assumes "CHR ''/'' \<notin> set k"
  shows "path_in mroot k \<noteq> path_in (path_in mroot a) b" "\<not> below (path_in (path_in mroot a) b) (path_in mroot k)"
proof -
  have "CHR ''/'' \<in> set (a @ CHR ''/'' # x)" for x by simp
  then have n: "k \<noteq> a @ CHR ''/'' # x" for x using assms by metis
  show "path_in mroot k \<noteq> path_in (path_in mroot a) b" "\<not> below (path_in (path_in mroot a) b) (path_in mroot k)"
    using n by (auto simp: below_def path_in_def prefix_def)
qed

lemma path_assoc: "path_in a (b @ ''/'' @ c) = path_in (path_in a b) c"
  by (simp add: path_in_def)

lemma top_mission:
  assumes "CHR ''/'' \<notin> set k"
  shows "path_in mroot k \<noteq> local_mission_dir mroot st y c" "\<not> below (local_mission_dir mroot st y c) (path_in mroot k)"
    "path_in mroot k \<noteq> mission_info_path mroot st y c"
  using top_file [OF assms, of mroot "st @ ''/'' @ four_dec y" c] top_file(1) [OF assms, of mroot "st @ ''/'' @ four_dec y @ ''/'' @ c"]
  by (simp_all add: local_mission_dir_def mission_year_dir_def mission_info_path_def path_in_def)

lemma top_names: "CHR ''/'' \<notin> set ''missions.json''" "CHR ''/'' \<notin> set ''.last_rolled''"
  by simp_all

lemmas json_apart = top_mission [OF top_names(1), folded missions_json_path_def]
lemmas rolled_apart = top_mission [OF top_names(2), folded last_rolled_path_def]

lemma rolled_not_json: "last_rolled_path mroot \<noteq> missions_json_path mroot"
  by (simp add: last_rolled_path_def missions_json_path_def path_in_def)

lemma save_disk:
  "p \<noteq> missions_json_path mroot \<Longrightarrow> p \<noteq> info_of mroot v \<or> \<not> running v \<Longrightarrow>
     disk (vm_store (mission_save_meta_to_disk mroot v)) p = disk (vm_store v) p"
  by (auto simp: mission_save_meta_to_disk_def Let_def)

lemma save_json:
  "disk (vm_store (mission_save_meta_to_disk mroot v)) (missions_json_path mroot) =
     Some (missions_json (if running v then Some (vm_cur v) else None) (vm_history v))"
  using json_apart(3) by (simp add: mission_save_meta_to_disk_def Let_def)

lemma save_dirs: "dirs (vm_store v) \<subseteq> dirs (vm_store (mission_save_meta_to_disk mroot v))"
  by (auto simp: mission_save_meta_to_disk_def Let_def mkdirs_def put_text_def)

section \<open>Files below a directory\<close>

lemma below_self [simp]: "below d (path_in d n)"
  by (simp add: below_def path_in_def prefix_def)

lemma rm_keeps: "\<not> below d p \<Longrightarrow> p \<noteq> d \<Longrightarrow> disk (cleanup_rm_rf d st) p = disk st p"
  by (simp add: cleanup_rm_rf_def)

lemma rm_dir_keeps: "\<not> below d p \<Longrightarrow> disk (rm_rf_dir d st) p = disk st p"
  by (simp add: rm_rf_dir_def cleanup_rm_rf_def)

lemma rm_only: "disk (cleanup_rm_rf d st) p \<noteq> disk st p \<Longrightarrow> p = d \<or> below d p"
  by (auto simp: cleanup_rm_rf_def split: if_splits)

lemma fold_rm_only: "disk (fold cleanup_rm_rf ds st) p \<noteq> disk st p \<Longrightarrow> \<exists>d\<in>set ds. p = d \<or> below d p"
proof (induction ds arbitrary: st)
  case (Cons d ds)
  show ?case
  proof (cases "disk (cleanup_rm_rf d st) p = disk st p")
    case True
    then have "\<exists>d\<in>set ds. p = d \<or> below d p" using Cons.prems by (intro Cons.IH [of "cleanup_rm_rf d st"]) simp
    then show ?thesis by simp
  next
    case False
    then show ?thesis using rm_only by auto
  qed
qed simp

lemma cleanup_dirs_form:
  "d \<in> set (cleanup_dirs mroot ls l y) \<Longrightarrow> \<exists>st n. d = local_mission_dir mroot st y n \<and> n \<in> set (ls (mission_year_dir mroot st y)) \<and>
     n \<noteq> [] \<and> hd n = l \<and> st \<in> set (ls mroot)"
  by (auto simp: cleanup_dirs_def Let_def local_mission_dir_def)

lemma cleanup_only:
  assumes "disk (cleanup_two_months_ago_missions mroot ls code y st) p \<noteq> disk st p"
  shows "\<exists>c r l y' s n. code = c # r \<and> target_month c y = Some (l, y') \<and> n \<noteq> [] \<and> hd n = l \<and> s \<in> set (ls mroot) \<and>
    n \<in> set (ls (mission_year_dir mroot s y')) \<and> (p = local_mission_dir mroot s y' n \<or> below (local_mission_dir mroot s y' n) p)"
proof -
  obtain c r where code: "code = c # r" using assms by (cases code) (simp_all add: cleanup_two_months_ago_missions_def)
  obtain l y' where t: "target_month c y = Some (l, y')"
    using assms code by (cases "target_month c y") (auto simp: cleanup_two_months_ago_missions_def)
  have "disk (fold cleanup_rm_rf (cleanup_dirs mroot ls l y') st) p \<noteq> disk st p"
    using assms by (simp add: cleanup_two_months_ago_missions_def code t)
  from fold_rm_only [OF this]
  obtain d where d: "d \<in> set (cleanup_dirs mroot ls l y')" "p = d \<or> below d p" by blast
  from cleanup_dirs_form [OF d(1)] d(2) code t show ?thesis by blast
qed

lemma cleanup_top:
  assumes "CHR ''/'' \<notin> set k"
  shows "disk (cleanup_two_months_ago_missions mroot ls code y st) (path_in mroot k) = disk st (path_in mroot k)"
proof (rule ccontr)
  assume "\<not> ?thesis"
  from cleanup_only [OF this]
  obtain s y' n where "path_in mroot k = local_mission_dir mroot s y' n \<or> below (local_mission_dir mroot s y' n) (path_in mroot k)"
    by (elim exE conjE) (rule that)
  then show False using top_mission [OF assms] by blast
qed

lemmas cleanup_json = cleanup_top [OF top_names(1), folded missions_json_path_def]
lemmas cleanup_rolled = cleanup_top [OF top_names(2), folded last_rolled_path_def]

section \<open>Codes\<close>

lemma letter_code: "m < 12 \<Longrightarrow> (of_char (mission_letter m) :: nat) = 65 + m"
  by (simp add: mission_letter_def of_char_of)

lemma two_dec_facts: "d < 32 \<Longrightarrow> length (two_dec d) = 2 \<and> atoi (two_dec d) = int d"
proof -
  have "\<forall>d\<in>set [0..<32]. length (two_dec d) = 2 \<and> atoi (two_dec d) = int d" by code_simp
  then show "d < 32 \<Longrightarrow> length (two_dec d) = 2 \<and> atoi (two_dec d) = int d" by simp
qed

lemma make_code_eq: "d < 32 \<Longrightarrow> make_code m d = mission_letter m # two_dec d"
  using two_dec_facts [of d] by (simp add: make_code_def)

lemma parse_make_code: "m < 12 \<Longrightarrow> 1 \<le> d \<Longrightarrow> d \<le> 31 \<Longrightarrow> parse_code (make_code m d) = Some (m, d)"
proof -
  assume m: "m < 12" "1 \<le> d" "d \<le> 31"
  have f: "length (two_dec d) = 2" "atoi (two_dec d) = int d" using two_dec_facts [of d] m by simp_all
  then obtain a b where ab: "two_dec d = [a, b]" by (auto simp: length_Suc_conv numeral_2_eq_2)
  then show ?thesis using make_code_eq [of d m] letter_code [OF m(1)] f(2) m by (simp add: parse_code_def)
qed

lemma target_month_letter:
  assumes "m < 12"
  shows "\<exists>m' y'. target_month (mission_letter m) y = Some (mission_letter m', y') \<and> m' < 12 \<and> 12 * y' + int m' + 2 = 12 * y + int m"
proof -
  have t: "target_month (mission_letter m) y =
      (if int m < 2 then Some (mission_letter (nat (10 + int m)), y - 1) else Some (mission_letter (nat (int m - 2)), y))"
    using letter_code [OF assms] assms by (simp add: target_month_def Let_def)
  show ?thesis
  proof (cases "int m < 2")
    case True
    then show ?thesis unfolding t using assms by (intro exI [of _ "nat (10 + int m)"] exI [of _ "y - 1"]) auto
  next
    case False
    then show ?thesis unfolding t using assms by (intro exI [of _ "nat (int m - 2)"] exI [of _ y]) auto
  qed
qed

section \<open>Start and end\<close>

text \<open>What the members hold while a mission runs.\<close>

definition started :: "mission_entry \<Rightarrow> bool" where
  "started e \<longleftrightarrow> (\<exists>t>0. me_start e = int t \<and> me_year e = int (tm_year (to_tm t)) \<and>
     me_code e = make_code (tm_mon (to_tm t)) (tm_mday (to_tm t))) \<and> me_end e = 0 \<and> me_rollover e = 0 \<and>
     length (me_by e) < 32 \<and> length (me_station e) < 64 \<and> length (me_host e) < 32 \<and> length (me_sdr e) < 24 \<and> length (me_antenna e) < 64"

lemma to_tm_ranges: "tm_mon (to_tm t) < 12" "1 \<le> tm_mday (to_tm t)" "tm_mday (to_tm t) \<le> 31"
  using gmtime_ranges [of "t + OFFSET_SEC"] by (simp_all add: to_tm_def)

lemma started_code: "started e \<Longrightarrow> parse_code (me_code e) \<noteq> None \<and> me_code e \<noteq> []"
  using parse_make_code [OF to_tm_ranges] by (auto simp: started_def make_code_def)

text \<open>A start brings the viewer into the state \<^verbatim>\<open>u\<close>, which is saved and sent, and then cleans up.\<close>

lemma start_steps:
  assumes "mission_start mroot ls x now who op v = (v', True)"
  obtains u where "v' = (mission_broadcast_sync (mission_save_meta_to_disk mroot u))\<lparr> vm_store :=
      cleanup_two_months_ago_missions mroot ls (me_code (vm_cur u)) (me_year (vm_cur u)) (vm_store (mission_save_meta_to_disk mroot u)) \<rparr>"
    "vm_state u = ACTIVE" "vm_history u = vm_history v" "disk (vm_store u) = disk (vm_store v)" "running u"
    "me_start (vm_cur u) = int now" "me_year (vm_cur u) = int (tm_year (to_tm now))"
    "me_code (vm_cur u) = make_code (tm_mon (to_tm now)) (tm_mday (to_tm now))" "0 < now \<Longrightarrow> started (vm_cur u)"
    "dirs (vm_store v) \<subseteq> dirs (vm_store u)"
proof -
  let ?t = "to_tm now"
  let ?y = "int (tm_year ?t)" and ?c = "make_code (tm_mon ?t) (tm_mday ?t)"
  let ?cur = "\<lparr> me_year = ?y, me_code = ?c, me_start = int now, me_end = 0,
                 me_by = fill_started_by x who, me_op = op, me_rollover = 0, me_station = take 63 (cx_station x),
                 me_host = fill_host_name x, me_lat = cx_lat x, me_lon = cx_lon x,
                 me_sdr = take 23 (mission_sdr_kind_str x), me_antenna = take 63 (cx_antenna x) \<rparr>"
  have t7: "take 7 ?c = ?c" by (simp add: make_code_def)
  have i: "vm_state v = IDLE" using assms by (simp add: mission_start_def Let_def split: if_splits)
  define st where "st = or_unknown (me_station ?cur)"
  define d where "d = local_mission_dir mroot st ?y ?c"
  define u where "u = call [RequestRotate, FinalizeStaleLive]
    (mkdirs [mroot, path_in mroot st, mission_year_dir mroot st ?y, d, path_in d ''iq'', path_in d ''audio'', path_in d ''hist'']
      (v\<lparr> vm_state := ACTIVE, vm_cur := ?cur \<rparr>))"
  have one: "vm_state u = ACTIVE" "vm_cur u = ?cur" "vm_history u = vm_history v" "disk (vm_store u) = disk (vm_store v)"
    by (simp_all add: u_def)
  have "v' = (mission_broadcast_sync (mission_save_meta_to_disk mroot u))\<lparr> vm_store :=
      cleanup_two_months_ago_missions mroot ls ?c ?y (vm_store (mission_broadcast_sync (mission_save_meta_to_disk mroot u))) \<rparr>"
    using assms i unfolding mission_start_def t7 Let_def u_def d_def st_def by simp
  then have v': "v' = (mission_broadcast_sync (mission_save_meta_to_disk mroot u))\<lparr> vm_store :=
      cleanup_two_months_ago_missions mroot ls (me_code (vm_cur u)) (me_year (vm_cur u)) (vm_store (mission_save_meta_to_disk mroot u)) \<rparr>"
    by (simp add: one)
  have r: "running u" by (simp add: running_def one make_code_def)
  have ds: "dirs (vm_store v) \<subseteq> dirs (vm_store u)" by (auto simp: u_def mkdirs_def)
  have "length (mission_sdr_kind_str x) < 24" by (simp add: mission_sdr_kind_str_def)
  then have st: "started ?cur" if "0 < now"
    unfolding started_def using that
    by (intro conjI exI [of _ now]) (simp_all add: fill_started_by_def fill_host_name_def)
  show thesis by (rule that [OF v' one(1) one(3,4) r]) (simp_all add: one st ds)
qed

lemma mission_start_ok: "mission_start mroot ls x now who op v = (v', ok) \<Longrightarrow> (ok \<longleftrightarrow> vm_state v = IDLE) \<and> (\<not> ok \<longrightarrow> v' = v)"
  by (simp add: mission_start_def Let_def split: if_splits)

lemma start_effect:
  assumes "mission_start mroot ls x now who op v = (v', True)"
  shows "vm_state v' = ACTIVE \<and> vm_history v' = vm_history v \<and> me_start (vm_cur v') = int now \<and>
      me_year (vm_cur v') = int (tm_year (to_tm now)) \<and> me_code (vm_cur v') = make_code (tm_mon (to_tm now)) (tm_mday (to_tm now)) \<and>
      (0 < now \<longrightarrow> started (vm_cur v'))"
    "disk (vm_store v') (missions_json_path mroot) = Some (missions_json (Some (vm_cur v')) (vm_history v'))"
    "disk (vm_store v') (last_rolled_path mroot) = disk (vm_store v) (last_rolled_path mroot)"
  by (rule start_steps [OF assms]; simp add: cleanup_json cleanup_rolled save_json save_disk rolled_apart rolled_not_json)+

lemma start_store:
  assumes "mission_start mroot ls x now who op v = (v', True)" "p \<noteq> missions_json_path mroot" "p \<noteq> info_of mroot v'"
  obtains st where "disk (vm_store v') = disk (cleanup_two_months_ago_missions mroot ls
      (make_code (tm_mon (to_tm now)) (tm_mday (to_tm now))) (int (tm_year (to_tm now))) st)"
    "disk st p = disk (vm_store v) p"
proof (rule start_steps [OF assms(1)])
  fix u
  assume u: "v' = (mission_broadcast_sync (mission_save_meta_to_disk mroot u))\<lparr> vm_store :=
      cleanup_two_months_ago_missions mroot ls (me_code (vm_cur u)) (me_year (vm_cur u)) (vm_store (mission_save_meta_to_disk mroot u)) \<rparr>"
    "disk (vm_store u) = disk (vm_store v)" "me_year (vm_cur u) = int (tm_year (to_tm now))"
    "me_code (vm_cur u) = make_code (tm_mon (to_tm now)) (tm_mday (to_tm now))"
  have c: "vm_cur v' = vm_cur u" by (simp add: u(1))
  show thesis
  proof (rule that)
    show "disk (vm_store v') = disk (cleanup_two_months_ago_missions mroot ls
      (make_code (tm_mon (to_tm now)) (tm_mday (to_tm now))) (int (tm_year (to_tm now))) (vm_store (mission_save_meta_to_disk mroot u)))"
      unfolding u(3,4) [symmetric] by (simp add: u(1))
    show "disk (vm_store (mission_save_meta_to_disk mroot u)) p = disk (vm_store v) p"
      using assms(2,3) u(2) by (simp add: save_disk c)
  qed
qed

lemma end_effect:
  assumes "mission_end mroot recs now v = (v', ok)"
  shows "ok \<longleftrightarrow> vm_state v = ACTIVE" "\<not> ok \<Longrightarrow> v' = v"
    "ok \<Longrightarrow> vm_state v' = IDLE \<and> vm_cur v' = no_mission \<and>
      vm_history v' = vm_history v @ [(vm_cur v)\<lparr> me_end := int now, me_rollover := 0 \<rparr>] \<and>
      disk (vm_store v') (missions_json_path mroot) = Some (missions_json None (vm_history v')) \<and>
      (\<forall>p. p \<noteq> missions_json_path mroot \<longrightarrow> disk (vm_store v') p = disk (vm_store v) p)"
proof -
  show e: "ok \<longleftrightarrow> vm_state v = ACTIVE" "\<not> ok \<Longrightarrow> v' = v"
    using assms by (simp_all add: mission_end_def Let_def split: if_splits)
  assume ok
  define v1 where "v1 = (call (RequestRotate # stop_calls recs) (v\<lparr> vm_state := CLOSING, vm_cur := (vm_cur v)\<lparr> me_end := int now \<rparr> \<rparr>))
    \<lparr> vm_history := vm_history v @ [(vm_cur v)\<lparr> me_end := int now, me_rollover := 0 \<rparr>], vm_state := IDLE, vm_cur := no_mission \<rparr>"
  have v': "v' = mission_broadcast_sync (mission_save_meta_to_disk mroot v1)"
    using assms \<open>ok\<close> e(1) by (simp add: mission_end_def Let_def v1_def)
  have one: "vm_state v1 = IDLE" "vm_cur v1 = no_mission" "vm_store v1 = vm_store v" "\<not> running v1"
    "vm_history v1 = vm_history v @ [(vm_cur v)\<lparr> me_end := int now, me_rollover := 0 \<rparr>]"
    by (simp_all add: v1_def running_def call_def)
  show "vm_state v' = IDLE \<and> vm_cur v' = no_mission \<and>
      vm_history v' = vm_history v @ [(vm_cur v)\<lparr> me_end := int now, me_rollover := 0 \<rparr>] \<and>
      disk (vm_store v') (missions_json_path mroot) = Some (missions_json None (vm_history v')) \<and>
      (\<forall>p. p \<noteq> missions_json_path mroot \<longrightarrow> disk (vm_store v') p = disk (vm_store v) p)"
    using one by (simp add: v' save_json save_disk)
qed

section \<open>Deletion\<close>

lemma history_station_erased [simp]: "history_station y code (erase y code h) = []"
  by (simp add: history_station_def erase_def)

lemma delete_effect:
  assumes "mission_delete mroot recs now y code v = (v', True)"
  shows "vm_history v' = erase y code (vm_history v')"
    "vm_state v' = vm_state v \<and> vm_cur v' = vm_cur v \<or> vm_state v = ACTIVE \<and> vm_state v' = IDLE \<and> vm_cur v' = no_mission"
    "disk (vm_store v') (missions_json_path mroot) = Some (missions_json (if running v' then Some (vm_cur v') else None) (vm_history v'))"
    "set (vm_history v') \<subseteq> insert ((vm_cur v)\<lparr> me_end := int now, me_rollover := 0 \<rparr>) (set (vm_history v))"
    "p \<noteq> missions_json_path mroot \<Longrightarrow> p \<noteq> info_of mroot v' \<or> \<not> running v' \<Longrightarrow>
       \<not> below (local_mission_dir mroot ''_unknown_'' y code) p \<Longrightarrow> disk (vm_store v') p = disk (vm_store v) p"
proof -
  define u where "u = (if vm_state v = ACTIVE \<and> me_year (vm_cur v) = y \<and> me_code (vm_cur v) = code then v
                    else v\<lparr> vm_history := erase y code (vm_history v) \<rparr>)"
  obtain z ok where z: "mission_end mroot recs now u = (z, ok)" by fastforce
  let ?c = "vm_state u = ACTIVE \<and> me_year (vm_cur u) = y \<and> take 8 (me_code (vm_cur u)) = take 8 code"
  define w where "w = (if ?c then z\<lparr> vm_history := erase y code (vm_history z) \<rparr> else u)"
  have u: "vm_state u = vm_state v" "vm_cur u = vm_cur v" "vm_store u = vm_store v" "set (vm_history u) \<subseteq> set (vm_history v)"
    by (auto simp: u_def erase_def)
  note e = end_effect [OF z]
  have hw: "vm_history w = erase y code (vm_history w)"
    by (auto simp: w_def u_def erase_def)
  have sw: "vm_state w = vm_state v \<and> vm_cur w = vm_cur v \<or> vm_state v = ACTIVE \<and> vm_state w = IDLE \<and> vm_cur w = no_mission"
    using e u by (auto simp: w_def)
  have dw: "disk (vm_store w) p = disk (vm_store v) p" if "p \<noteq> missions_json_path mroot" for p
    using e u that by (auto simp: w_def)
  have sb: "set (vm_history w) \<subseteq> insert ((vm_cur v)\<lparr> me_end := int now, me_rollover := 0 \<rparr>) (set (vm_history v))"
    using e u by (auto simp: w_def erase_def split: if_splits)
  define d where "d = local_mission_dir mroot (or_unknown (history_station y code (vm_history w))) y code"
  have du: "d = local_mission_dir mroot ''_unknown_'' y code"
    unfolding d_def by (subst hw) (simp add: or_unknown_def)
  define x where "x = w\<lparr> vm_store := rm_rf_dir d (vm_store w) \<rparr>"
  have v': "v' = mission_broadcast_sync (mission_save_meta_to_disk mroot x)"
  proof -
    have "w = (if ?c then (let v = fst (mission_end mroot recs now u) in v\<lparr> vm_history := erase y code (vm_history v) \<rparr>) else u)"
      by (simp add: w_def z)
    then show ?thesis using assms unfolding mission_delete_def Let_def u_def [symmetric] x_def d_def by (auto split: if_splits)
  qed
  have x: "vm_state x = vm_state w" "vm_cur x = vm_cur w" "vm_history x = vm_history w" by (simp_all add: x_def)
  show "vm_history v' = erase y code (vm_history v')" using hw x v' by simp
  show "vm_state v' = vm_state v \<and> vm_cur v' = vm_cur v \<or> vm_state v = ACTIVE \<and> vm_state v' = IDLE \<and> vm_cur v' = no_mission"
    using sw x v' by simp
  show "disk (vm_store v') (missions_json_path mroot) = Some (missions_json (if running v' then Some (vm_cur v') else None) (vm_history v'))"
    by (simp add: v' save_json)
  show "set (vm_history v') \<subseteq> insert ((vm_cur v)\<lparr> me_end := int now, me_rollover := 0 \<rparr>) (set (vm_history v))"
    using sb x v' by simp
  show "disk (vm_store v') p = disk (vm_store v) p"
    if "p \<noteq> missions_json_path mroot" "p \<noteq> info_of mroot v' \<or> \<not> running v'" "\<not> below (local_mission_dir mroot ''_unknown_'' y code) p"
  proof -
    have "disk (vm_store v') p = disk (vm_store x) p" using that(1,2) by (simp add: v' save_disk)
    also have "\<dots> = disk (vm_store w) p" using that(3) by (simp add: x_def du rm_dir_keeps)
    finally show ?thesis using dw [OF that(1)] by simp
  qed
qed

end
