(* ===== verification/MissionProps.thy ===== *)
theory MissionProps
  imports MissionFacts
begin

text \<open>The properties of the life of a mission.\<close>

section \<open>Files\<close>

lemma below_mission: "below (local_mission_dir mroot st y code) p \<Longrightarrow> \<exists>r. p = mroot @ ''/'' @ st @ ''/'' @ r"
  by (auto simp: below_def local_mission_dir_def mission_year_dir_def path_in_def prefix_def)

lemma slash_split:
  assumes "a @ CHR ''/'' # x = b @ CHR ''/'' # y" "CHR ''/'' \<notin> set a" "CHR ''/'' \<notin> set b"
  shows "a = b"
proof -
  have "Some (a, x) = Some (b, y)"
    unfolding cut_slash_first [OF assms(2), symmetric] cut_slash_first [OF assms(3), symmetric] assms(1) ..
  then show ?thesis by simp
qed


definition example_mission :: mission_entry where
  "example_mission = \<lparr> me_year = 2026, me_code = ''A01'', me_start = 5, me_end = 9, me_by = ''op'', me_op = 0, me_rollover = 0,
     me_station = ''S'', me_host = ''h'', me_lat = 0, me_lon = 0, me_sdr = ''Pluto'', me_antenna = [] \<rparr>"

definition example_viewer :: viewer where
  "example_viewer = \<lparr> vm_state = IDLE, vm_cur = no_mission, vm_history = [example_mission],
     vm_store = \<lparr> disk = [''/m/S/2026/A01/iq/r'' \<mapsto> ''data''], dirs = {''/m'', ''/m/S/2026/A01''} \<rparr>, vm_net = True, vm_calls = [] \<rparr>"



definition example_ctx :: mission_ctx where
  "example_ctx = \<lparr> cx_station = ''S'', cx_lat = 0, cx_lon = 0, cx_antenna = [], cx_blade = True, cx_pluto = False, cx_rtl = False,
     cx_hw = NoHw, cx_login = ''op'', cx_user = None, cx_logname = None, cx_hostname = None \<rparr>"

lemma first_day: "to_tm 0 = \<lparr> tm_year = 1970, tm_mon = 0, tm_mday = 1, tm_yday = 0, tm_hour = 9, tm_min = 0, tm_sec = 0 \<rparr>"
  by (simp add: to_tm_def gmtime_def OFFSET_SEC_def year_of.simps [of 1970] year_len_def month_lens_def leap_year_def)


section \<open>Names\<close>

text \<open>
  The names a HOST makes are names the relay accepts.  At any time, the code of a new mission
  is a part of a path of at most 7 characters from which month and day can be read
  back, its year is not before 1970, and the names of history files, while
  they are recorded and afterwards, whatever station and frequency they carry, have at most 127
  characters, none of them a slash, a backslash or a control character, and are not a dot
  name.
\<close>

theorem mission_names_accepted:
  "path_component_safe 8 (make_code (tm_mon (to_tm t)) (tm_mday (to_tm t))) \<and>
   parse_code (make_code (tm_mon (to_tm t)) (tm_mday (to_tm t))) = Some (tm_mon (to_tm t), tm_mday (to_tm t)) \<and>
   1970 \<le> tm_year (to_tm t) \<and>
   path_component_safe 128 (build_hist_filename_live t cf station) \<and>
   path_component_safe 128 (build_hist_filename_finalize (build_hist_filename_live t cf station) e)"
proof -
  note r = to_tm_ranges [of t]
  have c: "make_code (tm_mon (to_tm t)) (tm_mday (to_tm t)) = mission_letter (tm_mon (to_tm t)) # two_dec (tm_mday (to_tm t))"
    using r(3) by (intro make_code_eq) simp
  have l: "length (two_dec (tm_mday (to_tm t))) = 2" using two_dec_facts [of "tm_mday (to_tm t)"] r(3) by simp
  have "two_dec (tm_mday (to_tm t)) \<noteq> []" "two_dec (tm_mday (to_tm t)) \<noteq> ''.''" using l by auto
  then have "path_component_safe 8 (make_code (tm_mon (to_tm t)) (tm_mday (to_tm t)))"
    using mission_letter_safe [OF r(1)] l by (simp add: c path_component_safe_chars)
  moreover have "1970 \<le> tm_year (to_tm t)" using gmtime_ranges(7) by (simp add: to_tm_def)
  ultimately show ?thesis using parse_make_code [OF r] live_component_safe final_name_safe by blast
qed

end
