(* ===== verification/MissionRuns.thy ===== *)
theory MissionRuns
  imports MissionProps
begin

text \<open>Runs of a HOST: the start of the program, requests, and the turns of the worker for the change of the day.\<close>

section \<open>The day that was rolled last\<close>

lemma scan_int_text: "0 \<le> d \<Longrightarrow> scan_int (int_text d @ eol) = Some d"
proof -
  assume d: "0 \<le> d"
  obtain c r where s: "dec_str (nat d) = c # r" by (cases "dec_str (nat d)") simp_all
  then have "is_digit c" using dec_str_digits [of "nat d"] by simp
  note c = digit_ranges [OF this]
  have t: "int_text d @ eol = c # (r @ eol)" using d by (simp add: int_text_def s)
  have w: "dropWhile (\<lambda>c. c = CHR '' '' \<or> 9 \<le> (of_char c :: nat) \<and> (of_char c :: nat) \<le> 13) (c # (r @ eol)) = c # (r @ eol)"
    using c by simp
  have sg: "take_sign (c # (r @ eol)) = (False, c # (r @ eol))" using c by (simp add: take_sign_def)
  have "\<not> is_digit nl" by (simp add: is_digit_def)
  then have "takeWhile is_digit (c # (r @ eol)) = dec_str (nat d)"
    using takeWhile_digits [OF dec_str_digits, of nl "nat d" "[]"] by (simp add: s)
  then show ?thesis using d digit_sum_dec [of "nat d"]
    unfolding scan_int_def t w sg Let_def prod.case by simp
qed

lemma saved_day: "0 \<le> d \<Longrightarrow> load_last_rolled_day_id mroot (vm_store (save_last_rolled_day_id mroot d v)) = d"
  by (simp add: load_last_rolled_day_id_def save_last_rolled_day_id_def scan_int_text)

lemma save_day_simps [simp]:
  "vm_state (save_last_rolled_day_id mroot d v) = vm_state v" "vm_cur (save_last_rolled_day_id mroot d v) = vm_cur v"
  "vm_history (save_last_rolled_day_id mroot d v) = vm_history v"
  "disk (vm_store (save_last_rolled_day_id mroot d v)) (missions_json_path mroot) = disk (vm_store v) (missions_json_path mroot)"
  by (simp_all add: save_last_rolled_day_id_def rolled_not_json [symmetric])

lemma same_rolled:
  "disk (vm_store v') (last_rolled_path mroot) = disk (vm_store v) (last_rolled_path mroot) \<Longrightarrow>
     load_last_rolled_day_id mroot (vm_store v') = load_last_rolled_day_id mroot (vm_store v)"
  by (simp add: load_last_rolled_day_id_def)

section \<open>The old layout\<close>

text \<open>What the move of old directories does not touch.\<close>

definition same_top :: "string \<Rightarrow> viewer \<Rightarrow> viewer \<Rightarrow> bool" where
  "same_top mroot v v' \<longleftrightarrow> vm_state v' = vm_state v \<and> vm_cur v' = vm_cur v \<and> vm_history v' = vm_history v \<and>
     disk (vm_store v') (missions_json_path mroot) = disk (vm_store v) (missions_json_path mroot)"

lemma same_top_trans: "same_top mroot u v \<Longrightarrow> same_top mroot v w \<Longrightarrow> same_top mroot u w"
  by (simp add: same_top_def)

lemma fold_same_top: "(\<And>x v. same_top mroot v (f x v)) \<Longrightarrow> same_top mroot v (fold f xs v)"
proof (induction xs arbitrary: v)
  case (Cons x xs)
  have "same_top mroot (f x v) (fold f xs (f x v))" by (rule Cons.IH [OF Cons.prems])
  then show ?case using same_top_trans [OF Cons.prems [of v x]] by simp
qed (simp add: same_top_def)

lemma rename_tree_json:
  "disk (rename_tree (path_in (path_in mroot a) b) (local_mission_dir mroot st y c) st') (missions_json_path mroot) =
     disk st' (missions_json_path mroot)"
  using json_apart [of mroot st y c] top_file [OF top_names(1), of mroot a b, folded missions_json_path_def]
  by (simp add: rename_tree_def Let_def)

lemma migrate_one_top: "same_top mroot v (migrate_one mroot ok yn code v)"
  by (simp add: migrate_one_def Let_def same_top_def rename_tree_json)

lemma migrate_top: "same_top mroot v (mission_migrate_old_layout mroot ls ok v)"
proof -
  have r: "disk (rmdir d st) = disk st" for d st by (simp add: rmdir_def)
  have "same_top mroot v (v\<lparr> vm_store := rmdir d (vm_store v) \<rparr>)" for d v by (simp add: same_top_def r)
  then have "same_top mroot v ((fold (migrate_one mroot ok yn) xs v)\<lparr> vm_store := rmdir d (vm_store (fold (migrate_one mroot ok yn) xs v)) \<rparr>)"
    for yn xs d v by (rule same_top_trans [OF fold_same_top [where f = "migrate_one mroot ok yn", OF migrate_one_top]])
  moreover have "same_top mroot v v" for v by (simp add: same_top_def)
  ultimately have "same_top mroot v (if path_in mroot yn \<notin> dirs (vm_store v) then v
      else (fold (migrate_one mroot ok yn) xs v)\<lparr> vm_store := rmdir d (vm_store (fold (migrate_one mroot ok yn) xs v)) \<rparr>)"
    for yn xs d v by (cases "path_in mroot yn \<notin> dirs (vm_store v)") simp_all
  then show ?thesis unfolding mission_migrate_old_layout_def Let_def by (rule fold_same_top)
qed

section \<open>Invariant\<close>

inductive mission_run :: "string \<Rightarrow> utc0 \<times> viewer \<Rightarrow> bool" for mroot where
  boot: "vm_state v = IDLE \<Longrightarrow> vm_cur v = no_mission \<Longrightarrow> vm_history v = [] \<Longrightarrow> 0 < now \<Longrightarrow>
    mission_run mroot (mission_boot mroot ls ok junk now v)"
| request: "mission_run mroot (w, v) \<Longrightarrow> 0 < now \<Longrightarrow> mission_run mroot (w, mission_request mroot ls x recs now e v)"
| tick: "mission_run mroot wv \<Longrightarrow> 0 < now \<Longrightarrow> 0 < now1 \<Longrightarrow> 0 < now2 \<Longrightarrow> mission_run mroot (utc0_tick mroot ls x recs (now, now1, now2) wv)"

definition closed_entry :: "mission_entry \<Rightarrow> bool" where
  "closed_entry e \<longleftrightarrow> me_end e \<noteq> 0 \<or> me_start e \<le> 0"

definition mission_inv :: "string \<Rightarrow> utc0 \<Rightarrow> viewer \<Rightarrow> bool" where
  "mission_inv mroot w v \<longleftrightarrow>
     (vm_state v = IDLE \<and> vm_cur v = no_mission \<or> vm_state v = ACTIVE \<and> started (vm_cur v)) \<and>
     list_all closed_entry (vm_history v) \<and>
     disk (vm_store v) (missions_json_path mroot) =
       Some (missions_json (if vm_state v = ACTIVE then Some (vm_cur v) else None) (vm_history v)) \<and>
     load_last_rolled_day_id mroot (vm_store v) = last_day w"

lemma inv_start:
  assumes i: "mission_inv mroot w v" and s: "mission_start mroot ls x now who op v = (v', ok)" and n: "0 < now"
  shows "mission_inv mroot w v'"
proof (cases ok)
  case True
  then have s: "mission_start mroot ls x now who op v = (v', True)" using s by simp
  from start_effect(1,2) [OF s] n i same_rolled [OF start_effect(3) [OF s]] show ?thesis by (simp add: mission_inv_def)
next
  case False
  then show ?thesis using i mission_start_ok [OF s] by simp
qed

lemma inv_end:
  assumes i: "mission_inv mroot w v" and s: "mission_end mroot recs now v = (v', ok)" and n: "0 < now"
  shows "mission_inv mroot w v'"
proof (cases ok)
  case True
  have "load_last_rolled_day_id mroot (vm_store v') = load_last_rolled_day_id mroot (vm_store v)"
    using end_effect(3) [OF s True] rolled_not_json by (intro same_rolled) simp
  then show ?thesis using end_effect(3) [OF s True] i n by (simp add: mission_inv_def closed_entry_def)
next
  case False
  then show ?thesis using i end_effect(2) [OF s] by simp
qed

lemma inv_delete:
  assumes i: "mission_inv mroot w v" and s: "mission_delete mroot recs now y code v = (v', ok)" and n: "0 < now"
  shows "mission_inv mroot w v'"
proof (cases ok)
  case True
  then have s: "mission_delete mroot recs now y code v = (v', True)" using s by simp
  note e = delete_effect [OF s]
  have l: "load_last_rolled_day_id mroot (vm_store v') = load_last_rolled_day_id mroot (vm_store v)"
    using rolled_not_json rolled_apart by (intro same_rolled e(5)) auto
  have r: "running v' \<longleftrightarrow> vm_state v' = ACTIVE"
    using e(2) i started_code by (auto simp: running_def mission_inv_def)
  have "list_all closed_entry (vm_history v')"
    using e(4) i n by (auto simp: list_all_iff mission_inv_def closed_entry_def)
  then show ?thesis using e(2,3) i l unfolding mission_inv_def r by auto
next
  case False
  then have "v' = v" using s by (simp add: mission_delete_def Let_def split: if_splits)
  then show ?thesis using i by simp
qed

lemma inv_call [simp]: "mission_inv mroot w (call cs v) = mission_inv mroot w v"
  by (simp add: mission_inv_def)

lemma inv_broadcast [simp]: "mission_inv mroot w (mission_broadcast_sync v) = mission_inv mroot w v"
  by (simp add: mission_inv_def)

lemma inv_request: "mission_inv mroot w v \<Longrightarrow> 0 < now \<Longrightarrow> mission_inv mroot w (mission_request mroot ls x recs now e v)"
  by (cases e) (auto simp: mission_request_def split: prod.split intro: inv_start inv_end inv_delete
      intro!: inv_end [OF _ surjective_pairing] inv_delete [OF _ surjective_pairing])

lemma inv_day:
  assumes "mission_inv mroot w v" "0 \<le> d"
  shows "mission_inv mroot \<lparr> last_day = d, last_hour = h \<rparr> (save_last_rolled_day_id mroot d v)"
  using assms by (simp add: mission_inv_def saved_day)

lemma inv_rollover: "mission_inv mroot w v \<Longrightarrow> 0 < now1 \<Longrightarrow> 0 < now2 \<Longrightarrow> mission_inv mroot w (mission_rollover_utc0 mroot ls x recs now1 now2 v)"
  by (auto simp: mission_rollover_utc0_def intro!: inv_start [OF _ surjective_pairing] inv_end [OF _ surjective_pairing])

lemma inv_tick:
  assumes "mission_inv mroot (fst wv) (snd wv)" "0 < now1" "0 < now2" "utc0_tick mroot ls x recs (now, now1, now2) wv = wv'"
  shows "mission_inv mroot (fst wv') (snd wv')"
proof -
  obtain w v where wv: "wv = (w, v)" by fastforce
  have i: "mission_inv mroot w v" using assms(1) wv by simp
  have h: "mission_inv mroot (w\<lparr> last_hour := h \<rparr>) v" for h using i by (simp add: mission_inv_def)
  have r: "mission_inv mroot \<lparr> last_day = int d, last_hour = h \<rparr>
      (save_last_rolled_day_id mroot (int d) (mission_rollover_utc0 mroot ls x recs now1 now2 v))" for d h
    using inv_day [OF inv_rollover [OF i assms(2,3)]] by simp
  show ?thesis using assms(4) i h r unfolding wv utc0_tick_def prod.case Let_def
    by (auto split: if_splits)
qed

lemma mj_objects_closed: "0 < now \<Longrightarrow> list_all closed_entry (mj_objects junk now p)"
proof (induction junk now p rule: mj_objects.induct)
  case (1 junk now p)
  have c: "closed_entry (mj_close now e)" for e using "1.prems" by (auto simp: closed_entry_def mj_close_def)
  show ?case
  proof (cases "dropWhile mj_sep p")
    case (Cons k q)
    obtain e r where m: "mj_members q junk no_mission = (e, r)" by fastforce
    show ?thesis
    proof (cases "k = CHR ''{''")
      case True
      have "list_all closed_entry (mj_objects junk now (if r \<noteq> [] \<and> hd r = CHR ''}'' then tl r else r))"
        using True "1.prems" m by (intro "1.IH" [OF Cons _ m [symmetric] _ refl]) auto
      then show ?thesis using True c by (subst mj_objects.simps) (simp add: Cons m Let_def)
    qed (subst mj_objects.simps, simp add: Cons)
  next
    case Nil
    then show ?thesis by (subst mj_objects.simps) (simp only: list.case list.pred_inject)
  qed
qed

lemma mj_load_closed: "0 < now \<Longrightarrow> list_all closed_entry (mj_load junk now s)"
  by (auto simp: mj_load_def mj_objects_closed split: option.split list.split)

lemma inv_boot:
  assumes "vm_state v = IDLE" "vm_cur v = no_mission" "vm_history v = []" "0 < now" "mission_boot mroot ls ok junk now v = (w, v')"
  shows "mission_inv mroot w v'"
proof -
  define u where "u = mission_save_meta_to_disk mroot (mission_load_history mroot junk (int now) v)"
  define z where "z = mission_migrate_old_layout mroot ls ok u"
  have l: "vm_state (mission_load_history mroot junk (int now) v) = IDLE" "vm_cur (mission_load_history mroot junk (int now) v) = no_mission"
    "list_all closed_entry (vm_history (mission_load_history mroot junk (int now) v))"
    using assms(1-4) mj_load_closed [of "int now"] by (auto simp: mission_load_history_def split: option.split)
  have u: "vm_state u = IDLE" "vm_cur u = no_mission" "list_all closed_entry (vm_history u)"
    "disk (vm_store u) (missions_json_path mroot) = Some (missions_json None (vm_history u))"
    using l by (simp_all add: u_def save_json running_def)
  then have z: "vm_state z = IDLE" "vm_cur z = no_mission" "list_all closed_entry (vm_history z)"
    "disk (vm_store z) (missions_json_path mroot) = Some (missions_json None (vm_history z))"
    using migrate_top [of mroot u ls ok] by (simp_all add: z_def same_top_def)
  have "utc0_begin mroot now z = (w, v')" using assms(5) by (simp add: mission_boot_def u_def z_def)
  then show ?thesis using z
    by (auto simp: utc0_begin_def Let_def mission_inv_def saved_day split: if_splits)
qed

text \<open>
  C32: on every run, the missions of a HOST are in order.  It is idle and its members are
  cleared, or a mission runs whose start, year and code belong together; it never rests in the state
  \<^verbatim>\<open>CLOSING\<close>.  The history holds no open mission.  The file \<^verbatim>\<open>missions.json\<close> is at every moment the text
  of the running mission and the history, so that nothing is lost if the program is killed; and the
  file \<^verbatim>\<open>.last_rolled\<close> holds the day the worker has dealt with, so that a restart on the same day does not
  end the mission a second time.
\<close>

theorem mission_runs_in_order:
  assumes "mission_run mroot (w, v)"
  shows "(vm_state v = IDLE \<and> vm_cur v = no_mission \<or>
      vm_state v = ACTIVE \<and> (\<exists>t>0. me_start (vm_cur v) = int t \<and> me_year (vm_cur v) = int (tm_year (to_tm t)) \<and>
        parse_code (me_code (vm_cur v)) = Some (tm_mon (to_tm t), tm_mday (to_tm t)))) \<and>
    list_all closed_entry (vm_history v) \<and>
    disk (vm_store v) (missions_json_path mroot) =
      Some (missions_json (if vm_state v = ACTIVE then Some (vm_cur v) else None) (vm_history v)) \<and>
    (0 \<le> last_day w \<longrightarrow> fst (utc0_begin mroot now v) = \<lparr> last_day = last_day w, last_hour = kst_hour_id now \<rparr>)"
proof -
  have "mission_inv mroot (fst wv) (snd wv)" if "mission_run mroot wv" for wv
    using that
  proof (induction rule: mission_run.induct)
    case (boot v now ls ok junk)
    then show ?case by (intro inv_boot [OF boot(1-4) surjective_pairing])
  next
    case (request w v now ls x recs e)
    then show ?case using inv_request by simp
  next
    case (tick wv now now1 now2 ls x recs)
    then show ?case by (intro inv_tick [OF tick(5,3,4) refl])
  qed
  then have i: "mission_inv mroot w v" using assms by fastforce
  have p: "started e \<Longrightarrow> \<exists>t>0. me_start e = int t \<and> me_year e = int (tm_year (to_tm t)) \<and>
        parse_code (me_code e) = Some (tm_mon (to_tm t), tm_mday (to_tm t))" for e
    using parse_make_code [OF to_tm_ranges] unfolding started_def by metis
  have "0 \<le> last_day w \<longrightarrow> fst (utc0_begin mroot now v) = \<lparr> last_day = last_day w, last_hour = kst_hour_id now \<rparr>"
    using i by (simp add: mission_inv_def utc0_begin_def Let_def)
  then show ?thesis using i p unfolding mission_inv_def by blast
qed

lemma boot_state: "vm_state (snd (mission_boot mroot ls ok junk now v)) = vm_state v"
proof -
  have "vm_state (mission_migrate_old_layout mroot ls ok u) = vm_state u" for u using migrate_top [of mroot u ls ok] by (simp add: same_top_def)
  then show ?thesis by (simp add: mission_boot_def utc0_begin_def Let_def mission_load_history_def split: option.split)
qed

theorem mission_runs_in_order_witness:
  "\<exists>w v. mission_run ''/m'' (w, v) \<and> vm_state v = ACTIVE \<and> parse_code (me_code (vm_cur v)) \<noteq> None \<and>
     disk (vm_store v) (missions_json_path ''/m'') = Some (missions_json (Some (vm_cur v)) (vm_history v))"
proof -
  let ?v = "example_viewer\<lparr> vm_history := [] \<rparr>" and ?ls = "\<lambda>_. [] :: string list"
  obtain w u where b: "mission_boot ''/m'' ?ls (\<lambda>_ _. True) [] 1 ?v = (w, u)" by fastforce
  have "mission_run ''/m'' (mission_boot ''/m'' ?ls (\<lambda>_ _. True) [] 1 ?v)"
    by (rule mission_run.boot) (simp_all add: example_viewer_def)
  then have r: "mission_run ''/m'' (w, u)" unfolding b .
  have i: "vm_state u = IDLE" using boot_state [of "''/m''" ?ls "\<lambda>_ _. True" "[]" 1 ?v] unfolding b by (simp add: example_viewer_def)
  obtain z ok where s: "mission_start ''/m'' ?ls example_ctx 1 [] 0 u = (z, ok)" by fastforce
  then have ok: ok using i mission_start_ok [OF s] by simp
  then have q: "mission_request ''/m'' ?ls example_ctx (False, []) 1 (StartRequest 0 []) u = z" by (simp only: mission_request_def mission_event.case s prod.case if_True)
  have rz: "mission_run ''/m'' (w, z)" using mission_run.request [OF r, of 1 ?ls example_ctx "(False, [])" "StartRequest 0 []"] q by simp
  have a: "vm_state z = ACTIVE" using start_effect(1) [of "''/m''" ?ls example_ctx 1 "[]" 0 u z] s ok by simp
  note inv = mission_runs_in_order [OF rz, of 0]
  have "disk (vm_store z) (missions_json_path ''/m'') = Some (missions_json (Some (vm_cur z)) (vm_history z))" using inv a by simp
  moreover have "parse_code (me_code (vm_cur z)) \<noteq> None" using inv a by auto
  ultimately show ?thesis using a rz by blast
qed

section \<open>A mission for each day\<close>

definition day_of :: "mission_entry \<Rightarrow> int" where "day_of e = int (kst_day_id (nat (me_start e)))"

definition utc0_ticks :: "string \<Rightarrow> (string \<Rightarrow> string list) \<Rightarrow> mission_ctx \<Rightarrow> bool \<times> (bool \<times> bool) list \<Rightarrow> (nat \<times> nat \<times> nat) list \<Rightarrow>
    utc0 \<times> viewer \<Rightarrow> utc0 \<times> viewer" where
  "utc0_ticks mroot ls x recs clocks wv = fold (utc0_tick mroot ls x recs) clocks wv"

text \<open>All readings of the clock in one turn are on one day.\<close>

definition one_day :: "nat \<times> nat \<times> nat \<Rightarrow> bool" where
  "one_day c \<longleftrightarrow> kst_day_id (fst (snd c)) = kst_day_id (fst c) \<and> kst_day_id (snd (snd c)) = kst_day_id (fst c)"

lemma rollover_effect:
  assumes "vm_state v = ACTIVE"
  shows "vm_state (mission_rollover_utc0 mroot ls x recs now1 now2 v) = ACTIVE"
    "vm_history (mission_rollover_utc0 mroot ls x recs now1 now2 v) = vm_history v @ [(vm_cur v)\<lparr> me_end := int now1, me_rollover := 0 \<rparr>]"
    "me_start (vm_cur (mission_rollover_utc0 mroot ls x recs now1 now2 v)) = int now2"
    "me_code (vm_cur (mission_rollover_utc0 mroot ls x recs now1 now2 v)) = make_code (tm_mon (to_tm now2)) (tm_mday (to_tm now2))"
proof -
  obtain u ok where u: "mission_end mroot recs now1 v = (u, ok)" by fastforce
  then have ok: ok using end_effect(1) [OF u] assms by simp
  note e = end_effect(3) [OF u ok]
  obtain z ok2 where z: "mission_start mroot ls x now2 (me_by (vm_cur v)) (me_op (vm_cur v)) u = (z, ok2)" by fastforce
  then have "ok2" using mission_start_ok [OF z] e by simp
  then have z: "mission_start mroot ls x now2 (me_by (vm_cur v)) (me_op (vm_cur v)) u = (z, True)" using z by simp
  have r: "mission_rollover_utc0 mroot ls x recs now1 now2 v = z" using assms by (simp add: mission_rollover_utc0_def u z)
  show "vm_state (mission_rollover_utc0 mroot ls x recs now1 now2 v) = ACTIVE"
    "vm_history (mission_rollover_utc0 mroot ls x recs now1 now2 v) = vm_history v @ [(vm_cur v)\<lparr> me_end := int now1, me_rollover := 0 \<rparr>]"
    "me_start (vm_cur (mission_rollover_utc0 mroot ls x recs now1 now2 v)) = int now2"
    "me_code (vm_cur (mission_rollover_utc0 mroot ls x recs now1 now2 v)) = make_code (tm_mon (to_tm now2)) (tm_mday (to_tm now2))"
    unfolding r using start_effect(1) [OF z] e by simp_all
qed

text \<open>What one turn does while a mission runs.\<close>

lemma tick_effect:
  assumes a: "vm_state v = ACTIVE" "day_of (vm_cur v) = last_day w" and c: "one_day c" and t: "utc0_tick mroot ls x recs c (w, v) = (w', v')"
  shows "vm_state v' = ACTIVE" "last_day w' = int (kst_day_id (fst c))" "day_of (vm_cur v') = last_day w'"
    "last_day w' = last_day w \<and> vm_history v' = vm_history v \<and> vm_cur v' = vm_cur v \<or>
     last_day w' \<noteq> last_day w \<and> vm_history v' = vm_history v @ [(vm_cur v)\<lparr> me_end := int (fst (snd c)), me_rollover := 0 \<rparr>]"
proof -
  obtain now n1 n2 where k: "c = (now, n1, n2)" by (cases c) auto
  have d: "kst_day_id n2 = kst_day_id now" using c by (simp add: one_day_def k)
  show "vm_state v' = ACTIVE" "last_day w' = int (kst_day_id (fst c))" "day_of (vm_cur v') = last_day w'"
    "last_day w' = last_day w \<and> vm_history v' = vm_history v \<and> vm_cur v' = vm_cur v \<or>
     last_day w' \<noteq> last_day w \<and> vm_history v' = vm_history v @ [(vm_cur v)\<lparr> me_end := int (fst (snd c)), me_rollover := 0 \<rparr>]"
    using t a d rollover_effect [OF a(1), of mroot ls x recs n1 n2] unfolding utc0_tick_def k prod.case Let_def
    by (auto simp: day_of_def split: if_splits)
qed

text \<open>
  C34: there is exactly one mission for each day.  Let a mission run that was started on the day the
  worker dealt with last, and let the worker turn at any times whatever, with pauses of
  any length.  Then a mission still runs, it was started on the day of the last turn, and the days
  on which the missions since then were started, the ended ones of the history and the
  running one, are the days of the turns, each sequence of turns on the same day counted once.
\<close>

theorem one_mission_per_day:
  assumes "vm_state v = ACTIVE" "day_of (vm_cur v) = last_day w" "list_all one_day clocks"
    and "utc0_ticks mroot ls x recs clocks (w, v) = (w', v')"
  shows "vm_state v' = ACTIVE \<and> day_of (vm_cur v') = last_day w' \<and> prefix (vm_history v) (vm_history v') \<and>
    map day_of (drop (length (vm_history v)) (vm_history v') @ [vm_cur v']) =
      remdups_adj (last_day w # map (\<lambda>c. int (kst_day_id (fst c))) clocks)"
  using assms
proof (induction clocks arbitrary: w v)
  case Nil
  then show ?case by (simp add: utc0_ticks_def)
next
  case (Cons c cs)
  obtain w1 v1 where t: "utc0_tick mroot ls x recs c (w, v) = (w1, v1)" by fastforce
  have c: "one_day c" "list_all one_day cs" using Cons.prems(3) by simp_all
  note e = tick_effect [OF Cons.prems(1,2) c(1) t]
  have r: "utc0_ticks mroot ls x recs cs (w1, v1) = (w', v')" using Cons.prems(4) by (simp add: utc0_ticks_def t)
  note ih = Cons.IH [OF e(1,3) c(2) r]
  show ?case
  proof (cases "last_day w1 = last_day w")
    case True
    then have "vm_history v1 = vm_history v" "vm_cur v1 = vm_cur v" using e(4) by auto
    then show ?thesis using ih True e(2) by (elim conjE) simp
  next
    case False
    define q where "q = (vm_cur v)\<lparr> me_end := int (fst (snd c)), me_rollover := 0 \<rparr>"
    have h: "vm_history v1 = vm_history v @ [q]" using e(4) False by (auto simp: q_def)
    obtain zs where zs: "vm_history v' = (vm_history v @ [q]) @ zs" using ih h by (auto simp: prefix_def)
    have "day_of q = last_day w" using Cons.prems(2) by (simp add: q_def day_of_def)
    then show ?thesis using ih False e(2) unfolding h zs by (elim conjE) simp
  qed
qed

lemma second_day: "kst_day_id 0 \<noteq> kst_day_id 86400"
  unfolding kst_day_id_eq by (simp add: OFFSET_SEC_def)

theorem one_mission_per_day_witness:
  "\<exists>w v w' v'. vm_state v = ACTIVE \<and>
     utc0_ticks ''/m'' (\<lambda>_. []) example_ctx (False, []) [(0, 0, 0), (86400, 86400, 86400), (86400, 86400, 86400)] (w, v) = (w', v') \<and>
     length (drop (length (vm_history v)) (vm_history v')) = 1 \<and> day_of (vm_cur v') = int (kst_day_id 86400)"
proof -
  let ?ls = "\<lambda>_. [] :: string list"
  obtain v ok where s: "mission_start ''/m'' ?ls example_ctx 0 [] 0 example_viewer = (v, ok)" by fastforce
  then have ok: ok using mission_start_ok [OF s] by (simp add: example_viewer_def)
  then have s: "mission_start ''/m'' ?ls example_ctx 0 [] 0 example_viewer = (v, True)" using s by simp
  define w where "w = \<lparr> last_day = int (kst_day_id 0), last_hour = 0 \<rparr>"
  have a: "vm_state v = ACTIVE" "day_of (vm_cur v) = last_day w" using start_effect(1) [OF s] by (simp_all add: day_of_def w_def)
  let ?cs = "[(0, 0, 0), (86400, 86400, 86400), (86400, 86400, 86400)] :: (nat \<times> nat \<times> nat) list"
  obtain w' v' where t: "utc0_ticks ''/m'' ?ls example_ctx (False, []) ?cs (w, v) = (w', v')" by fastforce
  have o1: "list_all one_day ?cs" by (simp add: one_day_def)
  from one_mission_per_day [OF a o1 t]
  have m: "map day_of (drop (length (vm_history v)) (vm_history v') @ [vm_cur v']) = [int (kst_day_id 0), int (kst_day_id 86400)]"
    using second_day by (simp add: w_def)
  from arg_cong [OF m, of length] have l: "length (drop (length (vm_history v)) (vm_history v')) = 1" by simp
  from arg_cong [OF m, of last] have "day_of (vm_cur v') = int (kst_day_id 86400)" by simp
  then show ?thesis by (intro exI conjI) (rule a(1), rule t, rule l)
qed

end
