(* ===== verification/MissionStore.thy ===== *)
theory MissionStore
  imports MissionRuns
begin

text \<open>What is written to \<^verbatim>\<open>missions.json\<close> is read back at the next start of the program.\<close>

section \<open>Texts\<close>

definition printable :: "nat \<Rightarrow> string \<Rightarrow> bool" where
  "printable n s \<longleftrightarrow> length s < n \<and> list_all (\<lambda>c. 0x20 \<le> (of_char c :: nat)) s"

lemma quot_code: "(of_char quot :: nat) = 34" "(of_char bsl :: nat) = 92" "bsl \<noteq> quot"
  by simp_all

lemma mj_chars_escape: "list_all (\<lambda>c. 0x20 \<le> (of_char c :: nat)) s \<Longrightarrow> mj_chars (mj_escape s @ quot # r) = (s, quot # r)"
proof (induction s)
  case (Cons c s)
  then have ih: "mj_chars (mj_escape s @ quot # r) = (s, quot # r)" by simp
  have "c \<noteq> nl" "c \<noteq> CHR 0x0D" "\<not> (of_char c :: nat) < 0x20" using Cons.prems by auto
  then show ?case using ih by auto
qed simp

lemma escape_chars: "list_all (\<lambda>c. 0x20 \<le> (of_char c :: nat)) s \<Longrightarrow> list_all (\<lambda>c. c \<noteq> CHR 0x00) (mj_escape s)"
  by (induction s) auto

definition simple_key :: "string \<Rightarrow> bool" where
  "simple_key k \<longleftrightarrow> length k < 32 \<and> list_all (\<lambda>c. c \<noteq> quot \<and> c \<noteq> bsl \<and> c \<noteq> CHR 0x00) k"

lemma mj_chars_key: "list_all (\<lambda>c. c \<noteq> quot \<and> c \<noteq> bsl \<and> c \<noteq> CHR 0x00) k \<Longrightarrow> mj_chars (k @ quot # r) = (k, quot # r)"
  by (induction k) auto

lemma c_text_overwrite: "list_all (\<lambda>c. c \<noteq> CHR 0x00) s \<Longrightarrow> c_text (overwrite (s @ [CHR 0x00]) b) = s"
  by (simp add: c_text_def overwrite_def takeWhile_digits)

lemma parse_key:
  assumes "simple_key k"
  shows "\<exists>b. mj_parse_str (quoted k @ r) 32 dst = (True, b, r) \<and> c_text b = k"
proof -
  have "list_all (\<lambda>c. c \<noteq> CHR 0x00) k" using assms by (auto simp: simple_key_def list_all_iff)
  then show ?thesis using assms mj_chars_key [of k r] c_text_overwrite [of k dst]
    by (simp add: mj_parse_str_def quoted_def Let_def simple_key_def)
qed

text \<open>One turn of the loop over the members.\<close>

lemma members_step:
  assumes p: "p \<noteq> []" "hd p \<noteq> CHR ''}''" "dropWhile mj_sep p = quoted k @ CHR '':'' # q" and k: "simple_key k"
    and v: "mj_value k (dropWhile (\<lambda>c. c = CHR '' '' \<or> c = tab) q) tmp e = (p', tmp', e')"
  shows "mj_members p tmp e = mj_members (dropWhile (\<lambda>c. c = CHR '' '' \<or> c = tab \<or> c = nl) p') tmp' e'"
proof -
  obtain b where b: "mj_parse_str (quoted k @ CHR '':'' # q) 32 (replicate 32 CHR 0x00) = (True, b, CHR '':'' # q)" "c_text b = k"
    using parse_key [OF k] by blast
  have n: "\<not> (quoted k @ CHR '':'' # q \<noteq> [] \<and> hd (quoted k @ CHR '':'' # q) = CHR ''}'')" by (simp add: quoted_def)
  show ?thesis
    by (subst mj_members.simps) (simp only: p(1,2) simp_thms if_False Let_def p(3) n b prod.case bool.case
      dropWhile.simps list.case v not_True_eq_False if_True refl)
qed

section \<open>Values\<close>

lemma value_text:
  assumes "printable 256 s"
  shows "\<exists>tmp'. mj_value k (quot # mj_escape s @ quot # r) tmp e = (r, tmp', set_text k s e)"
proof -
  have l: "list_all (\<lambda>c. 0x20 \<le> (of_char c :: nat)) s" "length s < 256" using assms by (simp_all add: printable_def)
  then have "list_all (\<lambda>c. c \<noteq> CHR 0x00) s" by (auto simp: list_all_iff)
  then show ?thesis using l mj_chars_escape [OF l(1), of r] c_text_overwrite [of s]
    by (simp add: mj_value_def mj_parse_str_def Let_def)
qed

lemma digits_split: "list_all is_digit ds \<Longrightarrow> r = [] \<or> \<not> is_digit (hd r) \<Longrightarrow>
    takeWhile is_digit (ds @ r) = ds \<and> dropWhile is_digit (ds @ r) = r"
  by (induction ds) (cases r; auto)+

lemma dec_hd: "\<exists>c r. dec_str n = c # r \<and> is_digit c \<and> c \<noteq> CHR ''-'' \<and> c \<noteq> CHR ''+'' \<and> c \<noteq> quot"
proof -
  obtain c r where s: "dec_str n = c # r" by (cases "dec_str n") simp_all
  then have "is_digit c" using dec_str_digits [of n] by simp
  then show ?thesis using s by (auto simp: is_digit_def)
qed

lemma strtoll_text:
  assumes "- (2 ^ 63) \<le> n" "n < 2 ^ 63" "r = [] \<or> \<not> is_digit (hd r)"
  shows "strtoll (int_text n @ r) = (n, r)"
proof (cases "n < 0")
  case True
  then show ?thesis using assms digits_split [OF dec_str_digits assms(3)]
    by (simp add: strtoll_def int_text_def take_sign_def digit_sum_dec Let_def)
next
  case False
  obtain c q where c: "dec_str (nat n) = c # q" "c \<noteq> CHR ''-''" "c \<noteq> CHR ''+''" using dec_hd by blast
  then have "take_sign (dec_str (nat n) @ r) = (False, dec_str (nat n) @ r)" by (simp add: take_sign_def)
  then show ?thesis using False assms digits_split [OF dec_str_digits assms(3)]
    by (simp add: strtoll_def int_text_def digit_sum_dec Let_def)
qed

lemma value_number:
  assumes "- (2 ^ 63) \<le> n" "n < 2 ^ 63" "r = [] \<or> \<not> is_digit (hd r)" "k \<noteq> ''lat''" "k \<noteq> ''lon''"
  shows "mj_value k (int_text n @ r) tmp e = (r, tmp, set_number k n e)"
proof -
  obtain c q where c: "dec_str (nat \<bar>n\<bar>) = c # q" "is_digit c" "c \<noteq> quot" using dec_hd by blast
  obtain d s where d: "int_text n @ r = d # s" "d \<noteq> quot" "is_digit d \<or> d = CHR ''-''"
    using c by (cases "n < 0") (auto simp: int_text_def)
  show ?thesis using d(2,3) strtoll_text [OF assms(1-3)] assms(4,5) unfolding mj_value_def d(1) by auto
qed

text \<open>A coordinate is a number whose text is not long.\<close>

definition coordinate :: "u32 \<Rightarrow> bool" where
  "coordinate w \<longleftrightarrow> unat w div 2 ^ 23 mod 256 \<noteq> 255 \<and> length (f32_text w) \<le> 20"

definition reread :: "u32 \<Rightarrow> u32" where "reread w = fst (strtod (f32_text w))"

lemma pad_digits: "list_all is_digit (pad_zeros k (dec_str n))"
  using dec_str_digits [of n] by (auto simp: pad_zeros_def list_all_iff is_digit_def)

lemma f32_text_form:
  assumes "coordinate w"
  obtains s ds fs where "f32_text w = s @ ds @ ''.'' @ fs" "s = [] \<or> s = ''-''" "list_all is_digit ds" "ds \<noteq> []" "list_all is_digit fs"
proof -
  let ?n = "unat w"
  define e where "e = ?n div 2 ^ 23 mod 256"
  define q where "q = round_half_even (if e = 0 then (?n mod 2 ^ 23) * 2 * 10 ^ 6 else (?n mod 2 ^ 23 + 2 ^ 23) * 2 ^ e * 10 ^ 6) (2 ^ 150)"
  have "f32_text w = (if ?n \<ge> 2 ^ 31 then ''-'' else []) @ dec_str (q div 10 ^ 6) @ ''.'' @ pad_zeros 6 (dec_str (q mod 10 ^ 6))"
    using assms unfolding f32_text_def Let_def coordinate_def e_def [symmetric] q_def [symmetric] by simp
  then show thesis
    by (rule that) (simp_all add: pad_digits dec_str_digits)
qed

lemma strtod_text:
  assumes "coordinate w" "r = [] \<or> hd r = CHR '','' \<or> hd r = CHR ''}''"
  shows "strtod (f32_text w @ r) = (reread w, r)"
proof -
  obtain s ds fs where f: "f32_text w = s @ ds @ ''.'' @ fs" "s = [] \<or> s = ''-''" "list_all is_digit ds" "ds \<noteq> []" "list_all is_digit fs"
    by (rule f32_text_form [OF assms(1)])
  obtain c cs where c: "ds = c # cs" using f(4) by (cases ds) simp_all
  then have "c \<noteq> CHR ''-''" "c \<noteq> CHR ''+''" using f(3) by (auto simp: is_digit_def)
  then have sg: "take_sign ((s @ ds @ ''.'' @ fs) @ x) = (s = ''-'', ds @ CHR ''.'' # fs @ x)" for x
    using f(2) c by (auto simp: take_sign_def)
  have dd: "takeWhile is_digit (ds @ CHR ''.'' # y) = ds" "dropWhile is_digit (ds @ CHR ''.'' # y) = CHR ''.'' # y" for y
    using digits_split [OF f(3), of "CHR ''.'' # y"] by (simp_all add: is_digit_def)
  have ff: "takeWhile is_digit (fs @ x) = fs" "dropWhile is_digit (fs @ x) = x" "take_exponent x = (0, x)"
    if "x = [] \<or> hd x = CHR '','' \<or> hd x = CHR ''}''" for x
    using digits_split [OF f(5), of x] that by (auto simp: is_digit_def take_exponent_def)
  define v where "v = (if s = ''-'' then 0x80000000 else 0) OR
    f32_near (nat (digit_sum (ds @ fs)) * 10 ^ nat (0 - int (length fs))) (10 ^ nat (- (0 - int (length fs))))"
  have st: "strtod ((s @ ds @ ''.'' @ fs) @ x) = (v, x)" if "x = [] \<or> hd x = CHR '','' \<or> hd x = CHR ''}''" for x
  proof -
    have pt: "\<not> is_digit CHR ''.''" by (simp add: is_digit_def)
    show ?thesis unfolding strtod_def sg using f(4) by (simp add: Let_def dd ff [OF that] v_def pt)
  qed
  then have "strtod (f32_text w) = (v, [])" using st [of "[]"] f(1) by simp
  then show ?thesis using st [OF assms(2)] f(1) by (simp add: reread_def)
qed

lemma value_coordinate:
  assumes "coordinate w" "r = [] \<or> hd r = CHR '','' \<or> hd r = CHR ''}''"
  shows "mj_value ''lat'' (f32_text w @ r) tmp e = (r, tmp, e\<lparr> me_lat := reread w \<rparr>)"
    "mj_value ''lon'' (f32_text w @ r) tmp e = (r, tmp, e\<lparr> me_lon := reread w \<rparr>)"
proof -
  obtain s ds fs where f: "f32_text w = s @ ds @ ''.'' @ fs" "s = [] \<or> s = ''-''" "list_all is_digit ds" "ds \<noteq> []" "list_all is_digit fs"
    by (rule f32_text_form [OF assms(1)])
  then obtain d t where d: "f32_text w @ r = d # t" "is_digit d \<or> d = CHR ''-''"
    by (cases ds) (auto simp del: append_assoc)
  then have q: "d \<noteq> quot" by (auto simp: is_digit_def)
  show "mj_value ''lat'' (f32_text w @ r) tmp e = (r, tmp, e\<lparr> me_lat := reread w \<rparr>)"
    "mj_value ''lon'' (f32_text w @ r) tmp e = (r, tmp, e\<lparr> me_lon := reread w \<rparr>)"
    using strtod_text [OF assms] d(2) q unfolding mj_value_def d(1) by auto
qed

section \<open>Objects\<close>

text \<open>
  A member as text: key, value, and what reading it does; \<^verbatim>\<open>join\<close> is the text of several.
\<close>

type_synonym member = "string \<times> string \<times> (mission_entry \<Rightarrow> mission_entry)"

definition member_ok :: "member \<Rightarrow> bool" where
  "member_ok m \<longleftrightarrow> (case m of (k, s, f) \<Rightarrow> simple_key k \<and> s \<noteq> [] \<and> hd s \<noteq> CHR '' '' \<and> hd s \<noteq> tab \<and>
     (\<forall>tmp e r. hd r = CHR '','' \<or> hd r = CHR ''}'' \<longrightarrow> r \<noteq> [] \<longrightarrow> (\<exists>tmp'. mj_value k (s @ r) tmp e = (r, tmp', f e))))"

fun join :: "member list \<Rightarrow> string" where
  "join [] = []"
| "join [(k, s, f)] = quoted k @ CHR '':'' # s"
| "join ((k, s, f) # m # ms) = quoted k @ CHR '':'' # s @ CHR '','' # join (m # ms)"

definition effect :: "member list \<Rightarrow> mission_entry \<Rightarrow> mission_entry" where
  "effect ms e = fold (\<lambda>(k, s, f). f) ms e"

lemma join_head: "ms \<noteq> [] \<Longrightarrow> \<exists>r. join ms = quot # r"
  by (cases ms rule: join.cases) (auto simp: quoted_def)

lemma members_join:
  "list_all member_ok ms \<Longrightarrow> ms \<noteq> [] \<Longrightarrow> p = join ms @ CHR ''}'' # r \<or> p = CHR '','' # join ms @ CHR ''}'' # r \<Longrightarrow>
     mj_members p tmp e = (effect ms e, CHR ''}'' # r)"
proof (induction ms arbitrary: p tmp e)
  case (Cons m ms)
  obtain k s f where m: "m = (k, s, f)" by (cases m)
  have ok: "simple_key k" "s \<noteq> []" "hd s \<noteq> CHR '' ''" "hd s \<noteq> tab"
    "\<And>tmp e r. hd r = CHR '','' \<or> hd r = CHR ''}'' \<Longrightarrow> r \<noteq> [] \<Longrightarrow> \<exists>tmp'. mj_value k (s @ r) tmp e = (r, tmp', f e)"
    using Cons.prems(1) by (auto simp: member_ok_def m)
  define z where "z = (if ms = [] then [] else CHR '','' # join ms) @ CHR ''}'' # r"
  have j: "join (m # ms) @ CHR ''}'' # r = quoted k @ CHR '':'' # s @ z"
    by (cases ms) (simp_all add: m z_def)
  have sep: "mj_sep CHR '',''" "\<not> mj_sep quot" by (simp_all add: mj_sep_def)
  have p: "p \<noteq> []" "hd p \<noteq> CHR ''}''" "dropWhile mj_sep p = quoted k @ CHR '':'' # s @ z"
    using Cons.prems(3) sep unfolding j by (auto simp: quoted_def)
  have zh: "hd z = CHR '','' \<or> hd z = CHR ''}''" "z \<noteq> []" by (simp_all add: z_def)
  have b: "dropWhile (\<lambda>c. c = CHR '' '' \<or> c = tab) (s @ z) = s @ z" using ok(2-4) by (cases s) simp_all
  obtain tmp' where v: "mj_value k (s @ z) tmp e = (z, tmp', f e)" using ok(5) [OF zh] by blast
  have st: "mj_members p tmp e = mj_members (dropWhile (\<lambda>c. c = CHR '' '' \<or> c = tab \<or> c = nl) z) tmp' (f e)"
    by (rule members_step [OF p ok(1)]) (simp add: b v)
  have dz: "dropWhile (\<lambda>c. c = CHR '' '' \<or> c = tab \<or> c = nl) z = z" using zh by (cases z) auto
  show ?case
  proof (cases "ms = []")
    case True
    then show ?thesis unfolding st dz by (subst mj_members.simps) (simp add: z_def effect_def m)
  next
    case False
    have "mj_members z tmp' (f e) = (effect ms (f e), CHR ''}'' # r)"
      using Cons.prems(1) False by (intro Cons.IH) (simp_all add: z_def)
    then show ?thesis unfolding st dz by (simp add: effect_def m)
  qed
qed simp

lemma text_member: "printable 256 s \<Longrightarrow> simple_key k \<Longrightarrow> member_ok (k, quot # mj_escape s @ [quot], set_text k s)"
  using value_text [of s k] by (auto simp: member_ok_def)

lemma number_member:
  assumes "- (2 ^ 63) \<le> n" "n < 2 ^ 63" "simple_key k" "k \<noteq> ''lat''" "k \<noteq> ''lon''"
  shows "member_ok (k, int_text n, set_number k n)"
proof -
  obtain c q where c: "dec_str (nat \<bar>n\<bar>) = c # q" "is_digit c" using dec_hd by blast
  then have t: "int_text n \<noteq> []" "hd (int_text n) \<noteq> CHR '' ''" "hd (int_text n) \<noteq> tab"
    by (cases "n < 0"; auto simp: int_text_def is_digit_def)+
  have "\<not> is_digit CHR '',''" "\<not> is_digit CHR ''}''" by (simp_all add: is_digit_def)
  then have "mj_value k (int_text n @ r) tmp e = (r, tmp, set_number k n e)" if "hd r = CHR '','' \<or> hd r = CHR ''}''" for r tmp e
    using that assms by (intro value_number) auto
  then show ?thesis using assms(3) t by (auto simp: member_ok_def)
qed

lemma coordinate_member:
  assumes "coordinate w"
  shows "member_ok (''lat'', f32_text w, (\<lambda>e. e\<lparr> me_lat := reread w \<rparr>))" "member_ok (''lon'', f32_text w, (\<lambda>e. e\<lparr> me_lon := reread w \<rparr>))"
proof -
  obtain s ds fs where f: "f32_text w = s @ ds @ ''.'' @ fs" "s = [] \<or> s = ''-''" "list_all is_digit ds" "ds \<noteq> []" "list_all is_digit fs"
    by (rule f32_text_form [OF assms])
  then have t: "f32_text w \<noteq> []" "hd (f32_text w) \<noteq> CHR '' ''" "hd (f32_text w) \<noteq> tab"
    by (cases ds; auto simp: is_digit_def)+
  have k: "simple_key ''lat''" "simple_key ''lon''" by (simp_all add: simple_key_def)
  show "member_ok (''lat'', f32_text w, (\<lambda>e. e\<lparr> me_lat := reread w \<rparr>))" "member_ok (''lon'', f32_text w, (\<lambda>e. e\<lparr> me_lon := reread w \<rparr>))"
    using t k value_coordinate [OF assms] unfolding member_ok_def prod.case by blast+
qed

section \<open>Entries\<close>

text \<open>
  Entries that the file can hold: texts that fit their buffers and have no control characters, a year
  of four digits, times that are not negative, and coordinates.
\<close>

definition storable :: "mission_entry \<Rightarrow> bool" where
  "storable e \<longleftrightarrow> printable 8 (me_code e) \<and> printable 32 (me_by e) \<and> printable 64 (me_station e) \<and> printable 32 (me_host e) \<and>
     printable 24 (me_sdr e) \<and> printable 64 (me_antenna e) \<and> 0 \<le> me_year e \<and> me_year e < 10000 \<and>
     0 \<le> me_start e \<and> me_start e < 2 ^ 63 \<and> 0 \<le> me_end e \<and> me_end e < 2 ^ 63 \<and> coordinate (me_lat e) \<and> coordinate (me_lon e)"

definition rounded :: "mission_entry \<Rightarrow> mission_entry" where
  "rounded e = e\<lparr> me_lat := reread (me_lat e), me_lon := reread (me_lon e) \<rparr>"

definition text_value :: "string \<Rightarrow> string \<Rightarrow> member" where
  "text_value k s = (k, quot # mj_escape s @ [quot], set_text k s)"

definition number_value :: "string \<Rightarrow> int \<Rightarrow> member" where
  "number_value k n = (k, int_text n, set_number k n)"

definition members_of :: "u8 \<Rightarrow> mission_entry \<Rightarrow> member list" where
  "members_of st e =
     [number_value ''state'' (uint st), number_value ''op_index'' (uint (me_op e)), number_value ''rollover'' (uint (me_rollover e)),
      number_value ''year'' (me_year e), text_value ''code'' (me_code e), number_value ''start_utc'' (me_start e),
      number_value ''end_utc'' (me_end e), (''lat'', f32_text (me_lat e), (\<lambda>x. x\<lparr> me_lat := reread (me_lat e) \<rparr>)),
      (''lon'', f32_text (me_lon e), (\<lambda>x. x\<lparr> me_lon := reread (me_lon e) \<rparr>)), text_value ''started_by'' (me_by e),
      text_value ''station_name'' (me_station e), text_value ''host_name'' (me_host e), text_value ''sdr_kind'' (me_sdr e),
      text_value ''antenna'' (me_antenna e)]"

lemma uint_64: "uint (b :: u8) < 2 ^ 63"
proof -
  have "uint b < 2 ^ 8" using uint_lt2p [of b] by simp
  then show ?thesis by simp
qed

lemma members_ok:
  assumes "storable e"
  shows "list_all member_ok (members_of st e)"
proof -
  have ts: "printable 256 (me_code e)" "printable 256 (me_by e)" "printable 256 (me_station e)" "printable 256 (me_host e)"
    "printable 256 (me_sdr e)" "printable 256 (me_antenna e)"
    using assms by (simp_all add: storable_def printable_def)
  have t: "member_ok (text_value k s)" if "printable 256 s" "simple_key k" for s k
    unfolding text_value_def using that by (rule text_member)
  have n: "member_ok (number_value k n)" if "0 \<le> n" "n < 2 ^ 63" "simple_key k" "k \<noteq> ''lat''" "k \<noteq> ''lon''" for n k
    unfolding number_value_def using that by (intro number_member) auto
  have c: "coordinate (me_lat e)" "coordinate (me_lon e)" and
    m: "0 \<le> me_year e" "me_year e < 2 ^ 63" "0 \<le> me_start e" "me_start e < 2 ^ 63" "0 \<le> me_end e" "me_end e < 2 ^ 63"
    using assms by (simp_all add: storable_def)
  show ?thesis unfolding members_of_def list.pred_inject
    by (intro conjI n t ts m coordinate_member [OF c(1)] coordinate_member [OF c(2)] uint_64 uint_ge_0 TrueI) (simp_all add: simple_key_def)
qed

lemma dec_length: "n < 10 ^ k \<Longrightarrow> 0 < k \<Longrightarrow> length (dec_str n) \<le> k"
proof (induction k arbitrary: n)
  case (Suc k)
  show ?case
  proof (cases "n < 10")
    case True
    then show ?thesis by (subst dec_str.simps) simp
  next
    case False
    then have "0 < k" using Suc.prems by (cases k) auto
    moreover have "n div 10 < 10 ^ k" using Suc.prems by (simp add: div_less_iff_less_mult mult.commute)
    ultimately have "length (dec_str (n div 10)) \<le> k" by (intro Suc.IH)
    then show ?thesis using False by (subst dec_str.simps) simp
  qed
qed simp

lemma int_length: "0 \<le> n \<Longrightarrow> n < 10 ^ k \<Longrightarrow> 0 < k \<Longrightarrow> length (int_text n) \<le> k"
proof -
  assume n: "0 \<le> n" "n < 10 ^ k" "0 < k"
  then have "nat n < 10 ^ k" by (simp add: nat_less_iff)
  then show ?thesis using n dec_length by (simp add: int_text_def)
qed

lemma u8_text: "dec_str (unat b) = int_text (uint (b :: u8))" "length (int_text (uint b)) \<le> 3"
proof -
  show "dec_str (unat b) = int_text (uint b)" by (simp add: int_text_def)
  have "uint b < 2 ^ 8" using uint_lt2p [of b] by simp
  then show "length (int_text (uint b)) \<le> 3" by (intro int_length) simp_all
qed

lemma entry_text:
  assumes "storable e"
  shows "mj_entry_write st e = CHR ''{'' # join (members_of st e) @ ''}''"
proof -
  have l: "length (int_text (me_year e)) \<le> 4" "length (int_text (me_start e)) \<le> 19" "length (int_text (me_end e)) \<le> 19"
    "length (f32_text (me_lat e)) \<le> 20" "length (f32_text (me_lon e)) \<le> 20"
    using assms by (auto simp: storable_def coordinate_def intro!: int_length)
  note u = u8_text(2) [of st] u8_text(2) [of "me_op e"] u8_text(2) [of "me_rollover e"]
  have one: "take 159 (''{'' @ quoted ''state'' @ '':'' @ dec_str (unat st) @ '','' @ quoted ''op_index'' @ '':'' @ dec_str (unat (me_op e)) @
        '','' @ quoted ''rollover'' @ '':'' @ dec_str (unat (me_rollover e)) @ '','' @ quoted ''year'' @ '':'' @ int_text (me_year e) @
        '','' @ quoted ''code'' @ '':'' @ [quot]) =
      ''{'' @ quoted ''state'' @ '':'' @ dec_str (unat st) @ '','' @ quoted ''op_index'' @ '':'' @ dec_str (unat (me_op e)) @
        '','' @ quoted ''rollover'' @ '':'' @ dec_str (unat (me_rollover e)) @ '','' @ quoted ''year'' @ '':'' @ int_text (me_year e) @
        '','' @ quoted ''code'' @ '':'' @ [quot]"
    by (rule take_all) (use l(1) u in \<open>simp add: u8_text(1) quoted_def\<close>)
  have two: "take 159 ([quot] @ '','' @ quoted ''start_utc'' @ '':'' @ int_text (me_start e) @ '','' @ quoted ''end_utc'' @ '':'' @
        int_text (me_end e) @ '','' @ quoted ''lat'' @ '':'' @ f32_text (me_lat e) @ '','' @ quoted ''lon'' @ '':'' @
        f32_text (me_lon e) @ '','') =
      [quot] @ '','' @ quoted ''start_utc'' @ '':'' @ int_text (me_start e) @ '','' @ quoted ''end_utc'' @ '':'' @
        int_text (me_end e) @ '','' @ quoted ''lat'' @ '':'' @ f32_text (me_lat e) @ '','' @ quoted ''lon'' @ '':'' @
        f32_text (me_lon e) @ '',''"
    by (rule take_all) (use l in \<open>simp add: quoted_def\<close>)
  show ?thesis unfolding mj_entry_write_def one two
    by (simp add: members_of_def number_value_def text_value_def u8_text(1) quoted_def)
qed

lemma sint_year: "0 \<le> y \<Longrightarrow> y < 10000 \<Longrightarrow> sint (word_of_int y :: 32 word) = y"
  by (simp add: sint_sbintrunc' signed_take_bit_int_eq_self)

lemma entry_effect:
  assumes "storable e"
  shows "effect (members_of st e) no_mission = rounded e"
  using assms sint_year [of "me_year e"]
  by (simp add: effect_def members_of_def number_value_def text_value_def set_number_def set_text_def rounded_def storable_def
      printable_def no_mission_def)

lemma entry_read:
  assumes "storable e"
  shows "mj_members (tl (mj_entry_write st e) @ r) junk no_mission = (rounded e, CHR ''}'' # r)"
proof -
  have "members_of st e \<noteq> []" by (simp add: members_of_def)
  from members_join [OF members_ok [OF assms] this disjI1 [OF refl]]
  show ?thesis by (simp add: entry_text [OF assms] entry_effect [OF assms])
qed

section \<open>The list\<close>

lemma objects_one:
  assumes "dropWhile mj_sep p = CHR ''{'' # q" "mj_members q junk no_mission = (e, CHR ''}'' # r)"
  shows "mj_objects junk now p = mj_close now e # mj_objects junk now r"
  by (subst mj_objects.simps) (simp add: assms Let_def)

lemma objects_end: "dropWhile mj_sep p = CHR '']'' # q \<Longrightarrow> mj_objects junk now p = []"
  by (subst mj_objects.simps) simp

text \<open>Each entry with the number of its state.\<close>

lemma objects_list:
  assumes "\<forall>(st, e)\<in>set xs. storable e" "p = mj_entries (map (\<lambda>(st, e). mj_entry_write st e) xs) @ eol @ ''  ]'' @ z \<or>
     p = '','' @ eol @ mj_entries (map (\<lambda>(st, e). mj_entry_write st e) xs) @ eol @ ''  ]'' @ z \<and> xs \<noteq> [] \<or>
     p = eol @ mj_entries (map (\<lambda>(st, e). mj_entry_write st e) xs) @ eol @ ''  ]'' @ z"
  shows "mj_objects junk now p = map (\<lambda>(st, e). mj_close now (rounded e)) xs"
  using assms
proof (induction xs arbitrary: p)
  case Nil
  have "dropWhile mj_sep p = CHR '']'' # z" using Nil.prems(2) by (auto simp: mj_sep_def)
  then show ?case by (simp add: objects_end)
next
  case (Cons x xs)
  obtain st e where x: "x = (st, e)" by fastforce
  have se: "storable e" using Cons.prems(1) x by simp
  let ?t = "map (\<lambda>(st, e). mj_entry_write st e) xs"
  define r where "r = (if xs = [] then eol else '','' @ eol @ mj_entries ?t @ eol) @ ''  ]'' @ z"
  have j: "mj_entries (map (\<lambda>(st, e). mj_entry_write st e) (x # xs)) @ eol @ ''  ]'' @ z = ''    '' @ mj_entry_write st e @ r"
    by (cases xs) (simp_all add: x r_def)
  have sep: "mj_sep CHR '' ''" "mj_sep CHR '',''" "mj_sep nl" "\<not> mj_sep CHR ''{''" by (simp_all add: mj_sep_def)
  obtain w where w: "mj_entry_write st e = CHR ''{'' # w" using entry_text [OF se] by auto
  have "p = ''    '' @ mj_entry_write st e @ r \<or> p = '','' @ eol @ ''    '' @ mj_entry_write st e @ r \<or>
      p = eol @ ''    '' @ mj_entry_write st e @ r"
    using Cons.prems(2) unfolding j by blast
  then have d: "dropWhile mj_sep p = CHR ''{'' # w @ r" using sep w by auto
  have m: "mj_members (w @ r) junk no_mission = (rounded e, CHR ''}'' # r)" using entry_read [OF se, of st r junk] w by simp
  have "mj_objects junk now r = map (\<lambda>(st, e). mj_close now (rounded e)) xs"
  proof (cases "xs = []")
    case True
    have "dropWhile mj_sep r = CHR '']'' # z" using True by (simp add: r_def mj_sep_def)
    then show ?thesis using True by (simp add: objects_end)
  next
    case False
    then show ?thesis using Cons.prems(1) by (intro Cons.IH) (simp_all add: r_def)
  qed
  then show ?case using objects_one [OF d m] by (simp add: x)
qed

section \<open>The whole file\<close>

abbreviation nul_free :: "string \<Rightarrow> bool" where "nul_free s \<equiv> CHR 0x00 \<notin> set s"

lemma digits_nul: "list_all is_digit s \<Longrightarrow> nul_free s"
  by (auto simp: list_all_iff is_digit_def)

lemma int_nul: "nul_free (int_text n)"
  using digits_nul [OF dec_str_digits, of "nat n"] digits_nul [OF dec_str_digits, of "nat (- n)"] by (simp add: int_text_def)

lemma f32_nul: "coordinate w \<Longrightarrow> nul_free (f32_text w)"
proof -
  assume "coordinate w"
  then obtain s ds fs where f: "f32_text w = s @ ds @ ''.'' @ fs" "s = [] \<or> s = ''-''" "list_all is_digit ds" "ds \<noteq> []" "list_all is_digit fs"
    by (rule f32_text_form)
  then show ?thesis using digits_nul [OF f(3)] digits_nul [OF f(5)] by auto
qed

lemma escape_nul: "printable n s \<Longrightarrow> nul_free (mj_escape s)"
  using escape_chars [of s] by (auto simp: printable_def list_all_iff)

lemma entry_nul: "storable e \<Longrightarrow> nul_free (mj_entry_write st e)"
  using int_nul f32_nul escape_nul
  by (auto simp: entry_text members_of_def text_value_def number_value_def quoted_def storable_def)

lemma entries_nul: "\<forall>x\<in>set xs. nul_free x \<Longrightarrow> nul_free (mj_entries xs)"
  by (induction xs rule: mj_entries.induct) auto

definition written :: "mission_entry option \<Rightarrow> mission_entry list \<Rightarrow> mission_entry list" where
  "written cur hist = (case cur of None \<Rightarrow> [] | Some e \<Rightarrow> [e\<lparr> me_end := 0, me_rollover := 0 \<rparr>]) @ hist"

lemma load_written:
  assumes "\<forall>e\<in>set (written cur hist). storable e"
  shows "mj_load junk now (missions_json cur hist) = map (\<lambda>e. mj_close now (rounded e)) (written cur hist)"
proof -
  define xs where "xs = (case cur of None \<Rightarrow> [] | Some e \<Rightarrow> [(1 :: u8, e\<lparr> me_end := 0, me_rollover := 0 \<rparr>)]) @ map (Pair 0) hist"
  have w: "map snd xs = written cur hist" by (simp add: xs_def written_def comp_def split: option.split)
  have st: "\<forall>(st, e)\<in>set xs. storable e" using assms unfolding w [symmetric] by auto
  let ?t = "map (\<lambda>(st, e). mj_entry_write st e) xs"
  have m: "(case cur of None \<Rightarrow> [] | Some e \<Rightarrow> [mj_entry_write 1 (e\<lparr> me_end := 0, me_rollover := 0 \<rparr>)]) @ map (mj_entry_write 0) hist = ?t"
    by (simp add: xs_def comp_def split: option.split)
  let ?tail = "eol @ mj_entries ?t @ eol @ ''  ]'' @ eol @ ''}'' @ eol"
  have j: "missions_json cur hist = ''{'' @ eol @ ''  '' @ quoted ''version'' @ '': 1,'' @ eol @ ''  '' @ quoted ''missions'' @ '': ['' @ ?tail"
    unfolding missions_json_def m by simp
  have "nul_free (mj_entries ?t)" using st entry_nul by (intro entries_nul) auto
  then have "nul_free (missions_json cur hist)" unfolding j by (simp add: quoted_def)
  then have c: "c_text (missions_json cur hist) = missions_json cur hist" unfolding c_text_def takeWhile_eq_all_conv by auto
  have f: "find_from (quoted ''missions'') (missions_json cur hist) = Some (quoted ''missions'' @ '': ['' @ ?tail)"
    unfolding j by (simp add: quoted_def)
  have d: "dropWhile (\<lambda>c. c \<noteq> CHR ''['') (quoted ''missions'' @ '': ['' @ ?tail) = CHR ''['' # ?tail" by (simp add: quoted_def)
  have o: "mj_objects junk now ?tail = map (\<lambda>(st, e). mj_close now (rounded e)) xs"
    by (rule objects_list [OF st, where z = "eol @ ''}'' @ eol"]) simp
  show ?thesis unfolding mj_load_def c f option.case d list.case o w [symmetric] by (simp add: comp_def case_prod_beta)
qed


lemma zero_text: "f32_text 0 = ''0.000000''"
proof -
  have z: "dec_str 0 = ''0''" by code_simp
  have p: "pad_zeros 6 ''0'' = ''000000''" by code_simp
  show ?thesis by (simp add: f32_text_def round_half_even_def z p)
qed

lemma example_storable: "storable (example_mission\<lparr> me_by := [quot, bsl, CHR ''}''] \<rparr>)"
  by (simp add: storable_def example_mission_def printable_def coordinate_def zero_text)

lemma float_zero: "0 < d \<Longrightarrow> 1 < k \<Longrightarrow> float_near p b k 0 d = Some (0, 1)"
  by (simp add: float_near_def upt_conv_Cons round_half_even_def)

lemma reread_zero: "reread 0 = 0"
proof -
  have n: "f32_near 0 d = 0" if "0 < d" for d using that by (simp add: f32_near_def float_zero)
  have "strtod ''0.000000'' = (0, [])"
    by (simp add: strtod_def take_sign_def take_exponent_def is_digit_def digit_sum_def n)
  then show ?thesis by (simp add: reread_def zero_text)
qed


text \<open>
  A mission that was interrupted is not shown any more.  It is written in front of the history,
  so that after the restart it counts as the oldest mission.  If the history has 32 missions or
  more, the snapshot for the JOINs and the relay is the same as without it.
\<close>

theorem interrupted_mission_hidden:
  assumes "running v" "\<forall>e\<in>set (written (Some (vm_cur v)) (vm_history v)). storable e" "32 \<le> length (vm_history v)"
    and "vm_store b = vm_store (mission_save_meta_to_disk mroot v)" "b' = mission_load_history mroot junk now b"
  shows "hd (vm_history b') = mj_close now (rounded ((vm_cur v)\<lparr> me_end := 0, me_rollover := 0 \<rparr>)) \<and>
    length (vm_history b') = Suc (length (vm_history v)) \<and>
    mission_sync_body b' = mission_sync_body (b'\<lparr> vm_history := tl (vm_history b') \<rparr>)"
proof -
  have h: "vm_history b' = map (\<lambda>e. mj_close now (rounded e)) (written (Some (vm_cur v)) (vm_history v))"
    using load_written [OF assms(2), of junk now] assms(1) by (simp add: assms(5) mission_load_history_def assms(4) save_json)
  then obtain e es where es: "vm_history b' = e # es" "e = mj_close now (rounded ((vm_cur v)\<lparr> me_end := 0, me_rollover := 0 \<rparr>))"
    "length es = length (vm_history v)" by (simp add: written_def)
  have "take 32 (rev es @ [e]) = take 32 (rev es)" using es(3) assms(3) by simp
  then have "mission_sync_body b' = mission_sync_body (b'\<lparr> vm_history := tl (vm_history b') \<rparr>)"
    by (simp add: mission_sync_body_def running_def es(1))
  then show ?thesis using es by simp
qed

theorem interrupted_mission_hidden_witness:
  "\<exists>v b'. running v \<and> length (vm_history b') = 33 \<and> mission_sync_body b' = mission_sync_body (b'\<lparr> vm_history := tl (vm_history b') \<rparr>)"
proof -
  let ?e = "example_mission\<lparr> me_by := [quot, bsl, CHR ''}''] \<rparr>"
  let ?v = "example_viewer\<lparr> vm_state := ACTIVE, vm_cur := ?e, vm_history := replicate 32 ?e \<rparr>"
  have r: "running ?v" by (simp add: running_def example_mission_def)
  have "storable (?e\<lparr> me_end := 0, me_rollover := 0 \<rparr>)" using example_storable by (simp add: storable_def)
  then have s: "\<forall>e\<in>set (written (Some (vm_cur ?v)) (vm_history ?v)). storable e"
    using example_storable by (simp add: written_def)
  have l: "32 \<le> length (vm_history ?v)" by simp
  from interrupted_mission_hidden [OF r s l refl refl, of "''/m''" "[]" 9]
  show ?thesis using r by (intro exI [of _ ?v] exI [of _ "mission_load_history ''/m'' [] 9 (mission_save_meta_to_disk ''/m'' ?v)"]) simp
qed

end
