(* ===== verification/MissionSync.thy ===== *)
theory MissionSync
  imports MissionStore
begin

text \<open>The snapshot of the missions is what the JOINs and the relay take over.\<close>

section \<open>Entries\<close>

definition fits_text :: "nat \<Rightarrow> string \<Rightarrow> bool" where
  "fits_text n s \<longleftrightarrow> length s < n \<and> CHR 0x00 \<notin> set s"

text \<open>Entries that fit the fields of the packet.\<close>

definition fits_entry :: "mission_entry \<Rightarrow> bool" where
  "fits_entry e \<longleftrightarrow> 0 \<le> me_year e \<and> me_year e < 2 ^ 16 \<and> - (2 ^ 63) \<le> me_start e \<and> me_start e < 2 ^ 63 \<and>
     - (2 ^ 63) \<le> me_end e \<and> me_end e < 2 ^ 63 \<and> fits_text 8 (me_code e) \<and> fits_text 32 (me_by e) \<and> fits_text 64 (me_station e) \<and>
     fits_text 32 (me_host e) \<and> fits_text 24 (me_sdr e) \<and> fits_text 64 (me_antenna e)"

lemma text_back: "fits_text n s \<Longrightarrow> text_of n (str_buf n (bytes_of s) @ r) = s"
  by (intro text_of_str_buf) (simp_all add: fits_text_def)

lemma text_back_short: "fits_text (Suc n) s \<Longrightarrow> text_of n (str_buf (Suc n) (bytes_of s) @ r) = s"
proof -
  assume f: "fits_text (Suc n) s"
  have "str_buf (Suc n) (bytes_of s) = bytes_of s @ replicate (Suc n - length s) 0"
    using f by (simp add: fits_text_def str_buf_def takeWhile_bytes_of Let_def)
  moreover have "takeWhile (\<lambda>c. c \<noteq> 0) (bytes_of s @ replicate k 0) = bytes_of s" for k
    using f by (subst takeWhile_append2) (auto simp: fits_text_def bytes_of_def takeWhile_replicate)
  ultimately show ?thesis using f by (simp add: text_of_def cstr_def fits_text_def)
qed

lemma int64_back: "- (2 ^ 63) \<le> n \<Longrightarrow> n < 2 ^ 63 \<Longrightarrow> to_int64 (nat (n mod 2 ^ 64)) = n"
proof -
  assume n: "- (2 ^ 63) \<le> n" "n < 2 ^ 63"
  show ?thesis
  proof (cases "n < 0")
    case True
    then have "n mod 2 ^ 64 = n + 2 ^ 64"
      using n by (intro mod_pos_pos_trivial [of "n + 2 ^ 64" "2 ^ 64", simplified mod_add_self2]) simp_all
    then show ?thesis using n True by (simp add: to_int64_def nat_less_iff)
  next
    case False
    then have "n mod 2 ^ 64 = n" using n by simp
    then show ?thesis using n False by (simp add: to_int64_def nat_less_iff)
  qed
qed

lemma entry_length: "length (fill_sync_entry e st) = 256"
  by (simp add: fill_sync_entry_def)

lemma entry_offsets:
  "offset_of MissionSyncEntry ''valid'' = Some 0" "offset_of MissionSyncEntry ''state'' = Some 1"
  "offset_of MissionSyncEntry ''op_index'' = Some 2" "offset_of MissionSyncEntry ''rollover'' = Some 3"
  "offset_of MissionSyncEntry ''year'' = Some 4" "offset_of MissionSyncEntry ''code'' = Some 8"
  "offset_of MissionSyncEntry ''start_utc'' = Some 16" "offset_of MissionSyncEntry ''end_utc'' = Some 24"
  "offset_of MissionSyncEntry ''started_by'' = Some 32" "offset_of MissionSyncEntry ''station_name'' = Some 64"
  "offset_of MissionSyncEntry ''host_name'' = Some 128" "offset_of MissionSyncEntry ''lat'' = Some 160"
  "offset_of MissionSyncEntry ''lon'' = Some 164" "offset_of MissionSyncEntry ''sdr_kind'' = Some 168"
  "offset_of MissionSyncEntry ''antenna'' = Some 192"
  by (simp_all add: MissionSyncEntry_def)

lemma entry_back:
  assumes f: "fits_entry e" and b: "b = fill_sync_entry e st"
  shows "sync_entry_of b = e" "entry_at ''valid'' b ! 0 = 1" "entry_at ''state'' b ! 0 = st"
    "text_of 63 (entry_at ''station_name'' b) = me_station e" "text_of 7 (entry_at ''code'' b) = me_code e"
    "le_nat (take 2 (entry_at ''year'' b)) = nat (me_year e)"
proof -
  have t: "fits_text 8 (me_code e)" "fits_text 32 (me_by e)" "fits_text 64 (me_station e)" "fits_text 32 (me_host e)"
    "fits_text 24 (me_sdr e)" "fits_text 64 (me_antenna e)"
    and i: "- (2 ^ 63) \<le> me_start e" "me_start e < 2 ^ 63" "- (2 ^ 63) \<le> me_end e" "me_end e < 2 ^ 63"
    and y: "0 \<le> me_year e" "me_year e < 2 ^ 16" using f by (simp_all add: fits_entry_def)
  have ats: "entry_at ''op_index'' b ! 0 = me_op e" "entry_at ''rollover'' b ! 0 = me_rollover e" "entry_at ''valid'' b ! 0 = 1"
    "entry_at ''state'' b ! 0 = st" by (simp_all add: b fill_sync_entry_def at_member_def entry_offsets)
  have yr: "take 2 (entry_at ''year'' b) = le_bytes 2 (nat (me_year e mod 2 ^ 16))"
    by (simp add: b fill_sync_entry_def at_member_def entry_offsets)
  have num: "take 8 (entry_at ''start_utc'' b) = le_bytes 8 (nat (me_start e mod 2 ^ 64))"
    "take 8 (entry_at ''end_utc'' b) = le_bytes 8 (nat (me_end e mod 2 ^ 64))"
    "take 4 (entry_at ''lat'' b) = le_bytes 4 (unat (me_lat e))" "take 4 (entry_at ''lon'' b) = le_bytes 4 (unat (me_lon e))"
    by (simp_all add: b fill_sync_entry_def at_member_def entry_offsets)
  have tx: "\<exists>r. entry_at ''code'' b = str_buf 8 (bytes_of (me_code e)) @ r" "\<exists>r. entry_at ''started_by'' b = str_buf 32 (bytes_of (me_by e)) @ r"
    "\<exists>r. entry_at ''station_name'' b = str_buf 64 (bytes_of (me_station e)) @ r" "\<exists>r. entry_at ''host_name'' b = str_buf 32 (bytes_of (me_host e)) @ r"
    "\<exists>r. entry_at ''sdr_kind'' b = str_buf 24 (bytes_of (me_sdr e)) @ r" "\<exists>r. entry_at ''antenna'' b = str_buf 64 (bytes_of (me_antenna e)) @ r"
    by (simp_all add: b fill_sync_entry_def at_member_def entry_offsets)
  have tts: "text_of 8 (entry_at ''code'' b) = me_code e" "text_of 32 (entry_at ''started_by'' b) = me_by e"
    "text_of 64 (entry_at ''station_name'' b) = me_station e" "text_of 32 (entry_at ''host_name'' b) = me_host e"
    "text_of 24 (entry_at ''sdr_kind'' b) = me_sdr e" "text_of 64 (entry_at ''antenna'' b) = me_antenna e"
    using tx t text_back by auto
  have m64: "nat (n mod 2 ^ 64) < 2 ^ 64" for n :: int
    using pos_mod_bound [of "2 ^ 64 :: int" n] pos_mod_sign [of "2 ^ 64 :: int" n] by (simp add: nat_less_iff)
  have n64: "int64_at (entry_at ''start_utc'' b) = me_start e" "int64_at (entry_at ''end_utc'' b) = me_end e"
    using i int64_back le_nat_8 [OF m64] by (simp_all add: int64_at_def num)
  have f32: "word_of_nat (le_nat (le_bytes 4 (unat w))) = w" for w :: u32
    using le_nat_4 [of "unat w"] unat_lt [of w] by simp
  have ny: "le_nat (take 2 (entry_at ''year'' b)) = nat (me_year e)"
    using y by (simp add: yr le_nat_le_bytes nat_less_iff)
  then show "le_nat (take 2 (entry_at ''year'' b)) = nat (me_year e)" .
  show "sync_entry_of b = e" unfolding sync_entry_of_def tts n64 num f32 ats ny using y by simp
  show "entry_at ''valid'' b ! 0 = 1" "entry_at ''state'' b ! 0 = st" by (rule ats)+
  show "text_of 63 (entry_at ''station_name'' b) = me_station e" using tx(3) t(3) text_back_short [of 63] by auto
  show "text_of 7 (entry_at ''code'' b) = me_code e" using tx(1) t(1) text_back_short [of 7] by auto
qed

section \<open>The snapshot\<close>

lemma chunk_at:
  "\<forall>x\<in>set xs. length x = k \<Longrightarrow> i < length xs \<Longrightarrow> take k (drop (k * i) (concat xs @ r)) = xs ! i"
proof (induction xs arbitrary: i)
  case (Cons x xs)
  then show ?case by (cases i) (auto simp: drop_append)
qed simp

lemma packet_offsets:
  "offset_of PktMissionSync ''active_valid'' = Some 0" "offset_of PktMissionSync ''history_count'' = Some 4"
  "offset_of PktMissionSync ''active'' = Some 8" "offset_of PktMissionSync ''entries'' = Some 264" "size_of PktMissionSync = 8456"
  by (simp_all add: PktMissionSync_def MissionSyncEntry_def)

definition active_part :: "viewer \<Rightarrow> bytes" where
  "active_part v = (if running v then fill_sync_entry ((vm_cur v)\<lparr> me_rollover := 0, me_end := 0 \<rparr>) 1 else replicate 256 0)"

lemma snapshot_parts:
  assumes h: "\<forall>e\<in>set (vm_history v). fits_entry e" and b: "b = mission_sync_body v" and es: "es = take 32 (rev (vm_history v))"
  shows "length b = 8456" "at_member PktMissionSync ''active_valid'' b ! 0 = of_bool (running v)"
    "take 2 (at_member PktMissionSync ''history_count'' b) = le_bytes 2 (length es)"
    "take 256 (at_member PktMissionSync ''active'' b) = active_part v"
    "map sync_entry_of (filter (\<lambda>b. entry_at ''valid'' b ! 0 \<noteq> 0)
       (map (\<lambda>i. take 256 (drop (256 * i) (at_member PktMissionSync ''entries'' b))) [0..<length es])) = es"
    "length (at_member PktMissionSync ''active'' b) = 8448"
proof -
  define c where "c = map (\<lambda>e. fill_sync_entry e 0) es"
  define z where "z = concat (replicate (32 - length es) (replicate 256 (0 :: u8)))"
  have la: "length (active_part v) = 256" by (simp add: active_part_def entry_length)
  have lc: "\<forall>x\<in>set c. length x = 256" by (auto simp: c_def entry_length)
  have bb: "b = [of_bool (running v), 0, 0, 0] @ le_bytes 2 (length es) @ [0, 0] @ active_part v @ concat c @ z"
    unfolding b es c_def z_def active_part_def by (simp add: mission_sync_body_def Let_def)
  have lz: "length (concat c) = 256 * length es" "length z = 256 * (32 - length es)"
    by (simp_all add: c_def z_def length_concat comp_def entry_length sum_list_triv sum_list_replicate)
  have "length es \<le> 32" by (simp add: es)
  then have "256 * length es + 256 * (32 - length es) = 8192" by (simp only: distrib_left [symmetric] le_add_diff_inverse)
  then show "length b = 8456" unfolding bb using la lz by simp
  then show "length (at_member PktMissionSync ''active'' b) = 8448" by (simp add: at_member_def packet_offsets)
  have ent: "at_member PktMissionSync ''entries'' b = concat c @ z"
    unfolding bb at_member_def packet_offsets using la by simp
  show "at_member PktMissionSync ''active_valid'' b ! 0 = of_bool (running v)"
    "take 2 (at_member PktMissionSync ''history_count'' b) = le_bytes 2 (length es)"
    "take 256 (at_member PktMissionSync ''active'' b) = active_part v"
    unfolding bb at_member_def packet_offsets using la by simp_all
  have "map (\<lambda>i. take 256 (drop (256 * i) (concat c @ z))) [0..<length es] = c"
    using chunk_at [OF lc] by (intro nth_equalityI) (simp_all add: c_def)
  moreover have he: "fits_entry e" if "e \<in> set es" for e using that h by (auto simp: es dest: in_set_takeD)
  then have "filter (\<lambda>b. entry_at ''valid'' b ! 0 \<noteq> 0) c = c" using entry_back(2) by (auto simp: c_def filter_id_conv)
  moreover have "map sync_entry_of c = map (\<lambda>e. e) es" unfolding c_def map_map comp_def using he entry_back(1) by (intro map_cong) auto
  ultimately show "map sync_entry_of (filter (\<lambda>b. entry_at ''valid'' b ! 0 \<noteq> 0)
       (map (\<lambda>i. take 256 (drop (256 * i) (at_member PktMissionSync ''entries'' b))) [0..<length es])) = es"
    unfolding ent by simp
qed

lemma shadow_of_active:
  assumes a: "fits_entry e" "a = fill_sync_entry e 1" "take 256 (at_member PktMissionSync ''active'' b) = a"
    and l: "length b = 8456" "at_member PktMissionSync ''active_valid'' b ! 0 = 1"
  shows "update_active_mission_shadow b R = R\<lparr> ha_active := Some (me_station e, nat (me_year e), me_code e) \<rparr>"
proof -
  have la: "length a = 256" by (simp add: a(2) entry_length)
  obtain r where r: "at_member PktMissionSync ''active'' b = a @ r" using a(3) append_take_drop_id by metis
  note e = entry_back [OF a(1,2)]
  have ext: "entry_at f (a @ r) = entry_at f a @ r" if "f \<in> {''valid'', ''station_name'', ''year'', ''code''}" for f r
    using that la by (auto simp: at_member_def entry_offsets)
  have len: "length (entry_at ''valid'' a) = 256" "length (entry_at ''year'' a) = 252" "length (entry_at ''station_name'' a) = 192"
    "length (entry_at ''code'' a) = 248" using la by (simp_all add: at_member_def entry_offsets)
  have tex: "text_of k (x @ r) = text_of k x" if "k \<le> length x" for k and x r :: bytes
    using that by (simp add: text_of_def cstr_def)
  show ?thesis
    unfolding update_active_mission_shadow_def Let_def r l packet_offsets using e(2,4-6) len
    by (simp add: ext tex nth_append)
qed

text \<open>
  C33: everyone sees the missions of the HOST.  The snapshot the HOST broadcasts, applied by a JOIN in
  whatever state it was, gives the JOIN the HOST's state, its running mission and the 32 latest missions
  of its history, the latest one first; and the relay takes from the same packet exactly the station,
  the year and the code under which it then archives the recordings, or that there is none.
\<close>

theorem mission_snapshot_taken_over:
  assumes s: "vm_state v = IDLE \<and> vm_cur v = no_mission \<or>
      vm_state v = ACTIVE \<and> me_code (vm_cur v) \<noteq> [] \<and> me_end (vm_cur v) = 0 \<and> me_rollover (vm_cur v) = 0 \<and> fits_entry (vm_cur v)"
    and h: "\<forall>e\<in>set (vm_history v). fits_entry e"
  shows "on_mission_sync (mission_sync_body v) j =
      j\<lparr> vm_state := vm_state v, vm_cur := vm_cur v, vm_history := take 32 (rev (vm_history v)) \<rparr> \<and>
    update_active_mission_shadow (mission_sync_body v) R =
      R\<lparr> ha_active := (if running v then Some (me_station (vm_cur v), nat (me_year (vm_cur v)), me_code (vm_cur v)) else None) \<rparr>"
proof -
  let ?es = "take 32 (rev (vm_history v))"
  note p = snapshot_parts [OF h refl refl]
  have n: "min (le_nat (le_bytes 2 (length ?es))) 32 = length ?es" by (simp add: le_nat_le_bytes min_def)
  show ?thesis
  proof (cases "running v")
    case True
    then have cur: "me_end (vm_cur v) = 0" "me_rollover (vm_cur v) = 0" "fits_entry (vm_cur v)" "vm_state v = ACTIVE"
      using s by (auto simp: running_def)
    then have "(vm_cur v)\<lparr> me_rollover := 0, me_end := 0 \<rparr> = vm_cur v" by simp
    then have a: "active_part v = fill_sync_entry (vm_cur v) 1" using True by (simp add: active_part_def)
    note e = entry_back [OF cur(3) a]
    have "on_mission_sync (mission_sync_body v) j = j\<lparr> vm_state := vm_state v, vm_cur := vm_cur v, vm_history := ?es \<rparr>"
      unfolding on_mission_sync_def Let_def p(2-4) n p(5) using True e(1-3) cur by (simp add: state_of_byte_def)
    then show ?thesis using shadow_of_active [OF cur(3) a p(4,1)] p(2) True by simp
  next
    case False
    then have i: "vm_state v = IDLE" "vm_cur v = no_mission" using s by (auto simp: running_def)
    have "on_mission_sync (mission_sync_body v) j = j\<lparr> vm_state := vm_state v, vm_cur := vm_cur v, vm_history := ?es \<rparr>"
      unfolding on_mission_sync_def Let_def p(2-4) n p(5) using False i by simp
    moreover have "update_active_mission_shadow (mission_sync_body v) R = R\<lparr> ha_active := None \<rparr>"
      unfolding update_active_mission_shadow_def Let_def p(1,2) packet_offsets using False by simp
    ultimately show ?thesis using False by simp
  qed
qed

theorem mission_snapshot_taken_over_witness:
  "\<exists>R :: hist_room. on_mission_sync (mission_sync_body (example_viewer\<lparr> vm_state := ACTIVE, vm_cur := example_mission\<lparr> me_end := 0 \<rparr> \<rparr>)) example_viewer =
     example_viewer\<lparr> vm_state := ACTIVE, vm_cur := example_mission\<lparr> me_end := 0 \<rparr> \<rparr> \<and> ha_active R = Some (''S'', 2026, ''A01'')"
proof -
  let ?v = "example_viewer\<lparr> vm_state := ACTIVE, vm_cur := example_mission\<lparr> me_end := 0 \<rparr> \<rparr>"
  have s: "vm_state ?v = IDLE \<and> vm_cur ?v = no_mission \<or>
      vm_state ?v = ACTIVE \<and> me_code (vm_cur ?v) \<noteq> [] \<and> me_end (vm_cur ?v) = 0 \<and> me_rollover (vm_cur ?v) = 0 \<and> fits_entry (vm_cur ?v)"
    by (simp add: example_mission_def fits_entry_def fits_text_def)
  have h: "\<forall>e\<in>set (vm_history ?v). fits_entry e"
    by (simp add: example_viewer_def example_mission_def fits_entry_def fits_text_def)
  fix R :: hist_room
  note t = mission_snapshot_taken_over [OF s h, of example_viewer R]
  have "on_mission_sync (mission_sync_body ?v) example_viewer = ?v" using t by (simp add: example_viewer_def)
  moreover have "ha_active (update_active_mission_shadow (mission_sync_body ?v) R) = Some (''S'', 2026, ''A01'')"
    using t by (simp add: running_def example_mission_def)
  ultimately show ?thesis by blast
qed

end
