(* ===== verification/UploadEnds.thy ===== *)
theory UploadEnds
  imports ArchiveFacts
begin

text \<open>
  The loops that send a file come to an end, after a number of chunks that the size of the file
  determines: the loop of the worker of a HOST and the loop of a JOIN send the same packets.
\<close>

definition chunk_count :: "string \<Rightarrow> nat" where
  "chunk_count s = max 1 ((length s + push_chunk_size - 1) div push_chunk_size)"

definition chunk_at :: "string \<Rightarrow> nat \<Rightarrow> string" where
  "chunk_at s i = take push_chunk_size (drop (i * push_chunk_size) s)"

definition chunk_packet :: "u8 \<Rightarrow> string \<Rightarrow> nat \<Rightarrow> bytes" where
  "chunk_packet tid s i = push_data_body tid (length s \<le> Suc i * push_chunk_size) (i * push_chunk_size) (chunk_at s i)"

lemma ceiling_above: "0 < c \<Longrightarrow> n \<le> (n + c - 1) div c * (c :: nat)"
  using div_mult_mod_eq [of "n + c - 1" c] mod_less_divisor [of c "n + c - 1"] by linarith

lemma ceiling_least: "0 < c \<Longrightarrow> i < (n + c - 1) div c \<Longrightarrow> i * c < (n :: nat)"
  using less_eq_div_iff_mult_less_eq [of c "Suc i" "n + c - 1"] by (simp add: Suc_le_eq)

lemma chunk_count_bounds:
  shows "length s \<le> chunk_count s * push_chunk_size"
    and "0 < i \<Longrightarrow> i < chunk_count s \<Longrightarrow> i * push_chunk_size < length s"
    and "0 < chunk_count s"
proof -
  have p: "(0 :: nat) < push_chunk_size" by simp
  show "length s \<le> chunk_count s * push_chunk_size"
    using ceiling_above [OF p, of "length s"] by (auto simp del: mult_numeral_left simp: chunk_count_def max_def)
  show "i * push_chunk_size < length s" if "0 < i" "i < chunk_count s"
    using ceiling_least [OF p, of i "length s"] that by (auto simp: chunk_count_def max_def split: if_splits)
qed (simp add: chunk_count_def)

lemma pieces_concat: "concat (map (chunk_at s) [0..<k]) = take (k * push_chunk_size) s"
proof (induction k)
  case (Suc k)
  have "take (Suc k * push_chunk_size) s = take (k * push_chunk_size) s @ chunk_at s k"
    unfolding chunk_at_def mult_Suc by (subst add.commute) (rule take_add)
  then show ?case using Suc.IH by simp
qed simp

lemma push_loop_chunks:
  "i \<le> chunk_count s \<Longrightarrow> push_loop (\<lambda>_. True) tid (length s) (i * push_chunk_size) (0 < i) (drop (i * push_chunk_size) s) =
     (map (chunk_packet tid s) [i..<chunk_count s], True)"
proof (induction "chunk_count s - i" arbitrary: i)
  case 0
  then have i: "i = chunk_count s" by simp
  show ?case using chunk_count_bounds(1,3) [of s] push_loop_end [of "length s" "i * push_chunk_size"] unfolding i by simp
next
  case (Suc k)
  then have i: "i < chunk_count s" by simp
  define o' where "o' = i * push_chunk_size"
  define want where "want = min push_chunk_size (length s - o')"
  have c: "o' < length s \<or> \<not> 0 < i" using chunk_count_bounds(2) [OF _ i] unfolding o'_def by blast
  have u: "[i..<chunk_count s] = i # [Suc i..<chunk_count s]" using i by (rule upt_conv_Cons)
  have n: "o' + push_chunk_size = Suc i * push_chunk_size" by (simp add: o'_def)
  have b: "push_data_body tid (length s \<le> o' + want) o' (take want (drop o' s)) = chunk_packet tid s i"
  proof -
    have "take want (drop o' s) = chunk_at s i" by (simp add: want_def chunk_at_def o'_def min_def)
    moreover have "length s \<le> o' + want \<longleftrightarrow> length s \<le> Suc i * push_chunk_size" using c n by (auto simp: want_def min_def)
    ultimately show ?thesis by (simp add: chunk_packet_def o'_def)
  qed
  have r: "\<not> length (drop o' s) < want" by (simp add: want_def)
  have st: "push_loop (\<lambda>_. True) tid (length s) o' (0 < i) (drop o' s) =
    (if want = 0 then ([chunk_packet tid s i], True)
     else (chunk_packet tid s i # fst (push_loop (\<lambda>_. True) tid (length s) (o' + want) True (drop (o' + want) s)),
           snd (push_loop (\<lambda>_. True) tid (length s) (o' + want) True (drop (o' + want) s))))"
    using push_loop_step [OF c want_def, of "\<lambda>_. True" tid "drop o' s"] r
    unfolding b drop_drop by (simp only: add.commute [of want o'] not_True_eq_False simp_thms if_False)
  show ?case
  proof (cases "want = push_chunk_size")
    case True
    have "push_loop (\<lambda>_. True) tid (length s) (o' + want) True (drop (o' + want) s) =
        (map (chunk_packet tid s) [Suc i..<chunk_count s], True)"
      using Suc.hyps(1) [of "Suc i"] Suc.hyps(2) i unfolding True n by simp
    then show ?thesis using True st unfolding o'_def u by simp
  next
    case False
    then have w: "want = length s - o'" "length s < Suc i * push_chunk_size" using n by (auto simp: want_def min_def split: if_splits)
    have e: "[Suc i..<chunk_count s] = []"
    proof -
      have "chunk_count s \<le> Suc i" using chunk_count_bounds(2) [of "Suc i" s] w(2) by (meson not_le less_asym zero_less_Suc)
      then show ?thesis by simp
    qed
    have "push_loop (\<lambda>_. True) tid (length s) (o' + want) True (drop (o' + want) s) = ([], True)" if "want \<noteq> 0"
      by (rule push_loop_end) (use that in \<open>simp add: w(1)\<close>)
    then show ?thesis using st unfolding o'_def [symmetric] u e by (cases "want = 0") simp_all
  qed
qed

lemma upload_loop_same:
  "upload_loop tid tot off rest = map (Pair 0x4F) (fst (push_loop (\<lambda>_. True) tid tot off True rest))"
proof (induction tid tot off rest rule: upload_loop.induct)
  case (1 tid tot off rest)
  show ?case
  proof (cases "off < tot")
    case True
    define want where "want = min push_chunk_size (tot - off)"
    have w: "want \<noteq> 0" using True by (simp add: want_def)
    have l: "length (take want rest) \<le> 4 * 1024 * 1024" by (simp add: want_def)
    note st = push_loop_step [OF disjI1, OF True want_def, of "\<lambda>_. True" tid True rest]
    have u: "upload_loop tid tot off rest =
      (if length rest < want then []
       else send_mission_file_push_data tid off (take want rest) (off + want \<ge> tot)
            @ upload_loop tid tot (off + want) (drop want rest))"
      using True by (subst upload_loop.simps) (simp add: want_def Let_def)
    show ?thesis
    proof (cases "length rest < want")
      case False
      have "upload_loop tid tot (off + want) (drop want rest) =
          map (Pair 0x4F) (fst (push_loop (\<lambda>_. True) tid tot (off + want) True (drop want rest)))"
        by (rule "1.IH") (use True False in \<open>simp_all add: want_def\<close>)
      moreover have "send_mission_file_push_data tid off (take want rest) (off + want \<ge> tot) =
          [(0x4F, push_data_body tid (off + want \<ge> tot) off (take want rest))]"
        unfolding send_mission_file_push_data_def push_data_body_def if_not_P [OF l [folded not_less]] ..
      ultimately show ?thesis using False w unfolding u st by simp
    qed (simp add: u st)
  next
    case False
    then show ?thesis using push_loop_end [of tot off "\<lambda>_. True" tid rest] by (simp add: upload_loop.simps)
  qed
qed

text \<open>
  C36: the loops that send a file end.  As long as the HOST is running, the loop of
  \<^verbatim>\<open>push_one\<close> over a file of any size reads all of it and sends exactly \<^verbatim>\<open>chunk_count\<close>
  packets: one for each 256 KiB and one for the rest, and one for an empty file.  The i-th
  carries the i-th piece and its offset, and the last one alone is marked as last.  The loop of a JOIN in
  \<^verbatim>\<open>start_upload\<close> sends the same packets, and the pieces put together are the file.
\<close>

theorem uploads_terminate:
  "push_loop (\<lambda>_. True) tid (length s) 0 False s = (map (chunk_packet tid s) [0..<chunk_count s], True) \<and>
   (if s = [] then send_mission_file_push_data tid 0 [] True else upload_loop tid (length s) 0 s) =
     map (\<lambda>i. (0x4F, chunk_packet tid s i)) [0..<chunk_count s] \<and>
   concat (map (chunk_at s) [0..<chunk_count s]) = s \<and>
   filter (\<lambda>i. chunk_packet tid s i ! 1 \<noteq> 0) [0..<chunk_count s] = [chunk_count s - 1]"
proof -
  have p: "push_loop (\<lambda>_. True) tid (length s) 0 False s = (map (chunk_packet tid s) [0..<chunk_count s], True)"
    using push_loop_chunks [of 0 s tid] by simp
  have flag: "chunk_packet tid s i ! 1 \<noteq> 0 \<longleftrightarrow> length s \<le> Suc i * push_chunk_size" for i
    by (simp add: chunk_packet_def push_data_body_def)
  have "filter (\<lambda>i. chunk_packet tid s i ! 1 \<noteq> 0) [0..<chunk_count s] = [chunk_count s - 1]"
  proof -
    define m where "m = chunk_count s - 1"
    have m: "chunk_count s = Suc m" using chunk_count_bounds(3) [of s] by (simp add: m_def)
    have "filter (\<lambda>i. chunk_packet tid s i ! 1 \<noteq> 0) [0..<m] = []"
      unfolding filter_empty_conv flag
    proof (intro ballI)
      fix i assume "i \<in> set [0..<m]"
      then show "\<not> length s \<le> Suc i * push_chunk_size" using chunk_count_bounds(2) [of "Suc i" s] m by simp
    qed
    moreover have "chunk_packet tid s m ! 1 \<noteq> 0" unfolding flag using chunk_count_bounds(1) [of s] m by simp
    ultimately show ?thesis by (simp add: m)
  qed
  moreover have "(if s = [] then send_mission_file_push_data tid 0 [] True else upload_loop tid (length s) 0 s) =
     map (\<lambda>i. (0x4F, chunk_packet tid s i)) [0..<chunk_count s]"
  proof (cases "s = []")
    case True
    then show ?thesis by (simp add: chunk_count_def chunk_packet_def chunk_at_def send_mission_file_push_data_def push_data_body_def)
  next
    case False
    then have "push_loop (\<lambda>_. True) tid (length s) 0 True s = push_loop (\<lambda>_. True) tid (length s) 0 False s"
      by (simp add: push_loop.simps [of _ _ "length s" 0])
    then show ?thesis using False unfolding upload_loop_same p by (simp add: o_def)
  qed
  ultimately show ?thesis
    using p pieces_concat [of s "chunk_count s"] chunk_count_bounds(1) [of s] by simp
qed

end
