(* ===== verification/BtleMeta.thy ===== *)
theory BtleMeta
  imports CrcRegister Complex_Main
begin

text \<open>
  Records and labels of the BLE receiver, \<^verbatim>\<open>src/modules/btle/btle_meta.hpp\<close>: the record of an
  advertising packet, its form on the wire and the tables of names.  Levels and frequencies are reals; a
  text is the buffer of bytes that holds it.
\<close>

section \<open>Records\<close>

record BtleRecord =
  bt_t_ms :: int
  bt_freq :: real
  bt_ch :: int
  bt_crc_ok :: bool
  bt_rssi :: real
  bt_cfo_hz :: real
  bt_adv_chan :: int
  bt_pdu_type :: nat
  bt_addr_type :: nat
  bt_mac :: bytes
  bt_name :: bytes
  bt_flags :: int
  bt_company :: u16
  bt_appearance :: int
  bt_n_ad :: nat
  bt_info :: bytes
  bt_is_connect :: bool
  bt_init_mac :: bytes
  bt_access_addr :: u32
  bt_crc_init :: u32
  bt_interval :: nat
  bt_timeout :: nat
  bt_latency :: nat
  bt_hop :: nat
  bt_sca :: nat
  bt_chan_map :: u64
  bt_station :: bytes

definition btle_default :: BtleRecord where
  "btle_default = \<lparr> bt_t_ms = 0, bt_freq = 0, bt_ch = 0, bt_crc_ok = False, bt_rssi = 0, bt_cfo_hz = 0, bt_adv_chan = 37,
     bt_pdu_type = 0, bt_addr_type = 0, bt_mac = replicate 6 0, bt_name = replicate 24 0, bt_flags = - 1, bt_company = 0xFFFF,
     bt_appearance = - 1, bt_n_ad = 0, bt_info = replicate 48 0, bt_is_connect = False, bt_init_mac = replicate 6 0,
     bt_access_addr = 0, bt_crc_init = 0, bt_interval = 0, bt_timeout = 0, bt_latency = 0, bt_hop = 0, bt_sca = 0,
     bt_chan_map = 0, bt_station = replicate 16 0 \<rparr>"

section \<open>Labels\<close>

definition label :: "('a \<times> string) list \<Rightarrow> 'a \<Rightarrow> string" where
  "label tab k = (case map_of tab k of Some s \<Rightarrow> s | None \<Rightarrow> [])"

definition btle_pdu_name :: "nat \<Rightarrow> string" where
  "btle_pdu_name t = label
     [(0x0, ''ADV_IND''), (0x1, ''ADV_DIRECT_IND''), (0x2, ''ADV_NONCONN_IND''), (0x3, ''SCAN_REQ''),
       (0x4, ''SCAN_RSP''), (0x5, ''CONNECT_IND''), (0x6, ''ADV_SCAN_IND''), (0x7, ''ADV_EXT_IND'')] t"

definition btle_company_name :: "u16 \<Rightarrow> string" where
  "btle_company_name c = label
     [(0x0000, ''Ericsson''), (0x0001, ''Nokia''), (0x0002, ''Intel''), (0x0004, ''Toshiba''),
       (0x0006, ''Microsoft''), (0x0008, ''Motorola''), (0x0009, ''Infineon''), (0x000A, ''Qualcomm''),
       (0x000D, ''TI''), (0x000F, ''Broadcom''), (0x001D, ''Qualcomm''), (0x0025, ''NXP''), (0x0030, ''STMicro''),
       (0x0036, ''Renesas''), (0x003A, ''Panasonic''), (0x003F, ''Bluetooth SIG''), (0x004C, ''Apple''),
       (0x0055, ''Plantronics''), (0x0056, ''Sony Ericsson''), (0x0057, ''Harman''), (0x0059, ''Nordic''),
       (0x005D, ''Realtek''), (0x0067, ''GN''), (0x006B, ''Polar''), (0x0075, ''Samsung''), (0x0078, ''Nike''),
       (0x0087, ''Garmin''), (0x0089, ''GN Hearing''), (0x009E, ''Bose''), (0x009F, ''Suunto''), (0x00C4, ''LG''),
       (0x00CC, ''Beats''), (0x00CE, ''Eve''), (0x00D1, ''Polar''), (0x00D7, ''Qualcomm''), (0x00DF, ''Misfit''),
       (0x00E0, ''Google''), (0x0103, ''Bang & Olufsen''), (0x011B, ''HP''), (0x012D, ''Sony''),
       (0x012E, ''ASSA ABLOY''), (0x013B, ''Allegion''), (0x014F, ''Bowers & Wilkins''), (0x0154, ''Pebble''),
       (0x0157, ''Huami''), (0x0171, ''Amazon''), (0x0178, ''Casio''), (0x01AB, ''Meta''), (0x01B5, ''Nest''),
       (0x01D1, ''August''), (0x01DA, ''Logitech''), (0x01DD, ''Philips''), (0x01FC, ''Wahoo''),
       (0x0211, ''Telink''), (0x0225, ''Nestle''), (0x022B, ''Tesla''), (0x0241, ''Bragi''), (0x027D, ''Huawei''),
       (0x02B2, ''Oura''), (0x02C5, ''Lenovo''), (0x02D1, ''Empatica''), (0x02DE, ''Samsung SDS''),
       (0x02E5, ''Espressif''), (0x02ED, ''HTC''), (0x02EE, ''Citizen''), (0x02F2, ''GoPro''),
       (0x02FF, ''Silicon Labs''), (0x0304, ''Oura''), (0x037F, ''Nestle''), (0x0381, ''Sharp''),
       (0x038F, ''Xiaomi''), (0x03FF, ''Withings''), (0x041E, ''Dell''), (0x0450, ''Teenage Eng''),
       (0x0494, ''Sennheiser''), (0x0499, ''Ruuvi''), (0x04EC, ''Motorola''), (0x0553, ''Nintendo''),
       (0x058E, ''Meta''), (0x05A7, ''Sonos''), (0x05F0, ''Beken''), (0x060F, ''Signify''), (0x065A, ''Marshall''),
       (0x067C, ''Tile''), (0x068E, ''Razer''), (0x072F, ''OnePlus''), (0x075A, ''Harman''), (0x079A, ''Oppo''),
       (0x07C9, ''Skullcandy''), (0x0837, ''vivo''), (0x0870, ''Wyze''), (0x08AA, ''DJI''), (0x08C3, ''Chipolo''),
       (0x09C6, ''Honor''), (0x0A12, ''Dyson''), (0x0BA9, ''Shelly''), (0x0BDE, ''Yale''), (0x0C93, ''Movesense''),
       (0x0CC2, ''Anker''), (0x0CCB, ''Nothing''), (0x0CE7, ''TAG Heuer''), (0x0E41, ''Asus''), (0x10D1, ''Acer'')] c"

definition btle_appearance_name :: "int \<Rightarrow> string" where
  "btle_appearance_name a =
     (if a < 0 then []
      else case map_of
     [(0x0040, ''Phone''), (0x0080, ''Computer''), (0x00C0, ''Watch''), (0x00C1, ''Sports Watch''),
       (0x0100, ''Clock''), (0x0140, ''Display''), (0x0180, ''Remote''), (0x01C0, ''Eyeglasses''),
       (0x0200, ''Tag''), (0x0240, ''Keyring''), (0x0280, ''Media Player''), (0x02C0, ''Barcode Scanner''),
       (0x0300, ''Thermometer''), (0x0340, ''Heart Rate''), (0x0380, ''Blood Pressure''), (0x03C0, ''HID''),
       (0x03C1, ''Keyboard''), (0x03C2, ''Mouse''), (0x03C3, ''Joystick''), (0x03C4, ''Gamepad''),
       (0x03C5, ''Tablet''), (0x03C8, ''Pen''), (0x0400, ''Glucose''), (0x0440, ''Running Sensor''),
       (0x0480, ''Cycling''), (0x0444, ''Cadence Sensor''), (0x0448, ''Power Sensor''),
       (0x0540, ''Pulse Oximeter''), (0x0580, ''Weight Scale''), (0x0700, ''Earbuds''), (0x0841, ''Headset''),
       (0x0842, ''Headphones''), (0x0843, ''Microphone''), (0x0844, ''Speaker'')] a of
        Some s \<Rightarrow> s
      | None \<Rightarrow> label
     [(0x001, ''Phone''), (0x002, ''Computer''), (0x003, ''Watch''), (0x004, ''Clock''), (0x005, ''Display''),
       (0x006, ''Remote''), (0x008, ''Tag''), (0x00A, ''Media Player''), (0x00C, ''Thermometer''),
       (0x00D, ''Heart Rate''), (0x00F, ''HID''), (0x021, ''Audio'')] (a div 64))"

definition btle_uuid_hint :: "u16 \<Rightarrow> string" where
  "btle_uuid_hint u = label
     [(0x1812, ''HID''), (0x1108, ''Headset''), (0x110B, ''Audio''), (0x180D, ''Heart Rate''),
       (0x180F, ''Battery''), (0x1816, ''Cycling CSC''), (0x1818, ''Cycling Power''), (0x1814, ''Running Speed''),
       (0x1809, ''Thermometer''), (0x1808, ''Glucose''), (0x1822, ''Pulse Oximeter''), (0x181D, ''Weight Scale''),
       (0x1826, ''Fitness''), (0xFD5A, ''Samsung''), (0xFD6F, ''ExposureNotif''), (0xFE2C, ''Fast Pair''),
       (0xFEAA, ''Eddystone''), (0xFE07, ''Sonos''), (0xFE03, ''Amazon''), (0xFE9F, ''Google''),
       (0xFD44, ''Apple''), (0xFDF0, ''Google''), (0xFEED, ''Tile''), (0xFE33, ''Chipolo''), (0xFE25, ''Apple''),
       (0xFE50, ''Google'')] u"

definition btle_apple_model :: "u16 \<Rightarrow> string" where
  "btle_apple_model code = label
     [(0x0220, ''AirPods''), (0x0F20, ''AirPods Pro''), (0x1320, ''AirPods 3''), (0x1420, ''AirPods Pro 2''),
       (0x2420, ''AirPods Pro 2 USB-C''), (0x0A20, ''AirPods Max''), (0x0E20, ''PowerBeats Pro''),
       (0x0320, ''PowerBeats 3''), (0x0520, ''BeatsX''), (0x0620, ''Beats Solo3''), (0x0920, ''Beats Studio3''),
       (0x1120, ''PowerBeats 4''), (0x1020, ''Beats Flex''), (0x1720, ''Beats Studio Buds''),
       (0x1B20, ''Beats Fit Pro''), (0x1E20, ''Beats Studio Buds+'')] code"

end
