(* ===== verification/Btle.thy ===== *)
theory Btle
  imports BtleMeta
begin

text \<open>
  The receiver of BLE advertising packets, \<^verbatim>\<open>src/modules/btle/btle_decode.hpp\<close>: sampling at the
  middle of the bits, the correlation with preamble and access address, whitening, CRC-24, the two
  kinds of packets and the advertising data.  The input is the output of the frequency discriminator;
  samples, rates and levels are reals (the rounding of float and double is not modelled).
\<close>

section \<open>Texts\<close>

definition hex_digit :: "nat \<Rightarrow> char" where
  "hex_digit n = (if n < 10 then char_of (48 + n) else char_of (55 + n))"

fun hex_pad :: "nat \<Rightarrow> nat \<Rightarrow> string" where
  "hex_pad 0 n = []"
| "hex_pad (Suc k) n = hex_pad k (n div 16) @ [hex_digit (n mod 16)]"

text \<open>\<^verbatim>\<open>snprintf\<close> of a text into a buffer of \<^verbatim>\<open>n\<close> bytes, and \<^verbatim>\<open>memcpy\<close> with a terminating zero.\<close>

definition put_bytes :: "bytes \<Rightarrow> bytes \<Rightarrow> bytes" where
  "put_bytes s buf = s @ [0] @ drop (Suc (length s)) buf"

definition print_to :: "nat \<Rightarrow> string \<Rightarrow> bytes \<Rightarrow> bytes" where
  "print_to n s buf = put_bytes (bytes_of (take (n - 1) s)) buf"

section \<open>Advertising data\<close>

text \<open>Numbers of two bytes, the least significant first.\<close>

definition le16 :: "bytes \<Rightarrow> nat \<Rightarrow> nat" where
  "le16 v i = unat (v ! i) + 256 * unat (v ! Suc i)"

definition apple_item :: "nat \<Rightarrow> bytes \<Rightarrow> string" where
  "apple_item t d =
     (if t = 7 then
        (if length d \<ge> 3
         then let mc = 256 * unat (d ! 1) + unat (d ! 2); mn = btle_apple_model (word_of_nat mc)
              in if mn \<noteq> [] then mn else ''ProxPair/'' @ hex_pad 4 mc
         else ''ProxPair'')
      else if t = 16 then
        ''Nearby/a'' @ hex_pad 1 (if length d \<ge> 1 then unat (d ! 0) mod 16 else 0) @
        ''/f'' @ hex_pad 2 (if length d \<ge> 2 then unat (d ! 1) else 0)
      else case map_of [(2, ''iBeacon''), (5, ''AirDrop''), (6, ''HomeKit''), (8, ''HeySiri''), (9, ''AirPlayTgt''),
          (10, ''AirPlaySrc''), (11, ''WatchLink''), (12, ''Handoff''), (13, ''TetherTgt''), (14, ''TetherSrc''),
          (15, ''NearbyAct''), (18, ''FindMy'')] t of
        Some s \<Rightarrow> s | None \<Rightarrow> ''t'' @ hex_pad 2 t)"

text \<open>The loop; \<^verbatim>\<open>s\<close> is what has been printed, of which the buffer holds what fits.\<close>

function apple_items :: "nat \<Rightarrow> bytes \<Rightarrow> string \<Rightarrow> string" where
  "apple_items cap p s =
     (case p of
        t # l # d \<Rightarrow>
          if length d < unat l then s
          else let s = s @ (if s \<noteq> [] then '' '' else []) @ apple_item (unat t) (take (unat l) d)
               in if length s \<ge> cap - 1 then s else apple_items cap (drop (unat l) d) s
      | _ \<Rightarrow> s)"
  by auto
termination by (relation "measure (\<lambda>(cap, p, s). length p)") auto

declare apple_items.simps [simp del]

definition apple_summary :: "bytes \<Rightarrow> nat \<Rightarrow> string" where
  "apple_summary p cap = take (cap - 1) (apple_items cap p [])"

definition printable_byte :: "u8 \<Rightarrow> bool" where
  "printable_byte b \<longleftrightarrow> 0x20 \<le> unat b \<and> unat b \<le> 0x7E"

definition ms_swiftpair_name :: "bytes \<Rightarrow> nat \<Rightarrow> bytes" where
  "ms_swiftpair_name p cap =
     (let run = rev (takeWhile printable_byte (rev p))
      in if length run < 3 then []
         else if \<not> (\<exists>b\<in>set run. let c = unat (b OR 0x20) in 97 \<le> c \<and> c \<le> 122) then []
         else take (cap - 1) run)"

text \<open>The first known service in a list of 16-bit numbers.\<close>

fun uuid_scan :: "bytes \<Rightarrow> string" where
  "uuid_scan (a # b # v) =
     (let h = btle_uuid_hint (word_of_nat (le16 [a, b] 0)) in if h \<noteq> [] then h else uuid_scan v)"
| "uuid_scan _ = []"

text \<open>One structure; the hint is empty until a service is known.\<close>

definition ad_item :: "nat \<Rightarrow> bytes \<Rightarrow> string \<times> BtleRecord \<Rightarrow> string \<times> BtleRecord" where
  "ad_item ty v hm =
     (case hm of (h, m) \<Rightarrow>
      if ty = 0x01 then (h, if length v \<ge> 1 then m\<lparr> bt_flags := int (unat (v ! 0)) \<rparr> else m)
      else if ty = 0x08 \<or> ty = 0x09 then (h, m\<lparr> bt_name := put_bytes (take 23 v) (bt_name m) \<rparr>)
      else if ty = 0x19 then (h, if length v \<ge> 2 then m\<lparr> bt_appearance := int (le16 v 0) \<rparr> else m)
      else if ty = 0x02 \<or> ty = 0x03 then (if h = [] then uuid_scan v else h, m)
      else if ty = 0x16 then (if length v \<ge> 2 \<and> h = [] then btle_uuid_hint (word_of_nat (le16 v 0)) else h, m)
      else if ty = 0xFF \<and> length v \<ge> 2
      then (h, let m = m\<lparr> bt_company := word_of_nat (le16 v 0) \<rparr> in
               if bt_company m = 0x004C \<and> length v > 2
               then let ap = apple_summary (drop 2 v) 40
                    in if ap \<noteq> [] then m\<lparr> bt_info := print_to 48 (''Apple: '' @ ap) (bt_info m) \<rparr> else m
               else if bt_company m = 0x0006 \<and> length v > 3 \<and> bt_name m ! 0 = 0
               then m\<lparr> bt_name := put_bytes (ms_swiftpair_name (drop 2 v) 24) (bt_name m) \<rparr>
               else m)
      else (h, m))"

function ad_items :: "bytes \<Rightarrow> nat \<times> string \<times> BtleRecord \<Rightarrow> nat \<times> string \<times> BtleRecord" where
  "ad_items p s =
     (case p of
        l # r \<Rightarrow>
          if l = 0 \<or> length r < unat l then s
          else ad_items (drop (unat l) r)
                 (case s of (nad, hm) \<Rightarrow> (Suc nad, ad_item (unat (r ! 0)) (take (unat l - 1) (tl r)) hm))
      | [] \<Rightarrow> s)"
  by auto
termination by (relation "measure (\<lambda>(p, s). length p)") auto

declare ad_items.simps [simp del]

definition ad_category :: "string \<Rightarrow> BtleRecord \<Rightarrow> string" where
  "ad_category h m = take 23 (if h \<noteq> [] then h else btle_appearance_name (bt_appearance m))"

definition ad_info :: "string \<Rightarrow> BtleRecord \<Rightarrow> BtleRecord" where
  "ad_info h m =
     (if bt_info m ! 0 \<noteq> 0 then m
      else let cat = ad_category h m; put = (\<lambda>s. m\<lparr> bt_info := print_to 48 s (bt_info m) \<rparr>)
           in if bt_company m \<noteq> 0xFFFF
              then let cn = btle_company_name (bt_company m); num = ''0x'' @ hex_pad 4 (unat (bt_company m))
                   in if cn \<noteq> [] \<and> cat \<noteq> [] then put (cn @ '' '' @ cat)
                      else if cn \<noteq> [] then put cn
                      else if cat \<noteq> [] then put (num @ '' '' @ cat)
                      else put num
              else if cat \<noteq> [] then put cat else m)"

definition parse_ad :: "bytes \<Rightarrow> BtleRecord \<Rightarrow> BtleRecord" where
  "parse_ad p m = (case ad_items p (0, [], m) of (nad, h, m) \<Rightarrow> ad_info h (m\<lparr> bt_n_ad := nad \<rparr>))"

section \<open>Whitening and CRC\<close>

text \<open>The register of seven bits, \<^verbatim>\<open>r[0]\<close> first.\<close>

definition whiten_init :: "int \<Rightarrow> bits" where
  "whiten_init ch = True # map (\<lambda>i. bit ch (5 - i)) [0..<6]"

definition whiten_step :: "bits \<Rightarrow> bool \<times> bits" where
  "whiten_step r = (let fb = r ! 6; s = fb # butlast r in (fb, s[4 := (s ! 4 \<noteq> fb)]))"

definition ble_crc_bit :: "u8 \<Rightarrow> u32 \<Rightarrow> nat \<Rightarrow> u32" where
  "ble_crc_bit d crc b =
     (let c = drop_bit 1 crc in if bit d b \<noteq> bit crc 0 then c XOR 0xDA6000 else c)"

definition ble_crc :: "bytes \<Rightarrow> u32 \<Rightarrow> u32" where
  "ble_crc ds init = foldl (\<lambda>crc d. foldl (ble_crc_bit d) crc [0..<8]) (init AND 0xFFFFFF) ds AND 0xFFFFFF"

section \<open>Decoder\<close>

record btle_decoder =
  bd_sr :: real
  bd_spb :: real
  bd_base :: real
  bd_ch :: int
  bd_chan :: int
  bd_buf :: "real list"
  bd_amp :: "real list"
  bd_samp :: nat
  bd_sync :: nat
  bd_lenok :: nat
  bd_ok :: nat
  bd_fail :: nat
  bd_maxlev :: real
  bd_thresh :: real

definition diag_reset :: "btle_decoder \<Rightarrow> btle_decoder" where
  "diag_reset D = D\<lparr> bd_samp := 0, bd_sync := 0, bd_lenok := 0, bd_ok := 0, bd_fail := 0, bd_maxlev := 0 \<rparr>"

text \<open>A decoder as it is made, before \<^verbatim>\<open>reset\<close>.\<close>

definition btle_new :: btle_decoder where
  "btle_new = \<lparr> bd_sr = 4000000, bd_spb = 4, bd_base = 0, bd_ch = 0, bd_chan = 37, bd_buf = [], bd_amp = [], bd_samp = 0,
     bd_sync = 0, bd_lenok = 0, bd_ok = 0, bd_fail = 0, bd_maxlev = 0, bd_thresh = 8 / 10 \<rparr>"

definition btle_reset :: "real \<Rightarrow> int \<Rightarrow> int \<Rightarrow> btle_decoder \<Rightarrow> btle_decoder" where
  "btle_reset rate ch adv D =
     (let r = (if rate > 1 then rate else 4000000)
      in D\<lparr> bd_sr := r, bd_spb := r / 1000000, bd_ch := ch, bd_chan := adv, bd_buf := [], bd_amp := [], bd_base := 0 \<rparr>)"

abbreviation SYNC_BITS :: nat where "SYNC_BITS \<equiv> 40"

definition adv_bytes :: bytes where "adv_bytes = [0xD6, 0xBE, 0x89, 0x8E]"

definition build_ref :: bits where
  "build_ref = byte_lsb (if bit (adv_bytes ! 0) 0 then 0x55 else 0xAA) @ concat (map byte_lsb adv_bytes)"

text \<open>\<^verbatim>\<open>llround\<close> of a number that is not negative.\<close>

definition off_tab :: "real \<Rightarrow> nat \<Rightarrow> nat" where
  "off_tab spb k = nat \<lfloor>(real k + 1 / 2) * spb + 1 / 2\<rfloor>"

definition samp :: "btle_decoder \<Rightarrow> nat \<Rightarrow> nat \<Rightarrow> real" where
  "samp D j k = (let i = j + off_tab (bd_spb D) k in if i \<ge> length (bd_buf D) then 0 else bd_buf D ! i)"

definition find_sync :: "btle_decoder \<Rightarrow> nat \<Rightarrow> (real \<times> real) option" where
  "find_sync D j =
     (let vals = map (samp D j) [0..<SYNC_BITS];
          mean = sum_list vals / real SYNC_BITS;
          corr = sum_list (map2 (\<lambda>v r. (v - mean) * (if r then 1 else - 1)) vals build_ref);
          energy = sum_list (map (\<lambda>v. \<bar>v - mean\<bar>) vals)
      in if energy < 1 / 100000 then None
         else if \<bar>corr / energy\<bar> < bd_thresh D then None
         else Some (if corr / energy > 0 then 1 else - 1, mean))"

text \<open>The bit at the place \<^verbatim>\<open>k\<close>, and a byte with the state of the whitening.\<close>

definition slice_bit :: "btle_decoder \<Rightarrow> nat \<Rightarrow> real \<Rightarrow> real \<Rightarrow> nat \<Rightarrow> bool" where
  "slice_bit D j pol dc k \<longleftrightarrow> (samp D j k - dc) * pol > 0"

definition get_byte :: "(nat \<Rightarrow> bool) \<Rightarrow> nat \<Rightarrow> bits \<Rightarrow> u8 \<times> bits" where
  "get_byte raw p w =
     foldl (\<lambda>(v, w) b. case whiten_step w of (o', w) \<Rightarrow> (v OR push_bit b (of_bool (raw (SYNC_BITS + 8 * p + b) \<noteq> o')), w))
       (0, w) [0..<8]"

fun get_bytes :: "(nat \<Rightarrow> bool) \<Rightarrow> nat \<Rightarrow> nat \<Rightarrow> bits \<Rightarrow> bytes \<times> bits" where
  "get_bytes raw p 0 w = ([], w)"
| "get_bytes raw p (Suc n) w =
     (case get_byte raw p w of (v, w) \<Rightarrow> case get_bytes raw (Suc p) n w of (vs, w) \<Rightarrow> (v # vs, w))"

text \<open>The record of a packet; \<^verbatim>\<open>raw\<close> is the buffer of 44 bytes.\<close>

definition btle_record :: "int \<Rightarrow> bytes \<Rightarrow> real \<Rightarrow> real \<Rightarrow> BtleRecord" where
  "btle_record chan raw rssi cfo =
     (let ty = unat (raw ! 0) mod 16; len = unat (raw ! 1) mod 64; pl = drop 2 raw;
          m = btle_default\<lparr> bt_crc_ok := True, bt_adv_chan := chan, bt_pdu_type := ty,
                bt_addr_type := unat (raw ! 0) div 64 mod 2, bt_rssi := rssi, bt_cfo_hz := cfo \<rparr>
      in if ty = 5
         then let ll = drop 12 pl
              in m\<lparr> bt_is_connect := True, bt_init_mac := rev (take 6 pl), bt_mac := rev (take 6 (drop 6 pl)),
                    bt_access_addr := word_rcat (rev (take 4 ll)), bt_crc_init := word_rcat (rev (take 3 (drop 4 ll))),
                    bt_interval := le16 ll 10, bt_latency := le16 ll 12, bt_timeout := le16 ll 14,
                    bt_chan_map := word_rcat (rev (take 5 (drop 16 ll))), bt_hop := unat (ll ! 21) mod 32,
                    bt_sca := unat (ll ! 21) div 32 \<rparr>
         else let m = m\<lparr> bt_mac := rev (take 6 pl) \<rparr>
              in if ty \<in> {0, 2, 4, 6} then parse_ad (take (len - 6) (drop 6 pl)) m else m)"

definition packet_end :: "btle_decoder \<Rightarrow> nat \<Rightarrow> nat" where
  "packet_end D len = nat \<lfloor>real (SYNC_BITS + (2 + len + 3) * 8) * bd_spb D\<rfloor>"

definition packet_rssi :: "real list \<Rightarrow> real" where
  "packet_rssi ps = (if ps = [] then 0 else 10 * log 10 (sum_list ps / real (length ps) + 1 / 10 ^ 12))"

text \<open>What is found at a place: nothing, a bad length, a bad CRC, or a packet and its number of samples.\<close>

datatype btle_found = BadLength | BadCrc | Packet nat BtleRecord

definition btle_decode_at :: "btle_decoder \<Rightarrow> nat \<Rightarrow> real \<Rightarrow> real \<Rightarrow> btle_found" where
  "btle_decode_at D j pol dc =
     (let raw = slice_bit D j pol dc;
          (hd2, w) = get_bytes raw 0 2 (whiten_init (bd_chan D));
          len = unat (hd2 ! 1) mod 64
      in if len < 6 \<or> len > 37 then BadLength
         else let (rest, _) = get_bytes raw 2 (len + 3) w; rb = hd2 @ rest;
                  calc = ble_crc (take (2 + len) rb) 0xAAAAAA;
                  rx = ucast (rb ! (2 + len)) OR push_bit 8 (ucast (rb ! (3 + len))) OR push_bit 16 (ucast (rb ! (4 + len)))
              in if calc \<noteq> rx then BadCrc
                 else let consumed = packet_end D len
                      in Packet consumed (btle_record (bd_chan D) (rb @ replicate (44 - length rb) 0)
                           (packet_rssi (take consumed (drop j (bd_amp D)))) (dc * bd_sr D / (2 * 3.14159265358979323846))))"

definition count_found :: "btle_found \<Rightarrow> btle_decoder \<Rightarrow> btle_decoder" where
  "count_found r D =
     (let D = D\<lparr> bd_sync := bd_sync D + 1 \<rparr>
      in case r of BadLength \<Rightarrow> D
         | BadCrc \<Rightarrow> D\<lparr> bd_lenok := bd_lenok D + 1, bd_fail := bd_fail D + 1 \<rparr>
         | Packet n m \<Rightarrow> D\<lparr> bd_lenok := bd_lenok D + 1, bd_ok := bd_ok D + 1 \<rparr>)"

text \<open>The loop of \<^verbatim>\<open>process\<close>: the place where it ends and the records in their order.\<close>

function btle_scan :: "nat \<Rightarrow> nat \<Rightarrow> btle_decoder \<Rightarrow> nat \<times> btle_decoder \<times> BtleRecord list" where
  "btle_scan limit j D =
     (if j > limit then (j, D, [])
      else case find_sync D j of
        None \<Rightarrow> btle_scan limit (Suc j) D
      | Some (pol, dc) \<Rightarrow>
          (let r = btle_decode_at D j pol dc; D = count_found r D
           in case r of
                Packet n m \<Rightarrow>
                  (case btle_scan limit (if n > 0 then j + n else Suc j) D of (e, D, ms) \<Rightarrow> (e, D, m # ms))
              | _ \<Rightarrow> btle_scan limit (Suc j) D))"
  by pat_completeness auto
termination by (relation "measure (\<lambda>(limit, j, D). Suc limit - j)") (auto split: if_splits)

declare btle_scan.simps [simp del]

definition btle_need :: "btle_decoder \<Rightarrow> nat" where
  "btle_need D = nat \<lfloor>real (SYNC_BITS + (2 + 37 + 3) * 8 + 2) * bd_spb D\<rfloor> + 8"

definition btle_process :: "(real \<times> real) list \<Rightarrow> btle_decoder \<Rightarrow> btle_decoder \<times> BtleRecord list" where
  "btle_process xs D =
     (let D = D\<lparr> bd_samp := bd_samp D + length xs, bd_maxlev := foldl (\<lambda>m (d, _). if \<bar>d\<bar> > m then \<bar>d\<bar> else m) (bd_maxlev D) xs,
                 bd_buf := bd_buf D @ map fst xs, bd_amp := bd_amp D @ map snd xs \<rparr>
      in if length (bd_buf D) < btle_need D then (D, [])
         else case btle_scan (length (bd_buf D) - btle_need D) 0 D of
                (j, D, ms) \<Rightarrow> (if j > 0 then D\<lparr> bd_base := bd_base D + real j, bd_buf := drop j (bd_buf D), bd_amp := drop j (bd_amp D) \<rparr>
                               else D, ms))"

end
