(* ===== verification/BtleAir.thy ===== *)
theory BtleAir
  imports Btle
begin

text \<open>
  A BLE advertising packet on the air, as the Bluetooth Core Specification (Vol 6, Part B) describes it, without reference to the
  code: preamble and access address, the CRC with its register shifted to the left, and the whitening
  sequence by its recurrence.  The last lemma says that this is what the functions of the receiver undo: the
  reflected CRC from its reflected start value, and the register of the whitening.
\<close>

section \<open>CRC\<close>

definition ble_P :: u32 where "ble_P = 0xDA6000"

definition ble_step :: "u32 \<Rightarrow> u32" where
  "ble_step r = (if bit r 0 then drop_bit 1 r XOR ble_P else drop_bit 1 r)"

interpretation ble: crc_register ble_step "\<lambda>i. i" 24
proof (rule reflected_register [where P = ble_P])
  have p: "ble_P = foldr (\<lambda>k. (OR) (single k)) [23, 22, 20, 19, 17, 14, 13] 0" by (simp add: ble_P_def single_def)
  show "bit ble_P (24 - 1)" "\<forall>k. bit ble_P k \<longrightarrow> k < 24" unfolding p by (auto simp: bit_or_iff)
  show "\<And>r. ble_step r = (if bit r 0 then drop_bit 1 r XOR ble_P else drop_bit 1 r)" by (simp add: ble_step_def)
qed simp_all

lemma ble_crc_bit_feed: "ble_crc_bit d crc b = crc_feed ble_step 0 crc (bit d b)"
proof -
  have "drop_bit 1 (crc XOR single 0) = drop_bit 1 crc"
    by (intro bit_word_eqI) (simp add: bit_drop_bit_eq bit_xor_iff)
  then show ?thesis by (auto simp: ble_crc_bit_def crc_feed_def ble_step_def ble_P_def bit_xor_iff Let_def)
qed

lemma ble_byte: "foldl (ble_crc_bit d) crc [0..<8] = crc_run ble_step 0 crc (byte_lsb d)"
proof -
  have "foldl (ble_crc_bit d) crc bs = crc_run ble_step 0 crc (map (bit d) bs)" for bs
    by (induction bs arbitrary: crc) (simp_all add: ble_crc_bit_feed)
  then show ?thesis by (simp add: byte_lsb_def)
qed

lemma ble_closed: "(\<forall>k. bit r k \<longrightarrow> k < 24) \<Longrightarrow> bit (crc_run ble_step 0 r xs) k \<Longrightarrow> k < 24"
proof (induction xs arbitrary: r)
  case (Cons x xs)
  have "\<forall>k. bit (if x then r XOR single 0 else r) k \<longrightarrow> k < 24" using Cons.prems(1) by (auto simp: bit_xor_iff)
  then have "\<forall>k. bit (crc_feed ble_step 0 r x) k \<longrightarrow> k < 24" unfolding crc_feed_def using ble.S_closed by blast
  then show ?case using Cons.IH Cons.prems(2) by simp
qed simp

lemma mask24: "(0xFFFFFF :: u32) = mask 24" by (simp add: mask_eq_exp_minus_1)

theorem ble_crc_run: "ble_crc ds init = crc_run ble_step 0 (take_bit 24 init) (concat (map byte_lsb ds))"
proof -
  have f: "foldl (\<lambda>crc d. foldl (ble_crc_bit d) crc [0..<8]) r ds = crc_run ble_step 0 r (concat (map byte_lsb ds))" for r
    by (induction ds arbitrary: r) (simp_all add: ble_byte)
  have "take_bit 24 (crc_run ble_step 0 (take_bit 24 init) xs) = crc_run ble_step 0 (take_bit 24 init) xs" for xs
    using ble_closed [of "take_bit 24 init" xs] by (intro bit_word_eqI) (auto simp: bit_take_bit_iff)
  then show ?thesis by (simp only: ble_crc_def f mask24 take_bit_eq_mask [symmetric])
qed

lemma ble_crc_24: "bit (ble_crc ds init) k \<Longrightarrow> k < 24"
  by (simp add: ble_crc_def mask24 bit_and_iff bit_mask_iff)

section \<open>A packet on the air\<close>

definition crc_bytes :: "u32 \<Rightarrow> bytes" where
  "crc_bytes c = [ucast c, ucast (drop_bit 8 c), ucast (drop_bit 16 c)]"

fun whiten :: "bits \<Rightarrow> bits \<Rightarrow> bits" where
  "whiten w [] = []"
| "whiten w (x # xs) = (case whiten_step w of (o', w) \<Rightarrow> (x \<noteq> o') # whiten w xs)"

definition framed :: "bytes \<Rightarrow> bytes" where
  "framed pdu = pdu @ crc_bytes (ble_crc pdu 0xAAAAAA)"

lemma whiten_length [simp]: "length (whiten w xs) = length xs"
  by (induction w xs rule: whiten.induct) (simp_all split: prod.split)

definition whiten_after :: "bits \<Rightarrow> nat \<Rightarrow> bits" where
  "whiten_after w n = ((\<lambda>w. snd (whiten_step w)) ^^ n) w"

lemma whiten_append: "whiten w (xs @ ys) = whiten w xs @ whiten (whiten_after w (length xs)) ys"
proof (induction w xs rule: whiten.induct)
  case (2 w x xs)
  have "whiten_after w (length (x # xs)) = whiten_after (snd (whiten_step w)) (length xs)"
    by (simp add: whiten_after_def) (rule funpow_swap1 [where f = "\<lambda>w. snd (whiten_step w)"])
  then show ?case using 2 by (simp split: prod.split)
qed (simp add: whiten_after_def)

lemma crc_bytes_back:
  "(\<And>k. bit c k \<Longrightarrow> k < 24) \<Longrightarrow>
   (ucast (crc_bytes c ! 0) OR push_bit 8 (ucast (crc_bytes c ! 1)) OR push_bit 16 (ucast (crc_bytes c ! 2)) :: u32) = c"
proof (rule bit_word_eqI)
  fix n assume c: "\<And>k. bit c k \<Longrightarrow> k < 24" and n: "n < LENGTH(32)"
  have "bit (ucast (crc_bytes c ! 0) :: u32) n \<longleftrightarrow> n < 8 \<and> bit c n"
    "bit (push_bit 8 (ucast (crc_bytes c ! 1)) :: u32) n \<longleftrightarrow> 8 \<le> n \<and> n < 16 \<and> bit c n"
    "bit (push_bit 16 (ucast (crc_bytes c ! 2)) :: u32) n \<longleftrightarrow> 16 \<le> n \<and> n < 24 \<and> bit c n"
    using n by (auto simp: crc_bytes_def bit_push_bit_iff bit_ucast_iff bit_drop_bit_eq)
  then show "bit (ucast (crc_bytes c ! 0) OR push_bit 8 (ucast (crc_bytes c ! 1)) OR push_bit 16 (ucast (crc_bytes c ! 2)) :: u32) n = bit c n"
    using c [of n] by (auto simp: bit_or_iff)
qed

section \<open>The packet of the standard\<close>

fun std_white :: "int \<Rightarrow> nat \<Rightarrow> bool" where
  "std_white chan n =
     (if n = 6 then True \<noteq> std_white chan 3
      else if n < 3 then bit chan n
      else if n < 6 then bit chan n \<noteq> std_white chan (n - 3)
      else std_white chan (n - 7) \<noteq> std_white chan (n - 3))"

declare std_white.simps [simp del]

definition std_crc_step :: "u32 \<Rightarrow> bool \<Rightarrow> u32" where
  "std_crc_step r x = take_bit 24 (if bit r 23 \<noteq> x then push_bit 1 r XOR 0x65B else push_bit 1 r)"

definition std_crc :: "bits \<Rightarrow> u32" where
  "std_crc xs = foldl std_crc_step 0x555555 xs"

text \<open>The CRC is sent with its last position first, everything else with the least significant bit first.\<close>

definition std_frame :: "bytes \<Rightarrow> bits" where
  "std_frame pdu = (let body = concat (map byte_lsb pdu) in body @ map (\<lambda>i. bit (std_crc body) (23 - i)) [0..<24])"

definition on_air :: "int \<Rightarrow> bytes \<Rightarrow> bits" where
  "on_air chan pdu = map odd [0..<8] @ map (bit (0x8E89BED6 :: u32)) [0..<32] @
     map2 (\<noteq>) (std_frame pdu) (map (std_white chan) [0..<length (std_frame pdu)])"

section \<open>The receiver's form\<close>

definition white_state :: "int \<Rightarrow> nat \<Rightarrow> bits" where
  "white_state chan n = (let s = \<lambda>i. std_white chan (n + i) in
     [s 6 \<noteq> s 3, s 5 \<noteq> s 2, s 4 \<noteq> s 1, s 3 \<noteq> s 0, s 2, s 1, s 0])"

lemma white_state_0: "whiten_init chan = white_state chan 0"
proof -
  have w: "std_white chan 0 = bit chan 0" "std_white chan 1 = bit chan 1" "std_white chan 2 = bit chan 2"
    "std_white chan 3 = (bit chan 3 \<noteq> bit chan 0)" "std_white chan 4 = (bit chan 4 \<noteq> bit chan 1)"
    "std_white chan 5 = (bit chan 5 \<noteq> bit chan 2)" "std_white chan 6 = (True \<noteq> std_white chan 3)"
    by (subst std_white.simps; simp add: std_white.simps [of chan 0] std_white.simps [of chan 1] std_white.simps [of chan 2])+
  have u: "[0..<6] = [0, 1, 2, 3, 4, 5 :: nat]" by (simp add: upt_conv_Cons)
  show ?thesis unfolding whiten_init_def white_state_def u Let_def add_0_left w by (simp; blast)
qed

lemma white_step: "whiten_step (white_state chan n) = (std_white chan n, white_state chan (Suc n))"
proof -
  have "std_white chan (n + 7) = (std_white chan n \<noteq> std_white chan (n + 4))" by (subst std_white.simps) (simp add: add.commute [of n 4])
  moreover have "Suc n + 0 = n + 1" "Suc n + 1 = n + 2" "Suc n + 2 = n + 3" "Suc n + 3 = n + 4" "Suc n + 4 = n + 5"
    "Suc n + 5 = n + 6" "Suc n + 6 = n + 7" by simp_all
  note e = this
  ultimately show ?thesis unfolding white_state_def Let_def e by (auto simp: whiten_step_def Let_def)
qed

lemma white_states: "whiten_after (whiten_init chan) n = white_state chan n"
  by (induction n) (simp_all add: whiten_after_def white_state_0 white_step)

lemma whiten_std: "whiten (whiten_init chan) xs = map2 (\<noteq>) xs (map (std_white chan) [0..<length xs])"
proof (induction xs rule: rev_induct)
  case (snoc x xs)
  then show ?case by (simp add: whiten_append white_states white_step)
qed simp

text \<open>Reflected and shifted register.\<close>

definition reflects :: "u32 \<Rightarrow> u32 \<Rightarrow> bool" where
  "reflects a b \<longleftrightarrow> (\<forall>k<24. bit a k = bit b (23 - k)) \<and> (\<forall>k\<ge>24. \<not> bit a k)"

lemma poly_reflects: "reflects ble_P 0x65B"
proof -
  have "\<forall>k\<in>set [0..<24]. bit ble_P k = bit (0x65B :: u32) (23 - k)" unfolding ble_P_def by code_simp
  moreover have "\<not> bit ble_P k" if "24 \<le> k" for k
    using ble_crc_24 [of "[]" ble_P k] that by (auto simp: ble_P_def ble_crc_def)
  ultimately show ?thesis by (simp add: reflects_def)
qed

lemma step_reflects: "reflects a b \<Longrightarrow> reflects (crc_feed ble_step 0 a x) (std_crc_step b x)"
proof -
  assume r: "reflects a b"
  have s: "crc_feed ble_step 0 a x = (if bit a 0 \<noteq> x then drop_bit 1 a XOR ble_P else drop_bit 1 a)"
  proof -
    have "drop_bit 1 (a XOR single 0) = drop_bit 1 a" by (intro bit_word_eqI) (simp add: bit_drop_bit_eq bit_xor_iff)
    then show ?thesis by (simp add: crc_feed_def ble_step_def bit_xor_iff)
  qed
  have c: "bit a 0 = bit b 23" using r by (simp add: reflects_def)
  have d: "bit (drop_bit 1 a) k = bit (push_bit 1 b) (23 - k)" if "k < 24" for k
  proof (cases "k = 23")
    case True
    then show ?thesis using r by (simp add: reflects_def bit_drop_bit_eq bit_push_bit_iff)
  next
    case False
    then have "bit a (Suc k) = bit b (23 - Suc k)" using r that by (simp add: reflects_def)
    then show ?thesis using False that by (auto simp: bit_drop_bit_eq bit_push_bit_iff)
  qed
  have e: "\<not> bit (drop_bit 1 a) k" if "24 \<le> k" for k using r that by (simp add: reflects_def bit_drop_bit_eq)
  show ?thesis
    using d e poly_reflects unfolding s c std_crc_step_def by (auto simp: reflects_def bit_take_bit_iff bit_xor_iff)
qed

lemma run_reflects: "reflects a b \<Longrightarrow> reflects (crc_run ble_step 0 a xs) (foldl std_crc_step b xs)"
  by (induction xs arbitrary: a b) (simp_all add: step_reflects)

lemma std_crc_reflects: "reflects (ble_crc pdu 0xAAAAAA) (std_crc (concat (map byte_lsb pdu)))"
proof -
  have "\<forall>k\<in>set [0..<32]. bit (take_bit 24 0xAAAAAA :: u32) k = (k < 24 \<and> bit (0x555555 :: u32) (23 - k))" by code_simp
  then have "reflects (take_bit 24 0xAAAAAA) 0x555555" by (auto simp: reflects_def dest: bit_imp_le_length)
  then show ?thesis unfolding ble_crc_run std_crc_def by (rule run_reflects)
qed

lemma framed_std: "concat (map byte_lsb (framed pdu)) = std_frame pdu"
proof -
  define c where "c = ble_crc pdu 0xAAAAAA"
  have "concat (map byte_lsb (crc_bytes c)) = map (bit c) [0..<24]"
  proof (rule nth_equalityI)
    fix i assume "i < length (concat (map byte_lsb (crc_bytes c)))"
    then have i: "i < 24" by (simp add: crc_bytes_def)
    show "concat (map byte_lsb (crc_bytes c)) ! i = map (bit c) [0..<24] ! i"
      using i by (auto simp: crc_bytes_def byte_lsb_def nth_append bit_ucast_iff bit_drop_bit_eq)
  qed (simp add: crc_bytes_def)
  also have "\<dots> = map (\<lambda>i. bit (std_crc (concat (map byte_lsb pdu))) (23 - i)) [0..<24]"
    using std_crc_reflects [of pdu] by (simp add: c_def reflects_def)
  finally show ?thesis by (simp add: framed_def std_frame_def Let_def c_def)
qed

lemma ref_std: "map odd [0..<8] @ map (bit (0x8E89BED6 :: u32)) [0..<32] = build_ref"
  by code_simp

lemma on_air_eq: "on_air chan pdu = build_ref @ whiten (whiten_init chan) (concat (map byte_lsb (framed pdu)))"
  unfolding on_air_def framed_std whiten_std ref_std [symmetric] by simp

end
