(* ===== verification/BtleRx.thy ===== *)
theory BtleRx
  imports BtleAir
begin

text \<open>
  Correctness of the BLE receiver at one place: the synchronisation finds a packet on the air in spite
  of a carrier offset, either polarity and bounded noise, and its bytes are received.
\<close>

section \<open>Receiving bytes\<close>

lemma dewhiten:
  assumes "\<And>b. b < n \<Longrightarrow> raw (c + b) = whiten w (map x [0..<n]) ! b"
  shows "foldl (\<lambda>(v, w) b. case whiten_step w of (o', w) \<Rightarrow> (v OR push_bit b (of_bool (raw (c + b) \<noteq> o')), w)) (v0, w) [0..<n] =
     (foldl (\<lambda>v b. v OR push_bit b (of_bool (x b))) v0 [0..<n], whiten_after w n)"
  using assms
proof (induction n)
  case (Suc n)
  obtain o' w' where st: "whiten_step (whiten_after w n) = (o', w')" by fastforce
  have l: "whiten w (map x [0..<Suc n]) = whiten w (map x [0..<n]) @ [x n \<noteq> o']"
    by (simp add: whiten_append st)
  have "raw (c + b) = whiten w (map x [0..<n]) ! b" if "b < n" for b
    using Suc.prems [of b] that unfolding l by (simp add: nth_append)
  moreover have "raw (c + n) = (x n \<noteq> o')" using Suc.prems [of n] unfolding l by (simp add: nth_append)
  ultimately show ?case using Suc.IH st by (simp add: whiten_after_def)
qed (simp add: whiten_after_def)

lemma get_byte_ok:
  assumes "\<And>b. b < 8 \<Longrightarrow> raw (40 + 8 * p + b) = whiten w (byte_lsb y) ! b"
  shows "get_byte raw p w = (y, whiten_after w 8)"
proof -
  have "foldl (\<lambda>v b. v OR push_bit b (of_bool (bit y b))) (0 :: u8) [0..<8] = y"
    by (intro bit_word_eqI) (auto simp: bit_or_fold)
  then show ?thesis unfolding get_byte_def
    by (subst dewhiten [where x = "bit y"]) (use assms in \<open>simp_all add: byte_lsb_def\<close>)
qed

lemma get_bytes_ok:
  assumes "\<And>b. b < 8 * length ys \<Longrightarrow> raw (40 + 8 * p + b) = whiten w (concat (map byte_lsb ys)) ! b"
  shows "get_bytes raw p (length ys) w = (ys, whiten_after w (8 * length ys))"
  using assms
proof (induction ys arbitrary: p w)
  case (Cons y ys)
  have l: "whiten w (concat (map byte_lsb (y # ys))) =
      whiten w (byte_lsb y) @ whiten (whiten_after w 8) (concat (map byte_lsb ys))"
    by (simp add: whiten_append)
  note r = Cons.prems [unfolded l nth_append]
  have 1: "get_byte raw p w = (y, whiten_after w 8)"
    by (rule get_byte_ok) (use r in simp)
  have "raw (40 + 8 * Suc p + b) = whiten (whiten_after w 8) (concat (map byte_lsb ys)) ! b" if "b < 8 * length ys" for b
    using r [of "8 + b"] that by (simp add: algebra_simps)
  then have "get_bytes raw (Suc p) (length ys) (whiten_after w 8) = (ys, whiten_after (whiten_after w 8) (8 * length ys))"
    by (rule Cons.IH)
  moreover have "whiten_after (whiten_after w 8) (8 * length ys) = whiten_after w (8 * length (y # ys))"
    by (simp add: whiten_after_def funpow_add [symmetric, THEN fun_cong, simplified comp_def] add.commute)
  ultimately show ?case using 1 by simp
qed (simp add: whiten_after_def)

lemma get_bytes_append:
  "get_bytes raw p (m + n) w = (case get_bytes raw p m w of (xs, w) \<Rightarrow> case get_bytes raw (p + m) n w of (ys, w) \<Rightarrow> (xs @ ys, w))"
  by (induction m arbitrary: p w) (auto split: prod.split)

section \<open>Synchronisation\<close>

lemma build_ref_list: "build_ref =
  [False, True, False, True, False, True, False, True, False, True, True, False, True, False, True, True,
   False, True, True, True, True, True, False, True, True, False, False, True, False, False, False, True,
   False, True, True, True, False, False, False, True]"
  by code_simp

lemma build_ref_facts: "length build_ref = 40" "sum_list (map (\<lambda>r. if r then 1 else - 1 :: real) build_ref) = 4"
  by (simp_all add: build_ref_list)

text \<open>
  The discriminator output of a packet: the deviation \<^verbatim>\<open>a\<close> for ones and its negative for zeros, turned round
  by the polarity, on top of the carrier offset, with noise of at most \<^verbatim>\<open>e\<close>.
\<close>

definition level :: "bool \<Rightarrow> real" where "level x = (if x then 1 else - 1)"

definition heard :: "btle_decoder \<Rightarrow> nat \<Rightarrow> bits \<Rightarrow> real \<Rightarrow> real \<Rightarrow> real \<Rightarrow> real \<Rightarrow> bool" where
  "heard D j air pol a dc e \<longleftrightarrow> (\<forall>k<length air. \<bar>samp D j k - (dc + pol * a * level (air ! k))\<bar> \<le> e)"

lemma noisy_sum:
  "\<forall>k\<in>set ks. \<bar>v k - (c + b * l k)\<bar> \<le> e \<Longrightarrow>
   \<bar>sum_list (map v ks) - (real (length ks) * c + b * sum_list (map l ks))\<bar> \<le> real (length ks) * (e :: real)"
proof (induction ks)
  case (Cons k ks)
  then have "\<bar>v k - (c + b * l k)\<bar> \<le> e"
    "\<bar>sum_list (map v ks) - (real (length ks) * c + b * sum_list (map l ks))\<bar> \<le> real (length ks) * e" by simp_all
  then show ?case by (simp add: algebra_simps abs_le_iff)
qed simp

lemma sync_mean:
  assumes v: "\<And>k. k < 40 \<Longrightarrow> \<bar>v k - (dc + pol * a * level (build_ref ! k))\<bar> \<le> e"
  shows "\<bar>sum_list (map v [0..<40]) / 40 - (dc + pol * a / 10)\<bar> \<le> e"
proof -
  define ks where "ks = [0..<(40 :: nat)]"
  have "map level build_ref = map (\<lambda>k. level (build_ref ! k)) ks"
    unfolding ks_def by (intro nth_equalityI) (simp_all add: build_ref_facts(1))
  moreover have "sum_list (map level build_ref) = 4" using build_ref_facts(2) by (simp add: level_def [abs_def])
  ultimately have l: "sum_list (map (\<lambda>k. level (build_ref ! k)) ks) = 4" by simp
  have "length ks = 40" "\<forall>k\<in>set ks. \<bar>v k - (dc + pol * a * level (build_ref ! k))\<bar> \<le> e"
    using v by (simp_all add: ks_def)
  then have "\<bar>sum_list (map v ks) - (40 * dc + pol * a * 4)\<bar> \<le> 40 * e"
    using noisy_sum [of ks v dc "pol * a" "\<lambda>k. level (build_ref ! k)" e] unfolding l by simp
  then show ?thesis unfolding ks_def [symmetric] by (simp add: field_simps abs_le_iff)
qed

lemma margin_pos: "1 / 100000 \<le> 40 * (x :: real) \<Longrightarrow> 0 < x"
  by linarith

lemma sync_found:
  assumes h: "heard D j (build_ref @ xs) pol a dc e" and pol: "pol = 1 \<or> pol = - 1"
    and g: "1 / 100000 \<le> 40 * (9 / 10 * a - 2 * e)" and e: "0 \<le> e" and t: "bd_thresh D \<le> 1"
  obtains m where "find_sync D j = Some (pol, m)" "\<bar>m - (dc + pol * a / 10)\<bar> \<le> e"
proof -
  define v where "v = samp D j"
  define ks where "ks = [0..<(40 :: nat)]"
  define m where "m = sum_list (map v ks) / 40"
  define r where "r = (\<lambda>k. level (build_ref ! k))"
  have hv: "\<bar>v k - (dc + pol * a * r k)\<bar> \<le> e" if "k < 40" for k
    using h [unfolded heard_def, rule_format, of k] that build_ref_facts(1) by (simp add: nth_append v_def r_def)
  have m: "\<bar>m - (dc + pol * a / 10)\<bar> \<le> e" unfolding m_def ks_def by (rule sync_mean) (use hv in \<open>simp add: r_def\<close>)
  have a1: "0 < 9 / 10 * a - 2 * e" using g by (rule margin_pos)
  then have a2: "0 < a" using e by linarith
  note a = a1 a2
  have s: "(v k - m) * r k = pol * \<bar>v k - m\<bar> \<and> 9 / 10 * a - 2 * e \<le> \<bar>v k - m\<bar>" if "k < 40" for k
    using hv [OF that] m pol a by (auto simp: r_def level_def abs_le_iff abs_if split: if_splits)
  have ks: "length ks = 40" "set ks = {..<40}" by (auto simp: ks_def)
  define en where "en = sum_list (map (\<lambda>k. \<bar>v k - m\<bar>) ks)"
  have "sum_list (map (\<lambda>k. 9 / 10 * a - 2 * e) ks) \<le> en"
    unfolding en_def using s ks(2) by (intro sum_list_mono) simp
  then have en: "1 / 100000 \<le> en" using g ks(1) by (simp add: sum_list_triv)
  have corr: "sum_list (map2 (\<lambda>v r. (v - m) * (if r then 1 else - 1)) (map v ks) build_ref) = pol * en"
  proof -
    have "map2 (\<lambda>v r. (v - m) * (if r then 1 else - 1)) (map v ks) build_ref = map (\<lambda>k. (v k - m) * r k) ks"
      by (intro nth_equalityI) (simp_all add: build_ref_facts(1) r_def level_def ks_def)
    also have "\<dots> = map (\<lambda>k. pol * \<bar>v k - m\<bar>) ks" using s ks(2) by simp
    finally show ?thesis by (simp add: en_def sum_list_const_mult)
  qed
  have q: "pol * en / en = pol" using en by simp
  have "find_sync D j = Some (pol, m)"
    using en q pol t unfolding find_sync_def Let_def v_def [symmetric] of_nat_numeral ks_def [symmetric] m_def [symmetric] corr map_map comp_def en_def [symmetric]
    by auto
  then show ?thesis using m by (rule that)
qed

lemma slice_heard:
  assumes h: "heard D j air pol a dc e" and pol: "pol = 1 \<or> pol = - 1" and g: "0 < 9 / 10 * a - 2 * e" "0 < a"
    and m: "\<bar>m - (dc + pol * a / 10)\<bar> \<le> e" and k: "k < length air"
  shows "slice_bit D j pol m k = air ! k"
proof -
  have "\<bar>samp D j k - (dc + pol * a * level (air ! k))\<bar> \<le> e" using h k by (simp add: heard_def)
  then show ?thesis using m pol g by (auto simp: slice_bit_def level_def abs_le_iff split: if_splits)
qed

section \<open>Delivery\<close>

definition heard_ok :: "btle_decoder \<Rightarrow> nat \<Rightarrow> bytes \<Rightarrow> real \<Rightarrow> real \<Rightarrow> real \<Rightarrow> real \<Rightarrow> bool" where
  "heard_ok D j pdu pol a dc e \<longleftrightarrow> heard D j (on_air (bd_chan D) pdu) pol a dc e \<and> (pol = 1 \<or> pol = - 1) \<and>
     1 / 100000 \<le> 40 * (9 / 10 * a - 2 * e) \<and> 0 \<le> e \<and> bd_thresh D \<le> 1"

text \<open>A PDU: two bytes of header, the second with the length of the rest.\<close>

definition adv_pdu :: "bytes \<Rightarrow> bool" where
  "adv_pdu pdu \<longleftrightarrow> 8 \<le> length pdu \<and> length pdu \<le> 39 \<and> unat (pdu ! 1) mod 64 = length pdu - 2"

definition buffer_of :: "bytes \<Rightarrow> bytes" where
  "buffer_of pdu = framed pdu @ replicate (44 - length (framed pdu)) 0"

lemma framed_length [simp]: "length (framed pdu) = length pdu + 3"
  by (simp add: framed_def crc_bytes_def)

lemma decode_heard:
  assumes h: "heard_ok D j pdu pol a dc e" and p: "adv_pdu pdu"
  obtains m where "find_sync D j = Some (pol, m)" "\<bar>m - (dc + pol * a / 10)\<bar> \<le> e"
    "btle_decode_at D j pol m = Packet (packet_end D (length pdu - 2))
       (btle_record (bd_chan D) (buffer_of pdu) (packet_rssi (take (packet_end D (length pdu - 2)) (drop j (bd_amp D))))
         (m * bd_sr D / (2 * 3.14159265358979323846)))"
proof -
  define n where "n = length pdu - 2"
  define fr where "fr = framed pdu"
  have n: "length pdu = 2 + n" "6 \<le> n" "n \<le> 37" "unat (pdu ! 1) mod 64 = n" using p by (auto simp: adv_pdu_def n_def)
  have lf: "length fr = 2 + (n + 3)" by (simp add: fr_def n(1))
  have hh: "heard D j (on_air (bd_chan D) pdu) pol a dc e" "pol = 1 \<or> pol = - 1" "1 / 100000 \<le> 40 * (9 / 10 * a - 2 * e)"
    "0 \<le> e" "bd_thresh D \<le> 1" using h by (simp_all add: heard_ok_def)
  have a1: "0 < 9 / 10 * a - 2 * e" using hh(3) by (rule margin_pos)
  then have a2: "0 < a" using hh(4) by linarith
  obtain m where m: "find_sync D j = Some (pol, m)" "\<bar>m - (dc + pol * a / 10)\<bar> \<le> e"
    using sync_found [OF hh(1) [unfolded on_air_eq] hh(2-5)] .
  have sl: "slice_bit D j pol m (40 + b) = whiten (whiten_init (bd_chan D)) (concat (map byte_lsb fr)) ! b" if "b < 8 * length fr" for b
    using slice_heard [OF hh(1,2) a1 a2 m(2), of "40 + b"] that
    by (simp add: on_air_eq fr_def build_ref_facts(1) nth_append)
  have all: "get_bytes (slice_bit D j pol m) 0 (2 + (n + 3)) (whiten_init (bd_chan D)) =
      (fr, whiten_after (whiten_init (bd_chan D)) (8 * length fr))"
    using get_bytes_ok [of fr "slice_bit D j pol m" 0 "whiten_init (bd_chan D)"] sl unfolding lf by simp
  obtain h2 w rest w2 where g: "get_bytes (slice_bit D j pol m) 0 2 (whiten_init (bd_chan D)) = (h2, w)"
    "get_bytes (slice_bit D j pol m) 2 (n + 3) w = (rest, w2)" by fastforce
  have rb: "h2 @ rest = fr" using all [unfolded get_bytes_append [of _ _ 2 "n + 3"] g add_0_left prod.case] by simp
  have l2: "length h2 = 2" using g(1) by (auto simp: numeral_2_eq_2 split: prod.splits)
  have h1: "unat (h2 ! 1) mod 64 = n"
  proof -
    have "fr ! 1 = pdu ! 1" by (simp add: fr_def framed_def nth_append n(1))
    moreover have "fr ! 1 = h2 ! 1" unfolding rb [symmetric] by (simp add: nth_append l2)
    ultimately show ?thesis using n(4) by simp
  qed
  have t: "take (2 + n) fr = pdu" by (simp add: fr_def framed_def n(1))
  have cb: "fr ! (2 + n + i) = crc_bytes (ble_crc pdu 0xAAAAAA) ! i" for i
    unfolding fr_def framed_def n(1) [symmetric] by (rule nth_append_length_plus)
  have rx: "(ucast (fr ! (2 + n)) OR push_bit 8 (ucast (fr ! (3 + n))) OR push_bit 16 (ucast (fr ! (4 + n))) :: u32) =
      ble_crc pdu 0xAAAAAA"
    using crc_bytes_back [of "ble_crc pdu 0xAAAAAA"] ble_crc_24 cb [of 0] cb [of 1] cb [of 2]
    by (simp add: add.commute add.left_commute numeral_3_eq_3 eval_nat_numeral)
  have "btle_decode_at D j pol m = Packet (packet_end D n)
       (btle_record (bd_chan D) (buffer_of pdu) (packet_rssi (take (packet_end D n) (drop j (bd_amp D))))
         (m * bd_sr D / (2 * 3.14159265358979323846)))"
    unfolding btle_decode_at_def Let_def g prod.case h1 rb t rx buffer_of_def fr_def [symmetric] using n(2,3) by simp
  then show ?thesis using m n_def by (intro that) simp_all
qed

end
