(* ===== verification/BtleStream.thy ===== *)
theory BtleStream
  imports BtleRx
begin

text \<open>
  The records of the BLE receiver do not depend on how the stream is cut into pieces: a place is only
  tried when all samples that can matter there have arrived, and what is kept is exactly what has
  not been tried.
\<close>

section \<open>What a place depends on\<close>

definition with_in :: "real list \<Rightarrow> real list \<Rightarrow> nat \<Rightarrow> real \<Rightarrow> real \<Rightarrow> btle_decoder \<Rightarrow> btle_decoder" where
  "with_in b a s m o' D = D\<lparr> bd_buf := b, bd_amp := a, bd_samp := s, bd_maxlev := m, bd_base := o' \<rparr>"

lemma with_in_sel [simp]:
  "bd_buf (with_in b a s m o' D) = b" "bd_amp (with_in b a s m o' D) = a" "bd_samp (with_in b a s m o' D) = s"
  "bd_maxlev (with_in b a s m o' D) = m" "bd_base (with_in b a s m o' D) = o'" "bd_spb (with_in b a s m o' D) = bd_spb D"
  "bd_sr (with_in b a s m o' D) = bd_sr D" "bd_chan (with_in b a s m o' D) = bd_chan D"
  "bd_thresh (with_in b a s m o' D) = bd_thresh D"
  "with_in b a s m o' (with_in b' a' s' m' o'' D) = with_in b a s m o' D"
  by (simp_all add: with_in_def)

lemma count_found_sel [simp]:
  "bd_buf (count_found r D) = bd_buf D" "bd_amp (count_found r D) = bd_amp D" "bd_samp (count_found r D) = bd_samp D"
  "bd_maxlev (count_found r D) = bd_maxlev D" "bd_base (count_found r D) = bd_base D" "bd_spb (count_found r D) = bd_spb D"
  "bd_sr (count_found r D) = bd_sr D" "bd_chan (count_found r D) = bd_chan D" "bd_thresh (count_found r D) = bd_thresh D"
  by (cases r; simp add: count_found_def)+

lemma count_found_with_in: "count_found r (with_in b a s m o' D) = with_in b a s m o' (count_found r D)"
  by (cases r) (simp_all add: count_found_def with_in_def)

lemma need_sel [simp]: "btle_need (with_in b a s m o' D) = btle_need D" "btle_need (count_found r D) = btle_need D"
  "packet_end (with_in b a s m o' D) n = packet_end D n" "packet_end (count_found r D) n = packet_end D n"
  by (simp_all add: btle_need_def packet_end_def)

lemma samp_with_in: "samp (with_in b a s m o' D) j k =
    (let i = j + off_tab (bd_spb D) k in if i \<ge> length b then 0 else b ! i)"
  unfolding samp_def with_in_sel ..

lemma samp_count_found [simp]: "samp (count_found r D) = samp D"
  by (intro ext) (unfold samp_def count_found_sel, rule refl)

lemma need_pos: "0 < btle_need D"
  by (simp add: btle_need_def)

lemma nat_floor_less: "x < y \<Longrightarrow> 0 < (y :: real) \<Longrightarrow> nat \<lfloor>x + 1 / 2\<rfloor> < nat \<lfloor>y\<rfloor> + 2"
proof -
  assume a: "x < y" "0 < y"
  have "\<lfloor>x + 1 / 2\<rfloor> \<le> \<lfloor>y + 1\<rfloor>" using a by (intro floor_mono) simp
  then have "\<lfloor>x + 1 / 2\<rfloor> < \<lfloor>y\<rfloor> + 2" by simp
  moreover have "0 \<le> \<lfloor>y\<rfloor>" using a by simp
  ultimately show ?thesis by linarith
qed

lemma off_tab_need: "0 < bd_spb D \<Longrightarrow> k < 376 \<Longrightarrow> off_tab (bd_spb D) k < btle_need D"
proof -
  assume s: "0 < bd_spb D" and k: "k < 376"
  have "real k + 1 / 2 < real (SYNC_BITS + (2 + 37 + 3) * 8 + 2)" using k by simp
  then have "(real k + 1 / 2) * bd_spb D < real (SYNC_BITS + (2 + 37 + 3) * 8 + 2) * bd_spb D"
    using s by (intro mult_strict_right_mono)
  then show ?thesis unfolding off_tab_def btle_need_def using s nat_floor_less
      [of "(real k + 1 / 2) * bd_spb D" "real (SYNC_BITS + (2 + 37 + 3) * 8 + 2) * bd_spb D"] by simp
qed

lemma packet_end_need: "0 < bd_spb D \<Longrightarrow> n \<le> 37 \<Longrightarrow> packet_end D n \<le> btle_need D"
  unfolding packet_end_def btle_need_def by (intro trans_le_add1 nat_mono floor_mono mult_right_mono) simp_all

text \<open>Two decoders see the same at two places.\<close>

definition same_at :: "btle_decoder \<Rightarrow> nat \<Rightarrow> btle_decoder \<Rightarrow> nat \<Rightarrow> bool" where
  "same_at D j E i \<longleftrightarrow> bd_spb E = bd_spb D \<and> bd_sr E = bd_sr D \<and> bd_chan E = bd_chan D \<and> bd_thresh E = bd_thresh D \<and>
     (\<forall>k<376. samp E i k = samp D j k) \<and> take (btle_need D) (drop i (bd_amp E)) = take (btle_need D) (drop j (bd_amp D))"

lemma get_byte_cong: "(\<And>k. 40 + 8 * p \<le> k \<Longrightarrow> k < 48 + 8 * p \<Longrightarrow> raw k = raw' k) \<Longrightarrow> get_byte raw p w = get_byte raw' p w"
  unfolding get_byte_def by (intro foldl_cong) (auto split: prod.split)

lemma get_bytes_cong:
  "(\<And>k. k < 40 + 8 * (p + n) \<Longrightarrow> raw k = raw' k) \<Longrightarrow> get_bytes raw p n w = get_bytes raw' p n w"
proof (induction n arbitrary: p w)
  case (Suc n)
  have "get_byte raw p w = get_byte raw' p w" using Suc.prems by (intro get_byte_cong) simp
  moreover have "get_bytes raw (Suc p) n w' = get_bytes raw' (Suc p) n w'" for w'
    using Suc.prems by (intro Suc.IH) simp
  ultimately show ?case by simp
qed simp

lemma find_sync_same: "same_at D j E i \<Longrightarrow> find_sync E i = find_sync D j"
proof -
  assume "same_at D j E i"
  then have m: "map (samp E i) [0..<40] = map (samp D j) [0..<40]" and t: "bd_thresh E = bd_thresh D" by (simp_all add: same_at_def)
  show ?thesis unfolding find_sync_def m t ..
qed

lemma btle_decode_at_same:
  assumes s: "same_at D j E i" and p: "0 < bd_spb D"
  shows "btle_decode_at E i pol dc = btle_decode_at D j pol dc"
proof -
  have f: "bd_spb E = bd_spb D" "bd_sr E = bd_sr D" "bd_chan E = bd_chan D"
    and am: "take (btle_need D) (drop i (bd_amp E)) = take (btle_need D) (drop j (bd_amp D))"
    using s by (simp_all add: same_at_def)
  have sl: "slice_bit E i pol dc k = slice_bit D j pol dc k" if "k < 376" for k
    using s that by (simp_all add: same_at_def slice_bit_def)
  have g2: "get_bytes (slice_bit E i pol dc) 0 2 w = get_bytes (slice_bit D j pol dc) 0 2 w" for w
    by (rule get_bytes_cong) (simp add: sl)
  have gn: "get_bytes (slice_bit E i pol dc) 2 (n + 3) w = get_bytes (slice_bit D j pol dc) 2 (n + 3) w" if "n \<le> 37" for n w
    by (rule get_bytes_cong) (use that in \<open>simp add: sl\<close>)
  have pe: "packet_end E n = packet_end D n" for n by (simp add: packet_end_def f)
  have pr: "take (packet_end D n) (drop i (bd_amp E)) = take (packet_end D n) (drop j (bd_amp D))" if "n \<le> 37" for n
  proof -
    have m: "min (packet_end D n) (btle_need D) = packet_end D n" using packet_end_need [OF p that] by simp
    have "take (packet_end D n) (take (btle_need D) (drop i (bd_amp E))) = take (packet_end D n) (take (btle_need D) (drop j (bd_amp D)))"
      using am by simp
    then show ?thesis by (simp add: m)
  qed
  show ?thesis
    unfolding btle_decode_at_def Let_def g2 f pe by (auto simp: gn pr split: prod.split)
qed

section \<open>Scans\<close>

definition scan_after :: "BtleRecord list \<Rightarrow> nat \<times> btle_decoder \<times> BtleRecord list \<Rightarrow> nat \<times> btle_decoder \<times> BtleRecord list" where
  "scan_after ms r = (case r of (e, D, ms') \<Rightarrow> (e, D, ms @ ms'))"

lemma scan_end: "limit < j \<Longrightarrow> btle_scan limit j D = (j, D, [])"
  by (subst btle_scan.simps) simp

lemma scan_none: "j \<le> limit \<Longrightarrow> find_sync D j = None \<Longrightarrow> btle_scan limit j D = btle_scan limit (Suc j) D"
  by (subst btle_scan.simps) simp

lemma scan_bad: "j \<le> limit \<Longrightarrow> find_sync D j = Some (pol, dc) \<Longrightarrow> btle_decode_at D j pol dc = r \<Longrightarrow> \<nexists>n m. r = Packet n m \<Longrightarrow>
    btle_scan limit j D = btle_scan limit (Suc j) (count_found r D)"
  by (subst btle_scan.simps) (cases r; simp)

lemma scan_packet: "j \<le> limit \<Longrightarrow> find_sync D j = Some (pol, dc) \<Longrightarrow> btle_decode_at D j pol dc = Packet n m \<Longrightarrow>
    btle_scan limit j D = scan_after [m] (btle_scan limit (if n > 0 then j + n else Suc j) (count_found (Packet n m) D))"
  by (subst btle_scan.simps) (simp add: scan_after_def split: prod.split)

lemmas scan_cases = scan_end scan_none scan_bad scan_packet

lemma decode_packet_length: "btle_decode_at D j pol dc = Packet n m \<Longrightarrow> \<exists>l\<le>37. n = packet_end D l"
  by (auto simp: btle_decode_at_def Let_def split: prod.splits if_splits) (metis not_less)

text \<open>One case distinction for all proofs about scans.\<close>

lemma scan_step_cases:
  obtains "limit < j" | "j \<le> limit" "find_sync D j = None"
  | pol dc r where "j \<le> limit" "find_sync D j = Some (pol, dc)" "btle_decode_at D j pol dc = r" "\<nexists>n m. r = Packet n m"
  | pol dc n m where "j \<le> limit" "find_sync D j = Some (pol, dc)" "btle_decode_at D j pol dc = Packet n m"
  by (metis not_le option.exhaust surj_pair)

lemma scan_bounds:
  assumes "0 < bd_spb D"
  shows "limit < fst (btle_scan limit j D) \<and> fst (btle_scan limit j D) \<le> max j (limit + btle_need D) \<and>
    (\<exists>s n k f. fst (snd (btle_scan limit j D)) = D\<lparr> bd_sync := s, bd_lenok := n, bd_ok := k, bd_fail := f \<rparr>)"
  using assms
proof (induction "Suc limit - j" arbitrary: j D rule: less_induct)
  case less
  have "count_found r D = D\<lparr> bd_sync := bd_sync (count_found r D), bd_lenok := bd_lenok (count_found r D),
      bd_ok := bd_ok (count_found r D), bd_fail := bd_fail (count_found r D) \<rparr>" for r
    by (cases r) (simp_all add: count_found_def)
  then have c: "\<exists>s n k f. count_found r D = D\<lparr> bd_sync := s, bd_lenok := n, bd_ok := k, bd_fail := f \<rparr>" for r by blast
  show ?case
  proof (cases rule: scan_step_cases [where limit = limit and j = j and D = D])
    case 1
    have "D = D\<lparr> bd_sync := bd_sync D, bd_lenok := bd_lenok D, bd_ok := bd_ok D, bd_fail := bd_fail D \<rparr>" by simp
    then show ?thesis using 1 scan_end [OF 1, of D] by (metis fst_conv snd_conv max.cobounded1)
  next
    case 2
    then show ?thesis using less.hyps [of "Suc j" D] less.prems scan_none [OF 2] need_pos [of D] by (auto simp: max_def split: if_splits)
  next
    case (3 pol dc r)
    then show ?thesis
      using less.hyps [of "Suc j" "count_found r D"] less.prems c [of r] scan_bad [OF 3] need_pos [of D] by (auto simp: max_def split: if_splits)
  next
    case (4 pol dc n m)
    let ?j = "if n > 0 then j + n else Suc j"
    obtain l where "l \<le> 37" "n = packet_end D l" using decode_packet_length [OF 4(3)] by blast
    then have "n \<le> btle_need D" using packet_end_need [OF less.prems] by simp
    moreover have "0 < btle_need D" by (rule need_pos)
    ultimately have "?j \<le> limit + btle_need D" using 4(1) by auto
    moreover have "Suc limit - ?j < Suc limit - j" using 4(1) by auto
    ultimately show ?thesis
      using less.hyps [of ?j "count_found (Packet n m) D"] less.prems c [of "Packet n m"] scan_packet [OF 4]
      by (auto simp: scan_after_def max_def split: if_splits prod.splits)
  qed
qed

text \<open>A scan over a longer buffer goes on where the scan over its beginning has ended.\<close>

lemma scan_extend:
  assumes "0 < bd_spb D" "limit \<le> limit'" "\<forall>i\<le>limit. same_at D i (with_in b a s m o' D) i"
  shows "btle_scan limit' j (with_in b a s m o' D) =
    (case btle_scan limit j D of (e, D', ms) \<Rightarrow> scan_after ms (btle_scan limit' e (with_in b a s m o' D')))"
  using assms
proof (induction "Suc limit - j" arbitrary: j D rule: less_induct)
  case less
  let ?W = "with_in b a s m o'"
  have cf: "\<forall>i\<le>limit. same_at (count_found r D) i (?W (count_found r D)) i" for r
    using less.prems(3) by (simp add: same_at_def samp_with_in)
  have wf: "find_sync (?W D) j = find_sync D j" "btle_decode_at (?W D) j pol dc = btle_decode_at D j pol dc" if "j \<le> limit" for pol dc
    using less.prems that find_sync_same btle_decode_at_same by blast+
  show ?case
  proof (cases rule: scan_step_cases [where limit = limit and j = j and D = D])
    case 1
    then show ?thesis by (simp add: scan_end scan_after_def)
  next
    case 2
    then show ?thesis using less.hyps [of "Suc j" D] less.prems scan_none [OF 2] scan_none [of j limit' "?W D"] wf by simp
  next
    case (3 pol dc r)
    then show ?thesis
      using less.hyps [of "Suc j" "count_found r D"] less.prems scan_bad [OF 3] scan_bad [of j limit' "?W D" pol dc r] wf cf
      by (simp add: count_found_with_in)
  next
    case (4 pol dc n q)
    let ?j = "if n > 0 then j + n else Suc j"
    have "Suc limit - ?j < Suc limit - j" using 4(1) by auto
    then show ?thesis
      using less.hyps [of ?j "count_found (Packet n q) D"] less.prems scan_packet [OF 4] 4
        scan_packet [of j limit' "?W D" pol dc n q] wf cf
      by (simp add: count_found_with_in scan_after_def split: prod.split)
  qed
qed

text \<open>Samples that have been tried can be dropped.\<close>

lemma scan_shift:
  assumes "d \<le> length b"
  shows "btle_scan limit j (with_in (drop d b) (drop d a) s m o' D) =
    (case btle_scan (d + limit) (d + j) (with_in b a s m p D) of (e, D', ms) \<Rightarrow> (e - d, with_in (drop d b) (drop d a) s m o' D', ms))"
proof (induction "Suc limit - j" arbitrary: j D rule: less_induct)
  case less
  let ?V = "with_in (drop d b) (drop d a) s m o'" and ?W = "with_in b a s m p"
  have sm: "samp (?V D) j = samp (?W D) (d + j)"
  proof
    show "samp (?V D) j k = samp (?W D) (d + j) k" for k
      using assms unfolding samp_with_in Let_def by (cases "length b \<le> d + (j + off_tab (bd_spb D) k)") (auto simp: add.assoc)
  qed
  have f: "find_sync (?V D) j = find_sync (?W D) (d + j)"
    unfolding find_sync_def sm with_in_sel ..
  have sl: "slice_bit (?V D) j pol dc = slice_bit (?W D) (d + j) pol dc" for pol dc
    by (intro ext) (simp only: slice_bit_def sm)
  have dd: "drop j (drop d a) = drop (d + j) a" by (simp add: add.commute)
  have g: "btle_decode_at (?V D) j pol dc = btle_decode_at (?W D) (d + j) pol dc" for pol dc
    unfolding btle_decode_at_def sl with_in_sel need_sel dd ..
  show ?case
  proof (cases rule: scan_step_cases [where limit = limit and j = j and D = "?V D"])
    case 1
    then show ?thesis by (simp add: scan_end)
  next
    case 2
    then show ?thesis using less.hyps [of "Suc j" D] scan_none [OF 2] scan_none [of "d + j" "d + limit" "?W D"] f by simp
  next
    case (3 pol dc r)
    then show ?thesis
      using less.hyps [of "Suc j" "count_found r D"] scan_bad [OF 3] scan_bad [of "d + j" "d + limit" "?W D" pol dc r] f g
      by (simp add: count_found_with_in)
  next
    case (4 pol dc n q)
    let ?j = "if n > 0 then j + n else Suc j"
    have "Suc limit - ?j < Suc limit - j" using 4(1) by auto
    then show ?thesis
      using less.hyps [of ?j "count_found (Packet n q) D"] scan_packet [OF 4] 4
        scan_packet [of "d + j" "d + limit" "?W D" pol dc n q] f g
      by (auto simp: count_found_with_in scan_after_def add.assoc split: prod.split if_splits)
  qed
qed

section \<open>Pieces of a stream\<close>

definition btle_feed :: "(real \<times> real) list \<Rightarrow> btle_decoder \<Rightarrow> btle_decoder" where
  "btle_feed xs D = with_in (bd_buf D @ map fst xs) (bd_amp D @ map snd xs) (bd_samp D + length xs)
     (foldl (\<lambda>m (d, _). if \<bar>d\<bar> > m then \<bar>d\<bar> else m) (bd_maxlev D) xs) (bd_base D) D"

definition btle_sweep :: "btle_decoder \<Rightarrow> btle_decoder \<times> BtleRecord list" where
  "btle_sweep D =
     (if length (bd_buf D) < btle_need D then (D, [])
      else case btle_scan (length (bd_buf D) - btle_need D) 0 D of
             (j, D, ms) \<Rightarrow> (with_in (drop j (bd_buf D)) (drop j (bd_amp D)) (bd_samp D) (bd_maxlev D) (bd_base D + real j) D, ms))"

lemma process_sweep: "btle_process xs D = btle_sweep (btle_feed xs D)"
proof -
  have f: "D\<lparr> bd_samp := bd_samp D + length xs, bd_maxlev := foldl (\<lambda>m (d, _). if \<bar>d\<bar> > m then \<bar>d\<bar> else m) (bd_maxlev D) xs,
      bd_buf := bd_buf D @ map fst xs, bd_amp := bd_amp D @ map snd xs \<rparr> = btle_feed xs D"
    by (simp add: btle_feed_def with_in_def)
  show ?thesis
    unfolding btle_process_def Let_def f btle_sweep_def by (auto simp: with_in_def split: prod.split)
qed

lemma feed_append: "btle_feed (xs @ ys) D = btle_feed ys (btle_feed xs D)"
  by (simp add: btle_feed_def with_in_def)

lemma same_extended:
  assumes "0 < bd_spb D" "i + btle_need D \<le> length (bd_buf D)" "length (bd_amp D) = length (bd_buf D)"
  shows "same_at D i (with_in (bd_buf D @ b) (bd_amp D @ a) s m o' D) i"
proof -
  have "samp (with_in (bd_buf D @ b) (bd_amp D @ a) s m o' D) i k = samp D i k" if "k < 376" for k
  proof -
    have "i + off_tab (bd_spb D) k < length (bd_buf D)" using off_tab_need [OF assms(1) that] assms(2) by simp
    then show ?thesis unfolding samp_with_in samp_def Let_def by (simp add: nth_append)
  qed
  then show ?thesis using assms(2,3) by (simp add: same_at_def)
qed

lemma sweep_feed:
  assumes p: "0 < bd_spb D" and l: "length (bd_amp D) = length (bd_buf D)"
  shows "btle_sweep (btle_feed ys D) =
    (case btle_sweep D of (D1, ms1) \<Rightarrow> case btle_sweep (btle_feed ys D1) of (D2, ms2) \<Rightarrow> (D2, ms1 @ ms2))"
proof (cases "length (bd_buf D) < btle_need D")
  case True
  then show ?thesis by (simp add: btle_sweep_def)
next
  case False
  define N where "N = btle_need D"
  define lim1 where "lim1 = length (bd_buf D) - N"
  define b where "b = bd_buf D @ map fst ys"
  define a where "a = bd_amp D @ map snd ys"
  define s where "s = bd_samp D + length ys"
  define m where "m = foldl (\<lambda>m (d, _). if \<bar>d\<bar> > m then \<bar>d\<bar> else m) (bd_maxlev D) ys"
  define lim2 where "lim2 = length b - N"
  have N: "N \<le> length (bd_buf D)" using False by (simp add: N_def)
  have F: "btle_feed ys D = with_in b a s m (bd_base D) D" by (simp add: btle_feed_def b_def a_def s_def m_def)
  obtain e D' ms1 where sc: "btle_scan lim1 0 D = (e, D', ms1)" by (metis prod_cases3)
  have e: "lim1 < e" "e \<le> length (bd_buf D)" and D': "\<exists>s n k f. D' = D\<lparr> bd_sync := s, bd_lenok := n, bd_ok := k, bd_fail := f \<rparr>"
    using scan_bounds [OF p, of lim1 0, unfolded sc] N by (simp_all add: lim1_def N_def)
  have sel: "bd_buf D' = bd_buf D" "bd_amp D' = bd_amp D" "bd_samp D' = bd_samp D" "bd_maxlev D' = bd_maxlev D"
    "bd_base D' = bd_base D" "btle_need D' = N" using D' by (auto simp: N_def btle_need_def)
  define V where "V = with_in (drop e b) (drop e a) s m (bd_base D + real e)"
  have s1: "btle_sweep D = (with_in (drop e (bd_buf D)) (drop e (bd_amp D)) (bd_samp D) (bd_maxlev D) (bd_base D + real e) D', ms1)"
    using False by (simp add: btle_sweep_def N_def [symmetric] lim1_def [symmetric] sc sel)
  have f1: "btle_feed ys (fst (btle_sweep D)) = V D'"
    using e l by (simp add: s1 btle_feed_def V_def b_def a_def s_def m_def)
  have ext: "btle_scan lim2 0 (with_in b a s m (bd_base D) D) = scan_after ms1 (btle_scan lim2 e (with_in b a s m (bd_base D) D'))"
  proof -
    have "\<forall>i\<le>lim1. same_at D i (with_in b a s m (bd_base D) D) i"
      unfolding b_def a_def using same_extended [OF p _ l] N by (simp add: lim1_def N_def [symmetric])
    moreover have "lim1 \<le> lim2" by (simp add: lim1_def lim2_def b_def)
    ultimately show ?thesis using scan_extend [OF p] by (simp add: sc)
  qed
  have nb: "\<not> length b < N" using N by (simp add: b_def)
  have eb: "e \<le> length b" using e by (simp add: b_def)
  have s2: "btle_sweep (btle_feed ys D) =
      (case scan_after ms1 (btle_scan lim2 e (with_in b a s m (bd_base D) D')) of (j, D, ms) \<Rightarrow>
        (with_in (drop j (bd_buf D)) (drop j (bd_amp D)) (bd_samp D) (bd_maxlev D) (bd_base D + real j) D, ms))"
    using nb unfolding btle_sweep_def F with_in_sel need_sel N_def [symmetric] lim2_def [symmetric] ext by simp
  show ?thesis
  proof (cases "length b - e < N")
    case True
    then have "lim2 < e" using N by (simp add: lim2_def b_def)
    moreover have "btle_sweep (V D') = (V D', [])" using True by (simp add: btle_sweep_def V_def sel)
    ultimately show ?thesis using f1 s1 unfolding s2 by (simp add: scan_end scan_after_def V_def)
  next
    case le: False
    define k where "k = lim2 - e"
    have k: "e + k = lim2" "length (drop e b) - N = k"
    using le need_pos [of D] unfolding k_def lim2_def N_def [symmetric] by simp_all
    obtain e2 D2 ms2 where sc2: "btle_scan lim2 e (with_in b a s m (bd_base D) D') = (e2, D2, ms2)" by (metis prod_cases3)
    have p': "0 < bd_spb (with_in b a s m (bd_base D) D')" using D' p by auto
    have e2: "lim2 < e2" and D2: "\<exists>x n k f. D2 = (with_in b a s m (bd_base D) D')\<lparr> bd_sync := x, bd_lenok := n, bd_ok := k, bd_fail := f \<rparr>"
      using scan_bounds [OF p', of lim2 e, unfolded sc2] by simp_all
    have sel2: "bd_buf D2 = b" "bd_amp D2 = a" "bd_samp D2 = s" "bd_maxlev D2 = m" "bd_base D2 = bd_base D" using D2 by auto
    have "btle_scan k 0 (V D') = (e2 - e, V D2, ms2)"
      unfolding V_def using scan_shift [OF eb, of k 0 a s m "bd_base D + real e" D' "bd_base D"] by (simp add: k(1) sc2)
    then have "btle_sweep (V D') =
        (with_in (drop (e2 - e) (drop e b)) (drop (e2 - e) (drop e a)) s m (bd_base D + real e + real (e2 - e)) (V D2), ms2)"
      using le unfolding btle_sweep_def V_def with_in_sel need_sel sel k(2) by simp
    moreover have "e \<le> e2" using e2 k(1) by simp
    ultimately show ?thesis using f1 s1 sel2 unfolding s2 sc2 by (simp add: scan_after_def V_def)
  qed
qed

fun btle_stream :: "(real \<times> real) list list \<Rightarrow> btle_decoder \<Rightarrow> btle_decoder \<times> BtleRecord list" where
  "btle_stream [] D = (D, [])"
| "btle_stream (c # cs) D =
     (case btle_process c D of (D, ms) \<Rightarrow> case btle_stream cs D of (D, ms') \<Rightarrow> (D, ms @ ms'))"

lemma sweep_keeps: "0 < bd_spb D \<Longrightarrow> length (bd_amp D) = length (bd_buf D) \<Longrightarrow>
    0 < bd_spb (fst (btle_sweep D)) \<and> length (bd_amp (fst (btle_sweep D))) = length (bd_buf (fst (btle_sweep D)))"
  using scan_bounds [of D "length (bd_buf D) - btle_need D" 0]
  by (auto simp: btle_sweep_def split: prod.split)

lemma stream_process:
  assumes "0 < bd_spb D" "length (bd_amp D) = length (bd_buf D)"
  shows "btle_process (c @ concat cs) D = btle_stream (c # cs) D"
  using assms
proof (induction cs arbitrary: c D)
  case (Cons d cs)
  have f: "0 < bd_spb (btle_feed c D)" "length (bd_amp (btle_feed c D)) = length (bd_buf (btle_feed c D))"
    using Cons.prems by (simp_all add: btle_feed_def)
  obtain D1 ms1 where p: "btle_process c D = (D1, ms1)" by fastforce
  have d: "0 < bd_spb D1" "length (bd_amp D1) = length (bd_buf D1)" using sweep_keeps [OF f] p by (simp_all add: process_sweep)
  have "btle_process (c @ concat (d # cs)) D = btle_sweep (btle_feed (d @ concat cs) (btle_feed c D))"
    unfolding process_sweep feed_append [of c, symmetric] by simp
  also have "\<dots> = (case btle_sweep (btle_feed c D) of (D1, ms1) \<Rightarrow>
      case btle_process (d @ concat cs) D1 of (D2, ms2) \<Rightarrow> (D2, ms1 @ ms2))"
    unfolding sweep_feed [OF f] process_sweep ..
  finally show ?case using Cons.IH [OF d, of d] p by (simp add: process_sweep [symmetric])
qed (simp split: prod.split)

lemma reset_fresh: "0 < bd_spb (btle_reset rate ch adv D)" "bd_buf (btle_reset rate ch adv D) = []" "bd_amp (btle_reset rate ch adv D) = []"
  by (simp_all add: btle_reset_def Let_def)

lemma process_nothing: "btle_process [] (btle_reset rate ch adv D) = (btle_reset rate ch adv D, [])"
  using need_pos [of "btle_reset rate ch adv D"] by (simp add: process_sweep btle_sweep_def btle_feed_def reset_fresh) (simp add: with_in_def reset_fresh)

lemma stream_whole:
  "btle_stream cs (btle_reset rate ch adv D) = btle_process (concat cs) (btle_reset rate ch adv D)"
proof (cases cs)
  case Nil
  then show ?thesis by (simp add: process_nothing)
next
  case (Cons c cs')
  then show ?thesis using stream_process [of "btle_reset rate ch adv D" c cs'] by (simp add: reset_fresh)
qed

text \<open>
  C39: how the stream is cut into pieces does not matter.  Whatever pieces of whatever lengths a decoder is given after
  \<^verbatim>\<open>reset\<close>, from the one sample to the whole recording, it delivers the same records in the
  same order, and ends in the same state, as if it had been given all samples at once: no packet is lost or
  found twice at the end of a piece.
\<close>

theorem btle_pieces_equivalent:
  "btle_stream cs (btle_reset rate ch adv D) = btle_process (concat cs) (btle_reset rate ch adv D)"
  by (rule stream_whole)

end
