(* ===== verification/BtleProps.thy ===== *)
theory BtleProps
  imports BtleStream
begin

text \<open>
  What the BLE receiver delivers: every packet that can be heard, unless another valid one lies over it;
  all complete structures of its advertising data; texts that fit their buffers.
\<close>

section \<open>Packets are delivered\<close>

definition found_at :: "btle_decoder \<Rightarrow> nat \<Rightarrow> nat \<Rightarrow> BtleRecord \<Rightarrow> bool" where
  "found_at D j n r \<longleftrightarrow> (\<exists>pol dc. find_sync D j = Some (pol, dc) \<and> btle_decode_at D j pol dc = Packet n r)"

lemma found_at_count [simp]: "found_at (count_found q D) j n r = found_at D j n r"
proof -
  have s: "find_sync (count_found q D) j = find_sync D j" unfolding find_sync_def samp_count_found count_found_sel ..
  have "slice_bit (count_found q D) j pol dc = slice_bit D j pol dc" for pol dc
    by (intro ext) (simp only: slice_bit_def samp_count_found)
  then have "btle_decode_at (count_found q D) j pol dc = btle_decode_at D j pol dc" for pol dc
    by (simp only: btle_decode_at_def count_found_sel need_sel)
  then show ?thesis by (simp only: found_at_def s)
qed

lemma scan_reaches:
  assumes "found_at D j n r" "i \<le> j" "j \<le> limit"
  shows "r \<in> set (snd (snd (btle_scan limit i D))) \<or>
    (\<exists>i' n' r'. i' < j \<and> j < i' + n' \<and> found_at D i' n' r' \<and> r' \<in> set (snd (snd (btle_scan limit i D))))"
  using assms
proof (induction "Suc limit - i" arbitrary: i D rule: less_induct)
  case less
  have go: ?case if "Suc limit - k < Suc limit - i" "k \<le> j"
      "set (snd (snd (btle_scan limit k E))) \<subseteq> set (snd (snd (btle_scan limit i D)))" "\<And>j n r. found_at E j n r = found_at D j n r" for k E
    using less.hyps [OF that(1), of E] less.prems that(2-4) by blast
  show ?case
  proof (cases rule: scan_step_cases [where limit = limit and j = i and D = D])
    case 1
    then show ?thesis using less.prems by simp
  next
    case 2
    then have "i \<noteq> j" using less.prems(1) by (auto simp: found_at_def)
    then show ?thesis using 2 less.prems by (intro go [of "Suc i" D]) (auto simp: scan_none)
  next
    case (3 pol dc q)
    then have "i \<noteq> j" using less.prems(1) by (auto simp: found_at_def)
    then show ?thesis using 3 less.prems by (intro go [of "Suc i" "count_found q D"]) (auto simp: scan_bad)
  next
    case (4 pol dc m q)
    let ?k = "if m > 0 then i + m else Suc i"
    note st = scan_packet [OF 4]
    have q: "q \<in> set (snd (snd (btle_scan limit i D)))" and
      sub: "set (snd (snd (btle_scan limit ?k (count_found (Packet m q) D)))) \<subseteq> set (snd (snd (btle_scan limit i D)))"
      unfolding st by (auto simp: scan_after_def split: prod.split)
    have f: "found_at D i m q" using 4 by (auto simp: found_at_def)
    consider "i = j" | "i < j" "j < i + m" | "i < j" "?k \<le> j" using less.prems(2) by (cases "m > 0") force+
    then show ?thesis
    proof cases
      case 1
      then have "q = r" using f less.prems(1) by (auto simp: found_at_def)
      then show ?thesis using q by simp
    next
      case 2
      then show ?thesis using q f by blast
    next
      case 3
      then show ?thesis using 4(1) sub by (intro go [of ?k "count_found (Packet m q) D"]) auto
    qed
  qed
qed

text \<open>
  C38: a packet that is on the air is delivered.  Let a PDU of any type with a payload of 6 to 37 bytes be sent on an advertising
  channel as the standard says (\<^verbatim>\<open>on_air\<close>: preamble, access address, CRC and whitening), and let the discriminator see it anywhere in the stream with
  any carrier offset, in either polarity, with noise below 45 percent of the deviation.  However the stream is
  cut into pieces, the record with exactly the bytes of this PDU is delivered, with a carrier offset that is
  right up to the noise and the bias of the access address; the only exception is that a packet with a
  valid CRC was found that begins before and ends after the beginning of this one.
\<close>

theorem btle_packet_delivered:
  assumes D: "D = btle_reset rate ch adv D0" and F: "F = btle_feed (concat cs) D"
    and h: "heard_ok F j pdu pol a dc e" and p: "adv_pdu pdu" and l: "j + btle_need D \<le> length (concat cs)"
  shows "(\<exists>m. \<bar>m - (dc + pol * a / 10)\<bar> \<le> e \<and>
      btle_record adv (buffer_of pdu) (packet_rssi (take (packet_end D (length pdu - 2)) (drop j (map snd (concat cs)))))
        (m * bd_sr D / (2 * 3.14159265358979323846)) \<in> set (snd (btle_stream cs D))) \<or>
    (\<exists>i n r. i < j \<and> j < i + n \<and> found_at F i n r \<and> r \<in> set (snd (btle_stream cs D)))"
proof -
  have f: "bd_chan F = adv" "bd_sr F = bd_sr D" "bd_amp F = map snd (concat cs)" "packet_end F n = packet_end D n"
    "btle_need F = btle_need D" "length (bd_buf F) = length (concat cs)" for n
    by (simp_all add: F D btle_feed_def reset_fresh) (simp add: btle_reset_def Let_def)
  obtain m where m: "find_sync F j = Some (pol, m)" "\<bar>m - (dc + pol * a / 10)\<bar> \<le> e"
    "btle_decode_at F j pol m = Packet (packet_end D (length pdu - 2))
       (btle_record adv (buffer_of pdu) (packet_rssi (take (packet_end D (length pdu - 2)) (drop j (map snd (concat cs)))))
         (m * bd_sr D / (2 * 3.14159265358979323846)))"
    using decode_heard [OF h p] unfolding f .
  have st: "snd (btle_stream cs D) = snd (snd (btle_scan (length (bd_buf F) - btle_need F) 0 F))"
  proof -
    have "btle_stream cs D = btle_sweep F"
      using stream_whole [of cs rate ch adv D0] unfolding process_sweep D [symmetric] F [symmetric] .
    then show ?thesis using l by (simp add: btle_sweep_def f split: prod.split)
  qed
  have "found_at F j (packet_end D (length pdu - 2)) (btle_record adv (buffer_of pdu)
      (packet_rssi (take (packet_end D (length pdu - 2)) (drop j (map snd (concat cs))))) (m * bd_sr D / (2 * 3.14159265358979323846)))"
    using m unfolding found_at_def by blast
  from scan_reaches [OF this, of 0 "length (bd_buf F) - btle_need F"] show ?thesis
    using l m(2) unfolding st by (auto simp: f)
qed

definition tx_samples :: "bits \<Rightarrow> (real \<times> real) list" where
  "tx_samples air = concat (map (\<lambda>x. replicate 4 (level x, 1)) air)"

lemma tx_samples_nth: "k < length air \<Longrightarrow> i < 4 \<Longrightarrow> (tx_samples air @ r) ! (4 * k + i) = (level (air ! k), 1)"
proof (induction air arbitrary: k)
  case (Cons x air)
  then show ?case by (cases k) (auto simp: tx_samples_def nth_append)
qed simp

lemma tx_length [simp]: "length (tx_samples air) = 4 * length air"
  by (induction air) (simp_all add: tx_samples_def)

lemma off_tab_4: "off_tab 4 k = 4 * k + 2"
proof -
  have "\<lfloor>(real k + 1 / 2) * 4 + 1 / 2\<rfloor> = int (4 * k + 2)" by (rule floor_unique) simp_all
  then show ?thesis by (simp add: off_tab_def)
qed

theorem btle_packet_delivered_witness:
  "\<exists>r\<in>set (snd (btle_stream [tx_samples (on_air 37 [1, 6, 1, 2, 3, 4, 5, 6]), replicate 1520 (0, 0)]
      (btle_reset 4000000 0 37 btle_new))). bt_mac r = [6, 5, 4, 3, 2, 1] \<and> bt_pdu_type r = 1 \<and> bt_adv_chan r = 37"
proof -
  define pdu :: bytes where "pdu = [1, 6, 1, 2, 3, 4, 5, 6]"
  define D where "D = btle_reset 4000000 0 37 btle_new"
  define air where "air = on_air 37 pdu"
  define cs where "cs = [tx_samples air, replicate 1520 (0, 0)]"
  define F where "F = btle_feed (concat cs) D"
  have d: "bd_spb D = 4" "bd_chan D = 37" "bd_thresh D = 8 / 10" "bd_buf D = []" by (simp_all add: D_def btle_reset_def btle_new_def)
  have f: "bd_chan F = 37" "bd_thresh F = 8 / 10" by (simp_all add: F_def btle_feed_def d)
  have s: "samp F 0 k = level (air ! k)" if "k < length air" for k
  proof -
    have "map fst (concat cs) ! (4 * k + 2) = level (air ! k)"
      using tx_samples_nth [OF that, of 2 "replicate 1520 (0, 0)"] that by (subst nth_map) (simp_all add: cs_def)
    then show ?thesis
      using that unfolding F_def btle_feed_def samp_with_in d off_tab_4 Let_def by (simp add: cs_def)
  qed
  have h: "heard_ok F 0 pdu 1 1 0 0"
    using s unfolding heard_ok_def heard_def f air_def [symmetric] by simp
  have p: "adv_pdu pdu" by (simp add: adv_pdu_def pdu_def)
  have n: "0 + btle_need D \<le> length (concat cs)" by (simp add: btle_need_def d cs_def)
  obtain m where "btle_record 37 (buffer_of pdu) (packet_rssi (take (packet_end D (length pdu - 2)) (drop 0 (map snd (concat cs)))))
      (m * bd_sr D / (2 * 3.14159265358979323846)) \<in> set (snd (btle_stream cs D))"
    using btle_packet_delivered [OF D_def F_def h p n] by auto
  moreover have "bt_mac (btle_record 37 (buffer_of pdu) x y) = [6, 5, 4, 3, 2, 1]" "bt_pdu_type (btle_record 37 (buffer_of pdu) x y) = 1"
    "bt_adv_chan (btle_record 37 (buffer_of pdu) x y) = 37" for x y
    by (simp_all add: btle_record_def buffer_of_def framed_def pdu_def Let_def)
  ultimately show ?thesis unfolding cs_def air_def pdu_def [symmetric] D_def [symmetric] by blast
qed

section \<open>Advertising data\<close>

definition ad_struct :: "u8 \<times> bytes \<Rightarrow> bytes" where
  "ad_struct tv = word_of_nat (Suc (length (snd tv))) # fst tv # snd tv"

lemma ad_items_structs:
  assumes "list_all (\<lambda>tv. length (snd tv) \<le> 254) xs"
  shows "ad_items (concat (map ad_struct xs) @ rest) (n, hm) =
    ad_items rest (n + length xs, fold (\<lambda>tv. ad_item (unat (fst tv)) (snd tv)) xs hm)"
  using assms
proof (induction xs arbitrary: n hm)
  case (Cons tv xs)
  have l: "unat (word_of_nat (Suc (length (snd tv))) :: u8) = Suc (length (snd tv))"
    using Cons.prems unfolding unat_of_nat by simp
  have "(word_of_nat (Suc (length (snd tv))) :: u8) \<noteq> 0"
  proof
    assume "(word_of_nat (Suc (length (snd tv))) :: u8) = 0"
    then show False using l by (simp only: unat_0)
  qed
  then have "ad_items (concat (map ad_struct (tv # xs)) @ rest) (n, hm) =
      ad_items (concat (map ad_struct xs) @ rest) (Suc n, ad_item (unat (fst tv)) (snd tv) hm)"
    using l by (subst ad_items.simps) (simp add: ad_struct_def del: of_nat_Suc)
  then show ?case using Cons by simp
qed simp

text \<open>
  Advertising data are read structure by structure.  For any sequence of structures, each with
  a type and up to 254 bytes, followed by nothing, by the early end mark or by a structure that is cut off, the
  parser applies the effect of every complete structure in its order, counts them, and reads nothing of the rest.
\<close>

theorem ad_structures_parsed:
  assumes "list_all (\<lambda>tv. length (snd tv) \<le> 254) xs" "rest = [] \<or> hd rest = 0 \<or> length rest \<le> unat (hd rest)"
  shows "parse_ad (concat (map ad_struct xs) @ rest) m =
    (case fold (\<lambda>tv. ad_item (unat (fst tv)) (snd tv)) xs ([], m) of (h, m') \<Rightarrow> ad_info h (m'\<lparr> bt_n_ad := length xs \<rparr>))"
proof -
  have "ad_items rest s = s" for s
    using assms(2) by (subst ad_items.simps) (auto split: list.split)
  then show ?thesis unfolding parse_ad_def ad_items_structs [OF assms(1)] by simp
qed

theorem ad_structures_parsed_witness:
  "bt_flags (parse_ad [2, 1, 6, 3, 9, 0x41, 0x42, 9, 0xFF] btle_default) = 6 \<and>
   bt_n_ad (parse_ad [2, 1, 6, 3, 9, 0x41, 0x42, 9, 0xFF] btle_default) = 2 \<and>
   take 3 (bt_name (parse_ad [2, 1, 6, 3, 9, 0x41, 0x42, 9, 0xFF] btle_default)) = [0x41, 0x42, 0]"
proof -
  have s: "[2, 1, 6, 3, 9, 0x41, 0x42, 9, 0xFF] = concat (map ad_struct [(1, [6]), (9, [0x41, 0x42])]) @ [9, 0xFF]"
    by (simp add: ad_struct_def)
  show ?thesis
    unfolding s by (subst (1 2 3) ad_structures_parsed) (simp_all add: ad_item_def ad_info_def ad_category_def btle_default_def
      btle_appearance_name_def put_bytes_def)
qed

section \<open>Texts\<close>

definition text_fits :: "nat \<Rightarrow> bytes \<Rightarrow> bool" where
  "text_fits n b \<longleftrightarrow> length b = n \<and> 0 \<in> set b"

definition texts_fit :: "BtleRecord \<Rightarrow> bool" where
  "texts_fit m \<longleftrightarrow> text_fits 24 (bt_name m) \<and> text_fits 48 (bt_info m)"

lemma put_bytes_fits: "length s < n \<Longrightarrow> text_fits n buf \<Longrightarrow> text_fits n (put_bytes s buf)"
  by (simp add: text_fits_def put_bytes_def)

lemma print_to_fits: "0 < n \<Longrightarrow> text_fits n buf \<Longrightarrow> text_fits n (print_to n s buf)"
  unfolding print_to_def by (intro put_bytes_fits) simp_all

lemma ad_item_fits: "texts_fit (snd hm) \<Longrightarrow> texts_fit (snd (ad_item ty v hm))"
proof -
  assume a: "texts_fit (snd hm)"
  obtain h m where hm: "hm = (h, m)" by fastforce
  have n: "text_fits 24 (bt_name m)" "text_fits 48 (bt_info m)" using a by (simp_all add: hm texts_fit_def)
  have "length (ms_swiftpair_name p 24) < 24" for p by (simp add: ms_swiftpair_name_def Let_def min_def)
  then have "text_fits 24 (put_bytes (ms_swiftpair_name p 24) (bt_name m))" "text_fits 24 (put_bytes (take 23 v) (bt_name m))" for p
    using n by (intro put_bytes_fits; simp)+
  then show ?thesis using n unfolding hm ad_item_def Let_def
    by (simp add: texts_fit_def print_to_fits)
qed

lemma ad_items_fit: "texts_fit (snd (snd s)) \<Longrightarrow> texts_fit (snd (snd (ad_items p s)))"
proof (induction p s rule: ad_items.induct)
  case (1 p s)
  show ?case
  proof (cases p)
    case (Cons l r)
    then show ?thesis using 1 ad_item_fits by (subst ad_items.simps) (auto split: prod.splits)
  qed (use 1 in \<open>simp add: ad_items.simps\<close>)
qed

lemma ad_info_fits: "texts_fit m \<Longrightarrow> texts_fit (ad_info h m)"
  by (simp add: ad_info_def Let_def texts_fit_def print_to_fits)

lemma default_fits: "texts_fit btle_default"
  by (simp add: texts_fit_def text_fits_def btle_default_def)

text \<open>
  C40: no packet overruns a text.  Whatever 44 bytes the receiver has before it, the name of the record has its 24
  bytes and the summary its 48, and both contain the zero that ends them, however long the names, the lists of
  Apple items and the names of services in the packet are.
\<close>

theorem btle_texts_fit: "texts_fit (btle_record chan raw rssi cfo)"
proof -
  have "texts_fit (parse_ad p m)" if "texts_fit m" for p m
  proof -
    obtain n h m' where r: "ad_items p (0, [], m) = (n, h, m')" by (metis prod_cases3)
    have "texts_fit m'" using ad_items_fit [of "(0, [], m)" p] that by (simp add: r)
    then have "texts_fit (m'\<lparr> bt_n_ad := n \<rparr>)" by (simp add: texts_fit_def)
    then show ?thesis unfolding parse_ad_def r by (simp add: ad_info_fits)
  qed
  moreover have "texts_fit (btle_default\<lparr> bt_crc_ok := c, bt_adv_chan := chan, bt_pdu_type := t, bt_addr_type := y,
      bt_rssi := rssi, bt_cfo_hz := cfo, bt_mac := m \<rparr>)" for c t y m using default_fits by (simp add: texts_fit_def)
  ultimately show ?thesis
    using default_fits by (simp add: btle_record_def Let_def) (simp add: texts_fit_def)
qed

end
