(* ===== verification/Spec2Isabelle.thy ===== *)
theory Spec2Isabelle
  imports DmrBptc AisFields AisAnom AcarsRx AcarsDb AdsbRx WireFacts FramingFacts FftCodec
    SendQueue DbFacts RelayProps MissionDownload HistStreamFacts MissionSync MissionRuns MissionProps
    UploadEnds BtleProps
begin

text \<open>
  BEWE is a remote spectrum receiver.  A HOST owns the radio hardware, any number of JOINs
  watch and control it, and a central relay server connects them; signal modules on the HOST
  decode AIS, ACARS, ADS-B, DMR and BLE traffic.  The development models the parts of the program that
  compute on discrete data: the wire format, the relay server with its database of
  recordings, and the decoders of the modules.

  \<^bold>\<open>Theories and the code they model\<close> (paths below the repository's root).

  \<^item> \<^verbatim>\<open>Prelude\<close>: lists, bytes, little-endian numbers, linear codes and CRC registers shared by all.
  \<^verbatim>\<open>CrcRegister\<close> and \<^verbatim>\<open>Fcs16\<close> hold the theory of burst detection for the checks.
  \<^item> \<^verbatim>\<open>DmrFec\<close>, \<^verbatim>\<open>DmrBptc\<close>: \<^verbatim>\<open>src/modules/dmr/dmr_fec.hpp\<close>, every function: Hamming, Golay, QR,
  BPTC(196,96), CRC and Reed-Solomon.
  \<^item> \<^verbatim>\<open>Ais\<close>, \<^verbatim>\<open>AisFrame\<close>, \<^verbatim>\<open>AisFields\<close>: \<^verbatim>\<open>src/modules/ais/ais_decode.hpp\<close> and \<^verbatim>\<open>ais_meta.hpp\<close>; the record
  \<^verbatim>\<open>ais_decoder\<close> has the members of the class, \<^verbatim>\<open>feed_bit\<close> its five phases.  \<^verbatim>\<open>AisAnom\<close>:
  \<^verbatim>\<open>ais_anom.cpp\<close>.
  \<^item> \<^verbatim>\<open>Acars\<close>, \<^verbatim>\<open>AcarsRx\<close>: the symbol and byte level of \<^verbatim>\<open>src/modules/acars/acars_decode.hpp\<close> and
  the tables of \<^verbatim>\<open>acars_meta.hpp\<close>; \<^verbatim>\<open>AcarsDb\<close>: \<^verbatim>\<open>acars_db.cpp\<close>.
  \<^item> \<^verbatim>\<open>Adsb\<close>, \<^verbatim>\<open>AdsbRx\<close>: \<^verbatim>\<open>src/modules/adsb/adsb_decode.hpp\<close> and \<^verbatim>\<open>adsb_meta.hpp\<close>; samples, times and
  coordinates are reals.
  \<^item> \<^verbatim>\<open>BtleMeta\<close>, \<^verbatim>\<open>Btle\<close>: \<^verbatim>\<open>src/modules/btle/btle_meta.hpp\<close> and \<^verbatim>\<open>btle_decode.hpp\<close>, the receiver of BLE
  advertising packets.  \<^verbatim>\<open>BtleAir\<close>: the packet of the standard; \<^verbatim>\<open>BtleRx\<close>: synchronisation; \<^verbatim>\<open>BtleStream\<close>: pieces of a stream;
  \<^verbatim>\<open>BtleProps\<close>: delivery, advertising data and texts.
  \<^item> \<^verbatim>\<open>Wire\<close>, \<^verbatim>\<open>Packets\<close>, \<^verbatim>\<open>WireFacts\<close>: every packed struct of \<^verbatim>\<open>src/net_protocol.hpp\<close> and
  \<^verbatim>\<open>central/central_proto.hpp\<close> as a layout with one encoder and decoder.  \<^verbatim>\<open>Framing\<close>,
  \<^verbatim>\<open>FramingFacts\<close>: the send and receive loops and the packet loops of server, client and relay.
  \<^verbatim>\<open>FftCodec\<close>: the 6-bit row codec and the byte-rate meter.
  \<^item> \<^verbatim>\<open>SendQueue\<close>: the four send queues of a connection, \<^verbatim>\<open>JoinEntry\<close> in
  \<^verbatim>\<open>central/central_server.hpp\<close>.
  \<^item> \<^verbatim>\<open>Sigmf\<close>: \<^verbatim>\<open>src/sigmf.hpp\<close>.  \<^verbatim>\<open>DbFiles\<close>, \<^verbatim>\<open>DbFacts\<close>: the database of recordings in
  \<^verbatim>\<open>central/central_server.cpp\<close> and its other end in \<^verbatim>\<open>src/net_client.cpp\<close> and \<^verbatim>\<open>src/ui.cpp\<close>.
  \<^item> \<^verbatim>\<open>Relay\<close>, \<^verbatim>\<open>RelayDispatch\<close>, \<^verbatim>\<open>RelayServer\<close>, \<^verbatim>\<open>RelayFacts\<close>, \<^verbatim>\<open>RelayProps\<close>: the relay server of
  \<^verbatim>\<open>central/central_server.cpp\<close>: rooms and connections, the packets of a HOST
  (\<^verbatim>\<open>dispatch_to_joins\<close>), the packets of a JOIN (\<^verbatim>\<open>intercept_join_cmd\<close>), opening and closing,
  and the relation \<^verbatim>\<open>server_run\<close> of all event sequences.
  \<^item> \<^verbatim>\<open>HistFile\<close>, \<^verbatim>\<open>HistFacts\<close>: the history files of \<^verbatim>\<open>src/long_waterfall.hpp\<close>, raw and compressed, with
  the two conversions of \<^verbatim>\<open>central/central_mission_archive.cpp\<close>.  \<^verbatim>\<open>HistReader\<close>: \<^verbatim>\<open>src/hist_reader.cpp\<close>;
  the locale \<^verbatim>\<open>row_reader\<close> states what a client relies on.
  \<^item> \<^verbatim>\<open>MissionArchive\<close>: the file requests of \<^verbatim>\<open>central/central_mission_archive.cpp\<close>; \<^verbatim>\<open>MissionPush\<close>: the
  uploads of \<^verbatim>\<open>src/mission_push.cpp\<close> (HOST) and \<^verbatim>\<open>src/mission_view.cpp\<close> (JOIN); \<^verbatim>\<open>ArchiveFacts\<close>: both
  sides of an upload; \<^verbatim>\<open>MissionDownload\<close>: the client of a download and both of its sides.
  \<^item> \<^verbatim>\<open>HistMerge\<close>: \<^verbatim>\<open>merge_hist_segment\<close>; \<^verbatim>\<open>HistStream\<close>, \<^verbatim>\<open>HistStreamFacts\<close>: the recording of spectrum
  frames, \<^verbatim>\<open>archive_hist_on_*\<close>, and the relation \<^verbatim>\<open>hist_step\<close> of its events.
  \<^item> \<^verbatim>\<open>Kst\<close>: the calendar and the clock of \<^verbatim>\<open>src/kst_time.hpp\<close>, the rounding of numbers that are printed,
  and the names of history files; \<^verbatim>\<open>DecText\<close>: decimal texts read back.  \<^verbatim>\<open>HistCheck\<close>: \<^verbatim>\<open>src/hist_check.cpp\<close>,
  the comparison of history files with the archive, and the answer of the relay;
  \<^verbatim>\<open>HistRecover\<close>, \<^verbatim>\<open>HistComplete\<close>: what it removes and what it completes.
  \<^item> \<^verbatim>\<open>MissionJson\<close>: the entries of missions and the file \<^verbatim>\<open>missions.json\<close>, written and read;
  \<^verbatim>\<open>Mission\<close>: the functions of \<^verbatim>\<open>src/mission.cpp\<close> over the record \<^verbatim>\<open>viewer\<close>, and the receiver of the snapshot in
  \<^verbatim>\<open>src/ui.cpp\<close>.  \<^verbatim>\<open>MissionFacts\<close>: their effects; \<^verbatim>\<open>MissionProps\<close>: names, cleanup and deletion;
  \<^verbatim>\<open>MissionRuns\<close>: the relation \<^verbatim>\<open>mission_run\<close> of all sequences of events; \<^verbatim>\<open>MissionStore\<close>: restarts;
  \<^verbatim>\<open>MissionSync\<close>: the snapshot.  \<^verbatim>\<open>UploadEnds\<close>: the loops that send a file end.

  \<^bold>\<open>Interaction.\<close>  \<^verbatim>\<open>server_step\<close> takes one event: a HOST or JOIN arrives or leaves, one frame or
  packet arrives, or the watchdog runs.  A frame of a HOST is dispatched to the room's JOINs, to
  the database (\<^verbatim>\<open>DbFiles\<close>), to the caches, and to other rooms (chat and module packets only).
  What a room sends is a list of queue operations per JOIN (\<^verbatim>\<open>je_ops\<close>), which \<^verbatim>\<open>SendQueue\<close>
  interprets, and a list of frames for the HOST.  Parts of the server that are not modelled
  appear as values of \<^verbatim>\<open>relay_call\<close> with the arguments they are called with.  The mission
  archive is a state of its own (\<^verbatim>\<open>archive\<close>, \<^verbatim>\<open>hist_room\<close>) with events for the packets that
  \<^verbatim>\<open>dispatch_to_joins\<close> and \<^verbatim>\<open>intercept_join_cmd\<close> hand to it.

  \<^bold>\<open>What the lemmas show.\<close>  The decoders deliver what was sent (round trips over whole bit or
  symbol streams), detect or repair the errors they are designed for, and keep their
  buffers in bounds on any input.  Packets survive any segmentation of the stream.  The queues
  refine FIFOs and drain.  Files of the database arrive unchanged, in both directions, and no
  request leaves the database directories.  On every run of the server the authentication gate
  holds, rooms are isolated, and the listener masks are exact.  A HOST removes an uploaded file
  only when the archive has it, downloads resume where they stopped, no packet leaves the archive's
  directories, recorded spectra agree with their headers, and compressing or merging them keeps
  every row; what the archive misses of a history file is sent and merged there before the
  HOST's copy is removed.  The missions of a HOST survive restarts, change once a day, and are shown by
  every JOIN.  Several theorems show
  that the code does not do what it means to do: the Hamming(17,12) equations, the stale start
  sign of the AIS decoder, the stale format field of ADS-B, the client's timeout, the missing
  end mark of downloads, the wrapping length checks, the lost missions, the shared transfer ids,
  the torn rows of merged files and the files a deleted mission leaves.

  \<^bold>\<open>Conventions.\<close>  Machine integers are words where wrapping or bit operations matter; sizes and
  indices that the code keeps in bounds are naturals.  Access outside a buffer is the value
  \<^verbatim>\<open>None\<close> where the code does not exclude it.  Loops are structural recursions or have a
  measure; no fuel is used.  Packets of the relay are byte lists together with what an
  earlier packet has left in the receive buffer, where the code can read it.

  \<^bold>\<open>Not modelled.\<close>  The user interface, device drivers, the floating-point signal processing of
  demodulators and of the ACARS front end, threads and sockets (each handler is atomic, as its
  lock makes it), the listing of the mission archive and its snapshot for a new JOIN, the thread
  that compresses history files in the background, the emitter database, the station
  list and status pages, and external libraries: zstd and zlib are parameters.
\<close>

end
